(* ===== verification/Prelude.thy ===== *)
theory Prelude
  imports Complex_Main "HOL-Library.Word" "HOL-Library.List_Lexorder" "HOL-Library.Char_ord"
    "HOL-Library.Product_Lexorder"
begin

text \<open>
  Shared vocabulary of the development: the machine types of the C++ sources, ordered maps
  (\<^verbatim>\<open>std::map\<close>) as key-sorted association lists, and the result type of code that may
  crash or throw, with its sequencing combinators.

  \<^item> Signed C++ integers (\<^verbatim>\<open>int\<close>, \<^verbatim>\<open>int64_t\<close>, \<^verbatim>\<open>CAmount\<close>) are \<open>int\<close>: their overflow is
    undefined behaviour, so there is no wrap-around to model.
  \<^item> Unsigned C++ integers are words: \<open>u32\<close> and \<open>u64\<close> wrap around.
  \<^item> A \<^verbatim>\<open>uint256\<close> is the 256-bit word whose least significant byte is \<^verbatim>\<open>data[0]\<close>, so that the order
    of words is the \<^verbatim>\<open>operator<\<close> by which \<^verbatim>\<open>std::map<uint256, ...>\<close> iterates.
\<close>

unbundle bit_operations_syntax

section \<open>Machine types\<close>

type_synonym u8 = "8 word"
type_synonym u32 = "32 word"
type_synonym u64 = "64 word"
type_synonym uint256 = "256 word"
type_synonym CAmount = int
type_synonym bytes = "u8 list"

named_theorems map_simps \<open>lookups after an update of an ordered map\<close>
named_theorems step_defs \<open>definitions of the single steps of a pass\<close>

section \<open>Ordered maps\<close>

type_synonym ('k, 'v) omap = "('k \<times> 'v) list"

text \<open>\<open>m[k] = v\<close>: overwrite the entry of \<open>k\<close> or insert it at its place in the order.\<close>

fun omap_put :: "'k::linorder \<Rightarrow> 'v \<Rightarrow> ('k, 'v) omap \<Rightarrow> ('k, 'v) omap" where
  "omap_put k v [] = [(k, v)]"
| "omap_put k v (e # m) =
     (if fst e = k then (k, v) # m
      else if k < fst e then (k, v) # e # m
      else e # omap_put k v m)"

text \<open>\<open>m.insert({k, v})\<close>: keeps an existing entry.\<close>

definition omap_insert :: "'k::linorder \<Rightarrow> 'v \<Rightarrow> ('k, 'v) omap \<Rightarrow> ('k, 'v) omap" where
  "omap_insert k v m = (if map_of m k = None then omap_put k v m else m)"

text \<open>\<open>m.erase(k)\<close>\<close>

definition omap_erase :: "'k \<Rightarrow> ('k, 'v) omap \<Rightarrow> ('k, 'v) omap" where
  "omap_erase k m = filter (\<lambda>e. fst e \<noteq> k) m"

text \<open>\<open>m.count(k)\<close>\<close>

definition omap_has :: "'k \<Rightarrow> ('k, 'v) omap \<Rightarrow> bool" where
  "omap_has k m = (map_of m k \<noteq> None)"

text \<open>\<open>m[k]\<close> read on a map whose value type has the default value \<open>d\<close>.\<close>

definition omap_get :: "'v \<Rightarrow> 'k \<Rightarrow> ('k, 'v) omap \<Rightarrow> 'v" where
  "omap_get d k m = (case map_of m k of None \<Rightarrow> d | Some v \<Rightarrow> v)"

text \<open>\<open>for (auto& it: src) dst[it.first] = it.second\<close>\<close>

definition omap_put_all :: "('k::linorder, 'v) omap \<Rightarrow> ('k, 'v) omap \<Rightarrow> ('k, 'v) omap" where
  "omap_put_all src dst = fold (\<lambda>e. omap_put (fst e) (snd e)) src dst"

text \<open>\<open>dst.insert(src.begin(), src.end())\<close>\<close>

definition omap_insert_all :: "('k::linorder, 'v) omap \<Rightarrow> ('k, 'v) omap \<Rightarrow> ('k, 'v) omap" where
  "omap_insert_all src dst = fold (\<lambda>e. omap_insert (fst e) (snd e)) src dst"

text \<open>The representation invariant: strictly increasing keys.\<close>

definition omap_ok :: "('k::linorder, 'v) omap \<Rightarrow> bool" where
  "omap_ok m = sorted_wrt (<) (map fst m)"

lemma map_of_omap_put [simp, map_simps]: "map_of (omap_put k v m) = (map_of m)(k \<mapsto> v)"
  by (induction m) (auto simp: fun_eq_iff)

lemma map_of_omap_insert [map_simps]:
  "map_of (omap_insert k v m) = (case map_of m k of None \<Rightarrow> (map_of m)(k \<mapsto> v) | Some _ \<Rightarrow> map_of m)"
  by (simp add: omap_insert_def split: option.split)

lemma map_of_omap_erase [simp, map_simps]: "map_of (omap_erase k m) = (map_of m)(k := None)"
  by (induction m) (auto simp: omap_erase_def fun_eq_iff)

lemma omap_has_iff [simp]: "omap_has k m \<longleftrightarrow> k \<in> fst ` set m"
  by (simp add: omap_has_def map_of_eq_None_iff)

lemma omap_put_not_Nil [simp]: "omap_put k v m \<noteq> []"
  by (cases m) auto

lemma fst_set_omap_put [simp]: "fst ` set (omap_put k v m) = insert k (fst ` set m)"
proof -
  have "dom (map_of (omap_put k v m)) = insert k (dom (map_of m))" by simp
  then show ?thesis by (simp only: dom_map_of_conv_image_fst)
qed

lemma omap_ok_Nil [simp]: "omap_ok []"
  by (simp add: omap_ok_def)

lemma omap_ok_Cons: "omap_ok (e # m) \<longleftrightarrow> (\<forall>k \<in> fst ` set m. fst e < k) \<and> omap_ok m"
  by (auto simp: omap_ok_def)

lemma omap_ok_put [simp, intro]: "omap_ok m \<Longrightarrow> omap_ok (omap_put k v m)"
  by (induction m) (auto simp: omap_ok_Cons simp del: set_map)

lemma omap_ok_insert [simp, intro]: "omap_ok m \<Longrightarrow> omap_ok (omap_insert k v m)"
  by (simp add: omap_insert_def)

lemma omap_ok_erase [simp, intro]: "omap_ok m \<Longrightarrow> omap_ok (omap_erase k m)"
  by (induction m) (auto simp: omap_erase_def omap_ok_Cons)

lemma omap_ok_distinct: "omap_ok m \<Longrightarrow> distinct (map fst m)"
  by (simp add: omap_ok_def strict_sorted_iff)

lemma omap_ok_filter: "omap_ok m \<Longrightarrow> omap_ok (filter P m)"
  by (induction m) (auto simp: omap_ok_Cons)

text \<open>Two ordered maps with the same lookups are the same list: the order leaves no freedom.\<close>

lemma omap_ext:
  assumes "omap_ok m" "omap_ok n" "map_of m = map_of n"
  shows "m = n"
proof -
  have "set (map fst m) = set (map fst n)"
    using arg_cong [OF assms(3), of dom] by (simp add: dom_map_of_conv_image_fst)
  then have "map fst m = map fst n"
    using assms(1,2) by (auto simp: omap_ok_def intro!: strict_sorted_equal)
  moreover have "set m = set n"
    using assms omap_ok_distinct by (metis map_of_inject_set)
  ultimately show ?thesis
    using assms(1) omap_ok_distinct by (intro map_inj_on [of fst m n])
      (auto simp: distinct_map inj_on_def)
qed

lemma omap_put_triv: "omap_ok m \<Longrightarrow> map_of m k = Some v \<Longrightarrow> omap_put k v m = m"
  by (rule omap_ext) (auto simp: fun_eq_iff)

lemma omap_put_put [simp]: "omap_ok m \<Longrightarrow> omap_put k v (omap_put k w m) = omap_put k v m"
  by (rule omap_ext) (auto simp: fun_eq_iff)

lemma omap_put_erase: "omap_ok m \<Longrightarrow> map_of m k = None \<Longrightarrow> omap_erase k (omap_put k v m) = m"
  by (rule omap_ext) (auto simp: fun_eq_iff)

lemma omap_ok_put_all [simp, intro]: "omap_ok dst \<Longrightarrow> omap_ok (omap_put_all src dst)"
  unfolding omap_put_all_def by (induction src arbitrary: dst) auto

lemma omap_ok_insert_all [simp, intro]: "omap_ok dst \<Longrightarrow> omap_ok (omap_insert_all src dst)"
  unfolding omap_insert_all_def by (induction src arbitrary: dst) auto

lemma map_of_omap_put_all:
  "distinct (map fst src) \<Longrightarrow> map_of (omap_put_all src dst) = map_of dst ++ map_of src"
proof (induction src arbitrary: dst)
  case Nil
  then show ?case by (simp add: omap_put_all_def)
next
  case (Cons e src)
  obtain k v where e: "e = (k, v)" by (cases e)
  have "map_of (omap_put_all (e # src) dst) = map_of (omap_put_all src (omap_put k v dst))"
    by (simp add: omap_put_all_def e)
  also have "\<dots> = (map_of dst)(k \<mapsto> v) ++ map_of src" using Cons by simp
  also have "\<dots> = map_of dst ++ map_of (e # src)"
  proof -
    have "map_of src k = None" using Cons.prems e by (simp add: map_of_eq_None_iff)
    then show ?thesis by (auto simp: e map_add_def fun_eq_iff split: option.split)
  qed
  finally show ?case .
qed

lemma map_of_omap_insert_all:
  "map_of (omap_insert_all src dst) = map_of src ++ map_of dst"
proof (induction src arbitrary: dst)
  case Nil
  then show ?case by (simp add: omap_insert_all_def)
next
  case (Cons e src)
  obtain k v where e: "e = (k, v)" by (cases e)
  have "map_of (omap_insert_all (e # src) dst) = map_of (omap_insert_all src (omap_insert k v dst))"
    by (simp add: omap_insert_all_def e)
  also have "\<dots> = map_of src ++ map_of (omap_insert k v dst)" by (rule Cons.IH)
  also have "\<dots> = map_of (e # src) ++ map_of dst"
    by (auto simp: e map_of_omap_insert map_add_def fun_eq_iff split: option.split)
  finally show ?case .
qed

lemma omap_ok_map_of_filter:
  "omap_ok m \<Longrightarrow> map_of (filter (\<lambda>e. P (snd e)) m) k =
     (case map_of m k of None \<Rightarrow> None | Some v \<Rightarrow> if P v then Some v else None)"
  by (induction m) (auto simp: omap_ok_Cons map_of_eq_None_iff split: option.split)

section \<open>Code that may fail\<close>

text \<open>
  The ways the modelled code can stop without returning: a failed \<^verbatim>\<open>assert\<close>, an integer division
  by zero, the dereference of a null pointer, and an exception that leaves the function.
\<close>

datatype crash = AssertFailed | DivisionByZero | NullDereference | StdException

type_synonym 'a result = "crash + 'a"

definition bindR :: "'e + 'a \<Rightarrow> ('a \<Rightarrow> 'e + 'b) \<Rightarrow> 'e + 'b" where
  "bindR r f = (case r of Inl e \<Rightarrow> Inl e | Inr x \<Rightarrow> f x)"

lemma bindR_Inr [simp]: "bindR (Inr x) f = f x"
  by (simp add: bindR_def)

lemma bindR_Inl [simp]: "bindR (Inl e) f = Inl e"
  by (simp add: bindR_def)

lemma bindR_eq_Inr: "bindR r f = Inr y \<longleftrightarrow> (\<exists>x. r = Inr x \<and> f x = Inr y)"
  by (simp add: bindR_def split: sum.split)

lemma bindR_InrE [elim]:
  assumes "bindR r f = Inr y"
  obtains x where "r = Inr x" "f x = Inr y"
  using assms by (auto simp: bindR_eq_Inr)

text \<open>A loop over a list whose body may fail.\<close>

primrec foldR :: "('a \<Rightarrow> 's \<Rightarrow> 'e + 's) \<Rightarrow> 'a list \<Rightarrow> 's \<Rightarrow> 'e + 's" where
  "foldR f [] s = Inr s"
| "foldR f (x # xs) s = bindR (f x s) (foldR f xs)"

lemma foldR_append: "foldR f (xs @ ys) s = bindR (foldR f xs s) (foldR f ys)"
  by (induction xs arbitrary: s) (auto simp: bindR_def split: sum.split)

text \<open>Two loops over the same list that simulate each other step by step.\<close>

lemma fold_simulation:
  assumes "R s t" and "\<And>x s t. x \<in> set xs \<Longrightarrow> R s t \<Longrightarrow> R (f x s) (g x t)"
  shows "R (fold f xs s) (fold g xs t)"
  using assms
proof (induction xs arbitrary: s t)
  case Nil
  then show ?case by simp
next
  case (Cons x xs)
  then have "R (f x s) (g x t)" by simp
  with Cons.prems(2) have "R (fold f xs (f x s)) (fold g xs (g x t))" by (intro Cons.IH) auto
  then show ?case by simp
qed

text \<open>The loop rule: an invariant kept by every iteration holds at the end.\<close>

lemma foldR_invariant [consumes 2, case_names step]:
  assumes "foldR f xs s = Inr t" and "P s"
    and "\<And>x s t. x \<in> set xs \<Longrightarrow> P s \<Longrightarrow> f x s = Inr t \<Longrightarrow> P t"
  shows "P t"
  using assms
proof (induction xs arbitrary: s)
  case Nil
  then show ?case by simp
next
  case (Cons x xs)
  from Cons.prems(1) obtain u where u: "f x s = Inr u" "foldR f xs u = Inr t" by auto
  with Cons.prems have "P u" by (meson list.set_intros(1))
  with u(2) Cons.prems(3) show ?case by (intro Cons.IH) auto
qed

text \<open>The same for a relation between the state before and the state after the loop.\<close>

lemma foldR_relation [consumes 1, case_names refl trans step]:
  assumes "foldR f xs s = Inr t"
    and "\<And>s. R s s"
    and "\<And>s t u. R s t \<Longrightarrow> R t u \<Longrightarrow> R s u"
    and "\<And>x s t. x \<in> set xs \<Longrightarrow> f x s = Inr t \<Longrightarrow> R s t"
  shows "R s t"
proof -
  from assms(1) have "R s t \<and> True"
    by (rule foldR_invariant [where P = "\<lambda>t. R s t \<and> True"]) (use assms in blast)+
  then show ?thesis ..
qed

lemma foldR_cong [fundef_cong]:
  "xs = ys \<Longrightarrow> s = t \<Longrightarrow> (\<And>x s. x \<in> set ys \<Longrightarrow> f x s = g x s) \<Longrightarrow> foldR f xs s = foldR g ys t"
  by (induction xs arbitrary: s t ys) (auto simp: bindR_def split: sum.split)

text \<open>A loop that is total when its body is.\<close>

lemma foldR_total:
  assumes "\<And>x s. x \<in> set xs \<Longrightarrow> P s \<Longrightarrow> \<exists>t. f x s = Inr t \<and> P t" and "P s"
  shows "\<exists>t. foldR f xs s = Inr t \<and> P t"
  using assms
proof (induction xs arbitrary: s)
  case Nil
  then show ?case by simp
next
  case (Cons x xs)
  then obtain u where "f x s = Inr u" "P u" by (meson list.set_intros(1))
  with Cons show ?case by (simp add: bindR_def)
qed

end
