(* ===== verification/CFloat.thy ===== *)
theory CFloat
  imports Prelude
begin

text \<open>
  The floating-point arithmetic of the voting quorums. A \<^verbatim>\<open>float\<close> or \<^verbatim>\<open>double\<close> value is the
  rational number it stands for; an operation computes exactly and rounds to 24 or 53 significant
  bits, to nearest with ties to even (IEEE 754, \<^verbatim>\<open>FLT_EVAL_METHOD == 0\<close>). The exponent range is
  not modelled: the quorum code works on values between 1/10000 and 2^64, far from overflow and
  from the subnormal numbers.
\<close>

section \<open>Rounding\<close>

text \<open>The number of bits of a positive integer, and \<open>\<lfloor>log2 x\<rfloor>\<close> of a positive rational.\<close>

function int_bits :: "int \<Rightarrow> int" where
  "int_bits n = (if n \<le> 0 then 0 else 1 + int_bits (n div 2))"
  by pat_completeness auto
termination by (relation "measure nat") auto

declare int_bits.simps [simp del]

definition ilog2 :: "rat \<Rightarrow> int" where
  "ilog2 x = (let (n, d) = quotient_of x; k = int_bits n - int_bits d
              in if 2 powi k \<le> x then k else k - 1)"

definition round_half_even :: "rat \<Rightarrow> int" where
  "round_half_even y = (let f = \<lfloor>y\<rfloor>; r = y - of_int f
     in if r < 1 / 2 then f else if 1 / 2 < r then f + 1 else if even f then f else f + 1)"

definition rnd_pos :: "nat \<Rightarrow> rat \<Rightarrow> rat" where
  "rnd_pos p x = (let u = 2 powi (ilog2 x - int p + 1) in of_int (round_half_even (x / u)) * u)"

definition rnd :: "nat \<Rightarrow> rat \<Rightarrow> rat" where
  "rnd p x = (if x = 0 then 0 else if 0 < x then rnd_pos p x else - rnd_pos p (- x))"

text \<open>Conversion to \<^verbatim>\<open>float\<close> and to \<^verbatim>\<open>double\<close>.\<close>

definition flt :: "rat \<Rightarrow> rat" where "flt x = rnd 24 x"
definition dbl :: "rat \<Rightarrow> rat" where "dbl x = rnd 53 x"

section \<open>The logarithm\<close>

lemma powi2_pos [simp]: "(0::rat) < 2 powi k"
  by (simp add: zero_less_power_int)

lemma powi2_Suc: "(2::rat) powi (k + 1) = 2 * 2 powi k"
  by (simp add: power_int_add)

lemma powi2_mono: "k \<le> l \<Longrightarrow> (2::rat) powi k \<le> 2 powi l"
  by (rule power_int_increasing) auto

lemma powi2_less_iff [simp]: "(2::rat) powi k < 2 powi l \<longleftrightarrow> k < l"
proof
  assume "(2::rat) powi k < 2 powi l"
  then show "k < l" using powi2_mono [of l k] by (meson leD not_le)
next
  assume "k < l"
  then have "(2::rat) powi (k + 1) \<le> 2 powi l" by (intro powi2_mono) simp
  then show "(2::rat) powi k < 2 powi l"
    using powi2_pos [of k] unfolding powi2_Suc by linarith
qed

lemma powi2_add: "(2::rat) powi (k + l) = 2 powi k * 2 powi l"
  by (simp add: power_int_add)

lemma int_bits_nonneg: "0 \<le> int_bits n"
proof (induction n rule: int_bits.induct)
  case (1 n)
  then show ?case by (cases "n \<le> 0") (simp_all add: int_bits.simps [of n])
qed

lemma int_bits_bounds:
  assumes "0 < (n::int)"
  shows "2 powi (int_bits n - 1) \<le> (of_int n :: rat) \<and> (of_int n :: rat) < 2 powi (int_bits n)"
  using assms
proof (induction n rule: int_bits.induct)
  case (1 n)
  show ?case
  proof (cases "n = 1")
    case True
    have "int_bits 1 = 1" by (simp add: int_bits.simps)
    with True show ?thesis by simp
  next
    case False
    let ?m = "n div 2" and ?b = "int_bits (n div 2)"
    from False 1 have m: "2 powi (?b - 1) \<le> (of_int ?m :: rat)" "(of_int ?m :: rat) < 2 powi ?b" by auto
    have b: "int_bits n = ?b + 1" using 1(2) by (subst int_bits.simps) simp
    have p: "(2::rat) powi ?b = 2 * 2 powi (?b - 1)" "(2::rat) powi (?b + 1) = 2 * 2 powi ?b"
      by (simp_all add: power_int_add power_int_diff)
    have lo: "(of_int (2 * ?m) :: rat) \<le> of_int n" by (simp only: of_int_le_iff)
    have e: "(2::rat) powi ?b = of_int (2 ^ nat ?b)" using int_bits_nonneg [of ?m]
      by (metis of_int_numeral of_int_power nat_0_le power_int_of_nat)
    then have "?m < 2 ^ nat ?b" using m(2) by (simp only: of_int_less_iff)
    then have "n < 2 * 2 ^ nat ?b" by linarith
    then have "(of_int n :: rat) < of_int (2 * 2 ^ nat ?b)" by (simp only: of_int_less_iff)
    then have hi: "(of_int n :: rat) < 2 powi (?b + 1)" using e p by simp
    from m(1) lo p hi show ?thesis unfolding b by simp
  qed
qed

lemma ilog2_bounds:
  assumes "0 < x"
  shows "2 powi (ilog2 x) \<le> x \<and> x < 2 powi (ilog2 x + 1)"
proof -
  obtain n d where nd: "quotient_of x = (n, d)" by fastforce
  have d: "0 < d" and x: "x = of_int n / of_int d"
    using quotient_of_denom_pos [OF nd] quotient_of_div [OF nd] by auto
  with assms have n: "0 < n" by (simp add: zero_less_divide_iff)
  let ?a = "int_bits n" and ?b = "int_bits d"
  note bn = int_bits_bounds [OF n, THEN conjunct1] int_bits_bounds [OF n, THEN conjunct2]
    and bd = int_bits_bounds [OF d, THEN conjunct1] int_bits_bounds [OF d, THEN conjunct2]
  have hi: "x < 2 powi (?a - ?b + 1)"
  proof -
    have "x * 2 powi (?b - 1) \<le> x * of_int d"
      using bd(1) assms by (intro mult_left_mono) auto
    also have "x * of_int d = of_int n" using d x by simp
    also have "\<dots> < 2 powi ?a" by (rule bn(2))
    also have "2 powi ?a = 2 powi (?a - ?b + 1) * (2::rat) powi (?b - 1)"
      using powi2_add [of "?a - ?b + 1" "?b - 1"] by (simp del: power_int_of_nat)
    finally show ?thesis by (simp add: mult_less_cancel_right del: power_int_of_nat)
  qed
  have lo: "2 powi (?a - ?b - 1) \<le> x"
  proof -
    have "2 powi (?a - ?b - 1) * 2 powi ?b = (2::rat) powi (?a - 1)"
      using powi2_add [of "?a - ?b - 1" ?b] by (simp del: power_int_of_nat)
    also have "\<dots> \<le> of_int n" by (rule bn(1))
    also have "\<dots> = x * of_int d" using d x by simp
    also have "\<dots> \<le> x * 2 powi ?b" using bd(2) assms by (intro mult_left_mono) auto
    finally show ?thesis by (simp add: mult_le_cancel_right del: power_int_of_nat)
  qed
  have "ilog2 x = (if 2 powi (?a - ?b) \<le> x then ?a - ?b else ?a - ?b - 1)"
    by (simp add: ilog2_def nd Let_def)
  then show ?thesis using hi lo by auto
qed

lemma ilog2_unique:
  assumes "2 powi k \<le> x" "x < 2 powi (k + 1)"
  shows "ilog2 x = k"
proof -
  have x: "0 < x" using assms(1) powi2_pos order_less_le_trans by blast
  note b = ilog2_bounds [OF x]
  have "(2::rat) powi (ilog2 x) < 2 powi (k + 1)" using b assms by linarith
  then have "ilog2 x < k + 1" by simp
  moreover have "(2::rat) powi k < 2 powi (ilog2 x + 1)" using b assms by linarith
  then have "k < ilog2 x + 1" by simp
  ultimately show ?thesis by simp
qed

lemma ilog2_mono:
  assumes "0 < x" "x \<le> y"
  shows "ilog2 x \<le> ilog2 y"
proof -
  have "(2::rat) powi (ilog2 x) < 2 powi (ilog2 y + 1)"
    using ilog2_bounds [of x] ilog2_bounds [of y] assms by linarith
  then show ?thesis by simp
qed

section \<open>Rounding to an integer\<close>

lemma round_half_even_of_int [simp]: "round_half_even (of_int k) = k"
  by (simp add: round_half_even_def)

lemma round_half_even_floor: "\<lfloor>y\<rfloor> \<le> round_half_even y \<and> round_half_even y \<le> \<lfloor>y\<rfloor> + 1"
  by (simp add: round_half_even_def Let_def)

lemma round_half_even_mono:
  assumes "x \<le> y"
  shows "round_half_even x \<le> round_half_even y"
proof (cases "\<lfloor>x\<rfloor> = \<lfloor>y\<rfloor>")
  case True
  with assms show ?thesis by (auto simp: round_half_even_def Let_def)
next
  case False
  with assms have "\<lfloor>x\<rfloor> + 1 \<le> \<lfloor>y\<rfloor>" using floor_mono [of x y] by simp
  then show ?thesis using round_half_even_floor [of x] round_half_even_floor [of y] by linarith
qed

section \<open>Rounding is monotone and exact on representable values\<close>

lemma rnd_pos_bounds:
  assumes "0 < x" "0 < p"
  shows "2 powi (ilog2 x) \<le> rnd_pos p x" and "rnd_pos p x \<le> 2 powi (ilog2 x + 1)"
proof -
  let ?u = "2 powi (ilog2 x - int p + 1) :: rat"
  have u: "0 < ?u" by simp
  have lo: "2 powi (ilog2 x) = of_int (2 ^ (p - 1)) * ?u"
  proof -
    have "ilog2 x = int (p - 1) + (ilog2 x - int p + 1)" using assms(2) by simp
    then have "(2::rat) powi (ilog2 x) = 2 powi (int (p - 1)) * ?u"
      by (metis powi2_add)
    then show ?thesis by (simp only: power_int_of_nat of_int_power of_int_numeral)
  qed
  have hi: "2 powi (ilog2 x + 1) = of_int (2 ^ p) * ?u"
    using powi2_add [of "int p" "ilog2 x - int p + 1"] by (simp add: of_nat_diff)
  note b = ilog2_bounds [OF assms(1)]
  have "of_int (2 ^ (p - 1)) \<le> x / ?u" using b lo u by (simp add: pos_le_divide_eq)
  then have "2 ^ (p - 1) \<le> round_half_even (x / ?u)"
    using round_half_even_mono round_half_even_of_int by metis
  then have "(of_int (2 ^ (p - 1)) :: rat) \<le> of_int (round_half_even (x / ?u))"
    by (simp only: of_int_le_iff)
  then show "2 powi (ilog2 x) \<le> rnd_pos p x"
    unfolding lo rnd_pos_def Let_def using u by (intro mult_right_mono) auto
  have "x / ?u \<le> of_int (2 ^ p)" using b hi u by (simp add: pos_divide_le_eq)
  then have "round_half_even (x / ?u) \<le> 2 ^ p"
    using round_half_even_mono round_half_even_of_int by metis
  then have "(of_int (round_half_even (x / ?u)) :: rat) \<le> of_int (2 ^ p)"
    by (simp only: of_int_le_iff)
  then show "rnd_pos p x \<le> 2 powi (ilog2 x + 1)"
    unfolding hi rnd_pos_def Let_def using u by (intro mult_right_mono) auto
qed

lemma rnd_pos_mono:
  assumes "0 < x" "x \<le> y" "0 < p"
  shows "rnd_pos p x \<le> rnd_pos p y"
proof (cases "ilog2 x = ilog2 y")
  case True
  let ?u = "2 powi (ilog2 y - int p + 1) :: rat"
  have "round_half_even (x / ?u) \<le> round_half_even (y / ?u)"
    using assms by (intro round_half_even_mono divide_right_mono) auto
  then show ?thesis
    by (auto simp: rnd_pos_def Let_def True intro!: mult_right_mono)
next
  case False
  with ilog2_mono [OF assms(1,2)] have "ilog2 x + 1 \<le> ilog2 y" by simp
  have "rnd_pos p x \<le> 2 powi (ilog2 x + 1)" using assms by (intro rnd_pos_bounds)
  also have "\<dots> \<le> 2 powi (ilog2 y)" by (rule powi2_mono) fact
  also have "\<dots> \<le> rnd_pos p y" using assms by (intro rnd_pos_bounds) auto
  finally show ?thesis .
qed

lemma rnd_pos_pos: "0 < x \<Longrightarrow> 0 < p \<Longrightarrow> 0 < rnd_pos p x"
  using rnd_pos_bounds(1) powi2_pos order_less_le_trans by blast

lemma rnd_mono:
  assumes "x \<le> y" "0 < p"
  shows "rnd p x \<le> rnd p y"
proof -
  consider "0 < x" | "x \<le> 0" "0 \<le> y" | "y < 0" by linarith
  then show ?thesis
  proof cases
    case 1
    with assms show ?thesis by (simp add: rnd_def rnd_pos_mono)
  next
    case 2
    have "rnd p x \<le> 0" using 2 rnd_pos_pos [of "- x" p] assms(2) by (auto simp: rnd_def)
    moreover have "0 \<le> rnd p y" using 2 rnd_pos_pos [of y p] assms(2) by (auto simp: rnd_def)
    ultimately show ?thesis by simp
  next
    case 3
    with assms rnd_pos_mono [of "- y" "- x" p] show ?thesis by (simp add: rnd_def)
  qed
qed

lemma rnd_pos_exact:
  assumes "0 < x" "0 < p" and x: "x = of_int k * 2 powi e" and "k \<le> 2 ^ p"
  shows "rnd_pos p x = x"
proof -
  let ?g = "ilog2 x - int p + 1"
  have "x \<le> 2 powi (int p + e)"
  proof -
    have "x \<le> of_int (2 ^ p) * 2 powi e"
      unfolding x using \<open>k \<le> 2 ^ p\<close> by (intro mult_right_mono) (auto simp only: of_int_le_iff powi2_pos less_imp_le)
    then show ?thesis by (simp add: powi2_add)
  qed
  show ?thesis
  proof (cases "x = 2 powi (int p + e)")
    case True
    have "ilog2 x = int p + e" unfolding True by (rule ilog2_unique) auto
    then have "int p + e = int (p - 1) + ?g" using assms(2) by simp
    with True have "x = 2 powi (int (p - 1)) * 2 powi ?g" by (metis powi2_add)
    moreover have "(2::rat) powi (int (p - 1)) * 2 powi ?g / 2 powi ?g = of_int (2 ^ (p - 1) :: int)"
      by (simp only: power_int_of_nat of_int_power of_int_numeral) simp
    ultimately have "x / 2 powi ?g = of_int (2 ^ (p - 1))" by metis
    then show ?thesis
      unfolding rnd_pos_def Let_def by (metis divide_eq_eq less_irrefl powi2_pos round_half_even_of_int)
  next
    case False
    with \<open>x \<le> 2 powi (int p + e)\<close> have "x < 2 powi (int p + e)" by simp
    moreover have "2 powi (ilog2 x) \<le> x" using ilog2_bounds [OF assms(1)] by simp
    ultimately have "(2::rat) powi (ilog2 x) < 2 powi (int p + e)" by (rule le_less_trans [rotated])
    then have "0 \<le> e - ?g" by simp
    then obtain j where j: "e = ?g + int j" by (metis add.commute diff_add_cancel nonneg_int_cases)
    have "x = of_int (k * 2 ^ j) * 2 powi ?g" by (subst x, subst j) (simp add: powi2_add)
    then have "x / 2 powi ?g = of_int (k * 2 ^ j)"
      by (metis less_irrefl nonzero_mult_div_cancel_right powi2_pos)
    then show ?thesis
      unfolding rnd_pos_def Let_def by (metis divide_eq_eq less_irrefl powi2_pos round_half_even_of_int)
  qed
qed

lemma rnd_exact:
  assumes "0 < p" "x = of_int k * 2 powi e" "\<bar>k\<bar> \<le> 2 ^ p"
  shows "rnd p x = x"
proof -
  consider "x = 0" | "0 < x" | "0 < - x" by linarith
  then show ?thesis
  proof cases
    case 2
    with rnd_pos_exact [OF 2 assms(1,2)] assms(3) show ?thesis by (simp add: rnd_def)
  next
    case 3
    have "- x = of_int (- k) * 2 powi e" using assms(2) by simp
    from rnd_pos_exact [OF 3 assms(1) this] assms(3) 3 show ?thesis by (simp add: rnd_def)
  qed (simp add: rnd_def)
qed

lemma flt_mono: "x \<le> y \<Longrightarrow> flt x \<le> flt y"
  by (simp add: flt_def rnd_mono)

lemma dbl_mono: "x \<le> y \<Longrightarrow> dbl x \<le> dbl y"
  by (simp add: dbl_def rnd_mono)

lemma flt_of_int [simp]: "\<bar>k\<bar> \<le> 2 ^ 24 \<Longrightarrow> flt (of_int k) = of_int k"
  unfolding flt_def by (rule rnd_exact [of _ _ k 0]) auto

lemma dbl_half: "\<bar>k\<bar> \<le> 2 ^ 53 \<Longrightarrow> dbl (of_int k / 2) = of_int k / 2"
  unfolding dbl_def by (rule rnd_exact [of _ _ k "- 1"]) (auto simp: power_int_minus)

lemma dbl_0 [simp]: "dbl 0 = 0"
  by (simp add: dbl_def rnd_def)

lemma flt_0 [simp]: "flt 0 = 0"
  by (simp add: flt_def rnd_def)

section \<open>Halving and the inclusion of \<^verbatim>\<open>float\<close> in \<^verbatim>\<open>double\<close>\<close>

lemma ilog2_half: "0 < x \<Longrightarrow> ilog2 (x / 2) = ilog2 x - 1"
proof (rule ilog2_unique)
  assume "0 < x"
  note b = ilog2_bounds [OF this]
  have "(2::rat) powi (ilog2 x) = 2 * 2 powi (ilog2 x - 1)" using powi2_Suc [of "ilog2 x - 1"] by simp
  with b show "2 powi (ilog2 x - 1) \<le> x / 2" by simp
  have "(2::rat) powi (ilog2 x + 1) = 2 * 2 powi (ilog2 x)" using powi2_Suc [of "ilog2 x"] by simp
  with b show "x / 2 < 2 powi (ilog2 x - 1 + 1)" by simp
qed

lemma rnd_pos_half:
  assumes "0 < x"
  shows "rnd_pos p (x / 2) = rnd_pos p x / 2"
proof -
  let ?g = "ilog2 x - int p"
  have u: "(2::rat) powi (?g + 1) = 2 * 2 powi ?g" by (rule powi2_Suc)
  have "rnd_pos p (x / 2) = of_int (round_half_even (x / 2 / 2 powi ?g)) * 2 powi ?g"
    by (simp add: rnd_pos_def ilog2_half [OF assms] Let_def)
  moreover have "rnd_pos p x = of_int (round_half_even (x / (2 * 2 powi ?g))) * (2 * 2 powi ?g)"
    unfolding rnd_pos_def Let_def u by simp
  ultimately show ?thesis by (simp add: field_simps)
qed

lemma rnd_half: "rnd p (x / 2) = rnd p x / 2"
  using rnd_pos_half [of x p] rnd_pos_half [of "- x" p] by (auto simp: rnd_def)

lemma flt_half: "flt (x / 2) = flt x / 2"
  by (simp add: flt_def rnd_half)

lemma dbl_div2: "dbl (x / 2) = dbl x / 2"
  by (simp add: dbl_def rnd_half)

lemma rnd_pos_form:
  assumes "0 < x" "0 < p"
  shows "\<exists>k e. rnd_pos p x = of_int k * 2 powi e \<and> 0 \<le> k \<and> k \<le> 2 ^ p"
proof -
  let ?u = "2 powi (ilog2 x - int p + 1) :: rat" and ?k = "round_half_even (x / 2 powi (ilog2 x - int p + 1))"
  have r: "rnd_pos p x = of_int ?k * ?u" by (simp add: rnd_pos_def Let_def)
  have "rnd_pos p x \<le> 2 powi (ilog2 x + 1)" using rnd_pos_bounds [OF assms] by simp
  also have "\<dots> = 2 powi (int p) * ?u" using powi2_add [of "int p" "ilog2 x - int p + 1"] by (simp del: power_int_of_nat)
  finally have "of_int ?k \<le> (2::rat) powi (int p)" unfolding r by (simp del: power_int_of_nat)
  then have "(of_int ?k :: rat) \<le> of_int (2 ^ p)" by simp
  then have "?k \<le> 2 ^ p" by (simp only: of_int_le_iff)
  moreover have "0 \<le> ?k" using rnd_pos_pos [OF assms] zero_less_mult_pos2 [of "of_int ?k" ?u] unfolding r by simp
  ultimately show ?thesis using r by blast
qed

lemma dbl_flt [simp]: "dbl (flt x) = flt x"
proof -
  have "\<exists>k e. flt x = of_int k * 2 powi e \<and> \<bar>k\<bar> \<le> 2 ^ 24"
  proof (cases x "0::rat" rule: linorder_cases)
    case less
    then obtain k e where "rnd_pos 24 (- x) = of_int k * 2 powi e" "0 \<le> k" "k \<le> 2 ^ 24"
      using rnd_pos_form [of "- x" 24] by auto
    with less show ?thesis by (intro exI [of _ "- k"] exI [of _ e]) (simp add: flt_def rnd_def)
  next
    case equal
    then show ?thesis by (intro exI [of _ 0] exI [of _ 0]) (simp add: flt_def rnd_def)
  next
    case greater
    then obtain k e where "rnd_pos 24 x = of_int k * 2 powi e" "0 \<le> k" "k \<le> 2 ^ 24"
      using rnd_pos_form [of x 24] by auto
    with greater show ?thesis by (intro exI [of _ k] exI [of _ e]) (simp add: flt_def rnd_def)
  qed
  then obtain k e where ke: "flt x = of_int k * 2 powi e" "\<bar>k\<bar> \<le> 2 ^ 24" by blast
  moreover have "\<bar>k\<bar> \<le> 2 ^ 53" using ke(2) by simp
  ultimately show ?thesis using rnd_exact [of 53 "flt x" k e] by (simp add: dbl_def)
qed

end
