(* ===== verification/VoteList.thy ===== *)
theory VoteList
  imports Prelude
begin

text \<open>
  The two height-indexed histories of the DAO (\<^verbatim>\<open>consensus/dao.h\<close>, \<^verbatim>\<open>consensus/dao.cpp\<close>):
  \<^verbatim>\<open>CVoteList\<close>, the votes one voter has cast, by the height of the block that carried them, and
  \<^verbatim>\<open>CConsensusParameter\<close>, the values a consensus parameter has had. Both answer queries by the
  entry of greatest height and are unwound on a reorganisation by erasing a height.
\<close>

section \<open>CVoteList\<close>

record CVoteList =
  vl_list :: "(int, (uint256, int) omap) omap"
  vl_fDirty :: bool

definition CVoteList_SetNull :: "CVoteList \<Rightarrow> CVoteList" where
  "CVoteList_SetNull vl = vl\<lparr>vl_list := [], vl_fDirty := True\<rparr>"

definition CVoteList_new :: CVoteList where
  "CVoteList_new = \<lparr>vl_list = [], vl_fDirty = True\<rparr>"

definition CVoteList_IsNull :: "CVoteList \<Rightarrow> bool" where
  "CVoteList_IsNull vl = (\<not> (\<exists>it \<in> set (vl_list vl). length (snd it) > 0))"

definition CVoteList_eq :: "CVoteList \<Rightarrow> CVoteList \<Rightarrow> bool" where
  "CVoteList_eq a b = (vl_list a = vl_list b)"

text \<open>
  \<^verbatim>\<open>Get\<close> scans the heights in increasing order; the pair is the vote found so far and
  \<^verbatim>\<open>nHeight\<close>, the height it was found at.
\<close>

definition vote_get_entry :: "uint256 \<Rightarrow> int \<Rightarrow> uint256 \<times> int \<Rightarrow> int option \<times> int \<Rightarrow> int option \<times> int" where
  "vote_get_entry hash h it2 s = (if h > snd s \<and> fst it2 = hash then (Some (snd it2), h) else s)"

definition vote_get_height ::
  "uint256 \<Rightarrow> int \<times> (uint256, int) omap \<Rightarrow> int option \<times> int \<Rightarrow> int option \<times> int" where
  "vote_get_height hash it s =
     (if fst it < snd s then s else fold (vote_get_entry hash (fst it)) (snd it) s)"

definition CVoteList_Get :: "uint256 \<Rightarrow> CVoteList \<Rightarrow> int option" where
  "CVoteList_Get hash vl = fst (fold (vote_get_height hash) (vl_list vl) (None, 0))"

definition CVoteList_Set :: "int \<Rightarrow> uint256 \<Rightarrow> int \<Rightarrow> CVoteList \<Rightarrow> bool \<times> CVoteList" where
  "CVoteList_Set height hash vote vl =
     (if CVoteList_Get hash vl = Some vote then (False, vl)
      else (True, vl\<lparr>vl_list :=
        (case map_of (vl_list vl) height of
           None \<Rightarrow> omap_put height (omap_put hash vote []) (vl_list vl)
         | Some m \<Rightarrow> omap_put height (omap_put hash vote m) (vl_list vl))\<rparr>))"

definition CVoteList_Clear_hash :: "int \<Rightarrow> uint256 \<Rightarrow> CVoteList \<Rightarrow> CVoteList" where
  "CVoteList_Clear_hash height hash vl =
     (case map_of (vl_list vl) height of
        None \<Rightarrow> vl
      | Some m \<Rightarrow> vl\<lparr>vl_list := omap_put height (omap_erase hash m) (vl_list vl)\<rparr>)"

definition CVoteList_Clear :: "int \<Rightarrow> CVoteList \<Rightarrow> CVoteList" where
  "CVoteList_Clear height vl = vl\<lparr>vl_list := omap_erase height (vl_list vl)\<rparr>"

text \<open>
  \<^verbatim>\<open>GetList\<close> computes the same answer for every hash at once, with one remembered height per hash.
\<close>

definition vote_list_entry ::
  "int \<Rightarrow> uint256 \<times> int \<Rightarrow> (uint256, int) omap \<times> (uint256, int) omap
     \<Rightarrow> (uint256, int) omap \<times> (uint256, int) omap" where
  "vote_list_entry h it2 s =
     (let ret = fst s;
          cache = (if omap_has (fst it2) (snd s) then snd s else omap_put (fst it2) 0 (snd s))
      in if h > omap_get 0 (fst it2) cache
         then (omap_put (fst it2) (snd it2) ret, omap_put (fst it2) h cache)
         else (ret, cache))"

definition CVoteList_GetList :: "CVoteList \<Rightarrow> (uint256, int) omap" where
  "CVoteList_GetList vl =
     fst (fold (\<lambda>it. fold (vote_list_entry (fst it)) (snd it)) (vl_list vl) ([], []))"

definition CVoteList_GetLastVoteHeight :: "CVoteList \<Rightarrow> int" where
  "CVoteList_GetLastVoteHeight vl = (if vl_list vl = [] then 0 else fst (last (vl_list vl)))"

text \<open>The representation invariant and the vote recorded at one height.\<close>

definition wf_votes :: "CVoteList \<Rightarrow> bool" where
  "wf_votes vl = (omap_ok (vl_list vl) \<and> (\<forall>it \<in> set (vl_list vl). omap_ok (snd it)))"

definition vote_at :: "CVoteList \<Rightarrow> int \<Rightarrow> uint256 \<Rightarrow> int option" where
  "vote_at vl h hash = (case map_of (vl_list vl) h of None \<Rightarrow> None | Some m \<Rightarrow> map_of m hash)"

subsection \<open>What the scans compute\<close>

lemma fold_vote_get_entry:
  "fold (vote_get_entry hash h) m s =
     (if h > snd s then (case map_of m hash of None \<Rightarrow> s | Some v \<Rightarrow> (Some v, h)) else s)"
  by (induction m arbitrary: s) (auto simp: vote_get_entry_def)

lemma vote_get_height_eq:
  "vote_get_height hash it s =
     (if fst it > snd s then (case map_of (snd it) hash of None \<Rightarrow> s | Some v \<Rightarrow> (Some v, fst it)) else s)"
  by (auto simp: vote_get_height_def fold_vote_get_entry)

lemma vote_get_scan_height:
  assumes "omap_ok l"
  shows "snd (fold (vote_get_height hash) l (None, 0)) \<in> insert 0 (fst ` set l)"
  using assms
proof (induction l rule: rev_induct)
  case (snoc it l)
  then have "omap_ok l" by (simp add: omap_ok_def sorted_wrt_append)
  with snoc.IH show ?case by (auto simp: vote_get_height_eq split: option.split)
qed simp

lemma vote_get_snoc:
  assumes "omap_ok (l @ [it])"
  shows "fst (fold (vote_get_height hash) (l @ [it]) (None, 0)) =
    (if 0 < fst it \<and> map_of (snd it) hash \<noteq> None then map_of (snd it) hash
     else fst (fold (vote_get_height hash) l (None, 0)))"
proof -
  let ?s = "fold (vote_get_height hash) l (None, 0)"
  from assms have ok: "omap_ok l" and less: "\<forall>k \<in> fst ` set l. k < fst it"
    by (auto simp: omap_ok_def sorted_wrt_append)
  have pos: "0 \<le> snd ?s"
  proof (induction l rule: rev_induct)
    case (snoc x xs)
    then show ?case by (auto simp: vote_get_height_eq split: option.split)
  qed simp
  from vote_get_scan_height [OF ok, of hash] less have "snd ?s = 0 \<or> snd ?s < fst it" by blast
  with pos have "snd ?s < fst it \<longleftrightarrow> 0 < fst it" by linarith
  then show ?thesis by (simp add: vote_get_height_eq split: option.split)
qed

lemma map_of_snoc_ok:
  assumes "omap_ok (l @ [(k, v)])"
  shows "map_of (l @ [(k, v)]) x = (if x = k then Some v else map_of l x)"
proof -
  have "map_of l k = None"
    using assms by (auto simp: omap_ok_def sorted_wrt_append map_of_eq_None_iff)
  then show ?thesis by (auto simp: map_add_def split: option.split)
qed

lemma vote_at_snoc:
  assumes "omap_ok (l @ [(k, m)])"
  shows "vote_at (vl\<lparr>vl_list := l @ [(k, m)]\<rparr>) h hash =
    (if h = k then map_of m hash else vote_at (vl\<lparr>vl_list := l\<rparr>) h hash)"
  by (simp add: vote_at_def map_of_snoc_ok [OF assms] del: map_of_append)

lemma vote_at_less:
  assumes "omap_ok (l @ [(k, m)])" "vote_at (vl\<lparr>vl_list := l\<rparr>) h hash = Some v"
  shows "h < k"
proof -
  from assms(2) obtain m' where "map_of l h = Some m'"
    by (auto simp: vote_at_def split: option.splits)
  then have "(h, m') \<in> set l" by (rule map_of_SomeD)
  with assms(1) show ?thesis by (force simp: omap_ok_def sorted_wrt_append)
qed

definition last_vote :: "CVoteList \<Rightarrow> uint256 \<Rightarrow> int option \<Rightarrow> bool" where
  "last_vote vl hash r = (case r of
     None \<Rightarrow> \<forall>h > 0. vote_at vl h hash = None
   | Some v \<Rightarrow> \<exists>h > 0. vote_at vl h hash = Some v \<and> (\<forall>h' > h. vote_at vl h' hash = None))"

lemma last_vote_unique:
  assumes "last_vote vl hash r" "last_vote vl hash r'"
  shows "r = r'"
proof (cases r)
  case None
  with assms show ?thesis by (cases r') (auto simp: last_vote_def)
next
  case (Some v)
  with assms(1) obtain h where h: "0 < h" "vote_at vl h hash = Some v" "\<forall>h' > h. vote_at vl h' hash = None"
    by (auto simp: last_vote_def)
  show ?thesis
  proof (cases r')
    case None
    with assms(2) h show ?thesis by (auto simp: last_vote_def)
  next
    case (Some w)
    with assms(2) obtain g where g: "0 < g" "vote_at vl g hash = Some w" "\<forall>h' > g. vote_at vl h' hash = None"
      by (auto simp: last_vote_def)
    have "g = h"
      by (rule linorder_cases [of g h]) (use g h in auto)
    with g h Some \<open>r = Some v\<close> show ?thesis by simp
  qed
qed

lemma last_vote_scan:
  assumes "omap_ok l"
  shows "last_vote (vl\<lparr>vl_list := l\<rparr>) hash (fst (fold (vote_get_height hash) l (None, 0)))"
  using assms
proof (induction l rule: rev_induct)
  case Nil
  then show ?case by (simp add: last_vote_def vote_at_def)
next
  case (snoc it l)
  obtain k m where it: "it = (k, m)" by (cases it)
  let ?r = "fst (fold (vote_get_height hash) l (None, 0))"
  have ok: "omap_ok l" using snoc.prems by (simp add: omap_ok_def sorted_wrt_append)
  have IH: "last_vote (vl\<lparr>vl_list := l\<rparr>) hash ?r" by (rule snoc.IH [OF ok])
  have ok': "omap_ok (l @ [(k, m)])" using snoc.prems it by simp
  note at = vote_at_snoc [OF ok'] and less = vote_at_less [OF ok']
  note get = vote_get_snoc [OF snoc.prems, unfolded it fst_conv snd_conv]
  show ?case
  proof (cases "0 < k \<and> map_of m hash \<noteq> None")
    case True
    have "\<forall>h' > k. vote_at (vl\<lparr>vl_list := l\<rparr>) h' hash = None"
      using less [of vl _ hash] by (metis not_None_eq order_less_asym)
    with True show ?thesis unfolding it get by (auto simp: last_vote_def at)
  next
    case False
    then have get': "fst (fold (vote_get_height hash) (l @ [it]) (None, 0)) = ?r"
      unfolding it get by auto
    have at': "vote_at (vl\<lparr>vl_list := l @ [(k, m)]\<rparr>) h hash = vote_at (vl\<lparr>vl_list := l\<rparr>) h hash" if "0 < h" for h
    proof (cases "h = k")
      case True
      with False that have "map_of m hash = None" by simp
      moreover have "vote_at (vl\<lparr>vl_list := l\<rparr>) k hash = None"
        using less [of vl k hash] by (metis not_None_eq less_irrefl)
      ultimately show ?thesis by (simp add: at True)
    qed (simp add: at)
    show ?thesis
    proof (cases ?r)
      case None
      with IH at' show ?thesis unfolding get' unfolding it by (simp add: last_vote_def)
    next
      case (Some v)
      with IH obtain h where h: "0 < h" "vote_at (vl\<lparr>vl_list := l\<rparr>) h hash = Some v"
          "\<forall>h' > h. vote_at (vl\<lparr>vl_list := l\<rparr>) h' hash = None"
        by (auto simp: last_vote_def)
      with at' have "vote_at (vl\<lparr>vl_list := l @ [(k, m)]\<rparr>) h hash = Some v"
          "\<forall>h' > h. vote_at (vl\<lparr>vl_list := l @ [(k, m)]\<rparr>) h' hash = None"
        by auto
      with h(1) Some show ?thesis unfolding get' unfolding it by (auto simp: last_vote_def)
    qed
  qed
qed

lemma last_vote_Get: "wf_votes vl \<Longrightarrow> last_vote vl hash (CVoteList_Get hash vl)"
  using last_vote_scan [of "vl_list vl" vl hash] by (simp add: wf_votes_def CVoteList_Get_def)

lemma Get_eqI: "wf_votes vl \<Longrightarrow> last_vote vl hash r \<Longrightarrow> CVoteList_Get hash vl = r"
  using last_vote_Get last_vote_unique by blast

subsection \<open>Updates\<close>

lemma wf_votes_put:
  assumes "wf_votes vl" "omap_ok m"
  shows "wf_votes (vl\<lparr>vl_list := omap_put h m (vl_list vl)\<rparr>)"
proof -
  have "snd ` set (omap_put h m l) \<subseteq> insert m (snd ` set l)" for l :: "(int, (uint256, int) omap) omap"
    by (induction l) auto
  with assms show ?thesis by (fastforce simp: wf_votes_def)
qed

lemma wf_votes_inner: "wf_votes vl \<Longrightarrow> map_of (vl_list vl) h = Some m \<Longrightarrow> omap_ok m"
  by (force simp: wf_votes_def dest: map_of_SomeD)

lemma wf_votes_Set: "wf_votes vl \<Longrightarrow> wf_votes (snd (CVoteList_Set height hash vote vl))"
  using wf_votes_inner [of vl height]
  by (auto simp: CVoteList_Set_def wf_votes_put omap_ok_Cons split: option.split)

lemma wf_votes_Clear: "wf_votes vl \<Longrightarrow> wf_votes (CVoteList_Clear height vl)"
  by (auto simp: wf_votes_def CVoteList_Clear_def omap_erase_def intro: omap_ok_filter)

lemma wf_votes_Clear_hash: "wf_votes vl \<Longrightarrow> wf_votes (CVoteList_Clear_hash height hash vl)"
  using wf_votes_inner [of vl height]
  by (auto simp: CVoteList_Clear_hash_def wf_votes_put split: option.split)

lemma vote_at_Clear: "vote_at (CVoteList_Clear height vl) h hash = (if h = height then None else vote_at vl h hash)"
  by (simp add: vote_at_def CVoteList_Clear_def)

lemma vote_at_Set:
  "vote_at (snd (CVoteList_Set height hash vote vl)) h x =
     (if CVoteList_Get hash vl \<noteq> Some vote \<and> h = height \<and> x = hash then Some vote else vote_at vl h x)"
  by (auto simp: vote_at_def CVoteList_Set_def split: option.split)

subsection \<open>The two queries agree\<close>

definition scan_agrees :: "uint256 \<Rightarrow> int option \<times> int \<Rightarrow> (uint256, int) omap \<times> (uint256, int) omap \<Rightarrow> bool" where
  "scan_agrees hash s t = (map_of (fst t) hash = fst s \<and> omap_get 0 hash (snd t) = snd s)"

lemma scan_agrees_entry:
  assumes "scan_agrees hash s t"
  shows "scan_agrees hash (vote_get_entry hash h it2 s) (vote_list_entry h it2 t)"
proof -
  let ?k = "fst it2"
  let ?c = "if omap_has ?k (snd t) then snd t else omap_put ?k 0 (snd t)"
  have c: "omap_get 0 x ?c = omap_get 0 x (snd t)" for x
    by (auto simp: omap_get_def omap_has_def simp del: omap_has_iff split: option.split)
  then show ?thesis
    using assms
    by (cases "?k = hash") (auto simp: scan_agrees_def vote_list_entry_def vote_get_entry_def Let_def omap_get_def
        simp del: omap_has_iff split: if_split_asm)
qed

lemma scan_agrees_height:
  assumes "scan_agrees hash s t"
  shows "scan_agrees hash (vote_get_height hash it s) (fold (vote_list_entry (fst it)) (snd it) t)"
proof -
  have "scan_agrees hash (fold (vote_get_entry hash (fst it)) m s) (fold (vote_list_entry (fst it)) m t)" for m
    by (rule fold_simulation [where R = "scan_agrees hash"]) (use assms scan_agrees_entry in auto)
  moreover have "vote_get_height hash it s = fold (vote_get_entry hash (fst it)) (snd it) s"
    by (auto simp: vote_get_height_def fold_vote_get_entry)
  ultimately show ?thesis by simp
qed

text \<open>
  C1. \<^verbatim>\<open>CVoteList::GetList\<close> is the table of \<^verbatim>\<open>CVoteList::Get\<close>: for every voter history and every
  hash, the entry the list query returns is the vote the single query returns.
\<close>

theorem GetList_eq_Get: "map_of (CVoteList_GetList vl) hash = CVoteList_Get hash vl"
proof -
  have "scan_agrees hash (fold (vote_get_height hash) l s)
      (fold (\<lambda>it. fold (vote_list_entry (fst it)) (snd it)) l t)" if "scan_agrees hash s t" for l s t
    by (rule fold_simulation [where R = "scan_agrees hash"]) (use that scan_agrees_height in auto)
  from this [of "(None, 0)" "([], [])" "vl_list vl"] show ?thesis
    by (simp add: scan_agrees_def CVoteList_Get_def CVoteList_GetList_def omap_get_def)
qed

text \<open>
  C2. \<^verbatim>\<open>CVoteList::Get\<close> returns the latest vote: the result is \<open>Some v\<close> exactly when \<open>v\<close> was
  recorded for the hash at some positive height and nothing was recorded for it above that height.
\<close>

theorem Get_latest_vote:
  assumes "wf_votes vl"
  shows "CVoteList_Get hash vl = Some v \<longleftrightarrow>
    (\<exists>h > 0. vote_at vl h hash = Some v \<and> (\<forall>h' > h. vote_at vl h' hash = None))"
proof
  assume "CVoteList_Get hash vl = Some v"
  with last_vote_Get [OF assms, of hash]
  show "\<exists>h > 0. vote_at vl h hash = Some v \<and> (\<forall>h' > h. vote_at vl h' hash = None)"
    by (simp add: last_vote_def)
next
  assume "\<exists>h > 0. vote_at vl h hash = Some v \<and> (\<forall>h' > h. vote_at vl h' hash = None)"
  then have "last_vote vl hash (Some v)" by (simp add: last_vote_def)
  then show "CVoteList_Get hash vl = Some v" by (rule Get_eqI [OF assms])
qed

definition votes_example :: CVoteList where
  "votes_example = \<lparr>vl_list = [(3, [(7, 1), (9, 0)]), (5, [(7, -1)])], vl_fDirty = True\<rparr>"

lemma votes_example_wf: "wf_votes votes_example"
  by (simp add: wf_votes_def votes_example_def omap_ok_def)

theorem Get_latest_vote_witness:
  "wf_votes votes_example \<and> CVoteList_Get 7 votes_example = Some (-1) \<and>
   (\<exists>h > 0. vote_at votes_example h 7 = Some (-1) \<and> (\<forall>h' > h. vote_at votes_example h' 7 = None))"
proof -
  have "CVoteList_Get 7 votes_example = Some (-1)" by code_simp
  with Get_latest_vote [OF votes_example_wf, of 7 "-1"] votes_example_wf show ?thesis by blast
qed

lemma omap_erase_put: "omap_erase k (omap_put k v m) = omap_erase k m"
  by (induction m) (auto simp: omap_erase_def)

lemma erase_Set:
  shows "omap_erase height (vl_list (snd (CVoteList_Set height hash vote vl))) = omap_erase height (vl_list vl)"
  by (simp add: CVoteList_Set_def omap_erase_put split: option.split)

lemma Get_Set_top:
  assumes "wf_votes vl" "0 < height" "\<forall>h \<in> fst ` set (vl_list vl). h \<le> height"
  shows "CVoteList_Get x (snd (CVoteList_Set height hash vote vl)) = (if x = hash then Some vote else CVoteList_Get x vl)"
proof (rule Get_eqI [OF wf_votes_Set [OF assms(1)]])
  have none: "vote_at vl h y = None" if "height < h" for h y
  proof -
    have "map_of (vl_list vl) h = None" using assms(3) that by (force simp: map_of_eq_None_iff)
    then show ?thesis by (simp add: vote_at_def)
  qed
  note last = last_vote_Get [OF assms(1), of x]
  show "last_vote (snd (CVoteList_Set height hash vote vl)) x (if x = hash then Some vote else CVoteList_Get x vl)"
  proof (cases "CVoteList_Get hash vl = Some vote")
    case True
    then show ?thesis using last by (auto simp: CVoteList_Set_def)
  next
    case False
    show ?thesis
    proof (cases "x = hash")
      case True
      then show ?thesis using False assms(2) none by (auto simp: last_vote_def vote_at_Set intro!: exI [of _ height])
    next
      case other: False
      then have "vote_at (snd (CVoteList_Set height hash vote vl)) h x = vote_at vl h x" for h by (simp add: vote_at_Set)
      then show ?thesis using last other by (simp add: last_vote_def split: option.split_asm option.split)
    qed
  qed
qed

lemma Set_heights:
  assumes "\<forall>h \<in> fst ` set (vl_list vl). h \<le> height"
  shows "\<forall>h \<in> fst ` set (vl_list (snd (CVoteList_Set height hash vote vl))). h \<le> height"
proof -
  have "fst ` set (vl_list (snd (CVoteList_Set height hash vote vl))) \<subseteq> insert height (fst ` set (vl_list vl))"
    by (auto simp: CVoteList_Set_def simp flip: fst_set_omap_put [of height] split: option.split)
  then show ?thesis using assms by blast
qed

text \<open>
  C3. The votes of a block, several of them at its height, recorded above every height in the history, and then that height
  erased, as the disconnection of the block does: this gives back the history. In between, \<^verbatim>\<open>Get\<close> returns for every hash the
  last vote of the block on it, and the earlier vote where the block has none. Below a tip nothing is recorded at its height
  or above, since disconnecting erases the height of the block.
\<close>

theorem block_votes_undone:
  assumes "wf_votes vl" and "0 < height" and "\<forall>h \<in> fst ` set (vl_list vl). h < height"
    and "vl' = fold (\<lambda>(hash, vote) vl. snd (CVoteList_Set height hash vote vl)) votes vl"
  shows "vl_list (CVoteList_Clear height vl') = vl_list vl \<and>
    (\<forall>hash. CVoteList_Get hash vl' = (case map_of (rev votes) hash of Some vote \<Rightarrow> Some vote | None \<Rightarrow> CVoteList_Get hash vl))"
proof -
  have "wf_votes vl' \<and> (\<forall>h \<in> fst ` set (vl_list vl'). h \<le> height) \<and>
      omap_erase height (vl_list vl') = omap_erase height (vl_list vl) \<and>
      (\<forall>hash. CVoteList_Get hash vl' = (case map_of (rev votes) hash of Some vote \<Rightarrow> Some vote | None \<Rightarrow> CVoteList_Get hash vl))"
    unfolding assms(4)
  proof (induction votes rule: rev_induct)
    case Nil
    then show ?case using assms(1,3) by (auto intro: less_imp_le)
  next
    case (snoc v votes)
    obtain hash vote where v: "v = (hash, vote)" by (cases v)
    let ?vl = "fold (\<lambda>(hash, vote) vl. snd (CVoteList_Set height hash vote vl)) votes vl"
    have ih: "wf_votes ?vl" "\<forall>h \<in> fst ` set (vl_list ?vl). h \<le> height"
        "omap_erase height (vl_list ?vl) = omap_erase height (vl_list vl)"
        "\<forall>hash. CVoteList_Get hash ?vl = (case map_of (rev votes) hash of Some vote \<Rightarrow> Some vote | None \<Rightarrow> CVoteList_Get hash vl)"
      using snoc.IH by blast+
    show ?case
      using wf_votes_Set [OF ih(1)] Set_heights [OF ih(2), of hash vote] erase_Set ih(3,4)
        Get_Set_top [OF ih(1) assms(2) ih(2), of _ hash vote]
      by (simp add: v)
  qed
  moreover have "omap_erase height (vl_list vl) = vl_list vl"
    using assms(3) by (auto simp: omap_erase_def intro!: filter_True)
  ultimately show ?thesis by (simp add: CVoteList_Clear_def)
qed

theorem block_votes_undone_witness:
  "vl_list (CVoteList_Clear 8 (fold (\<lambda>(hash, vote) vl. snd (CVoteList_Set 8 hash vote vl)) [(9, 1), (7, 0), (9, - 1)] votes_example)) =
     vl_list votes_example \<and>
   CVoteList_Get 9 (fold (\<lambda>(hash, vote) vl. snd (CVoteList_Set 8 hash vote vl)) [(9, 1), (7, 0), (9, - 1)] votes_example) = Some (- 1) \<and>
   CVoteList_Get 7 (fold (\<lambda>(hash, vote) vl. snd (CVoteList_Set 8 hash vote vl)) [(9, 1), (7, 0), (9, - 1)] votes_example) = Some 0"
proof -
  have h: "\<forall>h \<in> fst ` set (vl_list votes_example). h < 8" by (simp add: votes_example_def)
  from block_votes_undone [OF votes_example_wf _ h refl, of "[(9, 1), (7, 0), (9, - 1)]"]
  have "vl_list (CVoteList_Clear 8 (fold (\<lambda>(hash, vote) vl. snd (CVoteList_Set 8 hash vote vl)) [(9, 1), (7, 0), (9, - 1)] votes_example)) =
      vl_list votes_example"
    and get: "CVoteList_Get x (fold (\<lambda>(hash, vote) vl. snd (CVoteList_Set 8 hash vote vl)) [(9, 1), (7, 0), (9, - 1)] votes_example) =
      (case map_of (rev [(9, 1), (7, 0), (9, - 1)]) x of Some vote \<Rightarrow> Some vote | None \<Rightarrow> CVoteList_Get x votes_example)" for x
    by simp_all
  then show ?thesis unfolding get by simp
qed

section \<open>CConsensusParameter\<close>

record CConsensusParameter =
  cp_list :: "(int, u64) omap"
  cp_fDirty :: bool

definition CConsensusParameter_new :: CConsensusParameter where
  "CConsensusParameter_new = \<lparr>cp_list = [], cp_fDirty = True\<rparr>"

definition CConsensusParameter_SetNull :: "CConsensusParameter \<Rightarrow> CConsensusParameter" where
  "CConsensusParameter_SetNull cp = cp\<lparr>cp_list := [], cp_fDirty := True\<rparr>"

definition CConsensusParameter_IsNull :: "CConsensusParameter \<Rightarrow> bool" where
  "CConsensusParameter_IsNull cp = (length (cp_list cp) = 0)"

definition CConsensusParameter_eq :: "CConsensusParameter \<Rightarrow> CConsensusParameter \<Rightarrow> bool" where
  "CConsensusParameter_eq a b = (cp_list a = cp_list b)"

definition param_get_entry :: "int \<times> u64 \<Rightarrow> u64 option \<times> int \<Rightarrow> u64 option \<times> int" where
  "param_get_entry it s = (if fst it < snd s then s else (Some (snd it), fst it))"

definition CConsensusParameter_Get :: "CConsensusParameter \<Rightarrow> u64 option" where
  "CConsensusParameter_Get cp = fst (fold param_get_entry (cp_list cp) (None, 0))"

definition CConsensusParameter_GetHeight :: "CConsensusParameter \<Rightarrow> int" where
  "CConsensusParameter_GetHeight cp =
     fold (\<lambda>it nHeight. if fst it < nHeight then nHeight else fst it) (cp_list cp) 0"

definition CConsensusParameter_Set :: "int \<Rightarrow> u64 \<Rightarrow> CConsensusParameter \<Rightarrow> CConsensusParameter" where
  "CConsensusParameter_Set height val cp =
     cp\<lparr>cp_list := (if \<not> omap_has height (cp_list cp)
                    then omap_insert height val (cp_list cp)
                    else omap_put height val (cp_list cp))\<rparr>"

definition CConsensusParameter_Clear :: "int \<Rightarrow> CConsensusParameter \<Rightarrow> CConsensusParameter" where
  "CConsensusParameter_Clear height cp = cp\<lparr>cp_list := omap_erase height (cp_list cp)\<rparr>"

definition wf_param :: "CConsensusParameter \<Rightarrow> bool" where
  "wf_param cp = omap_ok (cp_list cp)"

lemma Set_list: "cp_list (CConsensusParameter_Set height val cp) = omap_put height val (cp_list cp)"
  by (auto simp: CConsensusParameter_Set_def omap_insert_def map_of_eq_None_iff)

lemma wf_param_Set: "wf_param cp \<Longrightarrow> wf_param (CConsensusParameter_Set height val cp)"
  by (simp add: wf_param_def Set_list)

lemma wf_param_Clear: "wf_param cp \<Longrightarrow> wf_param (CConsensusParameter_Clear height cp)"
  by (simp add: wf_param_def CConsensusParameter_Clear_def)

lemma param_scan_height:
  "snd (fold param_get_entry l s) \<in> insert (snd s) (fst ` set l)"
proof (induction l arbitrary: s)
  case (Cons it l)
  from Cons.IH [of "param_get_entry it s"] show ?case
    by (auto simp: param_get_entry_def split: if_split_asm)
qed simp

text \<open>The scan returns the entry of the last height, if that height is not negative.\<close>

lemma param_get_snoc:
  assumes "omap_ok (l @ [(k, v)])" "0 \<le> k"
  shows "fold param_get_entry (l @ [(k, v)]) (None, 0) = (Some v, k)"
proof -
  have "\<forall>h \<in> fst ` set l. h < k" using assms by (auto simp: omap_ok_def sorted_wrt_append)
  with param_scan_height [of l "(None, 0)"] assms(2) have "\<not> k < snd (fold param_get_entry l (None, 0))"
    by fastforce
  then show ?thesis by (simp add: param_get_entry_def)
qed

lemma omap_put_last:
  "\<forall>h \<in> fst ` set l. h < k \<Longrightarrow> omap_put k v l = l @ [(k, v)]"
  by (induction l) auto

text \<open>
  A consensus parameter changed at a block above every recorded height takes the new value,
  and erasing that height, as the disconnection of the block does, restores the history.
\<close>

theorem Param_Set_then_Clear:
  assumes "wf_param cp" and "0 \<le> height" and "\<forall>h \<in> fst ` set (cp_list cp). h < height"
  shows "CConsensusParameter_Get (CConsensusParameter_Set height val cp) = Some val \<and>
    CConsensusParameter_GetHeight (CConsensusParameter_Set height val cp) = height \<and>
    CConsensusParameter_Clear height (CConsensusParameter_Set height val cp) = cp"
proof -
  let ?l = "cp_list cp"
  have put: "omap_put height val ?l = ?l @ [(height, val)]" using assms(3) by (rule omap_put_last)
  have ok: "omap_ok (?l @ [(height, val)])"
    using omap_ok_put [of ?l height val] assms(1) by (simp add: wf_param_def put)
  have get: "CConsensusParameter_Get (CConsensusParameter_Set height val cp) = Some val"
    using param_get_snoc [OF ok assms(2)] by (simp add: CConsensusParameter_Get_def Set_list put)
  have fst_le: "fold (\<lambda>it n. if fst it < n then n else fst it) l s < height"
    if "\<forall>h \<in> fst ` set l. h < height" "s < height" for l s
    using that by (induction l arbitrary: s) auto
  have "\<not> height < fold (\<lambda>it n. if fst it < n then n else fst it) ?l 0"
  proof (cases "height = 0")
    case True
    have "fold (\<lambda>it n. if fst it < n then n else fst it) l 0 \<le> 0" if "\<forall>h \<in> fst ` set l. h < 0" for l :: "(int, u64) omap"
      using that by (induction l) auto
    with assms(3) True show ?thesis by (simp add: not_less)
  next
    case False
    with fst_le [OF assms(3), of 0] assms(2) show ?thesis by linarith
  qed
  then have height: "CConsensusParameter_GetHeight (CConsensusParameter_Set height val cp) = height"
    by (simp add: CConsensusParameter_GetHeight_def Set_list put)
  have "cp_list (CConsensusParameter_Clear height (CConsensusParameter_Set height val cp)) = ?l"
    using assms(1,3) by (auto simp: CConsensusParameter_Clear_def Set_list wf_param_def map_of_eq_None_iff
        intro!: omap_put_erase)
  then have "CConsensusParameter_Clear height (CConsensusParameter_Set height val cp) = cp"
    by (simp add: CConsensusParameter_Clear_def CConsensusParameter_Set_def)
  with get height show ?thesis by blast
qed

theorem Param_Set_then_Clear_witness:
  "wf_param (CConsensusParameter_Set 10 5 CConsensusParameter_new) \<and>
   CConsensusParameter_Get (CConsensusParameter_Set 20 6 (CConsensusParameter_Set 10 5 CConsensusParameter_new)) = Some 6 \<and>
   CConsensusParameter_Clear 20 (CConsensusParameter_Set 20 6 (CConsensusParameter_Set 10 5 CConsensusParameter_new))
     = CConsensusParameter_Set 10 5 CConsensusParameter_new"
proof -
  let ?cp = "CConsensusParameter_Set 10 5 CConsensusParameter_new"
  have wf: "wf_param ?cp" by (rule wf_param_Set) (simp add: wf_param_def CConsensusParameter_new_def)
  have h: "\<forall>h \<in> fst ` set (cp_list ?cp). h < 20" by (simp add: Set_list CConsensusParameter_new_def)
  show ?thesis using wf Param_Set_then_Clear [OF wf _ h, of 6] by simp
qed

end
