(* ===== verification/DaoTypes.thy ===== *)
theory DaoTypes
  imports Prelude
begin

text \<open>
  The data of the DAO (\<^verbatim>\<open>consensus/dao.h\<close>, \<^verbatim>\<open>consensus/dao/flags.h\<close>): fund proposals, payment
  requests, consultations and their answers, each with its history of states keyed by the hash of
  the block that set the state, and the block index (\<^verbatim>\<open>chain.h\<close>) the histories are read against.

  A \<^verbatim>\<open>CBlockIndex*\<close> is a value of the recursive type below, with the parent inside; the null
  pointer is \<open>None\<close>. The two fund counters of a block index, which the vote counting mutates, are
  part of the state of that procedure instead. The global \<^verbatim>\<open>mapBlockIndex\<close> is the argument \<open>mbi\<close>.
\<close>

section \<open>The block index\<close>

datatype CBlockIndex = CBlockIndex
  (GetBlockHash: uint256)
  (pprev: "CBlockIndex option")
  (nHeight: int)
  (bi_nVersion: int)
  (nTime: u32)
  (nBits: u32)
  (nNonce: u32)
  (nFlags: u32)

type_synonym BlockMap = "uint256 \<Rightarrow> CBlockIndex option"

definition GetBlockTime :: "CBlockIndex \<Rightarrow> int" where
  "GetBlockTime b = uint (nTime b)"

text \<open>\<^verbatim>\<open>BLOCK_COLD_STAKE_V2\<close> is bit 3 of the index flags.\<close>

definition IsColdStakeV2 :: "CBlockIndex \<Rightarrow> bool" where
  "IsColdStakeV2 b = (nFlags b AND 8 \<noteq> 0)"

section \<open>State and vote flags\<close>

type_synonym flags = u32

abbreviation (input) NIL :: flags where "NIL \<equiv> 0"
abbreviation (input) ACCEPTED :: flags where "ACCEPTED \<equiv> 1"
abbreviation (input) REJECTED :: flags where "REJECTED \<equiv> 2"
abbreviation (input) EXPIRED :: flags where "EXPIRED \<equiv> 3"
abbreviation (input) PENDING_FUNDS :: flags where "PENDING_FUNDS \<equiv> 4"
abbreviation (input) PENDING_VOTING_PREQ :: flags where "PENDING_VOTING_PREQ \<equiv> 5"
abbreviation (input) PAID :: flags where "PAID \<equiv> 6"
abbreviation (input) PASSED :: flags where "PASSED \<equiv> 7"
abbreviation (input) REFLECTION :: flags where "REFLECTION \<equiv> 8"
abbreviation (input) SUPPORTED :: flags where "SUPPORTED \<equiv> 9"
abbreviation (input) ACCEPTED_EXPIRED :: flags where "ACCEPTED_EXPIRED \<equiv> 16"

abbreviation (input) VOTE_YES :: int where "VOTE_YES \<equiv> 1"
abbreviation (input) VOTE_NO :: int where "VOTE_NO \<equiv> 0"
abbreviation (input) VOTE_ABSTAIN :: int where "VOTE_ABSTAIN \<equiv> - 1"
abbreviation (input) VOTE_REMOVE :: int where "VOTE_REMOVE \<equiv> - 2"
abbreviation (input) SUPPORT :: int where "SUPPORT \<equiv> - 3"
abbreviation (input) SUPPORT_REMOVE :: int where "SUPPORT_REMOVE \<equiv> - 4"

section \<open>State histories\<close>

text \<open>
  \<^verbatim>\<open>GetLastState\<close>, \<^verbatim>\<open>GetLastStateBlockIndex\<close> and \<^verbatim>\<open>GetLastStateBlockIndexForState\<close> have the same body
  in the four classes: a scan of \<^verbatim>\<open>mapState\<close> that keeps the entry of greatest height.
\<close>

type_synonym StateMap = "(uint256, flags) omap"

definition state_scan :: "BlockMap \<Rightarrow> uint256 \<times> flags \<Rightarrow> flags \<times> CBlockIndex option \<times> int
    \<Rightarrow> flags \<times> CBlockIndex option \<times> int" where
  "state_scan mbi it s =
     (case mbi (fst it) of
        None \<Rightarrow> s
      | Some b \<Rightarrow> if nHeight b > snd (snd s) then (snd it, Some b, nHeight b) else s)"

definition last_state :: "BlockMap \<Rightarrow> StateMap \<Rightarrow> flags" where
  "last_state mbi m = fst (fold (state_scan mbi) m (NIL, None, 0))"

definition last_state_index :: "BlockMap \<Rightarrow> StateMap \<Rightarrow> CBlockIndex option" where
  "last_state_index mbi m = fst (snd (fold (state_scan mbi) m (NIL, None, 0)))"

definition last_state_index_for :: "BlockMap \<Rightarrow> flags \<Rightarrow> StateMap \<Rightarrow> CBlockIndex option" where
  "last_state_index_for mbi st m =
     fst (snd (fold (\<lambda>it s. if snd it \<noteq> st then s else state_scan mbi it s) m (NIL, None, 0)))"

text \<open>\<^verbatim>\<open>SetState\<close> and \<^verbatim>\<open>ClearState\<close> on the history.\<close>

definition set_state :: "CBlockIndex \<Rightarrow> flags \<Rightarrow> StateMap \<Rightarrow> StateMap" where
  "set_state pindex st m = omap_put (GetBlockHash pindex) st m"

definition clear_state :: "CBlockIndex \<Rightarrow> StateMap \<Rightarrow> StateMap" where
  "clear_state pindex m = omap_erase (GetBlockHash pindex) m"

text \<open>\<^verbatim>\<open>nVersion & FLAG\<close> of a signed version field.\<close>

definition has_flag :: "int \<Rightarrow> int \<Rightarrow> bool" where
  "has_flag v f = (v AND f \<noteq> 0)"

section \<open>Proposals\<close>

record CProposal =
  p_nAmount :: CAmount
  p_nFee :: CAmount
  p_ownerAddress :: string
  p_paymentAddress :: string
  p_nDeadline :: u32
  p_mapState :: StateMap
  p_nVotesYes :: int
  p_nVotesNo :: int
  p_nVotesAbs :: int
  p_nExclude :: int
  p_strDZeel :: string
  p_hash :: uint256
  p_txblockhash :: uint256
  p_nVersion :: int
  p_nVotingCycle :: u32
  p_fDirty :: bool

abbreviation (input) P_BASE_VERSION :: int where "P_BASE_VERSION \<equiv> 2"
abbreviation (input) P_REDUCED_QUORUM_VERSION :: int where "P_REDUCED_QUORUM_VERSION \<equiv> 4"
abbreviation (input) P_ABSTAIN_VOTE_VERSION :: int where "P_ABSTAIN_VOTE_VERSION \<equiv> 8"
abbreviation (input) P_PAYMENT_ADDRESS_VERSION :: int where "P_PAYMENT_ADDRESS_VERSION \<equiv> 16"
abbreviation (input) P_EXCLUDE_VERSION :: int where "P_EXCLUDE_VERSION \<equiv> 32"
abbreviation (input) P_SUPER_VERSION :: int where "P_SUPER_VERSION \<equiv> 64"

text \<open>\<^verbatim>\<open>SetNull\<close> of a proposal leaves \<^verbatim>\<open>txblockhash\<close> as it was.\<close>

definition CProposal_SetNull :: "CProposal \<Rightarrow> CProposal" where
  "CProposal_SetNull p = p\<lparr>p_nAmount := 0, p_nFee := 0, p_ownerAddress := [], p_paymentAddress := [],
     p_mapState := [], p_nVotesYes := 0, p_nVotesNo := 0, p_nVotesAbs := 0, p_nExclude := 0,
     p_nDeadline := 0, p_strDZeel := [], p_hash := 0, p_nVersion := 0, p_nVotingCycle := 0,
     p_fDirty := True\<rparr>"

definition CProposal_new :: CProposal where
  "CProposal_new = CProposal_SetNull
     \<lparr>p_nAmount = 0, p_nFee = 0, p_ownerAddress = [], p_paymentAddress = [], p_nDeadline = 0,
      p_mapState = [], p_nVotesYes = 0, p_nVotesNo = 0, p_nVotesAbs = 0, p_nExclude = 0,
      p_strDZeel = [], p_hash = 0, p_txblockhash = 0, p_nVersion = 0, p_nVotingCycle = 0,
      p_fDirty = False\<rparr>"

definition CProposal_IsNull :: "CProposal \<Rightarrow> bool" where
  "CProposal_IsNull p = (p_nAmount p = 0 \<and> p_nFee p = 0 \<and> p_ownerAddress p = [] \<and>
     p_paymentAddress p = [] \<and> p_nVotesYes p = 0 \<and> p_nVotesNo p = 0 \<and> p_nExclude p = 0 \<and>
     p_nDeadline p = 0 \<and> p_strDZeel p = [] \<and> length (p_mapState p) = 0)"

definition CProposal_GetPaymentAddress :: "CProposal \<Rightarrow> string" where
  "CProposal_GetPaymentAddress p =
     (if has_flag (p_nVersion p) P_PAYMENT_ADDRESS_VERSION then p_paymentAddress p else p_ownerAddress p)"

definition CProposal_eq :: "CProposal \<Rightarrow> CProposal \<Rightarrow> bool" where
  "CProposal_eq a b = (p_nAmount a = p_nAmount b \<and> p_nFee a = p_nFee b \<and>
     p_ownerAddress a = p_ownerAddress b \<and>
     (if has_flag (p_nVersion a) P_PAYMENT_ADDRESS_VERSION then p_paymentAddress a else p_ownerAddress a) =
     (if has_flag (p_nVersion b) P_PAYMENT_ADDRESS_VERSION then p_paymentAddress b else p_ownerAddress b) \<and>
     p_nDeadline a = p_nDeadline b \<and> p_mapState a = p_mapState b \<and>
     p_nVotesYes a = p_nVotesYes b \<and> p_nVotesNo a = p_nVotesNo b \<and> p_nVotesAbs a = p_nVotesAbs b \<and>
     p_nExclude a = p_nExclude b \<and> p_strDZeel a = p_strDZeel b \<and> p_hash a = p_hash b \<and>
     p_txblockhash a = p_txblockhash b \<and> p_nVersion a = p_nVersion b \<and>
     p_nVotingCycle a = p_nVotingCycle b)"

definition CProposal_GetLastState :: "BlockMap \<Rightarrow> CProposal \<Rightarrow> flags" where
  "CProposal_GetLastState mbi p = last_state mbi (p_mapState p)"

definition CProposal_GetLastStateBlockIndex :: "BlockMap \<Rightarrow> CProposal \<Rightarrow> CBlockIndex option" where
  "CProposal_GetLastStateBlockIndex mbi p = last_state_index mbi (p_mapState p)"

definition CProposal_GetLastStateBlockIndexForState ::
  "BlockMap \<Rightarrow> flags \<Rightarrow> CProposal \<Rightarrow> CBlockIndex option" where
  "CProposal_GetLastStateBlockIndexForState mbi st p = last_state_index_for mbi st (p_mapState p)"

definition CProposal_SetState :: "CBlockIndex \<Rightarrow> flags \<Rightarrow> CProposal \<Rightarrow> CProposal" where
  "CProposal_SetState pindex st p = p\<lparr>p_mapState := set_state pindex st (p_mapState p)\<rparr>"

definition CProposal_ClearState :: "CBlockIndex \<Rightarrow> CProposal \<Rightarrow> CProposal" where
  "CProposal_ClearState pindex p = p\<lparr>p_mapState := clear_state pindex (p_mapState p)\<rparr>"

definition CProposal_CanVote :: "BlockMap \<Rightarrow> CProposal \<Rightarrow> bool" where
  "CProposal_CanVote mbi p = (CProposal_GetLastState mbi p = NIL)"

definition CProposal_CanRequestPayments :: "BlockMap \<Rightarrow> CProposal \<Rightarrow> bool" where
  "CProposal_CanRequestPayments mbi p = (CProposal_GetLastState mbi p = ACCEPTED)"

definition CProposal_IsSuper :: "CProposal \<Rightarrow> bool" where
  "CProposal_IsSuper p = has_flag (p_nVersion p) P_SUPER_VERSION"

section \<open>Payment requests\<close>

record CPaymentRequest =
  pr_nAmount :: CAmount
  pr_mapState :: StateMap
  pr_hash :: uint256
  pr_proposalhash :: uint256
  pr_txblockhash :: uint256
  pr_nVotesYes :: int
  pr_nVotesNo :: int
  pr_nVotesAbs :: int
  pr_nExclude :: int
  pr_strDZeel :: string
  pr_nVersion :: int
  pr_nVotingCycle :: u32
  pr_fDirty :: bool

abbreviation (input) PR_BASE_VERSION :: int where "PR_BASE_VERSION \<equiv> 2"
abbreviation (input) PR_REDUCED_QUORUM_VERSION :: int where "PR_REDUCED_QUORUM_VERSION \<equiv> 4"
abbreviation (input) PR_ABSTAIN_VOTE_VERSION :: int where "PR_ABSTAIN_VOTE_VERSION \<equiv> 8"
abbreviation (input) PR_EXCLUDE_VERSION :: int where "PR_EXCLUDE_VERSION \<equiv> 16"
abbreviation (input) PR_SUPER_VERSION :: int where "PR_SUPER_VERSION \<equiv> 32"

definition CPaymentRequest_SetNull :: "CPaymentRequest \<Rightarrow> CPaymentRequest" where
  "CPaymentRequest_SetNull pr = pr\<lparr>pr_nAmount := 0, pr_mapState := [], pr_nVotesYes := 0,
     pr_nVotesNo := 0, pr_nVotesAbs := 0, pr_nExclude := 0, pr_hash := 0, pr_txblockhash := 0,
     pr_proposalhash := 0, pr_strDZeel := [], pr_nVersion := 0, pr_nVotingCycle := 0,
     pr_fDirty := True\<rparr>"

definition CPaymentRequest_new :: CPaymentRequest where
  "CPaymentRequest_new =
     \<lparr>pr_nAmount = 0, pr_mapState = [], pr_hash = 0, pr_proposalhash = 0, pr_txblockhash = 0,
      pr_nVotesYes = 0, pr_nVotesNo = 0, pr_nVotesAbs = 0, pr_nExclude = 0, pr_strDZeel = [],
      pr_nVersion = 0, pr_nVotingCycle = 0, pr_fDirty = True\<rparr>"

definition CPaymentRequest_IsNull :: "CPaymentRequest \<Rightarrow> bool" where
  "CPaymentRequest_IsNull pr = (pr_nAmount pr = 0 \<and> pr_nVotesYes pr = 0 \<and> pr_nVotesNo pr = 0 \<and>
     pr_nExclude pr = 0 \<and> pr_strDZeel pr = [] \<and> length (pr_mapState pr) = 0)"

definition CPaymentRequest_eq :: "CPaymentRequest \<Rightarrow> CPaymentRequest \<Rightarrow> bool" where
  "CPaymentRequest_eq a b = (pr_nAmount a = pr_nAmount b \<and> pr_mapState a = pr_mapState b \<and>
     pr_hash a = pr_hash b \<and> pr_proposalhash a = pr_proposalhash b \<and>
     pr_txblockhash a = pr_txblockhash b \<and> pr_nVotesYes a = pr_nVotesYes b \<and>
     pr_nVotesNo a = pr_nVotesNo b \<and> pr_nVotesAbs a = pr_nVotesAbs b \<and>
     pr_nExclude a = pr_nExclude b \<and> pr_strDZeel a = pr_strDZeel b \<and>
     pr_nVersion a = pr_nVersion b \<and> pr_nVotingCycle a = pr_nVotingCycle b)"

definition CPaymentRequest_GetLastState :: "BlockMap \<Rightarrow> CPaymentRequest \<Rightarrow> flags" where
  "CPaymentRequest_GetLastState mbi pr = last_state mbi (pr_mapState pr)"

definition CPaymentRequest_GetLastStateBlockIndex :: "BlockMap \<Rightarrow> CPaymentRequest \<Rightarrow> CBlockIndex option" where
  "CPaymentRequest_GetLastStateBlockIndex mbi pr = last_state_index mbi (pr_mapState pr)"

definition CPaymentRequest_GetLastStateBlockIndexForState ::
  "BlockMap \<Rightarrow> flags \<Rightarrow> CPaymentRequest \<Rightarrow> CBlockIndex option" where
  "CPaymentRequest_GetLastStateBlockIndexForState mbi st pr = last_state_index_for mbi st (pr_mapState pr)"

definition CPaymentRequest_SetState :: "CBlockIndex \<Rightarrow> flags \<Rightarrow> CPaymentRequest \<Rightarrow> CPaymentRequest" where
  "CPaymentRequest_SetState pindex st pr = pr\<lparr>pr_mapState := set_state pindex st (pr_mapState pr)\<rparr>"

definition CPaymentRequest_ClearState :: "CBlockIndex \<Rightarrow> CPaymentRequest \<Rightarrow> CPaymentRequest" where
  "CPaymentRequest_ClearState pindex pr = pr\<lparr>pr_mapState := clear_state pindex (pr_mapState pr)\<rparr>"

definition CPaymentRequest_IsSuper :: "CPaymentRequest \<Rightarrow> bool" where
  "CPaymentRequest_IsSuper pr = has_flag (pr_nVersion pr) PR_SUPER_VERSION"

section \<open>Consultation answers\<close>

record CConsultationAnswer =
  ca_nVersion :: int
  ca_sAnswer :: string
  ca_vAnswer :: "string list"
  ca_nVotes :: int
  ca_nSupport :: int
  ca_nExclude :: int
  ca_mapState :: StateMap
  ca_hash :: uint256
  ca_parent :: uint256
  ca_txblockhash :: uint256
  ca_txhash :: uint256
  ca_fDirty :: bool

abbreviation (input) CA_BASE_VERSION :: int where "CA_BASE_VERSION \<equiv> 1"
abbreviation (input) CA_EXCLUDE_VERSION :: int where "CA_EXCLUDE_VERSION \<equiv> 2"
abbreviation (input) CA_SUPER_VERSION :: int where "CA_SUPER_VERSION \<equiv> 4"

definition CConsultationAnswer_SetNull :: "CConsultationAnswer \<Rightarrow> CConsultationAnswer" where
  "CConsultationAnswer_SetNull ca = ca\<lparr>ca_sAnswer := [], ca_nVotes := 0, ca_nExclude := 0,
     ca_mapState := [], ca_vAnswer := [], ca_nVersion := 0, ca_nSupport := 0, ca_hash := 0,
     ca_parent := 0, ca_txblockhash := 0, ca_txhash := 0, ca_fDirty := True\<rparr>"

definition CConsultationAnswer_new :: CConsultationAnswer where
  "CConsultationAnswer_new =
     \<lparr>ca_nVersion = 0, ca_sAnswer = [], ca_vAnswer = [], ca_nVotes = 0, ca_nSupport = 0,
      ca_nExclude = 0, ca_mapState = [], ca_hash = 0, ca_parent = 0, ca_txblockhash = 0,
      ca_txhash = 0, ca_fDirty = True\<rparr>"

definition CConsultationAnswer_IsNull :: "CConsultationAnswer \<Rightarrow> bool" where
  "CConsultationAnswer_IsNull ca = (ca_sAnswer ca = [] \<and> ca_nVotes ca = 0 \<and> ca_nSupport ca = 0 \<and>
     ca_nVersion ca = 0 \<and> length (ca_mapState ca) = 0 \<and> ca_nExclude ca = 0 \<and> ca_hash ca = 0 \<and>
     ca_txhash ca = 0 \<and> ca_parent ca = 0 \<and> ca_txblockhash ca = 0 \<and> length (ca_vAnswer ca) = 0)"

definition CConsultationAnswer_eq :: "CConsultationAnswer \<Rightarrow> CConsultationAnswer \<Rightarrow> bool" where
  "CConsultationAnswer_eq a b = (ca_nVersion a = ca_nVersion b \<and> ca_sAnswer a = ca_sAnswer b \<and>
     ca_vAnswer a = ca_vAnswer b \<and> ca_nVotes a = ca_nVotes b \<and> ca_nExclude a = ca_nExclude b \<and>
     ca_nSupport a = ca_nSupport b \<and> ca_mapState a = ca_mapState b \<and> ca_hash a = ca_hash b \<and>
     ca_txblockhash a = ca_txblockhash b \<and> ca_parent a = ca_parent b \<and> ca_txhash a = ca_txhash b)"

definition CConsultationAnswer_GetAnswers :: "CConsultationAnswer \<Rightarrow> string list" where
  "CConsultationAnswer_GetAnswers ca =
     (if has_flag (ca_nVersion ca) CA_SUPER_VERSION then sort (ca_vAnswer ca) else [ca_sAnswer ca])"

definition CConsultationAnswer_GetLastState :: "BlockMap \<Rightarrow> CConsultationAnswer \<Rightarrow> flags" where
  "CConsultationAnswer_GetLastState mbi ca = last_state mbi (ca_mapState ca)"

definition CConsultationAnswer_GetLastStateBlockIndex ::
  "BlockMap \<Rightarrow> CConsultationAnswer \<Rightarrow> CBlockIndex option" where
  "CConsultationAnswer_GetLastStateBlockIndex mbi ca = last_state_index mbi (ca_mapState ca)"

definition CConsultationAnswer_GetLastStateBlockIndexForState ::
  "BlockMap \<Rightarrow> flags \<Rightarrow> CConsultationAnswer \<Rightarrow> CBlockIndex option" where
  "CConsultationAnswer_GetLastStateBlockIndexForState mbi st ca = last_state_index_for mbi st (ca_mapState ca)"

definition CConsultationAnswer_SetState ::
  "CBlockIndex \<Rightarrow> flags \<Rightarrow> CConsultationAnswer \<Rightarrow> CConsultationAnswer" where
  "CConsultationAnswer_SetState pindex st ca = ca\<lparr>ca_mapState := set_state pindex st (ca_mapState ca)\<rparr>"

definition CConsultationAnswer_ClearState :: "CBlockIndex \<Rightarrow> CConsultationAnswer \<Rightarrow> CConsultationAnswer" where
  "CConsultationAnswer_ClearState pindex ca = ca\<lparr>ca_mapState := clear_state pindex (ca_mapState ca)\<rparr>"

definition CConsultationAnswer_Vote :: "CConsultationAnswer \<Rightarrow> CConsultationAnswer" where
  "CConsultationAnswer_Vote ca = ca\<lparr>ca_nVotes := ca_nVotes ca + 1\<rparr>"

definition CConsultationAnswer_DecVote :: "CConsultationAnswer \<Rightarrow> CConsultationAnswer" where
  "CConsultationAnswer_DecVote ca = ca\<lparr>ca_nVotes := max 0 (ca_nVotes ca - 1)\<rparr>"

definition CConsultationAnswer_ClearVotes :: "CConsultationAnswer \<Rightarrow> CConsultationAnswer" where
  "CConsultationAnswer_ClearVotes ca = ca\<lparr>ca_nVotes := 0\<rparr>"

section \<open>Consultations\<close>

record CConsultation =
  c_mapState :: StateMap
  c_hash :: uint256
  c_txblockhash :: uint256
  c_nVersion :: u64
  c_nVotingCycle :: u32
  c_fDirty :: bool
  c_strDZeel :: string
  c_nSupport :: int
  c_nMin :: u64
  c_vParameters :: "u64 list"
  c_nMax :: u64
  c_mapVotes :: "(u64, u64) omap"
  c_vAnswers :: "uint256 list"
  c_nExclude :: int

abbreviation (input) C_BASE_VERSION :: u64 where "C_BASE_VERSION \<equiv> 1"
abbreviation (input) C_ANSWER_IS_A_RANGE_VERSION :: u64 where "C_ANSWER_IS_A_RANGE_VERSION \<equiv> 2"
abbreviation (input) C_MORE_ANSWERS_VERSION :: u64 where "C_MORE_ANSWERS_VERSION \<equiv> 4"
abbreviation (input) C_CONSENSUS_PARAMETER_VERSION :: u64 where "C_CONSENSUS_PARAMETER_VERSION \<equiv> 8"
abbreviation (input) C_EXCLUDE_VERSION :: u64 where "C_EXCLUDE_VERSION \<equiv> 16"
abbreviation (input) C_SUPER_VERSION :: u64 where "C_SUPER_VERSION \<equiv> 32"

definition CConsultation_SetNull :: "CConsultation \<Rightarrow> CConsultation" where
  "CConsultation_SetNull c = c\<lparr>c_hash := 0, c_txblockhash := 0, c_mapState := [], c_nVersion := 0,
     c_nVotingCycle := 0, c_fDirty := True, c_strDZeel := [], c_nSupport := 0, c_nMin := 0,
     c_nMax := 0, c_nExclude := 0, c_mapVotes := [], c_vAnswers := [], c_vParameters := []\<rparr>"

definition CConsultation_new :: CConsultation where
  "CConsultation_new =
     \<lparr>c_mapState = [], c_hash = 0, c_txblockhash = 0, c_nVersion = 0, c_nVotingCycle = 0,
      c_fDirty = True, c_strDZeel = [], c_nSupport = 0, c_nMin = 0, c_vParameters = [], c_nMax = 0,
      c_mapVotes = [], c_vAnswers = [], c_nExclude = 0\<rparr>"

definition CConsultation_IsNull :: "CConsultation \<Rightarrow> bool" where
  "CConsultation_IsNull c = (c_hash c = 0 \<and> c_txblockhash c = 0 \<and> length (c_mapState c) = 0 \<and>
     c_nVersion c = 0 \<and> c_nVotingCycle c = 0 \<and> c_strDZeel c = [] \<and> c_nSupport c = 0 \<and>
     c_nMin c = 0 \<and> c_nMax c = 0 \<and> length (c_vAnswers c) = 0 \<and> c_nExclude c = 0 \<and>
     length (c_vParameters c) = 0)"

text \<open>
  The comparison of two consultations compares \<^verbatim>\<open>vAnswers\<close> and \<^verbatim>\<open>vParameters\<close> of the left operand
  with themselves.
\<close>

definition CConsultation_eq :: "CConsultation \<Rightarrow> CConsultation \<Rightarrow> bool" where
  "CConsultation_eq a b = (c_mapState a = c_mapState b \<and> c_hash a = c_hash b \<and>
     c_txblockhash a = c_txblockhash b \<and> c_mapVotes a = c_mapVotes b \<and>
     c_nVersion a = c_nVersion b \<and> c_nVotingCycle a = c_nVotingCycle b \<and>
     c_strDZeel a = c_strDZeel b \<and> c_nSupport a = c_nSupport b \<and>
     c_nVotingCycle a = c_nVotingCycle b \<and> c_nMin a = c_nMin b \<and> c_nMax a = c_nMax b \<and>
     c_nExclude a = c_nExclude b \<and> c_vAnswers a = c_vAnswers a \<and> c_vParameters a = c_vParameters a)"

definition CConsultation_IsAboutConsensusParameter :: "CConsultation \<Rightarrow> bool" where
  "CConsultation_IsAboutConsensusParameter c = (c_nVersion c AND C_CONSENSUS_PARAMETER_VERSION \<noteq> 0)"

definition CConsultation_IsRange :: "CConsultation \<Rightarrow> bool" where
  "CConsultation_IsRange c = (c_nVersion c AND C_ANSWER_IS_A_RANGE_VERSION \<noteq> 0)"

definition CConsultation_IsSuper :: "CConsultation \<Rightarrow> bool" where
  "CConsultation_IsSuper c = (c_nVersion c AND C_SUPER_VERSION \<noteq> 0)"

definition CConsultation_GetParameters :: "CConsultation \<Rightarrow> u64 list" where
  "CConsultation_GetParameters c =
     (if CConsultation_IsAboutConsensusParameter c
      then if c_nVersion c AND C_SUPER_VERSION \<noteq> 0 then sort (c_vParameters c) else [c_nMin c]
      else [])"

definition CConsultation_GetLastState :: "BlockMap \<Rightarrow> CConsultation \<Rightarrow> flags" where
  "CConsultation_GetLastState mbi c = last_state mbi (c_mapState c)"

definition CConsultation_GetLastStateBlockIndex :: "BlockMap \<Rightarrow> CConsultation \<Rightarrow> CBlockIndex option" where
  "CConsultation_GetLastStateBlockIndex mbi c = last_state_index mbi (c_mapState c)"

definition CConsultation_GetLastStateBlockIndexForState ::
  "BlockMap \<Rightarrow> flags \<Rightarrow> CConsultation \<Rightarrow> CBlockIndex option" where
  "CConsultation_GetLastStateBlockIndexForState mbi st c = last_state_index_for mbi st (c_mapState c)"

definition CConsultation_SetState :: "CBlockIndex \<Rightarrow> flags \<Rightarrow> CConsultation \<Rightarrow> CConsultation" where
  "CConsultation_SetState pindex st c = c\<lparr>c_mapState := set_state pindex st (c_mapState c)\<rparr>"

definition CConsultation_ClearState :: "CBlockIndex \<Rightarrow> CConsultation \<Rightarrow> CConsultation" where
  "CConsultation_ClearState pindex c = c\<lparr>c_mapState := clear_state pindex (c_mapState c)\<rparr>"

definition CConsultation_IsFinished :: "BlockMap \<Rightarrow> CConsultation \<Rightarrow> bool" where
  "CConsultation_IsFinished mbi c =
     (let fState = CConsultation_GetLastState mbi c in fState = EXPIRED \<or> fState = PASSED)"

definition CConsultation_CanBeSupported :: "BlockMap \<Rightarrow> CConsultation \<Rightarrow> bool" where
  "CConsultation_CanBeSupported mbi c =
     (CConsultation_GetLastState mbi c = NIL \<and> CConsultation_IsRange c)"

definition CConsultation_CanBeVoted :: "BlockMap \<Rightarrow> int \<Rightarrow> CConsultation \<Rightarrow> bool" where
  "CConsultation_CanBeVoted mbi vote c =
     (CConsultation_GetLastState mbi c = ACCEPTED \<and> (CConsultation_IsRange c \<or> vote = VOTE_ABSTAIN))"

definition CConsultation_CanHaveAnswers :: "BlockMap \<Rightarrow> CConsultation \<Rightarrow> bool" where
  "CConsultation_CanHaveAnswers mbi c =
     (let fState = CConsultation_GetLastState mbi c
      in (fState = NIL \<or> fState = SUPPORTED) \<and> \<not> CConsultation_IsRange c)"

definition CConsultation_CanHaveNewAnswers :: "BlockMap \<Rightarrow> CConsultation \<Rightarrow> bool" where
  "CConsultation_CanHaveNewAnswers mbi c =
     (CConsultation_CanHaveAnswers mbi c \<and> c_nVersion c AND C_MORE_ANSWERS_VERSION \<noteq> 0)"

text \<open>The signed vote is compared with the unsigned bounds after conversion to \<^verbatim>\<open>uint64_t\<close>.\<close>

definition CConsultation_IsValidVote :: "int \<Rightarrow> CConsultation \<Rightarrow> bool" where
  "CConsultation_IsValidVote vote c =
     (vote = VOTE_ABSTAIN \<or>
      (CConsultation_IsRange c \<and> c_nMin c \<le> word_of_int vote \<and> word_of_int vote \<le> c_nMax c))"

section \<open>Reading a history\<close>

lemma state_scan_stable:
  assumes "\<And>k f b. (k, f) \<in> set m \<Longrightarrow> mbi k = Some b \<Longrightarrow> nHeight b \<le> snd (snd s)"
  shows "fold (state_scan mbi) m s = s"
  using assms
proof (induction m)
  case (Cons it m)
  have "state_scan mbi it s = s"
    using Cons.prems [of "fst it" "snd it"] by (auto simp: state_scan_def not_less split: option.split)
  with Cons show ?case by (auto intro: Cons.IH)
qed simp

lemma state_scan_bound:
  assumes "\<And>k f b. (k, f) \<in> set m \<Longrightarrow> mbi k = Some b \<Longrightarrow> nHeight b < n" and "snd (snd s) < n"
  shows "snd (snd (fold (state_scan mbi) m s)) < n"
  using assms
proof (induction m arbitrary: s)
  case (Cons it m)
  have "snd (snd (state_scan mbi it s)) < n"
    using Cons.prems(1) [of "fst it" "snd it"] Cons.prems(2) by (auto simp: state_scan_def split: option.split)
  then show ?case using Cons.prems(1) by (auto intro: Cons.IH)
qed simp

text \<open>An entry strictly above all others is the last one.\<close>

lemma state_scan_top:
  assumes "omap_ok m" "map_of m k = Some f" "mbi k = Some b" "0 < nHeight b"
    and "\<And>k' f' b'. (k', f') \<in> set m \<Longrightarrow> k' \<noteq> k \<Longrightarrow> mbi k' = Some b' \<Longrightarrow> nHeight b' < nHeight b"
  shows "fold (state_scan mbi) m (NIL, None, 0) = (f, Some b, nHeight b)"
proof -
  from assms(2) have "(k, f) \<in> set m" by (rule map_of_SomeD)
  then obtain xs ys where m: "m = xs @ (k, f) # ys" by (meson split_list)
  from omap_ok_distinct [OF assms(1)] have nk: "\<And>k' f'. (k', f') \<in> set xs \<union> set ys \<Longrightarrow> k' \<noteq> k"
    by (auto simp: m image_iff)
  let ?s = "fold (state_scan mbi) xs (NIL, None, 0)"
  have "snd (snd ?s) < nHeight b"
    using assms(4,5) nk by (intro state_scan_bound) (auto simp: m)
  then have "state_scan mbi (k, f) ?s = (f, Some b, nHeight b)"
    using assms(3) by (simp add: state_scan_def)
  moreover have "fold (state_scan mbi) ys (f, Some b, nHeight b) = (f, Some b, nHeight b)"
    using assms(5) nk by (intro state_scan_stable) (auto simp: m intro: less_imp_le)
  ultimately show ?thesis by (simp add: m)
qed

text \<open>A block above every block of a history; the condition under which a block is connected.\<close>

definition above_history :: "BlockMap \<Rightarrow> CBlockIndex \<Rightarrow> StateMap \<Rightarrow> bool" where
  "above_history mbi pindex m =
     (mbi (GetBlockHash pindex) = Some pindex \<and> 0 < nHeight pindex \<and> map_of m (GetBlockHash pindex) = None \<and>
      (\<forall>it \<in> set m. case mbi (fst it) of None \<Rightarrow> True | Some b \<Rightarrow> nHeight b < nHeight pindex))"

lemma last_state_set_state:
  assumes "omap_ok m" "above_history mbi pindex m"
  shows "last_state mbi (set_state pindex st m) = st"
    and "last_state_index mbi (set_state pindex st m) = Some pindex"
proof -
  have *: "nHeight b' < nHeight pindex"
    if "(k', f') \<in> set (set_state pindex st m)" "k' \<noteq> GetBlockHash pindex" "mbi k' = Some b'" for k' f' b'
  proof -
    have "map_of (set_state pindex st m) k' = Some f'"
      using that(1) assms(1) unfolding set_state_def
      by (intro map_of_is_SomeI omap_ok_distinct omap_ok_put)
    then have "map_of m k' = Some f'" using that(2) by (simp add: set_state_def)
    then have "(k', f') \<in> set m" by (rule map_of_SomeD)
    with assms(2) that(3) show ?thesis by (fastforce simp: above_history_def)
  qed
  have "fold (state_scan mbi) (set_state pindex st m) (NIL, None, 0) = (st, Some pindex, nHeight pindex)"
    using assms * by (intro state_scan_top [where k = "GetBlockHash pindex"])
      (auto simp: set_state_def above_history_def)
  then show "last_state mbi (set_state pindex st m) = st"
    and "last_state_index mbi (set_state pindex st m) = Some pindex"
    by (simp_all add: last_state_def last_state_index_def)
qed

lemma clear_set_state:
  assumes "omap_ok m" "map_of m (GetBlockHash pindex) = None"
  shows "clear_state pindex (set_state pindex st m) = m"
  using assms by (simp add: clear_state_def set_state_def omap_put_erase)

lemma last_state_Nil [simp]: "last_state mbi [] = NIL"
  by (simp add: last_state_def)

section \<open>The contract the four classes share\<close>

text \<open>
  Proposals, payment requests, consultations and answers carry their history the same way. The
  interface names the field, the two operations that change it and the two that read it; its laws
  say what each does to the field. The lemmas hold of all four classes.
\<close>

locale dao_item =
  fixes history :: "'a \<Rightarrow> StateMap"
    and with_history :: "StateMap \<Rightarrow> 'a \<Rightarrow> 'a"
    and SetState :: "CBlockIndex \<Rightarrow> flags \<Rightarrow> 'a \<Rightarrow> 'a"
    and ClearState :: "CBlockIndex \<Rightarrow> 'a \<Rightarrow> 'a"
    and GetLastState :: "BlockMap \<Rightarrow> 'a \<Rightarrow> flags"
    and GetLastStateBlockIndex :: "BlockMap \<Rightarrow> 'a \<Rightarrow> CBlockIndex option"
  assumes history_with: "history (with_history m x) = m"
    and with_same: "with_history (history x) x = x"
    and with_with: "with_history m (with_history m' x) = with_history m x"
    and SetState: "SetState pindex st x = with_history (set_state pindex st (history x)) x"
    and ClearState: "ClearState pindex x = with_history (clear_state pindex (history x)) x"
    and GetLastState: "GetLastState mbi x = last_state mbi (history x)"
    and GetLastStateBlockIndex: "GetLastStateBlockIndex mbi x = last_state_index mbi (history x)"
begin

lemma GetLastState_SetState:
  assumes "omap_ok (history x)" "above_history mbi pindex (history x)"
  shows "GetLastState mbi (SetState pindex st x) = st"
    and "GetLastStateBlockIndex mbi (SetState pindex st x) = Some pindex"
  using last_state_set_state [OF assms]
  by (simp_all add: GetLastState GetLastStateBlockIndex SetState history_with)

lemma ClearState_SetState:
  assumes "omap_ok (history x)" "map_of (history x) (GetBlockHash pindex) = None"
  shows "ClearState pindex (SetState pindex st x) = x"
  using clear_set_state [OF assms]
  by (simp add: SetState ClearState history_with with_with with_same)

lemma history_ok_SetState: "omap_ok (history x) \<Longrightarrow> omap_ok (history (SetState pindex st x))"
  by (simp add: SetState history_with set_state_def omap_ok_put)

lemma history_ok_ClearState: "omap_ok (history x) \<Longrightarrow> omap_ok (history (ClearState pindex x))"
  by (simp add: ClearState history_with clear_state_def omap_ok_erase)

lemma undo_last_state:
  assumes "omap_ok (history x)" "above_history mbi pindex (history x)"
  shows "GetLastState mbi (ClearState pindex (SetState pindex st x)) = GetLastState mbi x"
  using assms by (simp add: ClearState_SetState above_history_def)

end

lemmas item_defs =
  CProposal_SetState_def CProposal_ClearState_def CProposal_GetLastState_def
  CProposal_GetLastStateBlockIndex_def
  CPaymentRequest_SetState_def CPaymentRequest_ClearState_def CPaymentRequest_GetLastState_def
  CPaymentRequest_GetLastStateBlockIndex_def
  CConsultation_SetState_def CConsultation_ClearState_def CConsultation_GetLastState_def
  CConsultation_GetLastStateBlockIndex_def
  CConsultationAnswer_SetState_def CConsultationAnswer_ClearState_def
  CConsultationAnswer_GetLastState_def CConsultationAnswer_GetLastStateBlockIndex_def

interpretation itemP: dao_item p_mapState "\<lambda>m p. p\<lparr>p_mapState := m\<rparr>" CProposal_SetState
  CProposal_ClearState CProposal_GetLastState CProposal_GetLastStateBlockIndex
  by unfold_locales (simp_all add: item_defs)

interpretation itemR: dao_item pr_mapState "\<lambda>m p. p\<lparr>pr_mapState := m\<rparr>" CPaymentRequest_SetState
  CPaymentRequest_ClearState CPaymentRequest_GetLastState CPaymentRequest_GetLastStateBlockIndex
  by unfold_locales (simp_all add: item_defs)

interpretation itemC: dao_item c_mapState "\<lambda>m p. p\<lparr>c_mapState := m\<rparr>" CConsultation_SetState
  CConsultation_ClearState CConsultation_GetLastState CConsultation_GetLastStateBlockIndex
  by unfold_locales (simp_all add: item_defs)

interpretation itemA: dao_item ca_mapState "\<lambda>m p. p\<lparr>ca_mapState := m\<rparr>" CConsultationAnswer_SetState
  CConsultationAnswer_ClearState CConsultationAnswer_GetLastState
  CConsultationAnswer_GetLastStateBlockIndex
  by unfold_locales (simp_all add: item_defs)

end
