(* ===== verification/CacheTable.thy ===== *)
theory CacheTable
  imports Prelude
begin

text \<open>
  One table of the layered state view (\<^verbatim>\<open>coins.cpp\<close>). Every kind of DAO object is cached the same way:
  a \<^verbatim>\<open>std::map\<close> of entries over the answer of the parent view, in which an entry whose \<^verbatim>\<open>IsNull()\<close> holds
  is a deletion mark. The bodies the source repeats for every kind are written once, with the
  object's own \<^verbatim>\<open>IsNull\<close>, \<^verbatim>\<open>SetNull\<close>, \<^verbatim>\<open>operator==\<close> and \<^verbatim>\<open>fDirty\<close> as arguments; the locale \<open>cache_table\<close>
  is the contract these must satisfy and carries the lemmas.
\<close>

section \<open>The repeated bodies\<close>

text \<open>An entry read through a null check.\<close>

definition visible :: "('v \<Rightarrow> bool) \<Rightarrow> 'v option \<Rightarrow> 'v option" where
  "visible isnull x = (case x of None \<Rightarrow> None | Some e \<Rightarrow> if isnull e then None else Some e)"

text \<open>
  \<^verbatim>\<open>Fetch...\<close>: the cached entry, or the parent's answer \<open>b\<close>, which is copied into the cache.
\<close>

definition fetch_entry ::
  "('v \<Rightarrow> bool) \<Rightarrow> 'k::linorder \<Rightarrow> ('k, 'v) omap \<Rightarrow> 'v option \<Rightarrow> 'v option \<times> ('k, 'v) omap" where
  "fetch_entry isnull k tbl b =
     (case map_of tbl k of
        Some e \<Rightarrow> (Some e, tbl)
      | None \<Rightarrow>
          (case b of
             None \<Rightarrow> (None, tbl)
           | Some tmp \<Rightarrow> if isnull tmp then (None, tbl) else (Some tmp, omap_put k tmp tbl)))"

text \<open>\<^verbatim>\<open>GetAll...\<close>: the cached entries, then the parent's where no entry is cached, without the null ones.\<close>

definition all_entries :: "('v \<Rightarrow> bool) \<Rightarrow> ('k::linorder, 'v) omap \<Rightarrow> ('k, 'v) omap \<Rightarrow> ('k, 'v) omap" where
  "all_entries isnull tbl baseMap =
     filter (\<lambda>it. \<not> isnull (snd it))
       (fold (\<lambda>it m. if \<not> isnull (snd it) then omap_insert (fst it) (snd it) m else m) baseMap tbl)"

text \<open>
  \<^verbatim>\<open>Modify...\<close> and the life of the modifier it returns: the entry is created from the parent's answer,
  or null, when it is not cached; \<open>f\<close> is what the code does through the modifier; the destructor
  nulls a null entry and marks a changed one.
\<close>

definition opened_entry :: "('v \<Rightarrow> 'v) \<Rightarrow> 'v \<Rightarrow> 'k \<Rightarrow> ('k, 'v) omap \<Rightarrow> 'v option \<Rightarrow> 'v" where
  "opened_entry setnull new k tbl b =
     (case map_of tbl k of
        Some e \<Rightarrow> e
      | None \<Rightarrow> (case b of None \<Rightarrow> setnull new | Some e \<Rightarrow> e))"

definition closed_entry ::
  "('v \<Rightarrow> bool) \<Rightarrow> ('v \<Rightarrow> 'v) \<Rightarrow> ('v \<Rightarrow> 'v \<Rightarrow> bool) \<Rightarrow> ('v \<Rightarrow> 'v) \<Rightarrow> 'v \<Rightarrow> 'v \<Rightarrow> 'v" where
  "closed_entry isnull setnull eqv setdirty prev e =
     (let e' = (if isnull e then setnull e else e)
      in if eqv prev e' then e' else setdirty e')"

definition modify_entry ::
  "('v \<Rightarrow> bool) \<Rightarrow> ('v \<Rightarrow> 'v) \<Rightarrow> 'v \<Rightarrow> ('v \<Rightarrow> 'v \<Rightarrow> bool) \<Rightarrow> ('v \<Rightarrow> 'v)
     \<Rightarrow> 'k::linorder \<Rightarrow> ('v \<Rightarrow> 'v) \<Rightarrow> ('k, 'v) omap \<Rightarrow> 'v option \<Rightarrow> ('k, 'v) omap" where
  "modify_entry isnull setnull new eqv setdirty k f tbl b =
     (let prev = opened_entry setnull new k tbl b
      in omap_put k (closed_entry isnull setnull eqv setdirty prev (f prev)) tbl)"

text \<open>\<^verbatim>\<open>BatchWrite\<close> of a cache and of the database: the dirty entries are moved over.\<close>

definition batch_entries :: "('v \<Rightarrow> bool) \<Rightarrow> ('k::linorder, 'v) omap \<Rightarrow> ('k, 'v) omap \<Rightarrow> ('k, 'v) omap" where
  "batch_entries dirty src dst =
     fold (\<lambda>it m. if dirty (snd it) then omap_put (fst it) (snd it) m else m) src dst"

definition db_batch_entries ::
  "('v \<Rightarrow> bool) \<Rightarrow> ('v \<Rightarrow> bool) \<Rightarrow> ('v \<Rightarrow> 'v) \<Rightarrow> ('k::linorder, 'v) omap \<Rightarrow> ('k, 'v) omap \<Rightarrow> ('k, 'v) omap" where
  "db_batch_entries dirty isnull reload src dst =
     fold (\<lambda>it m. if dirty (snd it)
                  then if isnull (snd it) then omap_erase (fst it) m
                       else omap_put (fst it) (reload (snd it)) m
                  else m) src dst"

section \<open>What a reader of the table sees\<close>

definition lookup_entry :: "('v \<Rightarrow> bool) \<Rightarrow> 'k \<Rightarrow> ('k, 'v) omap \<Rightarrow> 'v option \<Rightarrow> 'v option" where
  "lookup_entry isnull k tbl b =
     (case map_of tbl k of None \<Rightarrow> visible isnull b | Some e \<Rightarrow> visible isnull (Some e))"

definition table_ok :: "('v \<Rightarrow> bool) \<Rightarrow> ('k::linorder, 'v) omap \<Rightarrow> bool" where
  "table_ok dirty tbl = (omap_ok tbl \<and> (\<forall>it \<in> set tbl. dirty (snd it)))"

lemma table_ok_Nil [simp]: "table_ok dirty []"
  by (simp add: table_ok_def)

lemma set_omap_put_subset: "set (omap_put k v m) \<subseteq> insert (k, v) (set m)"
  by (induction m) auto

lemma table_ok_put: "table_ok dirty tbl \<Longrightarrow> dirty v \<Longrightarrow> table_ok dirty (omap_put k v tbl)"
  using set_omap_put_subset [of k v tbl] by (auto simp: table_ok_def)

lemma table_ok_erase: "table_ok dirty tbl \<Longrightarrow> table_ok dirty (omap_erase k tbl)"
  by (auto simp: table_ok_def) (auto simp: omap_erase_def)

lemma table_ok_lookup: "table_ok dirty tbl \<Longrightarrow> map_of tbl k = Some v \<Longrightarrow> dirty v"
  by (force simp: table_ok_def dest: map_of_SomeD)

lemma visible_visible [simp]: "visible isnull (visible isnull x) = visible isnull x"
  by (simp add: visible_def split: option.split)

lemma visible_Some: "visible isnull x = Some v \<longleftrightarrow> x = Some v \<and> \<not> isnull v"
  by (auto simp: visible_def split: option.split)

lemma visible_None [simp]: "visible isnull None = None"
  by (simp add: visible_def)

lemma lookup_visible: "visible isnull (lookup_entry isnull k tbl b) = lookup_entry isnull k tbl b"
  by (simp add: lookup_entry_def split: option.split)

lemma lookup_not_null: "lookup_entry isnull k tbl b = Some v \<Longrightarrow> \<not> isnull v"
  using lookup_visible [of isnull k tbl b] by (simp add: visible_def split: if_splits)

lemma lookup_put:
  "lookup_entry isnull k (omap_put k' v tbl) b =
     (if k = k' then visible isnull (Some v) else lookup_entry isnull k tbl b)"
  by (simp add: lookup_entry_def)

lemma fst_fetch_entry: "visible isnull (fst (fetch_entry isnull k tbl b)) = lookup_entry isnull k tbl b"
  by (auto simp: fetch_entry_def lookup_entry_def visible_def split: option.split)

lemma lookup_fetch_entry:
  "lookup_entry isnull k' (snd (fetch_entry isnull k tbl b)) (if k' = k then b else b') =
     lookup_entry isnull k' tbl (if k' = k then b else b')"
  by (auto simp: fetch_entry_def lookup_entry_def visible_def split: option.split)

lemma map_of_batch_entries:
  assumes "table_ok dirty src"
  shows "map_of (batch_entries dirty src dst) k =
    (case map_of src k of None \<Rightarrow> map_of dst k | Some v \<Rightarrow> Some v)"
proof -
  have "batch_entries dirty src dst = omap_put_all src dst"
    unfolding batch_entries_def omap_put_all_def using assms by (intro fold_cong) (auto simp: table_ok_def)
  with assms show ?thesis
    by (simp add: map_of_omap_put_all table_ok_def omap_ok_distinct map_add_def)
qed

lemma table_ok_batch_entries:
  assumes "table_ok dirty src" "table_ok dirty dst"
  shows "table_ok dirty (batch_entries dirty src dst)"
proof -
  have "table_ok dirty (fold (\<lambda>it m. if dirty (snd it) then omap_put (fst it) (snd it) m else m) xs m)"
    if "table_ok dirty m" for xs m
    using that by (induction xs arbitrary: m) (auto intro: table_ok_put)
  with assms(2) show ?thesis by (simp add: batch_entries_def)
qed

lemma lookup_batch_entries:
  assumes "table_ok dirty src"
  shows "lookup_entry isnull k (batch_entries dirty src dst) b =
    lookup_entry isnull k src (lookup_entry isnull k dst b)"
  by (auto simp: lookup_entry_def map_of_batch_entries [OF assms] split: option.split)

lemma map_of_db_batch_entries:
  assumes "table_ok dirty src"
  shows "map_of (db_batch_entries dirty isnull reload src dst) k =
    (case map_of src k of None \<Rightarrow> map_of dst k | Some v \<Rightarrow> map_option reload (visible isnull (Some v)))"
proof -
  let ?step = "\<lambda>it m. if dirty (snd it) then if isnull (snd it) then omap_erase (fst it) m
     else omap_put (fst it) (reload (snd it)) m else m"
  have "map_of (fold ?step xs m) k =
     (case map_of xs k of None \<Rightarrow> map_of m k | Some v \<Rightarrow> map_option reload (visible isnull (Some v)))"
    if "distinct (map fst xs)" "\<forall>it \<in> set xs. dirty (snd it)" for xs m
    using that
  proof (induction xs arbitrary: m)
    case (Cons it xs)
    then have "map_of xs (fst it) = None" by (simp add: map_of_eq_None_iff)
    with Cons show ?case by (auto simp: visible_def split: option.split)
  qed simp
  with assms show ?thesis by (simp add: db_batch_entries_def table_ok_def omap_ok_distinct)
qed

lemma table_ok_db_batch_entries:
  assumes "table_ok dirty dst" "\<And>e. dirty (reload e)"
  shows "table_ok dirty (db_batch_entries dirty isnull reload src dst)"
proof -
  let ?step = "\<lambda>it m. if dirty (snd it) then if isnull (snd it) then omap_erase (fst it) m
     else omap_put (fst it) (reload (snd it)) m else m"
  have "table_ok dirty (fold ?step xs m)" if "table_ok dirty m" for xs m
    using that by (induction xs arbitrary: m) (auto intro: table_ok_put table_ok_erase assms(2))
  with assms(1) show ?thesis by (simp add: db_batch_entries_def)
qed

lemma all_entries_lookup:
  assumes "omap_ok tbl" "omap_ok baseMap"
  shows "map_of (all_entries isnull tbl baseMap) k = lookup_entry isnull k tbl (map_of baseMap k)"
    and "omap_ok (all_entries isnull tbl baseMap)"
proof -
  let ?ins = "\<lambda>it m. if \<not> isnull (snd it) then omap_insert (fst it) (snd it) m else m"
  have ok: "omap_ok (fold ?ins xs m)" if "omap_ok m" for xs m
    using that by (induction xs arbitrary: m) auto
  have fold: "map_of (fold ?ins xs m) k =
      (case map_of m k of Some v \<Rightarrow> Some v | None \<Rightarrow> visible isnull (map_of xs k))"
    if "distinct (map fst xs)" for xs m
    using that
  proof (induction xs arbitrary: m)
    case (Cons it xs)
    then have "map_of xs (fst it) = None" by (simp add: map_of_eq_None_iff)
    with Cons show ?case by (auto simp: map_of_omap_insert visible_def split: option.split)
  qed (simp split: option.split)
  show "omap_ok (all_entries isnull tbl baseMap)"
    unfolding all_entries_def using ok assms(1) by (blast intro: omap_ok_filter)
  have "map_of (all_entries isnull tbl baseMap) k = visible isnull (map_of (fold ?ins baseMap tbl) k)"
    unfolding all_entries_def using ok [OF assms(1)]
    by (subst omap_ok_map_of_filter) (auto simp: visible_def split: option.split)
  then show "map_of (all_entries isnull tbl baseMap) k = lookup_entry isnull k tbl (map_of baseMap k)"
    using assms(2)
    by (simp add: fold omap_ok_distinct lookup_entry_def split: option.split)
qed

section \<open>The contract of an object kind\<close>

locale cache_table =
  fixes isnull :: "'v \<Rightarrow> bool" and setnull :: "'v \<Rightarrow> 'v" and new :: 'v
    and eqv :: "'v \<Rightarrow> 'v \<Rightarrow> bool" and setdirty :: "'v \<Rightarrow> 'v" and dirty :: "'v \<Rightarrow> bool"
  assumes isnull_setnull: "isnull (setnull v)"
    and isnull_setdirty: "isnull (setdirty v) = isnull v"
    and dirty_setnull: "dirty (setnull v)"
    and dirty_setdirty: "dirty (setdirty v)"
    and setdirty_dirty: "dirty v \<Longrightarrow> setdirty v = v"
begin

lemma visible_closed:
  assumes "dirty e"
  shows "visible isnull (Some (closed_entry isnull setnull eqv setdirty prev e)) = visible isnull (Some e)"
  using assms
  by (simp add: closed_entry_def visible_def Let_def isnull_setnull isnull_setdirty setdirty_dirty dirty_setnull)

lemma dirty_closed: "dirty e \<Longrightarrow> dirty (closed_entry isnull setnull eqv setdirty prev e)"
  by (simp add: closed_entry_def Let_def dirty_setnull dirty_setdirty)

lemma lookup_modify_other:
  assumes "k' \<noteq> k"
  shows "lookup_entry isnull k' (modify_entry isnull setnull new eqv setdirty k f tbl b) b' =
    lookup_entry isnull k' tbl b'"
  using assms by (simp add: modify_entry_def lookup_put Let_def)

lemma lookup_modify_same:
  assumes "lookup_entry isnull k tbl b = Some v" "dirty (f v)"
  shows "lookup_entry isnull k (modify_entry isnull setnull new eqv setdirty k f tbl b) b' =
    visible isnull (Some (f v))"
proof -
  have "opened_entry setnull new k tbl b = v"
    using assms(1) by (auto simp: lookup_entry_def opened_entry_def visible_Some split: option.splits)
  with assms(2) show ?thesis by (simp add: modify_entry_def lookup_put visible_closed)
qed

lemma table_ok_modify:
  assumes "table_ok dirty tbl" "\<And>v. b = Some v \<Longrightarrow> dirty v" "\<And>v. dirty v \<Longrightarrow> dirty (f v)"
  shows "table_ok dirty (modify_entry isnull setnull new eqv setdirty k f tbl b)"
proof -
  have "dirty (opened_entry setnull new k tbl b)"
    using assms(2) table_ok_lookup [OF assms(1)] dirty_setnull
    by (auto simp: opened_entry_def split: option.split)
  then show ?thesis
    unfolding modify_entry_def Let_def by (intro table_ok_put assms(1,3) dirty_closed)
qed

end

end
