(* ===== verification/StateView.thy ===== *)
theory StateView
  imports CacheTable VoteList DaoTypes
begin

text \<open>
  The DAO part of the layered state view (\<^verbatim>\<open>coins.h\<close>, \<^verbatim>\<open>coins.cpp\<close>) and of the database at its bottom
  (\<^verbatim>\<open>txdb.cpp\<close>). A view is the abstract base class (every query answers "no"), the database, or a
  cache over another view; \<^verbatim>\<open>CStateViewCache\<close> is the cache the code works on, with its parent.

  A \<^verbatim>\<open>const\<close> query copies the parent's entry into the \<^verbatim>\<open>mutable\<close> cache. The \<^verbatim>\<open>Fetch...\<close> functions return that
  cache too; the queries built on them return the value only, because the copy is shown not to be
  observable. A modifier object is modelled with its life: \<open>Modify... k f v\<close> opens it, does \<open>f\<close> through it
  and closes it, so the \<^verbatim>\<open>hasModifier\<close> flags, which only assert that lives do not overlap, have no
  counterpart. The coin, token and name tables of the same classes are not part of this theory.
\<close>

section \<open>Views\<close>

record StateCache =
  cacheProposals :: "(uint256, CProposal) omap"
  cachePaymentRequests :: "(uint256, CPaymentRequest) omap"
  cacheVotes :: "(bytes, CVoteList) omap"
  cacheConsultations :: "(uint256, CConsultation) omap"
  cacheAnswers :: "(uint256, CConsultationAnswer) omap"
  cacheConsensus :: "(int, CConsensusParameter) omap"
  hashBlock :: uint256
  nCacheExcludeVotes :: int

text \<open>The tables of the database, one per key prefix, and its two single entries.\<close>

record StateDB =
  db_proposals :: "(uint256, CProposal) omap"
  db_prequests :: "(uint256, CPaymentRequest) omap"
  db_votes :: "(bytes, CVoteList) omap"
  db_consultations :: "(uint256, CConsultation) omap"
  db_answers :: "(uint256, CConsultationAnswer) omap"
  db_consensus :: "(int, CConsensusParameter) omap"
  db_best_block :: "uint256 option"
  db_exclude_votes :: "int option"

datatype CStateView =
    ViewBase
  | ViewDB StateDB
  | ViewCache StateCache CStateView

record CStateViewCache = StateCache +
  base :: CStateView

definition CStateViewCache_new :: "CStateView \<Rightarrow> CStateViewCache" where
  "CStateViewCache_new baseIn =
     \<lparr>cacheProposals = [], cachePaymentRequests = [], cacheVotes = [], cacheConsultations = [],
      cacheAnswers = [], cacheConsensus = [], hashBlock = 0, nCacheExcludeVotes = - 1, base = baseIn\<rparr>"

text \<open>A cache seen as the parent of another view.\<close>

definition as_view :: "CStateViewCache \<Rightarrow> CStateView" where
  "as_view v = ViewCache (StateCache.truncate v) (base v)"

section \<open>Queries answered by the parent\<close>

primrec view_GetProposal :: "CStateView \<Rightarrow> uint256 \<Rightarrow> CProposal option" where
  "view_GetProposal ViewBase pid = None"
| "view_GetProposal (ViewDB d) pid = map_of (db_proposals d) pid"
| "view_GetProposal (ViewCache c b) pid =
     visible CProposal_IsNull
       (fst (fetch_entry CProposal_IsNull pid (cacheProposals c) (view_GetProposal b pid)))"

primrec view_GetPaymentRequest :: "CStateView \<Rightarrow> uint256 \<Rightarrow> CPaymentRequest option" where
  "view_GetPaymentRequest ViewBase prid = None"
| "view_GetPaymentRequest (ViewDB d) prid = map_of (db_prequests d) prid"
| "view_GetPaymentRequest (ViewCache c b) prid =
     visible CPaymentRequest_IsNull
       (fst (fetch_entry CPaymentRequest_IsNull prid (cachePaymentRequests c) (view_GetPaymentRequest b prid)))"

primrec view_GetCachedVoter :: "CStateView \<Rightarrow> bytes \<Rightarrow> CVoteList option" where
  "view_GetCachedVoter ViewBase voter = None"
| "view_GetCachedVoter (ViewDB d) voter = map_of (db_votes d) voter"
| "view_GetCachedVoter (ViewCache c b) voter =
     visible CVoteList_IsNull
       (fst (fetch_entry CVoteList_IsNull voter (cacheVotes c) (view_GetCachedVoter b voter)))"

primrec view_GetConsultation :: "CStateView \<Rightarrow> uint256 \<Rightarrow> CConsultation option" where
  "view_GetConsultation ViewBase cid = None"
| "view_GetConsultation (ViewDB d) cid = map_of (db_consultations d) cid"
| "view_GetConsultation (ViewCache c b) cid =
     visible CConsultation_IsNull
       (fst (fetch_entry CConsultation_IsNull cid (cacheConsultations c) (view_GetConsultation b cid)))"

primrec view_GetConsultationAnswer :: "CStateView \<Rightarrow> uint256 \<Rightarrow> CConsultationAnswer option" where
  "view_GetConsultationAnswer ViewBase cid = None"
| "view_GetConsultationAnswer (ViewDB d) cid = map_of (db_answers d) cid"
| "view_GetConsultationAnswer (ViewCache c b) cid =
     visible CConsultationAnswer_IsNull
       (fst (fetch_entry CConsultationAnswer_IsNull cid (cacheAnswers c) (view_GetConsultationAnswer b cid)))"

primrec view_GetConsensusParameter :: "CStateView \<Rightarrow> int \<Rightarrow> CConsensusParameter option" where
  "view_GetConsensusParameter ViewBase pid = None"
| "view_GetConsensusParameter (ViewDB d) pid = map_of (db_consensus d) pid"
| "view_GetConsensusParameter (ViewCache c b) pid =
     visible CConsensusParameter_IsNull
       (fst (fetch_entry CConsensusParameter_IsNull pid (cacheConsensus c) (view_GetConsensusParameter b pid)))"

primrec view_GetAllProposals :: "CStateView \<Rightarrow> (uint256, CProposal) omap option" where
  "view_GetAllProposals ViewBase = None"
| "view_GetAllProposals (ViewDB d) = Some (db_proposals d)"
| "view_GetAllProposals (ViewCache c b) =
     map_option (all_entries CProposal_IsNull (cacheProposals c)) (view_GetAllProposals b)"

primrec view_GetAllPaymentRequests :: "CStateView \<Rightarrow> (uint256, CPaymentRequest) omap option" where
  "view_GetAllPaymentRequests ViewBase = None"
| "view_GetAllPaymentRequests (ViewDB d) = Some (db_prequests d)"
| "view_GetAllPaymentRequests (ViewCache c b) =
     map_option (all_entries CPaymentRequest_IsNull (cachePaymentRequests c)) (view_GetAllPaymentRequests b)"

primrec view_GetAllVotes :: "CStateView \<Rightarrow> (bytes, CVoteList) omap option" where
  "view_GetAllVotes ViewBase = None"
| "view_GetAllVotes (ViewDB d) = Some (db_votes d)"
| "view_GetAllVotes (ViewCache c b) =
     map_option (all_entries CVoteList_IsNull (cacheVotes c)) (view_GetAllVotes b)"

primrec view_GetAllConsultations :: "CStateView \<Rightarrow> (uint256, CConsultation) omap option" where
  "view_GetAllConsultations ViewBase = None"
| "view_GetAllConsultations (ViewDB d) = Some (db_consultations d)"
| "view_GetAllConsultations (ViewCache c b) =
     map_option (all_entries CConsultation_IsNull (cacheConsultations c)) (view_GetAllConsultations b)"

primrec view_GetAllConsultationAnswers :: "CStateView \<Rightarrow> (uint256, CConsultationAnswer) omap option" where
  "view_GetAllConsultationAnswers ViewBase = None"
| "view_GetAllConsultationAnswers (ViewDB d) = Some (db_answers d)"
| "view_GetAllConsultationAnswers (ViewCache c b) =
     map_option (all_entries CConsultationAnswer_IsNull (cacheAnswers c)) (view_GetAllConsultationAnswers b)"

primrec view_GetExcludeVotes :: "CStateView \<Rightarrow> int" where
  "view_GetExcludeVotes ViewBase = 0"
| "view_GetExcludeVotes (ViewDB d) = (case db_exclude_votes d of None \<Rightarrow> - 1 | Some n \<Rightarrow> n)"
| "view_GetExcludeVotes (ViewCache c b) =
     (if nCacheExcludeVotes c = - 1 then view_GetExcludeVotes b else nCacheExcludeVotes c)"

primrec view_GetBestBlock :: "CStateView \<Rightarrow> uint256" where
  "view_GetBestBlock ViewBase = 0"
| "view_GetBestBlock (ViewDB d) = (case db_best_block d of None \<Rightarrow> 0 | Some h \<Rightarrow> h)"
| "view_GetBestBlock (ViewCache c b) = (if hashBlock c = 0 then view_GetBestBlock b else hashBlock c)"

section \<open>Fetching into the cache\<close>

definition FetchProposal :: "CStateViewCache \<Rightarrow> uint256 \<Rightarrow> CProposal option \<times> CStateViewCache" where
  "FetchProposal v pid =
     (case fetch_entry CProposal_IsNull pid (cacheProposals v) (view_GetProposal (base v) pid) of
        (r, tbl) \<Rightarrow> (visible CProposal_IsNull r, v\<lparr>cacheProposals := tbl\<rparr>))"

definition FetchPaymentRequest :: "CStateViewCache \<Rightarrow> uint256 \<Rightarrow> CPaymentRequest option \<times> CStateViewCache" where
  "FetchPaymentRequest v prid =
     (case fetch_entry CPaymentRequest_IsNull prid (cachePaymentRequests v) (view_GetPaymentRequest (base v) prid) of
        (r, tbl) \<Rightarrow> (visible CPaymentRequest_IsNull r, v\<lparr>cachePaymentRequests := tbl\<rparr>))"

definition FetchVote :: "CStateViewCache \<Rightarrow> bytes \<Rightarrow> CVoteList option \<times> CStateViewCache" where
  "FetchVote v voter =
     (case fetch_entry CVoteList_IsNull voter (cacheVotes v) (view_GetCachedVoter (base v) voter) of
        (r, tbl) \<Rightarrow> (r, v\<lparr>cacheVotes := tbl\<rparr>))"

definition FetchConsultation :: "CStateViewCache \<Rightarrow> uint256 \<Rightarrow> CConsultation option \<times> CStateViewCache" where
  "FetchConsultation v cid =
     (case fetch_entry CConsultation_IsNull cid (cacheConsultations v) (view_GetConsultation (base v) cid) of
        (r, tbl) \<Rightarrow> (r, v\<lparr>cacheConsultations := tbl\<rparr>))"

definition FetchConsultationAnswer :: "CStateViewCache \<Rightarrow> uint256 \<Rightarrow> CConsultationAnswer option \<times> CStateViewCache" where
  "FetchConsultationAnswer v cid =
     (case fetch_entry CConsultationAnswer_IsNull cid (cacheAnswers v) (view_GetConsultationAnswer (base v) cid) of
        (r, tbl) \<Rightarrow> (r, v\<lparr>cacheAnswers := tbl\<rparr>))"

definition FetchConsensusParameter :: "CStateViewCache \<Rightarrow> int \<Rightarrow> CConsensusParameter option \<times> CStateViewCache" where
  "FetchConsensusParameter v pid =
     (case fetch_entry CConsensusParameter_IsNull pid (cacheConsensus v) (view_GetConsensusParameter (base v) pid) of
        (r, tbl) \<Rightarrow> (r, v\<lparr>cacheConsensus := tbl\<rparr>))"

section \<open>Queries of a cache\<close>

definition GetProposal :: "CStateViewCache \<Rightarrow> uint256 \<Rightarrow> CProposal option" where
  "GetProposal v pid = visible CProposal_IsNull (fst (FetchProposal v pid))"

definition HaveProposal :: "CStateViewCache \<Rightarrow> uint256 \<Rightarrow> bool" where
  "HaveProposal v pid =
     (case fst (FetchProposal v pid) of None \<Rightarrow> False | Some e \<Rightarrow> \<not> CProposal_IsNull e)"

definition GetAllProposals :: "CStateViewCache \<Rightarrow> (uint256, CProposal) omap option" where
  "GetAllProposals v = map_option (all_entries CProposal_IsNull (cacheProposals v)) (view_GetAllProposals (base v))"

definition GetPaymentRequest :: "CStateViewCache \<Rightarrow> uint256 \<Rightarrow> CPaymentRequest option" where
  "GetPaymentRequest v prid = visible CPaymentRequest_IsNull (fst (FetchPaymentRequest v prid))"

definition HavePaymentRequest :: "CStateViewCache \<Rightarrow> uint256 \<Rightarrow> bool" where
  "HavePaymentRequest v prid =
     (case fst (FetchPaymentRequest v prid) of None \<Rightarrow> False | Some e \<Rightarrow> \<not> CPaymentRequest_IsNull e)"

definition GetAllPaymentRequests :: "CStateViewCache \<Rightarrow> (uint256, CPaymentRequest) omap option" where
  "GetAllPaymentRequests v = map_option (all_entries CPaymentRequest_IsNull (cachePaymentRequests v)) (view_GetAllPaymentRequests (base v))"

definition GetCachedVoter :: "CStateViewCache \<Rightarrow> bytes \<Rightarrow> CVoteList option" where
  "GetCachedVoter v voter = visible CVoteList_IsNull (fst (FetchVote v voter))"

definition HaveCachedVoter :: "CStateViewCache \<Rightarrow> bytes \<Rightarrow> bool" where
  "HaveCachedVoter v voter =
     (case fst (FetchVote v voter) of None \<Rightarrow> False | Some e \<Rightarrow> \<not> CVoteList_IsNull e)"

definition GetAllVotes :: "CStateViewCache \<Rightarrow> (bytes, CVoteList) omap option" where
  "GetAllVotes v = map_option (all_entries CVoteList_IsNull (cacheVotes v)) (view_GetAllVotes (base v))"

definition GetConsultation :: "CStateViewCache \<Rightarrow> uint256 \<Rightarrow> CConsultation option" where
  "GetConsultation v cid = visible CConsultation_IsNull (fst (FetchConsultation v cid))"

definition HaveConsultation :: "CStateViewCache \<Rightarrow> uint256 \<Rightarrow> bool" where
  "HaveConsultation v cid =
     (case fst (FetchConsultation v cid) of None \<Rightarrow> False | Some e \<Rightarrow> \<not> CConsultation_IsNull e)"

definition GetAllConsultations :: "CStateViewCache \<Rightarrow> (uint256, CConsultation) omap option" where
  "GetAllConsultations v = map_option (all_entries CConsultation_IsNull (cacheConsultations v)) (view_GetAllConsultations (base v))"

definition GetConsultationAnswer :: "CStateViewCache \<Rightarrow> uint256 \<Rightarrow> CConsultationAnswer option" where
  "GetConsultationAnswer v cid = visible CConsultationAnswer_IsNull (fst (FetchConsultationAnswer v cid))"

definition HaveConsultationAnswer :: "CStateViewCache \<Rightarrow> uint256 \<Rightarrow> bool" where
  "HaveConsultationAnswer v cid =
     (case fst (FetchConsultationAnswer v cid) of None \<Rightarrow> False | Some e \<Rightarrow> \<not> CConsultationAnswer_IsNull e)"

definition GetAllConsultationAnswers :: "CStateViewCache \<Rightarrow> (uint256, CConsultationAnswer) omap option" where
  "GetAllConsultationAnswers v = map_option (all_entries CConsultationAnswer_IsNull (cacheAnswers v)) (view_GetAllConsultationAnswers (base v))"

definition CStateViewCache_GetConsensusParameter :: "CStateViewCache \<Rightarrow> int \<Rightarrow> CConsensusParameter option" where
  "CStateViewCache_GetConsensusParameter v pid = visible CConsensusParameter_IsNull (fst (FetchConsensusParameter v pid))"

definition HaveConsensusParameter :: "CStateViewCache \<Rightarrow> int \<Rightarrow> bool" where
  "HaveConsensusParameter v pid =
     (case fst (FetchConsensusParameter v pid) of None \<Rightarrow> False | Some e \<Rightarrow> \<not> CConsensusParameter_IsNull e)"

definition HaveProposalInCache :: "CStateViewCache \<Rightarrow> uint256 \<Rightarrow> bool" where
  "HaveProposalInCache v pid =
     (case map_of (cacheProposals v) pid of None \<Rightarrow> False | Some e \<Rightarrow> \<not> CProposal_IsNull e)"

definition HavePaymentRequestInCache :: "CStateViewCache \<Rightarrow> uint256 \<Rightarrow> bool" where
  "HavePaymentRequestInCache v txid =
     (case map_of (cachePaymentRequests v) txid of None \<Rightarrow> False | Some e \<Rightarrow> \<not> CPaymentRequest_IsNull e)"

text \<open>
  \<^verbatim>\<open>GetExcludeVotes\<close> and \<^verbatim>\<open>GetBestBlock\<close> remember the parent's answer: the value, and the cache after the call.
\<close>

definition GetExcludeVotes :: "CStateViewCache \<Rightarrow> int" where
  "GetExcludeVotes v =
     (if nCacheExcludeVotes v = - 1 then view_GetExcludeVotes (base v) else nCacheExcludeVotes v)"

definition GetExcludeVotes_cache :: "CStateViewCache \<Rightarrow> CStateViewCache" where
  "GetExcludeVotes_cache v =
     (if nCacheExcludeVotes v = - 1 then v\<lparr>nCacheExcludeVotes := view_GetExcludeVotes (base v)\<rparr> else v)"

definition SetExcludeVotes :: "int \<Rightarrow> CStateViewCache \<Rightarrow> CStateViewCache" where
  "SetExcludeVotes count v = v\<lparr>nCacheExcludeVotes := count\<rparr>"

definition GetBestBlock :: "CStateViewCache \<Rightarrow> uint256" where
  "GetBestBlock v = (if hashBlock v = 0 then view_GetBestBlock (base v) else hashBlock v)"

definition SetBestBlock :: "uint256 \<Rightarrow> CStateViewCache \<Rightarrow> CStateViewCache" where
  "SetBestBlock hashBlockIn v = v\<lparr>hashBlock := hashBlockIn\<rparr>"

section \<open>Modifiers\<close>

text \<open>
  The destructor of the payment request modifier nulls the entry of the same key in the table of
  proposals when the payment request is null; the others null their own.
\<close>

definition ModifyProposal ::
  "uint256 \<Rightarrow> (CProposal \<Rightarrow> CProposal) \<Rightarrow> CStateViewCache \<Rightarrow> CStateViewCache" where
  "ModifyProposal pid f v = v\<lparr>cacheProposals :=
     modify_entry CProposal_IsNull CProposal_SetNull CProposal_new CProposal_eq (\<lambda>e. e\<lparr>p_fDirty := True\<rparr>)
       pid f (cacheProposals v) (view_GetProposal (base v) pid)\<rparr>"

definition ModifyPaymentRequest ::
  "uint256 \<Rightarrow> (CPaymentRequest \<Rightarrow> CPaymentRequest) \<Rightarrow> CStateViewCache \<Rightarrow> CStateViewCache" where
  "ModifyPaymentRequest prid f v =
     (let prev = opened_entry CPaymentRequest_SetNull CPaymentRequest_new prid (cachePaymentRequests v)
                   (view_GetPaymentRequest (base v) prid);
          e = f prev;
          v1 = (if CPaymentRequest_IsNull e
                then v\<lparr>cacheProposals :=
                  omap_put prid (CProposal_SetNull (omap_get CProposal_new prid (cacheProposals v))) (cacheProposals v)\<rparr>
                else v)
      in v1\<lparr>cachePaymentRequests :=
           omap_put prid (if CPaymentRequest_eq prev e then e else e\<lparr>pr_fDirty := True\<rparr>)
             (cachePaymentRequests v1)\<rparr>)"

definition ModifyVote ::
  "bytes \<Rightarrow> (CVoteList \<Rightarrow> CVoteList) \<Rightarrow> CStateViewCache \<Rightarrow> CStateViewCache" where
  "ModifyVote voter f v = v\<lparr>cacheVotes :=
     modify_entry CVoteList_IsNull CVoteList_SetNull CVoteList_new CVoteList_eq (\<lambda>e. e\<lparr>vl_fDirty := True\<rparr>)
       voter f (cacheVotes v) (view_GetCachedVoter (base v) voter)\<rparr>"

definition ModifyConsultation ::
  "uint256 \<Rightarrow> (CConsultation \<Rightarrow> CConsultation) \<Rightarrow> CStateViewCache \<Rightarrow> CStateViewCache" where
  "ModifyConsultation cid f v = v\<lparr>cacheConsultations :=
     modify_entry CConsultation_IsNull CConsultation_SetNull CConsultation_new CConsultation_eq (\<lambda>e. e\<lparr>c_fDirty := True\<rparr>)
       cid f (cacheConsultations v) (view_GetConsultation (base v) cid)\<rparr>"

definition ModifyConsultationAnswer ::
  "uint256 \<Rightarrow> (CConsultationAnswer \<Rightarrow> CConsultationAnswer) \<Rightarrow> CStateViewCache \<Rightarrow> CStateViewCache" where
  "ModifyConsultationAnswer cid f v = v\<lparr>cacheAnswers :=
     modify_entry CConsultationAnswer_IsNull CConsultationAnswer_SetNull CConsultationAnswer_new CConsultationAnswer_eq (\<lambda>e. e\<lparr>ca_fDirty := True\<rparr>)
       cid f (cacheAnswers v) (view_GetConsultationAnswer (base v) cid)\<rparr>"

definition ModifyConsensusParameter ::
  "int \<Rightarrow> (CConsensusParameter \<Rightarrow> CConsensusParameter) \<Rightarrow> CStateViewCache \<Rightarrow> CStateViewCache" where
  "ModifyConsensusParameter pid f v = v\<lparr>cacheConsensus :=
     modify_entry CConsensusParameter_IsNull CConsensusParameter_SetNull CConsensusParameter_new CConsensusParameter_eq (\<lambda>e. e\<lparr>cp_fDirty := True\<rparr>)
       pid f (cacheConsensus v) (view_GetConsensusParameter (base v) pid)\<rparr>"

section \<open>Adding and removing\<close>

text \<open>The \<^verbatim>\<open>assert\<close> on \<^verbatim>\<open>fDirty\<close> stops the process.\<close>

definition AddProposal :: "CProposal \<Rightarrow> CStateViewCache \<Rightarrow> (bool \<times> CStateViewCache) result" where
  "AddProposal proposal v =
     (if HaveProposal v (p_hash proposal) then Inr (False, v)
      else if \<not> p_fDirty proposal then Inl AssertFailed
      else Inr (True, v\<lparr>cacheProposals := omap_put (p_hash proposal) proposal (cacheProposals v)\<rparr>))"

definition AddPaymentRequest :: "CPaymentRequest \<Rightarrow> CStateViewCache \<Rightarrow> (bool \<times> CStateViewCache) result" where
  "AddPaymentRequest prequest v =
     (if HavePaymentRequest v (pr_hash prequest) then Inr (False, v)
      else if \<not> pr_fDirty prequest then Inl AssertFailed
      else Inr (True, v\<lparr>cachePaymentRequests := omap_put (pr_hash prequest) prequest (cachePaymentRequests v)\<rparr>))"

definition AddConsultation :: "CConsultation \<Rightarrow> CStateViewCache \<Rightarrow> (bool \<times> CStateViewCache) result" where
  "AddConsultation consultation v =
     (if HaveConsultation v (c_hash consultation) then Inr (False, v)
      else if \<not> c_fDirty consultation then Inl AssertFailed
      else Inr (True, v\<lparr>cacheConsultations := omap_put (c_hash consultation) consultation (cacheConsultations v)\<rparr>))"

definition AddCachedVoter :: "bytes \<Rightarrow> CVoteList \<Rightarrow> CStateViewCache \<Rightarrow> (bool \<times> CStateViewCache) result" where
  "AddCachedVoter voter vote v =
     (if HaveCachedVoter v voter then Inr (False, v)
      else if \<not> vl_fDirty vote then Inl AssertFailed
      else Inr (True, v\<lparr>cacheVotes := omap_put voter vote (cacheVotes v)\<rparr>))"

definition AddConsultationAnswer ::
  "CConsultationAnswer \<Rightarrow> CStateViewCache \<Rightarrow> (bool \<times> CStateViewCache) result" where
  "AddConsultationAnswer answer v =
     (if HaveConsultationAnswer v (ca_hash answer) then Inr (False, v)
      else
        let v1 = ModifyConsultation (ca_parent answer)
                   (\<lambda>c. c\<lparr>c_vAnswers := c_vAnswers c @ [ca_hash answer]\<rparr>) v
        in if \<not> ca_fDirty answer then Inl AssertFailed
           else Inr (True, v1\<lparr>cacheAnswers := omap_put (ca_hash answer) answer (cacheAnswers v1)\<rparr>))"

definition RemoveProposal :: "uint256 \<Rightarrow> CStateViewCache \<Rightarrow> bool \<times> CStateViewCache" where
  "RemoveProposal pid v =
     (if \<not> HaveProposal v pid then (False, v)
      else (True, v\<lparr>cacheProposals := omap_put pid (CProposal_SetNull CProposal_new) (cacheProposals v)\<rparr>))"

definition RemovePaymentRequest :: "uint256 \<Rightarrow> CStateViewCache \<Rightarrow> bool \<times> CStateViewCache" where
  "RemovePaymentRequest prid v =
     (if \<not> HavePaymentRequest v prid then (False, v)
      else (True, v\<lparr>cachePaymentRequests :=
        omap_put prid (CPaymentRequest_SetNull CPaymentRequest_new) (cachePaymentRequests v)\<rparr>))"

definition RemoveCachedVoter :: "bytes \<Rightarrow> CStateViewCache \<Rightarrow> bool \<times> CStateViewCache" where
  "RemoveCachedVoter voter v =
     (if \<not> HaveCachedVoter v voter then (False, v)
      else (True, v\<lparr>cacheVotes := omap_put voter (CVoteList_SetNull CVoteList_new) (cacheVotes v)\<rparr>))"

text \<open>
  The loop that erases the answer from its consultation advances the iterator also after
  \<^verbatim>\<open>erase\<close>, so the element behind an erased one is not looked at.
\<close>

fun erase_answer :: "uint256 \<Rightarrow> uint256 list \<Rightarrow> uint256 list" where
  "erase_answer cid [] = []"
| "erase_answer cid (x # xs) =
     (if x = cid then (case xs of [] \<Rightarrow> [] | y # ys \<Rightarrow> y # erase_answer cid ys)
      else x # erase_answer cid xs)"

definition RemoveConsultationAnswer :: "uint256 \<Rightarrow> CStateViewCache \<Rightarrow> bool \<times> CStateViewCache" where
  "RemoveConsultationAnswer cid v =
     (case GetConsultationAnswer v cid of
        None \<Rightarrow> (False, v)
      | Some answer \<Rightarrow>
          let v1 = ModifyConsultation (ca_parent answer)
                     (\<lambda>c. c\<lparr>c_vAnswers := erase_answer cid (c_vAnswers c)\<rparr>) v
          in (True, v1\<lparr>cacheAnswers :=
               omap_put cid (CConsultationAnswer_SetNull CConsultationAnswer_new) (cacheAnswers v1)\<rparr>))"

text \<open>
  The closing assertion of \<^verbatim>\<open>RemoveConsultation\<close> looks the consultation's hash up in the table of payment
  requests with \<^verbatim>\<open>operator[]\<close>, which inserts a null payment request when there is none.
\<close>

definition RemoveConsultation :: "uint256 \<Rightarrow> CStateViewCache \<Rightarrow> (bool \<times> CStateViewCache) result" where
  "RemoveConsultation cid v =
     (case GetConsultation v cid of
        None \<Rightarrow> Inr (False, v)
      | Some consultation \<Rightarrow>
          let v1 = fold (\<lambda>it v. snd (RemoveConsultationAnswer it v)) (c_vAnswers consultation) v;
              v2 = v1\<lparr>cacheConsultations :=
                     omap_put cid (CConsultation_SetNull CConsultation_new) (cacheConsultations v1)\<rparr>;
              v3 = v2\<lparr>cachePaymentRequests := omap_insert cid CPaymentRequest_new (cachePaymentRequests v2)\<rparr>
          in if CPaymentRequest_IsNull (omap_get CPaymentRequest_new cid (cachePaymentRequests v3))
             then Inr (True, v3) else Inl AssertFailed)"

section \<open>Writing a cache to its parent\<close>

text \<open>
  The database stores what the objects' \<^verbatim>\<open>SerializationOp\<close> writes; reading constructs a new object and
  reads that back into it. \<open>..._reload\<close> is the composition: the fields behind a version bit that is
  not set, and the dirty flag, come back as the constructor left them.
\<close>

definition CProposal_reload :: "CProposal \<Rightarrow> CProposal" where
  "CProposal_reload p = p\<lparr>
     p_nVotingCycle := (if has_flag (p_nVersion p) P_BASE_VERSION then p_nVotingCycle p else 0),
     p_nVotesAbs := (if has_flag (p_nVersion p) P_ABSTAIN_VOTE_VERSION then p_nVotesAbs p else 0),
     p_paymentAddress := (if has_flag (p_nVersion p) P_PAYMENT_ADDRESS_VERSION then p_paymentAddress p else []),
     p_nExclude := (if has_flag (p_nVersion p) P_EXCLUDE_VERSION then p_nExclude p else 0),
     p_fDirty := True\<rparr>"

definition CPaymentRequest_reload :: "CPaymentRequest \<Rightarrow> CPaymentRequest" where
  "CPaymentRequest_reload pr = pr\<lparr>
     pr_nVotingCycle := (if has_flag (pr_nVersion pr) PR_BASE_VERSION then pr_nVotingCycle pr else 0),
     pr_nVotesAbs := (if has_flag (pr_nVersion pr) PR_ABSTAIN_VOTE_VERSION then pr_nVotesAbs pr else 0),
     pr_nExclude := (if has_flag (pr_nVersion pr) PR_EXCLUDE_VERSION then pr_nExclude pr else 0),
     pr_fDirty := True\<rparr>"

definition CVoteList_reload :: "CVoteList \<Rightarrow> CVoteList" where
  "CVoteList_reload vl = vl\<lparr>vl_fDirty := True\<rparr>"

definition CConsensusParameter_reload :: "CConsensusParameter \<Rightarrow> CConsensusParameter" where
  "CConsensusParameter_reload cp = cp\<lparr>cp_fDirty := True\<rparr>"

definition CConsultationAnswer_reload :: "CConsultationAnswer \<Rightarrow> CConsultationAnswer" where
  "CConsultationAnswer_reload ca = ca\<lparr>
     ca_vAnswer := (if has_flag (ca_nVersion ca) CA_SUPER_VERSION then ca_vAnswer ca else []),
     ca_sAnswer := (if has_flag (ca_nVersion ca) CA_SUPER_VERSION then [] else ca_sAnswer ca),
     ca_nExclude := (if has_flag (ca_nVersion ca) CA_EXCLUDE_VERSION then ca_nExclude ca else 0),
     ca_fDirty := True\<rparr>"

definition CConsultation_reload :: "CConsultation \<Rightarrow> CConsultation" where
  "CConsultation_reload c = c\<lparr>
     c_vParameters := (if c_nVersion c AND C_SUPER_VERSION \<noteq> 0 then c_vParameters c else []),
     c_nMin := (if c_nVersion c AND C_SUPER_VERSION \<noteq> 0 then 0 else c_nMin c),
     c_nExclude := (if c_nVersion c AND C_EXCLUDE_VERSION \<noteq> 0 then c_nExclude c else 0),
     c_fDirty := True\<rparr>"

definition cache_BatchWrite :: "StateCache \<Rightarrow> StateCache \<Rightarrow> StateCache" where
  "cache_BatchWrite child c = c\<lparr>
     cacheProposals := batch_entries p_fDirty (cacheProposals child) (cacheProposals c),
     cachePaymentRequests := batch_entries pr_fDirty (cachePaymentRequests child) (cachePaymentRequests c),
     cacheVotes := batch_entries vl_fDirty (cacheVotes child) (cacheVotes c),
     cacheConsultations := batch_entries c_fDirty (cacheConsultations child) (cacheConsultations c),
     cacheAnswers := batch_entries ca_fDirty (cacheAnswers child) (cacheAnswers c),
     cacheConsensus := batch_entries cp_fDirty (cacheConsensus child) (cacheConsensus c),
     hashBlock := hashBlock child,
     nCacheExcludeVotes := nCacheExcludeVotes child\<rparr>"

definition db_BatchWrite :: "StateCache \<Rightarrow> StateDB \<Rightarrow> StateDB" where
  "db_BatchWrite child d = d\<lparr>
     db_proposals := db_batch_entries p_fDirty CProposal_IsNull CProposal_reload (cacheProposals child) (db_proposals d),
     db_prequests := db_batch_entries pr_fDirty CPaymentRequest_IsNull CPaymentRequest_reload (cachePaymentRequests child) (db_prequests d),
     db_votes := db_batch_entries vl_fDirty CVoteList_IsNull CVoteList_reload (cacheVotes child) (db_votes d),
     db_consultations := db_batch_entries c_fDirty CConsultation_IsNull CConsultation_reload (cacheConsultations child) (db_consultations d),
     db_answers := db_batch_entries ca_fDirty CConsultationAnswer_IsNull CConsultationAnswer_reload (cacheAnswers child) (db_answers d),
     db_consensus := db_batch_entries cp_fDirty CConsensusParameter_IsNull CConsensusParameter_reload (cacheConsensus child) (db_consensus d),
     db_best_block := (if hashBlock child \<noteq> 0 then Some (hashBlock child) else db_best_block d),
     db_exclude_votes := (if nCacheExcludeVotes child \<noteq> - 1 then Some (nCacheExcludeVotes child) else db_exclude_votes d)\<rparr>"

text \<open>
  The database's \<^verbatim>\<open>WriteBatch\<close> returns \<^verbatim>\<open>true\<close> or throws \<^verbatim>\<open>dbwrapper_error\<close>, which shuts the node down;
  \<^verbatim>\<open>view_BatchWrite\<close> is the run in which the disk takes the batch.
\<close>

fun view_BatchWrite :: "StateCache \<Rightarrow> CStateView \<Rightarrow> bool \<times> CStateView" where
  "view_BatchWrite child ViewBase = (False, ViewBase)"
| "view_BatchWrite child (ViewDB d) = (True, ViewDB (db_BatchWrite child d))"
| "view_BatchWrite child (ViewCache c b) = (True, ViewCache (cache_BatchWrite child c) b)"

text \<open>\<^verbatim>\<open>Flush\<close> keeps \<^verbatim>\<open>hashBlock\<close> and forgets everything else.\<close>

definition Flush :: "CStateViewCache \<Rightarrow> bool \<times> CStateViewCache" where
  "Flush v =
     (case view_BatchWrite (StateCache.truncate v) (base v) of
        (fOk, b) \<Rightarrow>
          (fOk, v\<lparr>cacheProposals := [], cachePaymentRequests := [], cacheVotes := [],
             cacheConsultations := [], cacheAnswers := [], cacheConsensus := [],
             nCacheExcludeVotes := - 1, base := b\<rparr>))"

end
