(* ===== verification/StateViewLaws.thy ===== *)
theory StateViewLaws
  imports StateView
begin

text \<open>
  What a client of the state view may rely on: the laws of a table of the view, stated once as the
  locale \<open>state_table\<close> (\<open>listed_table\<close> for the tables that can be enumerated) and discharged for the six
  tables of \<open>StateView\<close>; that fetching is not observable; and what \<^verbatim>\<open>Flush\<close> does to the
  queries.
\<close>

section \<open>Well-formed views\<close>

text \<open>Every table is ordered and every entry carries the dirty flag, which nothing ever clears.\<close>

definition cache_ok :: "'a StateCache_scheme \<Rightarrow> bool" where
  "cache_ok c = (
     table_ok p_fDirty (cacheProposals c) \<and> 
     table_ok pr_fDirty (cachePaymentRequests c) \<and> 
     table_ok vl_fDirty (cacheVotes c) \<and> 
     table_ok c_fDirty (cacheConsultations c) \<and> 
     table_ok ca_fDirty (cacheAnswers c) \<and> 
     table_ok cp_fDirty (cacheConsensus c))"

definition db_ok :: "StateDB \<Rightarrow> bool" where
  "db_ok d = (
     table_ok p_fDirty (db_proposals d) \<and> 
     table_ok pr_fDirty (db_prequests d) \<and> 
     table_ok vl_fDirty (db_votes d) \<and> 
     table_ok c_fDirty (db_consultations d) \<and> 
     table_ok ca_fDirty (db_answers d) \<and> 
     table_ok cp_fDirty (db_consensus d))"

primrec base_ok :: "CStateView \<Rightarrow> bool" where
  "base_ok ViewBase = True"
| "base_ok (ViewDB d) = db_ok d"
| "base_ok (ViewCache c b) = (cache_ok c \<and> base_ok b)"

definition view_ok :: "CStateViewCache \<Rightarrow> bool" where
  "view_ok v = (cache_ok v \<and> base_ok (base v))"

section \<open>Queries as lookups\<close>

lemma GetProposal_lookup: "GetProposal v k = lookup_entry CProposal_IsNull k (cacheProposals v) (view_GetProposal (base v) k)"
  using fst_fetch_entry [of CProposal_IsNull k "cacheProposals v" "view_GetProposal (base v) k"]
  by (simp add: GetProposal_def FetchProposal_def case_prod_beta lookup_visible)

lemma view_GetProposal_lookup:
  "view_GetProposal (ViewCache c b) k = lookup_entry CProposal_IsNull k (cacheProposals c) (view_GetProposal b k)"
  by (simp add: fst_fetch_entry)

lemma view_GetProposal_dirty: "base_ok b \<Longrightarrow> view_GetProposal b k = Some e \<Longrightarrow> p_fDirty e"
proof (induction b)
  case (ViewDB d)
  then show ?case by (auto simp: db_ok_def dest: table_ok_lookup)
next
  case (ViewCache c b)
  then show ?case
    by (auto simp: fst_fetch_entry lookup_entry_def visible_Some cache_ok_def dest: table_ok_lookup split: option.splits)
qed simp

lemma HaveProposal_iff: "HaveProposal v k \<longleftrightarrow> GetProposal v k \<noteq> None"
  by (auto simp: HaveProposal_def GetProposal_def visible_def split: option.split)

lemma GetPaymentRequest_lookup: "GetPaymentRequest v k = lookup_entry CPaymentRequest_IsNull k (cachePaymentRequests v) (view_GetPaymentRequest (base v) k)"
  using fst_fetch_entry [of CPaymentRequest_IsNull k "cachePaymentRequests v" "view_GetPaymentRequest (base v) k"]
  by (simp add: GetPaymentRequest_def FetchPaymentRequest_def case_prod_beta lookup_visible)

lemma view_GetPaymentRequest_lookup:
  "view_GetPaymentRequest (ViewCache c b) k = lookup_entry CPaymentRequest_IsNull k (cachePaymentRequests c) (view_GetPaymentRequest b k)"
  by (simp add: fst_fetch_entry)

lemma view_GetPaymentRequest_dirty: "base_ok b \<Longrightarrow> view_GetPaymentRequest b k = Some e \<Longrightarrow> pr_fDirty e"
proof (induction b)
  case (ViewDB d)
  then show ?case by (auto simp: db_ok_def dest: table_ok_lookup)
next
  case (ViewCache c b)
  then show ?case
    by (auto simp: fst_fetch_entry lookup_entry_def visible_Some cache_ok_def dest: table_ok_lookup split: option.splits)
qed simp

lemma HavePaymentRequest_iff: "HavePaymentRequest v k \<longleftrightarrow> GetPaymentRequest v k \<noteq> None"
  by (auto simp: HavePaymentRequest_def GetPaymentRequest_def visible_def split: option.split)

lemma GetCachedVoter_lookup: "GetCachedVoter v k = lookup_entry CVoteList_IsNull k (cacheVotes v) (view_GetCachedVoter (base v) k)"
  using fst_fetch_entry [of CVoteList_IsNull k "cacheVotes v" "view_GetCachedVoter (base v) k"]
  by (simp add: GetCachedVoter_def FetchVote_def case_prod_beta lookup_visible)

lemma view_GetCachedVoter_lookup:
  "view_GetCachedVoter (ViewCache c b) k = lookup_entry CVoteList_IsNull k (cacheVotes c) (view_GetCachedVoter b k)"
  by (simp add: fst_fetch_entry)

lemma view_GetCachedVoter_dirty: "base_ok b \<Longrightarrow> view_GetCachedVoter b k = Some e \<Longrightarrow> vl_fDirty e"
proof (induction b)
  case (ViewDB d)
  then show ?case by (auto simp: db_ok_def dest: table_ok_lookup)
next
  case (ViewCache c b)
  then show ?case
    by (auto simp: fst_fetch_entry lookup_entry_def visible_Some cache_ok_def dest: table_ok_lookup split: option.splits)
qed simp

lemma HaveCachedVoter_iff: "HaveCachedVoter v k \<longleftrightarrow> GetCachedVoter v k \<noteq> None"
  by (auto simp: HaveCachedVoter_def GetCachedVoter_def visible_def split: option.split)

lemma GetConsultation_lookup: "GetConsultation v k = lookup_entry CConsultation_IsNull k (cacheConsultations v) (view_GetConsultation (base v) k)"
  using fst_fetch_entry [of CConsultation_IsNull k "cacheConsultations v" "view_GetConsultation (base v) k"]
  by (simp add: GetConsultation_def FetchConsultation_def case_prod_beta lookup_visible)

lemma view_GetConsultation_lookup:
  "view_GetConsultation (ViewCache c b) k = lookup_entry CConsultation_IsNull k (cacheConsultations c) (view_GetConsultation b k)"
  by (simp add: fst_fetch_entry)

lemma view_GetConsultation_dirty: "base_ok b \<Longrightarrow> view_GetConsultation b k = Some e \<Longrightarrow> c_fDirty e"
proof (induction b)
  case (ViewDB d)
  then show ?case by (auto simp: db_ok_def dest: table_ok_lookup)
next
  case (ViewCache c b)
  then show ?case
    by (auto simp: fst_fetch_entry lookup_entry_def visible_Some cache_ok_def dest: table_ok_lookup split: option.splits)
qed simp

lemma HaveConsultation_iff: "HaveConsultation v k \<longleftrightarrow> GetConsultation v k \<noteq> None"
  by (auto simp: HaveConsultation_def GetConsultation_def visible_def split: option.split)

lemma GetConsultationAnswer_lookup: "GetConsultationAnswer v k = lookup_entry CConsultationAnswer_IsNull k (cacheAnswers v) (view_GetConsultationAnswer (base v) k)"
  using fst_fetch_entry [of CConsultationAnswer_IsNull k "cacheAnswers v" "view_GetConsultationAnswer (base v) k"]
  by (simp add: GetConsultationAnswer_def FetchConsultationAnswer_def case_prod_beta lookup_visible)

lemma view_GetConsultationAnswer_lookup:
  "view_GetConsultationAnswer (ViewCache c b) k = lookup_entry CConsultationAnswer_IsNull k (cacheAnswers c) (view_GetConsultationAnswer b k)"
  by (simp add: fst_fetch_entry)

lemma view_GetConsultationAnswer_dirty: "base_ok b \<Longrightarrow> view_GetConsultationAnswer b k = Some e \<Longrightarrow> ca_fDirty e"
proof (induction b)
  case (ViewDB d)
  then show ?case by (auto simp: db_ok_def dest: table_ok_lookup)
next
  case (ViewCache c b)
  then show ?case
    by (auto simp: fst_fetch_entry lookup_entry_def visible_Some cache_ok_def dest: table_ok_lookup split: option.splits)
qed simp

lemma HaveConsultationAnswer_iff: "HaveConsultationAnswer v k \<longleftrightarrow> GetConsultationAnswer v k \<noteq> None"
  by (auto simp: HaveConsultationAnswer_def GetConsultationAnswer_def visible_def split: option.split)

lemma CStateViewCache_GetConsensusParameter_lookup: "CStateViewCache_GetConsensusParameter v k = lookup_entry CConsensusParameter_IsNull k (cacheConsensus v) (view_GetConsensusParameter (base v) k)"
  using fst_fetch_entry [of CConsensusParameter_IsNull k "cacheConsensus v" "view_GetConsensusParameter (base v) k"]
  by (simp add: CStateViewCache_GetConsensusParameter_def FetchConsensusParameter_def case_prod_beta lookup_visible)

lemma view_GetConsensusParameter_lookup:
  "view_GetConsensusParameter (ViewCache c b) k = lookup_entry CConsensusParameter_IsNull k (cacheConsensus c) (view_GetConsensusParameter b k)"
  by (simp add: fst_fetch_entry)

lemma view_GetConsensusParameter_dirty: "base_ok b \<Longrightarrow> view_GetConsensusParameter b k = Some e \<Longrightarrow> cp_fDirty e"
proof (induction b)
  case (ViewDB d)
  then show ?case by (auto simp: db_ok_def dest: table_ok_lookup)
next
  case (ViewCache c b)
  then show ?case
    by (auto simp: fst_fetch_entry lookup_entry_def visible_Some cache_ok_def dest: table_ok_lookup split: option.splits)
qed simp

lemma HaveConsensusParameter_iff: "HaveConsensusParameter v k \<longleftrightarrow> CStateViewCache_GetConsensusParameter v k \<noteq> None"
  by (auto simp: HaveConsensusParameter_def CStateViewCache_GetConsensusParameter_def visible_def split: option.split)

lemmas get_lookup = GetProposal_lookup GetPaymentRequest_lookup GetCachedVoter_lookup GetConsultation_lookup GetConsultationAnswer_lookup CStateViewCache_GetConsensusParameter_lookup
lemmas view_get_lookup = view_GetProposal_lookup view_GetPaymentRequest_lookup view_GetCachedVoter_lookup view_GetConsultation_lookup view_GetConsultationAnswer_lookup view_GetConsensusParameter_lookup
lemmas view_get_dirty = view_GetProposal_dirty view_GetPaymentRequest_dirty view_GetCachedVoter_dirty view_GetConsultation_dirty view_GetConsultationAnswer_dirty view_GetConsensusParameter_dirty

lemma view_GetAllProposals_lookup:
  assumes "base_ok b" "view_GetAllProposals b = Some m"
  shows "omap_ok m \<and> (\<forall>k. visible CProposal_IsNull (map_of m k) = visible CProposal_IsNull (view_GetProposal b k))"
  using assms
proof (induction b arbitrary: m)
  case (ViewDB d)
  then show ?case by (auto simp: db_ok_def table_ok_def)
next
  case (ViewCache c b)
  then obtain m' where m': "view_GetAllProposals b = Some m'" "m = all_entries CProposal_IsNull (cacheProposals c) m'"
    and ok: "omap_ok (cacheProposals c)" by (auto simp: cache_ok_def table_ok_def)
  with ViewCache have IH: "omap_ok m'"
    "visible CProposal_IsNull (map_of m' k) = visible CProposal_IsNull (view_GetProposal b k)" for k by auto
  show ?case
    unfolding m'(2) view_GetProposal_lookup
    using all_entries_lookup [OF ok IH(1)] IH(2) by (simp add: lookup_entry_def split: option.split)
qed simp

lemma view_GetAllPaymentRequests_lookup:
  assumes "base_ok b" "view_GetAllPaymentRequests b = Some m"
  shows "omap_ok m \<and> (\<forall>k. visible CPaymentRequest_IsNull (map_of m k) = visible CPaymentRequest_IsNull (view_GetPaymentRequest b k))"
  using assms
proof (induction b arbitrary: m)
  case (ViewDB d)
  then show ?case by (auto simp: db_ok_def table_ok_def)
next
  case (ViewCache c b)
  then obtain m' where m': "view_GetAllPaymentRequests b = Some m'" "m = all_entries CPaymentRequest_IsNull (cachePaymentRequests c) m'"
    and ok: "omap_ok (cachePaymentRequests c)" by (auto simp: cache_ok_def table_ok_def)
  with ViewCache have IH: "omap_ok m'"
    "visible CPaymentRequest_IsNull (map_of m' k) = visible CPaymentRequest_IsNull (view_GetPaymentRequest b k)" for k by auto
  show ?case
    unfolding m'(2) view_GetPaymentRequest_lookup
    using all_entries_lookup [OF ok IH(1)] IH(2) by (simp add: lookup_entry_def split: option.split)
qed simp

lemma view_GetAllVotes_lookup:
  assumes "base_ok b" "view_GetAllVotes b = Some m"
  shows "omap_ok m \<and> (\<forall>k. visible CVoteList_IsNull (map_of m k) = visible CVoteList_IsNull (view_GetCachedVoter b k))"
  using assms
proof (induction b arbitrary: m)
  case (ViewDB d)
  then show ?case by (auto simp: db_ok_def table_ok_def)
next
  case (ViewCache c b)
  then obtain m' where m': "view_GetAllVotes b = Some m'" "m = all_entries CVoteList_IsNull (cacheVotes c) m'"
    and ok: "omap_ok (cacheVotes c)" by (auto simp: cache_ok_def table_ok_def)
  with ViewCache have IH: "omap_ok m'"
    "visible CVoteList_IsNull (map_of m' k) = visible CVoteList_IsNull (view_GetCachedVoter b k)" for k by auto
  show ?case
    unfolding m'(2) view_GetCachedVoter_lookup
    using all_entries_lookup [OF ok IH(1)] IH(2) by (simp add: lookup_entry_def split: option.split)
qed simp

lemma view_GetAllConsultations_lookup:
  assumes "base_ok b" "view_GetAllConsultations b = Some m"
  shows "omap_ok m \<and> (\<forall>k. visible CConsultation_IsNull (map_of m k) = visible CConsultation_IsNull (view_GetConsultation b k))"
  using assms
proof (induction b arbitrary: m)
  case (ViewDB d)
  then show ?case by (auto simp: db_ok_def table_ok_def)
next
  case (ViewCache c b)
  then obtain m' where m': "view_GetAllConsultations b = Some m'" "m = all_entries CConsultation_IsNull (cacheConsultations c) m'"
    and ok: "omap_ok (cacheConsultations c)" by (auto simp: cache_ok_def table_ok_def)
  with ViewCache have IH: "omap_ok m'"
    "visible CConsultation_IsNull (map_of m' k) = visible CConsultation_IsNull (view_GetConsultation b k)" for k by auto
  show ?case
    unfolding m'(2) view_GetConsultation_lookup
    using all_entries_lookup [OF ok IH(1)] IH(2) by (simp add: lookup_entry_def split: option.split)
qed simp

lemma view_GetAllConsultationAnswers_lookup:
  assumes "base_ok b" "view_GetAllConsultationAnswers b = Some m"
  shows "omap_ok m \<and> (\<forall>k. visible CConsultationAnswer_IsNull (map_of m k) = visible CConsultationAnswer_IsNull (view_GetConsultationAnswer b k))"
  using assms
proof (induction b arbitrary: m)
  case (ViewDB d)
  then show ?case by (auto simp: db_ok_def table_ok_def)
next
  case (ViewCache c b)
  then obtain m' where m': "view_GetAllConsultationAnswers b = Some m'" "m = all_entries CConsultationAnswer_IsNull (cacheAnswers c) m'"
    and ok: "omap_ok (cacheAnswers c)" by (auto simp: cache_ok_def table_ok_def)
  with ViewCache have IH: "omap_ok m'"
    "visible CConsultationAnswer_IsNull (map_of m' k) = visible CConsultationAnswer_IsNull (view_GetConsultationAnswer b k)" for k by auto
  show ?case
    unfolding m'(2) view_GetConsultationAnswer_lookup
    using all_entries_lookup [OF ok IH(1)] IH(2) by (simp add: lookup_entry_def split: option.split)
qed simp

section \<open>The laws of a table\<close>

locale state_table =
  fixes get :: "'s \<Rightarrow> 'k::linorder \<Rightarrow> 'v option"
    and modify :: "'k \<Rightarrow> ('v \<Rightarrow> 'v) \<Rightarrow> 's \<Rightarrow> 's"
    and ok :: "'s \<Rightarrow> bool" and isnull :: "'v \<Rightarrow> bool" and dirty :: "'v \<Rightarrow> bool"
  assumes get_not_null: "get s k = Some v \<Longrightarrow> \<not> isnull v"
    and get_dirty: "ok s \<Longrightarrow> get s k = Some v \<Longrightarrow> dirty v"
    and get_modify_same:
      "get s k = Some v \<Longrightarrow> dirty (f v) \<Longrightarrow> get (modify k f s) k = visible isnull (Some (f v))"
    and get_modify_other: "k' \<noteq> k \<Longrightarrow> get (modify k f s) k' = get s k'"
    and ok_modify: "ok s \<Longrightarrow> (\<And>v. dirty v \<Longrightarrow> dirty (f v)) \<Longrightarrow> ok (modify k f s)"
begin

lemma get_modify:
  assumes "get s k = Some v" "dirty (f v)"
  shows "get (modify k f s) k' = (if k' = k then visible isnull (Some (f v)) else get s k')"
  using assms get_modify_same get_modify_other by simp

text \<open>A loop that modifies each of a list of keys once.\<close>

lemma get_modify_each:
  assumes "ok s" "distinct ks" "\<And>k v. dirty v \<Longrightarrow> dirty (f k v)" "\<forall>k \<in> set ks. get s k \<noteq> None"
  shows "get (fold (\<lambda>k. modify k (f k)) ks s) k' =
    (if k' \<in> set ks then visible isnull (map_option (f k') (get s k')) else get s k')"
  using assms
proof (induction ks arbitrary: s)
  case (Cons k ks)
  then obtain v where v: "get s k = Some v" "dirty v" using get_dirty by fastforce
  have upd: "get (modify k (f k) s) x = (if x = k then visible isnull (Some (f k v)) else get s x)" for x
    using v Cons.prems(3) by (intro get_modify) auto
  have "\<forall>x \<in> set ks. get (modify k (f k) s) x \<noteq> None"
    using Cons.prems(2,4) by (auto simp: upd)
  with Cons have "get (fold (\<lambda>k. modify k (f k)) ks (modify k (f k) s)) k' =
    (if k' \<in> set ks then visible isnull (map_option (f k') (get (modify k (f k) s) k'))
     else get (modify k (f k) s) k')"
    by (intro Cons.IH) (auto intro: ok_modify)
  with Cons.prems(2) v(1) show ?case by (auto simp: upd)
qed simp

text \<open>A property of all the entries survives a modification that keeps it.\<close>

lemma every_modify:
  assumes "get s k = Some v" "dirty (f v)" "\<forall>x e. get s x = Some e \<longrightarrow> P x e"
    and "\<not> isnull (f v) \<Longrightarrow> P k (f v)"
  shows "\<forall>x e. get (modify k f s) x = Some e \<longrightarrow> P x e"
  using assms(3,4) get_modify [OF assms(1), of f] assms(2) by (auto simp: visible_Some split: if_splits)

end

locale listed_table = state_table get modify ok isnull dirty
  for get :: "'s \<Rightarrow> 'k::linorder \<Rightarrow> 'v option" and modify and ok and isnull and dirty +
  fixes all :: "'s \<Rightarrow> ('k, 'v) omap option"
  assumes all_get: "ok s \<Longrightarrow> all s = Some m \<Longrightarrow> map_of m = get s"
    and all_ok: "ok s \<Longrightarrow> all s = Some m \<Longrightarrow> omap_ok m"
begin

lemma all_mem_get:
  assumes "ok s" "all s = Some m"
  shows "(k, v) \<in> set m \<longleftrightarrow> get s k = Some v"
  using all_get [OF assms] omap_ok_distinct [OF all_ok [OF assms]] by (metis map_of_eq_Some_iff)

lemma all_keys: "ok s \<Longrightarrow> all s = Some m \<Longrightarrow> k \<in> fst ` set m \<longleftrightarrow> get s k \<noteq> None"
  using all_mem_get [of s m k] by (metis (no_types) fst_conv imageE image_eqI not_None_eq prod.collapse)

text \<open>The enumeration is a function of the lookups.\<close>

lemma all_cong:
  assumes "ok s" "ok s'" "get s' = get s" "all s' = None \<longleftrightarrow> all s = None"
  shows "all s' = all s"
proof (cases "all s")
  case (Some m)
  with assms(4) obtain m' where "all s' = Some m'" by (cases "all s'") auto
  with Some show ?thesis
    using omap_ext [of m' m] all_get all_ok assms(1-3) by metis
qed (use assms(4) in simp)

end

section \<open>The six tables obey the laws\<close>

interpretation tabP: cache_table CProposal_IsNull CProposal_SetNull CProposal_new CProposal_eq
  "\<lambda>e. e\<lparr>p_fDirty := True\<rparr>" p_fDirty
  by unfold_locales (simp_all add: CProposal_IsNull_def CProposal_SetNull_def)

interpretation tabR: cache_table CPaymentRequest_IsNull CPaymentRequest_SetNull CPaymentRequest_new CPaymentRequest_eq
  "\<lambda>e. e\<lparr>pr_fDirty := True\<rparr>" pr_fDirty
  by unfold_locales (simp_all add: CPaymentRequest_IsNull_def CPaymentRequest_SetNull_def)

interpretation tabV: cache_table CVoteList_IsNull CVoteList_SetNull CVoteList_new CVoteList_eq
  "\<lambda>e. e\<lparr>vl_fDirty := True\<rparr>" vl_fDirty
  by unfold_locales (simp_all add: CVoteList_IsNull_def CVoteList_SetNull_def)

interpretation tabC: cache_table CConsultation_IsNull CConsultation_SetNull CConsultation_new CConsultation_eq
  "\<lambda>e. e\<lparr>c_fDirty := True\<rparr>" c_fDirty
  by unfold_locales (simp_all add: CConsultation_IsNull_def CConsultation_SetNull_def)

interpretation tabA: cache_table CConsultationAnswer_IsNull CConsultationAnswer_SetNull CConsultationAnswer_new CConsultationAnswer_eq
  "\<lambda>e. e\<lparr>ca_fDirty := True\<rparr>" ca_fDirty
  by unfold_locales (simp_all add: CConsultationAnswer_IsNull_def CConsultationAnswer_SetNull_def)

interpretation tabS: cache_table CConsensusParameter_IsNull CConsensusParameter_SetNull CConsensusParameter_new CConsensusParameter_eq
  "\<lambda>e. e\<lparr>cp_fDirty := True\<rparr>" cp_fDirty
  by unfold_locales (simp_all add: CConsensusParameter_IsNull_def CConsensusParameter_SetNull_def)

lemma view_ok_ModifyPaymentRequest:
  assumes "view_ok v" "\<And>e. pr_fDirty e \<Longrightarrow> pr_fDirty (f e)"
  shows "view_ok (ModifyPaymentRequest k f v)"
proof -
  let ?prev = "opened_entry CPaymentRequest_SetNull CPaymentRequest_new k (cachePaymentRequests v)
    (view_GetPaymentRequest (base v) k)"
  have "pr_fDirty ?prev"
    using assms(1) view_GetPaymentRequest_dirty [of "base v" k]
    by (auto simp: opened_entry_def view_ok_def cache_ok_def CPaymentRequest_SetNull_def
        dest: table_ok_lookup split: option.split)
  then have "pr_fDirty (f ?prev)" by (rule assms(2))
  moreover have "p_fDirty (CProposal_SetNull p)" for p by (simp add: CProposal_SetNull_def)
  ultimately show ?thesis
    using assms(1)
    by (auto simp: ModifyPaymentRequest_def Let_def view_ok_def cache_ok_def intro!: table_ok_put)
qed

lemma GetPaymentRequest_Modify_same:
  assumes "GetPaymentRequest v k = Some e" "pr_fDirty (f e)"
  shows "GetPaymentRequest (ModifyPaymentRequest k f v) k = visible CPaymentRequest_IsNull (Some (f e))"
proof -
  have "opened_entry CPaymentRequest_SetNull CPaymentRequest_new k (cachePaymentRequests v)
      (view_GetPaymentRequest (base v) k) = e"
    using assms(1)
    by (auto simp: GetPaymentRequest_lookup lookup_entry_def opened_entry_def visible_Some split: option.splits)
  moreover have "f e\<lparr>pr_fDirty := True\<rparr> = f e" using assms(2) by simp
  ultimately show ?thesis
    by (simp add: ModifyPaymentRequest_def GetPaymentRequest_lookup lookup_put Let_def)
qed

lemma GetPaymentRequest_Modify_other:
  "k' \<noteq> k \<Longrightarrow> GetPaymentRequest (ModifyPaymentRequest k f v) k' = GetPaymentRequest v k'"
  by (simp add: ModifyPaymentRequest_def GetPaymentRequest_lookup lookup_put Let_def)

interpretation viewP: listed_table GetProposal ModifyProposal view_ok CProposal_IsNull p_fDirty GetAllProposals
proof
  show "\<not> CProposal_IsNull e" if "GetProposal v k = Some e" for v k e
    using that by (simp add: GetProposal_lookup lookup_not_null)
  show "p_fDirty e" if "view_ok v" "GetProposal v k = Some e" for v k e
    using that view_GetProposal_dirty [of "base v" k]
    by (auto simp: GetProposal_lookup lookup_entry_def visible_Some view_ok_def cache_ok_def
        dest: table_ok_lookup split: option.splits)
  show "GetProposal (ModifyProposal k f v) k = visible CProposal_IsNull (Some (f e))"
    if "GetProposal v k = Some e" "p_fDirty (f e)" for v k e f
    using that by (simp add: GetProposal_lookup ModifyProposal_def tabP.lookup_modify_same)
  show "GetProposal (ModifyProposal k f v) k' = GetProposal v k'" if "k' \<noteq> k" for v k k' f
    using that by (simp add: GetProposal_lookup ModifyProposal_def tabP.lookup_modify_other)
  show "view_ok (ModifyProposal k f v)" if "view_ok v" "\<And>e. p_fDirty e \<Longrightarrow> p_fDirty (f e)" for v k f
    using that view_GetProposal_dirty [of "base v"]
    by (auto simp: view_ok_def cache_ok_def ModifyProposal_def intro!: tabP.table_ok_modify)
  have enum: "map_of m = GetProposal v \<and> omap_ok m" if ok: "view_ok v" "GetAllProposals v = Some m" for v m
  proof -
    from ok obtain m' where m': "view_GetAllProposals (base v) = Some m'" "m = all_entries CProposal_IsNull (cacheProposals v) m'"
      and t: "omap_ok (cacheProposals v)" and b: "base_ok (base v)"
      by (auto simp: GetAllProposals_def view_ok_def cache_ok_def table_ok_def)
    from view_GetAllProposals_lookup [OF b m'(1)] have "omap_ok m'"
      "\<And>k. visible CProposal_IsNull (map_of m' k) = visible CProposal_IsNull (view_GetProposal (base v) k)" by auto
    with all_entries_lookup [OF t] show ?thesis
      by (auto simp: m'(2) GetProposal_lookup lookup_entry_def fun_eq_iff split: option.split)
  qed
  show "map_of m = GetProposal v" if "view_ok v" "GetAllProposals v = Some m" for v m
    using enum [OF that] by simp
  show "omap_ok m" if "view_ok v" "GetAllProposals v = Some m" for v m
    using enum [OF that] by simp
qed

interpretation viewR: listed_table GetPaymentRequest ModifyPaymentRequest view_ok CPaymentRequest_IsNull pr_fDirty GetAllPaymentRequests
proof
  show "\<not> CPaymentRequest_IsNull e" if "GetPaymentRequest v k = Some e" for v k e
    using that by (simp add: GetPaymentRequest_lookup lookup_not_null)
  show "pr_fDirty e" if "view_ok v" "GetPaymentRequest v k = Some e" for v k e
    using that view_GetPaymentRequest_dirty [of "base v" k]
    by (auto simp: GetPaymentRequest_lookup lookup_entry_def visible_Some view_ok_def cache_ok_def
        dest: table_ok_lookup split: option.splits)
  show "GetPaymentRequest (ModifyPaymentRequest k f v) k = visible CPaymentRequest_IsNull (Some (f e))"
    if "GetPaymentRequest v k = Some e" "pr_fDirty (f e)" for v k e f
    using that by (rule GetPaymentRequest_Modify_same)
  show "GetPaymentRequest (ModifyPaymentRequest k f v) k' = GetPaymentRequest v k'"
    if "k' \<noteq> k" for v k k' f
    using that by (rule GetPaymentRequest_Modify_other)
  show "view_ok (ModifyPaymentRequest k f v)" if "view_ok v" "\<And>e. pr_fDirty e \<Longrightarrow> pr_fDirty (f e)" for v k f
    using that by (rule view_ok_ModifyPaymentRequest)
  have enum: "map_of m = GetPaymentRequest v \<and> omap_ok m" if ok: "view_ok v" "GetAllPaymentRequests v = Some m" for v m
  proof -
    from ok obtain m' where m': "view_GetAllPaymentRequests (base v) = Some m'" "m = all_entries CPaymentRequest_IsNull (cachePaymentRequests v) m'"
      and t: "omap_ok (cachePaymentRequests v)" and b: "base_ok (base v)"
      by (auto simp: GetAllPaymentRequests_def view_ok_def cache_ok_def table_ok_def)
    from view_GetAllPaymentRequests_lookup [OF b m'(1)] have "omap_ok m'"
      "\<And>k. visible CPaymentRequest_IsNull (map_of m' k) = visible CPaymentRequest_IsNull (view_GetPaymentRequest (base v) k)" by auto
    with all_entries_lookup [OF t] show ?thesis
      by (auto simp: m'(2) GetPaymentRequest_lookup lookup_entry_def fun_eq_iff split: option.split)
  qed
  show "map_of m = GetPaymentRequest v" if "view_ok v" "GetAllPaymentRequests v = Some m" for v m
    using enum [OF that] by simp
  show "omap_ok m" if "view_ok v" "GetAllPaymentRequests v = Some m" for v m
    using enum [OF that] by simp
qed

interpretation viewV: listed_table GetCachedVoter ModifyVote view_ok CVoteList_IsNull vl_fDirty GetAllVotes
proof
  show "\<not> CVoteList_IsNull e" if "GetCachedVoter v k = Some e" for v k e
    using that by (simp add: GetCachedVoter_lookup lookup_not_null)
  show "vl_fDirty e" if "view_ok v" "GetCachedVoter v k = Some e" for v k e
    using that view_GetCachedVoter_dirty [of "base v" k]
    by (auto simp: GetCachedVoter_lookup lookup_entry_def visible_Some view_ok_def cache_ok_def
        dest: table_ok_lookup split: option.splits)
  show "GetCachedVoter (ModifyVote k f v) k = visible CVoteList_IsNull (Some (f e))"
    if "GetCachedVoter v k = Some e" "vl_fDirty (f e)" for v k e f
    using that by (simp add: GetCachedVoter_lookup ModifyVote_def tabV.lookup_modify_same)
  show "GetCachedVoter (ModifyVote k f v) k' = GetCachedVoter v k'" if "k' \<noteq> k" for v k k' f
    using that by (simp add: GetCachedVoter_lookup ModifyVote_def tabV.lookup_modify_other)
  show "view_ok (ModifyVote k f v)" if "view_ok v" "\<And>e. vl_fDirty e \<Longrightarrow> vl_fDirty (f e)" for v k f
    using that view_GetCachedVoter_dirty [of "base v"]
    by (auto simp: view_ok_def cache_ok_def ModifyVote_def intro!: tabV.table_ok_modify)
  have enum: "map_of m = GetCachedVoter v \<and> omap_ok m" if ok: "view_ok v" "GetAllVotes v = Some m" for v m
  proof -
    from ok obtain m' where m': "view_GetAllVotes (base v) = Some m'" "m = all_entries CVoteList_IsNull (cacheVotes v) m'"
      and t: "omap_ok (cacheVotes v)" and b: "base_ok (base v)"
      by (auto simp: GetAllVotes_def view_ok_def cache_ok_def table_ok_def)
    from view_GetAllVotes_lookup [OF b m'(1)] have "omap_ok m'"
      "\<And>k. visible CVoteList_IsNull (map_of m' k) = visible CVoteList_IsNull (view_GetCachedVoter (base v) k)" by auto
    with all_entries_lookup [OF t] show ?thesis
      by (auto simp: m'(2) GetCachedVoter_lookup lookup_entry_def fun_eq_iff split: option.split)
  qed
  show "map_of m = GetCachedVoter v" if "view_ok v" "GetAllVotes v = Some m" for v m
    using enum [OF that] by simp
  show "omap_ok m" if "view_ok v" "GetAllVotes v = Some m" for v m
    using enum [OF that] by simp
qed

interpretation viewC: listed_table GetConsultation ModifyConsultation view_ok CConsultation_IsNull c_fDirty GetAllConsultations
proof
  show "\<not> CConsultation_IsNull e" if "GetConsultation v k = Some e" for v k e
    using that by (simp add: GetConsultation_lookup lookup_not_null)
  show "c_fDirty e" if "view_ok v" "GetConsultation v k = Some e" for v k e
    using that view_GetConsultation_dirty [of "base v" k]
    by (auto simp: GetConsultation_lookup lookup_entry_def visible_Some view_ok_def cache_ok_def
        dest: table_ok_lookup split: option.splits)
  show "GetConsultation (ModifyConsultation k f v) k = visible CConsultation_IsNull (Some (f e))"
    if "GetConsultation v k = Some e" "c_fDirty (f e)" for v k e f
    using that by (simp add: GetConsultation_lookup ModifyConsultation_def tabC.lookup_modify_same)
  show "GetConsultation (ModifyConsultation k f v) k' = GetConsultation v k'" if "k' \<noteq> k" for v k k' f
    using that by (simp add: GetConsultation_lookup ModifyConsultation_def tabC.lookup_modify_other)
  show "view_ok (ModifyConsultation k f v)" if "view_ok v" "\<And>e. c_fDirty e \<Longrightarrow> c_fDirty (f e)" for v k f
    using that view_GetConsultation_dirty [of "base v"]
    by (auto simp: view_ok_def cache_ok_def ModifyConsultation_def intro!: tabC.table_ok_modify)
  have enum: "map_of m = GetConsultation v \<and> omap_ok m" if ok: "view_ok v" "GetAllConsultations v = Some m" for v m
  proof -
    from ok obtain m' where m': "view_GetAllConsultations (base v) = Some m'" "m = all_entries CConsultation_IsNull (cacheConsultations v) m'"
      and t: "omap_ok (cacheConsultations v)" and b: "base_ok (base v)"
      by (auto simp: GetAllConsultations_def view_ok_def cache_ok_def table_ok_def)
    from view_GetAllConsultations_lookup [OF b m'(1)] have "omap_ok m'"
      "\<And>k. visible CConsultation_IsNull (map_of m' k) = visible CConsultation_IsNull (view_GetConsultation (base v) k)" by auto
    with all_entries_lookup [OF t] show ?thesis
      by (auto simp: m'(2) GetConsultation_lookup lookup_entry_def fun_eq_iff split: option.split)
  qed
  show "map_of m = GetConsultation v" if "view_ok v" "GetAllConsultations v = Some m" for v m
    using enum [OF that] by simp
  show "omap_ok m" if "view_ok v" "GetAllConsultations v = Some m" for v m
    using enum [OF that] by simp
qed

interpretation viewA: listed_table GetConsultationAnswer ModifyConsultationAnswer view_ok CConsultationAnswer_IsNull ca_fDirty GetAllConsultationAnswers
proof
  show "\<not> CConsultationAnswer_IsNull e" if "GetConsultationAnswer v k = Some e" for v k e
    using that by (simp add: GetConsultationAnswer_lookup lookup_not_null)
  show "ca_fDirty e" if "view_ok v" "GetConsultationAnswer v k = Some e" for v k e
    using that view_GetConsultationAnswer_dirty [of "base v" k]
    by (auto simp: GetConsultationAnswer_lookup lookup_entry_def visible_Some view_ok_def cache_ok_def
        dest: table_ok_lookup split: option.splits)
  show "GetConsultationAnswer (ModifyConsultationAnswer k f v) k = visible CConsultationAnswer_IsNull (Some (f e))"
    if "GetConsultationAnswer v k = Some e" "ca_fDirty (f e)" for v k e f
    using that by (simp add: GetConsultationAnswer_lookup ModifyConsultationAnswer_def tabA.lookup_modify_same)
  show "GetConsultationAnswer (ModifyConsultationAnswer k f v) k' = GetConsultationAnswer v k'" if "k' \<noteq> k" for v k k' f
    using that by (simp add: GetConsultationAnswer_lookup ModifyConsultationAnswer_def tabA.lookup_modify_other)
  show "view_ok (ModifyConsultationAnswer k f v)" if "view_ok v" "\<And>e. ca_fDirty e \<Longrightarrow> ca_fDirty (f e)" for v k f
    using that view_GetConsultationAnswer_dirty [of "base v"]
    by (auto simp: view_ok_def cache_ok_def ModifyConsultationAnswer_def intro!: tabA.table_ok_modify)
  have enum: "map_of m = GetConsultationAnswer v \<and> omap_ok m" if ok: "view_ok v" "GetAllConsultationAnswers v = Some m" for v m
  proof -
    from ok obtain m' where m': "view_GetAllConsultationAnswers (base v) = Some m'" "m = all_entries CConsultationAnswer_IsNull (cacheAnswers v) m'"
      and t: "omap_ok (cacheAnswers v)" and b: "base_ok (base v)"
      by (auto simp: GetAllConsultationAnswers_def view_ok_def cache_ok_def table_ok_def)
    from view_GetAllConsultationAnswers_lookup [OF b m'(1)] have "omap_ok m'"
      "\<And>k. visible CConsultationAnswer_IsNull (map_of m' k) = visible CConsultationAnswer_IsNull (view_GetConsultationAnswer (base v) k)" by auto
    with all_entries_lookup [OF t] show ?thesis
      by (auto simp: m'(2) GetConsultationAnswer_lookup lookup_entry_def fun_eq_iff split: option.split)
  qed
  show "map_of m = GetConsultationAnswer v" if "view_ok v" "GetAllConsultationAnswers v = Some m" for v m
    using enum [OF that] by simp
  show "omap_ok m" if "view_ok v" "GetAllConsultationAnswers v = Some m" for v m
    using enum [OF that] by simp
qed

interpretation viewS: state_table CStateViewCache_GetConsensusParameter ModifyConsensusParameter view_ok CConsensusParameter_IsNull cp_fDirty
proof
  show "\<not> CConsensusParameter_IsNull e" if "CStateViewCache_GetConsensusParameter v k = Some e" for v k e
    using that by (simp add: CStateViewCache_GetConsensusParameter_lookup lookup_not_null)
  show "cp_fDirty e" if "view_ok v" "CStateViewCache_GetConsensusParameter v k = Some e" for v k e
    using that view_GetConsensusParameter_dirty [of "base v" k]
    by (auto simp: CStateViewCache_GetConsensusParameter_lookup lookup_entry_def visible_Some view_ok_def cache_ok_def
        dest: table_ok_lookup split: option.splits)
  show "CStateViewCache_GetConsensusParameter (ModifyConsensusParameter k f v) k = visible CConsensusParameter_IsNull (Some (f e))"
    if "CStateViewCache_GetConsensusParameter v k = Some e" "cp_fDirty (f e)" for v k e f
    using that by (simp add: CStateViewCache_GetConsensusParameter_lookup ModifyConsensusParameter_def tabS.lookup_modify_same)
  show "CStateViewCache_GetConsensusParameter (ModifyConsensusParameter k f v) k' = CStateViewCache_GetConsensusParameter v k'" if "k' \<noteq> k" for v k k' f
    using that by (simp add: CStateViewCache_GetConsensusParameter_lookup ModifyConsensusParameter_def tabS.lookup_modify_other)
  show "view_ok (ModifyConsensusParameter k f v)" if "view_ok v" "\<And>e. cp_fDirty e \<Longrightarrow> cp_fDirty (f e)" for v k f
    using that view_GetConsensusParameter_dirty [of "base v"]
    by (auto simp: view_ok_def cache_ok_def ModifyConsensusParameter_def intro!: tabS.table_ok_modify)
qed

section \<open>Frames\<close>

text \<open>A query depends on its own table and on the parent only.\<close>

lemma Modify_frame [simp]:
  "base (ModifyProposal k f v) = base v" "base (ModifyPaymentRequest k g v) = base v"
  "base (ModifyVote kv h v) = base v" "base (ModifyConsultation k l v) = base v"
  "base (ModifyConsultationAnswer k m v) = base v" "base (ModifyConsensusParameter n q v) = base v"
  by (simp_all add: ModifyProposal_def ModifyPaymentRequest_def ModifyVote_def ModifyConsultation_def
      ModifyConsultationAnswer_def ModifyConsensusParameter_def Let_def)

lemma get_frame:
  "cacheProposals v = cacheProposals w \<Longrightarrow> base v = base w \<Longrightarrow> GetProposal v = GetProposal w"
  "cachePaymentRequests v = cachePaymentRequests w \<Longrightarrow> base v = base w \<Longrightarrow> GetPaymentRequest v = GetPaymentRequest w"
  "cacheVotes v = cacheVotes w \<Longrightarrow> base v = base w \<Longrightarrow> GetCachedVoter v = GetCachedVoter w"
  "cacheConsultations v = cacheConsultations w \<Longrightarrow> base v = base w \<Longrightarrow> GetConsultation v = GetConsultation w"
  "cacheAnswers v = cacheAnswers w \<Longrightarrow> base v = base w \<Longrightarrow> GetConsultationAnswer v = GetConsultationAnswer w"
  "cacheConsensus v = cacheConsensus w \<Longrightarrow> base v = base w \<Longrightarrow>
     CStateViewCache_GetConsensusParameter v = CStateViewCache_GetConsensusParameter w"
  by (simp_all add: fun_eq_iff get_lookup)

section \<open>Fetching is not observable\<close>

lemma lookup_after_fetch:
  "lookup_entry isnull k' (snd (fetch_entry isnull k tbl (g k))) (g k') = lookup_entry isnull k' tbl (g k')"
  using lookup_fetch_entry [of isnull k' k tbl "g k" "g k'"] by (cases "k' = k") simp_all

lemmas fetch_defs = FetchProposal_def FetchPaymentRequest_def FetchVote_def FetchConsultation_def
  FetchConsultationAnswer_def FetchConsensusParameter_def

text \<open>
  The copy of the parent's entry that a \<^verbatim>\<open>const\<close> query leaves in the mutable cache changes the answer
  of no query: after any \<^verbatim>\<open>Fetch\<close> of a proposal, payment request, voter, consultation, answer or
  parameter, every lookup of that kind returns what it returned before.
\<close>

theorem Fetch_unobservable:
  "GetProposal (snd (FetchProposal v k)) = GetProposal v \<and>
   GetPaymentRequest (snd (FetchPaymentRequest v k)) = GetPaymentRequest v \<and>
   GetCachedVoter (snd (FetchVote v kv)) = GetCachedVoter v \<and>
   GetConsultation (snd (FetchConsultation v k)) = GetConsultation v \<and>
   GetConsultationAnswer (snd (FetchConsultationAnswer v k)) = GetConsultationAnswer v \<and>
   CStateViewCache_GetConsensusParameter (snd (FetchConsensusParameter v n)) =
     CStateViewCache_GetConsensusParameter v"
  by (simp add: fun_eq_iff get_lookup fetch_defs case_prod_beta lookup_after_fetch)

text \<open>
  The enumerations agree with the lookups: on a well-formed view the map \<^verbatim>\<open>GetAll...\<close> fills is the graph
  of the query for one key, for proposals, payment requests, voters, consultations and answers, over
  any stack of caches.
\<close>

theorem GetAll_agrees:
  assumes "view_ok v"
    and "GetAllProposals v = Some ps" and "GetAllPaymentRequests v = Some prs" and "GetAllVotes v = Some vs"
    and "GetAllConsultations v = Some cs" and "GetAllConsultationAnswers v = Some as"
  shows "map_of ps = GetProposal v \<and> map_of prs = GetPaymentRequest v \<and> map_of vs = GetCachedVoter v \<and>
    map_of cs = GetConsultation v \<and> map_of as = GetConsultationAnswer v"
  using assms viewP.all_get viewR.all_get viewV.all_get viewC.all_get viewA.all_get by blast

definition sample_db :: StateDB where
  "sample_db = \<lparr>db_proposals = [(1, CProposal_new\<lparr>p_nAmount := 5\<rparr>)], db_prequests = [], db_votes = [],
     db_consultations = [], db_answers = [], db_consensus = [], db_best_block = None,
     db_exclude_votes = Some 0\<rparr>"

definition sample_view :: CStateViewCache where
  "sample_view = (CStateViewCache_new (ViewCache (StateCache.truncate
      ((CStateViewCache_new ViewBase)\<lparr>cacheProposals := [(2, CProposal_new\<lparr>p_nAmount := 7\<rparr>)],
         nCacheExcludeVotes := 5\<rparr>)) (ViewDB sample_db)))\<lparr>cacheProposals := [(3, CProposal_new\<lparr>p_nAmount := 9\<rparr>)]\<rparr>"

lemmas sample_defs = sample_view_def sample_db_def CStateViewCache_new_def StateCache.truncate_def

lemma sample_view_ok: "view_ok sample_view"
  by (simp add: sample_defs view_ok_def cache_ok_def db_ok_def table_ok_def omap_ok_def
      CProposal_new_def CProposal_SetNull_def)

lemma sample_view_all:
  "GetAllProposals sample_view = Some [(1, CProposal_new\<lparr>p_nAmount := 5\<rparr>), (2, CProposal_new\<lparr>p_nAmount := 7\<rparr>),
     (3, CProposal_new\<lparr>p_nAmount := 9\<rparr>)]"
  "GetAllPaymentRequests sample_view = Some []" "GetAllVotes sample_view = Some []"
  "GetAllConsultations sample_view = Some []" "GetAllConsultationAnswers sample_view = Some []"
  by (simp_all add: sample_defs GetAllProposals_def GetAllPaymentRequests_def GetAllVotes_def
      GetAllConsultations_def GetAllConsultationAnswers_def all_entries_def omap_insert_def
      CProposal_IsNull_def CProposal_new_def CProposal_SetNull_def)

theorem GetAll_agrees_witness:
  "map_of [(1, CProposal_new\<lparr>p_nAmount := 5\<rparr>), (2, CProposal_new\<lparr>p_nAmount := 7\<rparr>),
     (3, CProposal_new\<lparr>p_nAmount := 9\<rparr>)] = GetProposal sample_view"
  using GetAll_agrees [OF sample_view_ok sample_view_all] by simp

section \<open>Flushing\<close>

lemmas flush_defs = Flush_def cache_BatchWrite_def db_BatchWrite_def StateCache.truncate_def

lemma lookup_empty: "lookup_entry isnull k [] b = visible isnull b"
  by (simp add: lookup_entry_def)

lemma Flush_cache_lookups:
  assumes "view_ok v" "base v = ViewCache c b"
  shows "GetProposal (snd (Flush v)) = GetProposal v"
    and "GetPaymentRequest (snd (Flush v)) = GetPaymentRequest v"
    and "GetCachedVoter (snd (Flush v)) = GetCachedVoter v"
    and "GetConsultation (snd (Flush v)) = GetConsultation v"
    and "GetConsultationAnswer (snd (Flush v)) = GetConsultationAnswer v"
    and "CStateViewCache_GetConsensusParameter (snd (Flush v)) = CStateViewCache_GetConsensusParameter v"
  using assms(1) [unfolded view_ok_def cache_ok_def] assms(2)
  by (simp_all add: fun_eq_iff get_lookup lookup_empty view_get_lookup flush_defs lookup_batch_entries lookup_visible
      del: view_GetProposal.simps view_GetPaymentRequest.simps view_GetCachedVoter.simps
        view_GetConsultation.simps view_GetConsultationAnswer.simps view_GetConsensusParameter.simps)

lemma view_ok_Flush_cache:
  assumes "view_ok v" "base v = ViewCache c b"
  shows "view_ok (snd (Flush v))"
  using assms by (auto simp: view_ok_def cache_ok_def flush_defs intro!: table_ok_batch_entries)

text \<open>
  C4. Flushing a cache into a parent cache loses nothing the cache knows: on a well-formed view every
  query for a proposal, payment request, voter, consultation, answer or parameter, and every
  enumeration \<^verbatim>\<open>GetAll...\<close>, returns after \<^verbatim>\<open>Flush\<close>, through the parent, what it returned before. The
  best block and the count of excluded votes are kept when the cache holds a value of its own for them
  (a non-null hash, a count other than \<open>- 1\<close>); C6 is about the count when it does not.
\<close>

theorem Flush_preserves_queries:
  assumes "view_ok v" "base v = ViewCache c b"
  shows "fst (Flush v) \<and>
    GetProposal (snd (Flush v)) = GetProposal v \<and>
    GetPaymentRequest (snd (Flush v)) = GetPaymentRequest v \<and>
    GetCachedVoter (snd (Flush v)) = GetCachedVoter v \<and>
    GetConsultation (snd (Flush v)) = GetConsultation v \<and>
    GetConsultationAnswer (snd (Flush v)) = GetConsultationAnswer v \<and>
    CStateViewCache_GetConsensusParameter (snd (Flush v)) = CStateViewCache_GetConsensusParameter v \<and>
    GetAllProposals (snd (Flush v)) = GetAllProposals v \<and>
    GetAllPaymentRequests (snd (Flush v)) = GetAllPaymentRequests v \<and>
    GetAllVotes (snd (Flush v)) = GetAllVotes v \<and>
    GetAllConsultations (snd (Flush v)) = GetAllConsultations v \<and>
    GetAllConsultationAnswers (snd (Flush v)) = GetAllConsultationAnswers v \<and>
    (hashBlock v \<noteq> 0 \<longrightarrow> GetBestBlock (snd (Flush v)) = GetBestBlock v) \<and>
    (nCacheExcludeVotes v \<noteq> - 1 \<longrightarrow> GetExcludeVotes (snd (Flush v)) = GetExcludeVotes v)"
proof -
  note get = Flush_cache_lookups [OF assms] and ok = assms(1) view_ok_Flush_cache [OF assms]
  have "GetAllProposals (snd (Flush v)) = GetAllProposals v"
    using assms(2) by (intro viewP.all_cong [OF ok get(1)]) (simp add: GetAllProposals_def flush_defs)
  moreover have "GetAllPaymentRequests (snd (Flush v)) = GetAllPaymentRequests v"
    using assms(2) by (intro viewR.all_cong [OF ok get(2)]) (simp add: GetAllPaymentRequests_def flush_defs)
  moreover have "GetAllVotes (snd (Flush v)) = GetAllVotes v"
    using assms(2) by (intro viewV.all_cong [OF ok get(3)]) (simp add: GetAllVotes_def flush_defs)
  moreover have "GetAllConsultations (snd (Flush v)) = GetAllConsultations v"
    using assms(2) by (intro viewC.all_cong [OF ok get(4)]) (simp add: GetAllConsultations_def flush_defs)
  moreover have "GetAllConsultationAnswers (snd (Flush v)) = GetAllConsultationAnswers v"
    using assms(2) by (intro viewA.all_cong [OF ok get(5)]) (simp add: GetAllConsultationAnswers_def flush_defs)
  moreover have "fst (Flush v)"
    "hashBlock v \<noteq> 0 \<longrightarrow> GetBestBlock (snd (Flush v)) = GetBestBlock v"
    "nCacheExcludeVotes v \<noteq> - 1 \<longrightarrow> GetExcludeVotes (snd (Flush v)) = GetExcludeVotes v"
    using assms(2) by (simp_all add: flush_defs GetBestBlock_def GetExcludeVotes_def)
  ultimately show ?thesis using get by blast
qed

theorem Flush_preserves_queries_witness:
  "GetProposal (snd (Flush (sample_view\<lparr>hashBlock := 7, nCacheExcludeVotes := 2\<rparr>))) =
     GetProposal (sample_view\<lparr>hashBlock := 7, nCacheExcludeVotes := 2\<rparr>) \<and>
   GetAllProposals (snd (Flush (sample_view\<lparr>hashBlock := 7, nCacheExcludeVotes := 2\<rparr>))) =
     Some [(1, CProposal_new\<lparr>p_nAmount := 5\<rparr>), (2, CProposal_new\<lparr>p_nAmount := 7\<rparr>),
       (3, CProposal_new\<lparr>p_nAmount := 9\<rparr>)] \<and>
   GetBestBlock (snd (Flush (sample_view\<lparr>hashBlock := 7, nCacheExcludeVotes := 2\<rparr>))) = 7 \<and>
   GetExcludeVotes (snd (Flush (sample_view\<lparr>hashBlock := 7, nCacheExcludeVotes := 2\<rparr>))) = 2"
proof -
  let ?v = "sample_view\<lparr>hashBlock := 7, nCacheExcludeVotes := 2\<rparr>"
  obtain c b where base: "base ?v = ViewCache c b" by (simp add: sample_view_def CStateViewCache_new_def)
  have ok: "view_ok ?v" using sample_view_ok by (simp add: view_ok_def cache_ok_def)
  have "GetAllProposals ?v = GetAllProposals sample_view" "GetBestBlock ?v = 7" "GetExcludeVotes ?v = 2"
    by (simp_all add: GetAllProposals_def GetBestBlock_def GetExcludeVotes_def)
  with Flush_preserves_queries [OF ok base] sample_view_all(1) show ?thesis by simp
qed

definition storable :: "CStateViewCache \<Rightarrow> bool" where
  "storable v = (
     (\<forall>it \<in> set (cacheProposals v). CProposal_reload (snd it) = snd it) \<and>
     (\<forall>it \<in> set (cachePaymentRequests v). CPaymentRequest_reload (snd it) = snd it) \<and>
     (\<forall>it \<in> set (cacheVotes v). CVoteList_reload (snd it) = snd it) \<and>
     (\<forall>it \<in> set (cacheConsultations v). CConsultation_reload (snd it) = snd it) \<and>
     (\<forall>it \<in> set (cacheAnswers v). CConsultationAnswer_reload (snd it) = snd it) \<and>
     (\<forall>it \<in> set (cacheConsensus v). CConsensusParameter_reload (snd it) = snd it))"

lemma visible_db_batch:
  assumes "table_ok dirty src" "\<forall>it \<in> set src. reload (snd it) = snd it"
  shows "visible isnull (map_of (db_batch_entries dirty isnull reload src dst) k) =
    lookup_entry isnull k src (map_of dst k)"
proof (cases "map_of src k")
  case (Some e)
  then have "reload e = e" using assms(2) by (force dest: map_of_SomeD)
  with Some show ?thesis by (simp add: map_of_db_batch_entries [OF assms(1)] lookup_entry_def visible_def)
qed (simp add: map_of_db_batch_entries [OF assms(1)] lookup_entry_def)

lemma Flush_db_lookups:
  assumes "view_ok v" "base v = ViewDB d" "storable v"
  shows "GetProposal (snd (Flush v)) = GetProposal v"
    and "GetPaymentRequest (snd (Flush v)) = GetPaymentRequest v"
    and "GetCachedVoter (snd (Flush v)) = GetCachedVoter v"
    and "GetConsultation (snd (Flush v)) = GetConsultation v"
    and "GetConsultationAnswer (snd (Flush v)) = GetConsultationAnswer v"
    and "CStateViewCache_GetConsensusParameter (snd (Flush v)) = CStateViewCache_GetConsensusParameter v"
  using assms(1) [unfolded view_ok_def cache_ok_def] assms(2) assms(3) [unfolded storable_def]
  by (simp_all add: fun_eq_iff get_lookup lookup_empty flush_defs visible_db_batch)

lemma view_ok_Flush_db:
  assumes "view_ok v" "base v = ViewDB d"
  shows "view_ok (snd (Flush v))"
  using assms
  by (auto simp: view_ok_def cache_ok_def db_ok_def flush_defs CProposal_reload_def CPaymentRequest_reload_def CVoteList_reload_def
      CConsultation_reload_def CConsultationAnswer_reload_def CConsensusParameter_reload_def
      intro!: table_ok_db_batch_entries)

text \<open>
  C5. Flushing into the database keeps every query when the cached entries survive being stored: if
  reading back the stored form of each cached object gives the object, the queries for a proposal, payment request,
  voter, consultation, answer or parameter, the enumerations, the best block and the count of excluded votes are
  after \<^verbatim>\<open>Flush\<close> what they were before.
\<close>

theorem Flush_db_preserves_queries:
  assumes "view_ok v" "base v = ViewDB d" "storable v"
  shows "fst (Flush v) \<and>
    GetProposal (snd (Flush v)) = GetProposal v \<and>
    GetPaymentRequest (snd (Flush v)) = GetPaymentRequest v \<and>
    GetCachedVoter (snd (Flush v)) = GetCachedVoter v \<and>
    GetConsultation (snd (Flush v)) = GetConsultation v \<and>
    GetConsultationAnswer (snd (Flush v)) = GetConsultationAnswer v \<and>
    CStateViewCache_GetConsensusParameter (snd (Flush v)) = CStateViewCache_GetConsensusParameter v \<and>
    GetAllProposals (snd (Flush v)) = GetAllProposals v \<and>
    GetAllPaymentRequests (snd (Flush v)) = GetAllPaymentRequests v \<and>
    GetAllVotes (snd (Flush v)) = GetAllVotes v \<and>
    GetAllConsultations (snd (Flush v)) = GetAllConsultations v \<and>
    GetAllConsultationAnswers (snd (Flush v)) = GetAllConsultationAnswers v \<and>
    GetBestBlock (snd (Flush v)) = GetBestBlock v \<and> GetExcludeVotes (snd (Flush v)) = GetExcludeVotes v"
proof -
  note get = Flush_db_lookups [OF assms] and ok = assms(1) view_ok_Flush_db [OF assms(1,2)]
  have "GetAllProposals (snd (Flush v)) = GetAllProposals v"
    using assms(2) by (intro viewP.all_cong [OF ok get(1)]) (simp add: GetAllProposals_def flush_defs)
  moreover have "GetAllPaymentRequests (snd (Flush v)) = GetAllPaymentRequests v"
    using assms(2) by (intro viewR.all_cong [OF ok get(2)]) (simp add: GetAllPaymentRequests_def flush_defs)
  moreover have "GetAllVotes (snd (Flush v)) = GetAllVotes v"
    using assms(2) by (intro viewV.all_cong [OF ok get(3)]) (simp add: GetAllVotes_def flush_defs)
  moreover have "GetAllConsultations (snd (Flush v)) = GetAllConsultations v"
    using assms(2) by (intro viewC.all_cong [OF ok get(4)]) (simp add: GetAllConsultations_def flush_defs)
  moreover have "GetAllConsultationAnswers (snd (Flush v)) = GetAllConsultationAnswers v"
    using assms(2) by (intro viewA.all_cong [OF ok get(5)]) (simp add: GetAllConsultationAnswers_def flush_defs)
  moreover have "fst (Flush v)" "GetBestBlock (snd (Flush v)) = GetBestBlock v"
    "GetExcludeVotes (snd (Flush v)) = GetExcludeVotes v"
    using assms(2) by (simp_all add: flush_defs GetBestBlock_def GetExcludeVotes_def)
  ultimately show ?thesis using get by blast
qed

theorem Flush_db_preserves_queries_witness:
  "GetProposal (snd (Flush (sample_view\<lparr>base := ViewDB sample_db\<rparr>))) =
     GetProposal (sample_view\<lparr>base := ViewDB sample_db\<rparr>)"
proof -
  have "view_ok (sample_view\<lparr>base := ViewDB sample_db\<rparr>)" "storable (sample_view\<lparr>base := ViewDB sample_db\<rparr>)"
    by (simp_all add: sample_defs view_ok_def cache_ok_def db_ok_def table_ok_def omap_ok_def storable_def
        CProposal_new_def CProposal_SetNull_def CProposal_reload_def)
  from Flush_db_preserves_queries [OF this(1) _ this(2)] show ?thesis by simp
qed

text \<open>
  C6. The count of excluded votes is not kept by a flush: a cache that has not read the count writes
  the sentinel \<open>- 1\<close> over the parent's count, so a count the parent has set and not yet written is
  forgotten and the grandparent's answer comes back.
\<close>

theorem Flush_forgets_exclude_votes:
  assumes "nCacheExcludeVotes v = - 1" "base v = ViewCache c b"
  shows "GetExcludeVotes (snd (Flush v)) = view_GetExcludeVotes b"
  using assms by (simp add: GetExcludeVotes_def flush_defs)

theorem Flush_forgets_exclude_votes_witness:
  "GetExcludeVotes sample_view = 5 \<and> GetExcludeVotes (snd (Flush sample_view)) = 0"
  using Flush_forgets_exclude_votes [of sample_view] by (simp add: sample_defs GetExcludeVotes_def)

section \<open>Answers of a consultation\<close>

lemma erase_answer_notin: "cid \<notin> set xs \<Longrightarrow> erase_answer cid xs = xs"
  by (induction xs) auto

lemma erase_answer_snoc: "cid \<notin> set xs \<Longrightarrow> erase_answer cid (xs @ [cid]) = xs"
  by (induction xs) auto

lemma cacheAnswers_ModifyConsultation [simp]: "cacheAnswers (ModifyConsultation k f v) = cacheAnswers v"
  by (simp add: ModifyConsultation_def)

text \<open>
  Adding an answer to a consultation and removing it again restores the view: after \<^verbatim>\<open>AddConsultationAnswer\<close>
  of a new answer the answer is found and listed last in its consultation, and after
  \<^verbatim>\<open>RemoveConsultationAnswer\<close> every consultation and every answer reads as at first.
\<close>

theorem AddConsultationAnswer_Remove:
  assumes "view_ok v" "GetConsultation v (ca_parent a) = Some c" "GetConsultationAnswer v (ca_hash a) = None"
    and "ca_fDirty a" "\<not> CConsultationAnswer_IsNull a" "ca_hash a \<notin> set (c_vAnswers c)"
    and "\<not> CConsultation_IsNull (c\<lparr>c_vAnswers := []\<rparr>)"
  shows "\<exists>v1 v2. AddConsultationAnswer a v = Inr (True, v1) \<and>
    GetConsultationAnswer v1 (ca_hash a) = Some a \<and>
    GetConsultation v1 (ca_parent a) = Some (c\<lparr>c_vAnswers := c_vAnswers c @ [ca_hash a]\<rparr>) \<and>
    RemoveConsultationAnswer (ca_hash a) v1 = (True, v2) \<and>
    GetConsultation v2 = GetConsultation v \<and> GetConsultationAnswer v2 = GetConsultationAnswer v"
proof -
  let ?h = "ca_hash a"
  let ?c1 = "c\<lparr>c_vAnswers := c_vAnswers c @ [?h]\<rparr>"
  let ?m = "ModifyConsultation (ca_parent a) (\<lambda>c. c\<lparr>c_vAnswers := c_vAnswers c @ [?h]\<rparr>) v"
  let ?v1 = "?m\<lparr>cacheAnswers := omap_put ?h a (cacheAnswers ?m)\<rparr>"
  let ?m2 = "ModifyConsultation (ca_parent a) (\<lambda>c. c\<lparr>c_vAnswers := erase_answer ?h (c_vAnswers c)\<rparr>) ?v1"
  let ?v2 = "?m2\<lparr>cacheAnswers := omap_put ?h (CConsultationAnswer_SetNull CConsultationAnswer_new) (cacheAnswers ?m2)\<rparr>"
  have d: "c_fDirty c" using viewC.get_dirty [OF assms(1,2)] .
  have nn: "\<not> CConsultation_IsNull ?c1" "\<not> CConsultation_IsNull c"
    using assms(7) by (auto simp: CConsultation_IsNull_def)
  have m: "GetConsultation ?m k = (if k = ca_parent a then Some ?c1 else GetConsultation v k)" for k
    using viewC.get_modify [OF assms(2), of "\<lambda>c. c\<lparr>c_vAnswers := c_vAnswers c @ [?h]\<rparr>" k] d nn(1)
    by (simp add: visible_def)
  have v1: "GetConsultation ?v1 = GetConsultation ?m" by (rule get_frame) simp_all
  have add: "AddConsultationAnswer a v = Inr (True, ?v1)"
    using assms(3,4) by (simp add: AddConsultationAnswer_def HaveConsultationAnswer_iff Let_def)
  have a1: "GetConsultationAnswer ?v1 k = (if k = ?h then Some a else GetConsultationAnswer v k)" for k
    using assms(5) by (simp add: GetConsultationAnswer_lookup lookup_put visible_def)
  have g1: "GetConsultation ?v1 (ca_parent a) = Some ?c1" unfolding v1 m by simp
  have e: "erase_answer ?h (c_vAnswers ?c1) = c_vAnswers c" by (simp add: erase_answer_snoc assms(6))
  have m2: "GetConsultation ?m2 k = (if k = ca_parent a then Some c else GetConsultation ?v1 k)" for k
    using viewC.get_modify [OF g1, of "\<lambda>c. c\<lparr>c_vAnswers := erase_answer ?h (c_vAnswers c)\<rparr>" k] d nn(2) e
    by (simp add: visible_def)
  have c2: "GetConsultation ?v2 = GetConsultation v"
  proof -
    have "GetConsultation ?v2 = GetConsultation ?m2" by (rule get_frame) simp_all
    with m2 v1 m assms(2) show ?thesis by (auto simp: fun_eq_iff)
  qed
  have null: "CConsultationAnswer_IsNull (CConsultationAnswer_SetNull CConsultationAnswer_new)"
    by (simp add: tabA.isnull_setnull)
  have a2: "GetConsultationAnswer ?v2 = GetConsultationAnswer v"
  proof
    fix k
    show "GetConsultationAnswer ?v2 k = GetConsultationAnswer v k"
      using a1 [of k] assms(3) null
      by (simp add: GetConsultationAnswer_lookup lookup_put visible_def split: if_splits)
  qed
  have "RemoveConsultationAnswer ?h ?v1 = (True, ?v2)"
    using a1 [of ?h] by (simp add: RemoveConsultationAnswer_def Let_def)
  with add a1 [of ?h] g1 c2 a2 show ?thesis by (intro exI [of _ ?v1] exI [of _ ?v2]) simp
qed

theorem AddConsultationAnswer_Remove_witness:
  "let v = (CStateViewCache_new (ViewDB sample_db))\<lparr>cacheConsultations := [(7, CConsultation_new\<lparr>c_nVersion := 1\<rparr>)]\<rparr>;
       a = CConsultationAnswer_new\<lparr>ca_hash := 8, ca_parent := 7, ca_sAnswer := ''yes''\<rparr>
   in \<exists>v1 v2. AddConsultationAnswer a v = Inr (True, v1) \<and> RemoveConsultationAnswer 8 v1 = (True, v2) \<and>
     GetConsultation v2 = GetConsultation v"
proof -
  let ?v = "(CStateViewCache_new (ViewDB sample_db))\<lparr>cacheConsultations := [(7, CConsultation_new\<lparr>c_nVersion := 1\<rparr>)]\<rparr>"
  let ?a = "CConsultationAnswer_new\<lparr>ca_hash := 8, ca_parent := 7, ca_sAnswer := ''yes''\<rparr>"
  have "view_ok ?v"
    by (simp add: sample_defs view_ok_def cache_ok_def db_ok_def table_ok_def omap_ok_def
        CConsultation_new_def CProposal_new_def CProposal_SetNull_def)
  moreover have "GetConsultation ?v (ca_parent ?a) = Some (CConsultation_new\<lparr>c_nVersion := 1\<rparr>)"
    "GetConsultationAnswer ?v (ca_hash ?a) = None"
    by (simp_all add: get_lookup lookup_entry_def sample_defs visible_def CConsultation_IsNull_def CConsultationAnswer_new_def)
  ultimately show ?thesis
    using AddConsultationAnswer_Remove [of ?v ?a "CConsultation_new\<lparr>c_nVersion := 1\<rparr>"]
    by (auto simp: CConsultationAnswer_new_def CConsultation_new_def CConsultationAnswer_IsNull_def CConsultation_IsNull_def Let_def)
qed

end
