(* ===== verification/DaoRules.thy ===== *)
theory DaoRules
  imports CFloat StateViewLaws
begin

text \<open>
  The rules a DAO object is judged by (\<^verbatim>\<open>consensus/dao.cpp\<close>, \<^verbatim>\<open>main.cpp\<close>): the consensus parameters in
  force, the quorum and majority tests, expiry and support. The chain parameters of
  \<^verbatim>\<open>Params().GetConsensus()\<close> are the argument \<open>par\<close>, the global \<^verbatim>\<open>mapBlockIndex\<close> is the argument \<open>mbi\<close>. A
  division by a cycle length of zero is the value \<open>Inl DivisionByZero\<close>.
\<close>

section \<open>Consensus parameters\<close>

datatype ConsensusParamType = TYPE_NUMBER | TYPE_PERCENT | TYPE_NAV | TYPE_BOOL | TYPE_BLOCK | TYPE_CYCLE

abbreviation (input) VOTING_CYCLE_LENGTH :: nat where "VOTING_CYCLE_LENGTH \<equiv> 0"
abbreviation (input) CONSULTATION_MIN_SUPPORT :: nat where "CONSULTATION_MIN_SUPPORT \<equiv> 1"
abbreviation (input) CONSULTATION_ANSWER_MIN_SUPPORT :: nat where "CONSULTATION_ANSWER_MIN_SUPPORT \<equiv> 2"
abbreviation (input) CONSULTATION_MIN_CYCLES :: nat where "CONSULTATION_MIN_CYCLES \<equiv> 3"
abbreviation (input) CONSULTATION_MAX_VOTING_CYCLES :: nat where "CONSULTATION_MAX_VOTING_CYCLES \<equiv> 4"
abbreviation (input) CONSULTATION_MAX_SUPPORT_CYCLES :: nat where "CONSULTATION_MAX_SUPPORT_CYCLES \<equiv> 5"
abbreviation (input) CONSULTATION_REFLECTION_LENGTH :: nat where "CONSULTATION_REFLECTION_LENGTH \<equiv> 6"
abbreviation (input) CONSULTATION_MIN_FEE :: nat where "CONSULTATION_MIN_FEE \<equiv> 7"
abbreviation (input) CONSULTATION_ANSWER_MIN_FEE :: nat where "CONSULTATION_ANSWER_MIN_FEE \<equiv> 8"
abbreviation (input) PROPOSAL_MIN_QUORUM :: nat where "PROPOSAL_MIN_QUORUM \<equiv> 9"
abbreviation (input) PROPOSAL_MIN_ACCEPT :: nat where "PROPOSAL_MIN_ACCEPT \<equiv> 10"
abbreviation (input) PROPOSAL_MIN_REJECT :: nat where "PROPOSAL_MIN_REJECT \<equiv> 11"
abbreviation (input) PROPOSAL_MIN_FEE :: nat where "PROPOSAL_MIN_FEE \<equiv> 12"
abbreviation (input) PROPOSAL_MAX_VOTING_CYCLES :: nat where "PROPOSAL_MAX_VOTING_CYCLES \<equiv> 13"
abbreviation (input) PAYMENT_REQUEST_MIN_QUORUM :: nat where "PAYMENT_REQUEST_MIN_QUORUM \<equiv> 14"
abbreviation (input) PAYMENT_REQUEST_MIN_ACCEPT :: nat where "PAYMENT_REQUEST_MIN_ACCEPT \<equiv> 15"
abbreviation (input) PAYMENT_REQUEST_MIN_REJECT :: nat where "PAYMENT_REQUEST_MIN_REJECT \<equiv> 16"
abbreviation (input) PAYMENT_REQUEST_MIN_FEE :: nat where "PAYMENT_REQUEST_MIN_FEE \<equiv> 17"
abbreviation (input) PAYMENT_REQUEST_MAX_VOTING_CYCLES :: nat where "PAYMENT_REQUEST_MAX_VOTING_CYCLES \<equiv> 18"
abbreviation (input) FUND_SPREAD_ACCUMULATION :: nat where "FUND_SPREAD_ACCUMULATION \<equiv> 19"
abbreviation (input) FUND_PERCENT_PER_BLOCK :: nat where "FUND_PERCENT_PER_BLOCK \<equiv> 20"
abbreviation (input) GENERATION_PER_BLOCK :: nat where "GENERATION_PER_BLOCK \<equiv> 21"
abbreviation (input) NAVNS_FEE :: nat where "NAVNS_FEE \<equiv> 22"
abbreviation (input) DAO_VOTE_LIGHT_MIN_FEE :: nat where "DAO_VOTE_LIGHT_MIN_FEE \<equiv> 23"
abbreviation (input) MAX_CONSENSUS_PARAMS :: nat where "MAX_CONSENSUS_PARAMS \<equiv> 28"

definition vConsensusParamsType :: "ConsensusParamType list" where
  "vConsensusParamsType =
     [TYPE_BLOCK,
      TYPE_PERCENT, TYPE_PERCENT,
      TYPE_CYCLE, TYPE_CYCLE, TYPE_CYCLE, TYPE_CYCLE, TYPE_NAV,
      TYPE_NAV,
      TYPE_PERCENT, TYPE_PERCENT, TYPE_PERCENT, TYPE_NAV, TYPE_CYCLE,
      TYPE_PERCENT, TYPE_PERCENT, TYPE_PERCENT, TYPE_NAV, TYPE_CYCLE,
      TYPE_NUMBER, TYPE_PERCENT,
      TYPE_NAV, TYPE_NAV, TYPE_NAV, TYPE_BOOL, TYPE_NUMBER, TYPE_NUMBER, TYPE_NAV]"

text \<open>The part of \<^verbatim>\<open>Consensus::Params\<close> the DAO reads.\<close>

record Params =
  vParameters :: "u64 list"
  nMinimumQuorumFirstHalf :: rat
  nMinimumQuorumSecondHalf :: rat
  nConsensusChangeMinAccept :: int

definition main_params :: Params where
  "main_params =
     \<lparr>vParameters =
        [20160, 150, 150, 2, 4, 4, 1, 10000000000, 5000000000,
         5000, 7000, 7000, 5000000000, 6, 5000, 7000, 7000, 0, 8,
         500, 2000, 250000000, 1000000000, 10000000, 0, 1152000, 1024, 300000000],
      nMinimumQuorumFirstHalf = flt (dbl (1 / 2)), nMinimumQuorumSecondHalf = flt (dbl (4 / 10)),
      nConsensusChangeMinAccept = 7500\<rparr>"

definition GetConsensusParameter :: "Params \<Rightarrow> nat \<Rightarrow> CStateViewCache \<Rightarrow> u64" where
  "GetConsensusParameter par pos view =
     (case CStateViewCache_GetConsensusParameter view (int pos) of
        None \<Rightarrow> vParameters par ! pos
      | Some cparameter \<Rightarrow>
          (case CConsensusParameter_Get cparameter of None \<Rightarrow> vParameters par ! pos | Some val \<Rightarrow> val))"

definition GetFundContributionPerBlock :: "Params \<Rightarrow> CStateViewCache \<Rightarrow> u64" where
  "GetFundContributionPerBlock par view =
     GetConsensusParameter par GENERATION_PER_BLOCK view * GetConsensusParameter par FUND_PERCENT_PER_BLOCK view
       div 10000"

definition GetStakingRewardPerBlock :: "Params \<Rightarrow> CStateViewCache \<Rightarrow> u64" where
  "GetStakingRewardPerBlock par view =
     GetConsensusParameter par GENERATION_PER_BLOCK view - GetFundContributionPerBlock par view"

section \<open>Voting cycles\<close>

definition div_u64 :: "u64 \<Rightarrow> u64 \<Rightarrow> u64 result" where
  "div_u64 a b = (if b = 0 then Inl DivisionByZero else Inr (a div b))"

definition mod_u64 :: "u64 \<Rightarrow> u64 \<Rightarrow> u64 result" where
  "mod_u64 a b = (if b = 0 then Inl DivisionByZero else Inr (a mod b))"

definition IsBeginningCycle :: "Params \<Rightarrow> CBlockIndex \<Rightarrow> CStateViewCache \<Rightarrow> bool result" where
  "IsBeginningCycle par pindex view =
     bindR (mod_u64 (word_of_int (nHeight pindex)) (GetConsensusParameter par VOTING_CYCLE_LENGTH view))
       (\<lambda>r. Inr (r = 0))"

definition IsEndCycle :: "Params \<Rightarrow> CBlockIndex \<Rightarrow> CStateViewCache \<Rightarrow> bool result" where
  "IsEndCycle par pindex view =
     bindR (mod_u64 (word_of_int (nHeight pindex + 1)) (GetConsensusParameter par VOTING_CYCLE_LENGTH view))
       (\<lambda>r. Inr (r = 0))"

section \<open>Quorum and majority\<close>

text \<open>
  \<^verbatim>\<open>param / 10000.0\<close> is a division in \<^verbatim>\<open>double\<close>; \<^verbatim>\<open>(length - exclude) * quorum\<close> converts the unsigned difference to
  \<^verbatim>\<open>float\<close> and multiplies in \<^verbatim>\<open>float\<close>; \<^verbatim>\<open>(float)total * share\<close> multiplies in \<^verbatim>\<open>double\<close>.
\<close>

definition per_10000 :: "u64 \<Rightarrow> rat" where
  "per_10000 w = dbl (dbl (of_int (uint w)) / 10000)"

definition quorum_met :: "int \<Rightarrow> u64 \<Rightarrow> rat \<Rightarrow> bool" where
  "quorum_met nTotalVotes voters q = (flt (of_int nTotalVotes) > flt (flt (of_int (uint voters)) * q))"

definition majority :: "int \<Rightarrow> int \<Rightarrow> rat \<Rightarrow> bool" where
  "majority votes nTotalVotes share = (flt (of_int votes) > dbl (flt (of_int nTotalVotes) * share))"

definition CPaymentRequest_TotalVotes :: "CPaymentRequest \<Rightarrow> int" where
  "CPaymentRequest_TotalVotes pr = pr_nVotesYes pr + pr_nVotesNo pr +
     (if has_flag (pr_nVersion pr) PR_ABSTAIN_VOTE_VERSION then pr_nVotesAbs pr else 0)"

definition CPaymentRequest_Quorum :: "Params \<Rightarrow> CStateViewCache \<Rightarrow> CPaymentRequest \<Rightarrow> rat" where
  "CPaymentRequest_Quorum par view pr =
     (if has_flag (pr_nVersion pr) PR_REDUCED_QUORUM_VERSION
      then if ucast (pr_nVotingCycle pr) > GetConsensusParameter par PAYMENT_REQUEST_MAX_VOTING_CYCLES view div 2
           then nMinimumQuorumSecondHalf par else nMinimumQuorumFirstHalf par
      else flt (per_10000 (if CPaymentRequest_IsSuper pr then 7500
                           else GetConsensusParameter par PAYMENT_REQUEST_MIN_QUORUM view)))"

definition CPaymentRequest_Exclude :: "CStateViewCache \<Rightarrow> CPaymentRequest \<Rightarrow> int" where
  "CPaymentRequest_Exclude view pr =
     (if has_flag (pr_nVersion pr) PR_EXCLUDE_VERSION then GetExcludeVotes view else 0)"

definition CPaymentRequest_IsAccepted :: "Params \<Rightarrow> CStateViewCache \<Rightarrow> CPaymentRequest \<Rightarrow> bool" where
  "CPaymentRequest_IsAccepted par view pr =
     (let nTotalVotes = CPaymentRequest_TotalVotes pr;
          nMinAcceptance = per_10000 (if CPaymentRequest_IsSuper pr then 9000
                                      else GetConsensusParameter par PAYMENT_REQUEST_MIN_ACCEPT view)
      in quorum_met nTotalVotes
           (GetConsensusParameter par VOTING_CYCLE_LENGTH view - word_of_int (CPaymentRequest_Exclude view pr))
           (CPaymentRequest_Quorum par view pr) \<and>
         majority (pr_nVotesYes pr) nTotalVotes nMinAcceptance)"

definition CPaymentRequest_IsRejected :: "Params \<Rightarrow> CStateViewCache \<Rightarrow> CPaymentRequest \<Rightarrow> bool" where
  "CPaymentRequest_IsRejected par view pr =
     (let nTotalVotes = CPaymentRequest_TotalVotes pr;
          nMinRejection = per_10000 (if CPaymentRequest_IsSuper pr then 9000
                                     else GetConsensusParameter par PAYMENT_REQUEST_MIN_REJECT view)
      in quorum_met nTotalVotes
           (GetConsensusParameter par VOTING_CYCLE_LENGTH view - word_of_int (CPaymentRequest_Exclude view pr))
           (CPaymentRequest_Quorum par view pr) \<and>
         majority (pr_nVotesNo pr) nTotalVotes nMinRejection)"

definition CPaymentRequest_ExceededMaxVotingCycles :: "Params \<Rightarrow> CStateViewCache \<Rightarrow> CPaymentRequest \<Rightarrow> bool" where
  "CPaymentRequest_ExceededMaxVotingCycles par view pr =
     (ucast (pr_nVotingCycle pr) > GetConsensusParameter par PAYMENT_REQUEST_MAX_VOTING_CYCLES view)"

text \<open>The comparison \<^verbatim>\<open>nVersion >= BASE_VERSION\<close> is unsigned.\<close>

definition CPaymentRequest_IsExpired ::
  "Params \<Rightarrow> BlockMap \<Rightarrow> CStateViewCache \<Rightarrow> CPaymentRequest \<Rightarrow> bool" where
  "CPaymentRequest_IsExpired par mbi view pr =
     (if word_of_int (pr_nVersion pr) \<ge> (word_of_int PR_BASE_VERSION :: u64)
      then let fLastState = CPaymentRequest_GetLastState mbi pr
           in CPaymentRequest_ExceededMaxVotingCycles par view pr \<and>
              fLastState \<noteq> ACCEPTED \<and> fLastState \<noteq> REJECTED \<and> fLastState \<noteq> PAID
      else False)"

definition CPaymentRequest_GetState :: "Params \<Rightarrow> BlockMap \<Rightarrow> CStateViewCache \<Rightarrow> CPaymentRequest \<Rightarrow> string" where
  "CPaymentRequest_GetState par mbi view pr =
     (let fState = CPaymentRequest_GetLastState mbi pr;
          s0 = ''pending'';
          s1 = (if CPaymentRequest_IsAccepted par view pr
                then if fState \<noteq> ACCEPTED then ''pending'' else ''accepted'' else s0);
          s2 = (if CPaymentRequest_IsRejected par view pr
                then if fState \<noteq> REJECTED then ''pending'' else ''rejected'' else s1);
          s3 = (if CPaymentRequest_IsExpired par mbi view pr
                then if fState \<noteq> EXPIRED then ''pending'' else ''expired'' else s2)
      in if fState = PAID then ''paid'' else s3)"

definition CProposal_TotalVotes :: "CProposal \<Rightarrow> int" where
  "CProposal_TotalVotes p = p_nVotesYes p + p_nVotesNo p +
     (if has_flag (p_nVersion p) P_ABSTAIN_VOTE_VERSION then p_nVotesAbs p else 0)"

definition CProposal_Quorum :: "Params \<Rightarrow> CStateViewCache \<Rightarrow> CProposal \<Rightarrow> rat" where
  "CProposal_Quorum par view p =
     (if has_flag (p_nVersion p) P_REDUCED_QUORUM_VERSION
      then if ucast (p_nVotingCycle p) > GetConsensusParameter par PROPOSAL_MAX_VOTING_CYCLES view div 2
           then nMinimumQuorumSecondHalf par else nMinimumQuorumFirstHalf par
      else flt (per_10000 (if CProposal_IsSuper p then 7500
                           else GetConsensusParameter par PROPOSAL_MIN_QUORUM view)))"

definition CProposal_Exclude :: "CStateViewCache \<Rightarrow> CProposal \<Rightarrow> int" where
  "CProposal_Exclude view p = (if has_flag (p_nVersion p) P_EXCLUDE_VERSION then GetExcludeVotes view else 0)"

definition CProposal_IsAccepted :: "Params \<Rightarrow> CStateViewCache \<Rightarrow> CProposal \<Rightarrow> bool" where
  "CProposal_IsAccepted par view p =
     (let nTotalVotes = CProposal_TotalVotes p;
          minAcceptance = per_10000 (if CProposal_IsSuper p then 9000
                                     else GetConsensusParameter par PROPOSAL_MIN_ACCEPT view)
      in quorum_met nTotalVotes
           (GetConsensusParameter par VOTING_CYCLE_LENGTH view - word_of_int (CProposal_Exclude view p))
           (CProposal_Quorum par view p) \<and>
         majority (p_nVotesYes p) nTotalVotes minAcceptance)"

definition CProposal_IsRejected :: "Params \<Rightarrow> CStateViewCache \<Rightarrow> CProposal \<Rightarrow> bool" where
  "CProposal_IsRejected par view p =
     (let nTotalVotes = CProposal_TotalVotes p;
          minRejection = per_10000 (if CProposal_IsSuper p then 9000
                                    else GetConsensusParameter par PROPOSAL_MIN_REJECT view)
      in quorum_met nTotalVotes
           (GetConsensusParameter par VOTING_CYCLE_LENGTH view - word_of_int (CProposal_Exclude view p))
           (CProposal_Quorum par view p) \<and>
         majority (p_nVotesNo p) nTotalVotes minRejection)"

section \<open>Expiry and availability of a proposal\<close>

definition CProposal_getTimeTillExpired :: "BlockMap \<Rightarrow> u32 \<Rightarrow> CProposal \<Rightarrow> u64" where
  "CProposal_getTimeTillExpired mbi currentTime p =
     (if has_flag (p_nVersion p) P_BASE_VERSION
      then case CProposal_GetLastStateBlockIndexForState mbi ACCEPTED p of
             Some pblockindex \<Rightarrow>
               word_of_int (uint currentTime - (GetBlockTime pblockindex + uint (p_nDeadline p)))
           | None \<Rightarrow> 0
      else 0)"

definition CProposal_ExceededMaxVotingCycles :: "Params \<Rightarrow> CStateViewCache \<Rightarrow> CProposal \<Rightarrow> bool" where
  "CProposal_ExceededMaxVotingCycles par view p =
     (ucast (p_nVotingCycle p) > GetConsensusParameter par PROPOSAL_MAX_VOTING_CYCLES view)"

definition CProposal_IsExpired ::
  "Params \<Rightarrow> BlockMap \<Rightarrow> u32 \<Rightarrow> CStateViewCache \<Rightarrow> CProposal \<Rightarrow> bool" where
  "CProposal_IsExpired par mbi currentTime view p =
     (if has_flag (p_nVersion p) P_BASE_VERSION
      then let fLastState = CProposal_GetLastState mbi p
           in case (if fLastState = ACCEPTED then CProposal_GetLastStateBlockIndexForState mbi ACCEPTED p else None) of
                Some pblockindex \<Rightarrow> GetBlockTime pblockindex + uint (p_nDeadline p) < uint currentTime
              | None \<Rightarrow> fLastState = EXPIRED \<or> fLastState = PENDING_VOTING_PREQ \<or>
                  (CProposal_ExceededMaxVotingCycles par view p \<and> fLastState = NIL)
      else p_nDeadline p < currentTime)"

text \<open>Whether a payment request counts against the proposal it asks from.\<close>

definition counts_against :: "bool \<Rightarrow> flags \<Rightarrow> bool" where
  "counts_against fIncludeRequests fLastState =
     ((fIncludeRequests \<and> fLastState \<noteq> REJECTED \<and> fLastState \<noteq> EXPIRED) \<or>
      (\<not> fIncludeRequests \<and> (fLastState = ACCEPTED \<or> fLastState = PAID)))"

definition CProposal_GetAvailable ::
  "BlockMap \<Rightarrow> CStateViewCache \<Rightarrow> bool \<Rightarrow> CProposal \<Rightarrow> CAmount" where
  "CProposal_GetAvailable mbi coins fIncludeRequests p =
     (case GetAllPaymentRequests coins of
        None \<Rightarrow> p_nAmount p
      | Some mapPaymentRequests \<Rightarrow>
          fold (\<lambda>it initial.
                  case GetPaymentRequest coins (fst it) of
                    None \<Rightarrow> initial
                  | Some prequest \<Rightarrow>
                      if pr_proposalhash prequest \<noteq> p_hash p then initial
                      else if counts_against fIncludeRequests (CPaymentRequest_GetLastState mbi prequest)
                      then initial - pr_nAmount prequest else initial)
            mapPaymentRequests (p_nAmount p))"

definition CPaymentRequest_CanVote :: "BlockMap \<Rightarrow> CStateViewCache \<Rightarrow> CPaymentRequest \<Rightarrow> bool" where
  "CPaymentRequest_CanVote mbi coins pr =
     (case GetProposal coins (pr_proposalhash pr) of
        None \<Rightarrow> False
      | Some proposal \<Rightarrow>
          let fLastState = CPaymentRequest_GetLastState mbi pr;
              fProposalLastState = CProposal_GetLastState mbi proposal;
              nProposalAvailable = CProposal_GetAvailable mbi coins False proposal
          in pr_nAmount pr \<le> nProposalAvailable \<and> fLastState = NIL \<and>
             (fProposalLastState = ACCEPTED \<or> fProposalLastState = PENDING_VOTING_PREQ))"

definition CProposal_HasPendingPaymentRequests :: "BlockMap \<Rightarrow> CStateViewCache \<Rightarrow> CProposal \<Rightarrow> bool" where
  "CProposal_HasPendingPaymentRequests mbi coins p =
     (case GetAllPaymentRequests coins of
        None \<Rightarrow> False
      | Some mapPaymentRequests \<Rightarrow>
          (\<exists>it \<in> set mapPaymentRequests.
             case GetPaymentRequest coins (fst it) of
               None \<Rightarrow> False
             | Some prequest \<Rightarrow> pr_proposalhash prequest = p_hash p \<and> CPaymentRequest_CanVote mbi coins prequest))"

definition CProposal_GetState :: "Params \<Rightarrow> BlockMap \<Rightarrow> u32 \<Rightarrow> CStateViewCache \<Rightarrow> CProposal \<Rightarrow> string" where
  "CProposal_GetState par mbi currentTime view p =
     (let fState = CProposal_GetLastState mbi p;
          s0 = ''pending'';
          s1 = (if CProposal_IsAccepted par view p
                then if fState = PENDING_FUNDS then ''accepted, waiting for enough coins in fund''
                     else if fState \<noteq> ACCEPTED then ''pending'' else ''accepted''
                else s0);
          s2 = (if CProposal_IsRejected par view p
                then if fState \<noteq> REJECTED then ''pending'' else ''rejected'' else s1);
          s3 = (if fState = ACCEPTED_EXPIRED then ''accepted, expired''
                else if currentTime > 0 \<and> CProposal_IsExpired par mbi currentTime view p
                then if fState \<noteq> EXPIRED then ''pending'' else ''expired'' else s2)
      in if fState = PENDING_VOTING_PREQ then ''expired, pending voting of payment requests'' else s3)"

section \<open>Answers and consultations\<close>

definition CConsultationAnswer_CanBeSupported :: "BlockMap \<Rightarrow> CStateViewCache \<Rightarrow> CConsultationAnswer \<Rightarrow> bool" where
  "CConsultationAnswer_CanBeSupported mbi view ca =
     (case GetConsultation view (ca_parent ca) of
        None \<Rightarrow> False
      | Some consultation \<Rightarrow>
          let fConsultationState = CConsultation_GetLastState mbi consultation
          in if fConsultationState \<noteq> NIL \<and> fConsultationState \<noteq> SUPPORTED then False
             else CConsultationAnswer_GetLastState mbi ca = NIL)"

definition CConsultationAnswer_CanBeVoted :: "BlockMap \<Rightarrow> CStateViewCache \<Rightarrow> CConsultationAnswer \<Rightarrow> bool" where
  "CConsultationAnswer_CanBeVoted mbi view ca =
     (case GetConsultation view (ca_parent ca) of
        None \<Rightarrow> False
      | Some consultation \<Rightarrow>
          if CConsultation_IsRange consultation then False
          else CConsultationAnswer_GetLastState mbi ca = ACCEPTED \<and>
               CConsultation_GetLastState mbi consultation = ACCEPTED \<and>
               \<not> c_nVersion consultation AND C_ANSWER_IS_A_RANGE_VERSION \<noteq> 0)"

definition CConsultationAnswer_IsSupported :: "Params \<Rightarrow> CStateViewCache \<Rightarrow> CConsultationAnswer \<Rightarrow> bool" where
  "CConsultationAnswer_IsSupported par view ca =
     (let nMinimumSupport = flt (per_10000 (GetConsensusParameter par CONSULTATION_ANSWER_MIN_SUPPORT view))
      in flt (of_int (ca_nSupport ca)) \<ge>
           flt (flt (of_int (uint (GetConsensusParameter par VOTING_CYCLE_LENGTH view))) * nMinimumSupport))"

definition CConsultationAnswer_IsConsensusAccepted :: "Params \<Rightarrow> CStateViewCache \<Rightarrow> CConsultationAnswer \<Rightarrow> bool" where
  "CConsultationAnswer_IsConsensusAccepted par view ca =
     (let nMinimumQuorum = flt (dbl (dbl (of_int (nConsensusChangeMinAccept par)) / 10000));
          exclude = (if has_flag (ca_nVersion ca) CA_EXCLUDE_VERSION then GetExcludeVotes view else 0)
      in flt (of_int (ca_nVotes ca)) \<ge>
           flt (flt (of_int (uint (GetConsensusParameter par VOTING_CYCLE_LENGTH view - word_of_int exclude)))
                * nMinimumQuorum))"

definition CConsultationAnswer_GetState ::
  "Params \<Rightarrow> BlockMap \<Rightarrow> CStateViewCache \<Rightarrow> CConsultationAnswer \<Rightarrow> string" where
  "CConsultationAnswer_GetState par mbi view ca =
     (let fState = CConsultationAnswer_GetLastState mbi ca
      in if fState = PASSED then ''passed''
         else if CConsultationAnswer_IsSupported par view ca \<and> fState = ACCEPTED then ''found support''
         else ''waiting for support'')"

definition CConsultation_HaveEnoughAnswers :: "Params \<Rightarrow> CStateViewCache \<Rightarrow> CConsultation \<Rightarrow> bool" where
  "CConsultation_HaveEnoughAnswers par view c =
     (if c_nVersion c AND C_ANSWER_IS_A_RANGE_VERSION \<noteq> 0 then True
      else
        let nSupportedAnswersCount =
              fold (\<lambda>it n.
                      case GetConsultationAnswer view it of
                        None \<Rightarrow> n
                      | Some answer \<Rightarrow>
                          if ca_parent answer \<noteq> c_hash c then n
                          else if \<not> CConsultationAnswer_IsSupported par view answer then n
                          else n + 1)
                (c_vAnswers c) (0 :: int)
        in nSupportedAnswersCount \<ge> (if CConsultation_IsAboutConsensusParameter c then 1 else 2))"

definition CConsultation_IsSupported :: "Params \<Rightarrow> CStateViewCache \<Rightarrow> CConsultation \<Rightarrow> bool" where
  "CConsultation_IsSupported par view c =
     (if CConsultation_IsRange c
      then let nMinimumSupport = flt (per_10000 (GetConsensusParameter par CONSULTATION_MIN_SUPPORT view))
           in flt (of_int (c_nSupport c)) >
                flt (flt (of_int (uint (GetConsensusParameter par VOTING_CYCLE_LENGTH view))) * nMinimumSupport)
      else CConsultation_HaveEnoughAnswers par view c)"

definition CConsultation_CanMoveInReflection :: "Params \<Rightarrow> CStateViewCache \<Rightarrow> CConsultation \<Rightarrow> bool" where
  "CConsultation_CanMoveInReflection par view c =
     (ucast (c_nVotingCycle c) \<ge> GetConsensusParameter par CONSULTATION_MIN_CYCLES view)"

definition CConsultation_ExceededMaxVotingCycles :: "Params \<Rightarrow> CStateViewCache \<Rightarrow> CConsultation \<Rightarrow> bool" where
  "CConsultation_ExceededMaxVotingCycles par view c =
     (ucast (c_nVotingCycle c) \<ge> GetConsensusParameter par CONSULTATION_MAX_SUPPORT_CYCLES view)"

text \<open>\<^verbatim>\<open>std::max(nCurrentCycle - nAcceptedOnCycle, (uint64_t)0)\<close> is the wrapped difference.\<close>

definition CConsultation_IsExpired ::
  "Params \<Rightarrow> BlockMap \<Rightarrow> CBlockIndex \<Rightarrow> CStateViewCache \<Rightarrow> CConsultation \<Rightarrow> bool result" where
  "CConsultation_IsExpired par mbi pindex view c =
     (let fState = CConsultation_GetLastState mbi c;
          nLength = GetConsensusParameter par VOTING_CYCLE_LENGTH view
      in case (if fState = ACCEPTED then CConsultation_GetLastStateBlockIndexForState mbi ACCEPTED c else None) of
           Some pblockindex \<Rightarrow>
             bindR (div_u64 (word_of_int (nHeight pblockindex)) nLength) (\<lambda>nAcceptedOnCycle.
             bindR (div_u64 (word_of_int (nHeight pindex)) nLength) (\<lambda>nCurrentCycle.
             Inr (max (nCurrentCycle - nAcceptedOnCycle) 0
                    \<ge> GetConsensusParameter par CONSULTATION_MAX_VOTING_CYCLES view)))
         | None \<Rightarrow>
             Inr (fState = EXPIRED \<or> (CConsultation_ExceededMaxVotingCycles par view c \<and> fState = NIL)))"

definition CConsultation_IsReflectionOver ::
  "Params \<Rightarrow> BlockMap \<Rightarrow> CBlockIndex \<Rightarrow> CStateViewCache \<Rightarrow> CConsultation \<Rightarrow> bool result" where
  "CConsultation_IsReflectionOver par mbi pindex view c =
     (let nVotingLength = GetConsensusParameter par VOTING_CYCLE_LENGTH view
      in case CConsultation_GetLastStateBlockIndexForState mbi REFLECTION c of
           Some pblockindex \<Rightarrow>
             bindR (div_u64 (word_of_int (nHeight pblockindex)) nVotingLength) (\<lambda>nCreated.
             bindR (div_u64 (word_of_int (nHeight pindex)) nVotingLength) (\<lambda>nCurrent.
             let nElapsedCycles = (ucast nCurrent :: u32) - ucast nCreated
             in Inr (ucast nElapsedCycles \<ge> GetConsensusParameter par CONSULTATION_REFLECTION_LENGTH view)))
         | None \<Rightarrow> Inr False)"

definition CConsultation_GetState ::
  "Params \<Rightarrow> BlockMap \<Rightarrow> CBlockIndex \<Rightarrow> CStateViewCache \<Rightarrow> CConsultation \<Rightarrow> string result" where
  "CConsultation_GetState par mbi pindex view c =
     (let fState = CConsultation_GetLastState mbi c;
          missing = (if \<not> CConsultation_HaveEnoughAnswers par view c
                     then '', waiting for having enough supported answers'' else []);
          supported = CConsultation_IsSupported par view c;
          s0 = ''waiting for support'' @ missing;
          s1 = (if supported
                then if fState = REFLECTION then ''reflection phase''
                     else if fState = ACCEPTED then ''voting started''
                     else if fState \<noteq> SUPPORTED then ''waiting for support''
                     else ''found support'' @ missing
                else s0)
      in bindR (CConsultation_IsExpired par mbi pindex view c) (\<lambda>expired.
         let s2 = (if expired
                   then if fState \<noteq> EXPIRED
                        then if supported then ''last cycle, waiting for end of voting period''
                             else ''expiring, waiting for end of voting period''
                        else if supported then ''finished'' else ''expired''
                   else s1)
         in Inr (if fState = PASSED then ''passed'' else s2)))"

section \<open>A vote is not both won and lost\<close>

lemma flt_nonneg: "0 \<le> x \<Longrightarrow> 0 \<le> flt x"
  using flt_mono [of 0 x] by simp

lemma per_10000_half:
  assumes "5000 \<le> w"
  shows "1 / 2 \<le> per_10000 w"
proof -
  have "(5000::int) \<le> uint w" using assms by (simp add: word_le_def)
  then have "dbl (of_int 5000) \<le> dbl (of_int (uint w))" by (intro dbl_mono) (simp only: of_int_le_iff)
  moreover have "dbl (of_int 5000) = 5000" unfolding dbl_def by (subst rnd_exact [of _ _ 5000 0]) auto
  ultimately have "1 / 2 \<le> dbl (of_int (uint w)) / 10000" by simp
  then have "dbl (1 / 2) \<le> per_10000 w" unfolding per_10000_def by (rule dbl_mono)
  with dbl_half [of 1] show ?thesis by simp
qed

lemma majority_more_than_half:
  assumes "0 \<le> tot" "1 / 2 \<le> s" "majority v tot s"
  shows "tot < 2 * v"
proof (rule ccontr)
  assume "\<not> tot < 2 * v"
  then have "(of_int (2 * v) :: rat) \<le> of_int tot" by (simp only: of_int_le_iff not_less)
  then have "(of_int v :: rat) \<le> of_int tot / 2" by simp
  then have "flt (of_int v) \<le> flt (of_int tot) / 2" using flt_mono [of "of_int v" "of_int tot / 2"] by (simp add: flt_half)
  moreover have "flt (of_int tot) / 2 \<le> flt (of_int tot) * s"
    using mult_left_mono [OF assms(2) flt_nonneg, of "of_int tot"] assms(1) by simp
  then have "dbl (flt (of_int tot) / 2) \<le> dbl (flt (of_int tot) * s)" by (rule dbl_mono)
  ultimately show False using assms(3) by (simp add: majority_def dbl_div2)
qed

definition shares_at_least_half :: "Params \<Rightarrow> CStateViewCache \<Rightarrow> bool" where
  "shares_at_least_half par view = (list_all (\<lambda>pos. 5000 \<le> GetConsensusParameter par pos view)
     [PROPOSAL_MIN_ACCEPT, PROPOSAL_MIN_REJECT, PAYMENT_REQUEST_MIN_ACCEPT, PAYMENT_REQUEST_MIN_REJECT])"

lemma shares_half:
  assumes "shares_at_least_half par view"
    and "pos \<in> {PROPOSAL_MIN_ACCEPT, PROPOSAL_MIN_REJECT, PAYMENT_REQUEST_MIN_ACCEPT, PAYMENT_REQUEST_MIN_REJECT}"
  shows "1 / 2 \<le> per_10000 (if b then 9000 else GetConsensusParameter par pos view)"
  using assms by (intro per_10000_half) (auto simp: shares_at_least_half_def)

lemma proposal_more_than_half:
  assumes "shares_at_least_half par view" "0 \<le> CProposal_TotalVotes p"
  shows "CProposal_IsAccepted par view p \<Longrightarrow> CProposal_TotalVotes p < 2 * p_nVotesYes p"
    and "CProposal_IsRejected par view p \<Longrightarrow> CProposal_TotalVotes p < 2 * p_nVotesNo p"
  unfolding CProposal_IsAccepted_def CProposal_IsRejected_def Let_def
  by (erule conjE, erule majority_more_than_half [OF assms(2) shares_half [OF assms(1)], rotated], simp)+

lemma request_more_than_half:
  assumes "shares_at_least_half par view" "0 \<le> CPaymentRequest_TotalVotes pr"
  shows "CPaymentRequest_IsAccepted par view pr \<Longrightarrow> CPaymentRequest_TotalVotes pr < 2 * pr_nVotesYes pr"
    and "CPaymentRequest_IsRejected par view pr \<Longrightarrow> CPaymentRequest_TotalVotes pr < 2 * pr_nVotesNo pr"
  unfolding CPaymentRequest_IsAccepted_def CPaymentRequest_IsRejected_def Let_def
  by (erule conjE, erule majority_more_than_half [OF assms(2) shares_half [OF assms(1)], rotated], simp)+

text \<open>
  C7. A proposal or a payment request is never both accepted and rejected, as long as the shares needed
  for either are at least half: with non-negative tallies, \<^verbatim>\<open>IsAccepted\<close> and \<^verbatim>\<open>IsRejected\<close> exclude each other
  in the rounded arithmetic of the code.
\<close>

theorem accepted_rejected_exclusive:
  assumes "shares_at_least_half par view"
    and "0 \<le> p_nVotesYes p" "0 \<le> p_nVotesNo p" "0 \<le> p_nVotesAbs p"
    and "0 \<le> pr_nVotesYes pr" "0 \<le> pr_nVotesNo pr" "0 \<le> pr_nVotesAbs pr"
  shows "\<not> (CProposal_IsAccepted par view p \<and> CProposal_IsRejected par view p) \<and>
    \<not> (CPaymentRequest_IsAccepted par view pr \<and> CPaymentRequest_IsRejected par view pr)"
  using proposal_more_than_half [OF assms(1), of p] request_more_than_half [OF assms(1), of pr] assms(2-)
  by (auto simp: CProposal_TotalVotes_def CPaymentRequest_TotalVotes_def split: if_splits)

lemma default_parameter [simp]:
  "GetConsensusParameter par pos (CStateViewCache_new ViewBase) = vParameters par ! pos"
  by (simp add: GetConsensusParameter_def get_lookup lookup_entry_def CStateViewCache_new_def)

theorem accepted_rejected_exclusive_witness:
  "CProposal_IsAccepted main_params (CStateViewCache_new ViewBase) (CProposal_new\<lparr>p_nVotesYes := 20000, p_nVotesNo := 9\<rparr>) \<and>
   \<not> CProposal_IsRejected main_params (CStateViewCache_new ViewBase) (CProposal_new\<lparr>p_nVotesYes := 20000, p_nVotesNo := 9\<rparr>)"
proof -
  let ?v = "CStateViewCache_new ViewBase" and ?p = "CProposal_new\<lparr>p_nVotesYes := 20000, p_nVotesNo := 9\<rparr>"
  have s: "shares_at_least_half main_params ?v"
    unfolding shares_at_least_half_def default_parameter by (simp add: main_params_def)
  have "quorum_met 20009 20160 (flt (per_10000 5000))" "majority 20000 20009 (per_10000 7000)" by code_simp+
  then have "CProposal_IsAccepted main_params ?v ?p"
    unfolding CProposal_IsAccepted_def CProposal_Quorum_def CProposal_TotalVotes_def CProposal_Exclude_def default_parameter
    by (simp add: main_params_def CProposal_new_def CProposal_SetNull_def CProposal_IsSuper_def has_flag_def)
  with accepted_rejected_exclusive [OF s, of ?p CPaymentRequest_new] show ?thesis
    by (simp add: CProposal_new_def CProposal_SetNull_def CPaymentRequest_new_def)
qed

section \<open>What a proposal has available\<close>

definition request_claim :: "BlockMap \<Rightarrow> bool \<Rightarrow> uint256 \<Rightarrow> CPaymentRequest \<Rightarrow> CAmount" where
  "request_claim mbi fIncludeRequests h pr =
     (if pr_proposalhash pr = h \<and> counts_against fIncludeRequests (CPaymentRequest_GetLastState mbi pr)
      then pr_nAmount pr else 0)"

definition claimed :: "BlockMap \<Rightarrow> CStateViewCache \<Rightarrow> bool \<Rightarrow> uint256 \<Rightarrow> CAmount" where
  "claimed mbi v fIncludeRequests h =
     (\<Sum>k \<in> dom (GetPaymentRequest v). request_claim mbi fIncludeRequests h (the (GetPaymentRequest v k)))"

lemma fold_minus: "(\<And>x a. x \<in> set xs \<Longrightarrow> f x a = a - g x) \<Longrightarrow> fold f xs (a :: int) = a - sum_list (map g xs)"
  by (induction xs arbitrary: a) auto

lemma dom_GetPaymentRequest:
  assumes "view_ok v" "GetAllPaymentRequests v = Some m"
  shows "dom (GetPaymentRequest v) = fst ` set m" "finite (dom (GetPaymentRequest v))"
  using viewR.all_get [OF assms] dom_map_of_conv_image_fst [of m] by auto

lemma GetAvailable_claimed:
  assumes "view_ok v" "GetAllPaymentRequests v = Some m"
  shows "CProposal_GetAvailable mbi v b p = p_nAmount p - claimed mbi v b (p_hash p)"
proof -
  let ?g = "\<lambda>it. request_claim mbi b (p_hash p) (the (GetPaymentRequest v (fst it)))"
  have mem: "GetPaymentRequest v (fst it) = Some (snd it)" if "it \<in> set m" for it
    using that viewR.all_mem_get [OF assms, of "fst it" "snd it"] by simp
  have d: "distinct (map fst m)" using viewR.all_ok [OF assms] by (rule omap_ok_distinct)
  have "CProposal_GetAvailable mbi v b p = p_nAmount p - sum_list (map ?g m)"
    unfolding CProposal_GetAvailable_def assms(2) option.case
    by (rule fold_minus) (simp add: mem request_claim_def)
  also have "sum_list (map ?g m) =
      sum_list (map (\<lambda>k. request_claim mbi b (p_hash p) (the (GetPaymentRequest v k))) (map fst m))"
    by (simp add: comp_def)
  also have "\<dots> = claimed mbi v b (p_hash p)"
    unfolding claimed_def dom_GetPaymentRequest(1) [OF assms] using d
    by (subst sum_list_distinct_conv_sum_set) auto
  finally show ?thesis .
qed

text \<open>
  \<^verbatim>\<open>GetAvailable\<close> is the amount of the proposal less the amounts of the payment requests that ask from it
  and are accepted or paid (with \<^verbatim>\<open>fIncludeRequests\<close>: neither rejected nor expired), each counted once.
\<close>

theorem GetAvailable_sum:
  assumes "view_ok v" "GetAllPaymentRequests v = Some m"
  shows "CProposal_GetAvailable mbi v b p = p_nAmount p -
    (\<Sum>pr \<in> {(k, pr). GetPaymentRequest v k = Some pr \<and> pr_proposalhash pr = p_hash p \<and>
        counts_against b (CPaymentRequest_GetLastState mbi pr)}. pr_nAmount (snd pr))"
proof -
  let ?G = "GetPaymentRequest v"
  let ?S = "{(k, pr). ?G k = Some pr \<and> pr_proposalhash pr = p_hash p \<and>
        counts_against b (CPaymentRequest_GetLastState mbi pr)}"
  let ?K = "{k \<in> dom ?G. pr_proposalhash (the (?G k)) = p_hash p \<and>
        counts_against b (CPaymentRequest_GetLastState mbi (the (?G k)))}"
  have "claimed mbi v b (p_hash p) = (\<Sum>k \<in> ?K. pr_nAmount (the (?G k)))"
    unfolding claimed_def request_claim_def using dom_GetPaymentRequest(2) [OF assms]
    by (simp add: sum.inter_filter)
  also have "\<dots> = (\<Sum>pr \<in> ?S. pr_nAmount (snd pr))"
    by (rule sum.reindex_bij_witness [where i = fst and j = "\<lambda>k. (k, the (?G k))"]) auto
  finally show ?thesis using GetAvailable_claimed [OF assms] by simp
qed

theorem GetAvailable_sum_witness:
  "CProposal_GetAvailable (\<lambda>h. None)
     ((CStateViewCache_new (ViewDB sample_db))\<lparr>cachePaymentRequests := [(2, CPaymentRequest_new\<lparr>pr_nAmount := 3, pr_proposalhash := 1\<rparr>)]\<rparr>)
     True (CProposal_new\<lparr>p_nAmount := 5, p_hash := 1\<rparr>) = 2"
proof -
  let ?pr = "CPaymentRequest_new\<lparr>pr_nAmount := 3, pr_proposalhash := 1\<rparr>"
  let ?v = "(CStateViewCache_new (ViewDB sample_db))\<lparr>cachePaymentRequests := [(2, ?pr)]\<rparr>"
  have ok: "view_ok ?v"
    by (simp add: sample_defs view_ok_def cache_ok_def db_ok_def table_ok_def omap_ok_def
        CPaymentRequest_new_def CProposal_new_def CProposal_SetNull_def)
  have all: "GetAllPaymentRequests ?v = Some [(2, ?pr)]"
    by (simp add: GetAllPaymentRequests_def all_entries_def sample_defs CPaymentRequest_new_def CPaymentRequest_IsNull_def)
  have get: "GetPaymentRequest ?v k = (if k = 2 then Some ?pr else None)" for k
    by (simp add: GetPaymentRequest_lookup lookup_entry_def sample_defs visible_def CPaymentRequest_new_def CPaymentRequest_IsNull_def)
  have "{(k, pr). GetPaymentRequest ?v k = Some pr \<and> pr_proposalhash pr = p_hash (CProposal_new\<lparr>p_nAmount := 5, p_hash := 1\<rparr>) \<and>
        counts_against True (CPaymentRequest_GetLastState (\<lambda>h. None) pr)} = {(2, ?pr)}"
    unfolding get by (auto simp: counts_against_def CPaymentRequest_GetLastState_def last_state_def CPaymentRequest_new_def split: if_splits)
  with GetAvailable_sum [OF ok all, of "\<lambda>h. None" True "CProposal_new\<lparr>p_nAmount := 5, p_hash := 1\<rparr>"] show ?thesis by simp
qed

end
