(* ===== verification/VoteScan.thy ===== *)
theory VoteScan
  imports DaoRules
begin

text \<open>
  The first part of \<^verbatim>\<open>VoteStep\<close> (\<^verbatim>\<open>consensus/dao.cpp\<close>): counting the votes the blocks of the current voting
  cycle carry into the file-scope counters. The counters survive between calls, so that connecting a
  block adds that block only; they are rebuilt from the whole cycle when a block is disconnected, at
  the first block of a cycle, when the consensus parameters have changed, and when they are empty.

  The votes of a block are the global tables of \<^verbatim>\<open>main.cpp\<close>, fields of the environment, as are the
  activation tests (\<^verbatim>\<open>IsCommunityFundEnabled\<close>, \<^verbatim>\<open>IsDAOEnabled\<close>) and the hash of the serialized parameters.
\<close>

section \<open>Environment and counters\<close>

record VoteEnv =
  par :: Params
  mapBlockIndex :: BlockMap
  vProposalVotes :: "uint256 \<Rightarrow> (uint256 \<times> int) list option"
  vPaymentRequestVotes :: "uint256 \<Rightarrow> (uint256 \<times> int) list option"
  mapSupport :: "uint256 \<Rightarrow> (uint256, bool) omap option"
  mapConsultationVotes :: "uint256 \<Rightarrow> (uint256, u64) omap option"
  IsCommunityFundEnabled :: "CBlockIndex option \<Rightarrow> bool"
  IsDAOEnabled :: "CBlockIndex option \<Rightarrow> bool"
  hash_parameters :: "u64 list \<Rightarrow> uint256"

text \<open>A tally is \<^verbatim>\<open>((yes, no), abstain)\<close>.\<close>

type_synonym tally = "(int \<times> int) \<times> int"

record VoteCounters =
  mapCacheProposalsToUpdate :: "(uint256, tally) omap"
  mapCachePaymentRequestToUpdate :: "(uint256, tally) omap"
  mapCacheSupportToUpdate :: "(uint256, int) omap"
  mapCacheConsultationToUpdate :: "(uint256 \<times> int, int) omap"
  nCacheExclude :: int
  lastConsensusStateHash :: uint256

definition GetProposalVotes :: "VoteEnv \<Rightarrow> uint256 \<Rightarrow> (uint256 \<times> int) list option" where
  "GetProposalVotes env hash = vProposalVotes env hash"

definition GetPaymentRequestVotes :: "VoteEnv \<Rightarrow> uint256 \<Rightarrow> (uint256 \<times> int) list option" where
  "GetPaymentRequestVotes env hash = vPaymentRequestVotes env hash"

definition GetSupport :: "VoteEnv \<Rightarrow> uint256 \<Rightarrow> (uint256, bool) omap option" where
  "GetSupport env hash = mapSupport env hash"

definition GetConsultationVotes :: "VoteEnv \<Rightarrow> uint256 \<Rightarrow> (uint256, u64) omap option" where
  "GetConsultationVotes env hash = mapConsultationVotes env hash"

definition GetConsensusStateHash :: "VoteEnv \<Rightarrow> CStateViewCache \<Rightarrow> uint256" where
  "GetConsensusStateHash env view =
     hash_parameters env (map (\<lambda>i. GetConsensusParameter (par env) i view) [0..<MAX_CONSENSUS_PARAMS])"

section \<open>The votes of one block\<close>

text \<open>
  \<^verbatim>\<open>mapSeen\<close> and \<^verbatim>\<open>mapSeenSupport\<close> are the sets of their keys. A key is counted once per block; a vote value
  that is neither yes, no nor abstain creates the entry and counts nothing.
\<close>

definition add_vote :: "int \<Rightarrow> tally \<Rightarrow> tally" where
  "add_vote vote t =
     (if vote = VOTE_YES then ((fst (fst t) + 1, snd (fst t)), snd t)
      else if vote = VOTE_ABSTAIN then (fst t, snd t + 1)
      else if vote = VOTE_NO then ((fst (fst t), snd (fst t) + 1), snd t)
      else t)"

definition count_vote ::
  "uint256 \<times> int \<Rightarrow> (uint256, tally) omap \<times> uint256 set \<Rightarrow> (uint256, tally) omap \<times> uint256 set" where
  "count_vote vt s =
     (if fst vt \<in> snd s then s
      else (omap_put (fst vt) (add_vote (snd vt) (omap_get ((0, 0), 0) (fst vt) (fst s))) (fst s),
            insert (fst vt) (snd s)))"

definition count_votes ::
  "(uint256 \<times> int) list option \<Rightarrow> (uint256, tally) omap \<Rightarrow> uint256 set \<Rightarrow> (uint256, tally) omap \<times> uint256 set" where
  "count_votes vs m seen = (case vs of None \<Rightarrow> (m, seen) | Some l \<Rightarrow> fold count_vote l (m, seen))"

definition count_support ::
  "uint256 \<times> bool \<Rightarrow> (uint256, int) omap \<times> uint256 set \<Rightarrow> (uint256, int) omap \<times> uint256 set" where
  "count_support it s =
     (if \<not> snd it then s
      else if fst it \<notin> snd s
      then (omap_put (fst it) (omap_get 0 (fst it) (fst s) + 1) (fst s), insert (fst it) (snd s))
      else s)"

text \<open>
  An abstention on an answer counts for the consultation. The vote is unsigned in the block's table and
  signed in the key of the counter.
\<close>

definition count_consultation_vote ::
  "CStateViewCache \<Rightarrow> uint256 \<times> u64 \<Rightarrow> (uint256 \<times> int, int) omap \<times> uint256 set
     \<Rightarrow> (uint256 \<times> int, int) omap \<times> uint256 set" where
  "count_consultation_vote view it s =
     (if fst it \<in> snd s then s
      else if HaveConsultation view (fst it) \<or> HaveConsultationAnswer view (fst it)
      then
        let key = (case (if snd it = word_of_int VOTE_ABSTAIN then GetConsultationAnswer view (fst it) else None) of
                     Some answer \<Rightarrow> (ca_parent answer, sint (snd it))
                   | None \<Rightarrow> (fst it, sint (snd it)))
        in (omap_put key (omap_get 0 key (fst s) + 1) (fst s), insert (fst it) (snd s))
      else s)"

definition scan_cfund :: "VoteEnv \<Rightarrow> CBlockIndex \<Rightarrow> VoteCounters \<Rightarrow> VoteCounters \<times> uint256 set" where
  "scan_cfund env pindexblock g =
     (case count_votes (GetProposalVotes env (GetBlockHash pindexblock)) (mapCacheProposalsToUpdate g) {} of
        (mp, seen1) \<Rightarrow>
          (case count_votes (GetPaymentRequestVotes env (GetBlockHash pindexblock))
                  (mapCachePaymentRequestToUpdate g) seen1 of
             (mpr, seen2) \<Rightarrow>
               (g\<lparr>mapCacheProposalsToUpdate := mp, mapCachePaymentRequestToUpdate := mpr\<rparr>, seen2)))"

definition scan_dao ::
  "VoteEnv \<Rightarrow> CStateViewCache \<Rightarrow> CBlockIndex \<Rightarrow> VoteCounters \<Rightarrow> uint256 set \<Rightarrow> VoteCounters" where
  "scan_dao env view pindexblock g seen =
     (let ms = (case GetSupport env (GetBlockHash pindexblock) of
                  None \<Rightarrow> mapCacheSupportToUpdate g
                | Some supp \<Rightarrow> fst (fold count_support supp (mapCacheSupportToUpdate g, {})));
          mc = (case GetConsultationVotes env (GetBlockHash pindexblock) of
                  None \<Rightarrow> mapCacheConsultationToUpdate g
                | Some cVotes \<Rightarrow>
                    fst (fold (count_consultation_vote view) cVotes (mapCacheConsultationToUpdate g, seen)))
      in g\<lparr>mapCacheSupportToUpdate := ms, mapCacheConsultationToUpdate := mc\<rparr>)"

definition scan_block ::
  "VoteEnv \<Rightarrow> CStateViewCache \<Rightarrow> bool \<Rightarrow> bool \<Rightarrow> CBlockIndex \<Rightarrow> VoteCounters \<Rightarrow> VoteCounters" where
  "scan_block env view fCFund fDAOConsultations pindexblock g =
     (if nNonce pindexblock AND 1 \<noteq> 0 \<and> \<not> IsColdStakeV2 pindexblock
      then g\<lparr>nCacheExclude := nCacheExclude g + 1\<rparr>
      else
        case (if fCFund then scan_cfund env pindexblock g else (g, {})) of
          (g1, seen) \<Rightarrow> if fDAOConsultations then scan_dao env view pindexblock g1 seen else g1)"

text \<open>The loop walks back over \<open>nBlocks\<close> blocks or to the genesis block.\<close>

fun scan_blocks ::
  "VoteEnv \<Rightarrow> CStateViewCache \<Rightarrow> bool \<Rightarrow> bool \<Rightarrow> nat \<Rightarrow> CBlockIndex option \<Rightarrow> VoteCounters \<Rightarrow> VoteCounters" where
  "scan_blocks env view fCFund fDAO 0 p g = g"
| "scan_blocks env view fCFund fDAO (Suc n) None g = g"
| "scan_blocks env view fCFund fDAO (Suc n) (Some b) g =
     scan_blocks env view fCFund fDAO n (pprev b) (scan_block env view fCFund fDAO b g)"

section \<open>Preparing the scan\<close>

definition clear_counters :: "VoteCounters \<Rightarrow> VoteCounters" where
  "clear_counters g = g\<lparr>mapCacheProposalsToUpdate := [], mapCachePaymentRequestToUpdate := [],
     mapCacheSupportToUpdate := [], mapCacheConsultationToUpdate := [], nCacheExclude := 0\<rparr>"

definition counters_empty :: "VoteCounters \<Rightarrow> bool" where
  "counters_empty g = (mapCacheProposalsToUpdate g = [] \<and> mapCachePaymentRequestToUpdate g = [] \<and>
     mapCacheSupportToUpdate g = [] \<and> mapCacheConsultationToUpdate g = [])"

text \<open>\<^verbatim>\<open>int nBlocks = (nHeight % nCycleLength) + 1\<close>: unsigned 64-bit arithmetic, stored in an \<^verbatim>\<open>int\<close>.\<close>

definition blocks_in_cycle :: "u64 \<Rightarrow> CBlockIndex \<Rightarrow> int" where
  "blocks_in_cycle nCycleLength pindexNew =
     sint (ucast (word_of_int (nHeight pindexNew) mod nCycleLength + 1) :: u32)"

definition needs_rescan :: "VoteEnv \<Rightarrow> CStateViewCache \<Rightarrow> bool \<Rightarrow> int \<Rightarrow> VoteCounters \<Rightarrow> bool" where
  "needs_rescan env view fUndo nBlocks g =
     (fUndo \<or> lastConsensusStateHash g \<noteq> GetConsensusStateHash env view \<or> nBlocks = 1 \<or> counters_empty g)"

definition scan_votes ::
  "VoteEnv \<Rightarrow> CStateViewCache \<Rightarrow> bool \<Rightarrow> bool \<Rightarrow> bool \<Rightarrow> u64 \<Rightarrow> CBlockIndex \<Rightarrow> VoteCounters
     \<Rightarrow> bool \<times> VoteCounters" where
  "scan_votes env view fCFund fDAOConsultations fUndo nCycleLength pindexNew g =
     (let nBlocks = blocks_in_cycle nCycleLength pindexNew;
          fScanningWholeCycle = needs_rescan env view fUndo nBlocks g;
          g1 = (if fScanningWholeCycle then clear_counters g else g);
          n = (if fScanningWholeCycle then nat nBlocks else 1);
          g2 = g1\<lparr>lastConsensusStateHash := GetConsensusStateHash env view\<rparr>
      in (fScanningWholeCycle, scan_blocks env view fCFund fDAOConsultations n (Some pindexNew) g2))"

end
