(* ===== verification/VoteStep.thy ===== *)
theory VoteStep
  imports VoteScan
begin

text \<open>
  \<^verbatim>\<open>VoteStep\<close> (\<^verbatim>\<open>consensus/dao.cpp\<close>), run for every block connected to or disconnected from the chain:
  the counters of \<open>VoteScan\<close> are written into the objects that can be voted, the objects change
  state at the end of a voting cycle, the counters of unvoted objects are restarted and the consensus
  parameters that passed are set.

  The procedure is one definition per loop body, in the order of the source, over a record of its local
  variables. The objects are read from the maps \<^verbatim>\<open>mapProposals\<close> etc., snapshots taken by \<^verbatim>\<open>GetAll...\<close> into
  which each loop's changes are merged when the loop has ended, and written through modifiers of the
  view. The two fund counters of the block index are variables of the record. The loops guarded by
  \<^verbatim>\<open>lastConsensusStateHash != lastConsensusStateHash\<close> never run and the merges of update maps that are
  empty at that point do nothing; neither has a counterpart.
\<close>

section \<open>Local variables\<close>

record VoteWork =
  view :: CStateViewCache
  nCFSupply :: CAmount
  nCFLocked :: CAmount
  mapProposals :: "(uint256, CProposal) omap"
  mapPaymentRequests :: "(uint256, CPaymentRequest) omap"
  mapConsultations :: "(uint256, CConsultation) omap"
  mapConsultationAnswers :: "(uint256, CConsultationAnswer) omap"
  updateMapProposals :: "(uint256, CProposal) omap"
  updateMapPaymentRequests :: "(uint256, CPaymentRequest) omap"
  updateMapConsultations :: "(uint256, CConsultation) omap"
  updateMapConsultationAnswers :: "(uint256, CConsultationAnswer) omap"
  mapSeen :: "uint256 set"
  mapSeenSupport :: "uint256 set"
  mapAlreadyCleared :: "uint256 set"
  vClearAnswers :: "uint256 list"
  mapConsensusToChange :: "(u64, u64) omap"

text \<open>What stays fixed: \<open>pindexDelete\<close> is \<open>Some\<close> exactly when \<^verbatim>\<open>fUndo\<close>.\<close>

record VoteCtx = VoteEnv +
  pindexNew :: CBlockIndex
  pindexDelete :: "CBlockIndex option"
  nCycleLength :: u64
  fScanningWholeCycle :: bool

section \<open>Modifiers\<close>

text \<open>
  \<open>seen_...\<close> is the object a modifier shows. \<open>set_...\<close> changes it, \<open>upd_...\<close> changes it and records it in the
  update map under its own hash.
\<close>

definition seen_proposal :: "uint256 \<Rightarrow> VoteWork \<Rightarrow> CProposal" where
  "seen_proposal k w =
     opened_entry CProposal_SetNull CProposal_new k (cacheProposals (view w)) (view_GetProposal (base (view w)) k)"

definition seen_prequest :: "uint256 \<Rightarrow> VoteWork \<Rightarrow> CPaymentRequest" where
  "seen_prequest k w =
     opened_entry CPaymentRequest_SetNull CPaymentRequest_new k (cachePaymentRequests (view w))
       (view_GetPaymentRequest (base (view w)) k)"

definition seen_consultation :: "uint256 \<Rightarrow> VoteWork \<Rightarrow> CConsultation" where
  "seen_consultation k w =
     opened_entry CConsultation_SetNull CConsultation_new k (cacheConsultations (view w))
       (view_GetConsultation (base (view w)) k)"

definition seen_answer :: "uint256 \<Rightarrow> VoteWork \<Rightarrow> CConsultationAnswer" where
  "seen_answer k w =
     opened_entry CConsultationAnswer_SetNull CConsultationAnswer_new k (cacheAnswers (view w))
       (view_GetConsultationAnswer (base (view w)) k)"

definition set_proposal :: "uint256 \<Rightarrow> (CProposal \<Rightarrow> CProposal) \<Rightarrow> VoteWork \<Rightarrow> VoteWork" where
  "set_proposal k f w = w\<lparr>view := ModifyProposal k f (view w)\<rparr>"

definition set_prequest :: "uint256 \<Rightarrow> (CPaymentRequest \<Rightarrow> CPaymentRequest) \<Rightarrow> VoteWork \<Rightarrow> VoteWork" where
  "set_prequest k f w = w\<lparr>view := ModifyPaymentRequest k f (view w)\<rparr>"

definition set_consultation :: "uint256 \<Rightarrow> (CConsultation \<Rightarrow> CConsultation) \<Rightarrow> VoteWork \<Rightarrow> VoteWork" where
  "set_consultation k f w = w\<lparr>view := ModifyConsultation k f (view w)\<rparr>"

definition set_answer :: "uint256 \<Rightarrow> (CConsultationAnswer \<Rightarrow> CConsultationAnswer) \<Rightarrow> VoteWork \<Rightarrow> VoteWork" where
  "set_answer k f w = w\<lparr>view := ModifyConsultationAnswer k f (view w)\<rparr>"

definition upd_proposal :: "uint256 \<Rightarrow> (CProposal \<Rightarrow> CProposal) \<Rightarrow> VoteWork \<Rightarrow> VoteWork" where
  "upd_proposal k f w = (let p = f (seen_proposal k w) in
     (set_proposal k f w)\<lparr>updateMapProposals := omap_put (p_hash p) p (updateMapProposals w)\<rparr>)"

definition upd_prequest :: "uint256 \<Rightarrow> (CPaymentRequest \<Rightarrow> CPaymentRequest) \<Rightarrow> VoteWork \<Rightarrow> VoteWork" where
  "upd_prequest k f w = (let pr = f (seen_prequest k w) in
     (set_prequest k f w)\<lparr>updateMapPaymentRequests := omap_put (pr_hash pr) pr (updateMapPaymentRequests w)\<rparr>)"

definition upd_consultation :: "uint256 \<Rightarrow> (CConsultation \<Rightarrow> CConsultation) \<Rightarrow> VoteWork \<Rightarrow> VoteWork" where
  "upd_consultation k f w = (let c = f (seen_consultation k w) in
     (set_consultation k f w)\<lparr>updateMapConsultations := omap_put (c_hash c) c (updateMapConsultations w)\<rparr>)"

definition upd_answer :: "uint256 \<Rightarrow> (CConsultationAnswer \<Rightarrow> CConsultationAnswer) \<Rightarrow> VoteWork \<Rightarrow> VoteWork" where
  "upd_answer k f w = (let ca = f (seen_answer k w) in
     (set_answer k f w)\<lparr>updateMapConsultationAnswers := omap_put (ca_hash ca) ca (updateMapConsultationAnswers w)\<rparr>)"

definition merge_proposals :: "VoteWork \<Rightarrow> VoteWork" where
  "merge_proposals w = w\<lparr>mapProposals := omap_put_all (updateMapProposals w) (mapProposals w),
     updateMapProposals := []\<rparr>"

definition merge_prequests :: "VoteWork \<Rightarrow> VoteWork" where
  "merge_prequests w = w\<lparr>mapPaymentRequests := omap_put_all (updateMapPaymentRequests w) (mapPaymentRequests w),
     updateMapPaymentRequests := []\<rparr>"

definition merge_consultations :: "VoteWork \<Rightarrow> VoteWork" where
  "merge_consultations w = w\<lparr>mapConsultations := omap_put_all (updateMapConsultations w) (mapConsultations w),
     updateMapConsultations := []\<rparr>"

definition merge_answers :: "VoteWork \<Rightarrow> VoteWork" where
  "merge_answers w =
     w\<lparr>mapConsultationAnswers := omap_put_all (updateMapConsultationAnswers w) (mapConsultationAnswers w),
       updateMapConsultationAnswers := []\<rparr>"

section \<open>Cycles\<close>

text \<open>\<^verbatim>\<open>std::max(nCurrentCycle - nCreatedOnCycle, (uint64_t)0)\<close> on unsigned values.\<close>

definition elapsed_cycles :: "VoteCtx \<Rightarrow> CBlockIndex \<Rightarrow> u64" where
  "elapsed_cycles ctx pblockindex =
     (let nCreatedOnCycle = word_of_int (nHeight pblockindex) div nCycleLength ctx;
          nCurrentCycle = word_of_int (nHeight (pindexNew ctx)) div nCycleLength ctx
      in max (nCurrentCycle - nCreatedOnCycle) 0)"

definition cycle_ends :: "VoteCtx \<Rightarrow> bool" where
  "cycle_ends ctx = (word_of_int (nHeight (pindexNew ctx) + 1) mod nCycleLength ctx = 0)"

definition param :: "VoteCtx \<Rightarrow> nat \<Rightarrow> VoteWork \<Rightarrow> u64" where
  "param ctx pos w = GetConsensusParameter (par ctx) pos (view w)"

section \<open>Writing the counters into the objects\<close>

definition undo_proposal :: "VoteCtx \<Rightarrow> CBlockIndex \<Rightarrow> u64 \<Rightarrow> CProposal \<Rightarrow> CProposal" where
  "undo_proposal ctx pindexDel nVotingCycles p =
     (let p1 = CProposal_ClearState pindexDel p
      in p1\<lparr>p_nVotingCycle := (if CProposal_GetLastState (mapBlockIndex ctx) p1 = NIL
                                then ucast nVotingCycles else p_nVotingCycle p1),
            p_fDirty := True\<rparr>)"

definition undo_prequest :: "VoteCtx \<Rightarrow> CBlockIndex \<Rightarrow> u64 \<Rightarrow> CPaymentRequest \<Rightarrow> CPaymentRequest" where
  "undo_prequest ctx pindexDel nVotingCycles pr =
     (let pr1 = CPaymentRequest_ClearState pindexDel pr
      in pr1\<lparr>pr_nVotingCycle := (if CPaymentRequest_GetLastState (mapBlockIndex ctx) pr1 = NIL
                                  then ucast nVotingCycles else pr_nVotingCycle pr1),
             pr_fDirty := True\<rparr>)"

definition undo_consultation :: "VoteCtx \<Rightarrow> CBlockIndex \<Rightarrow> u64 \<Rightarrow> CConsultation \<Rightarrow> CConsultation" where
  "undo_consultation ctx pindexDel nVotingCycles c =
     (let c1 = CConsultation_ClearState pindexDel c;
          newState = CConsultation_GetLastState (mapBlockIndex ctx) c1
      in c1\<lparr>c_nVotingCycle := (if newState \<noteq> EXPIRED \<and> newState \<noteq> PASSED
                                then ucast nVotingCycles else c_nVotingCycle c1),
            c_fDirty := True\<rparr>)"

definition undo_answer :: "CBlockIndex \<Rightarrow> CConsultationAnswer \<Rightarrow> CConsultationAnswer" where
  "undo_answer pindexDel ca = (CConsultationAnswer_ClearState pindexDel ca)\<lparr>ca_fDirty := True\<rparr>"

definition proposal_votes :: "VoteCtx \<Rightarrow> uint256 \<times> tally \<Rightarrow> VoteWork \<Rightarrow> VoteWork" where
  "proposal_votes ctx it w =
     (case map_of (mapProposals w) (fst it) of
        None \<Rightarrow> w
      | Some p \<Rightarrow>
          if p_txblockhash p = 0 then w
          else case mapBlockIndex ctx (p_txblockhash p) of
            None \<Rightarrow> w
          | Some pblockindex \<Rightarrow>
              let nVotingCycles = min (elapsed_cycles ctx pblockindex) (param ctx PROPOSAL_MAX_VOTING_CYCLES w + 1);
                  (fCanVote, w1) =
                    (case pindexDelete ctx of
                       None \<Rightarrow> (CProposal_CanVote (mapBlockIndex ctx) p, w)
                     | Some d \<Rightarrow>
                         (CProposal_CanVote (mapBlockIndex ctx) (undo_proposal ctx d nVotingCycles (seen_proposal (fst it) w)),
                          upd_proposal (fst it) (undo_proposal ctx d nVotingCycles) w))
              in if \<not> fCanVote then w1
                 else (upd_proposal (fst it)
                         (\<lambda>p. p\<lparr>p_nVotesYes := fst (fst (snd it)), p_nVotesAbs := snd (snd it),
                               p_nVotesNo := snd (fst (snd it)), p_fDirty := True\<rparr>) w1)
                        \<lparr>mapSeen := insert (p_hash (seen_proposal (fst it) w1)) (mapSeen w1)\<rparr>)"

text \<open>
  The payment request loop looks its block up without testing that it is known. While the undo modifier
  is open, \<^verbatim>\<open>CanVote\<close> sees the modified request in the view.
\<close>

definition prequest_votes :: "VoteCtx \<Rightarrow> uint256 \<times> tally \<Rightarrow> VoteWork \<Rightarrow> VoteWork result" where
  "prequest_votes ctx it w =
     (case map_of (mapPaymentRequests w) (fst it) of
        None \<Rightarrow> Inr w
      | Some pr \<Rightarrow>
          if pr_txblockhash pr = 0 then Inr w
          else case mapBlockIndex ctx (pr_txblockhash pr) of
            None \<Rightarrow> Inl NullDereference
          | Some pblockindex \<Rightarrow>
              let nVotingCycles = min (elapsed_cycles ctx pblockindex)
                                    (param ctx PAYMENT_REQUEST_MAX_VOTING_CYCLES w + 1);
                  (fCanVote, w1) =
                    (case pindexDelete ctx of
                       None \<Rightarrow> (CPaymentRequest_CanVote (mapBlockIndex ctx) (view w) pr, w)
                     | Some d \<Rightarrow>
                         let e = undo_prequest ctx d nVotingCycles (seen_prequest (fst it) w)
                         in (CPaymentRequest_CanVote (mapBlockIndex ctx)
                               ((view w)\<lparr>cachePaymentRequests := omap_put (fst it) e (cachePaymentRequests (view w))\<rparr>) e,
                             upd_prequest (fst it) (undo_prequest ctx d nVotingCycles) w))
              in if \<not> fCanVote then Inr w1
                 else Inr ((upd_prequest (fst it)
                         (\<lambda>pr. pr\<lparr>pr_nVotesYes := fst (fst (snd it)), pr_nVotesAbs := snd (snd it),
                                pr_nVotesNo := snd (fst (snd it)), pr_fDirty := True\<rparr>) w1)
                        \<lparr>mapSeen := insert (pr_hash (seen_prequest (fst it) w1)) (mapSeen w1)\<rparr>))"

definition consultation_support :: "VoteCtx \<Rightarrow> uint256 \<times> int \<Rightarrow> CConsultation \<Rightarrow> VoteWork \<Rightarrow> VoteWork" where
  "consultation_support ctx it c w =
     (if c_txblockhash c = 0 then w
      else case mapBlockIndex ctx (c_txblockhash c) of
        None \<Rightarrow> w
      | Some pblockindex \<Rightarrow>
          let nVotingCycles = min (elapsed_cycles ctx pblockindex)
                (param ctx CONSULTATION_MAX_VOTING_CYCLES w + param ctx CONSULTATION_REFLECTION_LENGTH w +
                 param ctx CONSULTATION_MAX_SUPPORT_CYCLES w);
              (fCanBeSupported, w1) =
                (case pindexDelete ctx of
                   None \<Rightarrow> (CConsultation_CanBeSupported (mapBlockIndex ctx) c, w)
                 | Some d \<Rightarrow>
                     (CConsultation_CanBeSupported (mapBlockIndex ctx)
                        (undo_consultation ctx d nVotingCycles (seen_consultation (fst it) w)),
                      upd_consultation (fst it) (undo_consultation ctx d nVotingCycles) w))
          in if \<not> fCanBeSupported then w1
             else (upd_consultation (fst it) (\<lambda>c. c\<lparr>c_nSupport := snd it, c_fDirty := True\<rparr>) w1)
                    \<lparr>mapSeenSupport := insert (c_hash (seen_consultation (fst it) w1)) (mapSeenSupport w1)\<rparr>)"

definition answer_support :: "VoteCtx \<Rightarrow> uint256 \<times> int \<Rightarrow> CConsultationAnswer \<Rightarrow> VoteWork \<Rightarrow> VoteWork" where
  "answer_support ctx it ca w =
     (if ca_txblockhash ca = 0 \<or> mapBlockIndex ctx (ca_txblockhash ca) = None then w
      else
        let (fCanBeSupported, w1) =
              (case pindexDelete ctx of
                 None \<Rightarrow> (CConsultationAnswer_CanBeSupported (mapBlockIndex ctx) (view w) ca, w)
               | Some d \<Rightarrow>
                   (CConsultationAnswer_CanBeSupported (mapBlockIndex ctx) (view w) (undo_answer d (seen_answer (fst it) w)),
                    upd_answer (fst it) (undo_answer d) w))
        in if \<not> fCanBeSupported then w1
           else (upd_answer (fst it) (\<lambda>ca. ca\<lparr>ca_nSupport := snd it, ca_fDirty := True\<rparr>) w1)
                  \<lparr>mapSeenSupport := insert (ca_hash (seen_answer (fst it) w1)) (mapSeenSupport w1)\<rparr>)"

definition support_votes :: "VoteCtx \<Rightarrow> uint256 \<times> int \<Rightarrow> VoteWork \<Rightarrow> VoteWork" where
  "support_votes ctx it w =
     (case map_of (mapConsultations w) (fst it) of
        Some c \<Rightarrow> consultation_support ctx it c w
      | None \<Rightarrow>
          (case map_of (mapConsultationAnswers w) (fst it) of
             Some ca \<Rightarrow> answer_support ctx it ca w
           | None \<Rightarrow> w))"

definition consultation_vote ::
  "VoteCtx \<Rightarrow> (uint256 \<times> int) \<times> int \<Rightarrow> CConsultation \<Rightarrow> VoteWork \<Rightarrow> VoteWork" where
  "consultation_vote ctx it c w =
     (let k = fst (fst it); vote = snd (fst it)
      in if c_txblockhash c = 0 then w
         else case mapBlockIndex ctx (c_txblockhash c) of
           None \<Rightarrow> w
         | Some pblockindex \<Rightarrow>
             let nVotingCycles = min (elapsed_cycles ctx pblockindex) (param ctx CONSULTATION_MAX_VOTING_CYCLES w + 1);
                 votable = (\<lambda>c. CConsultation_CanBeVoted (mapBlockIndex ctx) vote c \<and> CConsultation_IsValidVote vote c);
                 (fCanBeVoted, w1) =
                   (case pindexDelete ctx of
                      None \<Rightarrow> (votable c, w)
                    | Some d \<Rightarrow>
                        (votable (undo_consultation ctx d nVotingCycles (seen_consultation k w)),
                         upd_consultation k (undo_consultation ctx d nVotingCycles) w))
             in if \<not> fCanBeVoted then w1
                else
                  let fClear = (fScanningWholeCycle ctx \<and> k \<notin> mapAlreadyCleared w1)
                  in (upd_consultation k
                        (\<lambda>c. c\<lparr>c_mapVotes := omap_put (word_of_int vote) (word_of_int (snd it))
                                               (if fClear then [] else c_mapVotes c),
                              c_fDirty := True\<rparr>) w1)
                       \<lparr>mapAlreadyCleared := (if fClear then insert k (mapAlreadyCleared w1) else mapAlreadyCleared w1),
                        mapSeen := insert k (mapSeen w1)\<rparr>)"

definition answer_vote ::
  "VoteCtx \<Rightarrow> (uint256 \<times> int) \<times> int \<Rightarrow> CConsultationAnswer \<Rightarrow> VoteWork \<Rightarrow> VoteWork" where
  "answer_vote ctx it ca w =
     (let k = fst (fst it)
      in if ca_txblockhash ca = 0 \<or> mapBlockIndex ctx (ca_txblockhash ca) = None then w
         else
           let (fCanBeVoted, w1) =
                 (case pindexDelete ctx of
                    None \<Rightarrow> (CConsultationAnswer_CanBeVoted (mapBlockIndex ctx) (view w) ca, w)
                  | Some d \<Rightarrow>
                      (CConsultationAnswer_CanBeVoted (mapBlockIndex ctx) (view w) (undo_answer d (seen_answer k w)),
                       upd_answer k (undo_answer d) w))
           in if \<not> fCanBeVoted then w1
              else (upd_answer k (\<lambda>ca. ca\<lparr>ca_nVotes := snd it, ca_fDirty := True\<rparr>) w1)
                     \<lparr>mapSeen := insert k (mapSeen w1)\<rparr>)"

definition consultation_votes :: "VoteCtx \<Rightarrow> (uint256 \<times> int) \<times> int \<Rightarrow> VoteWork \<Rightarrow> VoteWork" where
  "consultation_votes ctx it w =
     (case map_of (mapConsultations w) (fst (fst it)) of
        Some c \<Rightarrow> consultation_vote ctx it c w
      | None \<Rightarrow>
          (case map_of (mapConsultationAnswers w) (fst (fst it)) of
             Some ca \<Rightarrow> answer_vote ctx it ca w
           | None \<Rightarrow> w))"

section \<open>Payment requests at the end of a cycle\<close>

definition set_prequest_state :: "VoteCtx \<Rightarrow> uint256 \<Rightarrow> flags \<Rightarrow> VoteWork \<Rightarrow> VoteWork" where
  "set_prequest_state ctx k st w =
     upd_prequest k (\<lambda>pr. (CPaymentRequest_SetState (pindexNew ctx) st pr)\<lparr>pr_fDirty := True\<rparr>) w"

text \<open>The acceptance of a request whose proposal is accepted and has the amount available.\<close>

definition accept_prequest :: "VoteCtx \<Rightarrow> uint256 \<times> CPaymentRequest \<Rightarrow> bool \<Rightarrow> VoteWork \<Rightarrow> VoteWork" where
  "accept_prequest ctx it fIsAccepted w =
     (case map_of (mapProposals w) (pr_proposalhash (snd it)) of
        None \<Rightarrow> w
      | Some proposal \<Rightarrow>
          let proposalOldState = CProposal_GetLastState (mapBlockIndex ctx) proposal;
              fSuper = has_flag (p_nVersion proposal) P_SUPER_VERSION
          in if (proposalOldState = ACCEPTED \<or> proposalOldState = PENDING_VOTING_PREQ) \<and> fIsAccepted
             then if (fSuper \<or> (pr_nAmount (snd it) \<le> nCFLocked w \<and> \<not> fSuper)) \<and>
                     pr_nAmount (snd it) \<le> CProposal_GetAvailable (mapBlockIndex ctx) (view w) False proposal
                  then
                    let amount = pr_nAmount (seen_prequest (fst it) w);
                        w1 = set_prequest_state ctx (fst it) ACCEPTED w
                    in if \<not> fSuper then w1\<lparr>nCFLocked := nCFLocked w1 - amount\<rparr> else w1
                  else w
             else w)"

definition step_prequest :: "VoteCtx \<Rightarrow> uint256 \<times> CPaymentRequest \<Rightarrow> VoteWork \<Rightarrow> VoteWork result" where
  "step_prequest ctx it w =
     (let k = fst it; pr = snd it; mbi = mapBlockIndex ctx
      in if pr_txblockhash pr = 0 then Inr w
         else case mbi (pr_txblockhash pr) of
           None \<Rightarrow> Inl NullDereference
         | Some pblockindex \<Rightarrow>
             let nVotingCycles = min (elapsed_cycles ctx pblockindex) (nCycleLength ctx + 1)
             in case pindexDelete ctx of
                  Some d \<Rightarrow> Inr (upd_prequest k (undo_prequest ctx d nVotingCycles) w)
                | None \<Rightarrow>
                    let oldState = CPaymentRequest_GetLastState mbi pr;
                        enter = (\<lambda>pr. pr\<lparr>pr_nVotingCycle := ucast nVotingCycles, pr_fDirty := True\<rparr>);
                        judged = (if oldState = NIL then enter (seen_prequest k w) else pr);
                        w1 = (if oldState = NIL then set_prequest k enter w else w);
                        fIsExpired = CPaymentRequest_IsExpired (par ctx) mbi (view w) judged;
                        fIsAccepted = CPaymentRequest_IsAccepted (par ctx) (view w) judged;
                        fIsRejected = CPaymentRequest_IsRejected (par ctx) (view w) judged
                    in Inr (if \<not> cycle_ends ctx then w1
                            else if fIsExpired
                            then if oldState \<noteq> EXPIRED \<and> oldState \<noteq> ACCEPTED \<and> oldState \<noteq> REJECTED
                                 then set_prequest_state ctx k EXPIRED w1 else w1
                            else if fIsRejected
                            then if oldState \<noteq> REJECTED then set_prequest_state ctx k REJECTED w1 else w1
                            else if oldState = NIL then accept_prequest ctx it fIsAccepted w1
                            else w1))"

section \<open>Proposals at the end of a cycle\<close>

definition set_proposal_state :: "VoteCtx \<Rightarrow> uint256 \<Rightarrow> flags \<Rightarrow> VoteWork \<Rightarrow> VoteWork" where
  "set_proposal_state ctx k st w =
     upd_proposal k (\<lambda>p. (CProposal_SetState (pindexNew ctx) st p)\<lparr>p_fDirty := True\<rparr>) w"

definition expire_proposal :: "VoteCtx \<Rightarrow> uint256 \<times> CProposal \<Rightarrow> flags \<Rightarrow> VoteWork \<Rightarrow> VoteWork" where
  "expire_proposal ctx it oldState w =
     (let k = fst it; mbi = mapBlockIndex ctx
      in if CProposal_HasPendingPaymentRequests mbi (view w) (snd it)
         then set_proposal_state ctx k PENDING_VOTING_PREQ w
         else if oldState = ACCEPTED \<or> oldState = PENDING_VOTING_PREQ
         then
           let proposal = seen_proposal k w;
               available = CProposal_GetAvailable mbi (view w) False proposal;
               w1 = set_proposal_state ctx k ACCEPTED_EXPIRED w
           in if \<not> has_flag (p_nVersion proposal) P_SUPER_VERSION
              then w1\<lparr>nCFSupply := nCFSupply w1 + available, nCFLocked := nCFLocked w1 - available\<rparr> else w1
         else set_proposal_state ctx k EXPIRED w)"

definition accept_proposal :: "VoteCtx \<Rightarrow> uint256 \<times> CProposal \<Rightarrow> flags \<Rightarrow> VoteWork \<Rightarrow> VoteWork" where
  "accept_proposal ctx it oldState w =
     (let k = fst it; mbi = mapBlockIndex ctx; fSuper = has_flag (p_nVersion (snd it)) P_SUPER_VERSION
      in if (\<not> fSuper \<and> nCFSupply w \<ge> CProposal_GetAvailable mbi (view w) False (snd it)) \<or> fSuper
         then
           let available = CProposal_GetAvailable mbi (view w) False (seen_proposal k w);
               w1 = set_proposal_state ctx k ACCEPTED w
           in if \<not> fSuper
              then w1\<lparr>nCFSupply := nCFSupply w1 - available, nCFLocked := nCFLocked w1 + available\<rparr> else w1
         else if oldState \<noteq> PENDING_FUNDS then set_proposal_state ctx k PENDING_FUNDS w
         else w)"

text \<open>The branch of a rejected proposal leaves the dirty flag to the modifier.\<close>

definition step_proposal :: "VoteCtx \<Rightarrow> uint256 \<times> CProposal \<Rightarrow> VoteWork \<Rightarrow> VoteWork" where
  "step_proposal ctx it w =
     (let k = fst it; p = snd it; mbi = mapBlockIndex ctx
      in if p_txblockhash p = 0 then w
         else case mbi (p_txblockhash p) of
           None \<Rightarrow> w
         | Some pblockindex \<Rightarrow>
             let nVotingCycles = min (elapsed_cycles ctx pblockindex) (param ctx PROPOSAL_MAX_VOTING_CYCLES w + 1);
                 fIsExpired = CProposal_IsExpired (par ctx) mbi (word_of_int (GetBlockTime (pindexNew ctx))) (view w) p;
                 fIsAccepted = CProposal_IsAccepted (par ctx) (view w) p;
                 fIsRejected = CProposal_IsRejected (par ctx) (view w) p
             in case pindexDelete ctx of
                  Some d \<Rightarrow> upd_proposal k (undo_proposal ctx d nVotingCycles) w
                | None \<Rightarrow>
                    let oldState = CProposal_GetLastState mbi p;
                        w1 = (if oldState = NIL
                              then upd_proposal k (\<lambda>p. p\<lparr>p_nVotingCycle := ucast nVotingCycles, p_fDirty := True\<rparr>) w
                              else w)
                    in if \<not> cycle_ends ctx then w1
                       else if fIsExpired
                       then if oldState \<noteq> EXPIRED \<and> oldState \<noteq> ACCEPTED_EXPIRED \<and> oldState \<noteq> REJECTED
                            then expire_proposal ctx it oldState w1 else w1
                       else if fIsRejected
                       then if oldState \<noteq> REJECTED
                            then upd_proposal k (CProposal_SetState (pindexNew ctx) REJECTED) w1 else w1
                       else if fIsAccepted \<and> (oldState = NIL \<or> oldState = PENDING_FUNDS)
                       then accept_proposal ctx it oldState w1
                       else w1)"

section \<open>Answers at the end of a cycle\<close>

text \<open>\<^verbatim>\<open>std::stoll\<close> in base 10: white space, a sign, digits; what follows is ignored.\<close>

definition is_space :: "char \<Rightarrow> bool" where
  "is_space c = (of_char c = (32 :: nat) \<or> (9 \<le> (of_char c :: nat) \<and> of_char c \<le> (13 :: nat)))"

definition is_digit :: "char \<Rightarrow> bool" where
  "is_digit c = (48 \<le> (of_char c :: nat) \<and> of_char c \<le> (57 :: nat))"

definition digits_value :: "string \<Rightarrow> int" where
  "digits_value ds = foldl (\<lambda>n c. 10 * n + (of_char c - 48)) 0 ds"

definition stoll :: "string \<Rightarrow> int result" where
  "stoll str =
     (let s = dropWhile is_space str;
          (sg, s1) = (case s of
             CHR ''-'' # r \<Rightarrow> (- 1, r)
           | CHR ''+'' # r \<Rightarrow> (1, r)
           | _ \<Rightarrow> (1, s));
          ds = takeWhile is_digit s1;
          n = sg * digits_value ds
      in if ds = [] \<or> n < - (2 ^ 63) \<or> 2 ^ 63 \<le> n then Inl StdException else Inr n)"

text \<open>\<^verbatim>\<open>mapConsensusToChange.insert\<close> for each pair of a parameter and an answer.\<close>

definition insert_change :: "u64 \<times> string \<Rightarrow> (u64, u64) omap \<Rightarrow> (u64, u64) omap result" where
  "insert_change pa m = bindR (stoll (snd pa)) (\<lambda>n. Inr (omap_insert (fst pa) (word_of_int n) m))"

definition pass_answer :: "VoteCtx \<Rightarrow> uint256 \<times> CConsultationAnswer \<Rightarrow> VoteWork \<Rightarrow> VoteWork result" where
  "pass_answer ctx it w =
     (case map_of (mapConsultations w) (ca_parent (snd it)) of
        None \<Rightarrow> Inr w
      | Some parent \<Rightarrow>
          if CConsultation_IsAboutConsensusParameter parent
          then
            let answers = CConsultationAnswer_GetAnswers (seen_answer (fst it) w);
                parameters = CConsultation_GetParameters parent
            in if length answers = length parameters
               then bindR (foldR insert_change (zip parameters answers) (mapConsensusToChange w)) (\<lambda>m.
                      Inr ((upd_answer (fst it)
                              (\<lambda>ca. (CConsultationAnswer_SetState (pindexNew ctx) PASSED ca)\<lparr>ca_fDirty := True\<rparr>) w)
                             \<lparr>mapConsensusToChange := m\<rparr>))
               else Inr (set_answer (fst it) (\<lambda>ca. ca) w)
          else Inr w)"

definition step_answer :: "VoteCtx \<Rightarrow> uint256 \<times> CConsultationAnswer \<Rightarrow> VoteWork \<Rightarrow> VoteWork result" where
  "step_answer ctx it w =
     (let k = fst it; ca = snd it; mbi = mapBlockIndex ctx
      in if ca_txblockhash ca = 0 \<or> mbi (ca_txblockhash ca) = None then Inr w
         else
           let fIsSupported = CConsultationAnswer_IsSupported (par ctx) (view w) ca;
               fIsConsensusAccepted = CConsultationAnswer_IsConsensusAccepted (par ctx) (view w) ca
           in case pindexDelete ctx of
                Some d \<Rightarrow> Inr (upd_answer k (undo_answer d) w)
              | None \<Rightarrow>
                  if cycle_ends ctx
                  then
                    let oldState = CConsultationAnswer_GetLastState mbi ca;
                        w1 = (if fIsSupported \<and> oldState = NIL
                              then upd_answer k
                                (\<lambda>ca. (CConsultationAnswer_SetState (pindexNew ctx) ACCEPTED ca)\<lparr>ca_fDirty := True\<rparr>) w
                              else w)
                    in if fIsConsensusAccepted \<and> oldState \<noteq> PASSED then pass_answer ctx it w1 else Inr w1
                  else Inr w)"

section \<open>Consultations at the end of a cycle\<close>

definition set_consultation_state :: "VoteCtx \<Rightarrow> uint256 \<Rightarrow> flags \<Rightarrow> VoteWork \<Rightarrow> VoteWork" where
  "set_consultation_state ctx k st w =
     upd_consultation k (\<lambda>c. (CConsultation_SetState (pindexNew ctx) st c)\<lparr>c_fDirty := True\<rparr>) w"

text \<open>The next state of a consultation that has not passed, when there is one.\<close>

definition consultation_next :: "flags \<Rightarrow> bool \<Rightarrow> bool \<Rightarrow> bool \<Rightarrow> bool \<Rightarrow> flags option" where
  "consultation_next oldState fIsExpired fIsSupported fCanMoveInReflection fIsReflectionOver =
     (if fIsExpired then if oldState \<noteq> EXPIRED then Some EXPIRED else None
      else if fIsSupported
      then if oldState = NIL then Some SUPPORTED
           else if oldState = SUPPORTED \<and> fCanMoveInReflection then Some REFLECTION
           else if oldState = REFLECTION \<and> fIsReflectionOver then Some ACCEPTED
           else None
      else None)"

definition step_consultation :: "VoteCtx \<Rightarrow> uint256 \<times> CConsultation \<Rightarrow> VoteWork \<Rightarrow> VoteWork result" where
  "step_consultation ctx it w =
     (let k = fst it; c = snd it; mbi = mapBlockIndex ctx
      in if c_txblockhash c = 0 then Inr w
         else case mbi (c_txblockhash c) of
           None \<Rightarrow> Inr w
         | Some pblockindex \<Rightarrow>
             let nVotingCycles = min (elapsed_cycles ctx pblockindex) (param ctx CONSULTATION_MAX_VOTING_CYCLES w + 1);
                 oldState = CConsultation_GetLastState mbi c;
                 fIsSupported = CConsultation_IsSupported (par ctx) (view w) c;
                 fCanMoveInReflection = CConsultation_CanMoveInReflection (par ctx) (view w) c
             in bindR (CConsultation_IsExpired (par ctx) mbi (pindexNew ctx) (view w) c) (\<lambda>fIsExpired.
                bindR (CConsultation_IsReflectionOver (par ctx) mbi (pindexNew ctx) (view w) c) (\<lambda>fIsReflectionOver.
                case pindexDelete ctx of
                  Some d \<Rightarrow> Inr (upd_consultation k (undo_consultation ctx d nVotingCycles) w)
                | None \<Rightarrow>
                    let w1 = (if oldState \<noteq> EXPIRED \<and> oldState \<noteq> PASSED
                              then upd_consultation k
                                (\<lambda>c. c\<lparr>c_nVotingCycle := ucast nVotingCycles, c_fDirty := True\<rparr>) w
                              else w);
                        new = consultation_next oldState fIsExpired fIsSupported fCanMoveInReflection fIsReflectionOver;
                        w2 = (case new of Some st \<Rightarrow> set_consultation_state ctx k st w1 | None \<Rightarrow> w1);
                        lastState = (case new of Some st \<Rightarrow> st | None \<Rightarrow> oldState)
                    in Inr (if \<not> cycle_ends ctx then w1
                            else if CConsultation_IsAboutConsensusParameter c \<and> oldState = ACCEPTED \<and>
                                    lastState \<noteq> EXPIRED \<and>
                                    (\<forall>q \<in> set (CConsultation_GetParameters c). omap_has q (mapConsensusToChange w))
                            then set_consultation_state ctx k PASSED w2
                            else w2))))"

section \<open>Restarting the counters of unvoted objects\<close>

text \<open>The abstentions of proposals and payment requests are not restarted.\<close>

definition restart_prequest :: "VoteCtx \<Rightarrow> uint256 \<times> CPaymentRequest \<Rightarrow> VoteWork \<Rightarrow> VoteWork" where
  "restart_prequest ctx it w =
     (if pr_hash (snd it) \<notin> mapSeen w \<and> CPaymentRequest_CanVote (mapBlockIndex ctx) (view w) (snd it)
      then set_prequest (fst it) (\<lambda>pr. pr\<lparr>pr_nVotesYes := 0, pr_nVotesNo := 0, pr_fDirty := True\<rparr>) w
      else w)"

definition restart_proposal :: "VoteCtx \<Rightarrow> uint256 \<times> CProposal \<Rightarrow> VoteWork \<Rightarrow> VoteWork" where
  "restart_proposal ctx it w =
     (if p_hash (snd it) \<notin> mapSeen w \<and> CProposal_CanVote (mapBlockIndex ctx) (snd it)
      then set_proposal (fst it) (\<lambda>p. p\<lparr>p_nVotesYes := 0, p_nVotesNo := 0, p_fDirty := True\<rparr>) w
      else w)"

definition restart_consultation :: "VoteCtx \<Rightarrow> uint256 \<times> CConsultation \<Rightarrow> VoteWork \<Rightarrow> VoteWork" where
  "restart_consultation ctx it w =
     (let k = fst it; c = snd it; mbi = mapBlockIndex ctx;
          w1 = (if CConsultation_CanBeSupported mbi c \<and> c_hash c \<notin> mapSeenSupport w
                then set_consultation k (\<lambda>c. c\<lparr>c_nSupport := 0, c_fDirty := True\<rparr>) w else w)
      in if CConsultation_GetLastState mbi c = ACCEPTED
         then
           let w2 = (if \<not> CConsultation_IsRange c then w1\<lparr>vClearAnswers := vClearAnswers w1 @ [c_hash c]\<rparr> else w1)
           in if (omap_has (word_of_int VOTE_ABSTAIN) (c_mapVotes c) \<or> CConsultation_IsRange c) \<and> c_hash c \<notin> mapSeen w
              then set_consultation k (\<lambda>c. c\<lparr>c_mapVotes := []\<rparr>) w2 else w2
         else w1)"

definition restart_answer :: "VoteCtx \<Rightarrow> uint256 \<times> CConsultationAnswer \<Rightarrow> VoteWork \<Rightarrow> VoteWork" where
  "restart_answer ctx it w =
     (let k = fst it; ca = snd it
      in if k \<in> mapSeen w then w
         else
           let w1 = (if CConsultationAnswer_CanBeSupported (mapBlockIndex ctx) (view w) ca \<and> ca_hash ca \<notin> mapSeenSupport w
                     then set_answer k (\<lambda>ca. ca\<lparr>ca_nSupport := 0, ca_fDirty := True\<rparr>) w else w)
           in if ca_parent ca \<in> set (vClearAnswers w)
              then set_answer k (\<lambda>ca. ca\<lparr>ca_nVotes := 0, ca_fDirty := True\<rparr>) w1
              else w1)"

text \<open>\<^verbatim>\<open>ModifyConsensusParameter\<close> takes the 64-bit parameter number as an \<^verbatim>\<open>int\<close>.\<close>

definition change_parameter :: "VoteCtx \<Rightarrow> u64 \<times> u64 \<Rightarrow> VoteWork \<Rightarrow> VoteWork" where
  "change_parameter ctx it w =
     w\<lparr>view := ModifyConsensusParameter (sint (ucast (fst it) :: u32))
       (CConsensusParameter_Set (nHeight (pindexNew ctx)) (snd it)) (view w)\<rparr>"

section \<open>The passes and the procedure\<close>

definition cfund_votes_pass :: "VoteCtx \<Rightarrow> VoteCounters \<Rightarrow> VoteWork \<Rightarrow> VoteWork result" where
  "cfund_votes_pass ctx g w =
     bindR (foldR (prequest_votes ctx) (mapCachePaymentRequestToUpdate g)
              (merge_proposals (fold (proposal_votes ctx) (mapCacheProposalsToUpdate g) w)))
       (\<lambda>w. Inr (merge_prequests w))"

definition dao_votes_pass :: "VoteCtx \<Rightarrow> VoteCounters \<Rightarrow> VoteWork \<Rightarrow> VoteWork" where
  "dao_votes_pass ctx g w =
     (let w1 = merge_answers (merge_consultations (fold (support_votes ctx) (mapCacheSupportToUpdate g) w))
      in merge_answers (merge_consultations (fold (consultation_votes ctx) (mapCacheConsultationToUpdate g) w1)))"

definition cfund_step_pass :: "VoteCtx \<Rightarrow> VoteWork \<Rightarrow> VoteWork result" where
  "cfund_step_pass ctx w =
     bindR (foldR (step_prequest ctx) (mapPaymentRequests w) w) (\<lambda>w.
     let w1 = merge_prequests w
     in Inr (merge_proposals (fold (step_proposal ctx) (mapProposals w1) w1)))"

definition dao_step_pass :: "VoteCtx \<Rightarrow> VoteWork \<Rightarrow> VoteWork result" where
  "dao_step_pass ctx w =
     bindR (foldR (step_answer ctx) (mapConsultationAnswers w) w) (\<lambda>w.
     let w1 = merge_answers w
     in bindR (foldR (step_consultation ctx) (mapConsultations w1) w1) (\<lambda>w.
        Inr (merge_consultations w)))"

definition restart_pass :: "VoteCtx \<Rightarrow> bool \<Rightarrow> bool \<Rightarrow> VoteWork \<Rightarrow> VoteWork" where
  "restart_pass ctx fCFund fDAOConsultations w =
     (let w1 = (if fCFund
                then fold (restart_proposal ctx) (mapProposals w) (fold (restart_prequest ctx) (mapPaymentRequests w) w)
                else w)
      in if fDAOConsultations
         then fold (restart_answer ctx) (mapConsultationAnswers w1)
                (fold (restart_consultation ctx) (mapConsultations w1) w1)
         else w1)"

definition parameters_pass :: "VoteCtx \<Rightarrow> VoteWork \<Rightarrow> VoteWork" where
  "parameters_pass ctx w = fold (change_parameter ctx) (mapConsensusToChange w) w"

text \<open>The work from the filled counters on; \<open>None\<close> stands for \<^verbatim>\<open>return false\<close>.\<close>

definition start_work ::
  "bool \<Rightarrow> bool \<Rightarrow> CStateViewCache \<Rightarrow> CAmount \<Rightarrow> CAmount \<Rightarrow> VoteWork option" where
  "start_work fCFund fDAOConsultations v supply locked =
     (case (if fCFund then GetAllProposals v else Some []) of None \<Rightarrow> None | Some mp \<Rightarrow>
     (case (if fCFund then GetAllPaymentRequests v else Some []) of None \<Rightarrow> None | Some mpr \<Rightarrow>
     (case (if fDAOConsultations then GetAllConsultationAnswers v else Some []) of None \<Rightarrow> None | Some ma \<Rightarrow>
     (case (if fDAOConsultations then GetAllConsultations v else Some []) of None \<Rightarrow> None | Some mc \<Rightarrow>
        Some \<lparr>view = v, nCFSupply = supply, nCFLocked = locked, mapProposals = mp, mapPaymentRequests = mpr,
          mapConsultations = mc, mapConsultationAnswers = ma, updateMapProposals = [],
          updateMapPaymentRequests = [], updateMapConsultations = [], updateMapConsultationAnswers = [],
          mapSeen = {}, mapSeenSupport = {}, mapAlreadyCleared = {}, vClearAnswers = [],
          mapConsensusToChange = []\<rparr>))))"

definition run_passes :: "VoteCtx \<Rightarrow> bool \<Rightarrow> bool \<Rightarrow> VoteCounters \<Rightarrow> VoteWork \<Rightarrow> VoteWork result" where
  "run_passes ctx fCFund fDAOConsultations g w =
     bindR (if fCFund then cfund_votes_pass ctx g w else Inr w) (\<lambda>w.
     let w1 = (if fDAOConsultations then dao_votes_pass ctx g w else w);
         w2 = w1\<lparr>view := SetExcludeVotes (nCacheExclude g) (view w1)\<rparr>
     in bindR (if fCFund then cfund_step_pass ctx w2 else Inr w2) (\<lambda>w.
        bindR (if fDAOConsultations then dao_step_pass ctx w else Inr w) (\<lambda>w.
        let w3 = (if fScanningWholeCycle ctx then restart_pass ctx fCFund fDAOConsultations w else w)
        in Inr (parameters_pass ctx w3))))"

text \<open>The state \<^verbatim>\<open>VoteStep\<close> changes: the counters, the view and the fund of the block index.\<close>

record VoteState =
  vs_counters :: VoteCounters
  vs_view :: CStateViewCache
  vs_supply :: CAmount
  vs_locked :: CAmount

definition VoteStep :: "VoteEnv \<Rightarrow> CBlockIndex \<Rightarrow> bool \<Rightarrow> VoteState \<Rightarrow> (bool \<times> VoteState) result" where
  "VoteStep env pindex fUndo s =
     (case (if fUndo then pprev pindex else Some pindex) of
        None \<Rightarrow> Inl AssertFailed
      | Some pnew \<Rightarrow>
          let v = vs_view s;
              len = GetConsensusParameter (par env) VOTING_CYCLE_LENGTH v;
              fCFund = IsCommunityFundEnabled env (pprev pnew);
              fDAO = IsDAOEnabled env (pprev pnew)
          in if len = 0 then Inl DivisionByZero
             else if \<not> fCFund \<and> \<not> fDAO then Inr (True, s)
             else
               let (whole, g) = scan_votes env v fCFund fDAO fUndo len pnew (vs_counters s);
                   ctx = VoteEnv.extend env (VoteCtx.fields pnew (if fUndo then Some pindex else None) len whole)
               in case start_work fCFund fDAO v (vs_supply s) (vs_locked s) of
                    None \<Rightarrow> Inr (False, s\<lparr>vs_counters := g\<rparr>)
                  | Some w \<Rightarrow>
                      bindR (run_passes ctx fCFund fDAO g w) (\<lambda>w.
                      Inr (True, \<lparr>vs_counters = g, vs_view = view w, vs_supply = nCFSupply w, vs_locked = nCFLocked w\<rparr>)))"

end
