(* ===== verification/VoteScanLaws.thy ===== *)
theory VoteScanLaws
  imports VoteScan
begin

text \<open>
  What the scan of \<open>VoteScan\<close> computes. A block acts on each counter as a list of independent increments
  that depends on the block and not on the counters; increments commute, so the order in which blocks
  are scanned does not matter, adding one block to the counters of the cycle so far gives the counters of
  the whole cycle, and no tally exceeds the number of blocks.
\<close>

section \<open>Increments\<close>

definition bump :: "'v \<Rightarrow> ('v \<Rightarrow> 'v) \<Rightarrow> 'k::linorder \<Rightarrow> ('k, 'v) omap \<Rightarrow> ('k, 'v) omap" where
  "bump d f k m = omap_put k (f (omap_get d k m)) m"

definition bumps :: "'v \<Rightarrow> ('k \<times> ('v \<Rightarrow> 'v)) list \<Rightarrow> ('k::linorder, 'v) omap \<Rightarrow> ('k, 'v) omap" where
  "bumps d l m = fold (\<lambda>e. bump d (snd e) (fst e)) l m"

lemma omap_get_put [simp]: "omap_get d k (omap_put j v m) = (if k = j then v else omap_get d k m)"
  by (simp add: omap_get_def)

lemma omap_ok_bump [simp]: "omap_ok m \<Longrightarrow> omap_ok (bump d f k m)"
  by (simp add: bump_def)

lemma omap_ok_bumps [simp]: "omap_ok m \<Longrightarrow> omap_ok (bumps d l m)"
  by (induction l arbitrary: m) (simp_all add: bumps_def)

lemma bump_commute:
  assumes "omap_ok m" "\<And>v. f (g v) = g (f v)"
  shows "bump d f k (bump d g j m) = bump d g j (bump d f k m)"
  using assms by (intro omap_ext) (auto simp: bump_def fun_eq_iff)

lemma bumps_simps: "bumps d [] m = m" "bumps d (e # l) m = bumps d l (bump d (snd e) (fst e) m)"
  by (simp_all add: bumps_def)

lemma bump_bumps:
  assumes "omap_ok m" "\<And>e v. e \<in> set l \<Longrightarrow> f (snd e v) = snd e (f v)"
  shows "bump d f k (bumps d l m) = bumps d l (bump d f k m)"
  using assms
proof (induction l arbitrary: m)
  case (Cons e l)
  have "bump d f k (bump d (snd e) (fst e) m) = bump d (snd e) (fst e) (bump d f k m)"
    using Cons.prems by (intro bump_commute) auto
  with Cons.IH [of "bump d (snd e) (fst e) m"] Cons.prems show ?case by (simp add: bumps_simps)
qed (simp add: bumps_simps)

lemma bumps_commute:
  assumes "omap_ok m" "\<And>e e' v. e \<in> set l \<Longrightarrow> e' \<in> set l' \<Longrightarrow> snd e (snd e' v) = snd e' (snd e v)"
  shows "bumps d l (bumps d l' m) = bumps d l' (bumps d l m)"
  using assms
proof (induction l arbitrary: m)
  case (Cons e l)
  have "bump d (snd e) (fst e) (bumps d l' m) = bumps d l' (bump d (snd e) (fst e) m)"
    using Cons.prems by (intro bump_bumps) auto
  moreover have "bumps d l (bumps d l' (bump d (snd e) (fst e) m)) = bumps d l' (bumps d l (bump d (snd e) (fst e) m))"
    using Cons.prems by (intro Cons.IH) (simp, blast intro: list.set_intros)
  ultimately show ?case by (simp add: bumps_simps)
qed (simp add: bumps_simps)

section \<open>A block as lists of increments\<close>

text \<open>The entries whose key is met for the first time.\<close>

fun fresh :: "'k set \<Rightarrow> ('k \<times> 'v) list \<Rightarrow> ('k \<times> 'v) list" where
  "fresh seen [] = []"
| "fresh seen (it # l) = (if fst it \<in> seen then fresh seen l else it # fresh (insert (fst it) seen) l)"

lemma fresh_distinct: "distinct (map fst (fresh seen l)) \<and> fst ` set (fresh seen l) \<inter> seen = {}"
proof (induction l arbitrary: seen)
  case (Cons it l)
  from Cons [of seen] Cons [of "insert (fst it) seen"] show ?case by (auto simp: image_iff)
qed simp

lemma fold_count_vote:
  "fold count_vote l (m, seen) =
     (bumps ((0, 0), 0) (map (\<lambda>vt. (fst vt, add_vote (snd vt))) (fresh seen l)) m, seen \<union> fst ` set l)"
proof (induction l arbitrary: m seen)
  case (Cons vt l)
  have "count_vote vt (m, seen) = (if fst vt \<in> seen then (m, seen)
      else (bump ((0, 0), 0) (add_vote (snd vt)) (fst vt) m, insert (fst vt) seen))"
    by (simp add: count_vote_def bump_def)
  then show ?case by (simp add: Cons bumps_simps insert_absorb)
qed (simp add: bumps_simps)

lemma fold_count_support:
  "fst (fold count_support l (m, seen)) =
     bumps 0 (map (\<lambda>it. (fst it, \<lambda>n. n + 1)) (fresh seen (filter snd l))) m"
proof (induction l arbitrary: m seen)
  case (Cons it l)
  have "count_support it (m, seen) = (if \<not> snd it \<or> fst it \<in> seen then (m, seen)
      else (bump 0 (\<lambda>n. n + 1) (fst it) m, insert (fst it) seen))"
    by (simp add: count_support_def bump_def)
  then show ?case by (simp add: Cons bumps_simps)
qed (simp add: bumps_simps)

definition consultation_key :: "CStateViewCache \<Rightarrow> uint256 \<times> u64 \<Rightarrow> uint256 \<times> int" where
  "consultation_key view it =
     (case (if snd it = word_of_int VOTE_ABSTAIN then GetConsultationAnswer view (fst it) else None) of
        Some answer \<Rightarrow> (ca_parent answer, sint (snd it))
      | None \<Rightarrow> (fst it, sint (snd it)))"

definition known_consultation :: "CStateViewCache \<Rightarrow> uint256 \<Rightarrow> bool" where
  "known_consultation view h = (HaveConsultation view h \<or> HaveConsultationAnswer view h)"

lemma fold_count_consultation_vote:
  "fst (fold (count_consultation_vote view) l (m, seen)) =
     bumps 0 (map (\<lambda>it. (consultation_key view it, \<lambda>n. n + 1))
               (fresh seen (filter (\<lambda>it. known_consultation view (fst it)) l))) m"
proof (induction l arbitrary: m seen)
  case (Cons it l)
  have "count_consultation_vote view it (m, seen) =
      (if fst it \<in> seen \<or> \<not> known_consultation view (fst it) then (m, seen)
       else (bump 0 (\<lambda>n. n + 1) (consultation_key view it) m, insert (fst it) seen))"
    unfolding count_consultation_vote_def consultation_key_def known_consultation_def bump_def Let_def
    by (auto simp del: of_int_minus)
  then show ?case by (simp add: Cons bumps_simps)
qed (simp add: bumps_simps)

definition block_excluded :: "CBlockIndex \<Rightarrow> bool" where
  "block_excluded b = (nNonce b AND 1 \<noteq> 0 \<and> \<not> IsColdStakeV2 b)"

definition votes_of :: "(uint256 \<times> int) list option \<Rightarrow> (uint256 \<times> int) list" where
  "votes_of vs = (case vs of None \<Rightarrow> [] | Some l \<Rightarrow> l)"

lemma count_votes_bumps:
  "count_votes vs m seen =
     (bumps ((0, 0), 0) (map (\<lambda>vt. (fst vt, add_vote (snd vt))) (fresh seen (votes_of vs))) m,
      seen \<union> fst ` set (votes_of vs))"
  by (simp add: count_votes_def votes_of_def fold_count_vote bumps_simps split: option.split)

definition proposal_bumps :: "VoteEnv \<Rightarrow> bool \<Rightarrow> CBlockIndex \<Rightarrow> (uint256 \<times> (tally \<Rightarrow> tally)) list" where
  "proposal_bumps env fCFund b =
     (if block_excluded b \<or> \<not> fCFund then []
      else map (\<lambda>vt. (fst vt, add_vote (snd vt))) (fresh {} (votes_of (vProposalVotes env (GetBlockHash b)))))"

definition seen_proposals :: "VoteEnv \<Rightarrow> CBlockIndex \<Rightarrow> uint256 set" where
  "seen_proposals env b = fst ` set (votes_of (vProposalVotes env (GetBlockHash b)))"

definition prequest_bumps :: "VoteEnv \<Rightarrow> bool \<Rightarrow> CBlockIndex \<Rightarrow> (uint256 \<times> (tally \<Rightarrow> tally)) list" where
  "prequest_bumps env fCFund b =
     (if block_excluded b \<or> \<not> fCFund then []
      else map (\<lambda>vt. (fst vt, add_vote (snd vt)))
             (fresh (seen_proposals env b) (votes_of (vPaymentRequestVotes env (GetBlockHash b)))))"

definition support_bumps :: "VoteEnv \<Rightarrow> bool \<Rightarrow> CBlockIndex \<Rightarrow> (uint256 \<times> (int \<Rightarrow> int)) list" where
  "support_bumps env fDAO b =
     (if block_excluded b \<or> \<not> fDAO then []
      else case mapSupport env (GetBlockHash b) of
             None \<Rightarrow> []
           | Some supp \<Rightarrow> map (\<lambda>it. (fst it, \<lambda>n. n + 1)) (fresh {} (filter snd supp)))"

definition consultation_bumps ::
  "VoteEnv \<Rightarrow> CStateViewCache \<Rightarrow> bool \<Rightarrow> bool \<Rightarrow> CBlockIndex \<Rightarrow> ((uint256 \<times> int) \<times> (int \<Rightarrow> int)) list" where
  "consultation_bumps env view fCFund fDAO b =
     (if block_excluded b \<or> \<not> fDAO then []
      else case mapConsultationVotes env (GetBlockHash b) of
             None \<Rightarrow> []
           | Some cVotes \<Rightarrow>
               map (\<lambda>it. (consultation_key view it, \<lambda>n. n + 1))
                 (fresh (if fCFund then seen_proposals env b \<union>
                           fst ` set (votes_of (vPaymentRequestVotes env (GetBlockHash b))) else {})
                   (filter (\<lambda>it. known_consultation view (fst it)) cVotes)))"

lemmas bump_list_defs = proposal_bumps_def prequest_bumps_def support_bumps_def consultation_bumps_def

lemma scan_block_bumps:
  "scan_block env view fCFund fDAO b g = g\<lparr>
     mapCacheProposalsToUpdate := bumps ((0, 0), 0) (proposal_bumps env fCFund b) (mapCacheProposalsToUpdate g),
     mapCachePaymentRequestToUpdate :=
       bumps ((0, 0), 0) (prequest_bumps env fCFund b) (mapCachePaymentRequestToUpdate g),
     mapCacheSupportToUpdate := bumps 0 (support_bumps env fDAO b) (mapCacheSupportToUpdate g),
     mapCacheConsultationToUpdate :=
       bumps 0 (consultation_bumps env view fCFund fDAO b) (mapCacheConsultationToUpdate g),
     nCacheExclude := nCacheExclude g + (if block_excluded b then 1 else 0)\<rparr>"
proof (cases "block_excluded b")
  case True
  then show ?thesis by (simp add: scan_block_def bump_list_defs bumps_simps block_excluded_def)
next
  case False
  have cf: "scan_cfund env b g = (g\<lparr>
      mapCacheProposalsToUpdate := bumps ((0, 0), 0) (proposal_bumps env True b) (mapCacheProposalsToUpdate g),
      mapCachePaymentRequestToUpdate :=
        bumps ((0, 0), 0) (prequest_bumps env True b) (mapCachePaymentRequestToUpdate g)\<rparr>,
      seen_proposals env b \<union> fst ` set (votes_of (vPaymentRequestVotes env (GetBlockHash b))))"
    using False
    by (simp add: scan_cfund_def count_votes_bumps GetProposalVotes_def GetPaymentRequestVotes_def
        proposal_bumps_def prequest_bumps_def seen_proposals_def)
  have sd: "scan_dao env view b h (if fCFund then seen_proposals env b \<union>
      fst ` set (votes_of (vPaymentRequestVotes env (GetBlockHash b))) else {}) = h\<lparr>
      mapCacheSupportToUpdate := bumps 0 (support_bumps env True b) (mapCacheSupportToUpdate h),
      mapCacheConsultationToUpdate :=
        bumps 0 (consultation_bumps env view fCFund True b) (mapCacheConsultationToUpdate h)\<rparr>" for h
    using False
    by (simp add: scan_dao_def GetSupport_def GetConsultationVotes_def support_bumps_def consultation_bumps_def
        fold_count_support fold_count_consultation_vote bumps_simps Let_def split: option.split)
  have off: "proposal_bumps env False b = []" "prequest_bumps env False b = []"
    "support_bumps env False b = []" "consultation_bumps env view a False b = []" for a
    by (simp_all add: bump_list_defs)
  have "scan_block env view fCFund fDAO b g =
      (case (if fCFund then scan_cfund env b g else (g, {})) of
         (g1, seen) \<Rightarrow> if fDAO then scan_dao env view b g1 seen else g1)"
    using False by (auto simp: scan_block_def block_excluded_def)
  with False sd [of g] sd [of "fst (scan_cfund env b g)"] show ?thesis
    by (cases fCFund; cases fDAO) (auto simp: cf off bumps_simps)
qed

section \<open>The order of blocks does not matter\<close>

definition counters_ok :: "VoteCounters \<Rightarrow> bool" where
  "counters_ok g = (omap_ok (mapCacheProposalsToUpdate g) \<and> omap_ok (mapCachePaymentRequestToUpdate g) \<and>
     omap_ok (mapCacheSupportToUpdate g) \<and> omap_ok (mapCacheConsultationToUpdate g))"

lemma counters_ok_scan_block [simp]: "counters_ok g \<Longrightarrow> counters_ok (scan_block env view a c b g)"
  by (simp add: counters_ok_def scan_block_bumps)

lemma counters_ok_clear [simp]: "counters_ok (clear_counters g)"
  by (simp add: counters_ok_def clear_counters_def)

lemma add_vote_commute: "add_vote x (add_vote y t) = add_vote y (add_vote x t)"
  by (simp add: add_vote_def)

lemma bump_lists_commute:
  "e \<in> set (proposal_bumps env a b) \<Longrightarrow> e' \<in> set (proposal_bumps env a b') \<Longrightarrow> snd e (snd e' v) = snd e' (snd e v)"
  "e \<in> set (prequest_bumps env a b) \<Longrightarrow> e' \<in> set (prequest_bumps env a b') \<Longrightarrow> snd e (snd e' v) = snd e' (snd e v)"
  "s \<in> set (support_bumps env c b) \<Longrightarrow> s' \<in> set (support_bumps env c b') \<Longrightarrow> snd s (snd s' n) = snd s' (snd s n)"
  "q \<in> set (consultation_bumps env view a c b) \<Longrightarrow> q' \<in> set (consultation_bumps env view a c b') \<Longrightarrow>
     snd q (snd q' n) = snd q' (snd q n)"
  by (auto simp: bump_list_defs add_vote_commute split: if_splits option.splits)

lemma scan_block_commute:
  assumes "counters_ok g"
  shows "scan_block env view a c b (scan_block env view a c b' g) = scan_block env view a c b' (scan_block env view a c b g)"
proof -
  note ok = assms [unfolded counters_ok_def]
  have "bumps ((0, 0), 0) (proposal_bumps env a b) (bumps ((0, 0), 0) (proposal_bumps env a b') (mapCacheProposalsToUpdate g)) =
      bumps ((0, 0), 0) (proposal_bumps env a b') (bumps ((0, 0), 0) (proposal_bumps env a b) (mapCacheProposalsToUpdate g))"
    using ok bump_lists_commute(1) by (intro bumps_commute) auto
  moreover have "bumps ((0, 0), 0) (prequest_bumps env a b) (bumps ((0, 0), 0) (prequest_bumps env a b') (mapCachePaymentRequestToUpdate g)) =
      bumps ((0, 0), 0) (prequest_bumps env a b') (bumps ((0, 0), 0) (prequest_bumps env a b) (mapCachePaymentRequestToUpdate g))"
    using ok bump_lists_commute(2) by (intro bumps_commute) auto
  moreover have "bumps 0 (support_bumps env c b) (bumps 0 (support_bumps env c b') (mapCacheSupportToUpdate g)) =
      bumps 0 (support_bumps env c b') (bumps 0 (support_bumps env c b) (mapCacheSupportToUpdate g))"
    using ok bump_lists_commute(3) by (intro bumps_commute) auto
  moreover have "bumps 0 (consultation_bumps env view a c b) (bumps 0 (consultation_bumps env view a c b') (mapCacheConsultationToUpdate g)) =
      bumps 0 (consultation_bumps env view a c b') (bumps 0 (consultation_bumps env view a c b) (mapCacheConsultationToUpdate g))"
    using ok bump_lists_commute(4) by (intro bumps_commute) auto
  ultimately show ?thesis by (simp add: scan_block_bumps)
qed

lemma scan_blocks_after:
  "counters_ok g \<Longrightarrow> scan_blocks env view a c n p (scan_block env view a c b g) =
     scan_block env view a c b (scan_blocks env view a c n p g)"
  by (induction env view a c n p g rule: scan_blocks.induct) (simp_all add: scan_block_commute [of _ _ _ _ _ b])

lemma clear_counters_hash: "clear_counters g\<lparr>lastConsensusStateHash := h\<rparr> = clear_counters (g\<lparr>lastConsensusStateHash := h\<rparr>)"
  by (cases g) (simp add: clear_counters_def)

lemma scan_block_hash:
  "scan_block env view a c b (g\<lparr>lastConsensusStateHash := h\<rparr>) = (scan_block env view a c b g)\<lparr>lastConsensusStateHash := h\<rparr>"
  by (simp add: scan_block_bumps)

lemma scan_blocks_hash:
  "scan_blocks env view a c n p (g\<lparr>lastConsensusStateHash := h\<rparr>) =
     (scan_blocks env view a c n p g)\<lparr>lastConsensusStateHash := h\<rparr>"
  by (induction env view a c n p g rule: scan_blocks.induct) (simp_all add: scan_block_hash)

text \<open>
  C8. The incremental count is the full count: when \<^verbatim>\<open>VoteStep\<close> adds only the new block to counters that
  hold the scan of the cycle up to its parent, it ends with the counters a scan of the whole cycle gives.
\<close>

theorem incremental_scan:
  assumes "Suc n = nat (blocks_in_cycle len b)"
    and "g = (scan_blocks env view a c n (pprev b) (clear_counters g0))\<lparr>lastConsensusStateHash := h\<rparr>"
    and "\<not> needs_rescan env view False (blocks_in_cycle len b) g"
  shows "scan_votes env view a c False len b g = (False, snd (scan_votes env view a c True len b g))"
proof -
  let ?h = "GetConsensusStateHash env view"
  have clear: "clear_counters g = (clear_counters g0)\<lparr>lastConsensusStateHash := h'\<rparr>"
    if "lastConsensusStateHash g = h'" for h'
    using that by (simp add: clear_counters_def)
  have "snd (scan_votes env view a c False len b g) = scan_block env view a c b (g\<lparr>lastConsensusStateHash := ?h\<rparr>)"
    using assms(3) by (simp add: scan_votes_def)
  also have "\<dots> = (scan_block env view a c b (scan_blocks env view a c n (pprev b) (clear_counters g0)))
      \<lparr>lastConsensusStateHash := ?h\<rparr>"
    unfolding assms(2) by (simp add: scan_block_bumps)
  also have "scan_block env view a c b (scan_blocks env view a c n (pprev b) (clear_counters g0)) =
      scan_blocks env view a c (Suc n) (Some b) (clear_counters g0)"
    by (simp add: scan_blocks_after)
  also have "(scan_blocks env view a c (Suc n) (Some b) (clear_counters g0))\<lparr>lastConsensusStateHash := ?h\<rparr> =
      snd (scan_votes env view a c True len b g)"
    by (simp add: scan_votes_def needs_rescan_def clear [OF refl] assms(1) [symmetric] scan_blocks_hash
        del: scan_blocks.simps)
  finally show ?thesis using assms(3) by (intro prod_eqI) (simp_all add: scan_votes_def Let_def)
qed

text \<open>Two blocks of a cycle of four, the first voting yes and the second no on proposal 1.\<close>

definition sample_env :: VoteEnv where
  "sample_env = \<lparr>par = main_params, mapBlockIndex = (\<lambda>h. None),
     vProposalVotes = [10 \<mapsto> [(1, VOTE_YES)], 11 \<mapsto> [(1, VOTE_NO)]],
     vPaymentRequestVotes = (\<lambda>h. None), mapSupport = (\<lambda>h. None), mapConsultationVotes = (\<lambda>h. None),
     IsCommunityFundEnabled = (\<lambda>p. True), IsDAOEnabled = (\<lambda>p. True), hash_parameters = (\<lambda>l. 0)\<rparr>"

definition sample_block :: CBlockIndex where
  "sample_block = CBlockIndex 11 (Some (CBlockIndex 10 None 0 0 0 0 0 0)) 1 0 0 0 0 0"

definition sample_counters :: VoteCounters where
  "sample_counters = \<lparr>mapCacheProposalsToUpdate = [(1, ((1, 0), 0))], mapCachePaymentRequestToUpdate = [],
     mapCacheSupportToUpdate = [], mapCacheConsultationToUpdate = [], nCacheExclude = 0, lastConsensusStateHash = 0\<rparr>"

lemmas scan_sample_defs = sample_env_def sample_block_def sample_counters_def

theorem incremental_scan_witness:
  "scan_votes sample_env (CStateViewCache_new ViewBase) True False False 4 sample_block sample_counters =
     (False, snd (scan_votes sample_env (CStateViewCache_new ViewBase) True False True 4 sample_block sample_counters)) \<and>
   mapCacheProposalsToUpdate (snd (scan_votes sample_env (CStateViewCache_new ViewBase) True False False 4 sample_block sample_counters)) =
     [(1, ((1, 1), 0))]"
proof -
  have n: "blocks_in_cycle 4 sample_block = 2" by (simp add: blocks_in_cycle_def sample_block_def) 
  have "scan_votes sample_env (CStateViewCache_new ViewBase) True False False 4 sample_block sample_counters =
      (False, snd (scan_votes sample_env (CStateViewCache_new ViewBase) True False True 4 sample_block sample_counters))"
  proof (rule incremental_scan [where n = 1 and g0 = sample_counters and h = 0])
    show "Suc 1 = nat (blocks_in_cycle 4 sample_block)" by (simp add: n)
    show "\<not> needs_rescan sample_env (CStateViewCache_new ViewBase) False (blocks_in_cycle 4 sample_block) sample_counters"
      by (simp add: n needs_rescan_def counters_empty_def sample_counters_def GetConsensusStateHash_def sample_env_def)
    show "sample_counters = (scan_blocks sample_env (CStateViewCache_new ViewBase) True False 1 (pprev sample_block) (clear_counters sample_counters))
        \<lparr>lastConsensusStateHash := 0\<rparr>"
      by (simp add: One_nat_def scan_block_def scan_cfund_def count_votes_def count_vote_def add_vote_def omap_get_def
          clear_counters_def GetProposalVotes_def GetPaymentRequestVotes_def scan_sample_defs)
  qed
  moreover have "mapCacheProposalsToUpdate (snd (scan_votes sample_env (CStateViewCache_new ViewBase) True False True 4
      sample_block sample_counters)) = [(1, ((1, 1), 0))]"
    unfolding scan_votes_def n Let_def
    by (simp add: numeral_2_eq_2 needs_rescan_def clear_counters_def scan_block_def scan_cfund_def count_votes_def
        count_vote_def add_vote_def omap_get_def GetProposalVotes_def GetPaymentRequestVotes_def scan_sample_defs)
  ultimately show ?thesis by simp
qed

section \<open>No tally exceeds the number of blocks\<close>

definition tally_sum :: "tally \<Rightarrow> int" where
  "tally_sum t = fst (fst t) + snd (fst t) + snd t"

definition tally_nonneg :: "tally \<Rightarrow> bool" where
  "tally_nonneg t = (0 \<le> fst (fst t) \<and> 0 \<le> snd (fst t) \<and> 0 \<le> snd t)"

lemma tally_add_vote:
  "tally_sum (add_vote v t) \<le> tally_sum t + 1" "tally_nonneg t \<Longrightarrow> tally_nonneg (add_vote v t)"
  by (simp_all add: tally_sum_def tally_nonneg_def add_vote_def)

lemma get_bumps:
  assumes "distinct (map fst l)"
  shows "omap_get d k (bumps d l m) = (case map_of l k of None \<Rightarrow> omap_get d k m | Some f \<Rightarrow> f (omap_get d k m))"
  using assms
proof (induction l arbitrary: m)
  case (Cons e l)
  then have "map_of l (fst e) = None" by (simp add: map_of_eq_None_iff)
  with Cons show ?case by (auto simp: bumps_simps bump_def split: option.split)
qed (simp add: bumps_simps)

lemma distinct_bumps: "distinct (map fst (proposal_bumps env a b))" "distinct (map fst (prequest_bumps env a b))"
  "distinct (map fst (support_bumps env c b))"
  using fresh_distinct by (auto simp: bump_list_defs comp_def split: option.split)

lemma bump_functions:
  "map_of (proposal_bumps env a b) k = Some f \<Longrightarrow> \<exists>v. f = add_vote v"
  "map_of (prequest_bumps env a b) k = Some f \<Longrightarrow> \<exists>v. f = add_vote v"
  "map_of (support_bumps env c b) k = Some h \<Longrightarrow> h = (\<lambda>n. n + 1)"
  by (auto simp: bump_list_defs dest!: map_of_SomeD split: if_splits option.splits)

text \<open>
  A block adds at most one to the counter of an answer with a given vote, unless the vote is an
  abstention: abstentions on the answers of a consultation share the counter of the consultation.
\<close>

lemma get_bumps_keys:
  "omap_get 0 k (bumps 0 (map (\<lambda>it. (key it, \<lambda>n. n + 1)) l) m) =
     omap_get 0 k m + int (length (filter (\<lambda>it. key it = k) l))"
  by (induction l arbitrary: m) (auto simp: bumps_simps bump_def)

lemma consultation_key_vote:
  assumes "consultation_key view it = (x, v)" "v \<noteq> VOTE_ABSTAIN"
  shows "fst it = x"
proof -
  have "snd it \<noteq> word_of_int VOTE_ABSTAIN"
  proof
    assume "snd it = word_of_int VOTE_ABSTAIN"
    then have "sint (snd it) = VOTE_ABSTAIN" by simp
    with assms show False by (auto simp: consultation_key_def split: option.splits)
  qed
  with assms(1) show ?thesis by (simp add: consultation_key_def)
qed

lemma distinct_filter_key:
  assumes "distinct (map fst l)" "\<And>it. it \<in> set l \<Longrightarrow> P it \<Longrightarrow> fst it = x"
  shows "length (filter P l) \<le> 1"
  using assms
proof (induction l)
  case (Cons it l)
  show ?case
  proof (cases "P it")
    case True
    with Cons.prems have "filter P l = []" by (fastforce simp: filter_empty_conv image_iff)
    with True show ?thesis by simp
  qed (use Cons in simp)
qed simp

lemma consultation_bumps_once:
  assumes "v \<noteq> VOTE_ABSTAIN"
  shows "omap_get 0 (x, v) m \<le> omap_get 0 (x, v) (bumps 0 (consultation_bumps env view a c b) m)"
    and "omap_get 0 (x, v) (bumps 0 (consultation_bumps env view a c b) m) \<le> omap_get 0 (x, v) m + 1"
proof -
  have "length (filter (\<lambda>it. consultation_key view it = (x, v)) (fresh seen l)) \<le> 1" for seen l
    using consultation_key_vote [OF _ assms] fresh_distinct by (intro distinct_filter_key [where x = x]) blast+
  then show "omap_get 0 (x, v) m \<le> omap_get 0 (x, v) (bumps 0 (consultation_bumps env view a c b) m)"
    "omap_get 0 (x, v) (bumps 0 (consultation_bumps env view a c b) m) \<le> omap_get 0 (x, v) m + 1"
    by (auto simp: consultation_bumps_def get_bumps_keys bumps_simps split: option.split)
qed

definition tallies_within :: "int \<Rightarrow> VoteCounters \<Rightarrow> bool" where
  "tallies_within n g = (0 \<le> nCacheExclude g \<and>
     (\<forall>k. let t = omap_get ((0, 0), 0) k (mapCacheProposalsToUpdate g) in tally_nonneg t \<and> tally_sum t + nCacheExclude g \<le> n) \<and>
     (\<forall>k. let t = omap_get ((0, 0), 0) k (mapCachePaymentRequestToUpdate g) in tally_nonneg t \<and> tally_sum t + nCacheExclude g \<le> n) \<and>
     (\<forall>k. let s = omap_get 0 k (mapCacheSupportToUpdate g) in 0 \<le> s \<and> s + nCacheExclude g \<le> n) \<and>
     (\<forall>x v. v \<noteq> VOTE_ABSTAIN \<longrightarrow> (let q = omap_get 0 (x, v) (mapCacheConsultationToUpdate g) in 0 \<le> q \<and> q + nCacheExclude g \<le> n)))"

lemma tallies_within_clear: "tallies_within 0 (clear_counters g)"
  by (simp add: tallies_within_def clear_counters_def omap_get_def tally_sum_def tally_nonneg_def)

lemma tally_after_bumps:
  assumes "distinct (map fst l)" "\<And>f. map_of l k = Some f \<Longrightarrow> \<exists>v. f = add_vote v"
    and "tally_nonneg (omap_get ((0, 0), 0) k m)"
  shows "tally_nonneg (omap_get ((0, 0), 0) k (bumps ((0, 0), 0) l m))"
    and "tally_sum (omap_get ((0, 0), 0) k (bumps ((0, 0), 0) l m)) \<le> tally_sum (omap_get ((0, 0), 0) k m) + 1"
proof -
  have "\<exists>v. omap_get ((0, 0), 0) k (bumps ((0, 0), 0) l m) \<in>
      {omap_get ((0, 0), 0) k m, add_vote v (omap_get ((0, 0), 0) k m)}"
    using assms(2) by (cases "map_of l k") (auto simp: get_bumps [OF assms(1)])
  then show "tally_nonneg (omap_get ((0, 0), 0) k (bumps ((0, 0), 0) l m))"
    "tally_sum (omap_get ((0, 0), 0) k (bumps ((0, 0), 0) l m)) \<le> tally_sum (omap_get ((0, 0), 0) k m) + 1"
    using assms(3) by (auto simp: tally_add_vote)
qed

lemma tallies_within_scan_block:
  assumes "tallies_within n g"
  shows "tallies_within (n + 1) (scan_block env view a c b g)"
proof (cases "block_excluded b")
  case True
  then show ?thesis
    using assms by (simp add: tallies_within_def scan_block_bumps bump_list_defs bumps_simps Let_def ac_simps)
next
  case False
  have P: "tally_nonneg (omap_get ((0, 0), 0) k (bumps ((0, 0), 0) (proposal_bumps env a b) m))"
    "tally_sum (omap_get ((0, 0), 0) k (bumps ((0, 0), 0) (proposal_bumps env a b) m)) \<le> tally_sum (omap_get ((0, 0), 0) k m) + 1"
    if "tally_nonneg (omap_get ((0, 0), 0) k m)" for k m
    by (rule tally_after_bumps; use that distinct_bumps bump_functions in blast)+
  have R: "tally_nonneg (omap_get ((0, 0), 0) k (bumps ((0, 0), 0) (prequest_bumps env a b) m))"
    "tally_sum (omap_get ((0, 0), 0) k (bumps ((0, 0), 0) (prequest_bumps env a b) m)) \<le> tally_sum (omap_get ((0, 0), 0) k m) + 1"
    if "tally_nonneg (omap_get ((0, 0), 0) k m)" for k m
    by (rule tally_after_bumps; use that distinct_bumps bump_functions in blast)+
  have S: "0 \<le> omap_get 0 k (bumps 0 (support_bumps env c b) m) \<and>
      omap_get 0 k (bumps 0 (support_bumps env c b) m) \<le> omap_get 0 k m + 1" if "0 \<le> omap_get 0 k m" for k m
    using that bump_functions(3) [of env c b k] by (auto simp: get_bumps [OF distinct_bumps(3)] split: option.split)
  show ?thesis
    unfolding tallies_within_def Let_def
  proof (intro conjI allI impI)
    fix k x v
    note w = assms [unfolded tallies_within_def Let_def]
    let ?g = "scan_block env view a c b g"
    from w False show "0 \<le> nCacheExclude ?g" by (simp add: scan_block_bumps)
    from w have p: "tally_nonneg (omap_get ((0, 0), 0) k (mapCacheProposalsToUpdate g))"
      "tally_sum (omap_get ((0, 0), 0) k (mapCacheProposalsToUpdate g)) + nCacheExclude g \<le> n" by auto
    from P [OF p(1)] p(2) False
    show "tally_nonneg (omap_get ((0, 0), 0) k (mapCacheProposalsToUpdate ?g))"
      "tally_sum (omap_get ((0, 0), 0) k (mapCacheProposalsToUpdate ?g)) + nCacheExclude ?g \<le> n + 1"
      by (auto simp: scan_block_bumps)
    from w have r: "tally_nonneg (omap_get ((0, 0), 0) k (mapCachePaymentRequestToUpdate g))"
      "tally_sum (omap_get ((0, 0), 0) k (mapCachePaymentRequestToUpdate g)) + nCacheExclude g \<le> n" by auto
    from R [OF r(1)] r(2) False
    show "tally_nonneg (omap_get ((0, 0), 0) k (mapCachePaymentRequestToUpdate ?g))"
      "tally_sum (omap_get ((0, 0), 0) k (mapCachePaymentRequestToUpdate ?g)) + nCacheExclude ?g \<le> n + 1"
      by (auto simp: scan_block_bumps)
    from w have s: "0 \<le> omap_get 0 k (mapCacheSupportToUpdate g)"
      "omap_get 0 k (mapCacheSupportToUpdate g) + nCacheExclude g \<le> n" by auto
    from S [OF s(1)] s(2) False
    show "0 \<le> omap_get 0 k (mapCacheSupportToUpdate ?g)"
      "omap_get 0 k (mapCacheSupportToUpdate ?g) + nCacheExclude ?g \<le> n + 1"
      by (auto simp: scan_block_bumps)
    assume v: "v \<noteq> VOTE_ABSTAIN"
    with w have q: "0 \<le> omap_get 0 (x, v) (mapCacheConsultationToUpdate g)"
      "omap_get 0 (x, v) (mapCacheConsultationToUpdate g) + nCacheExclude g \<le> n" by auto
    from consultation_bumps_once [OF v, where x = x and m = "mapCacheConsultationToUpdate g" and env = env and view = view
      and a = a and c = c and b = b] q False
    show "0 \<le> omap_get 0 (x, v) (mapCacheConsultationToUpdate ?g)"
      "omap_get 0 (x, v) (mapCacheConsultationToUpdate ?g) + nCacheExclude ?g \<le> n + 1"
      by (auto simp: scan_block_bumps)
  qed
qed

lemma tallies_within_mono: "tallies_within n g \<Longrightarrow> n \<le> n' \<Longrightarrow> tallies_within n' g"
  unfolding tallies_within_def Let_def by (blast intro: order_trans)

lemma tallies_within_scan_blocks:
  "tallies_within m g \<Longrightarrow> tallies_within (m + int n) (scan_blocks env view a c n p g)"
proof (induction env view a c n p g arbitrary: m rule: scan_blocks.induct)
  case (3 env view a c n b g)
  from "3.IH" [OF tallies_within_scan_block [OF "3.prems"]] show ?case by (simp add: ac_simps)
qed (auto intro: tallies_within_mono)

lemma blocks_in_cycle_bounds:
  assumes "0 < len" "len < 2 ^ 31"
  shows "1 \<le> blocks_in_cycle len b" "blocks_in_cycle len b \<le> uint len"
proof -
  let ?r = "word_of_int (nHeight b) mod len"
  have r: "?r < len" using assms(1) by (simp add: word_mod_less_divisor)
  have l: "uint len < 2 ^ 31" using assms(2) by (simp add: word_less_def)
  have "uint (?r + 1) = uint ?r + 1"
    using r l by (subst uint_add_lem [THEN iffD1]) (auto simp: word_less_def)
  then have u: "1 \<le> uint (?r + 1)" "uint (?r + 1) \<le> uint len"
    using r by (auto simp: word_less_def)
  have "uint (ucast (?r + 1) :: u32) = uint (?r + 1)"
    using u l by (simp add: unsigned_ucast_eq take_bit_int_eq_self)
  moreover have "sint (ucast (?r + 1) :: u32) = uint (ucast (?r + 1) :: u32)"
    using u l calculation by (simp add: sint_uint signed_take_bit_int_eq_self)
  ultimately show "1 \<le> blocks_in_cycle len b" "blocks_in_cycle len b \<le> uint len"
    using u by (simp_all add: blocks_in_cycle_def)
qed

text \<open>
  C9. A block votes at most once on an item. Whenever the scan goes over the whole cycle of \<open>len\<close> blocks
  (C8 carries this to the incremental scan), the yes, no and abstaining votes of a proposal or of a payment
  request together with the excluded blocks, the support of a consultation or answer together with the
  excluded blocks, and the votes of one value other than an abstention on a consultation or answer
  together with the excluded blocks, are each at most \<open>len\<close>. Abstentions on consultation answers are
  left out: those on several answers add up in the counter of their consultation.
\<close>

theorem tally_bound:
  assumes "0 < len" "len < 2 ^ 31" "fst (scan_votes env view a c fUndo len b g)"
  shows "let g' = snd (scan_votes env view a c fUndo len b g);
             t = omap_get ((0, 0), 0) k (mapCacheProposalsToUpdate g');
             t' = omap_get ((0, 0), 0) k (mapCachePaymentRequestToUpdate g');
             s = omap_get 0 k (mapCacheSupportToUpdate g');
             q = omap_get 0 (k, vote) (mapCacheConsultationToUpdate g')
         in tally_nonneg t \<and> tally_sum t + nCacheExclude g' \<le> uint len \<and>
            tally_nonneg t' \<and> tally_sum t' + nCacheExclude g' \<le> uint len \<and>
            0 \<le> s \<and> s + nCacheExclude g' \<le> uint len \<and>
            (vote \<noteq> VOTE_ABSTAIN \<longrightarrow> 0 \<le> q \<and> q + nCacheExclude g' \<le> uint len)"
proof -
  let ?g = "snd (scan_votes env view a c fUndo len b g)"
  have g: "?g = scan_blocks env view a c (nat (blocks_in_cycle len b)) (Some b)
      (clear_counters (g\<lparr>lastConsensusStateHash := GetConsensusStateHash env view\<rparr>))"
    using assms(3) unfolding scan_votes_def Let_def fst_conv by (simp only: if_True snd_conv clear_counters_hash)
  have "tallies_within (0 + int (nat (blocks_in_cycle len b))) ?g"
    unfolding g by (intro tallies_within_scan_blocks tallies_within_clear)
  moreover have "0 + int (nat (blocks_in_cycle len b)) \<le> uint len"
    using blocks_in_cycle_bounds [OF assms(1,2), of b] by linarith
  ultimately have "tallies_within (uint len) ?g" by (rule tallies_within_mono)
  then show ?thesis unfolding tallies_within_def Let_def by blast
qed

text \<open>The same two blocks, where the second also votes 7 on consultation 2.\<close>

definition sample_poll_env :: VoteEnv where
  "sample_poll_env = sample_env\<lparr>mapConsultationVotes := [11 \<mapsto> [(2, 7)]]\<rparr>"

definition sample_poll_view :: CStateViewCache where
  "sample_poll_view = (CStateViewCache_new ViewBase)\<lparr>cacheConsultations := [(2, CConsultation_new\<lparr>c_hash := 2\<rparr>)]\<rparr>"

lemma sample_poll_scan:
  "mapCacheConsultationToUpdate (snd (scan_votes sample_poll_env sample_poll_view True True True 4 sample_block sample_counters)) =
     [((2, 7), 1)]"
proof -
  have n: "blocks_in_cycle 4 sample_block = 2" by (simp add: blocks_in_cycle_def sample_block_def)
  have two: "nat 2 = Suc (Suc 0)" by simp
  have "HaveConsultation sample_poll_view 2"
    by (simp add: HaveConsultation_iff GetConsultation_lookup lookup_entry_def visible_def sample_poll_view_def CConsultation_IsNull_def)
  then show ?thesis
    unfolding scan_votes_def n two Let_def
    by (simp add: needs_rescan_def clear_counters_def scan_block_def scan_cfund_def scan_dao_def
        count_votes_def count_vote_def count_consultation_vote_def add_vote_def omap_get_def GetProposalVotes_def
        GetPaymentRequestVotes_def GetSupport_def GetConsultationVotes_def sample_poll_env_def scan_sample_defs)
qed

theorem tally_bound_witness:
  "tally_sum (omap_get ((0, 0), 0) 1 (mapCacheProposalsToUpdate
     (snd (scan_votes sample_poll_env sample_poll_view True True True 4 sample_block sample_counters)))) +
   nCacheExclude (snd (scan_votes sample_poll_env sample_poll_view True True True 4 sample_block sample_counters)) \<le> 4 \<and>
   1 + nCacheExclude (snd (scan_votes sample_poll_env sample_poll_view True True True 4 sample_block sample_counters)) \<le> 4"
proof -
  have len: "(0::u64) < 4" "(4::u64) < 2 ^ 31" "uint (4::u64) = 4" by simp_all
  have whole: "fst (scan_votes sample_poll_env sample_poll_view True True True 4 sample_block sample_counters)"
    by (simp add: scan_votes_def needs_rescan_def Let_def)
  from tally_bound [OF len(1,2) whole, of 1 7] tally_bound [OF len(1,2) whole, of 2 7] len(3)
  show ?thesis unfolding Let_def sample_poll_scan by (simp add: omap_get_def)
qed

end
