(* ===== verification/FundLedger.thy ===== *)
theory FundLedger
  imports DaoRules
begin

text \<open>
  What \<^verbatim>\<open>VoteStep\<close> promises about the community fund, without its loops and caches: a ledger of the
  proposals, the payment requests, the coins in the fund and the coins locked for accepted proposals,
  and the steps a connected block may take on it as an inductive relation. An item changes state at most
  once per block. Rule induction gives the invariants: the locked coins are what the accepted
  proposals have left to claim, no proposal is overspent, and coins leave the fund through
  accepted payment requests only.
\<close>

section \<open>The ledger\<close>

record Ledger =
  proposals :: "uint256 \<rightharpoonup> CProposal"
  requests :: "uint256 \<rightharpoonup> CPaymentRequest"
  fund_supply :: CAmount
  fund_locked :: CAmount

definition available :: "BlockMap \<Rightarrow> Ledger \<Rightarrow> CProposal \<Rightarrow> CAmount" where
  "available mbi L p =
     p_nAmount p - (\<Sum>k \<in> dom (requests L). request_claim mbi False (p_hash p) (the (requests L k)))"

text \<open>A proposal whose money is set aside.\<close>

definition funded :: "BlockMap \<Rightarrow> CProposal \<Rightarrow> bool" where
  "funded mbi p = (CProposal_GetLastState mbi p \<in> {ACCEPTED, PENDING_VOTING_PREQ})"

definition commitment :: "BlockMap \<Rightarrow> Ledger \<Rightarrow> CProposal \<Rightarrow> CAmount" where
  "commitment mbi L p = (if funded mbi p \<and> \<not> CProposal_IsSuper p then available mbi L p else 0)"

definition committed :: "BlockMap \<Rightarrow> Ledger \<Rightarrow> CAmount" where
  "committed mbi L = (\<Sum>k \<in> dom (proposals L). commitment mbi L (the (proposals L k)))"

definition proposal_won :: "CProposal \<Rightarrow> bool" where
  "proposal_won p = (CProposal_TotalVotes p < 2 * p_nVotesYes p)"

definition proposal_lost :: "CProposal \<Rightarrow> bool" where
  "proposal_lost p = (CProposal_TotalVotes p < 2 * p_nVotesNo p)"

definition request_won :: "CPaymentRequest \<Rightarrow> bool" where
  "request_won r = (CPaymentRequest_TotalVotes r < 2 * pr_nVotesYes r)"

definition request_lost :: "CPaymentRequest \<Rightarrow> bool" where
  "request_lost r = (CPaymentRequest_TotalVotes r < 2 * pr_nVotesNo r)"

definition proposal_tallied :: "CProposal \<Rightarrow> bool" where
  "proposal_tallied p = (0 \<le> p_nVotesYes p \<and> 0 \<le> p_nVotesNo p \<and> 0 \<le> p_nVotesAbs p)"

definition request_tallied :: "CPaymentRequest \<Rightarrow> bool" where
  "request_tallied r = (0 \<le> pr_nVotesYes r \<and> 0 \<le> pr_nVotesNo r \<and> 0 \<le> pr_nVotesAbs r)"

lemma not_won_and_lost:
  "proposal_tallied p \<Longrightarrow> proposal_won p \<Longrightarrow> \<not> proposal_lost p"
  "request_tallied r \<Longrightarrow> request_won r \<Longrightarrow> \<not> request_lost r"
  by (auto simp: proposal_tallied_def proposal_won_def proposal_lost_def CProposal_TotalVotes_def
      request_tallied_def request_won_def request_lost_def CPaymentRequest_TotalVotes_def split: if_splits)

section \<open>The steps\<close>

text \<open>A change of the counters only; the votes change only while the item can be voted.\<close>

definition recount_proposal :: "BlockMap \<Rightarrow> CProposal \<Rightarrow> CProposal \<Rightarrow> bool" where
  "recount_proposal mbi p p' =
     (p_nAmount p' = p_nAmount p \<and> p_nFee p' = p_nFee p \<and> p_ownerAddress p' = p_ownerAddress p \<and>
      p_paymentAddress p' = p_paymentAddress p \<and> p_nDeadline p' = p_nDeadline p \<and> p_mapState p' = p_mapState p \<and>
      p_nExclude p' = p_nExclude p \<and> p_strDZeel p' = p_strDZeel p \<and> p_hash p' = p_hash p \<and>
      p_txblockhash p' = p_txblockhash p \<and> p_nVersion p' = p_nVersion p \<and>
      (CProposal_GetLastState mbi p = NIL \<or>
       (p_nVotesYes p' = p_nVotesYes p \<and> p_nVotesNo p' = p_nVotesNo p \<and> p_nVotesAbs p' = p_nVotesAbs p)) \<and>
      proposal_tallied p')"

definition recount_request :: "BlockMap \<Rightarrow> CPaymentRequest \<Rightarrow> CPaymentRequest \<Rightarrow> bool" where
  "recount_request mbi r r' =
     (pr_nAmount r' = pr_nAmount r \<and> pr_mapState r' = pr_mapState r \<and> pr_hash r' = pr_hash r \<and>
      pr_proposalhash r' = pr_proposalhash r \<and> pr_txblockhash r' = pr_txblockhash r \<and>
      pr_nExclude r' = pr_nExclude r \<and> pr_strDZeel r' = pr_strDZeel r \<and> pr_nVersion r' = pr_nVersion r \<and>
      (CPaymentRequest_GetLastState mbi r = NIL \<or>
       (pr_nVotesYes r' = pr_nVotesYes r \<and> pr_nVotesNo r' = pr_nVotesNo r \<and> pr_nVotesAbs r' = pr_nVotesAbs r)) \<and>
      request_tallied r')"

text \<open>The item has not changed state at this block, which is above all blocks of its history.\<close>

definition unmoved :: "BlockMap \<Rightarrow> CBlockIndex \<Rightarrow> StateMap \<Rightarrow> bool" where
  "unmoved mbi b m = (omap_ok m \<and> above_history mbi b m)"

text \<open>
  A request the coinbase of this very block pays: \<^verbatim>\<open>ConnectBlock\<close> has marked it \<^verbatim>\<open>PAID\<close> at the block before
  \<^verbatim>\<open>VoteStep\<close> sees it.
\<close>

definition paid_now :: "BlockMap \<Rightarrow> CBlockIndex \<Rightarrow> CPaymentRequest \<Rightarrow> bool" where
  "paid_now mbi b r = (CPaymentRequest_GetLastState mbi r = PAID \<and>
     map_of (pr_mapState r) (GetBlockHash b) = Some PAID \<and> request_won r)"

text \<open>The items as a block finds them: not moved at it, a paid request excepted.\<close>

definition before_moves :: "BlockMap \<Rightarrow> CBlockIndex \<Rightarrow> Ledger \<Rightarrow> bool" where
  "before_moves mbi b L = (
     (\<forall>k p. proposals L k = Some p \<longrightarrow> unmoved mbi b (p_mapState p)) \<and>
     (\<forall>k r. requests L k = Some r \<longrightarrow> unmoved mbi b (pr_mapState r) \<or> paid_now mbi b r))"

text \<open>\<open>b\<close> is the connected block and \<open>ends\<close> tells whether it ends a voting cycle.\<close>

inductive fund_step :: "BlockMap \<Rightarrow> CBlockIndex \<Rightarrow> bool \<Rightarrow> Ledger \<Rightarrow> Ledger \<Rightarrow> bool"
  for mbi b ends where
  recount_p: "fund_step mbi b ends L (L\<lparr>proposals := (proposals L)(k \<mapsto> p')\<rparr>)"
    if "proposals L k = Some p" "recount_proposal mbi p p'"
| recount_r: "fund_step mbi b ends L (L\<lparr>requests := (requests L)(k \<mapsto> r')\<rparr>)"
    if "requests L k = Some r" "recount_request mbi r r'"
| expire_r: "fund_step mbi b ends L (L\<lparr>requests := (requests L)(k \<mapsto> CPaymentRequest_SetState b EXPIRED r)\<rparr>)"
    if "ends" "requests L k = Some r" "unmoved mbi b (pr_mapState r)"
      "CPaymentRequest_GetLastState mbi r \<notin> {EXPIRED, ACCEPTED, REJECTED, PAID}"
| reject_r: "fund_step mbi b ends L (L\<lparr>requests := (requests L)(k \<mapsto> CPaymentRequest_SetState b REJECTED r)\<rparr>)"
    if "ends" "requests L k = Some r" "unmoved mbi b (pr_mapState r)"
      "CPaymentRequest_GetLastState mbi r \<noteq> REJECTED" "request_lost r"
| accept_r: "fund_step mbi b ends L
      (L\<lparr>requests := (requests L)(k \<mapsto> CPaymentRequest_SetState b ACCEPTED r),
         fund_locked := (if CProposal_IsSuper p then fund_locked L else fund_locked L - pr_nAmount r)\<rparr>)"
    if "ends" "requests L k = Some r" "unmoved mbi b (pr_mapState r)"
      "CPaymentRequest_GetLastState mbi r = NIL" "request_won r"
      "proposals L (pr_proposalhash r) = Some p" "funded mbi p"
      "pr_nAmount r \<le> available mbi L p" "CProposal_IsSuper p \<or> pr_nAmount r \<le> fund_locked L"
| accept_p: "fund_step mbi b ends L
      (L\<lparr>proposals := (proposals L)(k \<mapsto> CProposal_SetState b ACCEPTED p),
         fund_supply := (if CProposal_IsSuper p then fund_supply L else fund_supply L - available mbi L p),
         fund_locked := (if CProposal_IsSuper p then fund_locked L else fund_locked L + available mbi L p)\<rparr>)"
    if "ends" "proposals L k = Some p" "unmoved mbi b (p_mapState p)"
      "CProposal_GetLastState mbi p \<in> {NIL, PENDING_FUNDS}" "proposal_won p"
      "CProposal_IsSuper p \<or> available mbi L p \<le> fund_supply L"
| wait_p: "fund_step mbi b ends L (L\<lparr>proposals := (proposals L)(k \<mapsto> CProposal_SetState b PENDING_FUNDS p)\<rparr>)"
    if "ends" "proposals L k = Some p" "unmoved mbi b (p_mapState p)"
      "CProposal_GetLastState mbi p = NIL" "proposal_won p" "\<not> CProposal_IsSuper p" "fund_supply L < available mbi L p"
| reject_p: "fund_step mbi b ends L (L\<lparr>proposals := (proposals L)(k \<mapsto> CProposal_SetState b REJECTED p)\<rparr>)"
    if "ends" "proposals L k = Some p" "unmoved mbi b (p_mapState p)"
      "CProposal_GetLastState mbi p \<noteq> REJECTED" "proposal_lost p"
| hold_p: "fund_step mbi b ends L (L\<lparr>proposals := (proposals L)(k \<mapsto> CProposal_SetState b PENDING_VOTING_PREQ p)\<rparr>)"
    if "ends" "proposals L k = Some p" "unmoved mbi b (p_mapState p)" "funded mbi p"
| release_p: "fund_step mbi b ends L
      (L\<lparr>proposals := (proposals L)(k \<mapsto> CProposal_SetState b ACCEPTED_EXPIRED p),
         fund_supply := (if CProposal_IsSuper p then fund_supply L else fund_supply L + available mbi L p),
         fund_locked := (if CProposal_IsSuper p then fund_locked L else fund_locked L - available mbi L p)\<rparr>)"
    if "ends" "proposals L k = Some p" "unmoved mbi b (p_mapState p)" "funded mbi p"
| expire_p: "fund_step mbi b ends L (L\<lparr>proposals := (proposals L)(k \<mapsto> CProposal_SetState b EXPIRED p)\<rparr>)"
    if "ends" "proposals L k = Some p" "unmoved mbi b (p_mapState p)"
      "CProposal_GetLastState mbi p \<notin> {ACCEPTED, PENDING_VOTING_PREQ, EXPIRED, ACCEPTED_EXPIRED, REJECTED}"

abbreviation fund_steps :: "BlockMap \<Rightarrow> CBlockIndex \<Rightarrow> bool \<Rightarrow> Ledger \<Rightarrow> Ledger \<Rightarrow> bool" where
  "fund_steps mbi b ends \<equiv> (fund_step mbi b ends)\<^sup>*\<^sup>*"

section \<open>What a single change does to the sums\<close>

lemma state_after_move [simp]:
  "unmoved mbi b (p_mapState p) \<Longrightarrow> CProposal_GetLastState mbi (CProposal_SetState b st p) = st"
  "unmoved mbi b (pr_mapState r) \<Longrightarrow> CPaymentRequest_GetLastState mbi (CPaymentRequest_SetState b st r) = st"
  by (auto simp: unmoved_def intro: itemP.GetLastState_SetState itemR.GetLastState_SetState)

lemma SetState_fields [simp]:
  "p_nAmount (CProposal_SetState b st p) = p_nAmount p" "p_hash (CProposal_SetState b st p) = p_hash p"
  "CProposal_IsSuper (CProposal_SetState b st p) = CProposal_IsSuper p"
  "proposal_won (CProposal_SetState b st p) = proposal_won p"
  "proposal_tallied (CProposal_SetState b st p) = proposal_tallied p"
  "pr_nAmount (CPaymentRequest_SetState b st r) = pr_nAmount r"
  "pr_hash (CPaymentRequest_SetState b st r) = pr_hash r"
  "pr_proposalhash (CPaymentRequest_SetState b st r) = pr_proposalhash r"
  "request_won (CPaymentRequest_SetState b st r) = request_won r"
  "request_tallied (CPaymentRequest_SetState b st r) = request_tallied r"
  by (simp_all add: CProposal_SetState_def CPaymentRequest_SetState_def CProposal_IsSuper_def proposal_won_def
      proposal_tallied_def request_won_def request_tallied_def CProposal_TotalVotes_def CPaymentRequest_TotalVotes_def)

lemma available_frame [simp]:
  "available mbi (L\<lparr>proposals := ps\<rparr>) p = available mbi L p"
  "available mbi (L\<lparr>fund_supply := s\<rparr>) p = available mbi L p" "available mbi (L\<lparr>fund_locked := s\<rparr>) p = available mbi L p"
  "available mbi L (CProposal_SetState b st p) = available mbi L p"
  by (simp_all add: available_def)

lemma commitment_frame [simp]:
  "commitment mbi (L\<lparr>proposals := ps\<rparr>) p = commitment mbi L p"
  "commitment mbi (L\<lparr>fund_supply := s\<rparr>) p = commitment mbi L p" "commitment mbi (L\<lparr>fund_locked := s\<rparr>) p = commitment mbi L p"
  by (simp_all add: commitment_def)

lemma committed_frame [simp]:
  "committed mbi (L\<lparr>fund_supply := s\<rparr>) = committed mbi L" "committed mbi (L\<lparr>fund_locked := s\<rparr>) = committed mbi L"
  by (simp_all add: committed_def)

lemma sum_map_update:
  fixes f :: "'v \<Rightarrow> int"
  assumes "finite (dom m)" "m k = Some v"
  shows "(\<Sum>x \<in> dom (m(k \<mapsto> v')). f (the ((m(k \<mapsto> v')) x))) = (\<Sum>x \<in> dom m. f (the (m x))) - f v + f v'"
proof -
  have k: "k \<in> dom m" using assms(2) by blast
  have "(\<Sum>x \<in> dom (m(k \<mapsto> v')). f (the ((m(k \<mapsto> v')) x))) = f v' + (\<Sum>x \<in> dom m - {k}. f (the ((m(k \<mapsto> v')) x)))"
    using k assms(1) by (simp add: insert_absorb sum.remove)
  also have "(\<Sum>x \<in> dom m - {k}. f (the ((m(k \<mapsto> v')) x))) = (\<Sum>x \<in> dom m - {k}. f (the (m x)))"
    by (rule sum.cong) auto
  finally have "(\<Sum>x \<in> dom (m(k \<mapsto> v')). f (the ((m(k \<mapsto> v')) x))) = f v' + (\<Sum>x \<in> dom m - {k}. f (the (m x)))" .
  moreover have "(\<Sum>x \<in> dom m. f (the (m x))) = f v + (\<Sum>x \<in> dom m - {k}. f (the (m x)))"
    using k assms by (simp add: sum.remove [of _ k])
  ultimately show ?thesis by linarith
qed

lemma available_request:
  assumes "finite (dom (requests L))" "requests L k = Some r"
  shows "available mbi (L\<lparr>requests := (requests L)(k \<mapsto> r')\<rparr>) p =
    available mbi L p + request_claim mbi False (p_hash p) r - request_claim mbi False (p_hash p) r'"
  using sum_map_update [OF assms, of "request_claim mbi False (p_hash p)" r'] by (simp add: available_def)

lemma committed_proposal:
  assumes "finite (dom (proposals L))" "proposals L k = Some p"
  shows "committed mbi (L\<lparr>proposals := (proposals L)(k \<mapsto> p')\<rparr>) = committed mbi L - commitment mbi L p + commitment mbi L p'"
  using sum_map_update [OF assms, of "commitment mbi L" p'] by (simp add: committed_def)

section \<open>The invariant\<close>

definition proposal_ok :: "BlockMap \<Rightarrow> Ledger \<Rightarrow> uint256 \<Rightarrow> CProposal \<Rightarrow> bool" where
  "proposal_ok mbi L k p = (p_hash p = k \<and> proposal_tallied p \<and> (funded mbi p \<longrightarrow> proposal_won p) \<and> 0 \<le> available mbi L p)"

definition request_ok :: "BlockMap \<Rightarrow> CPaymentRequest \<Rightarrow> bool" where
  "request_ok mbi r = (0 \<le> pr_nAmount r \<and> request_tallied r \<and>
     (counts_against False (CPaymentRequest_GetLastState mbi r) \<longrightarrow> request_won r))"

definition fund_ok :: "BlockMap \<Rightarrow> Ledger \<Rightarrow> bool" where
  "fund_ok mbi L = (finite (dom (proposals L)) \<and> finite (dom (requests L)) \<and>
     (\<forall>k p. proposals L k = Some p \<longrightarrow> proposal_ok mbi L k p) \<and>
     (\<forall>k r. requests L k = Some r \<longrightarrow> request_ok mbi r) \<and>
     0 \<le> fund_supply L \<and> fund_locked L = committed mbi L)"

lemma proposal_ok_frame [simp]:
  "proposal_ok mbi (L\<lparr>proposals := ps\<rparr>) = proposal_ok mbi L"
  "proposal_ok mbi (L\<lparr>fund_supply := s\<rparr>) = proposal_ok mbi L" "proposal_ok mbi (L\<lparr>fund_locked := s\<rparr>) = proposal_ok mbi L"
  by (simp_all add: proposal_ok_def fun_eq_iff)

text \<open>A changed proposal: the locked coins follow its commitment.\<close>

lemma fund_ok_proposal:
  assumes "fund_ok mbi L" "proposals L k = Some p" "proposal_ok mbi L k p'" "0 \<le> s"
    and "l = fund_locked L - commitment mbi L p + commitment mbi L p'"
  shows "fund_ok mbi (L\<lparr>proposals := (proposals L)(k \<mapsto> p'), fund_supply := s, fund_locked := l\<rparr>)"
  using assms committed_proposal [OF _ assms(2), of mbi p'] by (auto simp: fund_ok_def)

lemma fund_ok_proposal_same:
  assumes "fund_ok mbi L" "proposals L k = Some p" "proposal_ok mbi L k p'" "commitment mbi L p' = commitment mbi L p"
  shows "fund_ok mbi (L\<lparr>proposals := (proposals L)(k \<mapsto> p')\<rparr>)"
  using assms committed_proposal [OF _ assms(2), of mbi p'] by (auto simp: fund_ok_def)

text \<open>A changed request that claims what it claimed.\<close>

lemma committed_requests:
  assumes "\<And>k p. proposals L k = Some p \<Longrightarrow> available mbi L' p = available mbi L p" "proposals L' = proposals L"
  shows "committed mbi L' = committed mbi L"
  using assms by (auto simp: committed_def commitment_def intro!: sum.cong)

lemma fund_ok_request:
  assumes "fund_ok mbi L" "requests L k = Some r" "request_ok mbi r'"
    and "\<And>h. request_claim mbi False h r' = request_claim mbi False h r"
  shows "fund_ok mbi (L\<lparr>requests := (requests L)(k \<mapsto> r')\<rparr>)"
proof -
  have av: "available mbi (L\<lparr>requests := (requests L)(k \<mapsto> r')\<rparr>) p = available mbi L p" for p
    using assms(1,4) available_request [OF _ assms(2)] by (simp add: fund_ok_def)
  then have "committed mbi (L\<lparr>requests := (requests L)(k \<mapsto> r')\<rparr>) = committed mbi L"
    by (intro committed_requests) simp_all
  with assms(1,3) av show ?thesis by (auto simp: fund_ok_def proposal_ok_def)
qed

text \<open>An accepted request: its proposal has that much less, and that much less is locked.\<close>

lemma fund_ok_grant:
  assumes ok: "fund_ok mbi L" and r: "requests L k = Some r" "request_ok mbi r'"
    and claim: "\<And>h. request_claim mbi False h r' = request_claim mbi False h r + (if h = hp then a else 0)"
    and p: "proposals L hp = Some p" "funded mbi p" "a \<le> available mbi L p"
  shows "fund_ok mbi (L\<lparr>requests := (requests L)(k \<mapsto> r'),
    fund_locked := (if CProposal_IsSuper p then fund_locked L else fund_locked L - a)\<rparr>)"
proof -
  let ?L = "L\<lparr>requests := (requests L)(k \<mapsto> r')\<rparr>"
  have av: "available mbi ?L q = available mbi L q - (if p_hash q = hp then a else 0)" for q
    using ok claim available_request [OF _ r(1), of mbi r' q] by (simp add: fund_ok_def)
  have key: "p_hash q = x" if "proposals L x = Some q" for x q
    using ok that by (auto simp: fund_ok_def proposal_ok_def)
  have fin: "finite (dom (proposals L))" "hp \<in> dom (proposals L)" using ok p(1) by (auto simp: fund_ok_def)
  let ?c = "\<lambda>L x. commitment mbi L (the (proposals L x))"
  have "committed mbi ?L = ?c ?L hp + (\<Sum>x \<in> dom (proposals L) - {hp}. ?c ?L x)"
    using fin by (simp add: committed_def sum.remove [of _ hp])
  also have "(\<Sum>x \<in> dom (proposals L) - {hp}. ?c ?L x) = (\<Sum>x \<in> dom (proposals L) - {hp}. ?c L x)"
    by (rule sum.cong) (auto simp: commitment_def av key)
  also have "?c ?L hp = ?c L hp - (if CProposal_IsSuper p then 0 else a)"
    using p key [OF p(1)] by (simp add: commitment_def av)
  also have "\<dots> + (\<Sum>x \<in> dom (proposals L) - {hp}. ?c L x) = committed mbi L - (if CProposal_IsSuper p then 0 else a)"
    using fin by (simp add: committed_def sum.remove [of _ hp])
  finally have "committed mbi ?L = committed mbi L - (if CProposal_IsSuper p then 0 else a)" .
  moreover have "proposal_ok mbi ?L x q" if "proposals L x = Some q" for x q
    using ok that p key [OF that] by (auto simp: fund_ok_def proposal_ok_def av)
  ultimately show ?thesis using ok r(2) by (auto simp: fund_ok_def)
qed

lemma recountD:
  assumes "recount_proposal mbi p p'"
  shows "CProposal_GetLastState mbi p' = CProposal_GetLastState mbi p" "available mbi L p' = available mbi L p"
    "CProposal_IsSuper p' = CProposal_IsSuper p" "p_hash p' = p_hash p" "proposal_tallied p'"
    "CProposal_GetLastState mbi p \<noteq> NIL \<Longrightarrow> proposal_won p' = proposal_won p"
  using assms by (auto simp: recount_proposal_def CProposal_GetLastState_def available_def CProposal_IsSuper_def
      proposal_won_def CProposal_TotalVotes_def)

lemma recountD_r:
  assumes "recount_request mbi r r'"
  shows "CPaymentRequest_GetLastState mbi r' = CPaymentRequest_GetLastState mbi r"
    "request_claim mbi b h r' = request_claim mbi b h r" "pr_nAmount r' = pr_nAmount r" "request_tallied r'"
    "CPaymentRequest_GetLastState mbi r \<noteq> NIL \<Longrightarrow> request_won r' = request_won r"
  using assms by (auto simp: recount_request_def CPaymentRequest_GetLastState_def request_claim_def
      request_won_def CPaymentRequest_TotalVotes_def)

lemma fund_ok_step:
  assumes "fund_step mbi b ends L L'" "fund_ok mbi L"
  shows "fund_ok mbi L'"
proof -
  have P: "proposal_ok mbi L k p" if "proposals L k = Some p" for k p
    using assms(2) that by (simp add: fund_ok_def)
  have R: "request_ok mbi r" if "requests L k = Some r" for k r
    using assms(2) that by (auto simp: fund_ok_def)
  have supply0: "0 \<le> fund_supply L" using assms(2) by (simp add: fund_ok_def)
  note move = fund_ok_proposal [OF assms(2)]
  note defs = proposal_ok_def request_ok_def commitment_def funded_def counts_against_def request_claim_def
  from assms(1) show ?thesis
  proof cases
    case (recount_p k p p')
    then show ?thesis using P [OF recount_p(2)] recountD [OF recount_p(3)]
      by (auto intro!: fund_ok_proposal_same [OF assms(2)] simp: defs)
  next
    case (recount_r k r r')
    then show ?thesis using R [OF recount_r(2)] recountD_r [OF recount_r(3)]
      by (auto intro!: fund_ok_request [OF assms(2)] simp: request_ok_def counts_against_def)
  next
    case (expire_r k r)
    then show ?thesis using R [OF expire_r(3)] by (auto intro!: fund_ok_request [OF assms(2)] simp: defs)
  next
    case (reject_r k r)
    then show ?thesis using R [OF reject_r(3)] not_won_and_lost(2) [of r]
      by (auto intro!: fund_ok_request [OF assms(2)] simp: defs)
  next
    case (accept_r k r p)
    show ?thesis unfolding accept_r(1)
      using R [OF accept_r(3)] accept_r by (intro fund_ok_grant [OF assms(2) accept_r(3)]) (auto simp: defs)
  next
    case (accept_p k p)
    show ?thesis unfolding accept_p(1)
      using P [OF accept_p(3)] supply0 accept_p by (intro move [OF accept_p(3)]) (auto simp: defs)
  next
    case (wait_p k p)
    then show ?thesis using P [OF wait_p(3)] by (auto intro!: fund_ok_proposal_same [OF assms(2)] simp: defs)
  next
    case (reject_p k p)
    then show ?thesis using P [OF reject_p(3)] not_won_and_lost(1) [of p]
      by (auto intro!: fund_ok_proposal_same [OF assms(2)] simp: defs)
  next
    case (hold_p k p)
    then show ?thesis using P [OF hold_p(3)] by (auto intro!: fund_ok_proposal_same [OF assms(2)] simp: defs)
  next
    case (release_p k p)
    show ?thesis unfolding release_p(1)
      using P [OF release_p(3)] supply0 release_p by (intro move [OF release_p(3)]) (auto simp: defs)
  next
    case (expire_p k p)
    then show ?thesis using P [OF expire_p(3)] by (auto intro!: fund_ok_proposal_same [OF assms(2)] simp: defs)
  qed
qed

lemma fund_ok_steps: "fund_steps mbi b ends L L' \<Longrightarrow> fund_ok mbi L \<Longrightarrow> fund_ok mbi L'"
  by (induction rule: rtranclp_induct) (auto intro: fund_ok_step)

lemma locked_nonneg: "fund_ok mbi L \<Longrightarrow> 0 \<le> fund_locked L"
  by (auto simp: fund_ok_def committed_def commitment_def proposal_ok_def intro!: sum_nonneg)

section \<open>Legal moves\<close>

definition proposal_move :: "flags \<Rightarrow> flags \<Rightarrow> bool" where
  "proposal_move old st =
     ((st = ACCEPTED \<and> old \<in> {NIL, PENDING_FUNDS}) \<or> (st = PENDING_FUNDS \<and> old = NIL) \<or>
      (st = PENDING_VOTING_PREQ \<and> old \<in> {ACCEPTED, PENDING_VOTING_PREQ}) \<or>
      (st = ACCEPTED_EXPIRED \<and> old \<in> {ACCEPTED, PENDING_VOTING_PREQ}) \<or>
      (st = REJECTED \<and> old \<notin> {REJECTED, ACCEPTED, PENDING_VOTING_PREQ}) \<or>
      (st = EXPIRED \<and> old \<notin> {ACCEPTED, PENDING_VOTING_PREQ, EXPIRED, ACCEPTED_EXPIRED, REJECTED}))"

definition request_move :: "flags \<Rightarrow> flags \<Rightarrow> bool" where
  "request_move old st =
     ((st = ACCEPTED \<and> old = NIL) \<or> (st = REJECTED \<and> old \<notin> {REJECTED, ACCEPTED, PAID}) \<or>
      (st = EXPIRED \<and> old \<notin> {EXPIRED, ACCEPTED, REJECTED, PAID}))"

text \<open>A history after the block: as before, or with one legal move at the block.\<close>

definition moved :: "(flags \<Rightarrow> flags \<Rightarrow> bool) \<Rightarrow> BlockMap \<Rightarrow> CBlockIndex \<Rightarrow> bool \<Rightarrow> StateMap \<Rightarrow> StateMap \<Rightarrow> bool" where
  "moved legal mbi b ends m m' =
     (m' = m \<or> (\<exists>st. ends \<and> unmoved mbi b m \<and> legal (last_state mbi m) st \<and> m' = set_state b st m))"

lemma moved_trans:
  assumes "moved legal mbi b ends m m'" "moved legal mbi b ends m' m''"
  shows "moved legal mbi b ends m m''"
proof -
  have "\<not> unmoved mbi b (set_state b st x)" for st x
    by (simp add: unmoved_def above_history_def set_state_def)
  with assms show ?thesis by (auto simp: moved_def)
qed

text \<open>The identity of an item and the history it may have after the block.\<close>

definition proposal_follows :: "BlockMap \<Rightarrow> CBlockIndex \<Rightarrow> bool \<Rightarrow> CProposal \<Rightarrow> CProposal \<Rightarrow> bool" where
  "proposal_follows mbi b ends p p' =
     (p_nAmount p' = p_nAmount p \<and> p_hash p' = p_hash p \<and> p_nVersion p' = p_nVersion p \<and>
      moved proposal_move mbi b ends (p_mapState p) (p_mapState p'))"

definition request_follows :: "BlockMap \<Rightarrow> CBlockIndex \<Rightarrow> bool \<Rightarrow> CPaymentRequest \<Rightarrow> CPaymentRequest \<Rightarrow> bool" where
  "request_follows mbi b ends r r' =
     (pr_nAmount r' = pr_nAmount r \<and> pr_hash r' = pr_hash r \<and> pr_proposalhash r' = pr_proposalhash r \<and>
      moved request_move mbi b ends (pr_mapState r) (pr_mapState r'))"

definition ledger_follows :: "BlockMap \<Rightarrow> CBlockIndex \<Rightarrow> bool \<Rightarrow> Ledger \<Rightarrow> Ledger \<Rightarrow> bool" where
  "ledger_follows mbi b ends L L' =
     ((\<forall>k. rel_option (proposal_follows mbi b ends) (proposals L k) (proposals L' k)) \<and>
      (\<forall>k. rel_option (request_follows mbi b ends) (requests L k) (requests L' k)))"

lemma follows_refl [simp]: "proposal_follows mbi b ends p p" "request_follows mbi b ends r r"
  by (simp_all add: proposal_follows_def request_follows_def moved_def)

lemma follows_trans:
  "proposal_follows mbi b ends p p' \<Longrightarrow> proposal_follows mbi b ends p' p'' \<Longrightarrow> proposal_follows mbi b ends p p''"
  "request_follows mbi b ends r r' \<Longrightarrow> request_follows mbi b ends r' r'' \<Longrightarrow> request_follows mbi b ends r r''"
  by (auto simp: proposal_follows_def request_follows_def intro: moved_trans)

lemma rel_option_trans:
  "(\<And>x y z. R x y \<Longrightarrow> R y z \<Longrightarrow> R x z) \<Longrightarrow> rel_option R a b \<Longrightarrow> rel_option R b c \<Longrightarrow> rel_option R a c"
  by (cases a; cases b; cases c) auto

lemma ledger_follows_update:
  "proposals L k = Some p \<Longrightarrow> proposal_follows mbi b ends p p' \<Longrightarrow> proposals L' = (proposals L)(k \<mapsto> p') \<Longrightarrow>
     requests L' = requests L \<Longrightarrow> ledger_follows mbi b ends L L'"
  "requests L k = Some r \<Longrightarrow> request_follows mbi b ends r r' \<Longrightarrow> requests L' = (requests L)(k \<mapsto> r') \<Longrightarrow>
     proposals L' = proposals L \<Longrightarrow> ledger_follows mbi b ends L L'"
  by (auto simp: ledger_follows_def intro!: option.rel_refl)

lemma follows_move:
  "ends \<Longrightarrow> unmoved mbi b (p_mapState p) \<Longrightarrow> proposal_move (CProposal_GetLastState mbi p) st \<Longrightarrow>
     proposal_follows mbi b ends p (CProposal_SetState b st p)"
  "ends \<Longrightarrow> unmoved mbi b (pr_mapState r) \<Longrightarrow> request_move (CPaymentRequest_GetLastState mbi r) st \<Longrightarrow>
     request_follows mbi b ends r (CPaymentRequest_SetState b st r)"
  by (auto simp: proposal_follows_def request_follows_def moved_def item_defs)

lemma ledger_move_p:
  assumes "ends" "proposals L k = Some p" "unmoved mbi b (p_mapState p)"
    "proposal_move (CProposal_GetLastState mbi p) st"
    "proposals L' = (proposals L)(k \<mapsto> CProposal_SetState b st p)" "requests L' = requests L"
  shows "ledger_follows mbi b ends L L'"
  using assms(5,6) by (rule ledger_follows_update(1) [OF assms(2) follows_move(1) [OF assms(1,3,4)]])

lemma ledger_move_r:
  assumes "ends" "requests L k = Some r" "unmoved mbi b (pr_mapState r)"
    "request_move (CPaymentRequest_GetLastState mbi r) st"
    "requests L' = (requests L)(k \<mapsto> CPaymentRequest_SetState b st r)" "proposals L' = proposals L"
  shows "ledger_follows mbi b ends L L'"
  using assms(5,6) by (rule ledger_follows_update(2) [OF assms(2) follows_move(2) [OF assms(1,3,4)]])

lemma ledger_follows_step:
  assumes "fund_step mbi b ends L L'" "fund_ok mbi L"
  shows "ledger_follows mbi b ends L L'"
proof -
  have P: "\<not> funded mbi p" if "proposals L k = Some p" "proposal_lost p" for k p
    using assms(2) that not_won_and_lost(1) [of p] by (auto simp: fund_ok_def proposal_ok_def)
  have R: "\<not> counts_against False (CPaymentRequest_GetLastState mbi r)" if "requests L k = Some r" "request_lost r" for k r
    using assms(2) that not_won_and_lost(2) [of r] by (auto simp: fund_ok_def request_ok_def)
  from assms(1) show ?thesis
  proof cases
    case (recount_p k p p')
    then show ?thesis
      by (intro ledger_follows_update(1)) (auto simp: recount_proposal_def proposal_follows_def moved_def)
  next
    case (recount_r k r r')
    then show ?thesis
      by (intro ledger_follows_update(2)) (auto simp: recount_request_def request_follows_def moved_def)
  next
    case (expire_r k r)
    then show ?thesis by (intro ledger_move_r [OF expire_r(2-4)]) (auto simp: request_move_def counts_against_def)
  next
    case (reject_r k r)
    then show ?thesis using R [OF reject_r(3,6)] by (intro ledger_move_r [OF reject_r(2-4)]) (auto simp: request_move_def counts_against_def)
  next
    case (accept_r k r p)
    then show ?thesis by (intro ledger_move_r [OF accept_r(2-4)]) (auto simp: request_move_def counts_against_def)
  next
    case (accept_p k p)
    then show ?thesis by (intro ledger_move_p [OF accept_p(2-4)]) (auto simp: proposal_move_def funded_def)
  next
    case (wait_p k p)
    then show ?thesis by (intro ledger_move_p [OF wait_p(2-4)]) (auto simp: proposal_move_def funded_def)
  next
    case (reject_p k p)
    then show ?thesis using P [OF reject_p(3,6)] by (intro ledger_move_p [OF reject_p(2-4)]) (auto simp: proposal_move_def funded_def)
  next
    case (hold_p k p)
    then show ?thesis by (intro ledger_move_p [OF hold_p(2-4)]) (auto simp: proposal_move_def funded_def)
  next
    case (release_p k p)
    then show ?thesis by (intro ledger_move_p [OF release_p(2-4)]) (auto simp: proposal_move_def funded_def)
  next
    case (expire_p k p)
    then show ?thesis by (intro ledger_move_p [OF expire_p(2-4)]) (auto simp: proposal_move_def funded_def)
  qed
qed

lemma ledger_follows_steps:
  assumes "fund_steps mbi b ends L L'" "fund_ok mbi L"
  shows "ledger_follows mbi b ends L L'"
  using assms(1)
proof (induction rule: rtranclp_induct)
  case base
  show ?case by (auto simp: ledger_follows_def intro!: option.rel_refl)
next
  case (step L1 L2)
  from fund_ok_steps [OF step.hyps(1) assms(2)] have "ledger_follows mbi b ends L1 L2"
    by (rule ledger_follows_step [OF step.hyps(2)])
  with step.IH show ?case
    unfolding ledger_follows_def by (blast intro: rel_option_trans follows_trans)
qed

section \<open>Coins leave the fund through accepted requests\<close>

definition grant :: "CBlockIndex \<Rightarrow> (uint256 \<rightharpoonup> CProposal) \<Rightarrow> CPaymentRequest \<Rightarrow> CAmount" where
  "grant b ps r =
     (if map_of (pr_mapState r) (GetBlockHash b) = Some ACCEPTED \<and>
         (\<exists>p. ps (pr_proposalhash r) = Some p \<and> \<not> CProposal_IsSuper p)
      then pr_nAmount r else 0)"

definition granted :: "CBlockIndex \<Rightarrow> Ledger \<Rightarrow> CAmount" where
  "granted b L = (\<Sum>k \<in> dom (requests L). grant b (proposals L) (the (requests L k)))"

definition fund_total :: "CBlockIndex \<Rightarrow> Ledger \<Rightarrow> CAmount" where
  "fund_total b L = fund_supply L + fund_locked L + granted b L"

lemma granted_proposal:
  assumes "proposals L k = Some p" "CProposal_IsSuper p' = CProposal_IsSuper p"
    "proposals L' = (proposals L)(k \<mapsto> p')" "requests L' = requests L"
  shows "granted b L' = granted b L"
proof -
  have "grant b (proposals L') = grant b (proposals L)"
    using assms by (auto simp: grant_def fun_eq_iff)
  with assms(4) show ?thesis by (simp add: granted_def)
qed

lemma granted_request:
  assumes "finite (dom (requests L))" "requests L k = Some r"
    "requests L' = (requests L)(k \<mapsto> r')" "proposals L' = proposals L"
  shows "granted b L' = granted b L - grant b (proposals L) r + grant b (proposals L) r'"
  using sum_map_update [OF assms(1,2), of "grant b (proposals L)" r'] by (simp add: granted_def assms(3,4))

lemma unmoved_grant [simp]: "unmoved mbi b (pr_mapState r) \<Longrightarrow> grant b ps r = 0"
  by (simp add: grant_def unmoved_def above_history_def)

lemma granted_before_moves: "before_moves mbi b L \<Longrightarrow> granted b L = 0"
  by (fastforce simp: granted_def before_moves_def paid_now_def grant_def unmoved_def above_history_def intro!: sum.neutral)

lemma grant_SetState [simp]:
  "st \<noteq> ACCEPTED \<Longrightarrow> grant b ps (CPaymentRequest_SetState b st r) = 0"
  "ps (pr_proposalhash r) = Some p \<Longrightarrow>
     grant b ps (CPaymentRequest_SetState b ACCEPTED r) = (if CProposal_IsSuper p then 0 else pr_nAmount r)"
  by (auto simp: grant_def CPaymentRequest_SetState_def set_state_def)

lemma fund_total_step:
  assumes "fund_step mbi b ends L L'" "finite (dom (requests L))"
  shows "fund_total b L' = fund_total b L"
  using assms(1)
proof cases
  case (recount_r k r r')
  then have "grant b (proposals L) r' = grant b (proposals L) r" by (auto simp: recount_request_def grant_def)
  with recount_r granted_request [OF assms(2) recount_r(2), of L' r'] show ?thesis by (simp add: fund_total_def)
next
  case (recount_p k p p')
  then show ?thesis using granted_proposal [OF recount_p(2), of p' L'] recountD(3) by (simp add: fund_total_def)
next
  case (expire_r k r)
  then show ?thesis using granted_request [OF assms(2) expire_r(3), of L'] by (simp add: fund_total_def)
next
  case (reject_r k r)
  then show ?thesis using granted_request [OF assms(2) reject_r(3), of L'] by (simp add: fund_total_def)
next
  case (accept_r k r p)
  then show ?thesis using granted_request [OF assms(2) accept_r(3), of L'] by (simp add: fund_total_def)
next
  case (accept_p k p)
  then show ?thesis using granted_proposal [OF accept_p(3), of _ L'] by (simp add: fund_total_def)
next
  case (wait_p k p)
  then show ?thesis using granted_proposal [OF wait_p(3), of _ L'] by (simp add: fund_total_def)
next
  case (reject_p k p)
  then show ?thesis using granted_proposal [OF reject_p(3), of _ L'] by (simp add: fund_total_def)
next
  case (hold_p k p)
  then show ?thesis using granted_proposal [OF hold_p(3), of _ L'] by (simp add: fund_total_def)
next
  case (release_p k p)
  then show ?thesis using granted_proposal [OF release_p(3), of _ L'] by (simp add: fund_total_def)
next
  case (expire_p k p)
  then show ?thesis using granted_proposal [OF expire_p(3), of _ L'] by (simp add: fund_total_def)
qed

lemma fund_step_dom: "fund_step mbi b ends L L' \<Longrightarrow> dom (requests L') = dom (requests L)"
  by (erule fund_step.cases) auto

lemma fund_total_steps:
  assumes "fund_steps mbi b ends L L'" "finite (dom (requests L))"
  shows "fund_total b L' = fund_total b L \<and> dom (requests L') = dom (requests L)"
  using assms(1) by (induction rule: rtranclp_induct) (auto simp: assms(2) fund_step_dom fund_total_step)

section \<open>Between the ends of cycles\<close>

definition histories :: "Ledger \<Rightarrow> (uint256 \<rightharpoonup> StateMap) \<times> (uint256 \<rightharpoonup> StateMap)" where
  "histories L = (map_option p_mapState \<circ> proposals L, map_option pr_mapState \<circ> requests L)"

lemma fund_step_any: "fund_step mbi b False L L' \<Longrightarrow> fund_step mbi b ends L L'"
  by (erule fund_step.cases) (auto intro: fund_step.intros)

lemma fund_steps_any: "fund_steps mbi b False L L' \<Longrightarrow> fund_steps mbi b ends L L'"
  by (induction rule: rtranclp_induct) (auto intro: rtranclp.rtrancl_into_rtrancl fund_step_any)

lemma quiet_step:
  assumes "fund_step mbi b False L L'"
  shows "histories L' = histories L \<and> fund_supply L' = fund_supply L \<and> fund_locked L' = fund_locked L"
  using assms
  by cases (auto simp: histories_def fun_eq_iff recount_proposal_def recount_request_def)

lemma before_moves_quiet_step:
  assumes "fund_step mbi b False L L'" "before_moves mbi b L"
  shows "before_moves mbi b L'"
  using assms(1)
proof cases
  case (recount_r k r r')
  have "paid_now mbi b r'" if "paid_now mbi b r"
    using that recountD_r [OF recount_r(3)] recount_r(3) by (simp add: paid_now_def recount_request_def)
  with recount_r assms(2) show ?thesis by (auto simp: before_moves_def recount_request_def)
qed (use assms(2) in \<open>auto simp: before_moves_def recount_proposal_def\<close>)

lemma before_moves_quiet: "fund_steps mbi b False L L' \<Longrightarrow> before_moves mbi b L \<Longrightarrow> before_moves mbi b L'"
  by (induction rule: rtranclp_induct) (auto intro: before_moves_quiet_step)

lemma quiet_steps:
  assumes "fund_steps mbi b False L L'"
  shows "histories L' = histories L \<and> fund_supply L' = fund_supply L \<and> fund_locked L' = fund_locked L"
  using assms by (induction rule: rtranclp_induct) (auto dest: quiet_step)

end
