(* ===== verification/VoteFrames.thy ===== *)
theory VoteFrames
  imports VoteStep VoteScanLaws FundLedger
begin

text \<open>
  Which part of the state the passes of \<open>VoteStep\<close> leave alone. The passes over consultations and answers
  touch neither the proposals nor the payment requests nor the fund, and only the last pass touches the
  consensus parameters.
\<close>

section \<open>Loops\<close>

text \<open>An invariant that mentions the items still to be visited.\<close>

lemma fold_remaining:
  assumes "I xs s" "\<And>x xs s. I (x # xs) s \<Longrightarrow> I xs (f x s)"
  shows "I [] (fold f xs s)"
  using assms(1) by (induction xs arbitrary: s) (auto dest: assms(2))

lemma foldR_remaining:
  assumes "foldR f xs s = Inr t" "I xs s" "\<And>x xs s t. I (x # xs) s \<Longrightarrow> f x s = Inr t \<Longrightarrow> I xs t"
  shows "I [] t"
  using assms(1,2)
proof (induction xs arbitrary: s)
  case (Cons x xs)
  from Cons.prems(1) obtain u where "f x s = Inr u" "foldR f xs u = Inr t" by auto
  with Cons assms(3) show ?case by blast
qed simp

lemma distinct_keys_Cons:
  assumes "distinct (map fst (e # xs))" "y \<in> set xs"
  shows "fst y \<noteq> fst e"
  using assms by (metis distinct.simps(2) imageI list.set_map list.simps(9))

section \<open>What the consultation passes keep\<close>

definition fund_frame :: "VoteWork \<Rightarrow> VoteWork \<Rightarrow> bool" where
  "fund_frame w w' =
     (cacheProposals (view w') = cacheProposals (view w) \<and>
      cachePaymentRequests (view w') = cachePaymentRequests (view w) \<and>
      cacheConsensus (view w') = cacheConsensus (view w) \<and> base (view w') = base (view w) \<and>
      (view_ok (view w) \<longrightarrow> view_ok (view w')) \<and>
      nCFSupply w' = nCFSupply w \<and> nCFLocked w' = nCFLocked w \<and>
      mapProposals w' = mapProposals w \<and> mapPaymentRequests w' = mapPaymentRequests w \<and>
      updateMapProposals w' = updateMapProposals w \<and> updateMapPaymentRequests w' = updateMapPaymentRequests w)"

lemma fund_frame_refl [simp]: "fund_frame w w"
  by (simp add: fund_frame_def)

lemma fund_frame_trans: "fund_frame w1 w2 \<Longrightarrow> fund_frame w2 w3 \<Longrightarrow> fund_frame w1 w3"
  by (simp add: fund_frame_def)

lemma fund_frame_set_consultation:
  assumes "\<And>c. c_fDirty c \<Longrightarrow> c_fDirty (f c)"
  shows "fund_frame w (set_consultation k f w)" "fund_frame w (upd_consultation k f w)"
  using viewC.ok_modify [of "view w" f k] assms
  by (simp_all add: fund_frame_def set_consultation_def upd_consultation_def ModifyConsultation_def Let_def)

lemma fund_frame_set_answer:
  assumes "\<And>c. ca_fDirty c \<Longrightarrow> ca_fDirty (f c)"
  shows "fund_frame w (set_answer k f w)" "fund_frame w (upd_answer k f w)"
  using viewA.ok_modify [of "view w" f k] assms
  by (simp_all add: fund_frame_def set_answer_def upd_answer_def ModifyConsultationAnswer_def Let_def)

lemma fund_frame_local [simp]:
  "fund_frame w (w'\<lparr>mapSeen := a\<rparr>) = fund_frame w w'" "fund_frame w (w'\<lparr>mapSeenSupport := a\<rparr>) = fund_frame w w'"
  "fund_frame w (w'\<lparr>mapAlreadyCleared := a\<rparr>) = fund_frame w w'" "fund_frame w (w'\<lparr>vClearAnswers := c\<rparr>) = fund_frame w w'"
  "fund_frame w (w'\<lparr>mapConsensusToChange := d\<rparr>) = fund_frame w w'"
  "fund_frame w (merge_consultations w') = fund_frame w w'" "fund_frame w (merge_answers w') = fund_frame w w'"
  by (simp_all add: fund_frame_def merge_consultations_def merge_answers_def)

lemma undo_dirty [simp]: "c_fDirty (undo_consultation ctx d n c)" "ca_fDirty (undo_answer d ca)"
  by (simp_all add: undo_consultation_def undo_answer_def Let_def)

lemmas fund_frame_set = fund_frame_set_consultation fund_frame_set_answer
  fund_frame_trans [OF _ fund_frame_set_consultation(1)] fund_frame_trans [OF _ fund_frame_set_consultation(2)]
  fund_frame_trans [OF _ fund_frame_set_answer(1)] fund_frame_trans [OF _ fund_frame_set_answer(2)]

lemma fund_frame_support: "fund_frame w (support_votes ctx it w)"
  by (auto simp: support_votes_def consultation_support_def answer_support_def Let_def
      intro!: fund_frame_set split: option.split)

lemma fund_frame_vote: "fund_frame w (consultation_votes ctx it w)"
  by (auto simp: consultation_votes_def consultation_vote_def answer_vote_def Let_def
      intro!: fund_frame_set split: option.split)

lemma fund_frame_step_answer: "step_answer ctx it w = Inr w' \<Longrightarrow> fund_frame w w'"
  by (auto simp: step_answer_def pass_answer_def Let_def bindR_eq_Inr
      intro!: fund_frame_set split: option.splits if_splits)

lemma fund_frame_step_consultation: "step_consultation ctx it w = Inr w' \<Longrightarrow> fund_frame w w'"
  by (auto simp: step_consultation_def set_consultation_state_def Let_def bindR_eq_Inr
      intro!: fund_frame_set split: option.splits if_splits)

lemma fund_frame_restart: "fund_frame w (restart_consultation ctx itc w)" "fund_frame w (restart_answer ctx ita w)"
  by (auto simp: restart_consultation_def restart_answer_def Let_def intro!: fund_frame_set)

lemma fund_frame_fold: "(\<And>x w. fund_frame w (f x w)) \<Longrightarrow> fund_frame w (fold f xs w)"
  by (induction xs arbitrary: w) (auto intro: fund_frame_trans)

lemma fund_frame_foldR:
  assumes "foldR f xs w = Inr w'" "\<And>x w w'. f x w = Inr w' \<Longrightarrow> fund_frame w w'"
  shows "fund_frame w w'"
  using assms(1) by (rule foldR_relation) (auto intro: fund_frame_trans assms(2))

lemma fund_frame_dao_votes: "fund_frame w (dao_votes_pass ctx g w)"
  unfolding dao_votes_pass_def Let_def fund_frame_local
  by (rule fund_frame_trans [OF _ fund_frame_fold [OF fund_frame_vote]])
    (simp add: fund_frame_fold fund_frame_support)

lemma fund_frame_dao_step:
  assumes "dao_step_pass ctx w = Inr w'"
  shows "fund_frame w w'"
proof -
  from assms obtain u v where u: "foldR (step_answer ctx) (mapConsultationAnswers w) w = Inr u"
    and v: "foldR (step_consultation ctx) (mapConsultations (merge_answers u)) (merge_answers u) = Inr v"
    and w': "w' = merge_consultations v"
    by (auto simp: dao_step_pass_def Let_def bindR_eq_Inr)
  have "fund_frame w (merge_answers u)" using fund_frame_foldR [OF u fund_frame_step_answer] by simp
  moreover have "fund_frame (merge_answers u) v" by (rule fund_frame_foldR [OF v fund_frame_step_consultation])
  ultimately have "fund_frame w v" by (rule fund_frame_trans)
  then show ?thesis by (simp add: w')
qed

end
