(* ===== verification/FundSteps.thy ===== *)
theory FundSteps
  imports VoteFrames
begin

text \<open>
  The fund part of \<open>VoteStep\<close> implements the ledger of \<open>FundLedger\<close>: connecting a block is a sequence of its
  steps. The invariant relates the view to the snapshots \<^verbatim>\<open>mapProposals\<close> and \<^verbatim>\<open>mapPaymentRequests\<close> the loops
  read from, which lag behind the view until the update maps are merged.
\<close>

section \<open>The ledger of a view\<close>

definition ledger_of :: "CStateViewCache \<Rightarrow> CAmount \<Rightarrow> CAmount \<Rightarrow> Ledger" where
  "ledger_of v s l = \<lparr>proposals = GetProposal v, requests = GetPaymentRequest v, fund_supply = s, fund_locked = l\<rparr>"

definition fund_ledger :: "VoteWork \<Rightarrow> Ledger" where
  "fund_ledger w = ledger_of (view w) (nCFSupply w) (nCFLocked w)"

lemma fund_ledger_simps [simp]:
  "proposals (fund_ledger w) = GetProposal (view w)" "requests (fund_ledger w) = GetPaymentRequest (view w)"
  "fund_supply (fund_ledger w) = nCFSupply w" "fund_locked (fund_ledger w) = nCFLocked w"
  by (simp_all add: fund_ledger_def ledger_of_def)

lemma fund_ledger_frame: "fund_frame w w' \<Longrightarrow> fund_ledger w' = fund_ledger w"
  using get_frame(1) [of "view w'" "view w"] get_frame(2) [of "view w'" "view w"]
  by (simp add: fund_frame_def fund_ledger_def ledger_of_def)

text \<open>
  Items that remain visible whatever their counters are: the fields the user has given are not all empty.
  Every item is stored under its hash.
\<close>

definition solid_proposal :: "CProposal \<Rightarrow> bool" where
  "solid_proposal p = (p_nAmount p \<noteq> 0 \<or> p_nFee p \<noteq> 0 \<or> p_ownerAddress p \<noteq> [] \<or> p_paymentAddress p \<noteq> [] \<or>
     p_nDeadline p \<noteq> 0 \<or> p_strDZeel p \<noteq> [])"

definition solid_request :: "CPaymentRequest \<Rightarrow> bool" where
  "solid_request r = (pr_nAmount r \<noteq> 0 \<or> pr_strDZeel r \<noteq> [])"

definition good_proposal :: "uint256 \<Rightarrow> CProposal \<Rightarrow> bool" where
  "good_proposal k p = (p_hash p = k \<and> solid_proposal p \<and> proposal_tallied p)"

definition good_request :: "uint256 \<Rightarrow> CPaymentRequest \<Rightarrow> bool" where
  "good_request k r = (pr_hash r = k \<and> solid_request r \<and> request_tallied r)"

definition fund_view :: "CStateViewCache \<Rightarrow> bool" where
  "fund_view v = (view_ok v \<and> view_GetAllPaymentRequests (base v) \<noteq> None \<and>
     (\<forall>k p. GetProposal v k = Some p \<longrightarrow> good_proposal k p) \<and>
     (\<forall>k r. GetPaymentRequest v k = Some r \<longrightarrow> good_request k r))"

lemma good_not_null [simp]:
  "good_proposal k p \<Longrightarrow> visible CProposal_IsNull (Some p) = Some p"
  "good_request k r \<Longrightarrow> visible CPaymentRequest_IsNull (Some r) = Some r"
  by (auto simp: good_proposal_def good_request_def solid_proposal_def solid_request_def visible_def
      CProposal_IsNull_def CPaymentRequest_IsNull_def)

lemma fund_view_dirty:
  "fund_view v \<Longrightarrow> GetProposal v k = Some p \<Longrightarrow> p_fDirty p"
  "fund_view v \<Longrightarrow> GetPaymentRequest v k = Some r \<Longrightarrow> pr_fDirty r"
  using viewP.get_dirty viewR.get_dirty by (auto simp: fund_view_def)

lemma seen_get:
  "GetProposal (view w) k = Some p \<Longrightarrow> seen_proposal k w = p"
  "GetPaymentRequest (view w) k = Some r \<Longrightarrow> seen_prequest k w = r"
  by (auto simp: get_lookup seen_proposal_def seen_prequest_def opened_entry_def lookup_entry_def visible_Some
      split: option.splits)

lemma GetAvailable_ledger:
  assumes "fund_view (view w)"
  shows "CProposal_GetAvailable mbi (view w) False p = available mbi (fund_ledger w) p"
proof -
  obtain m where "GetAllPaymentRequests (view w) = Some m"
    using assms by (auto simp: fund_view_def GetAllPaymentRequests_def)
  with assms show ?thesis
    by (auto simp: fund_view_def available_def claimed_def GetAvailable_claimed)
qed

section \<open>Modifiers on the ledger\<close>

lemma set_proposal_fund:
  assumes "fund_view (view w)" "GetProposal (view w) k = Some p"
    "\<forall>q. p_fDirty q \<longrightarrow> p_fDirty (f q)" "good_proposal k (f p)"
  shows "GetProposal (view (set_proposal k f w)) = (GetProposal (view w))(k \<mapsto> f p)"
    "GetPaymentRequest (view (set_proposal k f w)) = GetPaymentRequest (view w)"
    "fund_view (view (set_proposal k f w))"
proof -
  have d: "p_fDirty (f p)" using assms(3) fund_view_dirty(1) [OF assms(1,2)] by blast
  show P: "GetProposal (view (set_proposal k f w)) = (GetProposal (view w))(k \<mapsto> f p)"
    using viewP.get_modify [OF assms(2), of f] d assms(4) by (auto simp: set_proposal_def fun_eq_iff)
  show R: "GetPaymentRequest (view (set_proposal k f w)) = GetPaymentRequest (view w)"
    by (rule get_frame(2)) (simp_all add: set_proposal_def ModifyProposal_def)
  have "view_ok (view (set_proposal k f w))"
    using assms(1,3) viewP.ok_modify by (simp add: set_proposal_def fund_view_def)
  with assms(1,4) P R show "fund_view (view (set_proposal k f w))"
    by (auto simp: fund_view_def set_proposal_def)
qed

lemma set_prequest_fund:
  assumes "fund_view (view w)" "GetPaymentRequest (view w) k = Some r"
    "\<forall>q. pr_fDirty q \<longrightarrow> pr_fDirty (f q)" "good_request k (f r)"
  shows "GetPaymentRequest (view (set_prequest k f w)) = (GetPaymentRequest (view w))(k \<mapsto> f r)"
    "GetProposal (view (set_prequest k f w)) = GetProposal (view w)"
    "fund_view (view (set_prequest k f w))"
proof -
  have d: "pr_fDirty (f r)" using assms(3) fund_view_dirty(2) [OF assms(1,2)] by blast
  show R: "GetPaymentRequest (view (set_prequest k f w)) = (GetPaymentRequest (view w))(k \<mapsto> f r)"
    using viewR.get_modify [OF assms(2), of f] d assms(4) by (auto simp: set_prequest_def fun_eq_iff)
  have "\<not> CPaymentRequest_IsNull (f r)"
    using good_not_null(2) [OF assms(4)] by (simp add: visible_def split: if_splits)
  then have "cacheProposals (view (set_prequest k f w)) = cacheProposals (view w)"
    using seen_get(2) [OF assms(2)]
    by (simp add: set_prequest_def ModifyPaymentRequest_def Let_def seen_prequest_def)
  then show P: "GetProposal (view (set_prequest k f w)) = GetProposal (view w)"
    by (rule get_frame(1)) (simp add: set_prequest_def)
  have "view_ok (view (set_prequest k f w))"
    using assms(1,3) viewR.ok_modify by (simp add: set_prequest_def fund_view_def)
  with assms(1,4) P R show "fund_view (view (set_prequest k f w))"
    by (auto simp: fund_view_def set_prequest_def)
qed

lemma fund_fields [simp]:
  "nCFSupply (set_proposal k f w) = nCFSupply w" "nCFLocked (set_proposal k f w) = nCFLocked w"
  "nCFSupply (set_prequest k g w) = nCFSupply w" "nCFLocked (set_prequest k g w) = nCFLocked w"
  "mapProposals (set_proposal k f w) = mapProposals w" "mapPaymentRequests (set_proposal k f w) = mapPaymentRequests w"
  "mapProposals (set_prequest k g w) = mapProposals w" "mapPaymentRequests (set_prequest k g w) = mapPaymentRequests w"
  "updateMapProposals (set_proposal k f w) = updateMapProposals w"
  "updateMapPaymentRequests (set_proposal k f w) = updateMapPaymentRequests w"
  "updateMapProposals (set_prequest k g w) = updateMapProposals w"
  "updateMapPaymentRequests (set_prequest k g w) = updateMapPaymentRequests w"
  by (simp_all add: set_proposal_def set_prequest_def)

section \<open>Snapshots\<close>

text \<open>A request as a snapshot has it: all but the cycle counter, which one loop sets in the view only.\<close>

definition same_request :: "CPaymentRequest \<Rightarrow> CPaymentRequest \<Rightarrow> bool" where
  "same_request r q = (\<exists>c d. q = r\<lparr>pr_nVotingCycle := c, pr_fDirty := d\<rparr>)"

definition synced_proposals :: "VoteWork \<Rightarrow> bool" where
  "synced_proposals w = (omap_ok (mapProposals w) \<and> omap_ok (updateMapProposals w) \<and>
     map_of (mapProposals w) ++ map_of (updateMapProposals w) = GetProposal (view w))"

definition synced_requests :: "VoteWork \<Rightarrow> bool" where
  "synced_requests w = (omap_ok (mapPaymentRequests w) \<and> omap_ok (updateMapPaymentRequests w) \<and>
     (\<forall>k. rel_option same_request ((map_of (mapPaymentRequests w) ++ map_of (updateMapPaymentRequests w)) k)
           (GetPaymentRequest (view w) k)))"

definition fund_inv :: "VoteCtx \<Rightarrow> VoteWork \<Rightarrow> bool" where
  "fund_inv ctx w = (fund_view (view w) \<and> shares_at_least_half (par ctx) (view w) \<and>
     synced_proposals w \<and> synced_requests w)"

lemma same_request_refl [simp]: "same_request r r"
  unfolding same_request_def by (rule exI [of _ "pr_nVotingCycle r"], rule exI [of _ "pr_fDirty r"]) simp

lemma same_request_trans:
  assumes "same_request r q" "same_request q s"
  shows "same_request r s"
proof -
  from assms obtain c d where "s = q\<lparr>pr_nVotingCycle := c, pr_fDirty := d\<rparr>" "\<exists>c d. q = r\<lparr>pr_nVotingCycle := c, pr_fDirty := d\<rparr>"
    by (auto simp: same_request_def)
  then have "s = r\<lparr>pr_nVotingCycle := c, pr_fDirty := d\<rparr>" by auto
  then show ?thesis unfolding same_request_def by blast
qed

lemma same_requestD:
  assumes "same_request r q"
  shows "pr_nAmount q = pr_nAmount r" "pr_mapState q = pr_mapState r" "pr_hash q = pr_hash r"
    "pr_proposalhash q = pr_proposalhash r" "pr_txblockhash q = pr_txblockhash r" "pr_nVotesYes q = pr_nVotesYes r"
    "pr_nVotesNo q = pr_nVotesNo r" "pr_nVotesAbs q = pr_nVotesAbs r" "pr_nVersion q = pr_nVersion r"
    "CPaymentRequest_GetLastState mbi q = CPaymentRequest_GetLastState mbi r"
  using assms by (auto simp: same_request_def CPaymentRequest_GetLastState_def)

lemma parameter_frame:
  assumes "cacheConsensus v = cacheConsensus v'" "base v = base v'"
  shows "GetConsensusParameter prm pos v = GetConsensusParameter prm pos v'"
  using get_frame(6) [OF assms] by (simp add: GetConsensusParameter_def)

lemma shares_frame:
  assumes "cacheConsensus v = cacheConsensus v'" "base v = base v'"
  shows "shares_at_least_half prm v = shares_at_least_half prm v'"
  by (simp add: shares_at_least_half_def parameter_frame [OF assms])

lemma synced_get:
  "synced_proposals w \<Longrightarrow> map_of (updateMapProposals w) k = None \<Longrightarrow> map_of (mapProposals w) k = GetProposal (view w) k"
  by (auto simp: synced_proposals_def fun_eq_iff map_add_def dest!: spec [of _ k])

lemma synced_get_request:
  assumes "synced_requests w" "map_of (updateMapPaymentRequests w) k = None" "map_of (mapPaymentRequests w) k = Some r"
  obtains q where "GetPaymentRequest (view w) k = Some q" "same_request r q"
proof -
  from assms have "rel_option same_request (Some r) (GetPaymentRequest (view w) k)"
    by (auto simp: synced_requests_def map_add_def dest!: spec [of _ k])
  then show ?thesis using that by (auto simp: option_rel_Some1)
qed

lemma upd_proposal_fund:
  assumes inv: "fund_inv ctx w" and p: "GetProposal (view w) k = Some p"
    and f: "\<forall>q. p_fDirty q \<longrightarrow> p_fDirty (f q)" "good_proposal k (f p)"
  shows "fund_inv ctx (upd_proposal k f w)"
    "fund_ledger (upd_proposal k f w) = (fund_ledger w)\<lparr>proposals := (GetProposal (view w))(k \<mapsto> f p)\<rparr>"
    "GetProposal (view (upd_proposal k f w)) = (GetProposal (view w))(k \<mapsto> f p)"
    "GetPaymentRequest (view (upd_proposal k f w)) = GetPaymentRequest (view w)"
    "updateMapProposals (upd_proposal k f w) = omap_put k (f p) (updateMapProposals w)"
    "updateMapPaymentRequests (upd_proposal k f w) = updateMapPaymentRequests w"
    "nCFSupply (upd_proposal k f w) = nCFSupply w" "nCFLocked (upd_proposal k f w) = nCFLocked w"
proof -
  have v: "fund_view (view w)" using inv by (simp add: fund_inv_def)
  have view: "view (upd_proposal k f w) = view (set_proposal k f w)" by (simp add: upd_proposal_def Let_def)
  note set = set_proposal_fund [of w k p f, OF v p f]
  show upd: "updateMapProposals (upd_proposal k f w) = omap_put k (f p) (updateMapProposals w)"
    using f(2) by (simp add: upd_proposal_def seen_get(1) [OF p] Let_def good_proposal_def)
  show P: "GetProposal (view (upd_proposal k f w)) = (GetProposal (view w))(k \<mapsto> f p)"
    and R: "GetPaymentRequest (view (upd_proposal k f w)) = GetPaymentRequest (view w)" using set by (simp_all add: view)
  show u: "updateMapPaymentRequests (upd_proposal k f w) = updateMapPaymentRequests w"
    "nCFSupply (upd_proposal k f w) = nCFSupply w" "nCFLocked (upd_proposal k f w) = nCFLocked w"
    by (simp_all add: upd_proposal_def Let_def)
  have maps: "mapProposals (upd_proposal k f w) = mapProposals w" "mapPaymentRequests (upd_proposal k f w) = mapPaymentRequests w"
    by (simp_all add: upd_proposal_def Let_def)
  have "shares_at_least_half (par ctx) (view (set_proposal k f w)) = shares_at_least_half (par ctx) (view w)"
    by (rule shares_frame) (simp_all add: set_proposal_def ModifyProposal_def)
  with inv set(3) show "fund_inv ctx (upd_proposal k f w)"
    by (simp add: fund_inv_def synced_proposals_def synced_requests_def upd u P R maps) (simp add: view)
  show "fund_ledger (upd_proposal k f w) = (fund_ledger w)\<lparr>proposals := (GetProposal (view w))(k \<mapsto> f p)\<rparr>"
    by (simp add: fund_ledger_def ledger_of_def P R u)
qed

lemma set_prequest_inv:
  assumes inv: "fund_inv ctx w" and r: "GetPaymentRequest (view w) k = Some r"
    and f: "\<forall>q. pr_fDirty q \<longrightarrow> pr_fDirty (f q)" "good_request k (f r)" "same_request r (f r)"
  shows "fund_inv ctx (set_prequest k f w)"
proof -
  have v: "fund_view (view w)" using inv by (simp add: fund_inv_def)
  note set = set_prequest_fund [of w k r f, OF v r f(1,2)]
  have "shares_at_least_half (par ctx) (view (set_prequest k f w)) = shares_at_least_half (par ctx) (view w)"
    by (rule shares_frame) (simp_all add: set_prequest_def ModifyPaymentRequest_def Let_def)
  moreover have "rel_option same_request x (GetPaymentRequest (view (set_prequest k f w)) k')"
    if "rel_option same_request x (GetPaymentRequest (view w) k')" for x k'
    using that r f(3) by (cases x) (auto simp: set option_rel_Some1 intro: same_request_trans)
  ultimately show ?thesis
    using inv set(3) by (auto simp: fund_inv_def synced_proposals_def synced_requests_def set(2))
qed

lemma upd_prequest_fund:
  assumes inv: "fund_inv ctx w" and r: "GetPaymentRequest (view w) k = Some r"
    and f: "\<forall>q. pr_fDirty q \<longrightarrow> pr_fDirty (f q)" "good_request k (f r)"
  shows "fund_inv ctx (upd_prequest k f w)"
    "fund_ledger (upd_prequest k f w) = (fund_ledger w)\<lparr>requests := (GetPaymentRequest (view w))(k \<mapsto> f r)\<rparr>"
    "GetPaymentRequest (view (upd_prequest k f w)) = (GetPaymentRequest (view w))(k \<mapsto> f r)"
    "GetProposal (view (upd_prequest k f w)) = GetProposal (view w)"
    "updateMapPaymentRequests (upd_prequest k f w) = omap_put k (f r) (updateMapPaymentRequests w)"
    "updateMapProposals (upd_prequest k f w) = updateMapProposals w"
    "nCFSupply (upd_prequest k f w) = nCFSupply w" "nCFLocked (upd_prequest k f w) = nCFLocked w"
proof -
  have v: "fund_view (view w)" using inv by (simp add: fund_inv_def)
  have view: "view (upd_prequest k f w) = view (set_prequest k f w)" by (simp add: upd_prequest_def Let_def)
  note set = set_prequest_fund [of w k r f, OF v r f]
  show upd: "updateMapPaymentRequests (upd_prequest k f w) = omap_put k (f r) (updateMapPaymentRequests w)"
    using f(2) by (simp add: upd_prequest_def seen_get(2) [OF r] Let_def good_request_def)
  show R: "GetPaymentRequest (view (upd_prequest k f w)) = (GetPaymentRequest (view w))(k \<mapsto> f r)"
    and P: "GetProposal (view (upd_prequest k f w)) = GetProposal (view w)" using set by (simp_all add: view)
  show u: "updateMapProposals (upd_prequest k f w) = updateMapProposals w"
    "nCFSupply (upd_prequest k f w) = nCFSupply w" "nCFLocked (upd_prequest k f w) = nCFLocked w"
    by (simp_all add: upd_prequest_def Let_def)
  have maps: "mapProposals (upd_prequest k f w) = mapProposals w" "mapPaymentRequests (upd_prequest k f w) = mapPaymentRequests w"
    by (simp_all add: upd_prequest_def Let_def)
  have "shares_at_least_half (par ctx) (view (set_prequest k f w)) = shares_at_least_half (par ctx) (view w)"
    by (rule shares_frame) (simp_all add: set_prequest_def ModifyPaymentRequest_def Let_def)
  with inv set(3) show "fund_inv ctx (upd_prequest k f w)"
    by (simp add: fund_inv_def synced_proposals_def synced_requests_def upd u P R maps) (simp add: view)
  show "fund_ledger (upd_prequest k f w) = (fund_ledger w)\<lparr>requests := (GetPaymentRequest (view w))(k \<mapsto> f r)\<rparr>"
    by (simp add: fund_ledger_def ledger_of_def P R u)
qed

lemma fund_inv_local [simp]:
  "fund_inv ctx (w\<lparr>mapSeen := a\<rparr>) = fund_inv ctx w" "fund_inv ctx (w\<lparr>nCFSupply := s\<rparr>) = fund_inv ctx w"
  "fund_inv ctx (w\<lparr>nCFLocked := s\<rparr>) = fund_inv ctx w" "fund_ledger (w\<lparr>mapSeen := a\<rparr>) = fund_ledger w"
  "fund_ledger (w\<lparr>nCFSupply := s\<rparr>) = (fund_ledger w)\<lparr>fund_supply := s\<rparr>"
  "fund_ledger (w\<lparr>nCFLocked := s\<rparr>) = (fund_ledger w)\<lparr>fund_locked := s\<rparr>"
  by (simp_all add: fund_inv_def synced_proposals_def synced_requests_def fund_ledger_def ledger_of_def)

lemma fund_inv_merge:
  assumes "fund_inv ctx w"
  shows "fund_inv ctx (merge_proposals w)" "fund_inv ctx (merge_prequests w)"
  using assms
  by (auto simp: fund_inv_def synced_proposals_def synced_requests_def merge_proposals_def merge_prequests_def
      map_of_omap_put_all omap_ok_distinct)

lemma fund_ledger_merge [simp]:
  "fund_ledger (merge_proposals w) = fund_ledger w" "fund_ledger (merge_prequests w) = fund_ledger w"
  by (simp_all add: fund_ledger_def merge_proposals_def merge_prequests_def)

lemma merge_fields [simp]:
  "updateMapProposals (merge_proposals w) = []" "updateMapPaymentRequests (merge_prequests w) = []"
  "updateMapPaymentRequests (merge_proposals w) = updateMapPaymentRequests w"
  "updateMapProposals (merge_prequests w) = updateMapProposals w"
  "view (merge_proposals w) = view w" "view (merge_prequests w) = view w"
  by (simp_all add: merge_proposals_def merge_prequests_def)

lemma fund_inv_frame:
  assumes "fund_inv ctx w" "fund_frame w w'"
  shows "fund_inv ctx w'"
proof -
  have "GetProposal (view w') = GetProposal (view w)" "GetPaymentRequest (view w') = GetPaymentRequest (view w)"
    "shares_at_least_half (par ctx) (view w') = shares_at_least_half (par ctx) (view w)"
    using assms(2) by (auto simp: fund_frame_def intro!: get_frame shares_frame)
  with assms show ?thesis
    by (auto simp: fund_inv_def fund_frame_def fund_view_def synced_proposals_def synced_requests_def)
qed

section \<open>The votes of a cycle are written into the items\<close>

abbreviation ctx_steps :: "VoteCtx \<Rightarrow> Ledger \<Rightarrow> Ledger \<Rightarrow> bool" where
  "ctx_steps ctx \<equiv> fund_steps (mapBlockIndex ctx) (pindexNew ctx) (cycle_ends ctx)"

abbreviation ctx_recounts :: "VoteCtx \<Rightarrow> Ledger \<Rightarrow> Ledger \<Rightarrow> bool" where
  "ctx_recounts ctx \<equiv> fund_steps (mapBlockIndex ctx) (pindexNew ctx) False"

lemma recount_step_p:
  "GetProposal (view w) k = Some p \<Longrightarrow> recount_proposal mbi p p' \<Longrightarrow>
     fund_steps mbi b ends (fund_ledger w) ((fund_ledger w)\<lparr>proposals := (GetProposal (view w))(k \<mapsto> p')\<rparr>)"
  using fund_step.recount_p [of "fund_ledger w" k p mbi p' b ends] by auto

lemma recount_step_r:
  "GetPaymentRequest (view w) k = Some r \<Longrightarrow> recount_request mbi r r' \<Longrightarrow>
     fund_steps mbi b ends (fund_ledger w) ((fund_ledger w)\<lparr>requests := (GetPaymentRequest (view w))(k \<mapsto> r')\<rparr>)"
  using fund_step.recount_r [of "fund_ledger w" k r mbi r' b ends] by auto

lemma fund_inv_good:
  "fund_inv ctx w \<Longrightarrow> GetProposal (view w) k = Some p \<Longrightarrow> good_proposal k p"
  "fund_inv ctx w \<Longrightarrow> GetPaymentRequest (view w) k = Some r \<Longrightarrow> good_request k r"
  by (simp_all add: fund_inv_def fund_view_def)

lemma proposal_votes_fund:
  assumes "pindexDelete ctx = None" "fund_inv ctx w" "map_of (updateMapProposals w) (fst it) = None" "tally_nonneg (snd it)"
  shows "fund_inv ctx (proposal_votes ctx it w)"
    "ctx_recounts ctx (fund_ledger w) (fund_ledger (proposal_votes ctx it w))"
    "k \<noteq> fst it \<Longrightarrow> map_of (updateMapProposals (proposal_votes ctx it w)) k = map_of (updateMapProposals w) k"
    "updateMapPaymentRequests (proposal_votes ctx it w) = updateMapPaymentRequests w"
proof -
  let ?f = "\<lambda>p. p\<lparr>p_nVotesYes := fst (fst (snd it)), p_nVotesAbs := snd (snd it),
    p_nVotesNo := snd (fst (snd it)), p_fDirty := True\<rparr>"
  have "proposal_votes ctx it w = w \<or> (\<exists>p s. map_of (mapProposals w) (fst it) = Some p \<and>
      CProposal_CanVote (mapBlockIndex ctx) p \<and> proposal_votes ctx it w = (upd_proposal (fst it) ?f w)\<lparr>mapSeen := s\<rparr>)"
    by (auto simp: proposal_votes_def assms(1) Let_def split: option.split)
  then consider "proposal_votes ctx it w = w"
    | p s where "map_of (mapProposals w) (fst it) = Some p" "CProposal_CanVote (mapBlockIndex ctx) p"
        "proposal_votes ctx it w = (upd_proposal (fst it) ?f w)\<lparr>mapSeen := s\<rparr>" by blast
  then have "fund_inv ctx (proposal_votes ctx it w) \<and>
    ctx_recounts ctx (fund_ledger w) (fund_ledger (proposal_votes ctx it w)) \<and>
    (\<forall>k. k \<noteq> fst it \<longrightarrow> map_of (updateMapProposals (proposal_votes ctx it w)) k = map_of (updateMapProposals w) k) \<and>
    updateMapPaymentRequests (proposal_votes ctx it w) = updateMapPaymentRequests w"
  proof cases
    case (2 p s)
    then have p: "GetProposal (view w) (fst it) = Some p"
      using synced_get [OF _ assms(3)] assms(2) by (simp add: fund_inv_def)
    have good: "good_proposal (fst it) (?f p)"
      using fund_inv_good(1) [OF assms(2) p] assms(4)
      by (simp add: good_proposal_def solid_proposal_def proposal_tallied_def tally_nonneg_def)
    have rc: "recount_proposal (mapBlockIndex ctx) p (?f p)"
      using 2(2) assms(4) by (simp add: recount_proposal_def CProposal_CanVote_def proposal_tallied_def tally_nonneg_def)
    have upd: "\<forall>q. p_fDirty q \<longrightarrow> p_fDirty (?f q)" by simp
    note upd = upd_proposal_fund [OF assms(2) p, where f = ?f, OF upd good]
    have "ctx_recounts ctx (fund_ledger w) (fund_ledger (upd_proposal (fst it) ?f w))"
      unfolding upd(2) by (rule recount_step_p [OF p rc])
    with upd show ?thesis by (simp add: 2(3))
  qed (simp add: assms(2))
  then show "fund_inv ctx (proposal_votes ctx it w)"
    "ctx_recounts ctx (fund_ledger w) (fund_ledger (proposal_votes ctx it w))"
    "k \<noteq> fst it \<Longrightarrow> map_of (updateMapProposals (proposal_votes ctx it w)) k = map_of (updateMapProposals w) k"
    "updateMapPaymentRequests (proposal_votes ctx it w) = updateMapPaymentRequests w" by auto
qed

lemma prequest_votes_fund:
  assumes "pindexDelete ctx = None" "fund_inv ctx w" "map_of (updateMapPaymentRequests w) (fst it) = None"
    "tally_nonneg (snd it)" "prequest_votes ctx it w = Inr w'"
  shows "fund_inv ctx w' \<and> ctx_recounts ctx (fund_ledger w) (fund_ledger w') \<and>
    (\<forall>k. k \<noteq> fst it \<longrightarrow> map_of (updateMapPaymentRequests w') k = map_of (updateMapPaymentRequests w) k) \<and>
    updateMapProposals w' = updateMapProposals w"
proof -
  let ?f = "\<lambda>r. r\<lparr>pr_nVotesYes := fst (fst (snd it)), pr_nVotesAbs := snd (snd it),
    pr_nVotesNo := snd (fst (snd it)), pr_fDirty := True\<rparr>"
  have "w' = w \<or> (\<exists>r s. map_of (mapPaymentRequests w) (fst it) = Some r \<and>
      CPaymentRequest_CanVote (mapBlockIndex ctx) (view w) r \<and> w' = (upd_prequest (fst it) ?f w)\<lparr>mapSeen := s\<rparr>)"
    using assms(5) by (auto simp: prequest_votes_def assms(1) Let_def split: option.splits if_splits)
  then consider "w' = w"
    | r s where "map_of (mapPaymentRequests w) (fst it) = Some r" "CPaymentRequest_CanVote (mapBlockIndex ctx) (view w) r"
        "w' = (upd_prequest (fst it) ?f w)\<lparr>mapSeen := s\<rparr>" by blast
  then show ?thesis
  proof cases
    case (2 r s)
    then obtain q where q: "GetPaymentRequest (view w) (fst it) = Some q" "same_request r q"
      using synced_get_request [OF _ assms(3)] assms(2) by (auto simp: fund_inv_def)
    have good: "good_request (fst it) (?f q)"
      using fund_inv_good(2) [OF assms(2) q(1)] assms(4)
      by (simp add: good_request_def solid_request_def request_tallied_def tally_nonneg_def)
    have "CPaymentRequest_GetLastState (mapBlockIndex ctx) q = NIL"
      using 2(2) same_requestD(10) [OF q(2)] by (simp add: CPaymentRequest_CanVote_def Let_def split: option.splits)
    then have rc: "recount_request (mapBlockIndex ctx) q (?f q)"
      using assms(4) by (simp add: recount_request_def request_tallied_def tally_nonneg_def)
    have upd: "\<forall>q. pr_fDirty q \<longrightarrow> pr_fDirty (?f q)" by simp
    note upd = upd_prequest_fund [OF assms(2) q(1), where f = ?f, OF upd good]
    have "ctx_recounts ctx (fund_ledger w) (fund_ledger (upd_prequest (fst it) ?f w))"
      unfolding upd(2) by (rule recount_step_r [OF q(1) rc])
    with upd show ?thesis by (simp add: 2(3))
  qed (simp add: assms(2))
qed

lemma cfund_votes_fund:
  assumes "pindexDelete ctx = None" "fund_inv ctx w" "updateMapProposals w = []" "updateMapPaymentRequests w = []"
    and "omap_ok (mapCacheProposalsToUpdate g)" "omap_ok (mapCachePaymentRequestToUpdate g)"
    and "\<forall>it \<in> set (mapCacheProposalsToUpdate g) \<union> set (mapCachePaymentRequestToUpdate g). tally_nonneg (snd it)"
    and "cfund_votes_pass ctx g w = Inr w'"
  shows "fund_inv ctx w' \<and> ctx_recounts ctx (fund_ledger w) (fund_ledger w') \<and>
    updateMapProposals w' = [] \<and> updateMapPaymentRequests w' = []"
proof -
  let ?w1 = "fold (proposal_votes ctx) (mapCacheProposalsToUpdate g) w"
  let ?I = "\<lambda>xs u. distinct (map fst xs) \<and> (\<forall>it \<in> set xs. map_of (updateMapProposals u) (fst it) = None \<and> tally_nonneg (snd it)) \<and>
    fund_inv ctx u \<and> ctx_recounts ctx (fund_ledger w) (fund_ledger u) \<and> updateMapPaymentRequests u = []"
  have "?I [] ?w1"
  proof (rule fold_remaining [where I = ?I])
    show "?I (mapCacheProposalsToUpdate g) w" using assms by (auto simp: omap_ok_distinct)
    show "?I xs (proposal_votes ctx it u)" if "?I (it # xs) u" for it xs u
    proof -
      have "fund_inv ctx u" "map_of (updateMapProposals u) (fst it) = None" "tally_nonneg (snd it)" using that by auto
      note P = proposal_votes_fund [OF assms(1) this]
      have "distinct (map fst (it # xs))" using that by auto
      from distinct_keys_Cons [OF this] that P show ?thesis by auto
    qed
  qed
  then have P: "fund_inv ctx (merge_proposals ?w1)" "ctx_recounts ctx (fund_ledger w) (fund_ledger (merge_proposals ?w1))"
    "updateMapPaymentRequests (merge_proposals ?w1) = []" "updateMapProposals (merge_proposals ?w1) = []"
    by (auto intro: fund_inv_merge)
  let ?J = "\<lambda>xs u. distinct (map fst xs) \<and> (\<forall>it \<in> set xs. map_of (updateMapPaymentRequests u) (fst it) = None \<and> tally_nonneg (snd it)) \<and>
    fund_inv ctx u \<and> ctx_recounts ctx (fund_ledger w) (fund_ledger u) \<and> updateMapProposals u = []"
  from assms(8) obtain u where u: "foldR (prequest_votes ctx) (mapCachePaymentRequestToUpdate g) (merge_proposals ?w1) = Inr u"
    "w' = merge_prequests u" by (auto simp: cfund_votes_pass_def)
  have "?J [] u"
  proof (rule foldR_remaining [where I = ?J, OF u(1)])
    show "?J (mapCachePaymentRequestToUpdate g) (merge_proposals ?w1)" using assms P by (auto simp: omap_ok_distinct)
    show "?J xs u'" if "?J (it # xs) u" "prequest_votes ctx it u = Inr u'" for it xs u u'
    proof -
      have "fund_inv ctx u" "map_of (updateMapPaymentRequests u) (fst it) = None" "tally_nonneg (snd it)" using that by auto
      note R = prequest_votes_fund [OF assms(1) this that(2)]
      have "distinct (map fst (it # xs))" using that by auto
      from distinct_keys_Cons [OF this] that R show ?thesis by auto
    qed
  qed
  then show ?thesis by (auto simp: u(2) intro: fund_inv_merge)
qed

section \<open>Payment requests at the end of a cycle\<close>

lemma request_judged:
  assumes "shares_at_least_half prm v" "request_tallied r"
  shows "CPaymentRequest_IsAccepted prm v r \<Longrightarrow> request_won r" "CPaymentRequest_IsRejected prm v r \<Longrightarrow> request_lost r"
  using request_more_than_half [OF assms(1), of r] assms(2)
  by (auto simp: request_won_def request_lost_def request_tallied_def CPaymentRequest_TotalVotes_def)

lemma same_request_judged:
  assumes "same_request r q"
  shows "request_won q = request_won r" "request_lost q = request_lost r" "request_tallied q = request_tallied r"
  using same_requestD [OF assms]
  by (simp_all add: request_won_def request_lost_def request_tallied_def CPaymentRequest_TotalVotes_def)

text \<open>The request at \<open>k\<close> as it stands, ready to change state.\<close>

definition ready_request :: "VoteCtx \<Rightarrow> uint256 \<Rightarrow> CPaymentRequest \<Rightarrow> VoteWork \<Rightarrow> bool" where
  "ready_request ctx k q w = (fund_inv ctx w \<and> GetPaymentRequest (view w) k = Some q \<and>
     unmoved (mapBlockIndex ctx) (pindexNew ctx) (pr_mapState q))"

lemma set_prequest_state_fund:
  assumes "ready_request ctx k q w"
  shows "fund_inv ctx (set_prequest_state ctx k st w)"
    "fund_ledger (set_prequest_state ctx k st w) =
       (fund_ledger w)\<lparr>requests := (GetPaymentRequest (view w))(k \<mapsto> CPaymentRequest_SetState (pindexNew ctx) st q)\<rparr>"
    "GetProposal (view (set_prequest_state ctx k st w)) = GetProposal (view w)"
    "GetPaymentRequest (view (set_prequest_state ctx k st w)) =
       (GetPaymentRequest (view w))(k \<mapsto> CPaymentRequest_SetState (pindexNew ctx) st q)"
    "updateMapProposals (set_prequest_state ctx k st w) = updateMapProposals w"
    "nCFLocked (set_prequest_state ctx k st w) = nCFLocked w"
proof -
  let ?f = "\<lambda>pr. (CPaymentRequest_SetState (pindexNew ctx) st pr)\<lparr>pr_fDirty := True\<rparr>"
  have inv: "fund_inv ctx w" and q: "GetPaymentRequest (view w) k = Some q" using assms by (auto simp: ready_request_def)
  have "pr_fDirty q" using fund_view_dirty(2) inv q by (auto simp: fund_inv_def)
  then have f: "?f q = CPaymentRequest_SetState (pindexNew ctx) st q" by (simp add: CPaymentRequest_SetState_def)
  have "good_request k (?f q)"
    using fund_inv_good(2) [OF inv q] unfolding f
    by (simp add: good_request_def solid_request_def) (simp add: CPaymentRequest_SetState_def)
  note upd = upd_prequest_fund [OF inv q, where f = ?f, OF _ this, unfolded f, folded set_prequest_state_def]
  show "fund_inv ctx (set_prequest_state ctx k st w)"
    "fund_ledger (set_prequest_state ctx k st w) =
       (fund_ledger w)\<lparr>requests := (GetPaymentRequest (view w))(k \<mapsto> CPaymentRequest_SetState (pindexNew ctx) st q)\<rparr>"
    "GetProposal (view (set_prequest_state ctx k st w)) = GetProposal (view w)"
    "GetPaymentRequest (view (set_prequest_state ctx k st w)) =
       (GetPaymentRequest (view w))(k \<mapsto> CPaymentRequest_SetState (pindexNew ctx) st q)"
    "updateMapProposals (set_prequest_state ctx k st w) = updateMapProposals w"
    "nCFLocked (set_prequest_state ctx k st w) = nCFLocked w"
    by (simp_all add: upd)
qed

text \<open>What an iteration over requests may do: steps of the ledger that change no other item.\<close>

definition request_result :: "VoteCtx \<Rightarrow> uint256 \<Rightarrow> VoteWork \<Rightarrow> VoteWork \<Rightarrow> bool" where
  "request_result ctx k w w' = (fund_inv ctx w' \<and> ctx_steps ctx (fund_ledger w) (fund_ledger w') \<and>
     updateMapProposals w' = updateMapProposals w \<and> GetProposal (view w') = GetProposal (view w) \<and>
     (\<forall>j. j \<noteq> k \<longrightarrow> GetPaymentRequest (view w') j = GetPaymentRequest (view w) j))"

lemma request_result_trans:
  "request_result ctx k w w1 \<Longrightarrow> request_result ctx k w1 w' \<Longrightarrow> request_result ctx k w w'"
  by (auto simp: request_result_def)

lemma request_result_move:
  assumes "ready_request ctx k q w"
    and "fund_step (mapBlockIndex ctx) (pindexNew ctx) (cycle_ends ctx) (fund_ledger w)
      ((fund_ledger w)\<lparr>requests := (requests (fund_ledger w))(k \<mapsto> CPaymentRequest_SetState (pindexNew ctx) st q)\<rparr>)"
  shows "request_result ctx k w (set_prequest_state ctx k st w)"
  using set_prequest_state_fund [OF assms(1)] assms(2) by (auto simp: request_result_def)

lemma accept_prequest_fund:
  assumes ready: "ready_request ctx (fst it) q w" and same: "same_request (snd it) q"
    and "updateMapProposals w = []" "cycle_ends ctx"
    and nil: "CPaymentRequest_GetLastState (mapBlockIndex ctx) q = NIL" and won: "acc \<Longrightarrow> request_won q"
  shows "request_result ctx (fst it) w (accept_prequest ctx it acc w)"
proof -
  let ?mbi = "mapBlockIndex ctx" and ?b = "pindexNew ctx" and ?k = "fst it" and ?L = "fund_ledger w"
  have inv: "fund_inv ctx w" and q: "GetPaymentRequest (view w) ?k = Some q"
    and un: "unmoved ?mbi ?b (pr_mapState q)" using ready by (auto simp: ready_request_def)
  note set = set_prequest_state_fund [OF ready, of ACCEPTED]
  let ?w1 = "set_prequest_state ctx ?k ACCEPTED w"
  have amount: "pr_nAmount (snd it) = pr_nAmount q" "pr_proposalhash (snd it) = pr_proposalhash q"
    "pr_nAmount (seen_prequest ?k w) = pr_nAmount q"
    using same_requestD [OF same] by (simp_all add: seen_get(2) [OF q])
  have av: "CProposal_GetAvailable ?mbi (view w) False p = available ?mbi ?L p" for p
    using inv by (intro GetAvailable_ledger) (simp add: fund_inv_def)
  have "accept_prequest ctx it acc w = w \<or> (\<exists>p. map_of (mapProposals w) (pr_proposalhash q) = Some p \<and> funded ?mbi p \<and> acc \<and>
      pr_nAmount q \<le> available ?mbi ?L p \<and> (CProposal_IsSuper p \<or> pr_nAmount q \<le> nCFLocked w) \<and>
      accept_prequest ctx it acc w = ?w1\<lparr>nCFLocked := (if CProposal_IsSuper p then nCFLocked w else nCFLocked w - pr_nAmount q)\<rparr>)"
    using set(6)
    by (auto simp: accept_prequest_def amount av funded_def CProposal_IsSuper_def Let_def split: option.splits)
  then show ?thesis
  proof
    assume "accept_prequest ctx it acc w = w"
    with inv show ?thesis by (simp add: request_result_def)
  next
    assume "\<exists>p. map_of (mapProposals w) (pr_proposalhash q) = Some p \<and> funded ?mbi p \<and> acc \<and>
      pr_nAmount q \<le> available ?mbi ?L p \<and> (CProposal_IsSuper p \<or> pr_nAmount q \<le> nCFLocked w) \<and>
      accept_prequest ctx it acc w = ?w1\<lparr>nCFLocked := (if CProposal_IsSuper p then nCFLocked w else nCFLocked w - pr_nAmount q)\<rparr>"
    then obtain p where p: "map_of (mapProposals w) (pr_proposalhash q) = Some p" "funded ?mbi p" acc
      "pr_nAmount q \<le> available ?mbi ?L p" "CProposal_IsSuper p \<or> pr_nAmount q \<le> nCFLocked w"
      and w': "accept_prequest ctx it acc w =
        ?w1\<lparr>nCFLocked := (if CProposal_IsSuper p then nCFLocked w else nCFLocked w - pr_nAmount q)\<rparr>" by blast
    have gp: "GetProposal (view w) (pr_proposalhash q) = Some p"
      using synced_get [of w] inv assms(3) p(1) by (simp add: fund_inv_def)
    have "fund_step ?mbi ?b (cycle_ends ctx) ?L (fund_ledger (accept_prequest ctx it acc w))"
      unfolding w' fund_inv_local(6) set(2)
      using fund_step.accept_r [of "cycle_ends ctx" ?L ?k q ?mbi ?b p] assms(4) q un nil won p gp by (simp cong: if_cong)
    with set inv show ?thesis by (auto simp: request_result_def w')
  qed
qed

lemma step_prequest_fund:
  assumes del: "pindexDelete ctx = None" and ready: "ready_request ctx (fst it) q w" and same: "same_request (snd it) q"
    and upd: "updateMapProposals w = []" and step: "step_prequest ctx it w = Inr w'"
  shows "request_result ctx (fst it) w w'"
proof (cases "pr_txblockhash (snd it) = 0")
  case True
  with step ready show ?thesis by (simp add: step_prequest_def request_result_def ready_request_def Let_def)
next
  case False
  let ?mbi = "mapBlockIndex ctx" and ?b = "pindexNew ctx" and ?k = "fst it"
  have inv: "fund_inv ctx w" and q: "GetPaymentRequest (view w) ?k = Some q"
    and un: "unmoved ?mbi ?b (pr_mapState q)" using ready by (auto simp: ready_request_def)
  from False step obtain pb where pb: "?mbi (pr_txblockhash (snd it)) = Some pb"
    by (auto simp: step_prequest_def Let_def split: option.splits)
  define n where "n = min (elapsed_cycles ctx pb) (nCycleLength ctx + 1)"
  let ?enter = "\<lambda>pr. pr\<lparr>pr_nVotingCycle := ucast n, pr_fDirty := True\<rparr>"
  define old where "old = CPaymentRequest_GetLastState ?mbi (snd it)"
  define judged where "judged = (if old = NIL then ?enter (seen_prequest ?k w) else snd it)"
  define w1 where "w1 = (if old = NIL then set_prequest ?k ?enter w else w)"
  define q1 where "q1 = (if old = NIL then ?enter q else q)"
  have enter: "same_request q (?enter q)" unfolding same_request_def by blast
  have q1: "same_request q q1" "same_request (snd it) q1" "pr_mapState q1 = pr_mapState q"
    using same_request_trans [OF same enter] same enter by (auto simp: q1_def)
  have old: "CPaymentRequest_GetLastState ?mbi q1 = old" using same_requestD(10) [OF q1(2)] by (simp add: old_def)
  have good: "good_request ?k (?enter q)"
    using fund_inv_good(2) [OF inv q] by (simp add: good_request_def solid_request_def request_tallied_def)
  have w1: "ready_request ctx ?k q1 w1 \<and> request_result ctx ?k w w1"
  proof (cases "old = NIL")
    case True
    have fv: "fund_view (view w)" using inv by (simp add: fund_inv_def)
    have "\<forall>r. pr_fDirty r \<longrightarrow> pr_fDirty (?enter r)" by simp
    note set = set_prequest_fund [where f = ?enter, OF fv q this good]
    have inv1: "fund_inv ctx (set_prequest ?k ?enter w)"
      by (rule set_prequest_inv [where f = ?enter, OF inv q _ good enter]) simp
    have rc: "recount_request ?mbi q (?enter q)"
      using fund_inv_good(2) [OF inv q] by (simp add: recount_request_def good_request_def request_tallied_def)
    have led: "fund_ledger (set_prequest ?k ?enter w) = (fund_ledger w)\<lparr>requests := (GetPaymentRequest (view w))(?k \<mapsto> ?enter q)\<rparr>"
      using set by (simp add: fund_ledger_def ledger_of_def)
    have "ctx_steps ctx (fund_ledger w) (fund_ledger (set_prequest ?k ?enter w))"
      unfolding led by (rule recount_step_r [OF q rc])
    then show ?thesis
      using True set inv1 un by (simp add: w1_def q1_def ready_request_def request_result_def)
  next
    case False
    then show ?thesis using ready inv by (simp add: w1_def q1_def request_result_def)
  qed
  have judged: "request_tallied judged" "request_won judged = request_won q1" "request_lost judged = request_lost q1"
    using same_request_judged [OF same] same_request_judged [OF enter] fund_inv_good(2) [OF inv q]
    by (auto simp: judged_def q1_def seen_get(2) [OF q] good_request_def)
  have sh: "shares_at_least_half (par ctx) (view w)" using inv by (simp add: fund_inv_def)
  let ?exp = "CPaymentRequest_IsExpired (par ctx) ?mbi (view w) judged"
  let ?acc = "CPaymentRequest_IsAccepted (par ctx) (view w) judged"
  let ?rej = "CPaymentRequest_IsRejected (par ctx) (view w) judged"
  have w': "w' = (if \<not> cycle_ends ctx then w1
      else if ?exp then if old \<noteq> EXPIRED \<and> old \<noteq> ACCEPTED \<and> old \<noteq> REJECTED then set_prequest_state ctx ?k EXPIRED w1 else w1
      else if ?rej then if old \<noteq> REJECTED then set_prequest_state ctx ?k REJECTED w1 else w1
      else if old = NIL then accept_prequest ctx it ?acc w1 else w1)"
    using step False pb del unfolding step_prequest_def Let_def w1_def judged_def old_def n_def by auto
  have r1: "ready_request ctx ?k q1 w1" and inv1: "fund_inv ctx w1" and un1: "unmoved ?mbi ?b (pr_mapState q1)"
    and get1: "requests (fund_ledger w1) ?k = Some q1" and upd1: "updateMapProposals w1 = []"
    using w1 upd by (auto simp: ready_request_def request_result_def)
  have paid: "?exp \<Longrightarrow> old \<noteq> PAID"
    using same_requestD(10) [OF same] same_requestD(10) [OF enter]
    by (auto simp: CPaymentRequest_IsExpired_def judged_def old_def seen_get(2) [OF q] Let_def split: if_splits)
  note judge = request_judged [OF sh judged(1)]
  have "w' = w1 \<or> (cycle_ends ctx \<and> old \<notin> {EXPIRED, ACCEPTED, REJECTED, PAID} \<and> w' = set_prequest_state ctx ?k EXPIRED w1) \<or>
      (cycle_ends ctx \<and> old \<noteq> REJECTED \<and> request_lost q1 \<and> w' = set_prequest_state ctx ?k REJECTED w1) \<or>
      (cycle_ends ctx \<and> old = NIL \<and> w' = accept_prequest ctx it ?acc w1)"
    using w' paid judge judged by auto
  then have step1: "request_result ctx ?k w1 w'"
  proof (elim disjE conjE)
    assume "w' = w1"
    with inv1 show ?thesis by (simp add: request_result_def)
  next
    assume a: "cycle_ends ctx" "old \<notin> {EXPIRED, ACCEPTED, REJECTED, PAID}" "w' = set_prequest_state ctx ?k EXPIRED w1"
    show ?thesis unfolding a(3)
      by (rule request_result_move [OF r1 fund_step.expire_r [OF a(1) get1 un1]]) (use a(2) old in simp)
  next
    assume a: "cycle_ends ctx" "old \<noteq> REJECTED" "request_lost q1" "w' = set_prequest_state ctx ?k REJECTED w1"
    show ?thesis unfolding a(4)
      by (rule request_result_move [OF r1 fund_step.reject_r [OF a(1) get1 un1 _ a(3)]]) (use a(2) old in simp)
  next
    assume a: "cycle_ends ctx" "old = NIL" "w' = accept_prequest ctx it ?acc w1"
    show ?thesis unfolding a(3)
      by (rule accept_prequest_fund [OF r1 q1(2) upd1 a(1)]) (use a(2) old judge(1) judged(2) in simp_all)
  qed
  show ?thesis using request_result_trans [OF conjunct2 [OF w1] step1] .
qed

text \<open>A paid request is left alone: it can be neither voted nor expired, and it has won its vote.\<close>

lemma step_prequest_paid:
  assumes del: "pindexDelete ctx = None" and inv: "fund_inv ctx w" and q: "GetPaymentRequest (view w) (fst it) = Some q"
    and same: "same_request (snd it) q" and paid: "paid_now (mapBlockIndex ctx) (pindexNew ctx) q"
    and step: "step_prequest ctx it w = Inr w'"
  shows "w' = w"
proof -
  have old: "CPaymentRequest_GetLastState (mapBlockIndex ctx) (snd it) = PAID"
    using paid same_requestD(10) [OF same] by (simp add: paid_now_def)
  have "\<not> CPaymentRequest_IsExpired (par ctx) (mapBlockIndex ctx) (view w) (snd it)"
    using old by (simp add: CPaymentRequest_IsExpired_def Let_def)
  moreover have "request_tallied (snd it)" "request_won (snd it)"
    using same_request_judged [OF same] paid fund_inv_good(2) [OF inv q] by (auto simp: paid_now_def good_request_def)
  then have "\<not> CPaymentRequest_IsRejected (par ctx) (view w) (snd it)"
    using request_judged(2) [of "par ctx" "view w" "snd it"] not_won_and_lost(2) inv by (auto simp: fund_inv_def)
  ultimately show ?thesis
    using step del old by (auto simp: step_prequest_def Let_def split: option.splits if_splits)
qed

section \<open>Proposals at the end of a cycle\<close>

lemma proposal_judged:
  assumes "shares_at_least_half prm v" "proposal_tallied p"
  shows "CProposal_IsAccepted prm v p \<Longrightarrow> proposal_won p" "CProposal_IsRejected prm v p \<Longrightarrow> proposal_lost p"
  using proposal_more_than_half [OF assms(1), of p] assms(2)
  by (auto simp: proposal_won_def proposal_lost_def proposal_tallied_def CProposal_TotalVotes_def)

definition ready_proposal :: "VoteCtx \<Rightarrow> uint256 \<Rightarrow> CProposal \<Rightarrow> VoteWork \<Rightarrow> bool" where
  "ready_proposal ctx k p w = (fund_inv ctx w \<and> GetProposal (view w) k = Some p \<and>
     unmoved (mapBlockIndex ctx) (pindexNew ctx) (p_mapState p))"

definition proposal_result :: "VoteCtx \<Rightarrow> uint256 \<Rightarrow> VoteWork \<Rightarrow> VoteWork \<Rightarrow> bool" where
  "proposal_result ctx k w w' = (fund_inv ctx w' \<and> ctx_steps ctx (fund_ledger w) (fund_ledger w') \<and>
     updateMapPaymentRequests w' = updateMapPaymentRequests w \<and>
     GetPaymentRequest (view w') = GetPaymentRequest (view w) \<and>
     (\<forall>j. j \<noteq> k \<longrightarrow> GetProposal (view w') j = GetProposal (view w) j))"

lemma proposal_result_trans:
  "proposal_result ctx k w w1 \<Longrightarrow> proposal_result ctx k w1 w' \<Longrightarrow> proposal_result ctx k w w'"
  by (auto simp: proposal_result_def)

lemma proposal_result_move:
  assumes ready: "ready_proposal ctx k p w" and f: "f = CProposal_SetState (pindexNew ctx) st \<or>
      f = (\<lambda>p. (CProposal_SetState (pindexNew ctx) st p)\<lparr>p_fDirty := True\<rparr>)"
    and step: "fund_step (mapBlockIndex ctx) (pindexNew ctx) (cycle_ends ctx) (fund_ledger w)
      ((fund_ledger w)\<lparr>proposals := (proposals (fund_ledger w))(k \<mapsto> CProposal_SetState (pindexNew ctx) st p),
         fund_supply := s, fund_locked := l\<rparr>)"
  shows "proposal_result ctx k w ((upd_proposal k f w)\<lparr>nCFSupply := s, nCFLocked := l\<rparr>)"
proof -
  have inv: "fund_inv ctx w" and p: "GetProposal (view w) k = Some p" using ready by (auto simp: ready_proposal_def)
  have "p_fDirty p" using fund_view_dirty(1) inv p by (auto simp: fund_inv_def)
  with f have fp: "f p = CProposal_SetState (pindexNew ctx) st p" by (auto simp: CProposal_SetState_def)
  have d: "\<forall>q. p_fDirty q \<longrightarrow> p_fDirty (f q)" using f by (auto simp: CProposal_SetState_def)
  have "good_proposal k (f p)"
    using fund_inv_good(1) [OF inv p] unfolding fp
    by (simp add: good_proposal_def solid_proposal_def) (simp add: CProposal_SetState_def)
  note upd = upd_proposal_fund [where f = f, OF inv p d this]
  have "fund_ledger ((upd_proposal k f w)\<lparr>nCFSupply := s, nCFLocked := l\<rparr>) =
      (fund_ledger w)\<lparr>proposals := (proposals (fund_ledger w))(k \<mapsto> CProposal_SetState (pindexNew ctx) st p),
        fund_supply := s, fund_locked := l\<rparr>"
    by (simp add: upd(2) fp)
  with step have "ctx_steps ctx (fund_ledger w) (fund_ledger ((upd_proposal k f w)\<lparr>nCFSupply := s, nCFLocked := l\<rparr>))"
    by (metis r_into_rtranclp)
  then show ?thesis using upd(1,3-8) by (simp add: proposal_result_def)
qed

lemma proposal_result_move_same:
  assumes "ready_proposal ctx k p w" "f = CProposal_SetState (pindexNew ctx) st \<or>
      f = (\<lambda>p. (CProposal_SetState (pindexNew ctx) st p)\<lparr>p_fDirty := True\<rparr>)"
    and "fund_step (mapBlockIndex ctx) (pindexNew ctx) (cycle_ends ctx) (fund_ledger w)
      ((fund_ledger w)\<lparr>proposals := (proposals (fund_ledger w))(k \<mapsto> CProposal_SetState (pindexNew ctx) st p)\<rparr>)"
  shows "proposal_result ctx k w (upd_proposal k f w)"
proof -
  have same: "(upd_proposal k f w)\<lparr>nCFSupply := nCFSupply w, nCFLocked := nCFLocked w\<rparr> = upd_proposal k f w"
    by (simp add: upd_proposal_def set_proposal_def Let_def)
  have eq: "(fund_ledger w)\<lparr>proposals := x, fund_supply := nCFSupply w, fund_locked := nCFLocked w\<rparr> =
      (fund_ledger w)\<lparr>proposals := x\<rparr>" for x
    by (simp add: fund_ledger_def ledger_of_def)
  have "proposal_result ctx k w ((upd_proposal k f w)\<lparr>nCFSupply := nCFSupply w, nCFLocked := nCFLocked w\<rparr>)"
    by (rule proposal_result_move [OF assms(1,2)], subst eq, rule assms(3))
  then show ?thesis by (simp only: same)
qed

lemma pending_funded:
  assumes "GetProposal v k = Some p" "p_hash p' = k" "CProposal_HasPendingPaymentRequests mbi v p'"
  shows "funded mbi p"
  using assms
  by (auto simp: CProposal_HasPendingPaymentRequests_def CPaymentRequest_CanVote_def funded_def Let_def split: option.splits)

lemma expire_proposal_fund:
  assumes ready: "ready_proposal ctx (fst it) p w" and hash: "p_hash (snd it) = fst it" and ends: "cycle_ends ctx"
    and old: "CProposal_GetLastState (mapBlockIndex ctx) p = old" "old \<notin> {EXPIRED, ACCEPTED_EXPIRED, REJECTED}"
  shows "proposal_result ctx (fst it) w (expire_proposal ctx it old w)"
proof -
  let ?mbi = "mapBlockIndex ctx" and ?b = "pindexNew ctx" and ?k = "fst it" and ?L = "fund_ledger w"
  have inv: "fund_inv ctx w" and p: "GetProposal (view w) ?k = Some p" and un: "unmoved ?mbi ?b (p_mapState p)"
    using ready by (auto simp: ready_proposal_def)
  have get: "proposals ?L ?k = Some p" using p by simp
  have av: "CProposal_GetAvailable ?mbi (view w) False q = available ?mbi ?L q" for q
    using inv by (simp add: GetAvailable_ledger fund_inv_def)
  consider "CProposal_HasPendingPaymentRequests ?mbi (view w) (snd it)"
    | "\<not> CProposal_HasPendingPaymentRequests ?mbi (view w) (snd it)" "funded ?mbi p"
    | "\<not> CProposal_HasPendingPaymentRequests ?mbi (view w) (snd it)" "\<not> funded ?mbi p" by blast
  then show ?thesis
  proof cases
    case 1
    then have "expire_proposal ctx it old w = set_proposal_state ctx ?k PENDING_VOTING_PREQ w" by (simp add: expire_proposal_def)
    with fund_step.hold_p [OF ends get un pending_funded [OF p hash 1]] show ?thesis
      by (auto simp: set_proposal_state_def intro: proposal_result_move_same [OF ready])
  next
    case 2
    let ?s = "if CProposal_IsSuper p then nCFSupply w else nCFSupply w + available ?mbi ?L p"
    let ?l = "if CProposal_IsSuper p then nCFLocked w else nCFLocked w - available ?mbi ?L p"
    have "expire_proposal ctx it old w = (set_proposal_state ctx ?k ACCEPTED_EXPIRED w)\<lparr>nCFSupply := ?s, nCFLocked := ?l\<rparr>"
      using 2 old(1)
      by (auto simp: expire_proposal_def funded_def av seen_get(1) [OF p] CProposal_IsSuper_def set_proposal_state_def
          upd_proposal_def set_proposal_def Let_def)
    with fund_step.release_p [OF ends get un 2(2)] show ?thesis
      by (auto simp: set_proposal_state_def intro: proposal_result_move [OF ready] cong: if_cong)
  next
    case 3
    then have "expire_proposal ctx it old w = set_proposal_state ctx ?k EXPIRED w"
      using old(1) by (auto simp: expire_proposal_def funded_def)
    moreover have "CProposal_GetLastState ?mbi p \<notin> {ACCEPTED, PENDING_VOTING_PREQ, EXPIRED, ACCEPTED_EXPIRED, REJECTED}"
      using 3 old by (auto simp: funded_def)
    ultimately show ?thesis
      using fund_step.expire_p [OF ends get un]
      by (auto simp: set_proposal_state_def intro: proposal_result_move_same [OF ready])
  qed
qed

lemma accept_proposal_fund:
  assumes ready: "ready_proposal ctx (fst it) p w" and ends: "cycle_ends ctx"
    and same: "p_nAmount (snd it) = p_nAmount p" "p_hash (snd it) = p_hash p" "p_nVersion (snd it) = p_nVersion p"
    and old: "CProposal_GetLastState (mapBlockIndex ctx) p = old" "old \<in> {NIL, PENDING_FUNDS}" and won: "proposal_won p"
  shows "proposal_result ctx (fst it) w (accept_proposal ctx it old w)"
proof -
  let ?mbi = "mapBlockIndex ctx" and ?b = "pindexNew ctx" and ?k = "fst it" and ?L = "fund_ledger w"
  have inv: "fund_inv ctx w" and p: "GetProposal (view w) ?k = Some p" and un: "unmoved ?mbi ?b (p_mapState p)"
    using ready by (auto simp: ready_proposal_def)
  have get: "proposals ?L ?k = Some p" using p by simp
  have av: "CProposal_GetAvailable ?mbi (view w) False (snd it) = available ?mbi ?L p"
    "CProposal_GetAvailable ?mbi (view w) False (seen_proposal ?k w) = available ?mbi ?L p"
    using inv same by (simp_all add: GetAvailable_ledger fund_inv_def available_def seen_get(1) [OF p])
  have super: "has_flag (p_nVersion (snd it)) P_SUPER_VERSION = CProposal_IsSuper p"
    by (simp add: CProposal_IsSuper_def same)
  consider "CProposal_IsSuper p \<or> available ?mbi ?L p \<le> nCFSupply w"
    | "\<not> CProposal_IsSuper p" "nCFSupply w < available ?mbi ?L p" "old = NIL"
    | "\<not> CProposal_IsSuper p" "nCFSupply w < available ?mbi ?L p" "old = PENDING_FUNDS"
    using old(2) by fastforce
  then show ?thesis
  proof cases
    case 1
    let ?s = "if CProposal_IsSuper p then nCFSupply w else nCFSupply w - available ?mbi ?L p"
    let ?l = "if CProposal_IsSuper p then nCFLocked w else nCFLocked w + available ?mbi ?L p"
    have "accept_proposal ctx it old w = (set_proposal_state ctx ?k ACCEPTED w)\<lparr>nCFSupply := ?s, nCFLocked := ?l\<rparr>"
      using 1
      by (auto simp: accept_proposal_def av super set_proposal_state_def upd_proposal_def set_proposal_def Let_def)
    with fund_step.accept_p [OF ends get un _ won] old 1 show ?thesis
      by (auto simp: set_proposal_state_def intro: proposal_result_move [OF ready] cong: if_cong)
  next
    case 2
    then have "accept_proposal ctx it old w = set_proposal_state ctx ?k PENDING_FUNDS w"
      by (simp add: accept_proposal_def av super Let_def)
    with fund_step.wait_p [OF ends get un _ won] old 2 show ?thesis
      by (auto simp: set_proposal_state_def intro: proposal_result_move_same [OF ready])
  next
    case 3
    then have "accept_proposal ctx it old w = w" by (simp add: accept_proposal_def av super Let_def)
    with inv show ?thesis by (simp add: proposal_result_def)
  qed
qed

lemma step_proposal_fund:
  assumes del: "pindexDelete ctx = None" and ready: "ready_proposal ctx (fst it) (snd it) w"
  shows "proposal_result ctx (fst it) w (step_proposal ctx it w)"
proof (cases "p_txblockhash (snd it) = 0 \<or> mapBlockIndex ctx (p_txblockhash (snd it)) = None")
  case True
  with ready show ?thesis by (auto simp: step_proposal_def proposal_result_def ready_proposal_def Let_def)
next
  case False
  let ?mbi = "mapBlockIndex ctx" and ?b = "pindexNew ctx" and ?k = "fst it" and ?p = "snd it"
  have inv: "fund_inv ctx w" and p: "GetProposal (view w) ?k = Some ?p" and un: "unmoved ?mbi ?b (p_mapState ?p)"
    using ready by (auto simp: ready_proposal_def)
  from False obtain pb where pb: "?mbi (p_txblockhash ?p) = Some pb" by auto
  define n where "n = min (elapsed_cycles ctx pb) (param ctx PROPOSAL_MAX_VOTING_CYCLES w + 1)"
  let ?enter = "\<lambda>p. p\<lparr>p_nVotingCycle := ucast n, p_fDirty := True\<rparr>"
  define old where "old = CProposal_GetLastState ?mbi ?p"
  define w1 where "w1 = (if old = NIL then upd_proposal ?k ?enter w else w)"
  define p1 where "p1 = (if old = NIL then ?enter ?p else ?p)"
  have p1: "p_nAmount ?p = p_nAmount p1" "p_hash ?p = p_hash p1" "p_nVersion ?p = p_nVersion p1"
    "CProposal_GetLastState ?mbi p1 = old" "proposal_won p1 = proposal_won ?p" "proposal_lost p1 = proposal_lost ?p"
    by (simp_all add: p1_def old_def CProposal_GetLastState_def proposal_won_def proposal_lost_def CProposal_TotalVotes_def)
  have good: "good_proposal ?k ?p" by (rule fund_inv_good(1) [OF inv p])
  have w1: "ready_proposal ctx ?k p1 w1 \<and> proposal_result ctx ?k w w1"
  proof (cases "old = NIL")
    case True
    have g: "good_proposal ?k (?enter ?p)" "\<forall>q. p_fDirty q \<longrightarrow> p_fDirty (?enter q)"
      using good by (simp_all add: good_proposal_def solid_proposal_def proposal_tallied_def)
    note upd = upd_proposal_fund [where f = ?enter, OF inv p g(2,1)]
    have rc: "recount_proposal ?mbi ?p (?enter ?p)"
      using good by (simp add: recount_proposal_def good_proposal_def proposal_tallied_def)
    have "ctx_steps ctx (fund_ledger w) (fund_ledger (upd_proposal ?k ?enter w))"
      unfolding upd(2) by (rule recount_step_p [OF p rc])
    then show ?thesis
      using True upd(1,3-8) un by (simp add: w1_def p1_def ready_proposal_def proposal_result_def)
  next
    case False
    then show ?thesis using ready inv by (simp add: w1_def p1_def proposal_result_def)
  qed
  then have r1: "ready_proposal ctx ?k p1 w1" and inv1: "fund_inv ctx w1" and un1: "unmoved ?mbi ?b (p_mapState p1)"
    and get1: "proposals (fund_ledger w1) ?k = Some p1" by (auto simp: ready_proposal_def)
  have "shares_at_least_half (par ctx) (view w)" using inv by (simp add: fund_inv_def)
  note judge = proposal_judged [OF this, of ?p]
  have "step_proposal ctx it w = w1 \<or>
      (cycle_ends ctx \<and> old \<notin> {EXPIRED, ACCEPTED_EXPIRED, REJECTED} \<and> step_proposal ctx it w = expire_proposal ctx it old w1) \<or>
      (cycle_ends ctx \<and> old \<noteq> REJECTED \<and> proposal_lost p1 \<and> step_proposal ctx it w = upd_proposal ?k (CProposal_SetState ?b REJECTED) w1) \<or>
      (cycle_ends ctx \<and> old \<in> {NIL, PENDING_FUNDS} \<and> proposal_won p1 \<and> step_proposal ctx it w = accept_proposal ctx it old w1)"
    using False pb del judge good unfolding p1(5,6) w1_def
    by (simp add: step_proposal_def old_def n_def good_proposal_def Let_def)
  then have "proposal_result ctx ?k w1 (step_proposal ctx it w)"
  proof (elim disjE conjE)
    assume "step_proposal ctx it w = w1"
    with inv1 show ?thesis by (simp add: proposal_result_def)
  next
    assume a: "cycle_ends ctx" "old \<notin> {EXPIRED, ACCEPTED_EXPIRED, REJECTED}" "step_proposal ctx it w = expire_proposal ctx it old w1"
    show ?thesis unfolding a(3)
      by (rule expire_proposal_fund [OF r1 _ a(1) p1(4) a(2)]) (use good in \<open>simp add: good_proposal_def\<close>)
  next
    assume a: "cycle_ends ctx" "old \<noteq> REJECTED" "proposal_lost p1"
      "step_proposal ctx it w = upd_proposal ?k (CProposal_SetState ?b REJECTED) w1"
    show ?thesis unfolding a(4)
      by (rule proposal_result_move_same [OF r1 disjI1 [OF refl] fund_step.reject_p [OF a(1) get1 un1 _ a(3)]])
        (use a(2) p1(4) in simp)
  next
    assume a: "cycle_ends ctx" "old \<in> {NIL, PENDING_FUNDS}" "proposal_won p1" "step_proposal ctx it w = accept_proposal ctx it old w1"
    show ?thesis unfolding a(4) by (rule accept_proposal_fund [OF r1 a(1) p1(1-4) a(2,3)])
  qed
  with w1 show ?thesis by (blast intro: proposal_result_trans)
qed

section \<open>The passes\<close>

lemma cfund_step_fund:
  assumes del: "pindexDelete ctx = None" and inv: "fund_inv ctx w" and un: "before_moves (mapBlockIndex ctx) (pindexNew ctx) (fund_ledger w)"
    and upd: "updateMapProposals w = []" "updateMapPaymentRequests w = []" and step: "cfund_step_pass ctx w = Inr w'"
  shows "fund_inv ctx w' \<and> ctx_steps ctx (fund_ledger w) (fund_ledger w') \<and>
    updateMapProposals w' = [] \<and> updateMapPaymentRequests w' = []"
proof -
  let ?unm = "unmoved (mapBlockIndex ctx) (pindexNew ctx)"
  let ?can = "\<lambda>q. ?unm (pr_mapState q) \<or> paid_now (mapBlockIndex ctx) (pindexNew ctx) q"
  let ?I = "\<lambda>xs u. distinct (map fst xs) \<and>
    (\<forall>it \<in> set xs. \<exists>q. GetPaymentRequest (view u) (fst it) = Some q \<and> same_request (snd it) q \<and> ?can q) \<and>
    fund_inv ctx u \<and> updateMapProposals u = [] \<and> GetProposal (view u) = GetProposal (view w) \<and>
    ctx_steps ctx (fund_ledger w) (fund_ledger u)"
  from step obtain u where u: "foldR (step_prequest ctx) (mapPaymentRequests w) w = Inr u"
    and w': "w' = merge_proposals (fold (step_proposal ctx) (mapProposals (merge_prequests u)) (merge_prequests u))"
    by (auto simp: cfund_step_pass_def Let_def)
  have "?I [] u"
  proof (rule foldR_remaining [where I = ?I, OF u])
    have ok: "omap_ok (mapPaymentRequests w)" using inv by (simp add: fund_inv_def synced_requests_def)
    have "\<exists>q. GetPaymentRequest (view w) (fst it) = Some q \<and> same_request (snd it) q \<and> ?can q"
      if "it \<in> set (mapPaymentRequests w)" for it
    proof -
      have "map_of (mapPaymentRequests w) (fst it) = Some (snd it)"
        using that omap_ok_distinct [OF ok] by (simp add: map_of_is_SomeI)
      then obtain q where "GetPaymentRequest (view w) (fst it) = Some q" "same_request (snd it) q"
        using synced_get_request [of w "fst it" "snd it"] inv upd by (auto simp: fund_inv_def)
      with un show ?thesis by (auto simp: before_moves_def)
    qed
    then show "?I (mapPaymentRequests w) w" using inv upd omap_ok_distinct [OF ok] by simp
    show "?I xs t" if I: "?I (it # xs) s" and t: "step_prequest ctx it s = Inr t" for it xs s t
    proof -
      from I obtain q where q: "GetPaymentRequest (view s) (fst it) = Some q" "same_request (snd it) q" "?can q" by auto
      from q(3) have "request_result ctx (fst it) s t"
      proof
        assume "?unm (pr_mapState q)"
        with q(1) I have "ready_request ctx (fst it) q s" by (simp add: ready_request_def)
        then show ?thesis using step_prequest_fund [OF del _ q(2) _ t] I by simp
      next
        assume "paid_now (mapBlockIndex ctx) (pindexNew ctx) q"
        with step_prequest_paid [OF del _ q(1,2) _ t] I show ?thesis by (simp add: request_result_def)
      qed
      moreover have "distinct (map fst (it # xs))" using I by simp
      ultimately show ?thesis using I distinct_keys_Cons [of it xs] by (auto simp: request_result_def)
    qed
  qed
  then have R: "fund_inv ctx (merge_prequests u)" "ctx_steps ctx (fund_ledger w) (fund_ledger (merge_prequests u))"
    "GetProposal (view (merge_prequests u)) = GetProposal (view w)" "updateMapProposals (merge_prequests u) = []"
    by (auto intro: fund_inv_merge)
  let ?v = "merge_prequests u"
  let ?J = "\<lambda>xs s. distinct (map fst xs) \<and>
    (\<forall>it \<in> set xs. GetProposal (view s) (fst it) = Some (snd it) \<and> ?unm (p_mapState (snd it))) \<and>
    fund_inv ctx s \<and> updateMapPaymentRequests s = [] \<and> ctx_steps ctx (fund_ledger w) (fund_ledger s)"
  have "?J [] (fold (step_proposal ctx) (mapProposals ?v) ?v)"
  proof (rule fold_remaining [where I = ?J])
    have ok: "omap_ok (mapProposals ?v)" "map_of (mapProposals ?v) = GetProposal (view w)"
      using R by (simp_all add: fund_inv_def synced_proposals_def)
    then have "GetProposal (view w) (fst it) = Some (snd it)" if "it \<in> set (mapProposals ?v)" for it
      using that omap_ok_distinct [OF ok(1)] by (metis map_of_is_SomeI prod.collapse)
    with un R omap_ok_distinct [OF ok(1)] show "?J (mapProposals ?v) ?v" by (auto simp: before_moves_def)
    show "?J xs (step_proposal ctx it s)" if J: "?J (it # xs) s" for it xs s
    proof -
      have "proposal_result ctx (fst it) s (step_proposal ctx it s)"
        using J by (intro step_proposal_fund [OF del]) (simp add: ready_proposal_def)
      moreover have "distinct (map fst (it # xs))" using J by simp
      ultimately show ?thesis using J distinct_keys_Cons [of it xs] by (auto simp: proposal_result_def)
    qed
  qed
  then show ?thesis by (auto simp: w' intro: fund_inv_merge)
qed

lemma restart_prequest_fund:
  assumes "fund_view (view w)" "GetPaymentRequest (view w) (fst it) = Some q" "same_request (snd it) q"
  shows "fund_view (view (restart_prequest ctx it w))"
    "ctx_recounts ctx (fund_ledger w) (fund_ledger (restart_prequest ctx it w))"
    "GetProposal (view (restart_prequest ctx it w)) = GetProposal (view w)"
    "j \<noteq> fst it \<Longrightarrow> GetPaymentRequest (view (restart_prequest ctx it w)) j = GetPaymentRequest (view w) j"
proof -
  let ?f = "\<lambda>pr. pr\<lparr>pr_nVotesYes := 0, pr_nVotesNo := 0, pr_fDirty := True\<rparr>" and ?w = "restart_prequest ctx it w"
  have g: "good_request (fst it) (?f q)" "\<forall>r. pr_fDirty r \<longrightarrow> pr_fDirty (?f r)"
    using assms(1,2) by (auto simp: fund_view_def good_request_def solid_request_def request_tallied_def)
  note set = set_prequest_fund [where f = ?f, OF assms(1,2) g(2,1)]
  have led: "fund_ledger (set_prequest (fst it) ?f w) = (fund_ledger w)\<lparr>requests := (GetPaymentRequest (view w))(fst it \<mapsto> ?f q)\<rparr>"
    using set by (simp add: fund_ledger_def ledger_of_def)
  have "ctx_recounts ctx (fund_ledger w) (fund_ledger (set_prequest (fst it) ?f w))"
    if "CPaymentRequest_CanVote (mapBlockIndex ctx) (view w) (snd it)"
  proof -
    have "CPaymentRequest_GetLastState (mapBlockIndex ctx) q = NIL"
      using that same_requestD(10) [OF assms(3)] by (simp add: CPaymentRequest_CanVote_def Let_def split: option.splits)
    with g(1) have "recount_request (mapBlockIndex ctx) q (?f q)"
      by (simp add: recount_request_def good_request_def)
    then show ?thesis unfolding led by (rule recount_step_r [OF assms(2)])
  qed
  with set assms(1) show "fund_view (view ?w)" "ctx_recounts ctx (fund_ledger w) (fund_ledger ?w)"
    "GetProposal (view ?w) = GetProposal (view w)"
    "j \<noteq> fst it \<Longrightarrow> GetPaymentRequest (view ?w) j = GetPaymentRequest (view w) j"
    by (simp_all add: restart_prequest_def)
qed

lemma restart_proposal_fund:
  assumes "fund_view (view w)" "GetProposal (view w) (fst it) = Some (snd it)"
  shows "fund_view (view (restart_proposal ctx it w))"
    "ctx_recounts ctx (fund_ledger w) (fund_ledger (restart_proposal ctx it w))"
    "j \<noteq> fst it \<Longrightarrow> GetProposal (view (restart_proposal ctx it w)) j = GetProposal (view w) j"
proof -
  let ?f = "\<lambda>p. p\<lparr>p_nVotesYes := 0, p_nVotesNo := 0, p_fDirty := True\<rparr>" and ?w = "restart_proposal ctx it w"
  have g: "good_proposal (fst it) (?f (snd it))" "\<forall>r. p_fDirty r \<longrightarrow> p_fDirty (?f r)"
    using assms by (auto simp: fund_view_def good_proposal_def solid_proposal_def proposal_tallied_def)
  note set = set_proposal_fund [where f = ?f, OF assms g(2,1)]
  have led: "fund_ledger (set_proposal (fst it) ?f w) = (fund_ledger w)\<lparr>proposals := (GetProposal (view w))(fst it \<mapsto> ?f (snd it))\<rparr>"
    using set by (simp add: fund_ledger_def ledger_of_def)
  have "ctx_recounts ctx (fund_ledger w) (fund_ledger (set_proposal (fst it) ?f w))"
    if "CProposal_CanVote (mapBlockIndex ctx) (snd it)"
  proof -
    from that g(1) have "recount_proposal (mapBlockIndex ctx) (snd it) (?f (snd it))"
      by (simp add: recount_proposal_def good_proposal_def CProposal_CanVote_def)
    then show ?thesis unfolding led by (rule recount_step_p [OF assms(2)])
  qed
  with set assms(1) show "fund_view (view ?w)" "ctx_recounts ctx (fund_ledger w) (fund_ledger ?w)"
    "j \<noteq> fst it \<Longrightarrow> GetProposal (view ?w) j = GetProposal (view w) j"
    by (simp_all add: restart_proposal_def)
qed

lemma restart_cfund:
  assumes inv: "fund_inv ctx w" and upd: "updateMapProposals w = []" "updateMapPaymentRequests w = []"
  defines "w' \<equiv> fold (restart_proposal ctx) (mapProposals w) (fold (restart_prequest ctx) (mapPaymentRequests w) w)"
  shows "fund_view (view w') \<and> ctx_recounts ctx (fund_ledger w) (fund_ledger w')"
proof -
  let ?u = "fold (restart_prequest ctx) (mapPaymentRequests w) w"
  have ok: "omap_ok (mapPaymentRequests w)" "omap_ok (mapProposals w)" "map_of (mapProposals w) = GetProposal (view w)"
    using inv upd by (simp_all add: fund_inv_def synced_requests_def synced_proposals_def)
  let ?I = "\<lambda>xs s. distinct (map fst xs) \<and>
    (\<forall>it \<in> set xs. \<exists>q. GetPaymentRequest (view s) (fst it) = Some q \<and> same_request (snd it) q) \<and>
    fund_view (view s) \<and> GetProposal (view s) = GetProposal (view w) \<and> ctx_recounts ctx (fund_ledger w) (fund_ledger s)"
  have "?I [] ?u"
  proof (rule fold_remaining [where I = ?I])
    have "\<exists>q. GetPaymentRequest (view w) (fst it) = Some q \<and> same_request (snd it) q"
      if "it \<in> set (mapPaymentRequests w)" for it
    proof -
      have "map_of (mapPaymentRequests w) (fst it) = Some (snd it)"
        using that omap_ok_distinct [OF ok(1)] by (simp add: map_of_is_SomeI)
      then show ?thesis using synced_get_request [of w "fst it" "snd it"] inv upd by (auto simp: fund_inv_def)
    qed
    with inv omap_ok_distinct [OF ok(1)] show "?I (mapPaymentRequests w) w" by (simp add: fund_inv_def)
    show "?I xs (restart_prequest ctx it s)" if I: "?I (it # xs) s" for it xs s
    proof -
      from I obtain q where q: "fund_view (view s)" "GetPaymentRequest (view s) (fst it) = Some q" "same_request (snd it) q"
        by auto
      have "distinct (map fst (it # xs))" using I by simp
      with I restart_prequest_fund [where ctx = ctx, OF q] distinct_keys_Cons [of it xs] show ?thesis
        by (auto intro: rtranclp_trans)
    qed
  qed
  moreover let ?J = "\<lambda>xs s. distinct (map fst xs) \<and> (\<forall>it \<in> set xs. GetProposal (view s) (fst it) = Some (snd it)) \<and>
    fund_view (view s) \<and> ctx_recounts ctx (fund_ledger w) (fund_ledger s)"
  have "?J [] w'"
    unfolding w'_def
  proof (rule fold_remaining [where I = ?J])
    have "GetProposal (view w) (fst it) = Some (snd it)" if "it \<in> set (mapProposals w)" for it
      using that omap_ok_distinct [OF ok(2)] ok(3) by (metis map_of_is_SomeI prod.collapse)
    with calculation omap_ok_distinct [OF ok(2)] show "?J (mapProposals w) ?u" by auto
    show "?J xs (restart_proposal ctx it s)" if J: "?J (it # xs) s" for it xs s
    proof -
      have "distinct (map fst (it # xs))" and p: "fund_view (view s)" "GetProposal (view s) (fst it) = Some (snd it)"
        using J by auto
      with J restart_proposal_fund [where ctx = ctx, OF p] distinct_keys_Cons [of it xs] show ?thesis
        by (auto intro: rtranclp_trans)
    qed
  qed
  then show ?thesis by simp
qed

end
