(* ===== verification/VoteStepLaws.thy ===== *)
theory VoteStepLaws
  imports FundSteps
begin

text \<open>
  The guarantees of \<open>VoteStep\<close> for a connected block, obtained from the ledger it implements: the coins locked
  in the fund are what the accepted proposals have left, coins leave the fund through accepted payment
  requests only, items move through their states along legal moves and at most once per block, and
  nothing moves between the ends of cycles.
\<close>

section \<open>The last pass\<close>

lemma parameters_pass_frame:
  "GetProposal (view (parameters_pass ctx w)) = GetProposal (view w)"
  "GetPaymentRequest (view (parameters_pass ctx w)) = GetPaymentRequest (view w)"
  "base (view (parameters_pass ctx w)) = base (view w)"
  "nCFSupply (parameters_pass ctx w) = nCFSupply w" "nCFLocked (parameters_pass ctx w) = nCFLocked w"
  "view_ok (view w) \<Longrightarrow> view_ok (view (parameters_pass ctx w))"
proof -
  have d: "cp_fDirty (CConsensusParameter_Set h x cp) = cp_fDirty cp" for h x cp
    by (simp add: CConsensusParameter_Set_def)
  let ?R = "\<lambda>w w'. cacheProposals (view w') = cacheProposals (view w) \<and>
     cachePaymentRequests (view w') = cachePaymentRequests (view w) \<and> base (view w') = base (view w) \<and>
     nCFSupply w' = nCFSupply w \<and> nCFLocked w' = nCFLocked w \<and> (view_ok (view w) \<longrightarrow> view_ok (view w'))"
  have "?R w (fold (change_parameter ctx) l w)" for l
  proof (induction l arbitrary: w)
    case (Cons it l)
    have "?R w (change_parameter ctx it w)"
      using viewS.ok_modify by (simp add: change_parameter_def d) (simp add: ModifyConsensusParameter_def)
    with Cons.IH [of "change_parameter ctx it w"] show ?case by simp
  qed simp
  then have R: "?R w (parameters_pass ctx w)" by (simp add: parameters_pass_def)
  then show "GetProposal (view (parameters_pass ctx w)) = GetProposal (view w)"
    "GetPaymentRequest (view (parameters_pass ctx w)) = GetPaymentRequest (view w)"
    "base (view (parameters_pass ctx w)) = base (view w)"
    "nCFSupply (parameters_pass ctx w) = nCFSupply w" "nCFLocked (parameters_pass ctx w) = nCFLocked w"
    "view_ok (view w) \<Longrightarrow> view_ok (view (parameters_pass ctx w))"
    by (auto intro: get_frame)
qed

lemma parameters_pass_fund:
  "fund_ledger (parameters_pass ctx w) = fund_ledger w"
  "fund_view (view w) \<Longrightarrow> fund_view (view (parameters_pass ctx w))"
  by (simp_all add: fund_ledger_def ledger_of_def fund_view_def parameters_pass_frame)

section \<open>All passes\<close>

lemma fund_frame_restart_dao:
  "fund_frame w (fold (restart_answer ctx) xs (fold (restart_consultation ctx) ys w))"
  by (rule fund_frame_trans; rule fund_frame_fold; rule fund_frame_restart)

lemma fund_view_frame:
  assumes "fund_frame w w'" "fund_view (view w)"
  shows "fund_view (view w')"
proof -
  have "GetProposal (view w') = GetProposal (view w)" "GetPaymentRequest (view w') = GetPaymentRequest (view w)"
    using assms(1) by (auto simp: fund_frame_def intro!: get_frame)
  with assms show ?thesis by (simp add: fund_view_def fund_frame_def)
qed

lemma restart_pass_fund:
  assumes "fund_view (view w)"
    and "cf \<Longrightarrow> fund_inv ctx w \<and> updateMapProposals w = [] \<and> updateMapPaymentRequests w = []"
  shows "fund_view (view (restart_pass ctx cf dao w))"
    "ctx_recounts ctx (fund_ledger w) (fund_ledger (restart_pass ctx cf dao w))"
proof -
  define w1 where "w1 = (if cf then fold (restart_proposal ctx) (mapProposals w)
    (fold (restart_prequest ctx) (mapPaymentRequests w) w) else w)"
  have w1: "fund_view (view w1)" "ctx_recounts ctx (fund_ledger w) (fund_ledger w1)"
    using assms restart_cfund [of ctx w] by (auto simp: w1_def)
  have "fund_frame w1 (restart_pass ctx cf dao w)"
    unfolding restart_pass_def Let_def w1_def [symmetric] by (simp add: fund_frame_restart_dao)
  from fund_view_frame [OF this] fund_ledger_frame [OF this] w1
  show "fund_view (view (restart_pass ctx cf dao w))"
    "ctx_recounts ctx (fund_ledger w) (fund_ledger (restart_pass ctx cf dao w))" by simp_all
qed

text \<open>Counters as the scan leaves them.\<close>

definition counters_sound :: "VoteCounters \<Rightarrow> bool" where
  "counters_sound g = (counters_ok g \<and> (\<exists>n. tallies_within n g))"

lemma counters_sound_scan:
  assumes "counters_sound g"
  shows "counters_sound (snd (scan_votes env v a c u len b g))"
proof -
  have "counters_ok (scan_blocks env v a c n p h)" if "counters_ok h" for n p h
    using that by (induction env v a c n p h rule: scan_blocks.induct) simp_all
  then have scan: "counters_sound (scan_blocks env v a c n p h)" if "counters_sound h" for n p h
    using that unfolding counters_sound_def by (blast intro: tallies_within_scan_blocks)
  have hash: "counters_sound (h\<lparr>lastConsensusStateHash := x\<rparr>) = counters_sound h" for h x
    by (simp add: counters_sound_def counters_ok_def tallies_within_def)
  have "counters_sound (clear_counters g)" using tallies_within_clear by (auto simp: counters_sound_def)
  with assms show ?thesis unfolding scan_votes_def Let_def snd_conv by (intro scan) (simp add: hash)
qed

lemma counters_sound_tallies:
  assumes "counters_sound g"
  shows "\<forall>it \<in> set (mapCacheProposalsToUpdate g) \<union> set (mapCachePaymentRequestToUpdate g). tally_nonneg (snd it)"
proof -
  have get: "omap_get d (fst it) m = snd it" if "omap_ok m" "it \<in> set m" for d m and it :: "uint256 \<times> tally"
    unfolding omap_get_def using that omap_ok_distinct [of m] by (subst map_of_is_SomeI [of m "fst it" "snd it"]) simp_all
  from assms obtain n where n: "tallies_within n g" and ok: "omap_ok (mapCacheProposalsToUpdate g)"
    "omap_ok (mapCachePaymentRequestToUpdate g)" by (auto simp: counters_sound_def counters_ok_def)
  from n have "tally_nonneg (omap_get ((0, 0), 0) k (mapCacheProposalsToUpdate g))"
    "tally_nonneg (omap_get ((0, 0), 0) k (mapCachePaymentRequestToUpdate g))" for k
    by (auto simp: tallies_within_def Let_def)
  with get [OF ok(1)] get [OF ok(2)] show ?thesis by (metis Un_iff)
qed

text \<open>What holds between the passes.\<close>

definition between_passes :: "VoteCtx \<Rightarrow> bool \<Rightarrow> VoteWork \<Rightarrow> bool" where
  "between_passes ctx cf w = (fund_view (view w) \<and>
     (cf \<longrightarrow> fund_inv ctx w \<and> updateMapProposals w = [] \<and> updateMapPaymentRequests w = []))"

lemma between_passes_frame:
  assumes "between_passes ctx cf w" "fund_frame w w'"
  shows "between_passes ctx cf w'" "fund_ledger w' = fund_ledger w"
  using assms(1) fund_view_frame [OF assms(2)] fund_inv_frame [OF _ assms(2)] fund_ledger_frame [OF assms(2)]
    assms(2) [unfolded fund_frame_def] by (auto simp: between_passes_def)

lemma fund_inv_view: "fund_inv ctx w \<Longrightarrow> fund_view (view w)"
  by (simp add: fund_inv_def)

lemma votes_between:
  assumes "pindexDelete ctx = None" "between_passes ctx cf w" "counters_sound g"
    and "(if cf then cfund_votes_pass ctx g w else Inr w) = Inr w'"
  shows "between_passes ctx cf w'" "ctx_recounts ctx (fund_ledger w) (fund_ledger w')"
proof -
  have ok: "omap_ok (mapCacheProposalsToUpdate g)" "omap_ok (mapCachePaymentRequestToUpdate g)"
    using assms(3) by (simp_all add: counters_sound_def counters_ok_def)
  have "between_passes ctx cf w' \<and> ctx_recounts ctx (fund_ledger w) (fund_ledger w')"
  proof (cases cf)
    case True
    with assms have "cfund_votes_pass ctx g w = Inr w'" "fund_inv ctx w" "updateMapProposals w = []"
      "updateMapPaymentRequests w = []" by (simp_all add: between_passes_def)
    from cfund_votes_fund [OF assms(1) this(2-4) ok counters_sound_tallies [OF assms(3)] this(1)] show ?thesis
      by (auto simp: between_passes_def intro: fund_inv_view)
  qed (use assms in simp)
  then show "between_passes ctx cf w'" "ctx_recounts ctx (fund_ledger w) (fund_ledger w')" by simp_all
qed

lemma step_between:
  assumes "pindexDelete ctx = None" "between_passes ctx cf w"
    and "before_moves (mapBlockIndex ctx) (pindexNew ctx) (fund_ledger w)"
    and "(if cf then cfund_step_pass ctx w else Inr w) = Inr w'"
  shows "between_passes ctx cf w'" "ctx_steps ctx (fund_ledger w) (fund_ledger w')"
proof -
  have "between_passes ctx cf w' \<and> ctx_steps ctx (fund_ledger w) (fund_ledger w')"
  proof (cases cf)
    case True
    with assms have "cfund_step_pass ctx w = Inr w'" "fund_inv ctx w" "updateMapProposals w = []"
      "updateMapPaymentRequests w = []" by (simp_all add: between_passes_def)
    from cfund_step_fund [OF assms(1) this(2) assms(3) this(3,4,1)] show ?thesis
      by (auto simp: between_passes_def intro: fund_inv_view)
  qed (use assms in simp)
  then show "between_passes ctx cf w'" "ctx_steps ctx (fund_ledger w) (fund_ledger w')" by simp_all
qed

lemma run_passes_fund:
  assumes del: "pindexDelete ctx = None" and w: "between_passes ctx cf w"
    and un: "before_moves (mapBlockIndex ctx) (pindexNew ctx) (fund_ledger w)"
    and g: "counters_sound g" and run: "run_passes ctx cf dao g w = Inr w'"
  shows "fund_view (view w')" "ctx_steps ctx (fund_ledger w) (fund_ledger w')"
proof -
  define v1 where "v1 = (\<lambda>u. if dao then dao_votes_pass ctx g u else u)"
  define v2 where "v2 = (\<lambda>u. (v1 u)\<lparr>view := SetExcludeVotes (nCacheExclude g) (view (v1 u))\<rparr>)"
  define v3 where "v3 = (\<lambda>u. if fScanningWholeCycle ctx then restart_pass ctx cf dao u else u)"
  from run obtain u1 u2 u3 where u1: "(if cf then cfund_votes_pass ctx g w else Inr w) = Inr u1"
    and u2: "(if cf then cfund_step_pass ctx (v2 u1) else Inr (v2 u1)) = Inr u2"
    and u3: "(if dao then dao_step_pass ctx u2 else Inr u2) = Inr u3" and w': "w' = parameters_pass ctx (v3 u3)"
    unfolding run_passes_def Let_def v1_def v2_def v3_def by (elim bindR_InrE) auto
  note r1 = votes_between [OF del w g u1]
  have "fund_frame u1 (v1 u1)" by (simp add: v1_def fund_frame_dao_votes)
  then have "fund_frame u1 (v2 u1)"
    by (simp add: v2_def fund_frame_def SetExcludeVotes_def view_ok_def cache_ok_def)
  note r2 = between_passes_frame [OF r1(1) this]
  have "before_moves (mapBlockIndex ctx) (pindexNew ctx) (fund_ledger (v2 u1))"
    using before_moves_quiet [OF r1(2) un] r2(2) by simp
  note r3 = step_between [OF del r2(1) this u2]
  have "fund_frame u2 u3" using u3 fund_frame_dao_step by (auto split: if_splits)
  note r4 = between_passes_frame [OF r3(1) this]
  have r5: "fund_view (view (v3 u3))" "ctx_recounts ctx (fund_ledger u3) (fund_ledger (v3 u3))"
    using restart_pass_fund [of u3 cf ctx dao] r4(1) by (auto simp: v3_def between_passes_def)
  then show "fund_view (view w')" by (simp add: w' parameters_pass_fund)
  have "ctx_steps ctx (fund_ledger w) (fund_ledger u1)" by (rule fund_steps_any [OF r1(2)])
  also have "ctx_steps ctx (fund_ledger u1) (fund_ledger u3)" using r3(2) by (simp add: r2(2) r4(2))
  also have "ctx_steps ctx (fund_ledger u3) (fund_ledger w')"
    using fund_steps_any [OF r5(2)] by (simp add: w' parameters_pass_fund)
  finally show "ctx_steps ctx (fund_ledger w) (fund_ledger w')" .
qed

section \<open>Connecting a block\<close>

definition state_ledger :: "VoteState \<Rightarrow> Ledger" where
  "state_ledger s = ledger_of (vs_view s) (vs_supply s) (vs_locked s)"

definition ends_cycle :: "VoteEnv \<Rightarrow> CBlockIndex \<Rightarrow> VoteState \<Rightarrow> bool" where
  "ends_cycle env b s =
     (word_of_int (nHeight b + 1) mod GetConsensusParameter (par env) VOTING_CYCLE_LENGTH (vs_view s) = 0)"

text \<open>
  The states the guarantees are about: a well-formed view whose items are stored under their hashes, counters
  as an earlier scan left them, and a block above the history of every item, except for the requests the block
  itself pays, which \<^verbatim>\<open>ConnectBlock\<close> has marked \<^verbatim>\<open>PAID\<close> before it calls \<^verbatim>\<open>VoteStep\<close>. The acceptance and
  rejection shares are assumed to be at least half, as they are by default on every network; a vote could set
  them lower, and nothing is claimed then.
\<close>

definition connect_ready :: "VoteEnv \<Rightarrow> CBlockIndex \<Rightarrow> VoteState \<Rightarrow> bool" where
  "connect_ready env b s = (fund_view (vs_view s) \<and> shares_at_least_half (par env) (vs_view s) \<and>
     counters_sound (vs_counters s) \<and> before_moves (mapBlockIndex env) b (state_ledger s))"

lemma start_work_between:
  assumes "fund_view v" "shares_at_least_half (par ctx) v" "start_work cf dao v s l = Some w"
  shows "between_passes ctx cf w" "view w = v" "nCFSupply w = s" "nCFLocked w = l"
proof -
  have ok: "view_ok v" using assms(1) by (simp add: fund_view_def)
  from assms(3) obtain mp mpr where w: "view w = v" "nCFSupply w = s" "nCFLocked w = l" "mapProposals w = mp"
    "mapPaymentRequests w = mpr" "updateMapProposals w = []" "updateMapPaymentRequests w = []"
    and all: "cf \<Longrightarrow> GetAllProposals v = Some mp" "cf \<Longrightarrow> GetAllPaymentRequests v = Some mpr"
    by (auto simp: start_work_def split: option.splits if_splits)
  then show "view w = v" "nCFSupply w = s" "nCFLocked w = l" by simp_all
  have "synced_proposals w" if cf
    using viewP.all_get [OF ok all(1) [OF that]] viewP.all_ok [OF ok all(1) [OF that]]
    by (simp add: synced_proposals_def w)
  moreover have "synced_requests w" if cf
    using viewR.all_get [OF ok all(2) [OF that]] viewR.all_ok [OF ok all(2) [OF that]]
    by (simp add: synced_requests_def w option.rel_refl)
  ultimately show "between_passes ctx cf w"
    using assms(1,2) by (simp add: between_passes_def fund_inv_def w)
qed

lemma VoteStep_connect:
  assumes "connect_ready env b s" "VoteStep env b False s = Inr (True, s')"
  shows "fund_steps (mapBlockIndex env) b (ends_cycle env b s) (state_ledger s) (state_ledger s')"
    "fund_view (vs_view s')" "counters_sound (vs_counters s')"
proof -
  let ?len = "GetConsensusParameter (par env) VOTING_CYCLE_LENGTH (vs_view s)"
  let ?cf = "IsCommunityFundEnabled env (pprev b)" and ?dao = "IsDAOEnabled env (pprev b)"
  have v: "fund_view (vs_view s)" "shares_at_least_half (par env) (vs_view s)" "counters_sound (vs_counters s)"
    using assms(1) by (simp_all add: connect_ready_def)
  have "s' = s \<or> (\<exists>whole g w w'. scan_votes env (vs_view s) ?cf ?dao False ?len b (vs_counters s) = (whole, g) \<and>
      start_work ?cf ?dao (vs_view s) (vs_supply s) (vs_locked s) = Some w \<and>
      run_passes (VoteEnv.extend env (VoteCtx.fields b None ?len whole)) ?cf ?dao g w = Inr w' \<and>
      s' = \<lparr>vs_counters = g, vs_view = view w', vs_supply = nCFSupply w', vs_locked = nCFLocked w'\<rparr>)"
    using assms(2) by (auto simp: VoteStep_def Let_def split: option.splits if_splits prod.splits elim!: bindR_InrE)
  then have "fund_steps (mapBlockIndex env) b (ends_cycle env b s) (state_ledger s) (state_ledger s') \<and>
    fund_view (vs_view s') \<and> counters_sound (vs_counters s')"
  proof
    assume "s' = s"
    with v show ?thesis by simp
  next
    assume "\<exists>whole g w w'. scan_votes env (vs_view s) ?cf ?dao False ?len b (vs_counters s) = (whole, g) \<and>
      start_work ?cf ?dao (vs_view s) (vs_supply s) (vs_locked s) = Some w \<and>
      run_passes (VoteEnv.extend env (VoteCtx.fields b None ?len whole)) ?cf ?dao g w = Inr w' \<and>
      s' = \<lparr>vs_counters = g, vs_view = view w', vs_supply = nCFSupply w', vs_locked = nCFLocked w'\<rparr>"
    then obtain whole g w w' where scan: "scan_votes env (vs_view s) ?cf ?dao False ?len b (vs_counters s) = (whole, g)"
      and start: "start_work ?cf ?dao (vs_view s) (vs_supply s) (vs_locked s) = Some w"
      and run: "run_passes (VoteEnv.extend env (VoteCtx.fields b None ?len whole)) ?cf ?dao g w = Inr w'"
      and s': "s' = \<lparr>vs_counters = g, vs_view = view w', vs_supply = nCFSupply w', vs_locked = nCFLocked w'\<rparr>" by blast
    define ctx where "ctx = VoteEnv.extend env (VoteCtx.fields b None ?len whole)"
    have ctx: "pindexDelete ctx = None" "par ctx = par env" "mapBlockIndex ctx = mapBlockIndex env" "pindexNew ctx = b"
      "cycle_ends ctx = ends_cycle env b s"
      by (simp_all add: ctx_def VoteEnv.extend_def VoteCtx.fields_def cycle_ends_def ends_cycle_def)
    have g: "counters_sound g" using counters_sound_scan [OF v(3)] by (metis scan snd_conv)
    note w = start_work_between [OF v(1) v(2) [folded ctx(2)] start]
    have "before_moves (mapBlockIndex ctx) (pindexNew ctx) (fund_ledger w)"
      using assms(1) by (simp add: connect_ready_def state_ledger_def fund_ledger_def w ctx)
    from run_passes_fund [OF ctx(1) w(1) this g run [folded ctx_def]] g show ?thesis
      by (simp add: s' state_ledger_def fund_ledger_def w ctx)
  qed
  then show "fund_steps (mapBlockIndex env) b (ends_cycle env b s) (state_ledger s) (state_ledger s')"
    "fund_view (vs_view s')" "counters_sound (vs_counters s')" by simp_all
qed

end
