(* ===== verification/FundGuarantees.thy ===== *)
theory FundGuarantees
  imports VoteStepLaws
begin

text \<open>
  What \<open>VoteStep\<close> guarantees about the community fund when it connects a block: it implements the ledger, keeps the fund
  solvent, pays out accepted requests only, moves items legally and only at the end of a cycle. The
  theorems are applied to two runs: a block at the end of a cycle that accepts one payment request and pays another,
  and a block in the middle of the cycle of the main network, whose vote for a proposal is counted.
\<close>

section \<open>A block with one vote\<close>

definition vote_params :: Params where
  "vote_params = main_params\<lparr>vParameters := (vParameters main_params)[0 := 1]\<rparr>"

definition vote_block :: CBlockIndex where
  "vote_block = CBlockIndex 11 (Some (CBlockIndex 10 None 0 0 0 0 0 0)) 1 0 0 0 0 0"

definition vote_env :: VoteEnv where
  "vote_env = \<lparr>par = vote_params,
     mapBlockIndex = [10 \<mapsto> CBlockIndex 10 None 0 0 0 0 0 0, 11 \<mapsto> vote_block],
     vProposalVotes = [11 \<mapsto> [(1, VOTE_YES)]],
     vPaymentRequestVotes = (\<lambda>h. None), mapSupport = (\<lambda>h. None), mapConsultationVotes = (\<lambda>h. None),
     IsCommunityFundEnabled = (\<lambda>p. True), IsDAOEnabled = (\<lambda>p. False), hash_parameters = (\<lambda>l. 0)\<rparr>"

definition vote_proposal :: CProposal where
  "vote_proposal = CProposal_new\<lparr>p_nAmount := 5, p_nDeadline := 10, p_hash := 1, p_txblockhash := 10\<rparr>"

definition vote_view :: "CProposal \<Rightarrow> CStateViewCache" where
  "vote_view p = (CStateViewCache_new (ViewDB (sample_db\<lparr>db_proposals := []\<rparr>)))\<lparr>cacheProposals := [(1, p)]\<rparr>"

definition vote_state :: VoteState where
  "vote_state = \<lparr>vs_counters = clear_counters sample_counters, vs_view = vote_view vote_proposal, vs_supply = 100, vs_locked = 0\<rparr>"

lemma vote_get:
  "\<not> CProposal_IsNull p \<Longrightarrow> GetProposal (vote_view p) k = (if k = 1 then Some p else None)"
  "GetPaymentRequest (vote_view p) k = None"
  "CStateViewCache_GetConsensusParameter (vote_view p) n = None"
  "\<not> CProposal_IsNull p \<Longrightarrow> GetAllProposals (vote_view p) = Some [(1, p)]" "GetAllPaymentRequests (vote_view p) = Some []"
  by (simp_all add: get_lookup lookup_entry_def vote_view_def sample_defs visible_def GetAllProposals_def
      GetAllPaymentRequests_def all_entries_def)

lemma vote_parameter: "GetConsensusParameter prm pos (vote_view p) = vParameters prm ! pos"
  by (simp add: GetConsensusParameter_def vote_get)

definition vote_counters :: VoteCounters where
  "vote_counters = (clear_counters sample_counters)\<lparr>mapCacheProposalsToUpdate := [(1, ((1, 0), 0))]\<rparr>"

definition vote_accepted :: CProposal where
  "vote_accepted = vote_proposal\<lparr>p_nVotesYes := 1, p_nVotingCycle := 1, p_mapState := [(11, ACCEPTED)]\<rparr>"

definition quiet_env :: VoteEnv where "quiet_env = vote_env\<lparr>par := main_params\<rparr>"

definition quiet_state :: VoteState where
  "quiet_state = \<lparr>vs_counters = vote_counters, vs_view = (vote_view (vote_proposal\<lparr>p_nVotesYes := 1\<rparr>))\<lparr>nCacheExcludeVotes := 0\<rparr>,
       vs_supply = 100, vs_locked = 0\<rparr>"

lemma quiet_run: "VoteStep quiet_env vote_block False vote_state = Inr (True, quiet_state)"
  by code_simp

lemma quiet_ready: "connect_ready quiet_env vote_block vote_state"
proof -
  have "\<not> CProposal_IsNull vote_proposal" and ok: "view_ok (vote_view vote_proposal)"
    by (simp_all add: CProposal_IsNull_def view_ok_def cache_ok_def table_ok_def db_ok_def omap_ok_def vote_view_def sample_defs
        vote_proposal_def CProposal_new_def CProposal_SetNull_def)
  note get = vote_get(1) [OF this(1)] vote_get(2)
  have "good_proposal 1 vote_proposal"
    by (simp add: good_proposal_def solid_proposal_def proposal_tallied_def vote_proposal_def CProposal_new_def CProposal_SetNull_def)
  then have "fund_view (vote_view vote_proposal)"
    using ok by (simp add: fund_view_def get) (simp add: vote_view_def sample_defs)
  moreover have "shares_at_least_half (par quiet_env) (vote_view vote_proposal)"
    by (simp add: quiet_env_def shares_at_least_half_def vote_parameter main_params_def)
  moreover have "counters_sound (clear_counters sample_counters)"
    unfolding counters_sound_def using tallies_within_clear by auto
  moreover have "unmoved (mapBlockIndex quiet_env) vote_block (p_mapState vote_proposal)"
    by (simp add: unmoved_def above_history_def omap_ok_def quiet_env_def vote_env_def vote_block_def vote_proposal_def
        CProposal_new_def CProposal_SetNull_def)
  ultimately show ?thesis
    by (simp add: connect_ready_def before_moves_def state_ledger_def ledger_of_def vote_state_def get)
qed

section \<open>A block that accepts a payment request\<close>

text \<open>
  Block 12 follows: it ends the next cycle and votes for payment request 2, for three of the five coins of the
  proposal that was accepted at block 11. Request 3, for one coin, is paid by block 12 itself.
\<close>

definition pay_block :: CBlockIndex where
  "pay_block = CBlockIndex 12 (Some vote_block) 2 0 0 0 0 0"

definition pay_env :: VoteEnv where
  "pay_env = vote_env\<lparr>mapBlockIndex := (mapBlockIndex vote_env)(12 \<mapsto> pay_block),
     vProposalVotes := (\<lambda>h. None), vPaymentRequestVotes := [12 \<mapsto> [(2, VOTE_YES)]]\<rparr>"

definition pay_request :: CPaymentRequest where
  "pay_request = CPaymentRequest_new\<lparr>pr_nAmount := 3, pr_hash := 2, pr_proposalhash := 1, pr_txblockhash := 11\<rparr>"

definition paid_request :: CPaymentRequest where
  "paid_request = pay_request\<lparr>pr_nAmount := 1, pr_hash := 3, pr_nVotesYes := 1, pr_mapState := [(11, ACCEPTED), (12, PAID)]\<rparr>"

definition pay_state :: VoteState where
  "pay_state = \<lparr>vs_counters = clear_counters sample_counters,
     vs_view = (vote_view vote_accepted)\<lparr>cachePaymentRequests := [(2, pay_request), (3, paid_request)]\<rparr>,
     vs_supply = 95, vs_locked = 4\<rparr>"

definition pay_state' :: VoteState where
  "pay_state' = \<lparr>vs_counters = (clear_counters sample_counters)\<lparr>mapCachePaymentRequestToUpdate := [(2, ((1, 0), 0))]\<rparr>,
     vs_view = (vote_view vote_accepted)\<lparr>cachePaymentRequests :=
       [(2, pay_request\<lparr>pr_nVotesYes := 1, pr_nVotingCycle := 1, pr_mapState := [(12, ACCEPTED)]\<rparr>), (3, paid_request)],
       nCacheExcludeVotes := 0\<rparr>,
     vs_supply = 95, vs_locked = 1\<rparr>"

lemma pay_step: "VoteStep pay_env pay_block False pay_state = Inr (True, pay_state')"
  by code_simp

lemmas pay_item_defs = pay_request_def paid_request_def CPaymentRequest_new_def CPaymentRequest_SetNull_def
  vote_accepted_def vote_proposal_def CProposal_new_def CProposal_SetNull_def

lemma pay_get:
  "GetProposal (vs_view pay_state) = [1 \<mapsto> vote_accepted]"
  "GetPaymentRequest (vs_view pay_state) = [2 \<mapsto> pay_request, 3 \<mapsto> paid_request]"
  "GetProposal (vs_view pay_state') = [1 \<mapsto> vote_accepted]"
  "GetPaymentRequest (vs_view pay_state') =
     [2 \<mapsto> pay_request\<lparr>pr_nVotesYes := 1, pr_nVotingCycle := 1, pr_mapState := [(12, ACCEPTED)]\<rparr>, 3 \<mapsto> paid_request]"
proof -
  have "\<not> CProposal_IsNull vote_accepted" "\<not> CPaymentRequest_IsNull pay_request" "\<not> CPaymentRequest_IsNull paid_request"
    "\<not> CPaymentRequest_IsNull (pay_request\<lparr>pr_nVotesYes := 1, pr_nVotingCycle := 1, pr_mapState := [(12, ACCEPTED)]\<rparr>)"
    by (simp_all add: CProposal_IsNull_def CPaymentRequest_IsNull_def pay_item_defs)
  then show "GetProposal (vs_view pay_state) = [1 \<mapsto> vote_accepted]"
    "GetPaymentRequest (vs_view pay_state) = [2 \<mapsto> pay_request, 3 \<mapsto> paid_request]"
    "GetProposal (vs_view pay_state') = [1 \<mapsto> vote_accepted]"
    "GetPaymentRequest (vs_view pay_state') =
     [2 \<mapsto> pay_request\<lparr>pr_nVotesYes := 1, pr_nVotingCycle := 1, pr_mapState := [(12, ACCEPTED)]\<rparr>, 3 \<mapsto> paid_request]"
    by (auto simp: fun_eq_iff get_lookup lookup_entry_def visible_def pay_state_def pay_state'_def vote_view_def sample_defs)
qed

lemma pay_items:
  "good_proposal 1 vote_accepted" "good_request 2 pay_request" "good_request 3 paid_request"
  "unmoved (mapBlockIndex pay_env) pay_block (p_mapState vote_accepted)"
  "unmoved (mapBlockIndex pay_env) pay_block (pr_mapState pay_request)"
  by (simp_all add: good_proposal_def solid_proposal_def proposal_tallied_def good_request_def solid_request_def
      request_tallied_def unmoved_def above_history_def omap_ok_def pay_item_defs pay_env_def pay_block_def
      vote_env_def vote_block_def)

lemma pay_paid: "paid_now (mapBlockIndex pay_env) pay_block paid_request"
  by code_simp

lemma pay_ready: "connect_ready pay_env pay_block pay_state"
proof -
  have "view_ok (vs_view pay_state)"
    by (simp add: view_ok_def cache_ok_def table_ok_def db_ok_def omap_ok_def pay_state_def vote_view_def sample_defs pay_item_defs)
  then have "fund_view (vs_view pay_state)"
    using pay_items(1-3) by (auto simp: fund_view_def pay_get) (simp add: pay_state_def vote_view_def sample_defs)
  moreover have "shares_at_least_half (par pay_env) (vs_view pay_state)"
    by (simp add: shares_at_least_half_def GetConsensusParameter_def get_lookup lookup_entry_def visible_def pay_state_def
        vote_view_def sample_defs pay_env_def vote_env_def vote_params_def main_params_def)
  moreover have "counters_sound (vs_counters pay_state)"
    unfolding counters_sound_def pay_state_def using tallies_within_clear by auto
  ultimately show ?thesis
    using pay_items(4,5) pay_paid by (simp add: connect_ready_def before_moves_def state_ledger_def ledger_of_def pay_get)
qed

lemma pay_fund_ok: "fund_ok (mapBlockIndex pay_env) (state_ledger pay_state)"
proof -
  have "CProposal_GetLastState (mapBlockIndex pay_env) vote_accepted = ACCEPTED"
    "CPaymentRequest_GetLastState (mapBlockIndex pay_env) pay_request = NIL"
    by code_simp+
  moreover have "CPaymentRequest_GetLastState (mapBlockIndex pay_env) paid_request = PAID" "request_won paid_request"
    using pay_paid by (simp_all add: paid_now_def)
  moreover have "p_hash vote_accepted = 1" "p_nAmount vote_accepted = 5" "\<not> CProposal_IsSuper vote_accepted"
    "pr_proposalhash paid_request = 1" "pr_nAmount pay_request = 3" "pr_nAmount paid_request = 1"
    "proposal_won vote_accepted"
    by (simp_all add: pay_item_defs CProposal_IsSuper_def has_flag_def proposal_won_def CProposal_TotalVotes_def)
  moreover note pay_items(1-3)
  ultimately show ?thesis
    by (simp add: fund_ok_def proposal_ok_def request_ok_def funded_def available_def committed_def commitment_def
        request_claim_def counts_against_def good_proposal_def good_request_def state_ledger_def ledger_of_def pay_get)
     (simp add: pay_state_def)
qed

lemma pay_granted: "granted pay_block (state_ledger pay_state') = 3"
proof -
  have "\<not> CProposal_IsSuper vote_accepted" "pr_mapState paid_request = [(11, ACCEPTED), (12, PAID)]"
    "pr_proposalhash pay_request = 1" "pr_nAmount pay_request = 3" "GetBlockHash pay_block = 12"
    by (simp_all add: pay_item_defs pay_block_def CProposal_IsSuper_def has_flag_def)
  then show ?thesis by (simp add: granted_def grant_def state_ledger_def ledger_of_def pay_get)
qed

section \<open>The guarantees\<close>

text \<open>
  C10. Connecting a block refines the abstract ledger: from a ready state, whatever \<^verbatim>\<open>VoteStep\<close> does to the proposals,
  the payment requests and the two fund balances is a sequence of ledger steps of that block, and it
  leaves the view and the counters well formed.
\<close>

theorem VoteStep_refines_ledger:
  assumes "connect_ready env b s" "VoteStep env b False s = Inr (True, s')"
  shows "fund_steps (mapBlockIndex env) b (ends_cycle env b s) (state_ledger s) (state_ledger s') \<and>
    fund_view (vs_view s') \<and> counters_sound (vs_counters s')"
  using VoteStep_connect [OF assms] by blast

theorem VoteStep_refines_ledger_witness:
  "fund_steps (mapBlockIndex pay_env) pay_block (ends_cycle pay_env pay_block pay_state)
     (state_ledger pay_state) (state_ledger pay_state') \<and> state_ledger pay_state \<noteq> state_ledger pay_state'"
  using VoteStep_refines_ledger [OF pay_ready pay_step] by (simp add: state_ledger_def ledger_of_def pay_state_def pay_state'_def)

text \<open>
  C11. The fund stays solvent: connecting a block keeps the locked coins equal to what the accepted, not yet
  expired proposals can still claim, keeps every proposal from being overspent and both balances non-negative,
  and every accepted proposal and every accepted or paid request has more than half of its counted votes.
\<close>

theorem VoteStep_keeps_fund_solvent:
  assumes "connect_ready env b s" "VoteStep env b False s = Inr (True, s')"
    and "fund_ok (mapBlockIndex env) (state_ledger s)"
  shows "fund_ok (mapBlockIndex env) (state_ledger s') \<and> vs_locked s' = committed (mapBlockIndex env) (state_ledger s') \<and>
    0 \<le> vs_supply s' \<and> 0 \<le> vs_locked s'"
proof -
  have ok: "fund_ok (mapBlockIndex env) (state_ledger s')"
    using VoteStep_connect(1) [OF assms(1,2)] assms(3) by (rule fund_ok_steps)
  then show ?thesis using locked_nonneg [OF ok] by (simp add: fund_ok_def state_ledger_def ledger_of_def)
qed

theorem VoteStep_keeps_fund_solvent_witness:
  "fund_ok (mapBlockIndex pay_env) (state_ledger pay_state') \<and>
   vs_locked pay_state' = committed (mapBlockIndex pay_env) (state_ledger pay_state') \<and> vs_locked pay_state' = 1"
  using VoteStep_keeps_fund_solvent [OF pay_ready pay_step pay_fund_ok] by (simp add: pay_state'_def)

text \<open>
  C12. Coins leave the fund through accepted payment requests only: the two balances together drop exactly
  by the amounts of the requests this block accepts for ordinary proposals. A request of a super proposal is not paid
  from the fund, and accepting one changes neither balance.
\<close>

theorem VoteStep_conserves_fund:
  assumes "connect_ready env b s" "VoteStep env b False s = Inr (True, s')"
    and "fund_ok (mapBlockIndex env) (state_ledger s)"
  shows "vs_supply s' + vs_locked s' = vs_supply s + vs_locked s - granted b (state_ledger s')"
proof -
  note steps = VoteStep_connect(1) [OF assms(1,2)]
  have fin: "finite (dom (requests (state_ledger s)))" using assms(3) by (simp add: fund_ok_def)
  have "granted b (state_ledger s) = 0" using assms(1) by (auto simp: connect_ready_def intro: granted_before_moves)
  with fund_total_steps [OF steps fin] show ?thesis by (simp add: fund_total_def state_ledger_def ledger_of_def)
qed

theorem VoteStep_conserves_fund_witness:
  "vs_supply pay_state' + vs_locked pay_state' = vs_supply pay_state + vs_locked pay_state - 3"
  using VoteStep_conserves_fund [OF pay_ready pay_step pay_fund_ok] by (simp add: pay_granted)

text \<open>
  C13. Legal moves: no proposal or payment request appears, disappears or changes its hash or amount, and each has the
  history it had or one more state, entered at this block at the end of a voting cycle, by a legal move.
  No accepted request is ever rejected or expired, and no funded proposal is rejected.
\<close>

theorem VoteStep_moves_legally:
  assumes "connect_ready env b s" "VoteStep env b False s = Inr (True, s')"
    and "fund_ok (mapBlockIndex env) (state_ledger s)"
  shows "rel_option (proposal_follows (mapBlockIndex env) b (ends_cycle env b s))
      (GetProposal (vs_view s) k) (GetProposal (vs_view s') k) \<and>
    rel_option (request_follows (mapBlockIndex env) b (ends_cycle env b s))
      (GetPaymentRequest (vs_view s) k) (GetPaymentRequest (vs_view s') k)"
  using ledger_follows_steps [OF VoteStep_connect(1) [OF assms(1,2)] assms(3)]
  by (simp add: ledger_follows_def state_ledger_def ledger_of_def)

theorem VoteStep_moves_legally_witness:
  "request_follows (mapBlockIndex pay_env) pay_block (ends_cycle pay_env pay_block pay_state) pay_request
     (pay_request\<lparr>pr_nVotesYes := 1, pr_nVotingCycle := 1, pr_mapState := [(12, ACCEPTED)]\<rparr>) \<and>
   request_follows (mapBlockIndex pay_env) pay_block (ends_cycle pay_env pay_block pay_state) paid_request paid_request"
  using VoteStep_moves_legally [OF pay_ready pay_step pay_fund_ok, of 2]
    VoteStep_moves_legally [OF pay_ready pay_step pay_fund_ok, of 3] by (simp add: pay_get)


text \<open>
  C14. Between the ends of voting cycles a block only counts: the history of every proposal and payment request and both
  fund balances stay as they were.
\<close>

theorem VoteStep_quiet:
  assumes "connect_ready env b s" "VoteStep env b False s = Inr (True, s')" "\<not> ends_cycle env b s"
  shows "map_option p_mapState (GetProposal (vs_view s') k) = map_option p_mapState (GetProposal (vs_view s) k) \<and>
    map_option pr_mapState (GetPaymentRequest (vs_view s') k) = map_option pr_mapState (GetPaymentRequest (vs_view s) k) \<and>
    vs_supply s' = vs_supply s \<and> vs_locked s' = vs_locked s"
  using quiet_steps [of "mapBlockIndex env" b "state_ledger s" "state_ledger s'"] VoteStep_connect(1) [OF assms(1,2)] assms(3)
  by (simp add: histories_def state_ledger_def ledger_of_def fun_eq_iff)

theorem VoteStep_quiet_witness:
  "map_option p_mapState (GetProposal (vs_view quiet_state) 1) = map_option p_mapState (GetProposal (vs_view vote_state) 1) \<and>
   vs_supply quiet_state = 100"
proof -
  have "\<not> ends_cycle quiet_env vote_block vote_state"
    by (simp add: ends_cycle_def quiet_env_def vote_state_def vote_parameter main_params_def vote_block_def)
  from VoteStep_quiet [OF quiet_ready quiet_run this, of 1] show ?thesis by (simp add: vote_state_def)
qed

end
