(* ===== verification/Bytes.thy ===== *)
theory Bytes
  imports Prelude
begin

text \<open>
  Byte strings of fixed width: the little-endian encoding used by the serialiser and by scripts, and the bytes
  of a \<^verbatim>\<open>uint256\<close>.
\<close>

section \<open>Little-endian numbers\<close>

text \<open>\<open>WriteLE16\<close>, \<open>WriteLE32\<close>, \<open>WriteLE64\<close> are \<open>le_bytes\<close> of 2, 4 and 8 bytes; \<open>le_value\<close> reads them.\<close>

primrec le_bytes :: "nat \<Rightarrow> nat \<Rightarrow> bytes" where
  "le_bytes 0 x = []"
| "le_bytes (Suc n) x = of_nat x # le_bytes n (x div 256)"

primrec le_value :: "bytes \<Rightarrow> nat" where
  "le_value [] = 0"
| "le_value (b # bs) = unat b + 256 * le_value bs"

lemma length_le_bytes [simp]: "length (le_bytes n x) = n"
  by (induction n arbitrary: x) auto

lemma unat_byte: "unat (of_nat x :: u8) = x mod 256"
  by (simp add: unat_of_nat)

lemma byte_bound [simp]: "unat (b :: u8) < 256"
  using unsigned_less [of b, where 'a = nat] by simp

lemma le_value_bytes [simp]: "le_value (le_bytes n x) = x mod 256 ^ n"
proof (induction n arbitrary: x)
  case 0
  then show ?case by simp
next
  case (Suc n)
  have "x mod 256 + 256 * (x div 256 mod 256 ^ n) = x mod (256 * 256 ^ n)"
    by (simp only: mod_mult2_eq)
  with Suc show ?case by (simp add: unat_byte)
qed

lemma le_value_bound: "le_value bs < 256 ^ length bs"
proof (induction bs)
  case (Cons b bs)
  have "unat b + 256 * le_value bs < 256 + 256 * le_value bs" by simp
  also have "\<dots> = 256 * (le_value bs + 1)" by simp
  also have "\<dots> \<le> 256 * 256 ^ length bs" using Cons by (intro mult_left_mono) auto
  finally show ?case by simp
qed simp

lemma le_bytes_value [simp]: "le_bytes (length bs) (le_value bs) = bs"
proof (induction bs)
  case (Cons b bs)
  have "(unat b + 256 * le_value bs) div 256 = le_value bs" by simp
  moreover have "unat (of_nat (unat b + 256 * le_value bs) :: u8) = unat b"
    by (simp only: unat_byte) simp
  then have "of_nat (unat b + 256 * le_value bs) = b" by (rule unsigned_word_eqI)
  ultimately show ?case using Cons by (simp del: of_nat_add of_nat_mult)
qed simp

lemma le_value_append: "le_value (xs @ ys) = le_value xs + 256 ^ length xs * le_value ys"
  by (induction xs) (simp_all add: algebra_simps)

lemma le_bytes_inject: "x < 256 ^ n \<Longrightarrow> y < 256 ^ n \<Longrightarrow> le_bytes n x = le_bytes n y \<longleftrightarrow> x = y"
  by (metis le_value_bytes mod_less)

section \<open>The bytes of a uint256\<close>

lemma bytes_32: "(256 :: nat) ^ 32 = 2 ^ 256"
  by simp

definition uint256_data :: "uint256 \<Rightarrow> bytes" where
  "uint256_data h = le_bytes 32 (unat h)"

definition uint256_of :: "bytes \<Rightarrow> uint256" where
  "uint256_of bs = of_nat (le_value bs)"

lemma length_uint256_data [simp]: "length (uint256_data h) = 32"
  by (simp add: uint256_data_def)

lemma uint256_of_data [simp]: "uint256_of (uint256_data h) = h"
proof -
  have "unat h < 2 ^ 256" using unsigned_less [of h, where 'a = nat] by simp
  then show ?thesis unfolding bytes_32 [symmetric] by (simp add: uint256_of_def uint256_data_def)
qed

lemma uint256_data_of [simp]:
  assumes "length bs = 32"
  shows "uint256_data (uint256_of bs) = bs"
proof -
  have "le_value bs < 256 ^ 32" using le_value_bound [of bs] assms by simp
  then have "le_value bs < 2 ^ 256" unfolding bytes_32 .
  then have "unat (uint256_of bs) = le_value bs" by (simp add: uint256_of_def unat_of_nat)
  then show ?thesis using le_bytes_value [of bs] assms by (simp add: uint256_data_def)
qed

end
