(* ===== verification/Script.thy ===== *)
theory Script
  imports Bytes
begin

text \<open>
  Scripts (\<^verbatim>\<open>script/script.h\<close>, \<^verbatim>\<open>script/script.cpp\<close>): script numbers, pushes and the parser of operations, counting
  signature operations, and the recognisers of the script shapes the node knows. A \<^verbatim>\<open>CScript\<close> is its byte string; an
  iterator into it is the byte string that remains.
\<close>

section \<open>Opcodes\<close>

abbreviation (input) OP_0 :: u8 where "OP_0 \<equiv> 0x00"
abbreviation (input) OP_FALSE :: u8 where "OP_FALSE \<equiv> 0x00"
abbreviation (input) OP_PUSHDATA1 :: u8 where "OP_PUSHDATA1 \<equiv> 0x4c"
abbreviation (input) OP_PUSHDATA2 :: u8 where "OP_PUSHDATA2 \<equiv> 0x4d"
abbreviation (input) OP_PUSHDATA4 :: u8 where "OP_PUSHDATA4 \<equiv> 0x4e"
abbreviation (input) OP_1NEGATE :: u8 where "OP_1NEGATE \<equiv> 0x4f"
abbreviation (input) OP_RESERVED :: u8 where "OP_RESERVED \<equiv> 0x50"
abbreviation (input) OP_1 :: u8 where "OP_1 \<equiv> 0x51"
abbreviation (input) OP_TRUE :: u8 where "OP_TRUE \<equiv> 0x51"
abbreviation (input) OP_2 :: u8 where "OP_2 \<equiv> 0x52"
abbreviation (input) OP_3 :: u8 where "OP_3 \<equiv> 0x53"
abbreviation (input) OP_4 :: u8 where "OP_4 \<equiv> 0x54"
abbreviation (input) OP_5 :: u8 where "OP_5 \<equiv> 0x55"
abbreviation (input) OP_6 :: u8 where "OP_6 \<equiv> 0x56"
abbreviation (input) OP_7 :: u8 where "OP_7 \<equiv> 0x57"
abbreviation (input) OP_8 :: u8 where "OP_8 \<equiv> 0x58"
abbreviation (input) OP_9 :: u8 where "OP_9 \<equiv> 0x59"
abbreviation (input) OP_10 :: u8 where "OP_10 \<equiv> 0x5a"
abbreviation (input) OP_11 :: u8 where "OP_11 \<equiv> 0x5b"
abbreviation (input) OP_12 :: u8 where "OP_12 \<equiv> 0x5c"
abbreviation (input) OP_13 :: u8 where "OP_13 \<equiv> 0x5d"
abbreviation (input) OP_14 :: u8 where "OP_14 \<equiv> 0x5e"
abbreviation (input) OP_15 :: u8 where "OP_15 \<equiv> 0x5f"
abbreviation (input) OP_16 :: u8 where "OP_16 \<equiv> 0x60"
abbreviation (input) OP_NOP :: u8 where "OP_NOP \<equiv> 0x61"
abbreviation (input) OP_VER :: u8 where "OP_VER \<equiv> 0x62"
abbreviation (input) OP_IF :: u8 where "OP_IF \<equiv> 0x63"
abbreviation (input) OP_NOTIF :: u8 where "OP_NOTIF \<equiv> 0x64"
abbreviation (input) OP_VERIF :: u8 where "OP_VERIF \<equiv> 0x65"
abbreviation (input) OP_VERNOTIF :: u8 where "OP_VERNOTIF \<equiv> 0x66"
abbreviation (input) OP_ELSE :: u8 where "OP_ELSE \<equiv> 0x67"
abbreviation (input) OP_ENDIF :: u8 where "OP_ENDIF \<equiv> 0x68"
abbreviation (input) OP_VERIFY :: u8 where "OP_VERIFY \<equiv> 0x69"
abbreviation (input) OP_RETURN :: u8 where "OP_RETURN \<equiv> 0x6a"
abbreviation (input) OP_TOALTSTACK :: u8 where "OP_TOALTSTACK \<equiv> 0x6b"
abbreviation (input) OP_FROMALTSTACK :: u8 where "OP_FROMALTSTACK \<equiv> 0x6c"
abbreviation (input) OP_2DROP :: u8 where "OP_2DROP \<equiv> 0x6d"
abbreviation (input) OP_2DUP :: u8 where "OP_2DUP \<equiv> 0x6e"
abbreviation (input) OP_3DUP :: u8 where "OP_3DUP \<equiv> 0x6f"
abbreviation (input) OP_2OVER :: u8 where "OP_2OVER \<equiv> 0x70"
abbreviation (input) OP_2ROT :: u8 where "OP_2ROT \<equiv> 0x71"
abbreviation (input) OP_2SWAP :: u8 where "OP_2SWAP \<equiv> 0x72"
abbreviation (input) OP_IFDUP :: u8 where "OP_IFDUP \<equiv> 0x73"
abbreviation (input) OP_DEPTH :: u8 where "OP_DEPTH \<equiv> 0x74"
abbreviation (input) OP_DROP :: u8 where "OP_DROP \<equiv> 0x75"
abbreviation (input) OP_DUP :: u8 where "OP_DUP \<equiv> 0x76"
abbreviation (input) OP_NIP :: u8 where "OP_NIP \<equiv> 0x77"
abbreviation (input) OP_OVER :: u8 where "OP_OVER \<equiv> 0x78"
abbreviation (input) OP_PICK :: u8 where "OP_PICK \<equiv> 0x79"
abbreviation (input) OP_ROLL :: u8 where "OP_ROLL \<equiv> 0x7a"
abbreviation (input) OP_ROT :: u8 where "OP_ROT \<equiv> 0x7b"
abbreviation (input) OP_SWAP :: u8 where "OP_SWAP \<equiv> 0x7c"
abbreviation (input) OP_TUCK :: u8 where "OP_TUCK \<equiv> 0x7d"
abbreviation (input) OP_CAT :: u8 where "OP_CAT \<equiv> 0x7e"
abbreviation (input) OP_SUBSTR :: u8 where "OP_SUBSTR \<equiv> 0x7f"
abbreviation (input) OP_LEFT :: u8 where "OP_LEFT \<equiv> 0x80"
abbreviation (input) OP_RIGHT :: u8 where "OP_RIGHT \<equiv> 0x81"
abbreviation (input) OP_SIZE :: u8 where "OP_SIZE \<equiv> 0x82"
abbreviation (input) OP_INVERT :: u8 where "OP_INVERT \<equiv> 0x83"
abbreviation (input) OP_AND :: u8 where "OP_AND \<equiv> 0x84"
abbreviation (input) OP_OR :: u8 where "OP_OR \<equiv> 0x85"
abbreviation (input) OP_XOR :: u8 where "OP_XOR \<equiv> 0x86"
abbreviation (input) OP_EQUAL :: u8 where "OP_EQUAL \<equiv> 0x87"
abbreviation (input) OP_EQUALVERIFY :: u8 where "OP_EQUALVERIFY \<equiv> 0x88"
abbreviation (input) OP_RESERVED1 :: u8 where "OP_RESERVED1 \<equiv> 0x89"
abbreviation (input) OP_RESERVED2 :: u8 where "OP_RESERVED2 \<equiv> 0x8a"
abbreviation (input) OP_1ADD :: u8 where "OP_1ADD \<equiv> 0x8b"
abbreviation (input) OP_1SUB :: u8 where "OP_1SUB \<equiv> 0x8c"
abbreviation (input) OP_2MUL :: u8 where "OP_2MUL \<equiv> 0x8d"
abbreviation (input) OP_2DIV :: u8 where "OP_2DIV \<equiv> 0x8e"
abbreviation (input) OP_NEGATE :: u8 where "OP_NEGATE \<equiv> 0x8f"
abbreviation (input) OP_ABS :: u8 where "OP_ABS \<equiv> 0x90"
abbreviation (input) OP_NOT :: u8 where "OP_NOT \<equiv> 0x91"
abbreviation (input) OP_0NOTEQUAL :: u8 where "OP_0NOTEQUAL \<equiv> 0x92"
abbreviation (input) OP_ADD :: u8 where "OP_ADD \<equiv> 0x93"
abbreviation (input) OP_SUB :: u8 where "OP_SUB \<equiv> 0x94"
abbreviation (input) OP_MUL :: u8 where "OP_MUL \<equiv> 0x95"
abbreviation (input) OP_DIV :: u8 where "OP_DIV \<equiv> 0x96"
abbreviation (input) OP_MOD :: u8 where "OP_MOD \<equiv> 0x97"
abbreviation (input) OP_LSHIFT :: u8 where "OP_LSHIFT \<equiv> 0x98"
abbreviation (input) OP_RSHIFT :: u8 where "OP_RSHIFT \<equiv> 0x99"
abbreviation (input) OP_BOOLAND :: u8 where "OP_BOOLAND \<equiv> 0x9a"
abbreviation (input) OP_BOOLOR :: u8 where "OP_BOOLOR \<equiv> 0x9b"
abbreviation (input) OP_NUMEQUAL :: u8 where "OP_NUMEQUAL \<equiv> 0x9c"
abbreviation (input) OP_NUMEQUALVERIFY :: u8 where "OP_NUMEQUALVERIFY \<equiv> 0x9d"
abbreviation (input) OP_NUMNOTEQUAL :: u8 where "OP_NUMNOTEQUAL \<equiv> 0x9e"
abbreviation (input) OP_LESSTHAN :: u8 where "OP_LESSTHAN \<equiv> 0x9f"
abbreviation (input) OP_GREATERTHAN :: u8 where "OP_GREATERTHAN \<equiv> 0xa0"
abbreviation (input) OP_LESSTHANOREQUAL :: u8 where "OP_LESSTHANOREQUAL \<equiv> 0xa1"
abbreviation (input) OP_GREATERTHANOREQUAL :: u8 where "OP_GREATERTHANOREQUAL \<equiv> 0xa2"
abbreviation (input) OP_MIN :: u8 where "OP_MIN \<equiv> 0xa3"
abbreviation (input) OP_MAX :: u8 where "OP_MAX \<equiv> 0xa4"
abbreviation (input) OP_WITHIN :: u8 where "OP_WITHIN \<equiv> 0xa5"
abbreviation (input) OP_RIPEMD160 :: u8 where "OP_RIPEMD160 \<equiv> 0xa6"
abbreviation (input) OP_SHA1 :: u8 where "OP_SHA1 \<equiv> 0xa7"
abbreviation (input) OP_SHA256 :: u8 where "OP_SHA256 \<equiv> 0xa8"
abbreviation (input) OP_HASH160 :: u8 where "OP_HASH160 \<equiv> 0xa9"
abbreviation (input) OP_HASH256 :: u8 where "OP_HASH256 \<equiv> 0xaa"
abbreviation (input) OP_CODESEPARATOR :: u8 where "OP_CODESEPARATOR \<equiv> 0xab"
abbreviation (input) OP_CHECKSIG :: u8 where "OP_CHECKSIG \<equiv> 0xac"
abbreviation (input) OP_CHECKSIGVERIFY :: u8 where "OP_CHECKSIGVERIFY \<equiv> 0xad"
abbreviation (input) OP_CHECKMULTISIG :: u8 where "OP_CHECKMULTISIG \<equiv> 0xae"
abbreviation (input) OP_CHECKMULTISIGVERIFY :: u8 where "OP_CHECKMULTISIGVERIFY \<equiv> 0xaf"
abbreviation (input) OP_NOP1 :: u8 where "OP_NOP1 \<equiv> 0xb0"
abbreviation (input) OP_CHECKLOCKTIMEVERIFY :: u8 where "OP_CHECKLOCKTIMEVERIFY \<equiv> 0xb1"
abbreviation (input) OP_NOP2 :: u8 where "OP_NOP2 \<equiv> 0xb1"
abbreviation (input) OP_CHECKSEQUENCEVERIFY :: u8 where "OP_CHECKSEQUENCEVERIFY \<equiv> 0xb2"
abbreviation (input) OP_NOP3 :: u8 where "OP_NOP3 \<equiv> 0xb2"
abbreviation (input) OP_NOP4 :: u8 where "OP_NOP4 \<equiv> 0xb3"
abbreviation (input) OP_NOP5 :: u8 where "OP_NOP5 \<equiv> 0xb4"
abbreviation (input) OP_NOP6 :: u8 where "OP_NOP6 \<equiv> 0xb5"
abbreviation (input) OP_NOP7 :: u8 where "OP_NOP7 \<equiv> 0xb6"
abbreviation (input) OP_NOP8 :: u8 where "OP_NOP8 \<equiv> 0xb7"
abbreviation (input) OP_NOP9 :: u8 where "OP_NOP9 \<equiv> 0xb8"
abbreviation (input) OP_NOP10 :: u8 where "OP_NOP10 \<equiv> 0xb9"
abbreviation (input) OP_CFUND :: u8 where "OP_CFUND \<equiv> 0xc1"
abbreviation (input) OP_PROP :: u8 where "OP_PROP \<equiv> 0xc2"
abbreviation (input) OP_PREQ :: u8 where "OP_PREQ \<equiv> 0xc3"
abbreviation (input) OP_YES :: u8 where "OP_YES \<equiv> 0xc4"
abbreviation (input) OP_NO :: u8 where "OP_NO \<equiv> 0xc5"
abbreviation (input) OP_ABSTAIN :: u8 where "OP_ABSTAIN \<equiv> 0xc7"
abbreviation (input) OP_REMOVE :: u8 where "OP_REMOVE \<equiv> 0xc8"
abbreviation (input) OP_DAO :: u8 where "OP_DAO \<equiv> 0xc9"
abbreviation (input) OP_ANSWER :: u8 where "OP_ANSWER \<equiv> 0xca"
abbreviation (input) OP_CONSULTATION :: u8 where "OP_CONSULTATION \<equiv> 0xcb"
abbreviation (input) OP_COINSTAKE :: u8 where "OP_COINSTAKE \<equiv> 0xc6"
abbreviation (input) OP_POOL :: u8 where "OP_POOL \<equiv> 0xd0"
abbreviation (input) OP_SMALLDATA :: u8 where "OP_SMALLDATA \<equiv> 0xf9"
abbreviation (input) OP_SMALLINTEGER :: u8 where "OP_SMALLINTEGER \<equiv> 0xfa"
abbreviation (input) OP_PUBKEYS :: u8 where "OP_PUBKEYS \<equiv> 0xfb"
abbreviation (input) OP_PUBKEYHASH :: u8 where "OP_PUBKEYHASH \<equiv> 0xfd"
abbreviation (input) OP_PUBKEY :: u8 where "OP_PUBKEY \<equiv> 0xfe"
abbreviation (input) OP_INVALIDOPCODE :: u8 where "OP_INVALIDOPCODE \<equiv> 0xff"

abbreviation (input) MAX_SCRIPT_ELEMENT_SIZE :: nat where "MAX_SCRIPT_ELEMENT_SIZE \<equiv> 520"
abbreviation (input) MAX_OPS_PER_SCRIPT :: int where "MAX_OPS_PER_SCRIPT \<equiv> 201"
abbreviation (input) MAX_PUBKEYS_PER_MULTISIG :: nat where "MAX_PUBKEYS_PER_MULTISIG \<equiv> 20"
abbreviation (input) MAX_SCRIPT_SIZE :: nat where "MAX_SCRIPT_SIZE \<equiv> 10000"

section \<open>Script numbers\<close>

text \<open>The \<^verbatim>\<open>int64_t\<close> of a \<^verbatim>\<open>CScriptNum\<close> is an \<open>int\<close>. \<^verbatim>\<open>absvalue\<close> is unsigned and kept as a word.\<close>

function serialize_loop :: "u64 \<Rightarrow> bytes" where
  "serialize_loop absvalue =
     (if absvalue = 0 then [] else ucast absvalue # serialize_loop (drop_bit 8 absvalue))"
  by pat_completeness auto
termination
proof (relation "measure unat")
  fix a :: u64
  assume "a \<noteq> 0"
  then have "0 < unat a" by (simp add: unat_gt_0)
  then show "(drop_bit 8 a, a) \<in> measure unat"
    by (simp add: drop_bit_eq_div unat_div)
qed simp

declare serialize_loop.simps [simp del]

definition CScriptNum_serialize :: "int \<Rightarrow> bytes" where
  "CScriptNum_serialize value =
     (if value = 0 then []
      else
        let neg = value < 0;
            absvalue = (if neg then word_of_int (- value) else word_of_int value) :: u64;
            result = serialize_loop absvalue
        in if last result AND 0x80 \<noteq> 0 then result @ [if neg then 0x80 else 0]
           else if neg then butlast result @ [last result OR 0x80]
           else result)"

definition CScriptNum_set_vch :: "bytes \<Rightarrow> int" where
  "CScriptNum_set_vch vch =
     (if vch = [] then 0
      else
        let result = foldl (\<lambda>r i. r OR push_bit (8 * i) (ucast (vch ! i))) (0 :: u64) [0..<length vch]
        in if last vch AND 0x80 \<noteq> 0
           then - sint (result AND NOT (push_bit (8 * (length vch - 1)) 0x80))
           else sint result)"

definition CScriptNum_minimal :: "bytes \<Rightarrow> bool" where
  "CScriptNum_minimal vch =
     (\<not> (last vch AND 0x7f = 0 \<and> (length vch \<le> 1 \<or> (vch ! (length vch - 2)) AND 0x80 = 0)))"

text \<open>The constructor of \<^verbatim>\<open>CScriptNum\<close> from bytes, which throws \<^verbatim>\<open>scriptnum_error\<close>.\<close>

definition CScriptNum_vch :: "bytes \<Rightarrow> bool \<Rightarrow> nat \<Rightarrow> int result" where
  "CScriptNum_vch vch fRequireMinimal nMaxNumSize =
     (if nMaxNumSize < length vch then Inl StdException
      else if fRequireMinimal \<and> 0 < length vch \<and> \<not> CScriptNum_minimal vch then Inl StdException
      else Inr (CScriptNum_set_vch vch))"

definition CScriptNum_add_assign :: "int \<Rightarrow> int \<Rightarrow> int result" where
  "CScriptNum_add_assign m_value rhs =
     (if rhs = 0 \<or> (rhs > 0 \<and> m_value \<le> 2 ^ 63 - 1 - rhs) \<or> (rhs < 0 \<and> m_value \<ge> - (2 ^ 63) - rhs)
      then Inr (m_value + rhs) else Inl AssertFailed)"

definition CScriptNum_sub_assign :: "int \<Rightarrow> int \<Rightarrow> int result" where
  "CScriptNum_sub_assign m_value rhs =
     (if rhs = 0 \<or> (rhs > 0 \<and> m_value \<ge> - (2 ^ 63) + rhs) \<or> (rhs < 0 \<and> m_value \<le> 2 ^ 63 - 1 + rhs)
      then Inr (m_value - rhs) else Inl AssertFailed)"

definition CScriptNum_negate :: "int \<Rightarrow> int result" where
  "CScriptNum_negate m_value = (if m_value \<noteq> - (2 ^ 63) then Inr (- m_value) else Inl AssertFailed)"

definition CScriptNum_getint :: "int \<Rightarrow> int" where
  "CScriptNum_getint m_value =
     (if 2147483647 < m_value then 2147483647 else if m_value < - 2147483648 then - 2147483648 else m_value)"

section \<open>Building and parsing scripts\<close>

definition push_data :: "bytes \<Rightarrow> bytes" where
  "push_data b =
     (if length b < 0x4c then [of_nat (length b)]
      else if length b \<le> 0xff then [OP_PUSHDATA1, of_nat (length b)]
      else if length b \<le> 0xffff then OP_PUSHDATA2 # le_bytes 2 (length b)
      else OP_PUSHDATA4 # le_bytes 4 (length b)) @ b"

definition push_int64 :: "int \<Rightarrow> bytes" where
  "push_int64 n =
     (if n = -1 \<or> (1 \<le> n \<and> n \<le> 16) then [word_of_int (n + 0x50)]
      else if n = 0 then [OP_0]
      else push_data (CScriptNum_serialize n))"

text \<open>\<^verbatim>\<open>GetOp2\<close> from the bytes left at \<^verbatim>\<open>pc\<close>: the opcode, its operand and the bytes left after it.\<close>

definition get_operand :: "u8 \<Rightarrow> nat \<Rightarrow> bytes \<Rightarrow> (u8 \<times> bytes \<times> bytes) option" where
  "get_operand opcode nSize pc =
     (if length pc < nSize then None else Some (opcode, take nSize pc, drop nSize pc))"

definition GetOp :: "bytes \<Rightarrow> (u8 \<times> bytes \<times> bytes) option" where
  "GetOp s =
     (case s of
        [] \<Rightarrow> None
      | opcode # pc \<Rightarrow>
          if opcode \<le> OP_PUSHDATA4
          then if opcode < OP_PUSHDATA1 then get_operand opcode (unat opcode) pc
               else if opcode = OP_PUSHDATA1
               then if length pc < 1 then None else get_operand opcode (unat (hd pc)) (drop 1 pc)
               else if opcode = OP_PUSHDATA2
               then if length pc < 2 then None else get_operand opcode (le_value (take 2 pc)) (drop 2 pc)
               else if length pc < 4 then None else get_operand opcode (le_value (take 4 pc)) (drop 4 pc)
          else Some (opcode, [], pc))"

lemma GetOp_shorter: "GetOp s = Some (opcode, vch, pc) \<Longrightarrow> length pc < length s"
  by (auto simp: GetOp_def get_operand_def split: list.splits if_splits)

definition DecodeOP_N :: "u8 \<Rightarrow> int result" where
  "DecodeOP_N opcode =
     (if opcode = OP_0 then Inr 0
      else if OP_1 \<le> opcode \<and> opcode \<le> OP_16 then Inr (uint opcode - 0x50)
      else Inl AssertFailed)"

definition EncodeOP_N :: "int \<Rightarrow> u8 result" where
  "EncodeOP_N n =
     (if 0 \<le> n \<and> n \<le> 16 then Inr (if n = 0 then OP_0 else word_of_int (0x51 + n - 1)) else Inl AssertFailed)"

text \<open>\<^verbatim>\<open>FindAndDelete\<close>: skip the copies of \<open>b\<close> at \<^verbatim>\<open>pc\<close>, then step over one operation.\<close>

function skip_copies :: "bytes \<Rightarrow> bytes \<Rightarrow> nat \<times> bytes" where
  "skip_copies b pc =
     (if b \<noteq> [] \<and> length b \<le> length pc \<and> take (length b) pc = b
      then (case skip_copies b (drop (length b) pc) of (n, r) \<Rightarrow> (Suc n, r))
      else (0, pc))"
  by pat_completeness auto
termination by (relation "measure (\<lambda>(b, pc). length pc)") (auto intro!: diff_less simp: Suc_le_eq)

declare skip_copies.simps [simp del]

lemma skip_copies_shorter: "length (snd (skip_copies b pc)) \<le> length pc"
proof (induction b pc rule: skip_copies.induct)
  case (1 b pc)
  then show ?case by (subst skip_copies.simps) (auto split: prod.splits)
qed

function delete_loop :: "bytes \<Rightarrow> bytes \<Rightarrow> bytes \<Rightarrow> bytes \<Rightarrow> nat \<Rightarrow> bytes \<times> nat" where
  "delete_loop b seg pc result nFound =
     (case skip_copies b pc of (m, pc2) \<Rightarrow>
        (case GetOp pc2 of
           None \<Rightarrow> (result @ seg @ pc2, nFound + m)
         | Some (opcode, vch, pc') \<Rightarrow>
             delete_loop b (take (length pc2 - length pc') pc2) pc' (result @ seg) (nFound + m)))"
  by pat_completeness auto
termination
proof (relation "measure (\<lambda>(b, seg, pc, result, n). length pc)")
  fix b pc :: bytes and m pc2 x opcode y vch pc' and seg result :: bytes and nFound :: nat
  assume *: "(m, pc2) = skip_copies b pc" and "GetOp pc2 = Some x" "(opcode, y) = x" "(vch, pc') = y"
  then have "length pc' < length pc2" using GetOp_shorter by metis
  moreover have "length pc2 \<le> length pc" using skip_copies_shorter [of b pc] * [symmetric] by simp
  ultimately show "((b, take (length pc2 - length pc') pc2, pc', result @ seg, nFound + m), b, seg, pc, result, nFound)
      \<in> measure (\<lambda>(b, seg, pc, result, n). length pc)" by simp
qed simp

declare delete_loop.simps [simp del]

definition FindAndDelete :: "bytes \<Rightarrow> bytes \<Rightarrow> bytes \<times> nat" where
  "FindAndDelete s b =
     (if b = [] then (s, 0)
      else case delete_loop b [] s [] 0 of (result, nFound) \<Rightarrow> (if nFound > 0 then result else s, nFound))"

section \<open>Walking over a script\<close>

text \<open>The operations of a script up to its end or the first one that does not parse.\<close>

function script_ops :: "bytes \<Rightarrow> (u8 \<times> bytes) list \<times> bool" where
  "script_ops s =
     (if s = [] then ([], True)
      else case GetOp s of
        None \<Rightarrow> ([], False)
      | Some (opcode, vch, pc) \<Rightarrow> (case script_ops pc of (l, ok) \<Rightarrow> ((opcode, vch) # l, ok)))"
  by pat_completeness auto
termination by (relation "measure length") (auto dest: GetOp_shorter)

declare script_ops.simps [simp del]

definition CScript_Find :: "u8 \<Rightarrow> bytes \<Rightarrow> nat" where
  "CScript_Find opc s = length (filter (\<lambda>e. fst e = opc) (fst (script_ops s)))"

definition IsPushOnly :: "bytes \<Rightarrow> bool" where
  "IsPushOnly s = (case script_ops s of (l, ok) \<Rightarrow> ok \<and> list_all (\<lambda>e. fst e \<le> OP_16) l)"

fun sig_ops :: "bool \<Rightarrow> u8 \<Rightarrow> (u8 \<times> bytes) list \<Rightarrow> nat" where
  "sig_ops fAccurate lastOpcode [] = 0"
| "sig_ops fAccurate lastOpcode ((opcode, vch) # l) =
     (if opcode = OP_CHECKSIG \<or> opcode = OP_CHECKSIGVERIFY then 1
      else if opcode = OP_CHECKMULTISIG \<or> opcode = OP_CHECKMULTISIGVERIFY
      then if fAccurate \<and> OP_1 \<le> lastOpcode \<and> lastOpcode \<le> OP_16 then unat lastOpcode - 0x50
           else MAX_PUBKEYS_PER_MULTISIG
      else 0) + sig_ops fAccurate opcode l"

definition GetSigOpCount :: "bool \<Rightarrow> bytes \<Rightarrow> nat" where
  "GetSigOpCount fAccurate s = sig_ops fAccurate OP_INVALIDOPCODE (fst (script_ops s))"

definition IsPayToScriptHash :: "bytes \<Rightarrow> bool" where
  "IsPayToScriptHash s = (length s = 23 \<and> s ! 0 = OP_HASH160 \<and> s ! 1 = 0x14 \<and> s ! 22 = OP_EQUAL)"

definition GetSigOpCount_P2SH :: "bytes \<Rightarrow> bytes \<Rightarrow> nat" where
  "GetSigOpCount_P2SH s scriptSig =
     (if \<not> IsPayToScriptHash s then GetSigOpCount True s
      else case script_ops scriptSig of (l, ok) \<Rightarrow>
        if \<not> ok \<or> \<not> list_all (\<lambda>e. fst e \<le> OP_16) l then 0
        else GetSigOpCount True (if l = [] then [] else snd (last l)))"

section \<open>Recognised shapes\<close>

definition IsColdStaking :: "bytes \<Rightarrow> bool" where
  "IsColdStaking s =
     (length s > 2 \<and> s ! 0 = OP_COINSTAKE \<and> s ! 1 = OP_IF)"

definition IsColdStakingv2 :: "bytes \<Rightarrow> bool" where
  "IsColdStakingv2 s =
     (length s > 24 \<and> s ! 0 = 0x14 \<and> s ! 21 = OP_DROP \<and> s ! 22 = OP_COINSTAKE \<and>
      s ! 23 = OP_IF)"

definition HasColdStakingP2PKHStaking :: "bytes \<Rightarrow> bool" where
  "HasColdStakingP2PKHStaking s =
     (length s > 27 \<and> s ! 0 = OP_COINSTAKE \<and> s ! 1 = OP_IF \<and> s ! 2 = OP_DUP \<and>
      s ! 3 = OP_HASH160 \<and> s ! 4 = 0x14 \<and> s ! 25 = OP_EQUALVERIFY \<and>
      s ! 26 = OP_CHECKSIG \<and> s ! 27 = OP_ELSE)"

definition HasColdStakingP2PKHSpending :: "bytes \<Rightarrow> bool" where
  "HasColdStakingP2PKHSpending s =
     (length s = 54 \<and> s ! 0 = OP_COINSTAKE \<and> s ! 1 = OP_IF \<and> s ! 2 = OP_DUP \<and>
      s ! 3 = OP_HASH160 \<and> s ! 4 = 0x14 \<and> s ! 25 = OP_EQUALVERIFY \<and>
      s ! 26 = OP_CHECKSIG \<and> s ! 27 = OP_ELSE \<and> s ! 28 = OP_DUP \<and>
      s ! 29 = OP_HASH160 \<and> s ! 30 = 0x14 \<and> s ! 51 = OP_EQUALVERIFY \<and>
      s ! 52 = OP_CHECKSIG \<and> s ! 53 = OP_ENDIF)"

definition HasColdStakingv2P2PKHStaking :: "bytes \<Rightarrow> bool" where
  "HasColdStakingv2P2PKHStaking s =
     (length s > 50 \<and> s ! 0 = 0x14 \<and> s ! 21 = OP_DROP \<and> s ! 22 = OP_COINSTAKE \<and>
      s ! 23 = OP_IF \<and> s ! 24 = OP_DUP \<and> s ! 25 = OP_HASH160 \<and> s ! 26 = 0x14 \<and>
      s ! 47 = OP_EQUALVERIFY \<and> s ! 48 = OP_CHECKSIG \<and> s ! 49 = OP_ELSE)"

definition HasColdStakingv2P2PKHSpending :: "bytes \<Rightarrow> bool" where
  "HasColdStakingv2P2PKHSpending s =
     (length s = 76 \<and> s ! 0 = 0x14 \<and> s ! 21 = OP_DROP \<and> s ! 22 = OP_COINSTAKE \<and>
      s ! 23 = OP_IF \<and> s ! 24 = OP_DUP \<and> s ! 25 = OP_HASH160 \<and> s ! 26 = 0x14 \<and>
      s ! 47 = OP_EQUALVERIFY \<and> s ! 48 = OP_CHECKSIG \<and> s ! 49 = OP_ELSE \<and>
      s ! 50 = OP_DUP \<and> s ! 51 = OP_HASH160 \<and> s ! 52 = 0x14 \<and>
      s ! 73 = OP_EQUALVERIFY \<and> s ! 74 = OP_CHECKSIG \<and> s ! 75 = OP_ENDIF)"

definition IsPayToPublicKeyHash :: "bytes \<Rightarrow> bool" where
  "IsPayToPublicKeyHash s =
     (length s = 25 \<and> s ! 0 = OP_DUP \<and> s ! 1 = OP_HASH160 \<and> s ! 2 = 0x14 \<and>
      s ! 23 = OP_EQUALVERIFY \<and> s ! 24 = OP_CHECKSIG)"

definition IsPayToPublicKey :: "bytes \<Rightarrow> bool" where
  "IsPayToPublicKey s =
     ((length s = 35 \<and> s ! 0 = 0x21 \<and> s ! 34 = OP_CHECKSIG) \<or> (length s = 67 \<and>
      s ! 0 = 0x41 \<and> s ! 66 = OP_CHECKSIG))"

definition IsCommunityFundContribution :: "bytes \<Rightarrow> bool" where
  "IsCommunityFundContribution s =
     (length s = 2 \<and> s ! 0 = OP_RETURN \<and> s ! 1 = OP_CFUND)"

definition IsConsultationVoteAnswer :: "bytes \<Rightarrow> bool" where
  "IsConsultationVoteAnswer s =
     (length s \<ge> 36 \<and> s ! 0 = OP_RETURN \<and> s ! 1 = OP_CONSULTATION \<and>
      s ! 2 = OP_ANSWER \<and> s ! 3 = 0x20)"

definition IsConsultationVoteAbstention :: "bytes \<Rightarrow> bool" where
  "IsConsultationVoteAbstention s =
     (length s = 36 \<and> s ! 0 = OP_RETURN \<and> s ! 1 = OP_CONSULTATION \<and>
      s ! 2 = OP_ABSTAIN \<and> s ! 3 = 0x20)"

definition IsConsultationVoteRemove :: "bytes \<Rightarrow> bool" where
  "IsConsultationVoteRemove s =
     (length s = 36 \<and> s ! 0 = OP_RETURN \<and> s ! 1 = OP_CONSULTATION \<and>
      s ! 2 = OP_REMOVE \<and> s ! 3 = 0x20)"

definition IsConsultationVote :: "bytes \<Rightarrow> bool" where
  "IsConsultationVote s =
     (IsConsultationVoteAnswer s \<or> IsConsultationVoteAbstention s \<or> IsConsultationVoteRemove s)"

definition IsSupportVoteYes :: "bytes \<Rightarrow> bool" where
  "IsSupportVoteYes s =
     (length s = 36 \<and> s ! 0 = OP_RETURN \<and> s ! 1 = OP_DAO \<and> s ! 2 = OP_YES \<and>
      s ! 3 = 0x20)"

definition IsSupportVoteRemove :: "bytes \<Rightarrow> bool" where
  "IsSupportVoteRemove s =
     (length s = 36 \<and> s ! 0 = OP_RETURN \<and> s ! 1 = OP_DAO \<and> s ! 2 = OP_REMOVE \<and>
      s ! 3 = 0x20)"

definition IsSupportVote :: "bytes \<Rightarrow> bool" where
  "IsSupportVote s =
     (IsSupportVoteYes s \<or> IsSupportVoteRemove s)"

definition IsProposalVoteYes :: "bytes \<Rightarrow> bool" where
  "IsProposalVoteYes s =
     (length s = 37 \<and> s ! 0 = OP_RETURN \<and> s ! 1 = OP_CFUND \<and> s ! 2 = OP_PROP \<and>
      s ! 3 = OP_YES \<and> s ! 4 = 0x20)"

definition IsProposalVoteNo :: "bytes \<Rightarrow> bool" where
  "IsProposalVoteNo s =
     (length s = 37 \<and> s ! 0 = OP_RETURN \<and> s ! 1 = OP_CFUND \<and> s ! 2 = OP_PROP \<and>
      s ! 3 = OP_NO \<and> s ! 4 = 0x20)"

definition IsProposalVoteAbs :: "bytes \<Rightarrow> bool" where
  "IsProposalVoteAbs s =
     (length s = 37 \<and> s ! 0 = OP_RETURN \<and> s ! 1 = OP_CFUND \<and> s ! 2 = OP_PROP \<and>
      s ! 3 = OP_ABSTAIN \<and> s ! 4 = 0x20)"

definition IsProposalVoteRemove :: "bytes \<Rightarrow> bool" where
  "IsProposalVoteRemove s =
     (length s = 37 \<and> s ! 0 = OP_RETURN \<and> s ! 1 = OP_CFUND \<and> s ! 2 = OP_PROP \<and>
      s ! 3 = OP_REMOVE \<and> s ! 4 = 0x20)"

definition IsProposalVote :: "bytes \<Rightarrow> bool" where
  "IsProposalVote s =
     (IsProposalVoteYes s \<or> IsProposalVoteNo s \<or> IsProposalVoteAbs s \<or>
      IsProposalVoteRemove s)"

definition IsPaymentRequestVoteYes :: "bytes \<Rightarrow> bool" where
  "IsPaymentRequestVoteYes s =
     (length s = 37 \<and> s ! 0 = OP_RETURN \<and> s ! 1 = OP_CFUND \<and> s ! 2 = OP_PREQ \<and>
      s ! 3 = OP_YES \<and> s ! 4 = 0x20)"

definition IsPaymentRequestVoteNo :: "bytes \<Rightarrow> bool" where
  "IsPaymentRequestVoteNo s =
     (length s = 37 \<and> s ! 0 = OP_RETURN \<and> s ! 1 = OP_CFUND \<and> s ! 2 = OP_PREQ \<and>
      s ! 3 = OP_NO \<and> s ! 4 = 0x20)"

definition IsPaymentRequestVoteAbs :: "bytes \<Rightarrow> bool" where
  "IsPaymentRequestVoteAbs s =
     (length s = 37 \<and> s ! 0 = OP_RETURN \<and> s ! 1 = OP_CFUND \<and> s ! 2 = OP_PREQ \<and>
      s ! 3 = OP_ABSTAIN \<and> s ! 4 = 0x20)"

definition IsPaymentRequestVoteRemove :: "bytes \<Rightarrow> bool" where
  "IsPaymentRequestVoteRemove s =
     (length s = 37 \<and> s ! 0 = OP_RETURN \<and> s ! 1 = OP_CFUND \<and> s ! 2 = OP_PREQ \<and>
      s ! 3 = OP_REMOVE \<and> s ! 4 = 0x20)"

definition IsPaymentRequestVote :: "bytes \<Rightarrow> bool" where
  "IsPaymentRequestVote s =
     (IsPaymentRequestVoteYes s \<or> IsPaymentRequestVoteNo s \<or> IsPaymentRequestVoteAbs s \<or>
      IsPaymentRequestVoteRemove s)"

definition IsPool :: "bytes \<Rightarrow> bool" where
  "IsPool s =
     (length s = 2 \<and> s ! 0 = OP_RETURN \<and> s ! 1 = OP_POOL)"

definition IsPayToWitnessScriptHash :: "bytes \<Rightarrow> bool" where
  "IsPayToWitnessScriptHash s =
     (length s = 34 \<and> s ! 0 = OP_0 \<and> s ! 1 = 0x20)"

definition IsFee :: "bytes \<Rightarrow> bool" where
  "IsFee s =
     (length s = 1 \<and> s ! 0 = OP_RETURN)"

definition IsWitnessProgram :: "bytes \<Rightarrow> (int \<times> bytes) option result" where
  "IsWitnessProgram s =
     (if length s < 4 \<or> length s > 42 then Inr None
      else if s ! 0 \<noteq> OP_0 \<and> (s ! 0 < OP_1 \<or> s ! 0 > OP_16) then Inr None
      else if unat (s ! 1) + 2 = length s
      then bindR (DecodeOP_N (s ! 0)) (\<lambda>version. Inr (Some (version, drop 2 s)))
      else Inr None)"

definition IsUnspendable :: "bytes \<Rightarrow> bool" where
  "IsUnspendable s =
     (\<not> (length s = 1 \<and> s ! 0 = OP_1) \<and> ((length s > 0 \<and> s ! 0 = OP_RETURN) \<or> length s > MAX_SCRIPT_SIZE))"

definition GetStakerScript :: "bytes \<Rightarrow> bytes" where
  "GetStakerScript s =
     (if IsColdStakingv2 s then take 20 s
      else if IsPayToPublicKeyHash s then take 20 (drop 2 s)
      else s)"

lemmas vote_shapes = IsProposalVote_def IsProposalVoteYes_def IsProposalVoteNo_def IsProposalVoteAbs_def
  IsProposalVoteRemove_def IsPaymentRequestVote_def IsPaymentRequestVoteYes_def IsPaymentRequestVoteNo_def
  IsPaymentRequestVoteAbs_def IsPaymentRequestVoteRemove_def IsSupportVote_def IsSupportVoteYes_def
  IsSupportVoteRemove_def IsConsultationVote_def IsConsultationVoteAnswer_def IsConsultationVoteAbstention_def
  IsConsultationVoteRemove_def

end
