(* ===== verification/ScriptLaws.thy ===== *)
theory ScriptLaws
  imports Script
begin

text \<open>
  Laws of scripts: script numbers are encoded minimally and read back, pushes parse back to the
  pushed data, and the signature operations of a script are bounded by its size.
\<close>

section \<open>Single bytes\<close>

lemma bit_sign: "bit (0x80 :: nat) n \<longleftrightarrow> n = 7" "bit (0x80 :: int) n \<longleftrightarrow> n = 7"
proof -
  have *: "(0x80 :: nat) = push_bit 7 1" "(0x80 :: int) = push_bit 7 1" by (simp_all add: push_bit_eq_mult)
  show "bit (0x80 :: nat) n \<longleftrightarrow> n = 7" "bit (0x80 :: int) n \<longleftrightarrow> n = 7"
    unfolding * bit_push_bit_iff bit_1_iff by auto
qed

lemma bit_low: "bit (0x7f :: nat) n \<longleftrightarrow> n < 7" "bit (0x7f :: int) n \<longleftrightarrow> n < 7"
proof -
  have *: "(0x7f :: nat) = mask 7" "(0x7f :: int) = mask 7" by (simp_all add: mask_eq_exp_minus_1)
  show "bit (0x7f :: nat) n \<longleftrightarrow> n < 7" "bit (0x7f :: int) n \<longleftrightarrow> n < 7"
    unfolding * bit_mask_iff by auto
qed

lemma sign_zero: "b AND (0x80 :: u8) = 0 \<longleftrightarrow> \<not> bit b 7"
proof
  assume "b AND 0x80 = 0"
  then have "\<not> bit (b AND 0x80) 7" by simp
  then show "\<not> bit b 7" by (simp add: bit_and_iff bit_sign)
next
  assume "\<not> bit b 7"
  then show "b AND 0x80 = 0" by (auto intro!: bit_word_eqI simp: bit_and_iff bit_sign)
qed

lemma drop_sign [simp]:
  "(b OR 0x80) AND (0x7f :: u8) = b AND 0x7f"
  "\<not> bit b 7 \<Longrightarrow> b AND (0x7f :: u8) = b"
  by (auto intro!: bit_word_eqI simp: bit_and_iff bit_or_iff bit_sign bit_low less_Suc_eq eval_nat_numeral)

lemma bit_OR_sign [simp]: "bit (b OR (0x80 :: u8)) 7" "\<not> bit (0 :: u8) 7" "bit (0x80 :: u8) 7"
  by (simp_all add: bit_or_iff bit_sign)

lemma byte_top_bit: "bit (b :: u8) 7 \<longleftrightarrow> 128 \<le> unat b"
proof -
  have "bit b 7 \<longleftrightarrow> bit (unat b) 7" by (simp add: bit_unsigned_iff)
  also have "\<dots> \<longleftrightarrow> odd (unat b div 2 ^ 7)" by (rule bit_iff_odd)
  also have "unat b div 2 ^ 7 = (if 128 \<le> unat b then 1 else 0)"
    using byte_bound [of b] by (cases "128 \<le> unat b"; simp del: byte_bound; linarith)
  finally show ?thesis by simp
qed

lemma unat_low: "unat (b AND (0x7f :: u8)) = unat b mod 128"
proof -
  have "(0x7f :: u8) = mask 7" by (simp add: mask_eq_exp_minus_1)
  then have "b AND 0x7f = take_bit 7 b" by (simp add: take_bit_eq_mask)
  then show ?thesis by (simp add: take_bit_eq_mod unat_mod)
qed

section \<open>Script numbers\<close>

lemma serialize_loop_value: "le_value (serialize_loop a) = unat a"
proof (induction a rule: serialize_loop.induct)
  case (1 a)
  show ?case
  proof (cases "a = 0")
    case False
    have "unat (drop_bit 8 a) = unat a div 256" by (simp add: drop_bit_eq_div unat_div)
    moreover have "unat (ucast a :: u8) = unat a mod 256" by (simp add: unsigned_ucast_eq take_bit_eq_mod)
    ultimately show ?thesis using 1 False by (subst serialize_loop.simps) simp
  qed (subst serialize_loop.simps, simp)
qed

lemma serialize_loop_nonempty: "a \<noteq> 0 \<Longrightarrow> serialize_loop a \<noteq> []"
  by (subst serialize_loop.simps) simp

lemma serialize_loop_last: "a \<noteq> 0 \<Longrightarrow> last (serialize_loop a) \<noteq> 0"
proof (induction a rule: serialize_loop.induct)
  case (1 a)
  show ?case
  proof (cases "drop_bit 8 a = 0")
    case True
    then have "serialize_loop a = [ucast a]" using 1(2) by (subst serialize_loop.simps, subst serialize_loop.simps) simp
    moreover have "unat (drop_bit 8 a) = unat a div 256" by (simp add: drop_bit_eq_div unat_div)
    then have "unat a mod 256 = unat a" using True by simp
    then have "unat (ucast a :: u8) = unat a" by (simp add: unsigned_ucast_eq take_bit_eq_mod)
    then have "ucast a \<noteq> (0 :: u8)" using 1(2) by (metis unat_0 unat_eq_zero)
    ultimately show ?thesis by simp
  next
    case False
    then show ?thesis using 1 serialize_loop_nonempty [OF False] by (subst serialize_loop.simps) simp
  qed
qed

text \<open>The loop of \<^verbatim>\<open>set_vch\<close> computes the little-endian value.\<close>

abbreviation (input) or_bytes :: "bytes \<Rightarrow> u64" where
  "or_bytes vch \<equiv> foldl (\<lambda>r i. r OR push_bit (8 * i) (ucast (vch ! i))) (0 :: u64) [0..<length vch]"

lemma or_bytes_snoc:
  "or_bytes (bs @ [b]) = or_bytes bs OR push_bit (8 * length bs) (ucast b)"
proof -
  have "foldl (\<lambda>r i. r OR push_bit (8 * i) (ucast ((bs @ [b]) ! i))) (0 :: u64) [0..<length bs] = or_bytes bs"
    by (rule foldl_cong) (auto simp: nth_append)
  then show ?thesis by simp
qed

lemma or_bytes_bits: "bit (or_bytes bs) n \<Longrightarrow> n < 8 * length bs"
proof (induction bs rule: rev_induct)
  case (snoc b bs)
  then show ?case unfolding or_bytes_snoc
    using bit_imp_le_length [of b "n - 8 * length bs"] by (auto simp: bit_or_iff bit_push_bit_iff bit_unsigned_iff)
qed simp

lemma or_bytes_value: "length bs \<le> 8 \<Longrightarrow> unat (or_bytes bs) = le_value bs"
proof (induction bs rule: rev_induct)
  case (snoc b bs)
  let ?k = "length bs"
  have disj: "\<not> bit (or_bytes bs) n \<or> \<not> bit (push_bit (8 * ?k) (ucast b :: u64)) n" for n
    using or_bytes_bits [of bs n] by (auto simp: bit_push_bit_iff)
  have eq: "or_bytes (bs @ [b]) = or_bytes bs + push_bit (8 * ?k) (ucast b)"
    unfolding or_bytes_snoc by (rule disjunctive_add [symmetric]) (use disj in blast)
  have "unat b * 256 ^ ?k + le_value bs < 256 ^ Suc ?k"
    using le_value_bound [of "bs @ [b]"] by (simp add: le_value_append algebra_simps)
  also have "\<dots> \<le> 256 ^ 8" using snoc.prems by (intro power_increasing) auto
  finally have lt: "unat b * 256 ^ ?k + le_value bs < 2 ^ 64" by simp
  have "push_bit (8 * ?k) (ucast b :: u64) = of_nat (unat b * 256 ^ ?k)"
    by (simp add: push_bit_eq_mult power_mult)
  then have "unat (push_bit (8 * ?k) (ucast b :: u64)) = unat b * 256 ^ ?k"
    using lt by (simp only: unat_of_nat) simp
  moreover have "unat (or_bytes bs) = le_value bs" using snoc by simp
  ultimately show ?case unfolding eq
    using lt by (simp add: unat_add_lem [THEN iffD1] le_value_append)
qed simp

lemma or_bytes_unsign:
  assumes "length bs < 8"
  shows "or_bytes (bs @ [b]) AND NOT (push_bit (8 * length bs) 0x80) = or_bytes (bs @ [b AND 0x7f])"
  unfolding or_bytes_snoc
proof (rule bit_word_eqI)
  fix n
  assume "n < LENGTH(64)"
  let ?k = "8 * length bs"
  have low: "bit (or_bytes bs) n \<Longrightarrow> n < ?k" by (rule or_bytes_bits)
  have b: "bit b m \<Longrightarrow> m < 8" for m using bit_imp_le_length [of b m] by simp
  show "bit ((or_bytes bs OR push_bit ?k (ucast b)) AND NOT (push_bit ?k 0x80)) n =
      bit (or_bytes bs OR push_bit ?k (ucast (b AND 0x7f))) n"
    using low b [of "n - ?k"] \<open>n < LENGTH(64)\<close>
    by (auto simp: bit_and_iff bit_or_iff bit_not_iff bit_push_bit_iff bit_unsigned_iff bit_sign bit_low)
qed

definition magnitude :: "bytes \<Rightarrow> nat" where
  "magnitude vch = le_value (butlast vch @ [last vch AND 0x7f])"

lemma magnitude_bound: "vch \<noteq> [] \<Longrightarrow> magnitude vch < 2 ^ (8 * length vch - 1)"
proof (induction vch rule: rev_induct)
  case (snoc b bs)
  have "magnitude (bs @ [b]) = le_value bs + 256 ^ length bs * (unat b mod 128)"
    by (simp add: magnitude_def le_value_append unat_low)
  also have "\<dots> < 256 ^ length bs + 256 ^ length bs * (unat b mod 128)"
    using le_value_bound [of bs] by simp
  also have "\<dots> = 256 ^ length bs * (unat b mod 128 + 1)" by simp
  also have "\<dots> \<le> 256 ^ length bs * 128"
    by (intro mult_left_mono) (simp_all add: Suc_le_eq)
  also have "\<dots> = 2 ^ (8 * length (bs @ [b]) - 1)"
    by (simp add: power_mult power_add)
  finally show ?case .
qed simp

lemma set_vch_magnitude:
  assumes "vch \<noteq> []" "length vch \<le> 8"
  shows "CScriptNum_set_vch vch = (if bit (last vch) 7 then - int (magnitude vch) else int (magnitude vch))"
proof -
  obtain bs b where vch: "vch = bs @ [b]" using assms(1) by (metis append_butlast_last_id)
  have len: "length bs < 8" using assms(2) vch by simp
  let ?r = "or_bytes (bs @ [b AND 0x7f])"
  have u: "unat ?r = magnitude vch" using or_bytes_value [of "bs @ [b AND 0x7f]"] len by (simp add: vch magnitude_def)
  have lt: "magnitude vch < 2 ^ 63"
  proof -
    have "(2 :: nat) ^ (8 * length vch - 1) \<le> 2 ^ 63" using assms(2) by (intro power_increasing) auto
    with magnitude_bound [OF assms(1)] show ?thesis by simp
  qed
  have "uint ?r = int (magnitude vch)" unfolding u [symmetric] by (rule of_nat_unat [symmetric])
  then have sint: "sint ?r = int (magnitude vch)"
    unfolding sint_uint using lt by (intro signed_take_bit_int_eq_self [THEN trans]) simp_all
  have "or_bytes vch AND NOT (push_bit (8 * (length vch - 1)) 0x80) = ?r"
    using or_bytes_unsign [OF len, of b] unfolding vch by simp
  moreover have "or_bytes vch = ?r" if "\<not> bit b 7" unfolding vch drop_sign(2) [OF that] ..
  moreover have "last vch = b" by (simp add: vch)
  ultimately show ?thesis
    using assms(1) sint unfolding CScriptNum_set_vch_def Let_def sign_zero by auto
qed

lemma minimal_bound:
  assumes "CScriptNum_minimal vch" "2 \<le> length vch"
  shows "2 ^ (8 * (length vch - 1) - 1) \<le> magnitude vch"
proof -
  obtain bs' b where "vch = bs' @ [b]" using assms(2) by (cases vch rule: rev_cases) auto
  moreover obtain bs c where "bs' = bs @ [c]" using assms(2) calculation by (cases bs' rule: rev_cases) auto
  ultimately have vch: "vch = bs @ [c, b]" by simp
  let ?P = "256 ^ length bs :: nat"
  have mag: "magnitude vch = le_value bs + ?P * unat c + ?P * 256 * (unat b mod 128)"
    by (simp add: magnitude_def vch le_value_append unat_low butlast_append algebra_simps)
  have goal: "2 ^ (8 * (length vch - 1) - 1) = ?P * 128"
    by (simp add: vch power_mult power_add)
  have "b AND 0x7f \<noteq> 0 \<or> bit c 7"
    using assms(1) by (auto simp: CScriptNum_minimal_def vch nth_append sign_zero)
  then show ?thesis
  proof
    assume "b AND 0x7f \<noteq> 0"
    then have "unat b mod 128 \<noteq> 0" by (metis unat_low unat_eq_zero)
    then have "?P * 256 * 1 \<le> ?P * 256 * (unat b mod 128)" by (intro mult_left_mono) auto
    with mag goal show ?thesis by linarith
  next
    assume "bit c 7"
    then have "?P * 128 \<le> ?P * unat c" by (simp add: byte_top_bit)
    with mag goal show ?thesis by linarith
  qed
qed

lemma serialize_shape:
  assumes "n \<noteq> 0" "\<bar>n\<bar> < 2 ^ 63"
  shows "CScriptNum_serialize n \<noteq> []" "length (CScriptNum_serialize n) \<le> 8"
    "int (magnitude (CScriptNum_serialize n)) = \<bar>n\<bar>" "bit (last (CScriptNum_serialize n)) 7 \<longleftrightarrow> n < 0"
    "CScriptNum_minimal (CScriptNum_serialize n)"
proof -
  define a :: u64 where "a = word_of_int \<bar>n\<bar>"
  let ?r = "serialize_loop a" and ?s = "CScriptNum_serialize n"
  have ua: "int (unat a) = \<bar>n\<bar>" using assms(2) by (simp add: a_def uint_word_of_int_eq take_bit_int_eq_self)
  have a0: "a \<noteq> 0" using ua assms(1) by auto
  note r = serialize_loop_nonempty [OF a0] serialize_loop_last [OF a0] serialize_loop_value [of a]
  obtain bs b where bs: "?r = bs @ [b]" using r(1) by (metis append_butlast_last_id)
  have s: "?s = (if bit b 7 then bs @ [b, if n < 0 then 0x80 else 0] else if n < 0 then bs @ [b OR 0x80] else bs @ [b])"
    using assms(1) bs a_def by (auto simp: CScriptNum_serialize_def Let_def sign_zero)
  then show "?s \<noteq> []" "bit (last ?s) 7 \<longleftrightarrow> n < 0" by (simp_all split: if_splits)
  have "le_value (bs @ [b]) = unat a" using r(3) bs by simp
  moreover have "le_value (xs @ [0]) = le_value xs" for xs by (simp add: le_value_append)
  ultimately have "magnitude ?s = unat a"
    unfolding s by (auto simp: magnitude_def butlast_append le_value_append)
  then show "int (magnitude ?s) = \<bar>n\<bar>" using ua by simp
  have "b \<noteq> 0" using r(2) bs by simp
  moreover have "(b OR 0x80) AND 0x7f = 0 \<Longrightarrow> \<not> bit b 7 \<Longrightarrow> b = 0" by simp
  ultimately show "CScriptNum_minimal ?s"
    unfolding s CScriptNum_minimal_def by (auto simp: nth_append sign_zero)
  then have "length ?s \<le> 8 \<or> 2 ^ (8 * (length ?s - 1) - 1) \<le> magnitude ?s"
    using minimal_bound [of ?s] by (cases "length ?s \<le> 8") auto
  moreover have "(2 :: nat) ^ 63 \<le> 2 ^ (8 * (length ?s - 1) - 1)" if "\<not> length ?s \<le> 8"
    using that by (intro power_increasing) auto
  moreover have "magnitude ?s < 2 ^ 63" using \<open>int (magnitude ?s) = \<bar>n\<bar>\<close> assms(2) by simp
  ultimately show "length ?s \<le> 8" by linarith
qed

lemma set_vch_serialize:
  assumes "\<bar>n\<bar> < 2 ^ 63"
  shows "CScriptNum_set_vch (CScriptNum_serialize n) = n"
proof (cases "n = 0")
  case False
  then show ?thesis
    using serialize_shape [OF False assms] set_vch_magnitude [of "CScriptNum_serialize n"] by auto
qed (simp add: CScriptNum_serialize_def CScriptNum_set_vch_def)

lemma length_serialize:
  assumes "\<bar>n\<bar> < 2 ^ 63" "1 \<le> k"
  shows "length (CScriptNum_serialize n) \<le> k \<longleftrightarrow> \<bar>n\<bar> < 2 ^ (8 * k - 1)"
proof (cases "n = 0")
  case False
  let ?s = "CScriptNum_serialize n"
  note shape = serialize_shape [OF False assms(1)]
  have "int (magnitude ?s) < int (2 ^ (8 * length ?s - 1))" using magnitude_bound [OF shape(1)] by linarith
  then have up: "\<bar>n\<bar> < 2 ^ (8 * length ?s - 1)" using shape(3) by simp
  have lo: "2 ^ (8 * (length ?s - 1) - 1) \<le> \<bar>n\<bar>" if "2 \<le> length ?s"
  proof -
    have "int (2 ^ (8 * (length ?s - 1) - 1)) \<le> int (magnitude ?s)" using minimal_bound [OF shape(5) that] by linarith
    with shape(3) show ?thesis by simp
  qed
  show ?thesis
  proof
    assume "length ?s \<le> k"
    then have "(2 :: int) ^ (8 * length ?s - 1) \<le> 2 ^ (8 * k - 1)" by (intro power_increasing) auto
    with up show "\<bar>n\<bar> < 2 ^ (8 * k - 1)" by (rule less_le_trans)
  next
    assume n: "\<bar>n\<bar> < 2 ^ (8 * k - 1)"
    show "length ?s \<le> k"
    proof (rule ccontr)
      assume "\<not> length ?s \<le> k"
      then have "(2 :: int) ^ (8 * k - 1) \<le> 2 ^ (8 * (length ?s - 1) - 1)" "2 \<le> length ?s"
        using assms(2) by (auto intro!: power_increasing)
      with lo n show False by linarith
    qed
  qed
qed (simp add: CScriptNum_serialize_def)

text \<open>A minimal encoding is the one \<^verbatim>\<open>serialize\<close> produces.\<close>

lemma serialize_loop_le_value:
  assumes "bs = [] \<or> last bs \<noteq> 0" "length bs \<le> 8"
  shows "serialize_loop (of_nat (le_value bs)) = bs"
  using assms
proof (induction bs)
  case (Cons b bs)
  have lt: "le_value (b # bs) < 2 ^ 64"
  proof -
    have "(256 :: nat) ^ length (b # bs) \<le> 256 ^ 8" using Cons.prems(2) by (intro power_increasing) auto
    with le_value_bound [of "b # bs"] show ?thesis by simp
  qed
  then have u: "unat (of_nat (le_value (b # bs)) :: u64) = le_value (b # bs)" by (simp only: unat_of_nat) simp
  have pos: "le_value (b # bs) \<noteq> 0"
  proof -
    have "le_value xs \<noteq> 0" if "xs \<noteq> []" "last xs \<noteq> 0" for xs
      using that by (induction xs rule: rev_induct) (simp_all add: le_value_append unat_gt_0)
    then show ?thesis using Cons.prems(1) by blast
  qed
  have "unat (drop_bit 8 (of_nat (le_value (b # bs)) :: u64)) = le_value bs"
    by (simp only: drop_bit_eq_div unat_div u) simp
  from arg_cong [OF this, of "of_nat :: nat \<Rightarrow> u64"]
  have d: "drop_bit 8 (of_nat (le_value (b # bs)) :: u64) = of_nat (le_value bs)" unfolding of_nat_unat ucast_id .
  have "unat (ucast (of_nat (le_value (b # bs)) :: u64) :: u8) = unat b"
    using u by (simp add: unsigned_ucast_eq take_bit_eq_mod)
  then have c: "ucast (of_nat (le_value (b # bs)) :: u64) = b" by (rule unsigned_word_eqI)
  have "of_nat (le_value (b # bs)) \<noteq> (0 :: u64)" using u pos by (metis unat_0)
  moreover have "serialize_loop (of_nat (le_value bs)) = bs" using Cons by (auto split: if_splits)
  ultimately show ?case by (subst serialize_loop.simps, unfold d c) simp
qed (subst serialize_loop.simps, simp)

lemma serialize_nonzero:
  assumes "bs \<noteq> []" "last bs \<noteq> 0" "length bs \<le> 8" "\<bar>n\<bar> = int (le_value bs)"
  shows "CScriptNum_serialize n =
     (if bit (last bs) 7 then bs @ [if n < 0 then 0x80 else 0]
      else if n < 0 then butlast bs @ [last bs OR 0x80] else bs)"
proof -
  have loop: "serialize_loop (of_nat (le_value bs)) = bs" using assms by (intro serialize_loop_le_value) auto
  have "n \<noteq> 0"
  proof
    assume "n = 0"
    then have "serialize_loop 0 = bs" using loop assms(4) by simp
    then show False using assms(1) by (simp add: serialize_loop.simps)
  qed
  have w: "(if n < 0 then word_of_int (- n) else word_of_int n) = (of_nat (le_value bs) :: u64)"
  proof -
    have "(if n < 0 then word_of_int (- n) else word_of_int n) = (word_of_int \<bar>n\<bar> :: u64)" by (simp add: abs_if)
    then show ?thesis unfolding assms(4) by simp
  qed
  show ?thesis unfolding CScriptNum_serialize_def Let_def w loop using \<open>n \<noteq> 0\<close> by (simp add: sign_zero)
qed

lemma serialize_set_vch:
  assumes "vch \<noteq> []" "length vch \<le> 8" "CScriptNum_minimal vch"
  shows "CScriptNum_serialize (CScriptNum_set_vch vch) = vch"
proof -
  obtain bs b where vch: "vch = bs @ [b]" using assms(1) by (metis append_butlast_last_id)
  let ?n = "CScriptNum_set_vch vch"
  have n: "\<bar>?n\<bar> = int (magnitude vch)" "?n < 0 \<longleftrightarrow> bit b 7 \<and> magnitude vch \<noteq> 0"
    using set_vch_magnitude [OF assms(1,2)] by (auto simp: vch)
  show ?thesis
  proof (cases "b AND 0x7f = 0")
    case False
    have "bit ((b AND 0x7f) OR 0x80) m = bit b m" if "bit b 7" "m < 8" for m
      using that by (auto simp: bit_or_iff bit_and_iff bit_sign bit_low less_Suc_eq eval_nat_numeral)
    then have or: "bit b 7 \<Longrightarrow> (b AND 0x7f) OR 0x80 = b" by (intro bit_word_eqI) simp
    have "magnitude vch \<noteq> 0" using False by (simp add: magnitude_def vch le_value_append unat_gt_0)
    moreover have "\<not> bit (b AND 0x7f) 7" by (simp add: bit_and_iff bit_low)
    moreover have "\<bar>?n\<bar> = int (le_value (bs @ [b AND 0x7f]))" using n(1) by (simp add: magnitude_def vch)
    ultimately show ?thesis
      using serialize_nonzero [of "bs @ [b AND 0x7f]" ?n] False n(2) or assms(2) by (simp add: vch)
  next
    case True
    then obtain cs c where bs: "bs = cs @ [c]" "bit c 7"
      using assms(3) by (cases bs rule: rev_cases) (auto simp: CScriptNum_minimal_def vch nth_append sign_zero)
    have "unat b mod 128 = 0" using True by (metis unat_low unat_0)
    then have "unat b = 0 \<or> unat b = 128" using byte_bound [of b] by presburger
    then have b: "b = (if bit b 7 then 0x80 else 0)" by (auto simp: byte_top_bit intro: unsigned_word_eqI)
    have "magnitude vch = le_value bs" using True by (simp add: magnitude_def vch le_value_append)
    moreover have "le_value bs \<noteq> 0" "c \<noteq> 0" using bs(2) by (auto simp: bs(1) le_value_append byte_top_bit)
    ultimately show ?thesis
      using serialize_nonzero [of bs ?n] n bs b assms(2) by (simp add: vch)
  qed
qed

lemma CScriptNum_serialize_minimal:
  "\<bar>n\<bar> < 2 ^ 63 \<Longrightarrow> CScriptNum_serialize n = [] \<or> CScriptNum_minimal (CScriptNum_serialize n)"
  using serialize_shape(5) by (cases "n = 0") (auto simp: CScriptNum_serialize_def)

text \<open>
  C15. Script numbers round trip: the encoding of every 64-bit number (except the least) is accepted, also when a
  minimal encoding is required, exactly when the number fits the byte limit with its sign bit, and is then read back as
  the same number, otherwise \<^verbatim>\<open>scriptnum_error\<close> is thrown. Conversely an accepted minimal encoding of up to eight
  bytes is the encoding of the number it is read as, so no number has two of them.
\<close>

theorem script_number_roundtrip:
  assumes "\<bar>n\<bar> < 2 ^ 63" "1 \<le> k" "k \<le> 8"
  shows "CScriptNum_vch (CScriptNum_serialize n) fRequireMinimal k =
       (if \<bar>n\<bar> < 2 ^ (8 * k - 1) then Inr n else Inl StdException) \<and>
     (CScriptNum_vch vch True k = Inr m \<longrightarrow> CScriptNum_serialize m = vch)"
proof
  show "CScriptNum_vch (CScriptNum_serialize n) fRequireMinimal k =
       (if \<bar>n\<bar> < 2 ^ (8 * k - 1) then Inr n else Inl StdException)"
    using length_serialize [OF assms(1,2)] CScriptNum_serialize_minimal [OF assms(1)] set_vch_serialize [OF assms(1)]
    by (auto simp: CScriptNum_vch_def)
  show "CScriptNum_vch vch True k = Inr m \<longrightarrow> CScriptNum_serialize m = vch"
    using serialize_set_vch [of vch] assms(3)
    by (cases "vch = []")
      (auto simp: CScriptNum_vch_def CScriptNum_set_vch_def CScriptNum_serialize_def split: if_splits)
qed

theorem script_number_roundtrip_witness:
  "CScriptNum_vch (CScriptNum_serialize (- 255)) True 4 = Inr (- 255) \<and>
   CScriptNum_vch (CScriptNum_serialize 2147483648) True 4 = Inl StdException \<and>
   CScriptNum_vch [0xff, 0x80] True 4 = Inr (- 255) \<and> CScriptNum_serialize (- 255) = [0xff, 0x80]"
proof -
  have "CScriptNum_vch [0xff, 0x80] True 4 = Inr (- 255)" by code_simp
  with script_number_roundtrip [of "- 255" 4 True "[0xff, 0x80]" "- 255"] script_number_roundtrip [of 2147483648 4 True]
  show ?thesis by simp
qed

section \<open>Pushes\<close>

lemma get_operand_take: "get_operand opcode (length b) (b @ rest) = Some (opcode, b, rest)"
  by (simp add: get_operand_def)

lemma GetOp_push_data:
  assumes "length b < 2 ^ 32"
  shows "\<exists>opcode. opcode \<le> OP_PUSHDATA4 \<and> GetOp (push_data b @ rest) = Some (opcode, b, rest)"
proof -
  have small: "unat (of_nat (length b) :: u8) = length b" if "length b \<le> 255" using that by (simp add: unat_of_nat)
  consider "length b < 0x4c" | "0x4c \<le> length b" "length b \<le> 0xff" | "0xff < length b" "length b \<le> 0xffff" | "0xffff < length b"
    by linarith
  then show ?thesis
  proof cases
    case 1
    then have "(of_nat (length b) :: u8) < OP_PUSHDATA1" "(of_nat (length b) :: u8) \<le> OP_PUSHDATA4"
      using small by (simp_all add: word_less_nat_alt word_le_nat_alt)
    then show ?thesis
      using 1 small get_operand_take [of "of_nat (length b)" b rest] by (auto simp: GetOp_def push_data_def)
  next
    case 2
    then show ?thesis using small get_operand_take [of OP_PUSHDATA1 b rest] by (auto simp: GetOp_def push_data_def)
  next
    case 3
    then show ?thesis using get_operand_take [of OP_PUSHDATA2 b rest] by (auto simp: GetOp_def push_data_def)
  next
    case 4
    then show ?thesis using assms get_operand_take [of OP_PUSHDATA4 b rest] by (auto simp: GetOp_def push_data_def)
  qed
qed

lemma push_data_nonempty: "push_data b \<noteq> []"
  by (simp add: push_data_def)

text \<open>
  C16. Pushes parse back: a script built by pushing byte strings (each shorter than \<open>2^32\<close>) is push-only and its
  operations carry exactly those byte strings, in order.
\<close>

theorem pushes_parse:
  assumes "list_all (\<lambda>b. length b < 2 ^ 32) bs"
  shows "map snd (fst (script_ops (concat (map push_data bs)))) = bs \<and> IsPushOnly (concat (map push_data bs))"
  using assms
proof (induction bs)
  case Nil
  then show ?case by (simp add: script_ops.simps IsPushOnly_def)
next
  case (Cons b bs)
  obtain opcode where op: "opcode \<le> OP_PUSHDATA4" "GetOp (concat (map push_data (b # bs))) = Some (opcode, b, concat (map push_data bs))"
    using GetOp_push_data [of b "concat (map push_data bs)"] Cons.prems by auto
  have "opcode \<le> OP_16" using op(1) by (rule order_trans) simp
  let ?s = "concat (map push_data bs)" and ?s' = "concat (map push_data (b # bs))"
  have "script_ops ?s' = ((opcode, b) # fst (script_ops ?s), snd (script_ops ?s))"
    using op(2) push_data_nonempty [of b] by (subst script_ops.simps) (simp split: prod.split)
  then show ?case
    using Cons \<open>opcode \<le> OP_16\<close> by (auto simp: IsPushOnly_def split: prod.splits)
qed

theorem pushes_parse_witness:
  "map snd (fst (script_ops (concat (map push_data [[1, 2], [], replicate 80 7])))) = [[1, 2], [], replicate 80 7]"
  using pushes_parse [of "[[1, 2], [], replicate 80 7]"] by simp

section \<open>Signature operations\<close>

lemma script_ops_length: "length (fst (script_ops s)) \<le> length s"
proof (induction s rule: script_ops.induct)
  case (1 s)
  show ?case
  proof (cases "GetOp s")
    case (Some r)
    obtain opcode vch pc where r: "r = (opcode, vch, pc)" by (cases r)
    have "length (fst (script_ops pc)) \<le> length pc" if "s \<noteq> []" using 1 [OF that Some r [symmetric] refl] .
    then show ?thesis
      using Some GetOp_shorter [of s opcode vch pc]
      by (cases "s = []") (auto simp: r script_ops.simps [of s] case_prod_unfold)
  qed (simp add: script_ops.simps [of s])
qed

lemma GetOp_operand: "GetOp s = Some (opcode, vch, pc) \<Longrightarrow> length vch \<le> length s"
  by (auto simp: GetOp_def get_operand_def split: list.splits if_splits)

lemma script_ops_operand: "e \<in> set (fst (script_ops s)) \<Longrightarrow> length (snd e) \<le> length s"
proof (induction s rule: script_ops.induct)
  case (1 s)
  from 1(2) obtain opcode vch pc where op: "s \<noteq> []" "GetOp s = Some (opcode, vch, pc)"
    by (auto simp: script_ops.simps [of s] split: if_splits option.splits)
  then have "e = (opcode, vch) \<or> e \<in> set (fst (script_ops pc))"
    using 1(2) by (simp add: script_ops.simps [of s] split: prod.splits)
  then show ?case
    using 1(1) [OF op(1,2) refl refl] GetOp_operand [OF op(2)] GetOp_shorter [OF op(2)] by auto
qed

lemma sig_ops_bounds: "sig_ops True o' l \<le> sig_ops False o' l \<and> sig_ops False o' l \<le> 20 * length l"
proof (induction l arbitrary: o')
  case (Cons e l)
  obtain opcode vch where e: "e = (opcode, vch)" by (cases e)
  have "OP_1 \<le> o' \<and> o' \<le> OP_16 \<Longrightarrow> unat o' - 0x50 \<le> 20"
    by (auto simp: word_le_nat_alt)
  then show ?case using Cons [of opcode] by (auto simp: e)
qed simp

text \<open>
  Signature operations: the accurate count never exceeds the rough one, which never exceeds twenty per byte of
  the script; counting through a pay-to-script-hash output never exceeds twenty per byte of the two scripts.
\<close>

theorem sig_op_count_bounds:
  "GetSigOpCount True s \<le> GetSigOpCount False s \<and> GetSigOpCount False s \<le> 20 * length s \<and>
   GetSigOpCount_P2SH s scriptSig \<le> 20 * max (length s) (length scriptSig)"
proof -
  have acc: "GetSigOpCount True s \<le> 20 * length s" for s
    using sig_ops_bounds [of OP_INVALIDOPCODE "fst (script_ops s)"] script_ops_length [of s]
    unfolding GetSigOpCount_def by linarith
  have rough: "GetSigOpCount True s \<le> GetSigOpCount False s" "GetSigOpCount False s \<le> 20 * length s"
    using sig_ops_bounds [of OP_INVALIDOPCODE "fst (script_ops s)"] script_ops_length [of s]
    unfolding GetSigOpCount_def by linarith+
  have "length (snd (last l)) \<le> length scriptSig" if "script_ops scriptSig = (l, ok)" "l \<noteq> []" for l ok
    using script_ops_operand [of "last l" scriptSig] that by simp
  then have "\<exists>v. (v = s \<or> length v \<le> length scriptSig) \<and>
      (GetSigOpCount_P2SH s scriptSig = GetSigOpCount True v \<or> GetSigOpCount_P2SH s scriptSig = 0)"
    unfolding GetSigOpCount_P2SH_def using acc [of "[]"] by (auto split: prod.split)
  then obtain v where "v = s \<or> length v \<le> length scriptSig"
    "GetSigOpCount_P2SH s scriptSig = GetSigOpCount True v \<or> GetSigOpCount_P2SH s scriptSig = 0" by blast
  with acc [of v] have "GetSigOpCount_P2SH s scriptSig \<le> 20 * max (length s) (length scriptSig)" by auto
  with rough show ?thesis by blast
qed

end
