(* ===== verification/DaoScript.thy ===== *)
theory DaoScript
  imports ScriptLaws DaoTypes
begin

text \<open>
  The output scripts that carry votes: the builders of \<^verbatim>\<open>consensus/dao.cpp\<close> and the extractors of
  \<^verbatim>\<open>script/script.cpp\<close>, with their round trips.
\<close>

section \<open>Builders\<close>

definition SetScriptForCommunityFundContribution :: bytes where
  "SetScriptForCommunityFundContribution = [OP_RETURN, OP_CFUND]"

definition vote_opcode :: "int \<Rightarrow> u8" where
  "vote_opcode vote =
     (if vote = VOTE_REMOVE then OP_REMOVE
      else if vote = VOTE_ABSTAIN then OP_ABSTAIN
      else if vote = VOTE_YES then OP_YES else OP_NO)"

definition SetScriptForProposalVote :: "uint256 \<Rightarrow> int \<Rightarrow> bytes" where
  "SetScriptForProposalVote proposalhash vote =
     [OP_RETURN, OP_CFUND, OP_PROP, vote_opcode vote, 0x20] @ uint256_data proposalhash"

definition SetScriptForPaymentRequestVote :: "uint256 \<Rightarrow> int \<Rightarrow> bytes" where
  "SetScriptForPaymentRequestVote prequesthash vote =
     [OP_RETURN, OP_CFUND, OP_PREQ, vote_opcode vote, 0x20] @ uint256_data prequesthash"

definition SetScriptForConsultationSupport :: "uint256 \<Rightarrow> bytes" where
  "SetScriptForConsultationSupport hash = [OP_RETURN, OP_DAO, OP_YES, 0x20] @ uint256_data hash"

definition SetScriptForConsultationSupportRemove :: "uint256 \<Rightarrow> bytes" where
  "SetScriptForConsultationSupportRemove hash = [OP_RETURN, OP_DAO, OP_REMOVE, 0x20] @ uint256_data hash"

definition SetScriptForConsultationVote :: "uint256 \<Rightarrow> int \<Rightarrow> bytes" where
  "SetScriptForConsultationVote hash vote =
     [OP_RETURN, OP_CONSULTATION, if vote = VOTE_ABSTAIN then OP_ABSTAIN else OP_ANSWER, 0x20] @ uint256_data hash @
     (if vote > -1 then push_data (CScriptNum_serialize vote) else [])"

definition SetScriptForConsultationVoteRemove :: "uint256 \<Rightarrow> bytes" where
  "SetScriptForConsultationVoteRemove hash = [OP_RETURN, OP_CONSULTATION, OP_REMOVE, 0x20] @ uint256_data hash"

section \<open>Extractors\<close>

text \<open>\<open>None\<close> is \<^verbatim>\<open>return false\<close>.\<close>

definition ExtractVote :: "bytes \<Rightarrow> (uint256 \<times> int) option" where
  "ExtractVote s =
     (if \<not> IsPaymentRequestVote s \<and> \<not> IsProposalVote s then None
      else
        let hash = uint256_of (take 32 (drop 5 s));
            vote = (if s ! 3 = OP_YES then VOTE_YES else VOTE_NO);
            vote1 = (if s ! 3 = OP_ABSTAIN then VOTE_ABSTAIN else vote);
            vote2 = (if s ! 3 = OP_REMOVE then VOTE_REMOVE else vote1)
        in Some (hash, vote2))"

definition ExtractSupportVote :: "bytes \<Rightarrow> (uint256 \<times> int) option" where
  "ExtractSupportVote s =
     (if \<not> IsSupportVote s then None
      else
        let hash = uint256_of (take 32 (drop 4 s));
            vote = (if s ! 2 = OP_REMOVE then SUPPORT_REMOVE else 0);
            vote1 = (if s ! 2 = OP_YES then SUPPORT else vote)
        in Some (hash, vote1))"

text \<open>\<^verbatim>\<open>CScriptNum\<close> throws for a vote of more than four bytes.\<close>

definition ExtractConsultationVote :: "bytes \<Rightarrow> (uint256 \<times> int) option result" where
  "ExtractConsultationVote s =
     (if \<not> IsConsultationVote s then Inr None
      else
        let hash = uint256_of (take 32 (drop 4 s))
        in if s ! 2 = OP_REMOVE then Inr (Some (hash, VOTE_REMOVE))
           else if s ! 2 = OP_ABSTAIN then Inr (Some (hash, VOTE_ABSTAIN))
           else if length s > 36
           then if length s = 37 \<and> s ! 36 = 0 then Inr (Some (hash, 0))
                else bindR (CScriptNum_vch (drop 37 s) False 4) (\<lambda>nVote. Inr (Some (hash, CScriptNum_getint nVote)))
           else Inr (Some (hash, 1)))"

section \<open>Round trips\<close>

lemmas builders = SetScriptForProposalVote_def SetScriptForPaymentRequestVote_def SetScriptForConsultationSupport_def
  SetScriptForConsultationSupportRemove_def SetScriptForConsultationVote_def SetScriptForConsultationVoteRemove_def

lemma proposal_vote_roundtrip:
  assumes "vote \<in> {VOTE_YES, VOTE_NO, VOTE_ABSTAIN, VOTE_REMOVE}"
  shows "ExtractVote (SetScriptForProposalVote h vote) = Some (h, vote)"
    "ExtractVote (SetScriptForPaymentRequestVote h vote) = Some (h, vote)"
  using assms by (auto simp: builders vote_opcode_def ExtractVote_def vote_shapes Let_def)

lemma support_vote_roundtrip:
  "ExtractSupportVote (SetScriptForConsultationSupport h) = Some (h, SUPPORT)"
  "ExtractSupportVote (SetScriptForConsultationSupportRemove h) = Some (h, SUPPORT_REMOVE)"
  by (auto simp: builders ExtractSupportVote_def vote_shapes Let_def)

lemma push_small: "length b < 0x4c \<Longrightarrow> push_data b = of_nat (length b) # b"
  by (simp add: push_data_def)

lemma consultation_answer_roundtrip:
  assumes "0 \<le> vote" "vote < 2 ^ 63"
  shows "ExtractConsultationVote (SetScriptForConsultationVote h vote) =
    (if vote < 2 ^ 31 then Inr (Some (h, vote)) else Inl StdException)"
proof -
  let ?n = "CScriptNum_serialize vote" and ?s = "SetScriptForConsultationVote h vote"
  have abs: "\<bar>vote\<bar> < 2 ^ 63" using assms by simp
  have "length ?n \<le> 8" using length_serialize [OF abs, of 8] assms by simp
  then have s: "?s = [OP_RETURN, OP_CONSULTATION, OP_ANSWER, 0x20] @ uint256_data h @ of_nat (length ?n) # ?n"
    using assms(1) by (simp add: builders push_small)
  then have len: "length ?s = 37 + length ?n" by simp
  have "drop 37 ?s = ?n" "?s ! 36 = of_nat (length ?n)" by (simp_all add: s nth_append)
  moreover have "IsConsultationVote ?s" "?s ! 2 = OP_ANSWER" "uint256_of (take 32 (drop 4 ?s)) = h"
    by (simp_all add: vote_shapes s)
  moreover have "CScriptNum_vch ?n False 4 = (if vote < 2 ^ 31 then Inr vote else Inl StdException)"
    using length_serialize [OF abs, of 4] set_vch_serialize [OF abs] assms(1) by (auto simp: CScriptNum_vch_def)
  moreover have "vote = 0" if "?n = []"
    using that set_vch_serialize [OF abs] by (simp add: CScriptNum_set_vch_def)
  ultimately show ?thesis
    using len assms(1)
    by (auto simp: ExtractConsultationVote_def Let_def CScriptNum_getint_def)
qed

lemma consultation_other_roundtrip:
  "ExtractConsultationVote (SetScriptForConsultationVote h VOTE_ABSTAIN) = Inr (Some (h, VOTE_ABSTAIN))"
  "ExtractConsultationVote (SetScriptForConsultationVoteRemove h) = Inr (Some (h, VOTE_REMOVE))"
  "vote < VOTE_ABSTAIN \<Longrightarrow> ExtractConsultationVote (SetScriptForConsultationVote h vote) = Inr (Some (h, 1))"
  by (auto simp: builders ExtractConsultationVote_def vote_shapes Let_def)

text \<open>
  C17. What a wallet writes into a vote output is what the node reads from it: the extractors return the hash and
  the vote the builders were given, for proposals and payment requests, for support, and for consultations, where a
  numeric vote is read back exactly up to four bytes and throws above.
\<close>

theorem vote_scripts_roundtrip:
  assumes "vote \<in> {VOTE_YES, VOTE_NO, VOTE_ABSTAIN, VOTE_REMOVE}" "0 \<le> answer" "answer < 2 ^ 63"
  shows "ExtractVote (SetScriptForProposalVote h vote) = Some (h, vote) \<and>
    ExtractVote (SetScriptForPaymentRequestVote h vote) = Some (h, vote) \<and>
    ExtractSupportVote (SetScriptForConsultationSupport h) = Some (h, SUPPORT) \<and>
    ExtractSupportVote (SetScriptForConsultationSupportRemove h) = Some (h, SUPPORT_REMOVE) \<and>
    ExtractConsultationVote (SetScriptForConsultationVote h VOTE_ABSTAIN) = Inr (Some (h, VOTE_ABSTAIN)) \<and>
    ExtractConsultationVote (SetScriptForConsultationVoteRemove h) = Inr (Some (h, VOTE_REMOVE)) \<and>
    ExtractConsultationVote (SetScriptForConsultationVote h answer) =
      (if answer < 2 ^ 31 then Inr (Some (h, answer)) else Inl StdException)"
  using proposal_vote_roundtrip [OF assms(1)] support_vote_roundtrip consultation_other_roundtrip(1,2)
    consultation_answer_roundtrip [OF assms(2,3)] by blast

theorem vote_scripts_roundtrip_witness:
  "ExtractVote (SetScriptForProposalVote 77 VOTE_ABSTAIN) = Some (77, VOTE_ABSTAIN) \<and>
   ExtractConsultationVote (SetScriptForConsultationVote 77 300) = Inr (Some (77, 300))"
  using vote_scripts_roundtrip [of VOTE_ABSTAIN 300 77] by simp

text \<open>
  A script is at most one kind of vote, every vote script is provably unspendable, and every script the
  extractors accept names a 32-byte hash.
\<close>

theorem vote_shapes_exclusive:
  "(IsProposalVote s \<longrightarrow> \<not> IsPaymentRequestVote s \<and> \<not> IsSupportVote s \<and> \<not> IsConsultationVote s) \<and>
   (IsPaymentRequestVote s \<longrightarrow> \<not> IsSupportVote s \<and> \<not> IsConsultationVote s) \<and>
   (IsSupportVote s \<longrightarrow> \<not> IsConsultationVote s) \<and>
   (IsProposalVote s \<or> IsPaymentRequestVote s \<or> IsSupportVote s \<or> IsConsultationVote s \<longrightarrow>
      IsUnspendable s \<and> \<not> IsCommunityFundContribution s \<and> 36 \<le> length s)"
  by (auto simp: vote_shapes IsUnspendable_def IsCommunityFundContribution_def)

theorem vote_shapes_exclusive_witness:
  "IsProposalVote (SetScriptForProposalVote 77 VOTE_YES) \<and> IsUnspendable (SetScriptForProposalVote 77 VOTE_YES)"
proof -
  have "IsProposalVote (SetScriptForProposalVote 77 VOTE_YES)"
    by (simp add: vote_shapes builders vote_opcode_def)
  with vote_shapes_exclusive [of "SetScriptForProposalVote 77 VOTE_YES"] show ?thesis by blast
qed

end
