(* ===== verification/Interpreter.thy ===== *)
theory Interpreter
  imports Script
begin

text \<open>
  The script interpreter (\<^verbatim>\<open>script/interpreter.cpp\<close>): signature and key encodings, \<^verbatim>\<open>EvalScript\<close> with one definition per
  group of opcodes, \<^verbatim>\<open>VerifyScript\<close> with pay-to-script-hash and witness programs. The top of a stack is the head of its
  list. The hash functions, the elliptic curve and the transaction behind the signature checker are the
  fields of a \<open>ScriptEnv\<close>.
\<close>

section \<open>Errors, flags, environment\<close>

datatype ScriptError =
    SCRIPT_ERR_UNKNOWN_ERROR | SCRIPT_ERR_EVAL_FALSE | SCRIPT_ERR_OP_RETURN
  | SCRIPT_ERR_SCRIPT_SIZE | SCRIPT_ERR_PUSH_SIZE | SCRIPT_ERR_OP_COUNT | SCRIPT_ERR_STACK_SIZE
  | SCRIPT_ERR_SIG_COUNT | SCRIPT_ERR_PUBKEY_COUNT
  | SCRIPT_ERR_VERIFY | SCRIPT_ERR_EQUALVERIFY | SCRIPT_ERR_CHECKMULTISIGVERIFY
  | SCRIPT_ERR_CHECKSIGVERIFY | SCRIPT_ERR_NUMEQUALVERIFY
  | SCRIPT_ERR_BAD_OPCODE | SCRIPT_ERR_DISABLED_OPCODE | SCRIPT_ERR_INVALID_STACK_OPERATION
  | SCRIPT_ERR_INVALID_ALTSTACK_OPERATION | SCRIPT_ERR_UNBALANCED_CONDITIONAL
  | SCRIPT_ERR_NEGATIVE_LOCKTIME | SCRIPT_ERR_UNSATISFIED_LOCKTIME
  | SCRIPT_ERR_SIG_HASHTYPE | SCRIPT_ERR_SIG_DER | SCRIPT_ERR_MINIMALDATA | SCRIPT_ERR_SIG_PUSHONLY
  | SCRIPT_ERR_SIG_HIGH_S | SCRIPT_ERR_SIG_NULLDUMMY | SCRIPT_ERR_PUBKEYTYPE | SCRIPT_ERR_CLEANSTACK
  | SCRIPT_ERR_MINIMALIF | SCRIPT_ERR_SIG_NULLFAIL
  | SCRIPT_ERR_DISCOURAGE_UPGRADABLE_NOPS | SCRIPT_ERR_DISCOURAGE_UPGRADABLE_WITNESS_PROGRAM
  | SCRIPT_ERR_WITNESS_PROGRAM_WRONG_LENGTH | SCRIPT_ERR_WITNESS_PROGRAM_WITNESS_EMPTY
  | SCRIPT_ERR_WITNESS_PROGRAM_MISMATCH | SCRIPT_ERR_WITNESS_MALLEATED | SCRIPT_ERR_WITNESS_MALLEATED_P2SH
  | SCRIPT_ERR_WITNESS_UNEXPECTED | SCRIPT_ERR_WITNESS_PUBKEYTYPE

text \<open>Why the interpreter stops early: it returns \<^verbatim>\<open>false\<close> with \<^verbatim>\<open>serror\<close> set, or an assertion ends the program.\<close>

datatype script_stop = Fails ScriptError | Aborts crash

abbreviation (input) fail :: "ScriptError \<Rightarrow> script_stop + 'a" where "fail err \<equiv> Inl (Fails err)"

definition asserted :: "'a result \<Rightarrow> script_stop + 'a" where
  "asserted r = (case r of Inl c \<Rightarrow> Inl (Aborts c) | Inr x \<Rightarrow> Inr x)"

datatype SigVersion = SIGVERSION_BASE | SIGVERSION_WITNESS_V0

text \<open>The bit of each \<^verbatim>\<open>SCRIPT_VERIFY\<close> flag.\<close>

abbreviation (input) VERIFY_P2SH :: nat where "VERIFY_P2SH \<equiv> 0"
abbreviation (input) VERIFY_STRICTENC :: nat where "VERIFY_STRICTENC \<equiv> 1"
abbreviation (input) VERIFY_DERSIG :: nat where "VERIFY_DERSIG \<equiv> 2"
abbreviation (input) VERIFY_LOW_S :: nat where "VERIFY_LOW_S \<equiv> 3"
abbreviation (input) VERIFY_NULLDUMMY :: nat where "VERIFY_NULLDUMMY \<equiv> 4"
abbreviation (input) VERIFY_SIGPUSHONLY :: nat where "VERIFY_SIGPUSHONLY \<equiv> 5"
abbreviation (input) VERIFY_MINIMALDATA :: nat where "VERIFY_MINIMALDATA \<equiv> 6"
abbreviation (input) VERIFY_DISCOURAGE_UPGRADABLE_NOPS :: nat where "VERIFY_DISCOURAGE_UPGRADABLE_NOPS \<equiv> 7"
abbreviation (input) VERIFY_CLEANSTACK :: nat where "VERIFY_CLEANSTACK \<equiv> 8"
abbreviation (input) VERIFY_CHECKLOCKTIMEVERIFY :: nat where "VERIFY_CHECKLOCKTIMEVERIFY \<equiv> 9"
abbreviation (input) VERIFY_CHECKSEQUENCEVERIFY :: nat where "VERIFY_CHECKSEQUENCEVERIFY \<equiv> 10"
abbreviation (input) VERIFY_WITNESS :: nat where "VERIFY_WITNESS \<equiv> 11"
abbreviation (input) VERIFY_DISCOURAGE_UPGRADABLE_WITNESS_PROGRAM :: nat where
  "VERIFY_DISCOURAGE_UPGRADABLE_WITNESS_PROGRAM \<equiv> 12"
abbreviation (input) VERIFY_MINIMALIF :: nat where "VERIFY_MINIMALIF \<equiv> 13"
abbreviation (input) VERIFY_NULLFAIL :: nat where "VERIFY_NULLFAIL \<equiv> 14"
abbreviation (input) VERIFY_WITNESS_PUBKEYTYPE :: nat where "VERIFY_WITNESS_PUBKEYTYPE \<equiv> 15"

text \<open>
  \<^verbatim>\<open>CheckSig\<close> of signature, key, script code and version, \<^verbatim>\<open>CheckLockTime\<close>, \<^verbatim>\<open>CheckSequence\<close> and \<^verbatim>\<open>IsCoinStake\<close> are the
  virtual methods of \<^verbatim>\<open>BaseSignatureChecker\<close>; \<^verbatim>\<open>CheckLowS\<close> is secp256k1's.
\<close>

record ScriptEnv =
  CheckSig :: "bytes \<Rightarrow> bytes \<Rightarrow> bytes \<Rightarrow> SigVersion \<Rightarrow> bool"
  CheckLockTime :: "int \<Rightarrow> bool"
  CheckSequence :: "int \<Rightarrow> bool"
  IsCoinStake :: bool
  CheckLowS :: "bytes \<Rightarrow> bool"
  RIPEMD160 :: "bytes \<Rightarrow> bytes"
  SHA1 :: "bytes \<Rightarrow> bytes"
  SHA256 :: "bytes \<Rightarrow> bytes"
  HASH160 :: "bytes \<Rightarrow> bytes"
  HASH256 :: "bytes \<Rightarrow> bytes"

section \<open>Encodings\<close>

fun CastToBool :: "bytes \<Rightarrow> bool" where
  "CastToBool [] = False"
| "CastToBool (b # vch) = (if b \<noteq> 0 then \<not> (vch = [] \<and> b = 0x80) else CastToBool vch)"

definition IsCompressedOrUncompressedPubKey :: "bytes \<Rightarrow> bool" where
  "IsCompressedOrUncompressedPubKey vchPubKey =
     (if length vchPubKey < 33 then False
      else if vchPubKey ! 0 = 0x04 then length vchPubKey = 65
      else if vchPubKey ! 0 = 0x02 \<or> vchPubKey ! 0 = 0x03 then length vchPubKey = 33
      else False)"

definition IsCompressedPubKey :: "bytes \<Rightarrow> bool" where
  "IsCompressedPubKey vchPubKey =
     (if length vchPubKey \<noteq> 33 then False
      else \<not> (vchPubKey ! 0 \<noteq> 0x02 \<and> vchPubKey ! 0 \<noteq> 0x03))"

definition IsValidSignatureEncoding :: "bytes \<Rightarrow> bool" where
  "IsValidSignatureEncoding sig =
     (if length sig < 9 then False
      else if length sig > 73 then False
      else if sig ! 0 \<noteq> 0x30 then False
      else if unat (sig ! 1) \<noteq> length sig - 3 then False
      else
        let lenR = unat (sig ! 3)
        in if 5 + lenR \<ge> length sig then False
           else
             let lenS = unat (sig ! (5 + lenR))
             in if lenR + lenS + 7 \<noteq> length sig then False
                else if sig ! 2 \<noteq> 0x02 then False
                else if lenR = 0 then False
                else if (sig ! 4) AND 0x80 \<noteq> 0 then False
                else if lenR > 1 \<and> sig ! 4 = 0 \<and> (sig ! 5) AND 0x80 = 0 then False
                else if sig ! (lenR + 4) \<noteq> 0x02 then False
                else if lenS = 0 then False
                else if (sig ! (lenR + 6)) AND 0x80 \<noteq> 0 then False
                else if lenS > 1 \<and> sig ! (lenR + 6) = 0 \<and> (sig ! (lenR + 7)) AND 0x80 = 0 then False
                else True)"

text \<open>The checks that set \<^verbatim>\<open>serror\<close> return it as \<open>Some\<close>.\<close>

definition IsLowDERSignature :: "ScriptEnv \<Rightarrow> bytes \<Rightarrow> ScriptError option" where
  "IsLowDERSignature env vchSig =
     (if \<not> IsValidSignatureEncoding vchSig then Some SCRIPT_ERR_SIG_DER
      else if \<not> CheckLowS env (butlast vchSig) then Some SCRIPT_ERR_SIG_HIGH_S
      else None)"

definition IsDefinedHashtypeSignature :: "bytes \<Rightarrow> bool" where
  "IsDefinedHashtypeSignature vchSig =
     (if length vchSig = 0 then False
      else let nHashType = last vchSig AND NOT 0x80 in \<not> (nHashType < 1 \<or> nHashType > 3))"

definition CheckSignatureEncoding :: "ScriptEnv \<Rightarrow> bytes \<Rightarrow> u32 \<Rightarrow> ScriptError option" where
  "CheckSignatureEncoding env vchSig flags =
     (if length vchSig = 0 then None
      else if (bit flags VERIFY_DERSIG \<or> bit flags VERIFY_LOW_S \<or> bit flags VERIFY_STRICTENC) \<and>
              \<not> IsValidSignatureEncoding vchSig
      then Some SCRIPT_ERR_SIG_DER
      else if bit flags VERIFY_LOW_S \<and> IsLowDERSignature env vchSig \<noteq> None then IsLowDERSignature env vchSig
      else if bit flags VERIFY_STRICTENC \<and> \<not> IsDefinedHashtypeSignature vchSig then Some SCRIPT_ERR_SIG_HASHTYPE
      else None)"

definition CheckPubKeyEncoding :: "bytes \<Rightarrow> u32 \<Rightarrow> SigVersion \<Rightarrow> ScriptError option" where
  "CheckPubKeyEncoding vchPubKey flags sigversion =
     (if bit flags VERIFY_STRICTENC \<and> \<not> IsCompressedOrUncompressedPubKey vchPubKey then Some SCRIPT_ERR_PUBKEYTYPE
      else if bit flags VERIFY_WITNESS_PUBKEYTYPE \<and> sigversion = SIGVERSION_WITNESS_V0 \<and>
              \<not> IsCompressedPubKey vchPubKey
      then Some SCRIPT_ERR_WITNESS_PUBKEYTYPE
      else None)"

definition CheckMinimalPush :: "bytes \<Rightarrow> u8 \<Rightarrow> bool" where
  "CheckMinimalPush data opcode =
     (if length data = 0 then opcode = OP_0
      else if length data = 1 \<and> data ! 0 \<ge> 1 \<and> data ! 0 \<le> 16 then unat opcode = 0x51 + (unat (data ! 0) - 1)
      else if length data = 1 \<and> data ! 0 = 0x81 then opcode = OP_1NEGATE
      else if length data \<le> 75 then unat opcode = length data
      else if length data \<le> 255 then opcode = OP_PUSHDATA1
      else if length data \<le> 65535 then opcode = OP_PUSHDATA2
      else True)"

section \<open>The machine\<close>

record Eval =
  stack :: "bytes list"
  altstack :: "bytes list"
  vfExec :: "bool list"
  nOpCount :: int
  codehash :: bytes

abbreviation (input) vchFalse :: bytes where "vchFalse \<equiv> []"
abbreviation (input) vchTrue :: bytes where "vchTrue \<equiv> [1]"

definition vchBool :: "bool \<Rightarrow> bytes" where
  "vchBool b = (if b then vchTrue else vchFalse)"

text \<open>An exception of \<^verbatim>\<open>CScriptNum\<close> ends in the \<^verbatim>\<open>catch (...)\<close> of \<^verbatim>\<open>EvalScript\<close>.\<close>

definition script_num :: "bool \<Rightarrow> nat \<Rightarrow> bytes \<Rightarrow> script_stop + int" where
  "script_num fRequireMinimal nMaxNumSize vch =
     (case CScriptNum_vch vch fRequireMinimal nMaxNumSize of
        Inl _ \<Rightarrow> fail SCRIPT_ERR_UNKNOWN_ERROR
      | Inr n \<Rightarrow> Inr n)"

definition check :: "bool \<Rightarrow> ScriptError \<Rightarrow> script_stop + unit" where
  "check ok err = (if ok then Inr () else fail err)"

definition check_error :: "ScriptError option \<Rightarrow> script_stop + unit" where
  "check_error r = (case r of None \<Rightarrow> Inr () | Some err \<Rightarrow> fail err)"

abbreviation (input) bad_stack :: "script_stop + 'a" where "bad_stack \<equiv> fail SCRIPT_ERR_INVALID_STACK_OPERATION"

definition op_locktime :: "ScriptEnv \<Rightarrow> u32 \<Rightarrow> Eval \<Rightarrow> script_stop + Eval" where
  "op_locktime env flags e =
     (if \<not> bit flags VERIFY_CHECKLOCKTIMEVERIFY
      then if bit flags VERIFY_DISCOURAGE_UPGRADABLE_NOPS then fail SCRIPT_ERR_DISCOURAGE_UPGRADABLE_NOPS else Inr e
      else case stack e of
        [] \<Rightarrow> bad_stack
      | vch # r \<Rightarrow>
          bindR (script_num (bit flags VERIFY_MINIMALDATA) 5 vch) (\<lambda>nLockTime.
          if nLockTime < 0 then fail SCRIPT_ERR_NEGATIVE_LOCKTIME
          else if \<not> CheckLockTime env nLockTime then fail SCRIPT_ERR_UNSATISFIED_LOCKTIME
          else Inr e))"

definition op_sequence :: "ScriptEnv \<Rightarrow> u32 \<Rightarrow> Eval \<Rightarrow> script_stop + Eval" where
  "op_sequence env flags e =
     (if \<not> bit flags VERIFY_CHECKSEQUENCEVERIFY
      then if bit flags VERIFY_DISCOURAGE_UPGRADABLE_NOPS then fail SCRIPT_ERR_DISCOURAGE_UPGRADABLE_NOPS else Inr e
      else case stack e of
        [] \<Rightarrow> bad_stack
      | vch # r \<Rightarrow>
          bindR (script_num (bit flags VERIFY_MINIMALDATA) 5 vch) (\<lambda>nSequence.
          if nSequence < 0 then fail SCRIPT_ERR_NEGATIVE_LOCKTIME
          else if nSequence AND 0x80000000 \<noteq> 0 then Inr e
          else if \<not> CheckSequence env nSequence then fail SCRIPT_ERR_UNSATISFIED_LOCKTIME
          else Inr e))"

definition op_if :: "u8 \<Rightarrow> u32 \<Rightarrow> SigVersion \<Rightarrow> bool \<Rightarrow> Eval \<Rightarrow> script_stop + Eval" where
  "op_if opcode flags sigversion fExec e =
     (if \<not> fExec then Inr (e\<lparr>vfExec := False # vfExec e\<rparr>)
      else case stack e of
        [] \<Rightarrow> fail SCRIPT_ERR_UNBALANCED_CONDITIONAL
      | vch # r \<Rightarrow>
          if sigversion = SIGVERSION_WITNESS_V0 \<and> bit flags VERIFY_MINIMALIF \<and>
             (length vch > 1 \<or> (length vch = 1 \<and> vch ! 0 \<noteq> 1))
          then fail SCRIPT_ERR_MINIMALIF
          else
            let fValue = CastToBool vch;
                fValue1 = (if opcode = OP_NOTIF then \<not> fValue else fValue)
            in Inr (e\<lparr>stack := r, vfExec := fValue1 # vfExec e\<rparr>))"

definition op_else :: "Eval \<Rightarrow> script_stop + Eval" where
  "op_else e =
     (case vfExec e of
        [] \<Rightarrow> fail SCRIPT_ERR_UNBALANCED_CONDITIONAL
      | b # r \<Rightarrow> Inr (e\<lparr>vfExec := (\<not> b) # r\<rparr>))"

definition op_endif :: "Eval \<Rightarrow> script_stop + Eval" where
  "op_endif e =
     (case vfExec e of
        [] \<Rightarrow> fail SCRIPT_ERR_UNBALANCED_CONDITIONAL
      | b # r \<Rightarrow> Inr (e\<lparr>vfExec := r\<rparr>))"

definition op_verify :: "Eval \<Rightarrow> script_stop + Eval" where
  "op_verify e =
     (case stack e of
        [] \<Rightarrow> bad_stack
      | vch # r \<Rightarrow> if CastToBool vch then Inr (e\<lparr>stack := r\<rparr>) else fail SCRIPT_ERR_VERIFY)"

definition op_toaltstack :: "Eval \<Rightarrow> script_stop + Eval" where
  "op_toaltstack e =
     (case stack e of
        [] \<Rightarrow> bad_stack
      | vch # r \<Rightarrow> Inr (e\<lparr>stack := r, altstack := vch # altstack e\<rparr>))"

definition op_fromaltstack :: "Eval \<Rightarrow> script_stop + Eval" where
  "op_fromaltstack e =
     (case altstack e of
        [] \<Rightarrow> fail SCRIPT_ERR_INVALID_ALTSTACK_OPERATION
      | vch # r \<Rightarrow> Inr (e\<lparr>stack := vch # stack e, altstack := r\<rparr>))"

text \<open>The opcodes that only rearrange the stack, and the sizes.\<close>

definition op_stack :: "u8 \<Rightarrow> bytes list \<Rightarrow> script_stop + bytes list" where
  "op_stack opcode s =
     (if opcode = OP_2DROP then (case s of x2 # x1 # r \<Rightarrow> Inr r | _ \<Rightarrow> bad_stack)
      else if opcode = OP_2DUP then (case s of x2 # x1 # r \<Rightarrow> Inr (x2 # x1 # x2 # x1 # r) | _ \<Rightarrow> bad_stack)
      else if opcode = OP_3DUP
      then (case s of x3 # x2 # x1 # r \<Rightarrow> Inr (x3 # x2 # x1 # x3 # x2 # x1 # r) | _ \<Rightarrow> bad_stack)
      else if opcode = OP_2OVER
      then (case s of x4 # x3 # x2 # x1 # r \<Rightarrow> Inr (x2 # x1 # x4 # x3 # x2 # x1 # r) | _ \<Rightarrow> bad_stack)
      else if opcode = OP_2ROT
      then (case s of x6 # x5 # x4 # x3 # x2 # x1 # r \<Rightarrow> Inr (x2 # x1 # x6 # x5 # x4 # x3 # r) | _ \<Rightarrow> bad_stack)
      else if opcode = OP_2SWAP
      then (case s of x4 # x3 # x2 # x1 # r \<Rightarrow> Inr (x2 # x1 # x4 # x3 # r) | _ \<Rightarrow> bad_stack)
      else if opcode = OP_IFDUP
      then (case s of x # r \<Rightarrow> Inr (if CastToBool x then x # x # r else x # r) | _ \<Rightarrow> bad_stack)
      else if opcode = OP_DEPTH then Inr (CScriptNum_serialize (int (length s)) # s)
      else if opcode = OP_DROP then (case s of x # r \<Rightarrow> Inr r | _ \<Rightarrow> bad_stack)
      else if opcode = OP_DUP then (case s of x # r \<Rightarrow> Inr (x # x # r) | _ \<Rightarrow> bad_stack)
      else if opcode = OP_NIP then (case s of x2 # x1 # r \<Rightarrow> Inr (x2 # r) | _ \<Rightarrow> bad_stack)
      else if opcode = OP_OVER then (case s of x2 # x1 # r \<Rightarrow> Inr (x1 # x2 # x1 # r) | _ \<Rightarrow> bad_stack)
      else if opcode = OP_ROT then (case s of x3 # x2 # x1 # r \<Rightarrow> Inr (x1 # x3 # x2 # r) | _ \<Rightarrow> bad_stack)
      else if opcode = OP_SWAP then (case s of x2 # x1 # r \<Rightarrow> Inr (x1 # x2 # r) | _ \<Rightarrow> bad_stack)
      else if opcode = OP_TUCK then (case s of x2 # x1 # r \<Rightarrow> Inr (x2 # x1 # x2 # r) | _ \<Rightarrow> bad_stack)
      else (case s of x # r \<Rightarrow> Inr (CScriptNum_serialize (int (length x)) # x # r) | _ \<Rightarrow> bad_stack))"

definition op_pick :: "u8 \<Rightarrow> bool \<Rightarrow> bytes list \<Rightarrow> script_stop + bytes list" where
  "op_pick opcode fRequireMinimal s =
     (case s of
        x # y # r \<Rightarrow>
          bindR (script_num fRequireMinimal 4 x) (\<lambda>bn.
          let n = CScriptNum_getint bn; s1 = y # r
          in if n < 0 \<or> n \<ge> int (length s1) then bad_stack
             else
               let vch = s1 ! nat n
               in Inr (vch # (if opcode = OP_ROLL then take (nat n) s1 @ drop (Suc (nat n)) s1 else s1)))
      | _ \<Rightarrow> bad_stack)"

definition op_equal :: "u8 \<Rightarrow> bytes list \<Rightarrow> script_stop + bytes list" where
  "op_equal opcode s =
     (case s of
        vch2 # vch1 # r \<Rightarrow>
          let fEqual = (vch1 = vch2)
          in if opcode = OP_EQUALVERIFY then if fEqual then Inr r else fail SCRIPT_ERR_EQUALVERIFY
             else Inr (vchBool fEqual # r)
      | _ \<Rightarrow> bad_stack)"

text \<open>
  \<^verbatim>\<open>operator+=\<close>, \<^verbatim>\<open>operator-=\<close> and the negation of \<^verbatim>\<open>CScriptNum\<close> assert that they do not overflow, and the inner
  \<^verbatim>\<open>switch\<close> of each group asserts that it knows the opcode. The plain \<^verbatim>\<open>+\<close> and \<^verbatim>\<open>-\<close> have no assertion.
\<close>

definition unary_value :: "u8 \<Rightarrow> int \<Rightarrow> script_stop + int" where
  "unary_value opcode bn =
     (if opcode = OP_1ADD then asserted (CScriptNum_add_assign bn 1)
      else if opcode = OP_1SUB then asserted (CScriptNum_sub_assign bn 1)
      else if opcode = OP_NEGATE then asserted (CScriptNum_negate bn)
      else if opcode = OP_ABS then if bn < 0 then asserted (CScriptNum_negate bn) else Inr bn
      else if opcode = OP_NOT then Inr (of_bool (bn = 0))
      else if opcode = OP_0NOTEQUAL then Inr (of_bool (bn \<noteq> 0))
      else Inl (Aborts AssertFailed))"

definition op_unary :: "u8 \<Rightarrow> bool \<Rightarrow> bytes list \<Rightarrow> script_stop + bytes list" where
  "op_unary opcode fRequireMinimal s =
     (case s of
        x # r \<Rightarrow>
          bindR (script_num fRequireMinimal 4 x) (\<lambda>bn.
          bindR (unary_value opcode bn) (\<lambda>bn. Inr (CScriptNum_serialize bn # r)))
      | _ \<Rightarrow> bad_stack)"

definition binary_value :: "u8 \<Rightarrow> int \<Rightarrow> int \<Rightarrow> script_stop + int" where
  "binary_value opcode bn1 bn2 =
     (if opcode = OP_ADD then Inr (bn1 + bn2)
      else if opcode = OP_SUB then Inr (bn1 - bn2)
      else if opcode = OP_BOOLAND then Inr (of_bool (bn1 \<noteq> 0 \<and> bn2 \<noteq> 0))
      else if opcode = OP_BOOLOR then Inr (of_bool (bn1 \<noteq> 0 \<or> bn2 \<noteq> 0))
      else if opcode = OP_NUMEQUAL then Inr (of_bool (bn1 = bn2))
      else if opcode = OP_NUMEQUALVERIFY then Inr (of_bool (bn1 = bn2))
      else if opcode = OP_NUMNOTEQUAL then Inr (of_bool (bn1 \<noteq> bn2))
      else if opcode = OP_LESSTHAN then Inr (of_bool (bn1 < bn2))
      else if opcode = OP_GREATERTHAN then Inr (of_bool (bn1 > bn2))
      else if opcode = OP_LESSTHANOREQUAL then Inr (of_bool (bn1 \<le> bn2))
      else if opcode = OP_GREATERTHANOREQUAL then Inr (of_bool (bn1 \<ge> bn2))
      else if opcode = OP_MIN then Inr (if bn1 < bn2 then bn1 else bn2)
      else if opcode = OP_MAX then Inr (if bn1 > bn2 then bn1 else bn2)
      else Inl (Aborts AssertFailed))"

definition op_binary :: "u8 \<Rightarrow> bool \<Rightarrow> bytes list \<Rightarrow> script_stop + bytes list" where
  "op_binary opcode fRequireMinimal s =
     (case s of
        x2 # x1 # r \<Rightarrow>
          bindR (script_num fRequireMinimal 4 x1) (\<lambda>bn1.
          bindR (script_num fRequireMinimal 4 x2) (\<lambda>bn2.
          bindR (binary_value opcode bn1 bn2) (\<lambda>bn.
          let vch = CScriptNum_serialize bn
          in if opcode = OP_NUMEQUALVERIFY
             then if CastToBool vch then Inr r else fail SCRIPT_ERR_NUMEQUALVERIFY
             else Inr (vch # r))))
      | _ \<Rightarrow> bad_stack)"

definition op_within :: "bool \<Rightarrow> bytes list \<Rightarrow> script_stop + bytes list" where
  "op_within fRequireMinimal s =
     (case s of
        x3 # x2 # x1 # r \<Rightarrow>
          bindR (script_num fRequireMinimal 4 x1) (\<lambda>bn1.
          bindR (script_num fRequireMinimal 4 x2) (\<lambda>bn2.
          bindR (script_num fRequireMinimal 4 x3) (\<lambda>bn3.
          Inr (vchBool (bn2 \<le> bn1 \<and> bn1 < bn3) # r))))
      | _ \<Rightarrow> bad_stack)"

definition op_hash :: "ScriptEnv \<Rightarrow> u8 \<Rightarrow> bytes list \<Rightarrow> script_stop + bytes list" where
  "op_hash env opcode s =
     (case s of
        vch # r \<Rightarrow>
          Inr ((if opcode = OP_RIPEMD160 then RIPEMD160 env vch
                else if opcode = OP_SHA1 then SHA1 env vch
                else if opcode = OP_SHA256 then SHA256 env vch
                else if opcode = OP_HASH160 then HASH160 env vch
                else HASH256 env vch) # r)
      | _ \<Rightarrow> bad_stack)"

section \<open>Signatures\<close>

definition drop_signature :: "SigVersion \<Rightarrow> bytes \<Rightarrow> bytes \<Rightarrow> bytes" where
  "drop_signature sigversion vchSig scriptCode =
     (if sigversion = SIGVERSION_BASE then fst (FindAndDelete scriptCode (push_data vchSig)) else scriptCode)"

definition op_checksig ::
  "ScriptEnv \<Rightarrow> u32 \<Rightarrow> SigVersion \<Rightarrow> u8 \<Rightarrow> bytes \<Rightarrow> bytes list \<Rightarrow> script_stop + bytes list" where
  "op_checksig env flags sigversion opcode code s =
     (case s of
        vchPubKey # vchSig # r \<Rightarrow>
          let scriptCode = drop_signature sigversion vchSig code
          in bindR (check_error (CheckSignatureEncoding env vchSig flags)) (\<lambda>_.
             bindR (check_error (CheckPubKeyEncoding vchPubKey flags sigversion)) (\<lambda>_.
             let fSuccess = CheckSig env vchSig vchPubKey scriptCode sigversion
             in if \<not> fSuccess \<and> bit flags VERIFY_NULLFAIL \<and> length vchSig \<noteq> 0 then fail SCRIPT_ERR_SIG_NULLFAIL
                else if opcode = OP_CHECKSIGVERIFY
                then if fSuccess then Inr r else fail SCRIPT_ERR_CHECKSIGVERIFY
                else Inr (vchBool fSuccess # r)))
      | _ \<Rightarrow> bad_stack)"

text \<open>The loop over signatures and keys; the lists are what the loop has left of either.\<close>

fun multisig_loop ::
  "ScriptEnv \<Rightarrow> u32 \<Rightarrow> SigVersion \<Rightarrow> bytes \<Rightarrow> bytes list \<Rightarrow> bytes list \<Rightarrow> script_stop + bool" where
  "multisig_loop env flags sigversion code [] keys = Inr True"
| "multisig_loop env flags sigversion code (vchSig # sigs) [] = Inr False"
| "multisig_loop env flags sigversion code (vchSig # sigs) (vchPubKey # keys) =
     (case CheckSignatureEncoding env vchSig flags of
        Some err \<Rightarrow> fail err
      | None \<Rightarrow>
          (case CheckPubKeyEncoding vchPubKey flags sigversion of
             Some err \<Rightarrow> fail err
           | None \<Rightarrow>
               let fOk = CheckSig env vchSig vchPubKey code sigversion;
                   sigs1 = (if fOk then sigs else vchSig # sigs)
               in if length sigs1 > length keys then Inr False
                  else multisig_loop env flags sigversion code sigs1 keys))"

text \<open>The loop that pops the arguments; \<open>ikey2\<close> counts down to the signatures.\<close>

fun multisig_cleanup :: "bool \<Rightarrow> u32 \<Rightarrow> nat \<Rightarrow> nat \<Rightarrow> bytes list \<Rightarrow> script_stop + bytes list" where
  "multisig_cleanup fSuccess flags 0 ikey2 s = Inr s"
| "multisig_cleanup fSuccess flags (Suc i) ikey2 s =
     (if \<not> fSuccess \<and> bit flags VERIFY_NULLFAIL \<and> ikey2 = 0 \<and> length (hd s) \<noteq> 0 then fail SCRIPT_ERR_SIG_NULLFAIL
      else multisig_cleanup fSuccess flags i (ikey2 - 1) (tl s))"

definition op_checkmultisig ::
  "ScriptEnv \<Rightarrow> u32 \<Rightarrow> SigVersion \<Rightarrow> u8 \<Rightarrow> Eval \<Rightarrow> script_stop + Eval" where
  "op_checkmultisig env flags sigversion opcode e =
     (let s = stack e; fRequireMinimal = bit flags VERIFY_MINIMALDATA
      in if length s < 1 then bad_stack
         else
           bindR (script_num fRequireMinimal 4 (s ! 0)) (\<lambda>bnKeys.
           let nKeysCount = CScriptNum_getint bnKeys
           in if nKeysCount < 0 \<or> nKeysCount > int MAX_PUBKEYS_PER_MULTISIG then fail SCRIPT_ERR_PUBKEY_COUNT
              else if nOpCount e + nKeysCount > MAX_OPS_PER_SCRIPT then fail SCRIPT_ERR_OP_COUNT
              else
                let nKeys = nat nKeysCount
                in if length s < nKeys + 2 then bad_stack
                   else
                     bindR (script_num fRequireMinimal 4 (s ! (nKeys + 1))) (\<lambda>bnSigs.
                     let nSigsCount = CScriptNum_getint bnSigs
                     in if nSigsCount < 0 \<or> nSigsCount > nKeysCount then fail SCRIPT_ERR_SIG_COUNT
                        else
                          let nSigs = nat nSigsCount
                          in if length s < nKeys + 3 + nSigs then bad_stack
                             else
                               let keys = take nKeys (drop 1 s);
                                   sigs = take nSigs (drop (nKeys + 2) s);
                                   code = fold (drop_signature sigversion) sigs (codehash e)
                               in bindR (multisig_loop env flags sigversion code sigs keys) (\<lambda>fSuccess.
                                  bindR (multisig_cleanup fSuccess flags (nKeys + 2 + nSigs) (nKeys + 2) s) (\<lambda>s1.
                                  if length s1 < 1 then bad_stack
                                  else if bit flags VERIFY_NULLDUMMY \<and> length (hd s1) \<noteq> 0 then fail SCRIPT_ERR_SIG_NULLDUMMY
                                  else
                                    let e1 = e\<lparr>nOpCount := nOpCount e + nKeysCount\<rparr>
                                    in if opcode = OP_CHECKMULTISIGVERIFY
                                       then if fSuccess then Inr (e1\<lparr>stack := tl s1\<rparr>)
                                            else fail SCRIPT_ERR_CHECKMULTISIGVERIFY
                                       else Inr (e1\<lparr>stack := vchBool fSuccess # tl s1\<rparr>))))))"

section \<open>Evaluation\<close>

definition disabled_opcode :: "u8 \<Rightarrow> bool" where
  "disabled_opcode opcode =
     (opcode = OP_CAT \<or> opcode = OP_SUBSTR \<or> opcode = OP_LEFT \<or> opcode = OP_RIGHT \<or> opcode = OP_INVERT \<or>
      opcode = OP_AND \<or> opcode = OP_OR \<or> opcode = OP_XOR \<or> opcode = OP_2MUL \<or> opcode = OP_2DIV \<or>
      opcode = OP_MUL \<or> opcode = OP_DIV \<or> opcode = OP_MOD \<or> opcode = OP_LSHIFT \<or> opcode = OP_RSHIFT)"

definition on_stack :: "(bytes list \<Rightarrow> script_stop + bytes list) \<Rightarrow> Eval \<Rightarrow> script_stop + Eval" where
  "on_stack f e = bindR (f (stack e)) (\<lambda>s. Inr (e\<lparr>stack := s\<rparr>))"

text \<open>The \<^verbatim>\<open>switch\<close>; \<open>pc\<close> is what follows the opcode.\<close>

definition exec_opcode ::
  "ScriptEnv \<Rightarrow> u32 \<Rightarrow> SigVersion \<Rightarrow> u8 \<Rightarrow> bytes \<Rightarrow> bool \<Rightarrow> Eval \<Rightarrow> script_stop + Eval" where
  "exec_opcode env flags sigversion opcode pc fExec e =
     (let fRequireMinimal = bit flags VERIFY_MINIMALDATA
      in if opcode = OP_1NEGATE \<or> (OP_1 \<le> opcode \<and> opcode \<le> OP_16)
         then Inr (e\<lparr>stack := CScriptNum_serialize (uint opcode - 0x50) # stack e\<rparr>)
         else if opcode = OP_NOP then Inr e
         else if opcode = OP_CHECKLOCKTIMEVERIFY then op_locktime env flags e
         else if opcode = OP_CHECKSEQUENCEVERIFY then op_sequence env flags e
         else if opcode = OP_NOP1 \<or> (OP_NOP4 \<le> opcode \<and> opcode \<le> OP_NOP10)
         then if bit flags VERIFY_DISCOURAGE_UPGRADABLE_NOPS then fail SCRIPT_ERR_DISCOURAGE_UPGRADABLE_NOPS else Inr e
         else if opcode = OP_IF \<or> opcode = OP_NOTIF then op_if opcode flags sigversion fExec e
         else if opcode = OP_ELSE then op_else e
         else if opcode = OP_ENDIF then op_endif e
         else if opcode = OP_VERIFY then op_verify e
         else if opcode = OP_RETURN then fail SCRIPT_ERR_OP_RETURN
         else if opcode = OP_TOALTSTACK then op_toaltstack e
         else if opcode = OP_FROMALTSTACK then op_fromaltstack e
         else if opcode = OP_PICK \<or> opcode = OP_ROLL then on_stack (op_pick opcode fRequireMinimal) e
         else if (OP_2DROP \<le> opcode \<and> opcode \<le> OP_TUCK) \<or> opcode = OP_SIZE then on_stack (op_stack opcode) e
         else if opcode = OP_EQUAL \<or> opcode = OP_EQUALVERIFY then on_stack (op_equal opcode) e
         else if opcode = OP_1ADD \<or> opcode = OP_1SUB \<or> (OP_NEGATE \<le> opcode \<and> opcode \<le> OP_0NOTEQUAL)
         then on_stack (op_unary opcode fRequireMinimal) e
         else if opcode = OP_ADD \<or> opcode = OP_SUB \<or> (OP_BOOLAND \<le> opcode \<and> opcode \<le> OP_MAX)
         then on_stack (op_binary opcode fRequireMinimal) e
         else if opcode = OP_WITHIN then on_stack (op_within fRequireMinimal) e
         else if OP_RIPEMD160 \<le> opcode \<and> opcode \<le> OP_HASH256 then on_stack (op_hash env opcode) e
         else if opcode = OP_CODESEPARATOR then Inr (e\<lparr>codehash := pc\<rparr>)
         else if opcode = OP_CHECKSIG \<or> opcode = OP_CHECKSIGVERIFY
         then on_stack (op_checksig env flags sigversion opcode (codehash e)) e
         else if opcode = OP_CHECKMULTISIG \<or> opcode = OP_CHECKMULTISIGVERIFY
         then op_checkmultisig env flags sigversion opcode e
         else if opcode = OP_COINSTAKE then Inr (e\<lparr>stack := vchBool (IsCoinStake env) # stack e\<rparr>)
         else fail SCRIPT_ERR_BAD_OPCODE)"

text \<open>One turn of the loop.\<close>

definition eval_op ::
  "ScriptEnv \<Rightarrow> u32 \<Rightarrow> SigVersion \<Rightarrow> u8 \<Rightarrow> bytes \<Rightarrow> bytes \<Rightarrow> Eval \<Rightarrow> script_stop + Eval" where
  "eval_op env flags sigversion opcode vchPushValue pc e =
     (let fExec = list_all id (vfExec e)
      in if length vchPushValue > MAX_SCRIPT_ELEMENT_SIZE then fail SCRIPT_ERR_PUSH_SIZE
         else
           let nOps = (if opcode > OP_16 then nOpCount e + 1 else nOpCount e);
               e1 = e\<lparr>nOpCount := nOps\<rparr>
           in if opcode > OP_16 \<and> nOps > MAX_OPS_PER_SCRIPT then fail SCRIPT_ERR_OP_COUNT
              else if disabled_opcode opcode then fail SCRIPT_ERR_DISABLED_OPCODE
              else
                bindR
                  (if fExec \<and> opcode \<le> OP_PUSHDATA4
                   then if bit flags VERIFY_MINIMALDATA \<and> \<not> CheckMinimalPush vchPushValue opcode
                        then fail SCRIPT_ERR_MINIMALDATA
                        else Inr (e1\<lparr>stack := vchPushValue # stack e1\<rparr>)
                   else if fExec \<or> (OP_IF \<le> opcode \<and> opcode \<le> OP_ENDIF)
                   then exec_opcode env flags sigversion opcode pc fExec e1
                   else Inr e1) (\<lambda>e2.
                if length (stack e2) + length (altstack e2) > 1000 then fail SCRIPT_ERR_STACK_SIZE else Inr e2))"

function eval_loop :: "ScriptEnv \<Rightarrow> u32 \<Rightarrow> SigVersion \<Rightarrow> bytes \<Rightarrow> Eval \<Rightarrow> script_stop + Eval" where
  "eval_loop env flags sigversion pc e =
     (if pc = [] then Inr e
      else case GetOp pc of
        None \<Rightarrow> fail SCRIPT_ERR_BAD_OPCODE
      | Some (opcode, vchPushValue, pc') \<Rightarrow>
          (case eval_op env flags sigversion opcode vchPushValue pc' e of
             Inl err \<Rightarrow> Inl err
           | Inr e' \<Rightarrow> eval_loop env flags sigversion pc' e'))"
  by pat_completeness auto
termination
  by (relation "measure (\<lambda>(env, flags, sigversion, pc, e). length pc)") (auto dest: GetOp_shorter)

declare eval_loop.simps [simp del]

definition EvalScript ::
  "ScriptEnv \<Rightarrow> bytes list \<Rightarrow> bytes \<Rightarrow> u32 \<Rightarrow> SigVersion \<Rightarrow> script_stop + bytes list" where
  "EvalScript env s script flags sigversion =
     (if length script > MAX_SCRIPT_SIZE then fail SCRIPT_ERR_SCRIPT_SIZE
      else
        bindR (eval_loop env flags sigversion script
                 \<lparr>stack = s, altstack = [], vfExec = [], nOpCount = 0, codehash = script\<rparr>) (\<lambda>e.
        if vfExec e \<noteq> [] then fail SCRIPT_ERR_UNBALANCED_CONDITIONAL else Inr (stack e)))"

section \<open>Verification of an input\<close>

text \<open>A returned \<open>Inr ()\<close> is \<^verbatim>\<open>true\<close>, \<open>Inl (Fails err)\<close> is \<^verbatim>\<open>false\<close> with \<^verbatim>\<open>serror\<close> set.\<close>

definition eval_true :: "bytes list \<Rightarrow> script_stop + unit" where
  "eval_true s = (if s = [] \<or> \<not> CastToBool (hd s) then fail SCRIPT_ERR_EVAL_FALSE else Inr ())"

definition VerifyWitnessProgram ::
  "ScriptEnv \<Rightarrow> bytes list \<Rightarrow> int \<Rightarrow> bytes \<Rightarrow> u32 \<Rightarrow> script_stop + unit" where
  "VerifyWitnessProgram env witness witversion program flags =
     (if witversion = 0
      then
        bindR
          (if length program = 32
           then case witness of
             [] \<Rightarrow> fail SCRIPT_ERR_WITNESS_PROGRAM_WITNESS_EMPTY
           | script # s \<Rightarrow> if SHA256 env script \<noteq> program then fail SCRIPT_ERR_WITNESS_PROGRAM_MISMATCH else Inr (s, script)
           else if length program = 20
           then if length witness \<noteq> 2 then fail SCRIPT_ERR_WITNESS_PROGRAM_MISMATCH
                else Inr (witness, [OP_DUP, OP_HASH160] @ push_data program @ [OP_EQUALVERIFY, OP_CHECKSIG])
           else fail SCRIPT_ERR_WITNESS_PROGRAM_WRONG_LENGTH) (\<lambda>(s, scriptPubKey).
        if list_ex (\<lambda>vch. length vch > MAX_SCRIPT_ELEMENT_SIZE) s then fail SCRIPT_ERR_PUSH_SIZE
        else
          bindR (EvalScript env s scriptPubKey flags SIGVERSION_WITNESS_V0) (\<lambda>s1.
          if length s1 \<noteq> 1 \<or> \<not> CastToBool (hd s1) then fail SCRIPT_ERR_EVAL_FALSE else Inr ()))
      else if bit flags VERIFY_DISCOURAGE_UPGRADABLE_WITNESS_PROGRAM
      then fail SCRIPT_ERR_DISCOURAGE_UPGRADABLE_WITNESS_PROGRAM
      else Inr ())"

text \<open>
  The witness is a list with the last item of \<^verbatim>\<open>witness.stack\<close> first. \<^verbatim>\<open>stack.resize(1)\<close> keeps the bottom item. The
  three parts of \<^verbatim>\<open>VerifyScript\<close> pass on the stack and whether a witness program was run.
\<close>

definition bare_witness ::
  "ScriptEnv \<Rightarrow> bytes \<Rightarrow> bytes \<Rightarrow> bytes list \<Rightarrow> u32 \<Rightarrow> bytes list \<Rightarrow> script_stop + bytes list \<times> bool" where
  "bare_witness env scriptSig scriptPubKey witness flags s =
     (if bit flags VERIFY_WITNESS
      then bindR (asserted (IsWitnessProgram scriptPubKey)) (\<lambda>r.
        case r of
          None \<Rightarrow> Inr (s, False)
        | Some (witnessversion, witnessprogram) \<Rightarrow>
            if length scriptSig \<noteq> 0 then fail SCRIPT_ERR_WITNESS_MALLEATED
            else bindR (VerifyWitnessProgram env witness witnessversion witnessprogram flags) (\<lambda>_. Inr ([last s], True)))
      else Inr (s, False))"

definition verify_p2sh ::
  "ScriptEnv \<Rightarrow> bytes \<Rightarrow> bytes list \<Rightarrow> u32 \<Rightarrow> bytes list \<Rightarrow> bool \<Rightarrow> script_stop + bytes list \<times> bool" where
  "verify_p2sh env scriptSig witness flags stackCopy hadWitness =
     (if \<not> IsPushOnly scriptSig then fail SCRIPT_ERR_SIG_PUSHONLY
      else case stackCopy of
        [] \<Rightarrow> Inl (Aborts AssertFailed)
      | pubKey2 # s \<Rightarrow>
          bindR (EvalScript env s pubKey2 flags SIGVERSION_BASE) (\<lambda>s1.
          bindR (eval_true s1) (\<lambda>_.
          if bit flags VERIFY_WITNESS
          then bindR (asserted (IsWitnessProgram pubKey2)) (\<lambda>r.
            case r of
              None \<Rightarrow> Inr (s1, hadWitness)
            | Some (witnessversion, witnessprogram) \<Rightarrow>
                if scriptSig \<noteq> push_data pubKey2 then fail SCRIPT_ERR_WITNESS_MALLEATED_P2SH
                else bindR (VerifyWitnessProgram env witness witnessversion witnessprogram flags) (\<lambda>_. Inr ([last s1], True)))
          else Inr (s1, hadWitness))))"

definition verify_end :: "u32 \<Rightarrow> bytes list \<Rightarrow> bytes list \<Rightarrow> bool \<Rightarrow> script_stop + unit" where
  "verify_end flags witness s hadWitness =
     (if bit flags VERIFY_CLEANSTACK \<and> (\<not> bit flags VERIFY_P2SH \<or> \<not> bit flags VERIFY_WITNESS) then Inl (Aborts AssertFailed)
      else if bit flags VERIFY_CLEANSTACK \<and> length s \<noteq> 1 then fail SCRIPT_ERR_CLEANSTACK
      else if bit flags VERIFY_WITNESS
      then if \<not> bit flags VERIFY_P2SH then Inl (Aborts AssertFailed)
           else if \<not> hadWitness \<and> witness \<noteq> [] then fail SCRIPT_ERR_WITNESS_UNEXPECTED
           else Inr ()
      else Inr ())"

definition VerifyScript ::
  "ScriptEnv \<Rightarrow> bytes \<Rightarrow> bytes \<Rightarrow> bytes list \<Rightarrow> u32 \<Rightarrow> script_stop + unit" where
  "VerifyScript env scriptSig scriptPubKey witness flags =
     (if bit flags VERIFY_SIGPUSHONLY \<and> \<not> IsPushOnly scriptSig then fail SCRIPT_ERR_SIG_PUSHONLY
      else
        bindR (EvalScript env [] scriptSig flags SIGVERSION_BASE) (\<lambda>stackCopy.
        bindR (EvalScript env stackCopy scriptPubKey flags SIGVERSION_BASE) (\<lambda>s.
        bindR (eval_true s) (\<lambda>_.
        bindR (bare_witness env scriptSig scriptPubKey witness flags s) (\<lambda>(s, hadWitness).
        bindR (if bit flags VERIFY_P2SH \<and> IsPayToScriptHash scriptPubKey
               then verify_p2sh env scriptSig witness flags stackCopy hadWitness
               else Inr (s, hadWitness)) (\<lambda>(s, hadWitness).
        verify_end flags witness s hadWitness))))))"

definition WitnessSigOps :: "int \<Rightarrow> bytes \<Rightarrow> bytes list \<Rightarrow> nat" where
  "WitnessSigOps witversion witprogram witness =
     (if witversion = 0
      then if length witprogram = 20 then 1
           else if length witprogram = 32 \<and> length witness > 0 then GetSigOpCount True (hd witness)
           else 0
      else 0)"

definition CountWitnessSigOps :: "bytes \<Rightarrow> bytes \<Rightarrow> bytes list \<Rightarrow> u32 \<Rightarrow> nat result" where
  "CountWitnessSigOps scriptSig scriptPubKey witness flags =
     (if \<not> bit flags VERIFY_WITNESS then Inr 0
      else if \<not> bit flags VERIFY_P2SH then Inl AssertFailed
      else bindR (IsWitnessProgram scriptPubKey) (\<lambda>r.
        case r of
          Some (witnessversion, witnessprogram) \<Rightarrow> Inr (WitnessSigOps witnessversion witnessprogram witness)
        | None \<Rightarrow>
            if IsPayToScriptHash scriptPubKey \<and> IsPushOnly scriptSig
            then
              let l = fst (script_ops scriptSig);
                  subscript = (if l = [] then [] else snd (last l))
              in bindR (IsWitnessProgram subscript) (\<lambda>r.
                   case r of
                     Some (witnessversion, witnessprogram) \<Rightarrow> Inr (WitnessSigOps witnessversion witnessprogram witness)
                   | None \<Rightarrow> Inr 0)
            else Inr 0))"

section \<open>Locks\<close>

text \<open>\<^verbatim>\<open>CheckLockTime\<close> and \<^verbatim>\<open>CheckSequence\<close> of the checker of an input, over the fields of the transaction they read.\<close>

definition tx_CheckLockTime :: "u32 \<Rightarrow> u32 \<Rightarrow> int \<Rightarrow> bool" where
  "tx_CheckLockTime txLockTime inSequence nLockTime =
     (if \<not> ((uint txLockTime < 500000000 \<and> nLockTime < 500000000) \<or>
             (uint txLockTime \<ge> 500000000 \<and> nLockTime \<ge> 500000000)) then False
      else if nLockTime > uint txLockTime then False
      else if inSequence = 0xffffffff then False
      else True)"

definition tx_CheckSequence :: "u32 \<Rightarrow> u32 \<Rightarrow> int \<Rightarrow> bool" where
  "tx_CheckSequence txVersion inSequence nSequence =
     (let txToSequence = uint inSequence
      in if txVersion < 2 then False
         else if txToSequence AND 0x80000000 \<noteq> 0 then False
         else
           let nLockTimeMask = 0x400000 OR 0xffff;
               txToSequenceMasked = txToSequence AND nLockTimeMask;
               nSequenceMasked = nSequence AND nLockTimeMask
           in if \<not> ((txToSequenceMasked < 0x400000 \<and> nSequenceMasked < 0x400000) \<or>
                     (txToSequenceMasked \<ge> 0x400000 \<and> nSequenceMasked \<ge> 0x400000)) then False
              else if nSequenceMasked > txToSequenceMasked then False
              else True)"

end
