(* ===== verification/InterpreterLaws.thy ===== *)
theory InterpreterLaws
  imports Interpreter ScriptLaws "HOL-Library.Sublist"
begin

text \<open>
  Laws of the interpreter: the limits it enforces, scripts that can never be satisfied, the absence of assertion
  failures in \<^verbatim>\<open>VerifyScript\<close>, what a cold staking output demands, and the meaning of the multisignature loop.
\<close>

section \<open>Limits\<close>

text \<open>Cases of a conditional without its condition.\<close>

lemma if_cases:
  assumes "(if b then x else y) = z"
  obtains "x = z" | "y = z"
  using assms by (auto split: if_splits)

definition hashes_short :: "ScriptEnv \<Rightarrow> bool" where
  "hashes_short env = (\<forall>x. length (RIPEMD160 env x) \<le> 32 \<and> length (SHA1 env x) \<le> 32 \<and> length (SHA256 env x) \<le> 32 \<and>
     length (HASH160 env x) \<le> 32 \<and> length (HASH256 env x) \<le> 32)"

definition short_items :: "bytes list \<Rightarrow> bool" where
  "short_items s = list_all (\<lambda>x. length x \<le> MAX_SCRIPT_ELEMENT_SIZE) s"

lemma short_items_simps [simp]:
  "short_items []" "short_items (x # s) \<longleftrightarrow> length x \<le> 520 \<and> short_items s"
  "short_items (s @ t) \<longleftrightarrow> short_items s \<and> short_items t"
  by (simp_all add: short_items_def)

lemma short_items_nth: "short_items s \<Longrightarrow> i < length s \<Longrightarrow> length (s ! i) \<le> 520"
  by (simp add: short_items_def list_all_length)

lemma in_set_tlD: "x \<in> set (tl s) \<Longrightarrow> x \<in> set s"
  by (cases s) auto

lemma short_items_sub: "short_items s \<Longrightarrow> short_items (take n s)" "short_items s \<Longrightarrow> short_items (drop n s)"
  "short_items s \<Longrightarrow> short_items (tl s)"
  unfolding short_items_def list_all_iff by (auto dest: in_set_takeD in_set_dropD in_set_tlD)

lemma vchBool_short [simp]: "length (vchBool b) \<le> 520"
  by (simp add: vchBool_def)

lemma serialize_short: "\<bar>n\<bar> < 2 ^ 63 \<Longrightarrow> length (CScriptNum_serialize n) \<le> 520"
  using length_serialize [of n 8] by simp

lemma script_num_range:
  assumes "script_num m 4 x = Inr n"
  shows "\<bar>n\<bar> < 2 ^ 31"
proof (cases "x = []")
  case True
  then show ?thesis using assms by (auto simp: script_num_def CScriptNum_vch_def CScriptNum_set_vch_def)
next
  case False
  from assms have x: "length x \<le> 4" "n = CScriptNum_set_vch x"
    by (auto simp: script_num_def CScriptNum_vch_def split: if_splits)
  have "(2 :: nat) ^ (8 * length x - 1) \<le> 2 ^ 31" using x(1) by (intro power_increasing) auto
  with magnitude_bound [OF False] have "magnitude x < 2 ^ 31" by linarith
  then show ?thesis using set_vch_magnitude [OF False] x by simp
qed

lemma op_stack_short:
  assumes "op_stack opcode s = Inr t" "short_items s" "length s < 2 ^ 31"
  shows "short_items t"
proof -
  have "length x \<le> 520 \<Longrightarrow> length (CScriptNum_serialize (int (length x))) \<le> 520" for x :: bytes
    by (rule serialize_short) simp
  moreover have "length (CScriptNum_serialize (int (length s))) \<le> 520" using assms(3) by (intro serialize_short) simp
  ultimately show ?thesis
    using assms(2) assms(1) [unfolded op_stack_def]
    by (simp only: split: if_split_asm) (force split: list.split_asm)+
qed

lemma op_pick_short: "op_pick opcode m s = Inr t \<Longrightarrow> short_items s \<Longrightarrow> short_items t"
  by (auto simp: op_pick_def Let_def bindR_eq_Inr short_items_sub intro!: short_items_nth split: list.splits if_splits)

lemma op_arith_short:
  "op_equal opcode s = Inr t \<Longrightarrow> short_items s \<Longrightarrow> short_items t"
  "op_unary opcode m s = Inr t \<Longrightarrow> short_items s \<Longrightarrow> short_items t"
  "op_binary opcode m s = Inr t \<Longrightarrow> short_items s \<Longrightarrow> short_items t"
  "op_within m s = Inr t \<Longrightarrow> short_items s \<Longrightarrow> short_items t"
  "hashes_short env \<Longrightarrow> op_hash env opcode s = Inr t \<Longrightarrow> short_items s \<Longrightarrow> short_items t"
  "op_checksig env flags sv opcode code s = Inr t \<Longrightarrow> short_items s \<Longrightarrow> short_items t"
proof -
  show "op_equal opcode s = Inr t \<Longrightarrow> short_items s \<Longrightarrow> short_items t"
    "op_within m s = Inr t \<Longrightarrow> short_items s \<Longrightarrow> short_items t"
    "op_checksig env flags sv opcode code s = Inr t \<Longrightarrow> short_items s \<Longrightarrow> short_items t"
    by (auto simp: op_equal_def op_within_def op_checksig_def Let_def bindR_eq_Inr split: list.splits if_splits)
  have "\<bar>k\<bar> < 2 ^ 63" if "\<bar>n\<bar> < 2 ^ 31" "unary_value opcode n = Inr k" for n k
    using that
    by (auto simp: unary_value_def asserted_def CScriptNum_add_assign_def CScriptNum_sub_assign_def CScriptNum_negate_def split: if_splits)
  then show "op_unary opcode m s = Inr t \<Longrightarrow> short_items s \<Longrightarrow> short_items t"
    by (auto simp: op_unary_def bindR_eq_Inr split: list.splits intro!: serialize_short dest!: script_num_range)
  have "\<bar>x\<bar> < 2 ^ 63" if "\<bar>n\<bar> < 2 ^ 31" "\<bar>k\<bar> < 2 ^ 31" "binary_value opcode n k = Inr x" for n k x
    using that by (auto simp: binary_value_def split: if_splits)
  then show "op_binary opcode m s = Inr t \<Longrightarrow> short_items s \<Longrightarrow> short_items t"
    by (auto simp: op_binary_def bindR_eq_Inr Let_def split: list.splits if_splits intro!: serialize_short dest!: script_num_range)
  assume h: "hashes_short env" "op_hash env opcode s = Inr t" "short_items s"
  have "length (RIPEMD160 env x) \<le> 520" "length (SHA1 env x) \<le> 520" "length (SHA256 env x) \<le> 520"
    "length (HASH160 env x) \<le> 520" "length (HASH256 env x) \<le> 520" for x
    using h(1) by (auto simp: hashes_short_def intro: order_trans)
  with h(2,3) show "short_items t" by (auto simp: op_hash_def split: list.splits if_splits)
qed

lemma multisig_cleanup_drop: "multisig_cleanup b flags n k s = Inr t \<Longrightarrow> t = drop n s"
  by (induction b flags n k s rule: multisig_cleanup.induct) (auto split: if_splits simp: drop_Suc)

lemma op_checkmultisig_short:
  "op_checkmultisig env flags sv opcode e = Inr e' \<Longrightarrow> short_items (stack e) \<Longrightarrow>
     short_items (stack e') \<and> altstack e' = altstack e"
  unfolding op_checkmultisig_def Let_def
  by (elim if_cases bindR_InrE) (auto simp: short_items_sub dest!: multisig_cleanup_drop)

lemma on_stack_short:
  assumes "on_stack f e = Inr e'" "\<And>t. f (stack e) = Inr t \<Longrightarrow> short_items t" 
  shows "short_items (stack e') \<and> altstack e' = altstack e"
  using assms by (auto simp: on_stack_def bindR_eq_Inr)

definition short_state :: "Eval \<Rightarrow> bool" where
  "short_state e = (short_items (stack e) \<and> short_items (altstack e) \<and> length (stack e) + length (altstack e) \<le> 1000)"

lemma op_control_short:
  "op_locktime env flags e = Inr e' \<Longrightarrow> e' = e"
  "op_sequence env flags e = Inr e' \<Longrightarrow> e' = e"
  "op_if opcode flags sv x e = Inr e' \<Longrightarrow> short_items (stack e) \<Longrightarrow> short_items (stack e') \<and> altstack e' = altstack e"
  "op_else e = Inr e' \<Longrightarrow> stack e' = stack e \<and> altstack e' = altstack e"
  "op_endif e = Inr e' \<Longrightarrow> stack e' = stack e \<and> altstack e' = altstack e"
  "op_verify e = Inr e' \<Longrightarrow> short_items (stack e) \<Longrightarrow> short_items (stack e') \<and> altstack e' = altstack e"
  "op_toaltstack e = Inr e' \<Longrightarrow> short_items (stack e) \<and> short_items (altstack e) \<Longrightarrow>
     short_items (stack e') \<and> short_items (altstack e')"
  "op_fromaltstack e = Inr e' \<Longrightarrow> short_items (stack e) \<and> short_items (altstack e) \<Longrightarrow>
     short_items (stack e') \<and> short_items (altstack e')"
  by (auto simp: op_locktime_def op_sequence_def op_if_def op_else_def op_endif_def op_verify_def op_toaltstack_def
      op_fromaltstack_def Let_def bindR_eq_Inr split: if_splits list.splits)

lemma exec_opcode_short:
  assumes "exec_opcode env flags sv opcode pc x e = Inr e'" "short_state e" "hashes_short env"
  shows "short_items (stack e') \<and> short_items (altstack e')"
proof -
  have s: "short_items (stack e)" "short_items (altstack e)" "length (stack e) < 2 ^ 31"
    using assms(2) by (auto simp: short_state_def)
  have n: "length (CScriptNum_serialize (uint opcode - 0x50)) \<le> 520"
  proof (rule serialize_short)
    have "uint opcode < 256" "0 \<le> uint opcode" using uint_lt2p [of opcode] by simp_all
    then have "\<bar>uint opcode - 0x50\<bar> < 256" by linarith
    then show "\<bar>uint opcode - 0x50\<bar> < 2 ^ 63" by (rule less_trans) simp
  qed
  note short = op_control_short op_checkmultisig_short on_stack_short
    op_stack_short [OF _ s(1,3)] op_pick_short [OF _ s(1)] op_arith_short(1-4,6) op_arith_short(5) [OF assms(3)]
  show ?thesis
    using assms(1) [unfolded exec_opcode_def Let_def] s n
    by (elim if_cases) (auto dest!: short)
qed

lemma eval_op_short:
  assumes "eval_op env flags sv opcode vch pc e = Inr e'" "short_state e" "hashes_short env"
  shows "short_state e'"
proof -
  let ?e = "\<lambda>n. e\<lparr>nOpCount := n\<rparr>"
  have s: "short_state (?e n)" for n using assms(2) by (simp add: short_state_def)
  show ?thesis
    using assms(1,2) exec_opcode_short [OF _ s assms(3)] exec_opcode_short [OF _ assms(2,3)]
    by (auto simp: eval_op_def Let_def bindR_eq_Inr short_state_def split: if_splits)
qed

lemma eval_loop_short:
  assumes "eval_loop env flags sv pc e = Inr e'" "short_state e" "hashes_short env"
  shows "short_state e'"
  using assms
proof (induction env flags sv pc e rule: eval_loop.induct)
  case (1 env flags sv pc e)
  show ?case
  proof (cases "pc = []")
    case False
    with 1(2) obtain opcode vch pc' e1 where op: "GetOp pc = Some (opcode, vch, pc')"
      "eval_op env flags sv opcode vch pc' e = Inr e1" "eval_loop env flags sv pc' e1 = Inr e'"
      by (auto simp: eval_loop.simps [of _ _ _ pc] split: option.splits sum.splits)
    show ?thesis using 1(1) [OF False op(1) refl refl op(2,3) eval_op_short [OF op(2) 1(3,4)] 1(4)] .
  qed (use 1 in \<open>simp add: eval_loop.simps\<close>)
qed

text \<open>Every opcode above \<^verbatim>\<open>OP_16\<close> is counted, executed or not.\<close>

lemma op_count_frame:
  "op_locktime env flags e = Inr e' \<Longrightarrow> nOpCount e' = nOpCount e"
  "op_sequence env flags e = Inr e' \<Longrightarrow> nOpCount e' = nOpCount e"
  "op_if opcode flags sv x e = Inr e' \<Longrightarrow> nOpCount e' = nOpCount e"
  "op_else e = Inr e' \<Longrightarrow> nOpCount e' = nOpCount e"
  "op_endif e = Inr e' \<Longrightarrow> nOpCount e' = nOpCount e"
  "op_verify e = Inr e' \<Longrightarrow> nOpCount e' = nOpCount e"
  "op_toaltstack e = Inr e' \<Longrightarrow> nOpCount e' = nOpCount e"
  "op_fromaltstack e = Inr e' \<Longrightarrow> nOpCount e' = nOpCount e"
  "on_stack f e = Inr e' \<Longrightarrow> nOpCount e' = nOpCount e"
  by (auto simp: op_locktime_def op_sequence_def op_if_def op_else_def op_endif_def op_verify_def op_toaltstack_def
      op_fromaltstack_def on_stack_def Let_def bindR_eq_Inr split: if_splits list.splits)

lemma op_count_multisig:
  assumes "op_checkmultisig env flags sv opcode e = Inr e'"
  shows "nOpCount e \<le> nOpCount e' \<and> nOpCount e' \<le> 201"
proof -
  have "\<exists>n. 0 \<le> n \<and> nOpCount e + n \<le> 201 \<and> nOpCount e' = nOpCount e + n"
    using assms unfolding op_checkmultisig_def Let_def
    by (auto elim!: bindR_InrE split: if_split_asm)
  then show ?thesis by auto
qed

lemma exec_opcode_count:
  assumes "exec_opcode env flags sv opcode pc x e = Inr e'" "nOpCount e \<le> 201"
  shows "nOpCount e \<le> nOpCount e' \<and> nOpCount e' \<le> 201"
  using assms(1) [unfolded exec_opcode_def Let_def] assms(2)
  by (elim if_cases) (auto dest: op_count_frame op_count_multisig)

lemma eval_op_count:
  assumes "eval_op env flags sv opcode vch pc e = Inr e'" "nOpCount e \<le> 201"
  shows "nOpCount e + of_bool (opcode > OP_16) \<le> nOpCount e' \<and> nOpCount e' \<le> 201"
proof -
  define e1 where "e1 = e\<lparr>nOpCount := (if opcode > OP_16 then nOpCount e + 1 else nOpCount e)\<rparr>"
  have e1: "nOpCount e1 = nOpCount e + of_bool (opcode > OP_16)" by (simp add: e1_def)
  have "nOpCount e1 \<le> 201"
    using assms unfolding eval_op_def Let_def by (auto simp: e1_def split: if_split_asm)
  moreover have "e' = e1\<lparr>stack := vch # stack e1\<rparr> \<or> e' = e1 \<or> (\<exists>x. exec_opcode env flags sv opcode pc x e1 = Inr e')"
    using assms(1) unfolding eval_op_def Let_def e1_def [symmetric] by (elim if_cases bindR_InrE) auto
  ultimately show ?thesis using exec_opcode_count [of env flags sv opcode pc _ e1 e'] e1 by auto
qed

lemma eval_loop_count:
  assumes "eval_loop env flags sv pc e = Inr e'" "nOpCount e \<le> 201"
  shows "snd (script_ops pc) \<and> nOpCount e + int (length (filter (\<lambda>t. fst t > OP_16) (fst (script_ops pc)))) \<le> 201"
  using assms
proof (induction env flags sv pc e rule: eval_loop.induct)
  case (1 env flags sv pc e)
  show ?case
  proof (cases "pc = []")
    case False
    with 1(2) obtain opcode vch pc' e1 where op: "GetOp pc = Some (opcode, vch, pc')"
      "eval_op env flags sv opcode vch pc' e = Inr e1" "eval_loop env flags sv pc' e1 = Inr e'"
      by (auto simp: eval_loop.simps [of _ _ _ pc] split: option.splits sum.splits)
    have n: "nOpCount e + of_bool (opcode > OP_16) \<le> nOpCount e1" "nOpCount e1 \<le> 201"
      using eval_op_count [OF op(2) 1(3)] by auto
    have "script_ops pc = ((opcode, vch) # fst (script_ops pc'), snd (script_ops pc'))"
      using False op(1) by (subst script_ops.simps) (simp split: prod.split)
    then show ?thesis using 1(1) [OF False op(1) refl refl op(2,3) n(2)] n(1) by (auto split: if_splits)
  qed (use 1 in \<open>simp add: eval_loop.simps script_ops.simps\<close>)
qed

text \<open>
  C18. A successful evaluation respects every limit: the script has at most 10000 bytes, parses to its end and holds at
  most 201 operations above \<^verbatim>\<open>OP_16\<close>; and from a stack of at most 1000 items of at most 520 bytes it leaves
  such a stack, if the hash functions return at most 32 bytes.
\<close>

theorem script_limits:
  assumes "EvalScript env s script flags sigversion = Inr s'" "hashes_short env"
    and "length s \<le> 1000" "list_all (\<lambda>x. length x \<le> 520) s"
  shows "length s' \<le> 1000 \<and> list_all (\<lambda>x. length x \<le> 520) s' \<and> length script \<le> 10000 \<and> snd (script_ops script) \<and>
    length (filter (\<lambda>t. fst t > OP_16) (fst (script_ops script))) \<le> 201"
proof -
  let ?e = "\<lparr>stack = s, altstack = [], vfExec = [], nOpCount = 0, codehash = script\<rparr>"
  obtain e where e: "eval_loop env flags sigversion script ?e = Inr e" "s' = stack e" "length script \<le> 10000"
    using assms(1) by (auto simp: EvalScript_def bindR_eq_Inr split: if_splits)
  have "short_state ?e" using assms(3,4) by (simp add: short_state_def short_items_def)
  from eval_loop_short [OF e(1) this assms(2)] eval_loop_count [OF e(1)] e(2,3) show ?thesis
    by (auto simp: short_state_def short_items_def)
qed

definition sample_script_env :: ScriptEnv where
  "sample_script_env = \<lparr>CheckSig = (\<lambda>sig key code v. sig = key), CheckLockTime = (\<lambda>n. False),
     CheckSequence = (\<lambda>n. False), IsCoinStake = True, CheckLowS = (\<lambda>s. True), RIPEMD160 = take 20, SHA1 = take 20,
     SHA256 = take 32, HASH160 = take 20, HASH256 = take 32\<rparr>"

lemma sample_hashes_short: "hashes_short sample_script_env"
  by (auto simp: hashes_short_def sample_script_env_def)

theorem script_limits_witness:
  "EvalScript sample_script_env [[3], [4]] [OP_2DUP, OP_ADD, OP_SWAP, OP_HASH160] 0 SIGVERSION_BASE = Inr [[3], [7], [4]] \<and>
   snd (script_ops [OP_2DUP, OP_ADD, OP_SWAP, OP_HASH160])"
proof -
  have "EvalScript sample_script_env [[3], [4]] [OP_2DUP, OP_ADD, OP_SWAP, OP_HASH160] 0 SIGVERSION_BASE = Inr [[3], [7], [4]]"
    by code_simp
  with script_limits [OF this sample_hashes_short] show ?thesis by simp
qed

section \<open>Scripts that cannot be satisfied\<close>

lemma GetOp_plain: "OP_PUSHDATA4 < opcode \<Longrightarrow> GetOp (opcode # pc) = Some (opcode, [], pc)"
  by (auto simp: GetOp_def)

lemma eval_loop_Nil [simp]: "eval_loop env flags sv [] e = Inr e"
  by (simp add: eval_loop.simps)

lemma eval_loop_plain:
  "OP_PUSHDATA4 < opcode \<Longrightarrow> eval_loop env flags sv (opcode # pc) e =
     (case eval_op env flags sv opcode [] pc e of Inl err \<Rightarrow> Inl err | Inr e' \<Rightarrow> eval_loop env flags sv pc e')"
  by (subst eval_loop.simps) (simp add: GetOp_plain)

text \<open>
  C19. An output \<^verbatim>\<open>IsUnspendable\<close> reports is never satisfied: whatever the stack, the flags and the transaction,
  \<^verbatim>\<open>EvalScript\<close> fails on it, and so does \<^verbatim>\<open>VerifyScript\<close> for every \<^verbatim>\<open>scriptSig\<close>, so that it may leave the set of unspent
  outputs.
\<close>

theorem unspendable_never_satisfied:
  assumes "IsUnspendable script"
  shows "(\<exists>err. EvalScript env s script flags sigversion = fail err) \<and>
    VerifyScript env scriptSig script witness flags \<noteq> Inr ()"
proof -
  have ev: "\<exists>err. EvalScript env s script flags sigversion = fail err" for s sigversion
  proof (cases "length script > 10000")
    case False
    then obtain pc where "script = OP_RETURN # pc"
      using assms by (cases script) (auto simp: IsUnspendable_def)
    then show ?thesis
      using False by (auto simp: EvalScript_def eval_loop_plain eval_op_def exec_opcode_def Let_def disabled_opcode_def)
  qed (simp add: EvalScript_def)
  have "VerifyScript env scriptSig script witness flags \<noteq> Inr ()"
  proof (cases "EvalScript env [] scriptSig flags SIGVERSION_BASE")
    case (Inr st)
    obtain err where "EvalScript env st script flags SIGVERSION_BASE = fail err" using ev by blast
    with Inr show ?thesis by (simp add: VerifyScript_def)
  qed (simp add: VerifyScript_def)
  with ev show ?thesis by blast
qed

theorem unspendable_never_satisfied_witness:
  "IsUnspendable [OP_RETURN, OP_CFUND] \<and>
   VerifyScript sample_script_env [OP_1] [OP_RETURN, OP_CFUND] [] 0 \<noteq> Inr ()"
proof -
  have "IsUnspendable [OP_RETURN, OP_CFUND]" by code_simp
  with unspendable_never_satisfied [OF this] show ?thesis by blast
qed

section \<open>Assertions\<close>

lemma p2sh_empty_stack:
  assumes "IsPayToScriptHash script"
  shows "\<exists>err. EvalScript env [] script flags sigversion = fail err"
proof -
  obtain pc where "script = OP_HASH160 # pc" using assms by (cases script) (auto simp: IsPayToScriptHash_def)
  moreover have "length script \<le> 10000" using assms by (simp add: IsPayToScriptHash_def)
  ultimately show ?thesis
    by (auto simp: EvalScript_def eval_loop_plain eval_op_def exec_opcode_def Let_def disabled_opcode_def on_stack_def op_hash_def)
qed

text \<open>Computations that end without a failed assertion, with a rule for each way to build them.\<close>

definition runs :: "script_stop + 'a \<Rightarrow> bool" where
  "runs r = (\<forall>c. r \<noteq> Inl (Aborts c))"

named_theorems runs_intros

lemma runs_simps [simp]: "runs (Inr x)" "runs (fail err)" "\<not> runs (Inl (Aborts c))"
  by (simp_all add: runs_def)

lemma runs_bind [runs_intros]: "runs r \<Longrightarrow> (\<And>x. r = Inr x \<Longrightarrow> runs (f x)) \<Longrightarrow> runs (bindR r f)"
  by (cases r) (auto simp: runs_def)

lemma runs_if [runs_intros]: "(b \<Longrightarrow> runs r) \<Longrightarrow> (\<not> b \<Longrightarrow> runs r') \<Longrightarrow> runs (if b then r else r')"
  by simp

lemma runs_list [runs_intros]:
  "(xs = [] \<Longrightarrow> runs r) \<Longrightarrow> (\<And>y ys. xs = y # ys \<Longrightarrow> runs (f y ys)) \<Longrightarrow> runs (case xs of [] \<Rightarrow> r | y # ys \<Rightarrow> f y ys)"
  by (cases xs) simp_all

lemma runs_option [runs_intros]:
  "(x = None \<Longrightarrow> runs r) \<Longrightarrow> (\<And>y. x = Some y \<Longrightarrow> runs (f y)) \<Longrightarrow> runs (case x of None \<Rightarrow> r | Some y \<Rightarrow> f y)"
  by (cases x) simp_all

lemma runs_prod [runs_intros]: "(\<And>x y. p = (x, y) \<Longrightarrow> runs (f x y)) \<Longrightarrow> runs (case p of (x, y) \<Rightarrow> f x y)"
  by (cases p) simp

lemma runs_Let [runs_intros]: "runs (f x) \<Longrightarrow> runs (let y = x in f y)"
  by simp

lemma runs_script_num [runs_intros]: "runs (script_num m n x)"
  by (simp add: script_num_def split: sum.split)

lemma runs_check_error [runs_intros]: "runs (check_error r)"
  by (simp add: check_error_def split: option.split)

lemma runs_unary_value:
  assumes "\<bar>n\<bar> < 2 ^ 31" "opcode = OP_1ADD \<or> opcode = OP_1SUB \<or> (OP_NEGATE \<le> opcode \<and> opcode \<le> OP_0NOTEQUAL)"
  shows "runs (unary_value opcode n)"
proof -
  have "OP_NEGATE \<le> opcode \<and> opcode \<le> OP_0NOTEQUAL \<Longrightarrow>
      opcode = OP_NEGATE \<or> opcode = OP_ABS \<or> opcode = OP_NOT \<or> opcode = OP_0NOTEQUAL"
    unfolding word_le_nat_alt word_unat_eq_iff by simp presburger
  then show ?thesis
    using assms
    by (auto simp: unary_value_def asserted_def CScriptNum_add_assign_def CScriptNum_sub_assign_def CScriptNum_negate_def)
qed

lemma runs_binary_value:
  assumes "opcode = OP_ADD \<or> opcode = OP_SUB \<or> (OP_BOOLAND \<le> opcode \<and> opcode \<le> OP_MAX)"
  shows "runs (binary_value opcode n k)"
proof -
  have "OP_BOOLAND \<le> opcode \<and> opcode \<le> OP_MAX \<Longrightarrow>
      opcode = OP_BOOLAND \<or> opcode = OP_BOOLOR \<or> opcode = OP_NUMEQUAL \<or> opcode = OP_NUMEQUALVERIFY \<or> opcode = OP_NUMNOTEQUAL \<or>
      opcode = OP_LESSTHAN \<or> opcode = OP_GREATERTHAN \<or> opcode = OP_LESSTHANOREQUAL \<or> opcode = OP_GREATERTHANOREQUAL \<or>
      opcode = OP_MIN \<or> opcode = OP_MAX"
    unfolding word_le_nat_alt word_unat_eq_iff by simp presburger
  then show ?thesis using assms by (auto simp: binary_value_def)
qed

lemma runs_on_stack [runs_intros]: "runs (f (stack e)) \<Longrightarrow> runs (on_stack f e)"
  unfolding on_stack_def by (intro runs_intros) simp_all

lemma runs_multisig_loop [runs_intros]: "runs (multisig_loop env flags sv code sigs keys)"
  by (induction env flags sv code sigs keys rule: multisig_loop.induct) (simp_all add: Let_def split: option.split)

lemma runs_multisig_cleanup [runs_intros]: "runs (multisig_cleanup b flags n k s)"
  by (induction b flags n k s rule: multisig_cleanup.induct) simp_all

lemma runs_ops [runs_intros]:
  "runs (op_locktime env flags e)" "runs (op_sequence env flags e)" "runs (op_if opcode flags sv x e)" "runs (op_else e)"
  "runs (op_endif e)" "runs (op_verify e)" "runs (op_toaltstack e)" "runs (op_fromaltstack e)" "runs (op_pick opcode m s)"
  "runs (op_equal opcode s)" "runs (op_within m s)" "runs (op_hash env opcode s)" "runs (op_checksig env flags sv opcode code s)"
  "runs (op_checkmultisig env flags sv opcode e)"
  unfolding op_locktime_def op_sequence_def op_if_def op_else_def op_endif_def op_verify_def op_toaltstack_def op_fromaltstack_def
    op_pick_def op_equal_def op_within_def op_hash_def op_checksig_def op_checkmultisig_def Let_def
  by (intro runs_intros; simp)+

lemma runs_op_stack [runs_intros]: "runs (op_stack opcode s)"
  unfolding op_stack_def by (intro runs_intros) simp_all

lemma runs_op_unary:
  "opcode = OP_1ADD \<or> opcode = OP_1SUB \<or> (OP_NEGATE \<le> opcode \<and> opcode \<le> OP_0NOTEQUAL) \<Longrightarrow> runs (op_unary opcode m s)"
  unfolding op_unary_def by (intro runs_intros runs_unary_value script_num_range) simp_all

lemma runs_op_binary:
  "opcode = OP_ADD \<or> opcode = OP_SUB \<or> (OP_BOOLAND \<le> opcode \<and> opcode \<le> OP_MAX) \<Longrightarrow> runs (op_binary opcode m s)"
  unfolding op_binary_def Let_def by (intro runs_intros runs_binary_value) simp_all

lemma runs_exec_opcode [runs_intros]: "runs (exec_opcode env flags sv opcode pc x e)"
  unfolding exec_opcode_def Let_def by (intro runs_intros runs_op_unary runs_op_binary) simp_all

lemma runs_eval_op [runs_intros]: "runs (eval_op env flags sv opcode vch pc e)"
  unfolding eval_op_def Let_def by (intro runs_intros) simp_all

lemma runs_eval_loop [runs_intros]: "runs (eval_loop env flags sv pc e)"
proof (induction env flags sv pc e rule: eval_loop.induct)
  case (1 env flags sv pc e)
  show ?case
  proof (cases "pc = []")
    case False
    show ?thesis
    proof (cases "GetOp pc")
      case (Some t)
      obtain opcode vch pc' where t: "t = (opcode, vch, pc')" by (cases t)
      show ?thesis
        using False Some t 1 [OF False Some t [symmetric] refl] runs_eval_op [of env flags sv opcode vch pc' e]
        by (subst eval_loop.simps) (auto simp: runs_def split: sum.split)
    qed (use False in \<open>simp add: eval_loop.simps\<close>)
  qed (simp add: eval_loop.simps)
qed

lemma runs_EvalScript [runs_intros]: "runs (EvalScript env s script flags sv)"
  unfolding EvalScript_def by (intro runs_intros) simp_all

lemma runs_eval_true [runs_intros]: "runs (eval_true s)"
  by (simp add: eval_true_def)

lemma runs_IsWitnessProgram [runs_intros]: "runs (asserted (IsWitnessProgram s))"
  by (auto simp: asserted_def IsWitnessProgram_def DecodeOP_N_def)

lemma runs_VerifyWitnessProgram [runs_intros]: "runs (VerifyWitnessProgram env witness v p flags)"
  unfolding VerifyWitnessProgram_def by (intro runs_intros) simp_all

lemma runs_bare_witness [runs_intros]: "runs (bare_witness env scriptSig scriptPubKey witness flags s)"
  unfolding bare_witness_def by (intro runs_intros) simp_all

lemma runs_verify_p2sh: "st \<noteq> [] \<Longrightarrow> runs (verify_p2sh env scriptSig witness flags st w)"
  unfolding verify_p2sh_def by (intro runs_intros) simp_all

text \<open>
  C20. \<^verbatim>\<open>VerifyScript\<close> never runs into an assertion, for any scripts and any witness, when the flags are consistent:
  \<^verbatim>\<open>CLEANSTACK\<close> comes with \<^verbatim>\<open>WITNESS\<close>, and \<^verbatim>\<open>WITNESS\<close> with \<^verbatim>\<open>P2SH\<close>. Not its own assertions, so that the stack saved for
  pay-to-script-hash is not empty when its script is taken from it; not those of the arithmetic of \<^verbatim>\<open>CScriptNum\<close>, whose
  operands have at most four bytes; and not those on unknown opcodes in \<^verbatim>\<open>EvalScript\<close> and in \<^verbatim>\<open>DecodeOP_N\<close>.
\<close>

theorem VerifyScript_returns:
  assumes "bit flags VERIFY_CLEANSTACK \<longrightarrow> bit flags VERIFY_WITNESS" "bit flags VERIFY_WITNESS \<longrightarrow> bit flags VERIFY_P2SH"
  shows "VerifyScript env scriptSig scriptPubKey witness flags \<noteq> Inl (Aborts c)"
proof -
  have end': "runs (verify_end flags witness s w)" for s w using assms by (auto simp: verify_end_def)
  have p2sh: "runs (verify_p2sh env scriptSig witness flags st w)"
    if "IsPayToScriptHash scriptPubKey" "EvalScript env st scriptPubKey flags SIGVERSION_BASE = Inr s" for st w s
    using that p2sh_empty_stack [OF that(1), of env flags SIGVERSION_BASE] by (intro runs_verify_p2sh) auto
  have "runs (VerifyScript env scriptSig scriptPubKey witness flags)"
    unfolding VerifyScript_def by (intro runs_intros p2sh end') auto
  then show ?thesis by (simp add: runs_def)
qed

theorem VerifyScript_returns_witness:
  "VerifyScript sample_script_env [0x08, 255, 255, 255, 255, 255, 255, 255, 127] [OP_1ADD] [] 1 \<noteq> Inl (Aborts AssertFailed)"
  by (rule VerifyScript_returns) (simp_all add: bit_1_iff)

section \<open>Cold staking\<close>

text \<open>The shapes recognised by \<^verbatim>\<open>HasColdStakingP2PKHSpending\<close> and its second version.\<close>

definition p2pkh_branch :: "bytes \<Rightarrow> bytes" where
  "p2pkh_branch h = [OP_DUP, OP_HASH160, 0x14] @ h @ [OP_EQUALVERIFY, OP_CHECKSIG]"

definition cold_staking_script :: "bytes \<Rightarrow> bytes \<Rightarrow> bytes" where
  "cold_staking_script staking spending =
     [OP_COINSTAKE, OP_IF] @ p2pkh_branch staking @ [OP_ELSE] @ p2pkh_branch spending @ [OP_ENDIF]"

lemma HasColdStakingP2PKHSpending_script:
  "length h1 = 20 \<Longrightarrow> length h2 = 20 \<Longrightarrow> HasColdStakingP2PKHSpending (cold_staking_script h1 h2)"
  by (simp add: HasColdStakingP2PKHSpending_def cold_staking_script_def p2pkh_branch_def nth_append)

lemma GetOp_push20: "length h = 20 \<Longrightarrow> GetOp (0x14 # h @ pc) = Some (0x14, h, pc)"
  by (auto simp: GetOp_def get_operand_def)

lemma eval_loop_push20:
  "length h = 20 \<Longrightarrow> eval_loop env flags sv (0x14 # h @ pc) e =
     (case eval_op env flags sv 0x14 h pc e of Inl err \<Rightarrow> Inl err | Inr e' \<Rightarrow> eval_loop env flags sv pc e')"
  by (subst eval_loop.simps) (simp add: GetOp_push20)

lemma eval_op_push20:
  assumes "length h = 20" "length (stack e) + length (altstack e) < 1000"
  shows "eval_op env flags sv 0x14 h pc e = Inr (if list_all id (vfExec e) then e\<lparr>stack := h # stack e\<rparr> else e)"
  using assms by (simp add: eval_op_def Let_def disabled_opcode_def CheckMinimalPush_def)

definition roomy :: "Eval \<Rightarrow> bool" where
  "roomy e = (length (stack e) + length (altstack e) < 500 \<and> nOpCount e < 150)"

lemma eval_op_skip:
  assumes "\<not> list_all id (vfExec e)" "roomy e" "OP_16 < opcode" "\<not> disabled_opcode opcode" "\<not> (OP_IF \<le> opcode \<and> opcode \<le> OP_ENDIF)"
  shows "eval_op env flags sv opcode [] pc e = Inr (e\<lparr>nOpCount := nOpCount e + 1\<rparr>)"
  using assms by (auto simp: eval_op_def Let_def roomy_def)

lemma eval_op_exec:
  assumes "list_all id (vfExec e) \<or> (OP_IF \<le> opcode \<and> opcode \<le> OP_ENDIF)" "roomy e" "OP_16 < opcode" "\<not> disabled_opcode opcode"
  shows "eval_op env flags sv opcode [] pc e =
    bindR (exec_opcode env flags sv opcode pc (list_all id (vfExec e)) (e\<lparr>nOpCount := nOpCount e + 1\<rparr>)) (\<lambda>e2.
       if length (stack e2) + length (altstack e2) > 1000 then fail SCRIPT_ERR_STACK_SIZE else Inr e2)"
proof -
  have "(OP_PUSHDATA4 :: u8) < opcode" by (rule less_trans [OF _ assms(3)]) simp
  then show ?thesis using assms by (auto simp: eval_op_def Let_def roomy_def)
qed

lemma run_branch_skip:
  assumes "\<not> list_all id (vfExec e)" "length (stack e) + length (altstack e) < 500" "nOpCount e < 140" "length h = 20"
  shows "eval_loop env flags sv (p2pkh_branch h @ pc) e = eval_loop env flags sv pc (e\<lparr>nOpCount := 4 + nOpCount e\<rparr>)"
  using assms
  by (simp add: p2pkh_branch_def eval_loop_plain eval_loop_push20 eval_op_push20 eval_op_skip roomy_def disabled_opcode_def)

lemmas run_simps = eval_loop_plain eval_loop_push20 eval_op_push20 eval_op_exec roomy_def disabled_opcode_def exec_opcode_def
  Let_def on_stack_def

lemma run_branch:
  assumes "list_all id (vfExec e)" "stack e = [pubkey, sig]" "length (altstack e) < 100" "nOpCount e < 140" "length h = 20"
  shows "eval_loop env flags sv (p2pkh_branch h @ pc) e =
    (if HASH160 env pubkey \<noteq> h then fail SCRIPT_ERR_EQUALVERIFY
     else bindR (op_checksig env flags sv OP_CHECKSIG (codehash e) [pubkey, sig]) (\<lambda>s.
       eval_loop env flags sv pc (e\<lparr>nOpCount := 4 + nOpCount e, stack := s\<rparr>)))"
proof -
  have len: "length s \<le> 1" if "op_checksig env flags sv OP_CHECKSIG c [pubkey, sig] = Inr s" for s c
    using that by (auto simp: op_checksig_def Let_def bindR_eq_Inr split: if_splits)
  show ?thesis
    using assms
    by (simp add: p2pkh_branch_def run_simps op_stack_def op_hash_def op_equal_def)
       (auto simp: bindR_def dest!: len split: sum.split)
qed

lemma run_cold_staking:
  assumes "stack e = [pubkey, sig]" "altstack e = []" "vfExec e = []" "nOpCount e < 100" "length h1 = 20" "length h2 = 20"
  shows "bindR (eval_loop env flags sv (cold_staking_script h1 h2) e) (\<lambda>e.
      if vfExec e \<noteq> [] then fail SCRIPT_ERR_UNBALANCED_CONDITIONAL else Inr (stack e)) =
    (if HASH160 env pubkey \<noteq> (if IsCoinStake env then h1 else h2) then fail SCRIPT_ERR_EQUALVERIFY
     else op_checksig env flags sv OP_CHECKSIG (codehash e) [pubkey, sig])"
proof -
  let ?e = "\<lambda>b. e\<lparr>nOpCount := 2 + nOpCount e, stack := [pubkey, sig], vfExec := [b]\<rparr>"
  have start: "eval_loop env flags sv (cold_staking_script h1 h2) e =
    eval_loop env flags sv (p2pkh_branch h1 @ [OP_ELSE] @ p2pkh_branch h2 @ [OP_ENDIF]) (?e (IsCoinStake env))"
    using assms by (cases "IsCoinStake env") (simp_all add: cold_staking_script_def run_simps op_if_def vchBool_def)
  have else': "eval_loop env flags sv (OP_ELSE # pc) e1 = eval_loop env flags sv pc (e1\<lparr>nOpCount := nOpCount e1 + 1, vfExec := [\<not> hd (vfExec e1)]\<rparr>)"
    if "length (vfExec e1) = 1" "roomy e1" for e1 pc
    using that by (cases "vfExec e1") (auto simp: run_simps op_else_def)
  have endif: "eval_loop env flags sv [OP_ENDIF] e1 = Inr (e1\<lparr>nOpCount := nOpCount e1 + 1, vfExec := []\<rparr>)"
    if "length (vfExec e1) = 1" "roomy e1" for e1
    using that by (cases "vfExec e1") (auto simp: run_simps op_endif_def)
  have len: "length s \<le> 1" if "op_checksig env flags sv OP_CHECKSIG c [pubkey, sig] = Inr s" for s c
    using that by (auto simp: op_checksig_def Let_def bindR_eq_Inr split: if_splits)
  show ?thesis
  proof (cases "IsCoinStake env")
    case True
    then show ?thesis
      using assms unfolding start
      by (simp add: run_branch [where pubkey = pubkey and sig = sig])
        (auto simp: bindR_def else' endif run_branch_skip roomy_def dest!: len split: sum.split)
  next
    case False
    then show ?thesis
      using assms unfolding start
      by (simp add: run_branch_skip else' roomy_def run_branch [where pubkey = pubkey and sig = sig])
        (auto simp: bindR_def endif roomy_def dest!: len split: sum.split)
  qed
qed

lemma take_nths: "n + k \<le> length s \<Longrightarrow> take k (drop n s) = map (\<lambda>i. s ! (n + i)) [0..<k]"
  by (rule nth_equalityI) auto

lemma short_upts: "[0..<5] = [0, 1, 2, 3, 4 :: nat]" "[0..<6] = [0, 1, 2, 3, 4, 5 :: nat]" "[0..<3] = [0, 1, 2 :: nat]"
  by code_simp+

lemma cold_staking_shape:
  assumes "length s = 54" "s ! 0 = OP_COINSTAKE" "s ! 1 = OP_IF" "s ! 2 = OP_DUP" "s ! 3 = OP_HASH160" "s ! 4 = 0x14"
    "s ! 25 = OP_EQUALVERIFY" "s ! 26 = OP_CHECKSIG" "s ! 27 = OP_ELSE" "s ! 28 = OP_DUP" "s ! 29 = OP_HASH160"
    "s ! 30 = 0x14" "s ! 51 = OP_EQUALVERIFY" "s ! 52 = OP_CHECKSIG" "s ! 53 = OP_ENDIF"
  shows "s = cold_staking_script (take 20 (drop 5 s)) (take 20 (drop 31 s))"
proof -
  have "s = take 5 (drop 0 s) @ take 20 (drop 5 s) @ take 6 (drop 25 s) @ take 20 (drop 31 s) @ take 3 (drop 51 s)"
  proof -
    have chop: "drop n s = take k (drop n s) @ drop (n + k) s" for n k
      using append_take_drop_id [of k "drop n s"] by (simp add: add.commute)
    have "drop 0 s = take 5 (drop 0 s) @ take 20 (drop 5 s) @ take 6 (drop 25 s) @ take 20 (drop 31 s) @ drop 51 s"
      by (subst chop [of 0 5], subst chop [of "0 + 5" 20], subst chop [of "0 + 5 + 20" 6], subst chop [of "0 + 5 + 20 + 6" 20]) simp
    then show ?thesis using assms(1) by simp
  qed
  also have "take 5 (drop 0 s) = [OP_COINSTAKE, OP_IF, OP_DUP, OP_HASH160, 0x14]"
    using assms by (subst take_nths) (simp_all add: short_upts)
  also have "take 6 (drop 25 s) = [OP_EQUALVERIFY, OP_CHECKSIG, OP_ELSE, OP_DUP, OP_HASH160, 0x14]"
    using assms by (subst take_nths) (simp_all add: short_upts)
  also have "take 3 (drop 51 s) = [OP_EQUALVERIFY, OP_CHECKSIG, OP_ENDIF]"
    using assms by (subst take_nths) (simp_all add: short_upts)
  finally show ?thesis by (simp add: cold_staking_script_def p2pkh_branch_def)
qed

lemma cold_staking_shape_v2:
  assumes "HasColdStakingv2P2PKHSpending s"
  shows "s = 0x14 # take 20 (drop 1 s) @ [OP_DROP] @ cold_staking_script (take 20 (drop 27 s)) (take 20 (drop 53 s))"
proof -
  let ?t = "drop 22 s"
  have len: "length s = 76" using assms by (simp add: HasColdStakingv2P2PKHSpending_def)
  have t: "?t = cold_staking_script (take 20 (drop 5 ?t)) (take 20 (drop 31 ?t))"
    using assms by (intro cold_staking_shape) (simp_all add: HasColdStakingv2P2PKHSpending_def)
  have "s = s ! 0 # drop 1 s" using len by (cases s) auto
  also have "drop 1 s = take 20 (drop 1 s) @ drop 21 s" using append_take_drop_id [of 20 "drop 1 s"] by simp
  also have "drop 21 s = s ! 21 # ?t" using len Cons_nth_drop_Suc [of 21 s] by simp
  finally show ?thesis
    using assms t by (simp add: HasColdStakingv2P2PKHSpending_def)
qed

definition cold_staking_offset :: "bytes \<Rightarrow> nat" where
  "cold_staking_offset script = (if HasColdStakingP2PKHSpending script then 0 else 22)"

text \<open>
  C21. A cold staking output splits the powers: given a signature and a key, either version of the script accepts exactly
  when the key hashes to the staking hash in a coinstake transaction and to the spending hash in any other, and the
  signature check of the whole script passes. A staking key alone can therefore never move the coins.
\<close>

theorem cold_staking_rule:
  assumes "HasColdStakingP2PKHSpending script \<or> HasColdStakingv2P2PKHSpending script"
  shows "EvalScript env [pubkey, sig] script flags sigversion =
    (if HASH160 env pubkey \<noteq> take 20 (drop (cold_staking_offset script + (if IsCoinStake env then 5 else 31)) script)
     then fail SCRIPT_ERR_EQUALVERIFY
     else op_checksig env flags sigversion OP_CHECKSIG script [pubkey, sig])"
proof (cases "HasColdStakingP2PKHSpending script")
  case True
  let ?h1 = "take 20 (drop 5 script)" and ?h2 = "take 20 (drop 31 script)"
  have len: "length script = 54" using True by (simp add: HasColdStakingP2PKHSpending_def)
  have eq: "script = cold_staking_script ?h1 ?h2"
    using True by (intro cold_staking_shape) (simp_all add: HasColdStakingP2PKHSpending_def)
  let ?e = "\<lparr>stack = [pubkey, sig], altstack = [], vfExec = [], nOpCount = 0, codehash = script\<rparr>"
  have "bindR (eval_loop env flags sigversion (cold_staking_script ?h1 ?h2) ?e) (\<lambda>e.
      if vfExec e \<noteq> [] then fail SCRIPT_ERR_UNBALANCED_CONDITIONAL else Inr (stack e)) =
    (if HASH160 env pubkey \<noteq> (if IsCoinStake env then ?h1 else ?h2) then fail SCRIPT_ERR_EQUALVERIFY
     else op_checksig env flags sigversion OP_CHECKSIG script [pubkey, sig])"
    using run_cold_staking [of ?e pubkey sig ?h1 ?h2 env flags sigversion] len by simp
  then show ?thesis using True len unfolding eq [symmetric] by (simp add: EvalScript_def cold_staking_offset_def)
next
  case False
  then have v2: "HasColdStakingv2P2PKHSpending script" using assms by blast
  let ?v = "take 20 (drop 1 script)" and ?h1 = "take 20 (drop 27 script)" and ?h2 = "take 20 (drop 53 script)"
  have len: "length script = 76" using v2 by (simp add: HasColdStakingv2P2PKHSpending_def)
  let ?e = "\<lparr>stack = [pubkey, sig], altstack = [], vfExec = [], nOpCount = 0, codehash = script\<rparr>"
  have "eval_loop env flags sigversion script ?e = eval_loop env flags sigversion (cold_staking_script ?h1 ?h2) (?e\<lparr>nOpCount := 1\<rparr>)"
    using len by (subst cold_staking_shape_v2 [OF v2]) (simp add: run_simps op_stack_def)
  then show ?thesis
    using run_cold_staking [of "?e\<lparr>nOpCount := 1\<rparr>" pubkey sig ?h1 ?h2 env flags sigversion] len False
    by (simp add: EvalScript_def cold_staking_offset_def)
qed

theorem cold_staking_rule_witness:
  "HasColdStakingP2PKHSpending (cold_staking_script (replicate 20 1) (replicate 20 2)) \<and>
   EvalScript sample_script_env [replicate 33 2, []] (cold_staking_script (replicate 20 1) (replicate 20 2)) 0 SIGVERSION_BASE =
     fail SCRIPT_ERR_EQUALVERIFY"
proof -
  let ?s = "cold_staking_script (replicate 20 1) (replicate 20 2)"
  have shape: "HasColdStakingP2PKHSpending ?s" by (simp add: HasColdStakingP2PKHSpending_script)
  have "take 20 (drop 5 ?s) = replicate 20 1"
    by (simp add: cold_staking_script_def p2pkh_branch_def)
  moreover have "replicate 20 2 \<noteq> replicate 20 (1 :: u8)" by simp
  ultimately show ?thesis
    using cold_staking_rule [of ?s sample_script_env "replicate 33 2" "[]" 0 SIGVERSION_BASE] shape
    by (simp add: cold_staking_offset_def sample_script_env_def)
qed

section \<open>Multisignatures\<close>

lemma assignment_step:
  "(\<exists>ks. subseq ks (key # keys) \<and> list_all2 P (sig # sigs) ks) \<longleftrightarrow>
     (if P sig key then \<exists>ks. subseq ks keys \<and> list_all2 P sigs ks
      else \<exists>ks. subseq ks keys \<and> list_all2 P (sig # sigs) ks)"
proof (cases "P sig key")
  case True
  have "subseq ks keys \<Longrightarrow> list_all2 P sigs ks \<Longrightarrow> subseq (key # ks) (key # keys) \<and> list_all2 P (sig # sigs) (key # ks)" for ks
    using True by simp
  moreover have "\<exists>ks'. subseq ks' keys \<and> list_all2 P sigs ks'" if "subseq ks (key # keys)" "list_all2 P (sig # sigs) ks" for ks
    using that unfolding list_all2_Cons1 subseq_Cons2_iff by (metis list.inject list.distinct(1) subseq_Cons' subseq_Cons2_iff)
  ultimately show ?thesis using True by (simp only: if_True) blast
next
  case False
  then show ?thesis by (auto simp: list_all2_Cons1 subseq_Cons2_iff split: if_splits)
qed

text \<open>
  C22. The multisignature loop is right to be greedy: when no signature or key at hand is malformed it accepts exactly
  when the signatures can be assigned to keys in the order of the keys, one key each.
\<close>

theorem multisig_greedy:
  assumes "list_all (\<lambda>sig. CheckSignatureEncoding env sig flags = None) sigs"
    and "list_all (\<lambda>key. CheckPubKeyEncoding key flags sigversion = None) keys"
  shows "multisig_loop env flags sigversion code sigs keys =
    Inr (\<exists>ks. subseq ks keys \<and> list_all2 (\<lambda>sig key. CheckSig env sig key code sigversion) sigs ks)"
  using assms
proof (induction env flags sigversion code sigs keys rule: multisig_loop.induct)
  case (1 env flags sigversion code keys)
  show ?case by auto
next
  case (2 env flags sigversion code sig sigs)
  show ?case by (auto dest: list_emb_length)
next
  case (3 env flags sigversion code sig sigs key keys)
  let ?E = "\<lambda>ss ks. \<exists>ks'. subseq ks' ks \<and> list_all2 (\<lambda>sig key. CheckSig env sig key code sigversion) ss ks'"
  have "\<not> ?E ss ks" if "length ss > length ks" for ss ks
    using that by (auto dest: list_all2_lengthD list_emb_length)
  then show ?case using 3 unfolding assignment_step by (auto simp: Let_def)
qed

theorem multisig_greedy_witness:
  "multisig_loop sample_script_env 0 SIGVERSION_BASE [] [[1], [3]] [[1], [2], [3]] =
     Inr (\<exists>ks. subseq ks [[1], [2], [3]] \<and>
       list_all2 (\<lambda>sig key. CheckSig sample_script_env sig key [] SIGVERSION_BASE) [[1], [3]] ks)"
  by (rule multisig_greedy) (simp_all add: CheckSignatureEncoding_def CheckPubKeyEncoding_def)

end
