(* ===== verification/ArithUint.thy ===== *)
theory ArithUint
  imports Bytes
begin

text \<open>
  Big unsigned integers (\<^verbatim>\<open>arith_uint256.h\<close>, \<^verbatim>\<open>arith_uint256.cpp\<close>). A \<^verbatim>\<open>base_uint<BITS>\<close> is its array
  \<^verbatim>\<open>pn\<close> of 32-bit limbs, least significant first, and every operator is the loop of the source over
  those limbs. The laws show that each of them computes the operation on numbers modulo
  \<^verbatim>\<open>2^BITS\<close>, for every number of limbs.
\<close>

section \<open>Limbs\<close>

type_synonym base_uint = "u32 list"

text \<open>The abstraction: the number an array of limbs stands for.\<close>

primrec limbs :: "base_uint \<Rightarrow> nat" where
  "limbs [] = 0"
| "limbs (p # ps) = unat p + 2 ^ 32 * limbs ps"

section \<open>Operators\<close>

text \<open>\<^verbatim>\<open>base_uint(uint64_t b)\<close> and \<^verbatim>\<open>operator=(uint64_t b)\<close> for an array of \<open>w\<close> limbs\<close>

definition uint_from64 :: "nat \<Rightarrow> u64 \<Rightarrow> base_uint" where
  "uint_from64 w b = [ucast b, ucast (drop_bit 32 b)] @ replicate (w - 2) 0"

definition uint_is_zero :: "base_uint \<Rightarrow> bool" where
  "uint_is_zero a = list_all (\<lambda>p. p = 0) a"

definition uint_not :: "base_uint \<Rightarrow> base_uint" where
  "uint_not a = map (\<lambda>p. NOT p) a"

fun uint_inc :: "base_uint \<Rightarrow> base_uint" where
  "uint_inc [] = []"
| "uint_inc (p # ps) = (if p + 1 = 0 then (p + 1) # uint_inc ps else (p + 1) # ps)"

fun uint_dec :: "base_uint \<Rightarrow> base_uint" where
  "uint_dec [] = []"
| "uint_dec (p # ps) = (if p - 1 = -1 then (p - 1) # uint_dec ps else (p - 1) # ps)"

definition uint_neg :: "base_uint \<Rightarrow> base_uint" where
  "uint_neg a = uint_inc (uint_not a)"

fun add_loop :: "u64 \<Rightarrow> base_uint \<Rightarrow> base_uint \<Rightarrow> base_uint" where
  "add_loop carry (p # ps) (b # bs) =
     (let n = carry + ucast p + ucast b
      in ucast (n AND 0xffffffff) # add_loop (drop_bit 32 n) ps bs)"
| "add_loop carry _ _ = []"

definition uint_add :: "base_uint \<Rightarrow> base_uint \<Rightarrow> base_uint" where
  "uint_add a b = add_loop 0 a b"

definition uint_sub :: "base_uint \<Rightarrow> base_uint \<Rightarrow> base_uint" where
  "uint_sub a b = uint_add a (uint_neg b)"

fun mul32_loop :: "u64 \<Rightarrow> u32 \<Rightarrow> base_uint \<Rightarrow> base_uint" where
  "mul32_loop carry b [] = []"
| "mul32_loop carry b (p # ps) =
     (let n = carry + ucast b * ucast p
      in ucast (n AND 0xffffffff) # mul32_loop (drop_bit 32 n) b ps)"

definition uint_mul32 :: "base_uint \<Rightarrow> u32 \<Rightarrow> base_uint" where
  "uint_mul32 a b = mul32_loop 0 b a"

text \<open>
  The schoolbook product: row \<open>j\<close> adds \<open>a.pn[j] * b\<close> to the limbs of the result from position \<open>j\<close> on,
  and leaves out what falls beyond the last limb.
\<close>

fun mul_row :: "u64 \<Rightarrow> u32 \<Rightarrow> base_uint \<Rightarrow> base_uint \<Rightarrow> base_uint" where
  "mul_row carry x (p # ps) (b # bs) =
     (let n = carry + ucast p + ucast x * ucast b
      in ucast (n AND 0xffffffff) # mul_row (drop_bit 32 n) x ps bs)"
| "mul_row carry x _ _ = []"

fun mul_rows :: "base_uint \<Rightarrow> base_uint \<Rightarrow> base_uint \<Rightarrow> base_uint" where
  "mul_rows (x # xs) b (p # ps) =
     (let row = mul_row 0 x (p # ps) b in hd row # mul_rows xs b (tl row))"
| "mul_rows _ b ps = ps"

definition uint_mul :: "base_uint \<Rightarrow> base_uint \<Rightarrow> base_uint" where
  "uint_mul a b = mul_rows a b (replicate (length a) 0)"

definition uint_shl :: "base_uint \<Rightarrow> nat \<Rightarrow> base_uint" where
  "uint_shl a sh =
     (let k = sh div 32; s = sh mod 32; w = length a
      in fold (\<lambda>i pn.
           let pn1 = (if i + k + 1 < w \<and> s \<noteq> 0
                      then pn[i + k + 1 := (pn ! (i + k + 1)) OR drop_bit (32 - s) (a ! i)] else pn)
           in if i + k < w then pn1[i + k := (pn1 ! (i + k)) OR push_bit s (a ! i)] else pn1)
         [0..<w] (replicate w 0))"

definition uint_shr :: "base_uint \<Rightarrow> nat \<Rightarrow> base_uint" where
  "uint_shr a sh =
     (let k = sh div 32; s = sh mod 32; w = length a
      in fold (\<lambda>i pn.
           let pn1 = (if k + 1 \<le> i \<and> s \<noteq> 0
                      then pn[i - k - 1 := (pn ! (i - k - 1)) OR push_bit (32 - s) (a ! i)] else pn)
           in if k \<le> i then pn1[i - k := (pn1 ! (i - k)) OR drop_bit s (a ! i)] else pn1)
         [0..<w] (replicate w 0))"

fun compare_loop :: "nat \<Rightarrow> base_uint \<Rightarrow> base_uint \<Rightarrow> int" where
  "compare_loop 0 a b = 0"
| "compare_loop (Suc i) a b =
     (if a ! i < b ! i then -1 else if a ! i > b ! i then 1 else compare_loop i a b)"

definition uint_CompareTo :: "base_uint \<Rightarrow> base_uint \<Rightarrow> int" where
  "uint_CompareTo a b = compare_loop (length a) a b"

definition uint_EqualTo :: "base_uint \<Rightarrow> u64 \<Rightarrow> bool" where
  "uint_EqualTo a b =
     (if \<exists>i \<in> set [2..<length a]. a ! i \<noteq> 0 then False
      else if ucast (a ! 1) \<noteq> drop_bit 32 b then False
      else if ucast (a ! 0) \<noteq> b AND 0xffffffff then False
      else True)"

fun top_bit_loop :: "nat \<Rightarrow> u32 \<Rightarrow> nat \<Rightarrow> nat" where
  "top_bit_loop 0 p pos = 32 * pos + 1"
| "top_bit_loop (Suc n) p pos =
     (if p AND push_bit (Suc n) 1 \<noteq> 0 then 32 * pos + Suc n + 1 else top_bit_loop n p pos)"

fun bits_loop :: "nat \<Rightarrow> base_uint \<Rightarrow> nat" where
  "bits_loop 0 a = 0"
| "bits_loop (Suc pos) a = (if a ! pos \<noteq> 0 then top_bit_loop 31 (a ! pos) pos else bits_loop pos a)"

definition uint_bits :: "base_uint \<Rightarrow> nat" where
  "uint_bits a = bits_loop (length a) a"

text \<open>The quotient is built bit by bit; the first argument is \<open>shift + 1\<close>.\<close>

fun div_loop :: "nat \<Rightarrow> base_uint \<Rightarrow> base_uint \<Rightarrow> base_uint \<Rightarrow> base_uint" where
  "div_loop 0 num dv q = q"
| "div_loop (Suc shift) num dv q =
     (if uint_CompareTo num dv \<ge> 0
      then div_loop shift (uint_sub num dv) (uint_shr dv 1)
             (q[shift div 32 := (q ! (shift div 32)) OR push_bit (shift mod 32) 1])
      else div_loop shift num (uint_shr dv 1) q)"

definition uint_div :: "base_uint \<Rightarrow> base_uint \<Rightarrow> base_uint result" where
  "uint_div a b =
     (let num_bits = uint_bits a; div_bits = uint_bits b; q = replicate (length a) 0
      in if div_bits = 0 then Inl StdException
         else if div_bits > num_bits then Inr q
         else let shift = num_bits - div_bits in Inr (div_loop (shift + 1) a (uint_shl b shift) q))"

definition GetLow64 :: "base_uint \<Rightarrow> u64" where
  "GetLow64 a = ucast (a ! 0) OR push_bit 32 (ucast (a ! 1))"

section \<open>Laws\<close>

named_theorems limb_simps \<open>lengths and values of arrays of limbs\<close>

lemma limb_bound: "unat (p :: u32) < 2 ^ 32"
  using unsigned_less [of p, where 'a = nat] by simp

lemma limb_less: "unat (p :: u32) < 4294967296"
  using limb_bound [of p] by simp

lemma limbs_bound: "limbs a < 2 ^ (32 * length a)"
proof (induction a)
  case (Cons p a)
  have "unat p + 2 ^ 32 * limbs a < 2 ^ 32 * (limbs a + 1)" by (simp add: limb_less)
  also have "\<dots> \<le> 2 ^ 32 * 2 ^ (32 * length a)" using Cons by (intro mult_left_mono) auto
  finally show ?case by (simp add: power_add)
qed simp

lemma limbs_append: "limbs (a @ b) = limbs a + 2 ^ (32 * length a) * limbs b"
  by (induction a) (simp_all add: algebra_simps power_add)

lemma limbs_zeros [simp]: "limbs (replicate n 0) = 0"
  by (induction n) auto

lemma limbs_mod: "limbs a mod 2 ^ (32 * length a) = limbs a"
  using limbs_bound by simp

lemma limbs_inject: "length a = length b \<Longrightarrow> limbs a = limbs b \<Longrightarrow> a = b"
proof (induction a b rule: list_induct2)
  case (Cons p a q b)
  have "unat p = (unat p + 2 ^ 32 * limbs a) mod 2 ^ 32"
    "unat q = (unat q + 2 ^ 32 * limbs b) mod 2 ^ 32" by (simp_all add: limb_less)
  with Cons.prems have "unat p = unat q" by simp
  then have "p = q" by (rule unsigned_word_eqI)
  with Cons show ?case by simp
qed simp

lemma bit_limbs: "bit (limbs a) n \<longleftrightarrow> n div 32 < length a \<and> bit (a ! (n div 32)) (n mod 32)"
proof (induction a arbitrary: n)
  case (Cons p a)
  have split: "limbs (p # a) = unat p OR push_bit 32 (limbs a)"
  proof -
    have "unat p AND push_bit 32 (limbs a) = 0"
      by (rule bit_eqI) (auto simp: bit_simps dest: bit_imp_le_length)
    then have "unat p + push_bit 32 (limbs a) = unat p OR push_bit 32 (limbs a)"
      by (simp add: disjunctive_add_eq_or)
    then show ?thesis by (simp add: push_bit_eq_mult mult.commute)
  qed
  show ?case
  proof (cases "n < 32")
    case True
    then show ?thesis by (simp only: split) (simp add: bit_simps)
  next
    case False
    then obtain m where m: "n = 32 + m" using le_Suc_ex by (metis not_less)
    then have "\<not> bit p n" using bit_imp_le_length [of p n] by auto
    with m Cons [of m] show ?thesis by (simp only: split) (simp add: bit_simps div_add1_eq)
  qed
qed simp

text \<open>The limb stored and the carry of one step of the loops of the operators.\<close>

lemma stored_limb [simp]: "unat (ucast (n AND 0xffffffff :: u64) :: u32) = unat n mod 2 ^ 32"
proof -
  have "n AND 0xffffffff = take_bit 32 n"
    by (simp add: take_bit_eq_mask mask_eq_exp_minus_1)
  then show ?thesis by (simp add: unsigned_ucast_eq take_bit_eq_mod unat_mod)
qed

lemma carry_limb [simp]: "unat (drop_bit 32 n :: u64) = unat n div 2 ^ 32"
  by (simp add: drop_bit_eq_div unat_div)

lemma unat_limb [simp]: "unat (ucast (p :: u32) :: u64) = unat p"
  by (simp add: unsigned_ucast_eq take_bit_eq_mod less_trans [OF limb_less])

lemma carry_step:
  "(x + 2 ^ 32 * y) mod 2 ^ (32 + 32 * k) = x mod 2 ^ 32 + 2 ^ 32 * ((x div 2 ^ 32 + y) mod 2 ^ (32 * k))"
  for x :: nat
proof -
  have "(x + 2 ^ 32 * y) mod (2 ^ 32 * 2 ^ (32 * k)) =
      2 ^ 32 * ((x + 2 ^ 32 * y) div 2 ^ 32 mod 2 ^ (32 * k)) + (x + 2 ^ 32 * y) mod 2 ^ 32"
    by (rule mod_mult2_eq)
  then show ?thesis by (simp add: power_add add.commute)
qed

lemma length_add_loop [simp]: "length (add_loop c a b) = min (length a) (length b)"
  by (induction c a b rule: add_loop.induct) (auto simp: Let_def)

lemma limbs_add_loop:
  "length a = length b \<Longrightarrow> unat c < 2 ^ 32 \<Longrightarrow>
   limbs (add_loop c a b) = (unat c + limbs a + limbs b) mod 2 ^ (32 * length a)"
proof (induction c a b rule: add_loop.induct)
  case (1 c p ps b bs)
  let ?n = "c + ucast p + ucast b"
  have small: "unat c + unat p + unat b < 2 ^ 64"
  proof -
    have "(2 :: nat) ^ 32 + 2 ^ 32 + 2 ^ 32 \<le> 2 ^ 64" by simp
    with "1.prems"(2) limb_bound [of p] limb_bound [of b] show ?thesis by linarith
  qed
  then have n: "unat ?n = unat c + unat p + unat b"
    by (simp add: unat_word_ariths)
  have "unat (drop_bit 32 ?n) < 2 ^ 32"
    unfolding carry_limb n using small by (simp add: less_mult_imp_div_less)
  then have "limbs (add_loop (drop_bit 32 ?n) ps bs) =
      (unat ?n div 2 ^ 32 + (limbs ps + limbs bs)) mod 2 ^ (32 * length ps)"
    using 1 by (simp add: add.assoc)
  then have "limbs (add_loop c (p # ps) (b # bs)) =
      (unat ?n + 2 ^ 32 * (limbs ps + limbs bs)) mod 2 ^ (32 + 32 * length ps)"
    unfolding carry_step by (simp add: Let_def)
  also have "unat ?n + 2 ^ 32 * (limbs ps + limbs bs) = unat c + limbs (p # ps) + limbs (b # bs)"
    by (simp add: n)
  finally show ?case by simp
qed simp_all

lemma length_uint_add [simp]: "length (uint_add a b) = min (length a) (length b)"
  by (simp add: uint_add_def)

lemma limbs_add: "length a = length b \<Longrightarrow> limbs (uint_add a b) = (limbs a + limbs b) mod 2 ^ (32 * length a)"
  by (simp add: uint_add_def limbs_add_loop)

lemma length_uint_not [simp]: "length (uint_not a) = length a"
  by (simp add: uint_not_def)

lemma unat_not_limb: "unat (NOT p :: u32) = 2 ^ 32 - 1 - unat p"
proof -
  have "unat (- 1 - p) = unat (- 1 :: u32) - unat p" by (intro unat_sub) simp
  then show ?thesis
    by (simp add: not_eq_complement minus_diff_commute unsigned_minus_1_eq_mask mask_eq_exp_minus_1)
qed

lemma limbs_not: "limbs (uint_not a) = 2 ^ (32 * length a) - 1 - limbs a"
proof (induction a)
  case (Cons p a)
  obtain d where d: "2 ^ (32 * length a) = limbs a + 1 + d"
    using limbs_bound [of a] by (metis Suc_eq_plus1 Suc_leI le_Suc_ex)
  have "limbs (uint_not (p # a)) = (2 ^ 32 - 1 - unat p) + 2 ^ 32 * d"
    using Cons d by (simp add: uint_not_def unat_not_limb)
  also have "\<dots> = 2 ^ 32 * (limbs a + 1 + d) - 1 - limbs (p # a)"
    using limb_less [of p] by simp
  finally show ?case by (simp add: d power_add)
qed (simp add: uint_not_def)

lemma length_uint_inc [simp]: "length (uint_inc a) = length a"
  by (induction a) auto

lemma limbs_inc: "limbs (uint_inc a) = (limbs a + 1) mod 2 ^ (32 * length a)"
proof (induction a)
  case (Cons p a)
  show ?case
  proof (cases "p + 1 = 0")
    case True
    then have "p = - 1" by (simp add: eq_neg_iff_add_eq_0)
    then have p: "unat p + 1 = 2 ^ 32" by (simp add: unsigned_minus_1_eq_mask mask_eq_exp_minus_1)
    have "(unat p + 1 + 2 ^ 32 * limbs a) mod 2 ^ (32 + 32 * length a) =
        2 ^ 32 * ((limbs a + 1) mod 2 ^ (32 * length a))"
      unfolding p carry_step by (simp add: add.commute)
    with True Cons show ?thesis by simp
  next
    case False
    then have p: "unat (p + 1) = unat p + 1" using unatSuc [of p] by (simp add: add.commute)
    then have "unat p + 1 + 2 ^ 32 * limbs a < 2 ^ (32 * length (p # a))"
      using limbs_bound [of "(p + 1) # a"] by simp
    with False p show ?thesis by (simp add: add.commute)
  qed
qed simp

lemma length_uint_neg [simp]: "length (uint_neg a) = length a"
  by (simp add: uint_neg_def)

lemma limbs_neg: "limbs (uint_neg a) = (2 ^ (32 * length a) - limbs a) mod 2 ^ (32 * length a)"
  using limbs_bound [of a] by (simp add: uint_neg_def limbs_inc limbs_not Suc_diff_Suc)

lemma length_uint_sub [simp]: "length (uint_sub a b) = min (length a) (length b)"
  by (simp add: uint_sub_def)

lemma limbs_sub:
  assumes "length a = length b"
  shows "limbs (uint_sub a b) = (limbs a + 2 ^ (32 * length a) - limbs b) mod 2 ^ (32 * length a)"
proof -
  have "limbs (uint_sub a b) = (limbs a + (2 ^ (32 * length a) - limbs b)) mod 2 ^ (32 * length a)"
    using assms by (simp add: uint_sub_def limbs_add limbs_neg mod_add_right_eq)
  then show ?thesis using limbs_bound [of b] assms by simp
qed

lemma limbs_sub_le:
  assumes "length a = length b" "limbs b \<le> limbs a"
  shows "limbs (uint_sub a b) = limbs a - limbs b"
proof -
  have "limbs a + 2 ^ (32 * length a) - limbs b = (limbs a - limbs b) + 2 ^ (32 * length a)"
    using assms(2) by simp
  then have "limbs (uint_sub a b) = (limbs a - limbs b) mod 2 ^ (32 * length a)"
    unfolding limbs_sub [OF assms(1)] by (simp only: mod_add_self2)
  moreover have "limbs a - limbs b < 2 ^ (32 * length a)" using limbs_bound [of a] by linarith
  ultimately show ?thesis by (simp only: mod_less)
qed

text \<open>A step of a multiplication loop does not overflow 64 bits.\<close>

lemma product_step:
  fixes p x b :: u32
  assumes "unat c < 2 ^ 32"
  shows "unat (c + ucast p + ucast x * ucast b :: u64) = unat c + unat p + unat x * unat b"
    and "(unat c + unat p + unat x * unat b) div 2 ^ 32 < 2 ^ 32"
proof -
  have "unat x * unat b \<le> (2 ^ 32 - 1) * (2 ^ 32 - 1)"
    using limb_bound [of x] limb_bound [of b] by (intro mult_le_mono) auto
  then have small: "unat c + unat p + unat x * unat b < 2 ^ 64"
    using assms limb_less [of p] by simp
  then show "unat (c + ucast p + ucast x * ucast b :: u64) = unat c + unat p + unat x * unat b"
    by (simp add: unat_word_ariths)
  show "(unat c + unat p + unat x * unat b) div 2 ^ 32 < 2 ^ 32"
    using small by (simp add: less_mult_imp_div_less)
qed

lemma length_mul_row [simp]: "length (mul_row c x ps bs) = min (length ps) (length bs)"
  by (induction c x ps bs rule: mul_row.induct) (auto simp: Let_def)

lemma limbs_mul_row:
  "length ps \<le> length bs \<Longrightarrow> unat c < 2 ^ 32 \<Longrightarrow>
   limbs (mul_row c x ps bs) = (unat c + limbs ps + unat x * limbs bs) mod 2 ^ (32 * length ps)"
proof (induction c x ps bs rule: mul_row.induct)
  case (1 c x p ps b bs)
  let ?n = "c + ucast p + ucast x * ucast b"
  note n = product_step [OF "1.prems"(2), of p x b]
  have "unat (drop_bit 32 ?n) < 2 ^ 32" unfolding carry_limb n(1) by (rule n(2))
  then have "limbs (mul_row (drop_bit 32 ?n) x ps bs) =
      (unat ?n div 2 ^ 32 + (limbs ps + unat x * limbs bs)) mod 2 ^ (32 * length ps)"
    using 1 by (simp add: add.assoc)
  then have "limbs (mul_row c x (p # ps) (b # bs)) =
      (unat ?n + 2 ^ 32 * (limbs ps + unat x * limbs bs)) mod 2 ^ (32 + 32 * length ps)"
    unfolding carry_step by (simp add: Let_def)
  also have "unat ?n + 2 ^ 32 * (limbs ps + unat x * limbs bs) =
      unat c + limbs (p # ps) + unat x * limbs (b # bs)"
    unfolding n(1) by (simp add: algebra_simps)
  finally show ?case by simp
qed simp_all

lemma length_mul_rows [simp]: "length ps \<le> length b \<Longrightarrow> length (mul_rows xs b ps) = length ps"
  by (induction xs b ps rule: mul_rows.induct) (auto simp: Let_def)

lemma limbs_mul_rows:
  "length xs = length ps \<Longrightarrow> length ps \<le> length b \<Longrightarrow>
   limbs (mul_rows xs b ps) = (limbs ps + limbs xs * limbs b) mod 2 ^ (32 * length ps)"
proof (induction xs b ps rule: mul_rows.induct)
  case (1 x xs b p ps)
  define row where "row = mul_row 0 x (p # ps) b"
  have len: "length row = Suc (length ps)" using "1.prems" by (simp add: row_def)
  then obtain q qs where q: "row = q # qs" by (cases row) auto
  have row: "limbs row = (limbs (p # ps) + unat x * limbs b) mod 2 ^ (32 + 32 * length ps)"
    using "1.prems" by (simp add: row_def limbs_mul_row)
  have "limbs (mul_rows xs b qs) = (limbs qs + limbs xs * limbs b) mod 2 ^ (32 * length ps)"
    using "1.IH" [of row] "1.prems" len q by (simp add: row_def)
  then have "limbs (mul_rows (x # xs) b (p # ps)) =
      (unat q + 2 ^ 32 * (limbs qs + limbs xs * limbs b)) mod 2 ^ (32 + 32 * length ps)"
    unfolding carry_step using q by (simp add: row_def [symmetric] limb_less)
  also have "unat q + 2 ^ 32 * (limbs qs + limbs xs * limbs b) = limbs row + 2 ^ 32 * (limbs xs * limbs b)"
    by (simp add: q algebra_simps)
  also have "\<dots> mod 2 ^ (32 + 32 * length ps) =
      (limbs (p # ps) + unat x * limbs b + 2 ^ 32 * (limbs xs * limbs b)) mod 2 ^ (32 + 32 * length ps)"
    unfolding row by (rule mod_add_left_eq)
  finally show ?case by (simp add: algebra_simps)
qed simp_all

lemma length_uint_mul [simp]: "length a = length b \<Longrightarrow> length (uint_mul a b) = length a"
  by (simp add: uint_mul_def)

lemma limbs_mul: "length a = length b \<Longrightarrow> limbs (uint_mul a b) = (limbs a * limbs b) mod 2 ^ (32 * length a)"
  by (simp add: uint_mul_def limbs_mul_rows)

lemma limbs_mul32_loop:
  "unat c < 2 ^ 32 \<Longrightarrow> length (mul32_loop c b a) = length a \<and>
   limbs (mul32_loop c b a) = (unat c + unat b * limbs a) mod 2 ^ (32 * length a)"
proof (induction c b a rule: mul32_loop.induct)
  case (2 c b p ps)
  let ?n = "c + ucast b * ucast p"
  have n: "unat ?n = unat c + unat b * unat p" "unat ?n div 2 ^ 32 < 2 ^ 32"
    using product_step [OF "2.prems", of 0 b p] by simp_all
  then have "unat (drop_bit 32 ?n) < 2 ^ 32" by simp
  note IH = "2.IH" [OF refl this]
  then have "limbs (mul32_loop c b (p # ps)) =
      (unat ?n + 2 ^ 32 * (unat b * limbs ps)) mod 2 ^ (32 + 32 * length ps)"
    unfolding carry_step by (simp add: Let_def)
  also have "unat ?n + 2 ^ 32 * (unat b * limbs ps) = unat c + unat b * limbs (p # ps)"
    unfolding n(1) by (simp add: algebra_simps)
  finally show ?case using IH by (simp add: Let_def)
qed simp

lemma limbs_mul32:
  "length (uint_mul32 a b) = length a" "limbs (uint_mul32 a b) = (limbs a * unat b) mod 2 ^ (32 * length a)"
  using limbs_mul32_loop [of 0 b a] by (simp_all add: uint_mul32_def mult.commute)

text \<open>
  A shift writes every limb of the result from two neighbours of the source; limb by limb this is the
  shift of the number.
\<close>

definition shl_limb :: "base_uint \<Rightarrow> nat \<Rightarrow> nat \<Rightarrow> nat \<Rightarrow> nat \<Rightarrow> u32" where
  "shl_limb a k s m j =
     (if k \<le> j \<and> j - k < m then push_bit s (a ! (j - k)) else 0) OR
     (if s \<noteq> 0 \<and> k + 1 \<le> j \<and> j - k - 1 < m then drop_bit (32 - s) (a ! (j - k - 1)) else 0)"

definition shr_limb :: "base_uint \<Rightarrow> nat \<Rightarrow> nat \<Rightarrow> nat \<Rightarrow> nat \<Rightarrow> u32" where
  "shr_limb a k s m j =
     (if j + k < m then drop_bit s (a ! (j + k)) else 0) OR
     (if s \<noteq> 0 \<and> j + k + 1 < m then push_bit (32 - s) (a ! (j + k + 1)) else 0)"

lemma shl_limb_Suc:
  "shl_limb a k s (Suc m) j = shl_limb a k s m j OR
     (if s \<noteq> 0 \<and> j = m + k + 1 then drop_bit (32 - s) (a ! m) else 0) OR
     (if j = m + k then push_bit s (a ! m) else 0)"
proof -
  consider "j = m + k" | "j = m + k + 1" | "j \<noteq> m + k" "j \<noteq> m + k + 1" by blast
  then show ?thesis
  proof cases
    case 3
    then have "(k \<le> j \<and> j - k < Suc m) = (k \<le> j \<and> j - k < m)"
      "(k + 1 \<le> j \<and> j - k - 1 < Suc m) = (k + 1 \<le> j \<and> j - k - 1 < m)" by auto
    with 3 show ?thesis unfolding shl_limb_def by (simp only: if_False simp_thms or.right_neutral)
  qed (simp_all add: shl_limb_def or.commute)
qed

lemma shr_limb_Suc:
  "shr_limb a k s (Suc m) j = shr_limb a k s m j OR
     (if s \<noteq> 0 \<and> k + 1 \<le> m \<and> j = m - k - 1 then push_bit (32 - s) (a ! m) else 0) OR
     (if k \<le> m \<and> j = m - k then drop_bit s (a ! m) else 0)"
proof -
  consider "k \<le> m" "j = m - k" | "k + 1 \<le> m" "j = m - k - 1" | "j + k \<noteq> m" "j + k + 1 \<noteq> m" by linarith
  then show ?thesis
  proof cases
    case 3
    then have "(j + k < Suc m) = (j + k < m)" "(j + k + 1 < Suc m) = (j + k + 1 < m)"
      "\<not> (k \<le> m \<and> j = m - k)" "\<not> (k + 1 \<le> m \<and> j = m - k - 1)" by auto
    then show ?thesis unfolding shr_limb_def by (simp only: if_False simp_thms or.right_neutral)
  qed (auto simp add: shr_limb_def or.commute)
qed

lemma nth_or_update:
  "i < length pn \<Longrightarrow> (if P then pn[j := (pn ! j) OR v] else pn) ! i = (pn ! i) OR (if P \<and> i = j then v else 0)"
  by (auto simp: nth_list_update)

lemma length_if_update [simp]: "length (if P then pn[j := v] else pn) = length pn"
  by simp

lemma shl_loop:
  "m \<le> w \<Longrightarrow>
   fold (\<lambda>i pn.
       let pn1 = (if i + k + 1 < w \<and> s \<noteq> 0
                  then pn[i + k + 1 := (pn ! (i + k + 1)) OR drop_bit (32 - s) (a ! i)] else pn)
       in if i + k < w then pn1[i + k := (pn1 ! (i + k)) OR push_bit s (a ! i)] else pn1)
     [0..<m] (replicate w 0) = map (shl_limb a k s m) [0..<w]"
proof (induction m)
  case 0
  then show ?case by (auto intro!: nth_equalityI simp: shl_limb_def)
next
  case (Suc m)
  then have "m \<le> w" by simp
  note IH = Suc.IH [OF this]
  show ?case unfolding upt_Suc_append [OF le0] fold_append o_apply IH unfolding fold.simps id_apply o_apply Let_def
  proof (rule nth_equalityI, goal_cases)
    case (2 i)
    then have "i < w" by simp
    then show ?case using Suc.prems by (simp add: nth_or_update shl_limb_Suc or.assoc)
  qed simp
qed

lemma shr_loop:
  "m \<le> w \<Longrightarrow>
   fold (\<lambda>i pn.
       let pn1 = (if k + 1 \<le> i \<and> s \<noteq> 0
                  then pn[i - k - 1 := (pn ! (i - k - 1)) OR push_bit (32 - s) (a ! i)] else pn)
       in if k \<le> i then pn1[i - k := (pn1 ! (i - k)) OR drop_bit s (a ! i)] else pn1)
     [0..<m] (replicate w 0) = map (shr_limb a k s m) [0..<w]"
proof (induction m)
  case 0
  then show ?case by (auto intro!: nth_equalityI simp: shr_limb_def)
next
  case (Suc m)
  then have "m \<le> w" by simp
  note IH = Suc.IH [OF this]
  show ?case unfolding upt_Suc_append [OF le0] fold_append o_apply IH unfolding fold.simps id_apply o_apply Let_def
  proof (rule nth_equalityI, goal_cases)
    case (2 i)
    then have "i < w" by simp
    then show ?case using Suc.prems by (simp add: nth_or_update shr_limb_Suc or.assoc)
  qed simp
qed

lemma uint_shl_eq: "uint_shl a sh = map (shl_limb a (sh div 32) (sh mod 32) (length a)) [0..<length a]"
  unfolding uint_shl_def Let_def by (rule shl_loop [OF order.refl, unfolded Let_def])

lemma uint_shr_eq: "uint_shr a sh = map (shr_limb a (sh div 32) (sh mod 32) (length a)) [0..<length a]"
  unfolding uint_shr_def Let_def by (rule shr_loop [OF order.refl, unfolded Let_def])

lemma length_shifts [simp]: "length (uint_shl a sh) = length a" "length (uint_shr a sh) = length a"
  by (simp_all add: uint_shl_eq uint_shr_eq)

lemma bit_beyond_limb: "32 \<le> n \<Longrightarrow> \<not> bit (p :: u32) n"
  using bit_imp_le_length [of p n] by auto

lemma div_mod_32: "r < 32 \<Longrightarrow> (32 * j + r) div 32 = j \<and> (32 * j + r) mod 32 = r" for j r :: nat
  by simp

lemma diff_32:
  fixes j k r s :: nat
  assumes "r < 32" "s < 32" "32 * k + s \<le> 32 * j + r"
  shows "s \<le> r \<Longrightarrow> k \<le> j \<and> 32 * j + r - (32 * k + s) = 32 * (j - k) + (r - s)"
    and "r < s \<Longrightarrow> k + 1 \<le> j \<and> 32 * j + r - (32 * k + s) = 32 * (j - k - 1) + (32 - s + r)"
proof -
  assume "s \<le> r"
  moreover have "k \<le> j" using assms by arith
  then obtain d where "j = k + d" using le_Suc_ex by blast
  ultimately show "k \<le> j \<and> 32 * j + r - (32 * k + s) = 32 * (j - k) + (r - s)" by simp
next
  assume "r < s"
  moreover have "k + 1 \<le> j" using assms \<open>r < s\<close> by arith
  then obtain d where "j = k + 1 + d" using le_Suc_ex by blast
  ultimately show "k + 1 \<le> j \<and> 32 * j + r - (32 * k + s) = 32 * (j - k - 1) + (32 - s + r)"
    using assms by simp
qed

lemma div_mod_diff:
  fixes n sh :: nat
  assumes "sh \<le> n"
  shows "sh mod 32 \<le> n mod 32 \<Longrightarrow> sh div 32 \<le> n div 32 \<and> (n - sh) div 32 = n div 32 - sh div 32 \<and>
      (n - sh) mod 32 = n mod 32 - sh mod 32"
    and "n mod 32 < sh mod 32 \<Longrightarrow> sh div 32 + 1 \<le> n div 32 \<and> (n - sh) div 32 = n div 32 - sh div 32 - 1 \<and>
      (n - sh) mod 32 = 32 - sh mod 32 + n mod 32"
proof -
  have *: "32 * (sh div 32) + sh mod 32 = sh" "32 * (n div 32) + n mod 32 = n" by simp_all
  note d = diff_32 [of "n mod 32" "sh mod 32" "sh div 32" "n div 32", unfolded *, OF _ _ assms]
  show "sh mod 32 \<le> n mod 32 \<Longrightarrow> sh div 32 \<le> n div 32 \<and> (n - sh) div 32 = n div 32 - sh div 32 \<and>
      (n - sh) mod 32 = n mod 32 - sh mod 32"
    using d(1) div_mod_32 [of "n mod 32 - sh mod 32" "n div 32 - sh div 32"]
    by (simp add: less_imp_diff_less)
  show "n mod 32 < sh mod 32 \<Longrightarrow> sh div 32 + 1 \<le> n div 32 \<and> (n - sh) div 32 = n div 32 - sh div 32 - 1 \<and>
      (n - sh) mod 32 = 32 - sh mod 32 + n mod 32"
    using d(2) div_mod_32 [of "32 - sh mod 32 + n mod 32" "n div 32 - sh div 32 - 1"] by simp
qed

lemma less_div_mod: "n < sh \<Longrightarrow> n div 32 < sh div 32 \<or> n div 32 = sh div 32 \<and> n mod 32 < sh mod 32"
  for n sh :: nat
  by (metis div_le_mono div_mult_mod_eq le_neq_implies_less nat_add_left_cancel_less nat_less_le)

lemma carry_32:
  fixes j k r s :: nat
  assumes "\<not> r + s < 32" "r < 32" "s < 32"
  shows "32 * (j + k) + (r + s) = 32 * (j + k + 1) + (r - (32 - s)) \<and> s \<noteq> 0 \<and> r - (32 - s) < 32"
  using assms by arith

lemma add_div_mod:
  fixes n sh :: nat
  shows "n mod 32 + sh mod 32 < 32 \<Longrightarrow> (n + sh) div 32 = n div 32 + sh div 32 \<and> (n + sh) mod 32 = n mod 32 + sh mod 32"
    and "\<not> n mod 32 + sh mod 32 < 32 \<Longrightarrow> (n + sh) div 32 = n div 32 + sh div 32 + 1 \<and>
      (n + sh) mod 32 = n mod 32 - (32 - sh mod 32) \<and> sh mod 32 \<noteq> 0"
proof -
  have *: "n + sh = 32 * (n div 32 + sh div 32) + (n mod 32 + sh mod 32)" by simp
  show "n mod 32 + sh mod 32 < 32 \<Longrightarrow> (n + sh) div 32 = n div 32 + sh div 32 \<and> (n + sh) mod 32 = n mod 32 + sh mod 32"
    using div_mod_32 * by metis
  assume "\<not> n mod 32 + sh mod 32 < 32"
  then have "32 * (n div 32 + sh div 32) + (n mod 32 + sh mod 32) =
      32 * (n div 32 + sh div 32 + 1) + (n mod 32 - (32 - sh mod 32)) \<and>
      sh mod 32 \<noteq> 0 \<and> n mod 32 - (32 - sh mod 32) < 32"
    by (rule carry_32) simp_all
  then show "(n + sh) div 32 = n div 32 + sh div 32 + 1 \<and>
      (n + sh) mod 32 = n mod 32 - (32 - sh mod 32) \<and> sh mod 32 \<noteq> 0"
    using div_mod_32 * by metis
qed

lemma limbs_shl: "limbs (uint_shl a sh) = (limbs a * 2 ^ sh) mod 2 ^ (32 * length a)"
proof -
  have "limbs (uint_shl a sh) = take_bit (32 * length a) (push_bit sh (limbs a))"
  proof (rule bit_eqI)
    fix n :: nat
    let ?j = "n div 32" and ?r = "n mod 32" and ?k = "sh div 32" and ?s = "sh mod 32"
    have bound: "n < 32 * length a \<longleftrightarrow> ?j < length a" by (simp add: div_less_iff_less_mult mult.commute)
    have "bit (shl_limb a ?k ?s (length a) ?j) ?r \<longleftrightarrow> sh \<le> n \<and> bit (limbs a) (n - sh)" if "?j < length a"
    proof (cases "sh \<le> n")
      case False
      then have "?j < ?k \<or> ?j = ?k \<and> ?r < ?s" by (intro less_div_mod) simp
      then show ?thesis using False by (auto simp: shl_limb_def bit_simps)
    next
      case le: True
      show ?thesis
      proof (cases "?s \<le> ?r")
        case True
        with le that show ?thesis
          by (auto simp: shl_limb_def bit_simps bit_limbs div_mod_diff bit_beyond_limb)
      next
        case False
        with div_mod_diff(2) [OF le] that show ?thesis using le
          by (auto simp: shl_limb_def bit_simps bit_limbs less_imp_diff_less)
      qed
    qed
    then show "bit (limbs (uint_shl a sh)) n \<longleftrightarrow> bit (take_bit (32 * length a) (push_bit sh (limbs a))) n"
      by (auto simp: bit_limbs uint_shl_eq bit_simps bound)
  qed
  then show ?thesis by (simp add: take_bit_eq_mod push_bit_eq_mult)
qed

lemma limbs_shr: "limbs (uint_shr a sh) = limbs a div 2 ^ sh"
proof -
  have "limbs (uint_shr a sh) = drop_bit sh (limbs a)"
  proof (rule bit_eqI)
    fix n :: nat
    let ?j = "n div 32" and ?r = "n mod 32" and ?k = "sh div 32" and ?s = "sh mod 32"
    have "bit (shr_limb a ?k ?s (length a) ?j) ?r \<longleftrightarrow> bit (limbs a) (n + sh)"
    proof (cases "?r + ?s < 32")
      case True
      moreover have "\<not> 32 - ?s \<le> ?r" using True by (simp add: not_le less_diff_conv)
      ultimately show ?thesis using add_div_mod(1) [of n sh]
        by (auto simp: shr_limb_def bit_simps bit_limbs add.commute)
    next
      case False
      moreover have "32 - ?s \<le> ?r" using False less_diff_conv not_le by blast
      ultimately show ?thesis using add_div_mod(2) [of n sh]
        by (auto simp: shr_limb_def bit_simps bit_limbs bit_beyond_limb)
    qed
    moreover have "bit (limbs a) (n + sh) \<Longrightarrow> ?j < length a"
      unfolding bit_limbs by (metis div_le_mono le_add1 le_less_trans)
    ultimately show "bit (limbs (uint_shr a sh)) n \<longleftrightarrow> bit (drop_bit sh (limbs a)) n"
      unfolding uint_shr_eq by (subst bit_limbs) (auto simp: bit_simps add.commute)
  qed
  then show ?thesis by (simp add: drop_bit_eq_div)
qed

lemma limbs_take_Suc:
  "n < length a \<Longrightarrow> limbs (take (Suc n) a) = limbs (take n a) + 2 ^ (32 * n) * unat (a ! n)"
  by (simp add: take_Suc_conv_app_nth limbs_append)

lemma limbs_take_bound: "n \<le> length a \<Longrightarrow> limbs (take n a) < 2 ^ (32 * n)"
  using limbs_bound [of "take n a"] by (simp add: min_absorb2)

lemma limbs_take_less:
  assumes "n < length a" "n < length b" "a ! n < b ! n"
  shows "limbs (take (Suc n) a) < limbs (take (Suc n) b)"
proof -
  have "unat (a ! n) + 1 \<le> unat (b ! n)" using assms(3) by (simp add: word_less_nat_alt)
  then have "2 ^ (32 * n) * (unat (a ! n) + 1) \<le> 2 ^ (32 * n) * unat (b ! n)" by (rule mult_le_mono2)
  moreover have "limbs (take n a) < 2 ^ (32 * n)" using assms(1) by (intro limbs_take_bound) simp
  ultimately show ?thesis using assms(1,2) by (simp add: limbs_take_Suc)
qed

lemma compare_loop:
  "n \<le> length a \<Longrightarrow> n \<le> length b \<Longrightarrow>
   compare_loop n a b = (if limbs (take n a) < limbs (take n b) then -1
     else if limbs (take n a) > limbs (take n b) then 1 else 0)"
proof (induction n)
  case (Suc n)
  consider "a ! n < b ! n" | "b ! n < a ! n" | "a ! n = b ! n" by (meson linorder_less_linear)
  then show ?case
  proof cases
    case 1
    with Suc.prems have "limbs (take (Suc n) a) < limbs (take (Suc n) b)" by (intro limbs_take_less) auto
    with 1 show ?thesis by simp
  next
    case 2
    with Suc.prems have "limbs (take (Suc n) b) < limbs (take (Suc n) a)" by (intro limbs_take_less) auto
    with 2 show ?thesis by (auto simp: not_less_iff_gr_or_eq)
  next
    case 3
    with Suc show ?thesis by (simp add: limbs_take_Suc)
  qed
qed simp

lemma CompareTo_limbs:
  "length a = length b \<Longrightarrow>
   uint_CompareTo a b = (if limbs a < limbs b then -1 else if limbs a > limbs b then 1 else 0)"
  by (simp add: uint_CompareTo_def compare_loop)

lemma top_bit_loop:
  "n < 32 \<Longrightarrow> p \<noteq> 0 \<Longrightarrow> unat p < 2 ^ Suc n \<Longrightarrow>
   \<exists>m \<le> n. top_bit_loop n p pos = 32 * pos + m + 1 \<and> 2 ^ m \<le> unat p \<and> unat p < 2 ^ Suc m"
proof (induction n)
  case 0
  then have "unat p = 1" by (auto simp: unat_eq_0 less_2_cases_iff)
  then show ?case by simp
next
  case (Suc n)
  have test: "p AND push_bit (Suc n) 1 \<noteq> 0 \<longleftrightarrow> bit p (Suc n)"
    by (metis and_exp_eq_0_iff_not_bit push_bit_of_1)
  have "bit p (Suc n) \<longleftrightarrow> bit (unat p) (Suc n)" using Suc.prems(1) by (simp add: bit_simps)
  also have "\<dots> \<longleftrightarrow> odd (unat p div 2 ^ Suc n)" by (simp add: bit_iff_odd)
  also have "\<dots> \<longleftrightarrow> 2 ^ Suc n \<le> unat p"
  proof -
    have "unat p div 2 ^ Suc n < 2" using Suc.prems(3) by (simp add: less_mult_imp_div_less)
    then have "unat p div 2 ^ Suc n = (if 2 ^ Suc n \<le> unat p then 1 else 0)"
      by (auto simp: div_eq_0_iff less_2_cases_iff simp del: power_Suc)
    then show ?thesis by simp
  qed
  finally have iff: "bit p (Suc n) \<longleftrightarrow> 2 ^ Suc n \<le> unat p" .
  show ?case
  proof (cases "bit p (Suc n)")
    case True
    then have "2 ^ Suc n \<le> unat p" using iff by simp
    then show ?thesis using True test Suc.prems(3) by (intro exI [of _ "Suc n"]) simp
  next
    case False
    then have "unat p < 2 ^ Suc n" using iff by simp
    with Suc obtain m where "m \<le> n" "top_bit_loop n p pos = 32 * pos + m + 1" "2 ^ m \<le> unat p" "unat p < 2 ^ Suc m"
      by auto
    then show ?thesis using False test by (intro exI [of _ m]) simp
  qed
qed

lemma bits_loop:
  "n \<le> length a \<Longrightarrow>
   limbs (take n a) < 2 ^ bits_loop n a \<and> (bits_loop n a \<noteq> 0 \<longrightarrow> 2 ^ (bits_loop n a - 1) \<le> limbs (take n a)) \<and>
   bits_loop n a \<le> 32 * n"
proof (induction n)
  case (Suc n)
  show ?case
  proof (cases "a ! n = 0")
    case True
    then show ?thesis using Suc by (simp add: limbs_take_Suc)
  next
    case False
    obtain m where m: "m \<le> 31" "top_bit_loop 31 (a ! n) n = 32 * n + m + 1" "2 ^ m \<le> unat (a ! n)" "unat (a ! n) < 2 ^ Suc m"
      using top_bit_loop [of 31 "a ! n" n] False limb_bound [of "a ! n"] by auto
    have low: "limbs (take n a) < 2 ^ (32 * n)" using Suc.prems by (intro limbs_take_bound) simp
    have "2 ^ (32 * n) * (unat (a ! n) + 1) \<le> 2 ^ (32 * n) * 2 ^ Suc m" using m(4) by (intro mult_le_mono2) simp
    then have "limbs (take (Suc n) a) < 2 ^ (32 * n + m + 1)"
      using low Suc.prems by (simp add: limbs_take_Suc power_add mult.commute mult.left_commute)
    moreover have "2 ^ (32 * n + m) \<le> limbs (take (Suc n) a)"
      using m(3) Suc.prems by (simp add: limbs_take_Suc power_add trans_le_add2)
    ultimately show ?thesis using False m(1,2) by simp
  qed
qed simp

lemma bits_limbs:
  "limbs a < 2 ^ uint_bits a" "uint_bits a \<noteq> 0 \<Longrightarrow> 2 ^ (uint_bits a - 1) \<le> limbs a"
  "uint_bits a \<le> 32 * length a" "uint_bits a = 0 \<longleftrightarrow> limbs a = 0"
  using bits_loop [of "length a" a] by (auto simp: uint_bits_def)

lemma limbs_set_bit:
  assumes "n < 32 * length q" "2 ^ Suc n dvd limbs q"
  shows "limbs (q[n div 32 := (q ! (n div 32)) OR push_bit (n mod 32) 1]) = limbs q + 2 ^ n"
proof -
  have j: "n div 32 < length q" using assms(1) by (simp add: div_less_iff_less_mult mult.commute)
  have "limbs (q[n div 32 := (q ! (n div 32)) OR push_bit (n mod 32) 1]) = limbs q OR push_bit n 1"
  proof (rule bit_eqI)
    fix m :: nat
    have "m = n \<longleftrightarrow> m div 32 = n div 32 \<and> m mod 32 = n mod 32" by (metis div_mult_mod_eq)
    then show "bit (limbs (q[n div 32 := (q ! (n div 32)) OR push_bit (n mod 32) 1])) m \<longleftrightarrow>
        bit (limbs q OR push_bit n 1) m"
      using j by (cases "m div 32 = n div 32") (auto simp: bit_limbs bit_simps nth_list_update)
  qed
  moreover have "limbs q AND push_bit n 1 = 0"
  proof (rule bit_eqI)
    fix m
    obtain c where "limbs q = 2 ^ Suc n * c" using assms(2) by (elim dvdE)
    then have "limbs q = push_bit (Suc n) c" by (simp add: push_bit_eq_mult)
    then show "bit (limbs q AND push_bit n 1) m \<longleftrightarrow> bit 0 m" by (auto simp: bit_simps bit_0)
  qed
  ultimately show ?thesis by (simp add: disjunctive_add_eq_or push_bit_eq_mult)
qed

lemma div_loop:
  "n \<le> 32 * length q \<Longrightarrow> length num = length q \<Longrightarrow> length dv = length q \<Longrightarrow> 0 < b \<Longrightarrow>
   (n \<noteq> 0 \<longrightarrow> limbs dv = b * 2 ^ (n - 1)) \<Longrightarrow> limbs num < b * 2 ^ n \<Longrightarrow> 2 ^ n dvd limbs q \<Longrightarrow>
   length (div_loop n num dv q) = length q \<and> limbs (div_loop n num dv q) = limbs q + limbs num div b"
proof (induction n arbitrary: num dv q)
  case (Suc n)
  have dv: "limbs dv = b * 2 ^ n" using Suc.prems by simp
  have dv': "n \<noteq> 0 \<longrightarrow> limbs (uint_shr dv 1) = b * 2 ^ (n - 1)"
    unfolding limbs_shr dv by (cases n) simp_all
  have q: "2 ^ n dvd limbs q" using Suc.prems(7) by (rule power_le_dvd) simp
  show ?case
  proof (cases "limbs dv \<le> limbs num")
    case True
    let ?q = "q[n div 32 := (q ! (n div 32)) OR push_bit (n mod 32) 1]"
    let ?num = "uint_sub num dv"
    have num: "limbs ?num = limbs num - b * 2 ^ n" using True Suc.prems dv by (simp add: limbs_sub_le)
    have q': "limbs ?q = limbs q + 2 ^ n" using Suc.prems by (intro limbs_set_bit) simp_all
    have "length (div_loop n ?num (uint_shr dv 1) ?q) = length ?q \<and>
        limbs (div_loop n ?num (uint_shr dv 1) ?q) = limbs ?q + limbs ?num div b"
      using Suc.prems dv' num q' q by (intro Suc.IH) auto
    moreover have "limbs num div b = limbs ?num div b + 2 ^ n"
    proof -
      have "limbs num = limbs ?num + b * 2 ^ n" using num True dv by simp
      then show ?thesis using Suc.prems(4) by simp
    qed
    moreover have "uint_CompareTo num dv \<ge> 0" using True Suc.prems by (simp add: CompareTo_limbs)
    ultimately show ?thesis using q' by simp
  next
    case False
    then have "\<not> uint_CompareTo num dv \<ge> 0" using Suc.prems by (simp add: CompareTo_limbs)
    moreover have "limbs num < b * 2 ^ n" using False dv by simp
    then have "length (div_loop n num (uint_shr dv 1) q) = length q \<and>
        limbs (div_loop n num (uint_shr dv 1) q) = limbs q + limbs num div b"
      using Suc.prems dv' q by (intro Suc.IH) auto
    ultimately show ?thesis by simp
  qed
qed simp

lemma uint_div_zero: "limbs b = 0 \<Longrightarrow> uint_div a b = Inl StdException"
  by (simp add: uint_div_def bits_limbs(4))

lemma limbs_div:
  assumes "length a = length b" "limbs b \<noteq> 0"
  shows "\<exists>q. uint_div a b = Inr q \<and> length q = length a \<and> limbs q = limbs a div limbs b"
proof -
  have nz: "uint_bits b \<noteq> 0" using assms(2) by (simp add: bits_limbs(4))
  show ?thesis
  proof (cases "uint_bits b > uint_bits a")
    case True
    then have "2 ^ uint_bits a \<le> (2 :: nat) ^ (uint_bits b - 1)" by (intro power_increasing) simp_all
    then have "limbs a < limbs b" using bits_limbs(1) [of a] bits_limbs(2) [OF nz] by linarith
    then show ?thesis using True nz by (simp add: uint_div_def)
  next
    case False
    define sh where "sh = uint_bits a - uint_bits b"
    have "limbs b * 2 ^ sh < 2 ^ uint_bits b * 2 ^ sh" using bits_limbs(1) [of b] by simp
    also have "\<dots> = 2 ^ uint_bits a" using False by (simp add: sh_def flip: power_add)
    also have "\<dots> \<le> 2 ^ (32 * length b)" using bits_limbs(3) [of a] assms(1) by (intro power_increasing) simp_all
    finally have dv: "limbs (uint_shl b sh) = limbs b * 2 ^ sh" by (simp add: limbs_shl)
    have "limbs a < 2 ^ uint_bits a" by (rule bits_limbs(1))
    also have "\<dots> = 2 ^ (uint_bits b - 1) * 2 ^ Suc sh"
      using False nz by (simp add: sh_def flip: power_add power_Suc)
    also have "\<dots> \<le> limbs b * 2 ^ Suc sh" using bits_limbs(2) [OF nz] by (rule mult_le_mono1)
    finally have "limbs a < limbs b * 2 ^ Suc sh" .
    moreover have "Suc sh \<le> 32 * length a" using bits_limbs(3) [of a] nz False by (simp add: sh_def)
    ultimately have "length (div_loop (Suc sh) a (uint_shl b sh) (replicate (length a) 0)) = length a \<and>
        limbs (div_loop (Suc sh) a (uint_shl b sh) (replicate (length a) 0)) = limbs a div limbs b"
      using div_loop [of "Suc sh" "replicate (length a) 0" a "uint_shl b sh" "limbs b"] assms dv by simp
    then show ?thesis using False nz by (simp add: uint_div_def Let_def flip: sh_def)
  qed
qed

lemma length_from64 [simp]: "2 \<le> w \<Longrightarrow> length (uint_from64 w b) = w"
  by (simp add: uint_from64_def)

lemma limbs_from64: "limbs (uint_from64 w b) = unat b"
proof -
  have "unat (drop_bit 32 b) < 2 ^ 32"
    using unsigned_less [of b, where 'a = nat] by (simp add: less_mult_imp_div_less)
  then have "unat (ucast (drop_bit 32 b) :: u32) = unat b div 2 ^ 32"
    by (simp add: unsigned_ucast_eq take_bit_eq_mod)
  moreover have "unat (ucast b :: u32) = unat b mod 2 ^ 32"
    by (simp add: unsigned_ucast_eq take_bit_eq_mod)
  ultimately show ?thesis by (simp add: uint_from64_def limbs_append)
qed

lemma unat_GetLow64:
  assumes "2 \<le> length a"
  shows "unat (GetLow64 a) = limbs a mod 2 ^ 64"
proof -
  obtain p q r where a: "a = p # q # r" using assms by (metis One_nat_def Suc_1 Suc_le_length_iff)
  have "ucast p AND push_bit 32 (ucast q) = (0 :: u64)"
    by (rule bit_word_eqI) (auto simp: bit_simps dest: bit_imp_le_length)
  then have "GetLow64 a = ucast p + push_bit 32 (ucast q)"
    by (simp add: GetLow64_def a disjunctive_add_eq_or)
  moreover have "unat (push_bit 32 (ucast q) :: u64) = 2 ^ 32 * unat q"
    using limb_less [of q] by (simp add: push_bit_eq_mult unat_word_ariths)
  moreover have small: "unat p + 2 ^ 32 * unat q < 2 ^ 64"
    using limb_less [of p] limb_less [of q] by simp
  ultimately have "unat (GetLow64 a) = unat p + 2 ^ 32 * unat q"
    by (simp add: unat_word_ariths)
  moreover have "limbs a = (unat p + 2 ^ 32 * unat q) + 2 ^ 64 * limbs r" by (simp add: a)
  ultimately show ?thesis using small by (simp only: mod_mult_self2 mod_less)
qed

lemma is_zero_limbs: "uint_is_zero a \<longleftrightarrow> limbs a = 0"
  by (induction a) (auto simp: uint_is_zero_def unat_eq_0)

lemma length_uint_dec [simp]: "length (uint_dec a) = length a"
  by (induction a) auto

lemma inc_dec: "uint_inc (uint_dec a) = a"
  by (induction a) auto

lemma limbs_dec: "limbs (uint_dec a) = (limbs a + 2 ^ (32 * length a) - 1) mod 2 ^ (32 * length a)"
proof -
  have "limbs a = (limbs (uint_dec a) + 1) mod 2 ^ (32 * length a)"
    using limbs_inc [of "uint_dec a"] by (simp add: inc_dec)
  moreover have "limbs (uint_dec a) < 2 ^ (32 * length a)" using limbs_bound [of "uint_dec a"] by simp
  ultimately show ?thesis by (cases "limbs (uint_dec a) + 1 = 2 ^ (32 * length a)") auto
qed

lemma EqualTo_limbs:
  assumes "2 \<le> length a"
  shows "uint_EqualTo a b \<longleftrightarrow> limbs a = unat b"
proof -
  obtain p q r where a: "a = p # q # r" using assms by (metis One_nat_def Suc_1 Suc_le_length_iff)
  have "(\<exists>i \<in> set [2..<length a]. a ! i \<noteq> 0) \<longleftrightarrow> (\<exists>i < length r. r ! i \<noteq> 0)"
  proof
    assume "\<exists>i \<in> set [2..<length a]. a ! i \<noteq> 0"
    then obtain i where "2 \<le> i" "i < length a" "a ! i \<noteq> 0" by auto
    then show "\<exists>i < length r. r ! i \<noteq> 0" by (intro exI [of _ "i - Suc (Suc 0)"]) (auto simp: a nth_Cons')
  next
    assume "\<exists>i < length r. r ! i \<noteq> 0"
    then obtain i where "i < length r" "r ! i \<noteq> 0" by blast
    then show "\<exists>i \<in> set [2..<length a]. a ! i \<noteq> 0" by (intro bexI [of _ "Suc (Suc i)"]) (auto simp: a)
  qed
  also have "\<dots> \<longleftrightarrow> limbs r \<noteq> 0"
    unfolding is_zero_limbs [symmetric] uint_is_zero_def list_all_length by blast
  finally have high: "(\<exists>i \<in> set [2..<length a]. a ! i \<noteq> 0) \<longleftrightarrow> limbs r \<noteq> 0" .
  have q: "ucast q = drop_bit 32 b \<longleftrightarrow> unat q = unat b div 2 ^ 32"
    by (metis carry_limb unat_limb unsigned_word_eqI)
  have "unat (b AND 0xffffffff) = unat b mod 2 ^ 32"
  proof -
    have "b AND 0xffffffff = take_bit 32 b" by (simp add: take_bit_eq_mask mask_eq_exp_minus_1)
    then show ?thesis by (simp add: take_bit_eq_mod unat_mod)
  qed
  then have p: "ucast p = b AND 0xffffffff \<longleftrightarrow> unat p = unat b mod 2 ^ 32"
    by (metis unat_limb unsigned_word_eqI)
  have limbs: "limbs a = unat p + 2 ^ 32 * unat q + 2 ^ 64 * limbs r" by (simp add: a)
  have b: "unat b = unat b mod 2 ^ 32 + 2 ^ 32 * (unat b div 2 ^ 32)" by simp
  have "limbs a = unat b \<longleftrightarrow> unat p = unat b mod 2 ^ 32 \<and> unat q = unat b div 2 ^ 32 \<and> limbs r = 0"
  proof
    assume eq: "limbs a = unat b"
    then have "limbs a < 2 ^ 64" using unsigned_less [of b, where 'a = nat] by simp
    then have "limbs r = 0" unfolding limbs by (cases "limbs r") simp_all
    with eq limbs have "unat b = unat p + 2 ^ 32 * unat q" by simp
    then show "unat p = unat b mod 2 ^ 32 \<and> unat q = unat b div 2 ^ 32 \<and> limbs r = 0"
      using \<open>limbs r = 0\<close> limb_less [of p] by simp
  qed (simp add: limbs)
  then show ?thesis unfolding uint_EqualTo_def high using p q by (auto simp: a)
qed

section \<open>The operators are arithmetic modulo a power of two\<close>

text \<open>
  C23. The limb loops of the big unsigned integers are correct. For two arrays of the same number of limbs,
  addition, subtraction and multiplication are the operations on the numbers modulo \<^verbatim>\<open>2^BITS\<close>; the shifts
  multiply and divide by a power of two; comparison is the order of the numbers; \<^verbatim>\<open>bits()\<close> is the number of
  significant bits; and the bit-by-bit division returns the quotient, or throws exactly for a zero divisor.
\<close>

theorem base_uint_arithmetic:
  assumes "length a = length b"
  shows "limbs (uint_add a b) = (limbs a + limbs b) mod 2 ^ (32 * length a) \<and>
    limbs (uint_sub a b) = (limbs a + 2 ^ (32 * length a) - limbs b) mod 2 ^ (32 * length a) \<and>
    limbs (uint_mul a b) = (limbs a * limbs b) mod 2 ^ (32 * length a) \<and>
    limbs (uint_mul32 a c) = (limbs a * unat c) mod 2 ^ (32 * length a) \<and>
    limbs (uint_shl a n) = (limbs a * 2 ^ n) mod 2 ^ (32 * length a) \<and>
    limbs (uint_shr a n) = limbs a div 2 ^ n \<and>
    uint_CompareTo a b = sgn (int (limbs a) - int (limbs b)) \<and>
    uint_bits a = (LEAST k. limbs a < 2 ^ k) \<and>
    (if limbs b = 0 then uint_div a b = Inl StdException
     else \<exists>q. uint_div a b = Inr q \<and> length q = length a \<and> limbs q = limbs a div limbs b)"
proof (intro conjI)
  show "uint_CompareTo a b = sgn (int (limbs a) - int (limbs b))"
    using assms by (simp add: CompareTo_limbs)
  show "if limbs b = 0 then uint_div a b = Inl StdException
      else \<exists>q. uint_div a b = Inr q \<and> length q = length a \<and> limbs q = limbs a div limbs b"
    using uint_div_zero limbs_div [OF assms] by simp
  show "uint_bits a = (LEAST k. limbs a < 2 ^ k)"
  proof (rule Least_equality [symmetric])
    fix k
    assume k: "limbs a < 2 ^ k"
    show "uint_bits a \<le> k"
    proof (cases "uint_bits a = 0")
      case False
      then have "2 ^ (uint_bits a - 1) < (2 :: nat) ^ k" using bits_limbs(2) [of a] k by linarith
      then show ?thesis by simp
    qed simp
  qed (rule bits_limbs(1))
qed (simp_all add: assms limbs_add limbs_sub limbs_mul limbs_mul32 limbs_shl limbs_shr)

theorem base_uint_arithmetic_witness:
  "limbs (uint_mul [7, 0, 0, 1] [0, 1, 0, 0]) = 7 * 2 ^ 32 \<and>
   limbs (uint_sub [7, 0, 0, 1] [0, 1, 0, 0]) = 2 ^ 96 + 7 - 2 ^ 32 \<and>
   (\<exists>q. uint_div [7, 0, 0, 1] [0, 1, 0, 0] = Inr q \<and> limbs q = 2 ^ 64)"
proof -
  let ?a = "[7, 0, 0, 1] :: base_uint" and ?b = "[0, 1, 0, 0] :: base_uint"
  have len: "length ?a = length ?b" by simp
  have v: "limbs ?a = 2 ^ 96 + 7" "limbs ?b = 2 ^ 32" by simp_all
  show ?thesis using base_uint_arithmetic [OF len, of 0 0] v by auto
qed

end
