(* ===== verification/Compact.thy ===== *)
theory Compact
  imports ArithUint
begin

text \<open>
  Difficulty targets (\<^verbatim>\<open>arith_uint256::SetCompact\<close>, \<^verbatim>\<open>arith_uint256::GetCompact\<close>, \<^verbatim>\<open>pow.cpp\<close> and the
  proof-of-stake retarget of \<^verbatim>\<open>main.cpp\<close>): the 32-bit floating format of a target, and its laws.
\<close>

definition ArithToUint256 :: "base_uint \<Rightarrow> uint256" where
  "ArithToUint256 a = uint256_of (concat (map (\<lambda>p. le_bytes 4 (unat p)) a))"

definition UintToArith256 :: "uint256 \<Rightarrow> base_uint" where
  "UintToArith256 a = map (\<lambda>x. of_nat (le_value (take 4 (drop (x * 4) (uint256_data a))))) [0..<8]"

definition SetCompact :: "u32 \<Rightarrow> base_uint \<times> bool \<times> bool" where
  "SetCompact nCompact =
     (let nSize = unat (drop_bit 24 nCompact);
          w = nCompact AND 0x007fffff;
          nWord = (if nSize \<le> 3 then drop_bit (8 * (3 - nSize)) w else w);
          v = (if nSize \<le> 3 then uint_from64 8 (ucast nWord)
               else uint_shl (uint_from64 8 (ucast nWord)) (8 * (nSize - 3)))
      in (v, nWord \<noteq> 0 \<and> nCompact AND 0x00800000 \<noteq> 0,
          nWord \<noteq> 0 \<and> (nSize > 34 \<or> nWord > 0xff \<and> nSize > 33 \<or> nWord > 0xffff \<and> nSize > 32)))"

definition GetCompact :: "bool \<Rightarrow> base_uint \<Rightarrow> u32 result" where
  "GetCompact fNegative a =
     (let nSize = (uint_bits a + 7) div 8;
          nCompact = (if nSize \<le> 3 then ucast (push_bit (8 * (3 - nSize)) (GetLow64 a))
                      else ucast (GetLow64 (uint_shr a (8 * (nSize - 3)))));
          (nCompact, nSize) = (if nCompact AND 0x00800000 \<noteq> 0 then (drop_bit 8 nCompact, nSize + 1)
                               else (nCompact, nSize))
      in if nCompact AND NOT 0x007fffff \<noteq> 0 then Inl AssertFailed
         else if \<not> nSize < 256 then Inl AssertFailed
         else let c = nCompact OR push_bit 24 (of_nat nSize)
              in Inr (c OR (if fNegative \<and> c AND 0x007fffff \<noteq> 0 then 0x00800000 else 0)))"

section \<open>Conversion of hashes\<close>

lemma limbs_of_bytes:
  "length bs = 4 * k \<Longrightarrow> limbs (map (\<lambda>x. of_nat (le_value (take 4 (drop (x * 4) bs)))) [0..<k]) = le_value bs"
proof (induction k arbitrary: bs)
  case (Suc k)
  have "le_value (take 4 bs) < 256 ^ 4" using le_value_bound [of "take 4 bs"] Suc.prems by simp
  then have "unat (of_nat (le_value (take 4 bs)) :: u32) = le_value (take 4 bs)" by (simp add: unat_of_nat)
  moreover have "limbs (map (\<lambda>x. of_nat (le_value (take 4 (drop (Suc x * 4) bs)))) [0..<k]) = le_value (drop 4 bs)"
    using Suc.IH [of "drop 4 bs"] Suc.prems by (simp add: add.commute)
  moreover have "le_value bs = le_value (take 4 bs) + 2 ^ 32 * le_value (drop 4 bs)"
    using le_value_append [of "take 4 bs" "drop 4 bs"] Suc.prems by simp
  ultimately show ?case by (simp add: upt_conv_Cons map_Suc_upt [symmetric] o_def del: upt_Suc)
qed simp

lemma length_UintToArith256 [simp]: "length (UintToArith256 h) = 8"
  by (simp add: UintToArith256_def)

lemma limbs_UintToArith256: "limbs (UintToArith256 h) = unat h"
proof -
  have "limbs (UintToArith256 h) = le_value (uint256_data h)"
    unfolding UintToArith256_def by (rule limbs_of_bytes) simp
  moreover have "unat h < 256 ^ 32" using unsigned_less [of h, where 'a = nat] by simp
  ultimately show ?thesis by (simp add: uint256_data_def)
qed

lemma bytes_of_limbs: "le_value (concat (map (\<lambda>p. le_bytes 4 (unat p)) a)) = limbs a"
  by (induction a) (simp_all add: le_value_append limb_less)

lemma ArithToUint256_inverse: "ArithToUint256 (UintToArith256 h) = h"
  by (simp add: ArithToUint256_def uint256_of_def bytes_of_limbs limbs_UintToArith256)

section \<open>Mantissa and exponent\<close>

lemma unat_and_mantissa: "unat (x AND 0x007fffff :: u32) = unat x mod 2 ^ 23"
proof -
  have "x AND 0x007fffff = take_bit 23 x" by (simp add: take_bit_eq_mask mask_eq_exp_minus_1)
  then show ?thesis by (simp add: unat_mod take_bit_eq_mod)
qed

lemma sign_bit: "x AND 0x00800000 \<noteq> 0 \<longleftrightarrow> bit x 23" for x :: u32
proof -
  have "(0x00800000 :: u32) = 2 ^ 23" by simp
  then show ?thesis by (metis and_exp_eq_0_iff_not_bit)
qed

lemma bit_23: "bit x 23 \<longleftrightarrow> 2 ^ 23 \<le> unat x" if "unat x < 2 ^ 24" for x :: u32
proof -
  have "unat x div 2 ^ 23 < 2" using that by (simp add: less_mult_imp_div_less)
  then have "unat x div 2 ^ 23 = (if 2 ^ 23 \<le> unat x then 1 else 0)"
    by (auto simp: div_eq_0_iff less_2_cases_iff)
  moreover have "bit x 23 \<longleftrightarrow> bit (unat x) 23" by (simp add: bit_simps)
  then have "bit x 23 \<longleftrightarrow> odd (unat x div 2 ^ 23)" by (simp only: bit_iff_odd)
  ultimately show ?thesis by simp
qed

lemma unat_drop: "unat (drop_bit k x) = unat x div 2 ^ k" for x :: "'a::len word"
  by (simp add: unsigned_drop_bit_eq drop_bit_eq_div [symmetric] take_bit_drop_bit take_bit_nat_eq_self)

lemma unat_u32_bound: "unat (x :: u32) < 2 ^ 32"
  by (rule limb_bound)

lemma pow_256: "(2 :: nat) ^ (8 * k) = 256 ^ k"
  by (simp add: power_mult)

text \<open>The number that a compact target stands for, and when the flags are raised.\<close>

lemma SetCompact_value:
  assumes "SetCompact c = (v, neg, ovf)"
  shows "length v = 8"
    and "limbs v = (if unat c div 2 ^ 24 \<le> 3 then unat c mod 2 ^ 23 div 256 ^ (3 - unat c div 2 ^ 24)
           else (unat c mod 2 ^ 23 * 256 ^ (unat c div 2 ^ 24 - 3)) mod 2 ^ 256)"
proof -
  have word: "unat (ucast x :: u64) = unat x" for x :: u32 by simp
  have v: "v = (let nSize = unat c div 2 ^ 24; w = c AND 0x007fffff
      in if nSize \<le> 3 then uint_from64 8 (ucast (drop_bit (8 * (3 - nSize)) w))
         else uint_shl (uint_from64 8 (ucast w)) (8 * (nSize - 3)))"
    using assms by (auto simp: SetCompact_def Let_def unat_drop)
  show "length v = 8" by (simp add: v Let_def)
  show "limbs v = (if unat c div 2 ^ 24 \<le> 3 then unat c mod 2 ^ 23 div 256 ^ (3 - unat c div 2 ^ 24)
           else (unat c mod 2 ^ 23 * 256 ^ (unat c div 2 ^ 24 - 3)) mod 2 ^ 256)"
    unfolding v Let_def
    by (simp add: limbs_from64 limbs_shl unat_drop unat_and_mantissa pow_256 del: power_numeral drop_bit_and)
qed

text \<open>The mantissa and the exponent \<^verbatim>\<open>GetCompact\<close> computes for the number \<open>n\<close> of \<open>s\<close> bytes.\<close>

definition compact_mantissa :: "nat \<Rightarrow> nat \<Rightarrow> nat" where
  "compact_mantissa n s = (if s \<le> 3 then n * 256 ^ (3 - s) else n div 256 ^ (s - 3))"

lemma byte_size:
  defines "s a \<equiv> (uint_bits a + 7) div 8"
  shows "limbs a < 256 ^ s a" and "s a \<noteq> 0 \<Longrightarrow> 256 ^ (s a - 1) \<le> limbs a" and "s a \<le> 4 * length a"
proof -
  have "limbs a < 2 ^ uint_bits a" by (rule bits_limbs(1))
  also have "\<dots> \<le> 2 ^ (8 * s a)" by (intro power_increasing) (auto simp: s_def)
  finally show "limbs a < 256 ^ s a" by (simp add: pow_256)
  show "256 ^ (s a - 1) \<le> limbs a" if "s a \<noteq> 0"
  proof -
    have "uint_bits a \<noteq> 0" using that by (auto simp: s_def)
    moreover have "(2 :: nat) ^ (8 * (s a - 1)) \<le> 2 ^ (uint_bits a - 1)"
      by (intro power_increasing) (auto simp: s_def)
    ultimately show ?thesis using bits_limbs(2) [of a] by (simp add: pow_256)
  qed
  show "s a \<le> 4 * length a" using bits_limbs(3) [of a] by (simp add: s_def)
qed

lemma mantissa_bound:
  assumes "n < 256 ^ s"
  shows "compact_mantissa n s < 2 ^ 24"
proof (cases "s \<le> 3")
  case True
  have "n * 256 ^ (3 - s) < 256 ^ s * 256 ^ (3 - s)" using assms by simp
  also have "\<dots> = (2 :: nat) ^ 24" using True by (simp flip: power_add)
  finally show ?thesis using True by (simp add: compact_mantissa_def)
next
  case False
  have "n < 2 ^ 24 * 256 ^ (s - 3)"
  proof -
    have "(256 :: nat) ^ s = 256 ^ 3 * 256 ^ (s - 3)" using False power_add [of "256 :: nat" 3 "s - 3"] by simp
    with assms show ?thesis by simp
  qed
  then show ?thesis using False by (simp add: compact_mantissa_def less_mult_imp_div_less)
qed

lemma compact_word:
  assumes "length a = 8"
  defines "s \<equiv> (uint_bits a + 7) div 8"
  shows "unat (if s \<le> 3 then ucast (push_bit (8 * (3 - s)) (GetLow64 a))
     else ucast (GetLow64 (uint_shr a (8 * (s - 3)))) :: u32) = compact_mantissa (limbs a) s"
proof -
  have bound: "compact_mantissa (limbs a) s < 2 ^ 24" unfolding s_def by (intro mantissa_bound byte_size(1))
  have cast: "unat (ucast (x :: u64) :: u32) = unat x mod 2 ^ 32" for x
    by (simp add: unsigned_ucast_eq take_bit_eq_mod)
  have low: "unat (GetLow64 b) = limbs b mod 2 ^ 64" if "length b = 8" for b
    using that by (simp add: unat_GetLow64)
  show ?thesis
  proof (cases "s \<le> 3")
    case True
    have "unat (push_bit (8 * (3 - s)) (GetLow64 a)) = (limbs a * 256 ^ (3 - s)) mod 2 ^ 64"
      unfolding unsigned_push_bit_eq
      using low [OF assms(1)] by (simp add: push_bit_eq_mult take_bit_eq_mod pow_256 mod_mult_left_eq)
    then show ?thesis using True bound by (simp add: cast compact_mantissa_def)
  next
    case False
    have "unat (GetLow64 (uint_shr a (8 * (s - 3)))) = (limbs a div 256 ^ (s - 3)) mod 2 ^ 64"
      using low [of "uint_shr a (8 * (s - 3))"] assms(1) by (simp add: limbs_shr pow_256)
    then show ?thesis using False bound by (simp add: cast compact_mantissa_def)
  qed
qed

lemma compact_join:
  assumes "unat m < 2 ^ 24" "e < 256"
  shows "unat (m OR push_bit 24 (of_nat e) :: u32) = unat m + 2 ^ 24 * e"
proof -
  have "m AND push_bit 24 (of_nat e) = 0"
  proof (rule bit_word_eqI)
    fix n
    have "\<not> bit m n" if "24 \<le> n"
    proof
      assume "bit m n"
      then have "bit (unat m) n" by (simp add: bit_simps bit_imp_le_length)
      then have "2 ^ n \<le> unat m" by (auto simp: bit_iff_odd not_less [symmetric])
      moreover have "(2 :: nat) ^ 24 \<le> 2 ^ n" using that by (intro power_increasing) simp_all
      ultimately show False using assms(1) by linarith
    qed
    then show "bit (m AND push_bit 24 (of_nat e)) n \<longleftrightarrow> bit 0 n" by (auto simp: bit_simps)
  qed
  then have "m OR push_bit 24 (of_nat e) = m + push_bit 24 (of_nat e)" by (simp add: disjunctive_add_eq_or)
  also have "unat \<dots> = unat m + 2 ^ 24 * e"
  proof -
    have "unat (push_bit 24 (of_nat e) :: u32) = 2 ^ 24 * e"
      using assms(2) by (simp add: push_bit_eq_mult unat_word_ariths unat_of_nat)
    moreover have "unat m + 2 ^ 24 * e < 2 ^ 32" using assms by simp
    ultimately show ?thesis by (simp add: unat_word_ariths)
  qed
  finally show ?thesis .
qed

lemma GetCompact_parts:
  assumes "length a = 8"
  defines "s \<equiv> (uint_bits a + 7) div 8"
  defines "m \<equiv> compact_mantissa (limbs a) s"
  shows "\<exists>c. GetCompact False a = Inr c \<and> unat c =
    (if 2 ^ 23 \<le> m then m div 256 + 2 ^ 24 * (s + 1) else m + 2 ^ 24 * s)"
proof -
  define w :: u32 where "w = (if s \<le> 3 then ucast (push_bit (8 * (3 - s)) (GetLow64 a))
     else ucast (GetLow64 (uint_shr a (8 * (s - 3)))))"
  have w: "unat w = m" unfolding w_def m_def s_def by (rule compact_word [OF assms(1)])
  have m: "m < 2 ^ 24" unfolding m_def s_def by (intro mantissa_bound byte_size(1))
  have s: "s \<le> 32" using byte_size(3) [of a] assms(1) by (simp add: s_def)
  have sign: "w AND 0x00800000 \<noteq> 0 \<longleftrightarrow> 2 ^ 23 \<le> m" using m w by (simp only: sign_bit bit_23)
  define w' e where "w' = (if 2 ^ 23 \<le> m then drop_bit 8 w else w)" and "e = (if 2 ^ 23 \<le> m then s + 1 else s)"
  have w': "unat w' < 2 ^ 23" using m by (auto simp: w'_def unat_drop w)
  then have "w' AND NOT 0x007fffff = 0"
  proof -
    have "unat (w' AND 0x007fffff) = unat w'" using w' by (simp only: unat_and_mantissa mod_less)
    then have "w' AND 0x007fffff = w'" by (rule unsigned_word_eqI)
    then show ?thesis by (metis and.assoc and.right_neutral bit.conj_cancel_right bit.conj_zero_right)
  qed
  then have "GetCompact False a = Inr (w' OR push_bit 24 (of_nat e))"
    using sign s unfolding GetCompact_def s_def [symmetric] Let_def w_def [symmetric]
    by (auto simp: w'_def e_def)
  moreover have "unat (w' OR push_bit 24 (of_nat e)) = unat w' + 2 ^ 24 * e"
    using w' s by (intro compact_join) (auto simp: e_def)
  ultimately show ?thesis by (auto simp: w'_def e_def unat_drop w)
qed

text \<open>
  Decoding what \<^verbatim>\<open>GetCompact\<close> encoded gives the number itself, or the number with the bytes below the
  mantissa cleared.
\<close>

definition compact_decode :: "nat \<Rightarrow> nat \<Rightarrow> nat" where
  "compact_decode e m = (if e \<le> 3 then m div 256 ^ (3 - e) else m * 256 ^ (e - 3))"

definition compact_exponent :: "nat \<Rightarrow> nat \<Rightarrow> nat" where
  "compact_exponent n s = (if 2 ^ 23 \<le> compact_mantissa n s then s + 1 else s)"

definition compact_digits :: "nat \<Rightarrow> nat \<Rightarrow> nat" where
  "compact_digits n s =
     (if 2 ^ 23 \<le> compact_mantissa n s then compact_mantissa n s div 256 else compact_mantissa n s)"

lemma compact_digits_bound: "n < 256 ^ s \<Longrightarrow> compact_digits n s < 2 ^ 23"
  using mantissa_bound [of n s] by (auto simp: compact_digits_def)

lemma decode_small:
  assumes "compact_exponent n s \<le> 3"
  shows "compact_decode (compact_exponent n s) (compact_digits n s) = n"
proof (cases "2 ^ 23 \<le> compact_mantissa n s")
  case True
  then have "s \<le> 2" using assms by (simp add: compact_exponent_def)
  then have "(256 :: nat) ^ (3 - s) = 256 * 256 ^ (2 - s)" by (simp add: numeral_2_eq_2 numeral_3_eq_3 Suc_diff_le)
  then show ?thesis using True \<open>s \<le> 2\<close>
    by (simp add: compact_exponent_def compact_digits_def compact_decode_def compact_mantissa_def numeral_2_eq_2 numeral_3_eq_3)
next
  case False
  then show ?thesis using assms
    by (simp add: compact_exponent_def compact_digits_def compact_decode_def compact_mantissa_def)
qed

lemma decode_large:
  assumes "\<not> compact_exponent n s \<le> 3" "s \<noteq> 0 \<Longrightarrow> 256 ^ (s - 1) \<le> n"
  defines "k \<equiv> 256 ^ (compact_exponent n s - 3)"
  shows "compact_digits n s = n div k" "2 ^ 15 \<le> n div k" "compact_decode (compact_exponent n s) (compact_digits n s) = n div k * k"
proof -
  show d: "compact_digits n s = n div k"
  proof (cases "2 ^ 23 \<le> compact_mantissa n s")
    case True
    then have s: "3 \<le> s" using assms(1) by (simp add: compact_exponent_def)
    have "s + 1 - 3 = Suc (s - 3)" using s by simp
    then have k: "k = 256 ^ (s - 3) * 256"
      using True by (simp only: k_def compact_exponent_def if_True power_Suc2)
    have "compact_mantissa n s = n div 256 ^ (s - 3)" using s by (auto simp: compact_mantissa_def)
    then show ?thesis using True by (simp add: compact_digits_def k div_mult2_eq)
  next
    case False
    then show ?thesis using assms(1)
      by (simp add: compact_digits_def compact_exponent_def compact_mantissa_def k_def)
  qed
  show "2 ^ 15 \<le> n div k"
  proof (cases "2 ^ 23 \<le> compact_mantissa n s")
    case True
    then have "2 ^ 23 div 256 \<le> compact_digits n s" by (simp add: compact_digits_def div_le_mono)
    then show ?thesis using d by simp
  next
    case False
    then have s: "\<not> s \<le> 3" using assms(1) by (simp add: compact_exponent_def)
    then have "s - 1 = s - 3 + 2" by simp
    then have "256 ^ (s - 1) = (256 :: nat) ^ (s - 3) * 256 ^ 2" by (simp only: power_add)
    then have "k * 2 ^ 16 = 256 ^ (s - 1)" using False by (simp add: k_def compact_exponent_def)
    then have "k * 2 ^ 15 \<le> n" using assms(2) s by simp
    then show ?thesis by (simp add: k_def less_eq_div_iff_mult_less_eq mult.commute)
  qed
  show "compact_decode (compact_exponent n s) (compact_digits n s) = n div k * k"
    using assms(1) d by (simp add: compact_decode_def k_def)
qed

lemma compact_error: "n div k * k \<le> n" "2 ^ 15 \<le> n div k \<Longrightarrow> (n - n div k * k) * 2 ^ 15 \<le> n div k * k"
  if "0 < k" for n k :: nat
proof -
  show "n div k * k \<le> n" by (rule div_times_less_eq_dividend)
  assume *: "2 ^ 15 \<le> n div k"
  have "n - n div k * k \<le> k" using that by (simp add: minus_div_mult_eq_mod less_imp_le)
  then have "(n - n div k * k) * 2 ^ 15 \<le> k * (n div k)" using * by (rule mult_le_mono)
  then show "(n - n div k * k) * 2 ^ 15 \<le> n div k * k" by (simp add: mult.commute)
qed

lemma SetCompact_decode:
  assumes c: "unat c = m + 2 ^ 24 * e" and m: "m < 2 ^ 23" and e: "e \<le> 33" "e = 33 \<Longrightarrow> m < 2 ^ 16"
    and small: "compact_decode e m < 2 ^ 256"
  obtains v where "SetCompact c = (v, False, False)" "length v = 8" "limbs v = compact_decode e m"
proof -
  obtain v neg ovf where v: "SetCompact c = (v, neg, ovf)" by (metis prod_cases3)
  have parts: "unat c div 2 ^ 24 = e" "unat c mod 2 ^ 23 = m"
  proof -
    show "unat c div 2 ^ 24 = e" using m by (simp add: c)
    have "unat c = m + 2 ^ 23 * (2 * e)" by (simp add: c)
    then show "unat c mod 2 ^ 23 = m" using m by (simp only: mod_mult_self2 mod_less)
  qed
  have "\<not> bit c 23"
  proof -
    have "unat c div 2 ^ 23 = 2 * e" using m by (simp add: c)
    moreover have "bit c 23 \<longleftrightarrow> bit (unat c) 23" by (simp add: bit_simps)
    ultimately show ?thesis by (simp only: bit_iff_odd) simp
  qed
  then have "\<not> neg" using v sign_bit [of c] by (auto simp: SetCompact_def Let_def)
  moreover have "\<not> ovf"
  proof -
    have "c AND 0x007fffff \<le> 0xffff" if "e > 32"
      using that e unat_and_mantissa [of c] parts(2) by (simp add: word_le_nat_alt)
    then show ?thesis using v e parts
      by (auto simp: SetCompact_def Let_def unat_drop unat_and_mantissa not_less)
  qed
  moreover have "limbs v = compact_decode e m"
    using SetCompact_value(2) [OF v] small unfolding parts compact_decode_def by (auto split: if_splits)
  ultimately show ?thesis using that v SetCompact_value(1) [OF v] by simp
qed

lemma byte_size_unique:
  assumes "limbs a < 256 ^ s" "s \<noteq> 0 \<Longrightarrow> 256 ^ (s - 1) \<le> limbs a"
  shows "(uint_bits a + 7) div 8 = s"
proof -
  let ?t = "(uint_bits a + 7) div 8"
  have pow: "x \<le> y" if "(256 :: nat) ^ (x - 1) \<le> n" "n < 256 ^ y" "x \<noteq> 0" for x y n :: nat
  proof -
    have "(256 :: nat) ^ (x - 1) < 256 ^ y" using that by linarith
    then have "x - 1 < y" by (simp add: power_strict_increasing_iff)
    then show ?thesis by simp
  qed
  have "?t \<le> s" using pow [OF byte_size(2) assms(1)] by fastforce
  moreover have "s \<le> ?t" using pow [OF assms(2) byte_size(1)] by fastforce
  ultimately show ?thesis by simp
qed

lemma GetCompact_digits:
  assumes "length a = 8"
  defines "s \<equiv> (uint_bits a + 7) div 8"
  obtains c where "GetCompact False a = Inr c"
    "unat c = compact_digits (limbs a) s + 2 ^ 24 * compact_exponent (limbs a) s"
proof -
  obtain c where c: "GetCompact False a = Inr c" "unat c =
      (if 2 ^ 23 \<le> compact_mantissa (limbs a) s then compact_mantissa (limbs a) s div 256 + 2 ^ 24 * (s + 1)
       else compact_mantissa (limbs a) s + 2 ^ 24 * s)"
    using GetCompact_parts [OF assms(1)] unfolding s_def by blast
  have "unat c = compact_digits (limbs a) s + 2 ^ 24 * compact_exponent (limbs a) s"
    unfolding c(2) compact_digits_def compact_exponent_def by (rule if_split [THEN iffD2]) simp
  with c(1) show ?thesis by (rule that)
qed

text \<open>A number cleared below its mantissa has the same bytes above it.\<close>

lemma cleared_same:
  assumes n: "n < 256 ^ s" "s \<noteq> 0 \<Longrightarrow> 256 ^ (s - 1) \<le> n" and large: "\<not> compact_exponent n s \<le> 3"
  defines "k \<equiv> 256 ^ (compact_exponent n s - 3)"
  defines "r \<equiv> n div k * k"
  shows "r < 256 ^ s" "256 ^ (s - 1) \<le> r" "compact_exponent r s = compact_exponent n s"
    "compact_digits r s = compact_digits n s"
proof -
  have k: "0 < k" by (simp add: k_def)
  have r: "r \<le> n" by (simp add: r_def div_times_less_eq_dividend)
  then show "r < 256 ^ s" using n(1) by linarith
  have s: "3 \<le> s" using large by (auto simp: compact_exponent_def split: if_splits)
  have dv: "k dvd 256 ^ (s - 1)" unfolding k_def by (rule le_imp_power_dvd) (use s in \<open>auto simp: compact_exponent_def\<close>)
  then obtain j where j: "256 ^ (s - 1) = k * j" by (elim dvdE)
  then have "j \<le> n div k" using n(2) s k by (simp add: less_eq_div_iff_mult_less_eq mult.commute)
  then show "256 ^ (s - 1) \<le> r" unfolding j r_def by (simp add: mult.commute)
  have m: "compact_mantissa x s = x div 256 ^ (s - 3)" for x using s by (auto simp: compact_mantissa_def)
  show e: "compact_exponent r s = compact_exponent n s" and "compact_digits r s = compact_digits n s"
  proof -
    show "compact_exponent r s = compact_exponent n s"
    proof (cases "2 ^ 23 \<le> compact_mantissa n s")
      case True
      have "s + 1 - 3 = Suc (s - 3)" using s by simp
      then have k': "k = 256 ^ (s - 3) * 256"
        using True by (simp only: k_def compact_exponent_def if_True power_Suc2)
      have "compact_mantissa r s = compact_mantissa n s div 256 * 256"
      proof -
        have "r = (n div 256 ^ (s - 3) div 256 * 256) * 256 ^ (s - 3)"
          unfolding r_def k' by (subst div_mult2_eq) (simp only: mult_ac)
        then show ?thesis unfolding m by simp
      qed
      moreover have "2 ^ 23 div 256 * 256 \<le> compact_mantissa n s div 256 * 256"
        using True by (intro mult_le_mono1 div_le_mono)
      ultimately show ?thesis using True by (simp add: compact_exponent_def)
    next
      case False
      then have "k = 256 ^ (s - 3)" by (simp add: k_def compact_exponent_def)
      then have "compact_mantissa r s = compact_mantissa n s" unfolding m r_def by simp
      then show ?thesis by (simp add: compact_exponent_def)
    qed
    moreover have "compact_digits r s = r div k"
      using decode_large(1) [of r s] calculation large \<open>256 ^ (s - 1) \<le> r\<close> by (simp add: k_def)
    ultimately show "compact_digits r s = compact_digits n s"
      using decode_large(1) [OF large n(2)] k by (simp add: k_def [symmetric] r_def)
  qed
qed

section \<open>Round trip and loss\<close>

lemma GetCompact_SetCompact:
  assumes "length a = 8"
  shows "\<exists>c v. GetCompact False a = Inr c \<and> SetCompact c = (v, False, False) \<and> length v = 8 \<and>
    limbs v \<le> limbs a \<and> (limbs a - limbs v) * 2 ^ 15 \<le> limbs v \<and> GetCompact False v = Inr c"
proof -
  let ?n = "limbs a"
  define s where "s = (uint_bits a + 7) div 8"
  define e where "e = compact_exponent ?n s"
  define m where "m = compact_digits ?n s"
  have size: "?n < 256 ^ s" "s \<noteq> 0 \<Longrightarrow> 256 ^ (s - 1) \<le> ?n" "s \<le> 32"
    using byte_size [of a] assms by (simp_all add: s_def)
  obtain c where c: "GetCompact False a = Inr c" "unat c = m + 2 ^ 24 * e"
    using GetCompact_digits [OF assms] unfolding s_def [symmetric] e_def m_def .
  define r where "r = compact_decode e m"
  have r: "r \<le> ?n" "(?n - r) * 2 ^ 15 \<le> r" "r < 256 ^ s" "s \<noteq> 0 \<Longrightarrow> 256 ^ (s - 1) \<le> r"
      "compact_exponent r s = e" "compact_digits r s = m"
  proof -
    consider "e \<le> 3" | "\<not> e \<le> 3" by blast
    then have "r \<le> ?n \<and> (?n - r) * 2 ^ 15 \<le> r \<and> r < 256 ^ s \<and> (s \<noteq> 0 \<longrightarrow> 256 ^ (s - 1) \<le> r) \<and>
        compact_exponent r s = e \<and> compact_digits r s = m"
    proof cases
      case 1
      then have "r = ?n" using decode_small [of ?n s] by (simp add: r_def e_def m_def)
      then show ?thesis using size by (simp add: e_def m_def)
    next
      case 2
      let ?k = "256 ^ (e - 3)"
      have "r = ?n div ?k * ?k" "2 ^ 15 \<le> ?n div ?k"
        using decode_large [of ?n s] 2 size(2) by (simp_all add: r_def e_def m_def)
      then show ?thesis
        using compact_error [of ?k ?n] cleared_same [OF size(1,2)] 2 by (simp add: e_def m_def)
    qed
    then show "r \<le> ?n" "(?n - r) * 2 ^ 15 \<le> r" "r < 256 ^ s" "s \<noteq> 0 \<Longrightarrow> 256 ^ (s - 1) \<le> r"
      "compact_exponent r s = e" "compact_digits r s = m" by simp_all
  qed
  have "m < 2 ^ 16" if "e = 33"
    using that size(3) mantissa_bound [OF size(1)]
    by (auto simp: e_def m_def compact_exponent_def compact_digits_def split: if_splits)
  moreover have "e \<le> 33" using size(3) by (simp add: e_def compact_exponent_def)
  moreover have "compact_decode e m < 2 ^ 256"
    using r(1) limbs_bound [of a] assms by (simp add: r_def)
  ultimately obtain v where v: "SetCompact c = (v, False, False)" "length v = 8" "limbs v = r"
    using SetCompact_decode [OF c(2)] compact_digits_bound [OF size(1)] unfolding r_def m_def by blast
  have "(uint_bits v + 7) div 8 = s" using r(3,4) v(3) by (intro byte_size_unique) simp_all
  then obtain c' where c': "GetCompact False v = Inr c'" "unat c' = m + 2 ^ 24 * e"
    using GetCompact_digits [OF v(2)] r(5,6) v(3) by metis
  have "unat c' = unat c" by (simp only: c(2) c'(2))
  then have "c' = c" by (rule unsigned_word_eqI)
  then show ?thesis using c v r c' by auto
qed

text \<open>
  C24. Compact targets. For every 256-bit number, \<^verbatim>\<open>GetCompact\<close> returns without failing its assertions; reading
  its result with \<^verbatim>\<open>SetCompact\<close> raises neither flag and gives a number that is not larger and less than one part
  in \<^verbatim>\<open>2^15\<close> smaller, and encoding that number again gives the same compact form.
\<close>

theorem compact_roundtrip:
  assumes "length a = 8"
  shows "\<exists>c v. GetCompact False a = Inr c \<and> SetCompact c = (v, False, False) \<and> length v = 8 \<and>
    limbs v \<le> limbs a \<and> (limbs a - limbs v) * 2 ^ 15 \<le> limbs v \<and> GetCompact False v = Inr c"
  by (rule GetCompact_SetCompact [OF assms])

theorem compact_roundtrip_witness:
  "\<exists>c v. GetCompact False (replicate 8 0xffffffff) = Inr c \<and> SetCompact c = (v, False, False) \<and>
     limbs v \<le> 2 ^ 256 \<and> GetCompact False v = Inr c"
proof -
  have "length (replicate 8 0xffffffff :: base_uint) = 8" by simp
  from compact_roundtrip [OF this] obtain c v where
    "GetCompact False (replicate 8 0xffffffff) = Inr c" "SetCompact c = (v, False, False)"
    "length v = 8" "GetCompact False v = Inr c" by blast
  then show ?thesis using limbs_bound [of v] by auto
qed

end
