(* ===== verification/Chain.thy ===== *)
theory Chain
  imports Compact
begin

text \<open>
  The block index (\<^verbatim>\<open>chain.h\<close>, \<^verbatim>\<open>chain.cpp\<close>, \<^verbatim>\<open>AddToBlockIndex\<close> of \<^verbatim>\<open>main.cpp\<close>): a tree of \<^verbatim>\<open>CBlockIndex\<close>
  objects linked by \<^verbatim>\<open>pprev\<close> and by the skip pointers \<^verbatim>\<open>pskip\<close>, and \<^verbatim>\<open>CChain\<close>, the active branch as an
  array indexed by height.

  The objects live in a store, the list of the objects allocated so far, and a pointer is a position of the
  store. A loop that follows \<^verbatim>\<open>pprev\<close> is a partial function: that it returns is a theorem.
\<close>

section \<open>Objects\<close>

type_synonym bptr = nat

record CBlockHeader =
  bh_nVersion :: int
  bh_hashPrevBlock :: uint256
  bh_hashMerkleRoot :: uint256
  bh_nTime :: u32
  bh_nBits :: u32
  bh_nNonce :: u32

record BlockNode =
  bn_hash :: uint256
  bn_pprev :: "bptr option"
  bn_pskip :: "bptr option"
  bn_nHeight :: int
  bn_nChainWork :: base_uint
  bn_nStatus :: u32
  bn_nVersion :: int
  bn_nTime :: u32
  bn_nBits :: u32
  bn_nNonce :: u32
  bn_nFlags :: u32
  bn_nSequenceId :: u32

type_synonym block_store = "BlockNode list"

definition deref :: "block_store \<Rightarrow> bptr option \<Rightarrow> BlockNode result" where
  "deref bs p = (case p of None \<Rightarrow> Inl NullDereference
     | Some q \<Rightarrow> if q < length bs then Inr (bs ! q) else Inl NullDereference)"

definition bn_GetBlockTime :: "BlockNode \<Rightarrow> int" where
  "bn_GetBlockTime b = uint (bn_nTime b)"

abbreviation (input) BLOCK_VALID_TREE :: u32 where "BLOCK_VALID_TREE \<equiv> 2"
abbreviation (input) BLOCK_VALID_MASK :: u32 where "BLOCK_VALID_MASK \<equiv> 7"
abbreviation (input) BLOCK_FAILED_MASK :: u32 where "BLOCK_FAILED_MASK \<equiv> 96"
abbreviation (input) BLOCK_PROOF_OF_STAKE :: u32 where "BLOCK_PROOF_OF_STAKE \<equiv> 1"

definition bn_IsProofOfStake :: "BlockNode \<Rightarrow> bool" where
  "bn_IsProofOfStake b = (bn_nFlags b AND BLOCK_PROOF_OF_STAKE \<noteq> 0)"

definition bn_IsValid :: "u32 \<Rightarrow> BlockNode \<Rightarrow> bool result" where
  "bn_IsValid nUpTo b =
     (if nUpTo AND NOT BLOCK_VALID_MASK \<noteq> 0 then Inl AssertFailed
      else if bn_nStatus b AND BLOCK_FAILED_MASK \<noteq> 0 then Inr False
      else Inr (bn_nStatus b AND BLOCK_VALID_MASK \<ge> nUpTo))"

definition bn_RaiseValidity :: "u32 \<Rightarrow> BlockNode \<Rightarrow> (bool \<times> BlockNode) result" where
  "bn_RaiseValidity nUpTo b =
     (if nUpTo AND NOT BLOCK_VALID_MASK \<noteq> 0 then Inl AssertFailed
      else if bn_nStatus b AND BLOCK_FAILED_MASK \<noteq> 0 then Inr (False, b)
      else if bn_nStatus b AND BLOCK_VALID_MASK < nUpTo
      then Inr (True, b\<lparr>bn_nStatus := (bn_nStatus b AND NOT BLOCK_VALID_MASK) OR nUpTo\<rparr>)
      else Inr (False, b))"

section \<open>Skip pointers\<close>

definition InvertLowestOne :: "int \<Rightarrow> int" where
  "InvertLowestOne n = n AND (n - 1)"

definition GetSkipHeight :: "int \<Rightarrow> int" where
  "GetSkipHeight height =
     (if height < 2 then 0
      else if height AND 1 \<noteq> 0 then InvertLowestOne (InvertLowestOne (height - 1)) + 1
      else InvertLowestOne height)"

lemma and_le_right: "0 \<le> n \<Longrightarrow> m AND n \<le> n" for m n :: int
  by (rule AND_upper2)

lemma InvertLowestOne_bounds: "0 < n \<Longrightarrow> 0 \<le> InvertLowestOne n \<and> InvertLowestOne n < n"
  using and_le_right [of "n - 1" n] by (simp add: InvertLowestOne_def)

lemma InvertLowestOne_le: "0 \<le> n \<Longrightarrow> 0 \<le> InvertLowestOne n \<and> InvertLowestOne n \<le> n"
  using InvertLowestOne_bounds [of n] by (cases "n = 0") (auto simp: InvertLowestOne_def)

lemma GetSkipHeight_bounds:
  assumes "0 < h"
  shows "0 \<le> GetSkipHeight h" "GetSkipHeight h < h"
proof -
  have "0 \<le> GetSkipHeight h \<and> GetSkipHeight h < h"
  proof (cases "h < 2")
    case False
    then have "0 \<le> InvertLowestOne (h - 1) \<and> InvertLowestOne (h - 1) < h - 1"
      by (intro InvertLowestOne_bounds) simp
    moreover from this have "0 \<le> InvertLowestOne (InvertLowestOne (h - 1)) \<and>
        InvertLowestOne (InvertLowestOne (h - 1)) \<le> InvertLowestOne (h - 1)"
      by (intro InvertLowestOne_le) simp
    moreover have "0 \<le> InvertLowestOne h \<and> InvertLowestOne h < h"
      using False by (intro InvertLowestOne_bounds) simp
    ultimately show ?thesis using False by (auto simp: GetSkipHeight_def)
  qed (use assms in \<open>simp add: GetSkipHeight_def\<close>)
  then show "0 \<le> GetSkipHeight h" "GetSkipHeight h < h" by auto
qed

text \<open>
  The walk of \<^verbatim>\<open>GetAncestor\<close>. The height it looks for is not negative: \<^verbatim>\<open>GetAncestor\<close> tests this before.
\<close>

function ancestor_loop :: "block_store \<Rightarrow> int \<Rightarrow> bptr \<Rightarrow> int \<Rightarrow> bptr option result" where
  "ancestor_loop bs height walk heightWalk =
     (if 0 \<le> height \<and> heightWalk > height then
        let heightSkip = GetSkipHeight heightWalk;
            heightSkipPrev = GetSkipHeight (heightWalk - 1)
        in case deref bs (Some walk) of
             Inl e \<Rightarrow> Inl e
           | Inr b \<Rightarrow>
               if bn_pskip b \<noteq> None \<and>
                  (heightSkip = height \<or>
                   (heightSkip > height \<and> \<not> (heightSkipPrev < heightSkip - 2 \<and> heightSkipPrev \<ge> height)))
               then ancestor_loop bs height (the (bn_pskip b)) heightSkip
               else (case bn_pprev b of
                       None \<Rightarrow> Inl AssertFailed
                     | Some q \<Rightarrow> ancestor_loop bs height q (heightWalk - 1))
      else Inr (Some walk))"
  by pat_completeness auto

termination
  by (relation "measure (\<lambda>(bs, height, walk, heightWalk). nat heightWalk)")
    (auto intro: GetSkipHeight_bounds)

declare ancestor_loop.simps [simp del]

definition GetAncestor :: "block_store \<Rightarrow> bptr \<Rightarrow> int \<Rightarrow> bptr option result" where
  "GetAncestor bs p height =
     (case deref bs (Some p) of
        Inl e \<Rightarrow> Inl e
      | Inr b \<Rightarrow>
          if height > bn_nHeight b \<or> height < 0 then Inr None
          else ancestor_loop bs height p (bn_nHeight b))"

text \<open>\<^verbatim>\<open>BuildSkip\<close> of an object that is not in the store yet.\<close>

definition BuildSkip :: "block_store \<Rightarrow> BlockNode \<Rightarrow> BlockNode result" where
  "BuildSkip bs b =
     (case bn_pprev b of
        None \<Rightarrow> Inr b
      | Some q \<Rightarrow> bindR (GetAncestor bs q (GetSkipHeight (bn_nHeight b))) (\<lambda>s. Inr (b\<lparr>bn_pskip := s\<rparr>)))"

definition GetBlockProof :: "u32 \<Rightarrow> base_uint result" where
  "GetBlockProof nBits =
     (let (bnTarget, fNegative, fOverflow) = SetCompact nBits
      in if fNegative \<or> fOverflow \<or> uint_EqualTo bnTarget 0 then Inr (uint_from64 8 0)
         else bindR (uint_div (uint_not bnTarget) (uint_add bnTarget (uint_from64 8 1)))
                (\<lambda>q. Inr (uint_add q (uint_from64 8 1))))"

section \<open>The index\<close>

record BlockIndexState =
  ix_store :: block_store
  ix_map :: "uint256 \<Rightarrow> bptr option"
  ix_best :: "bptr option"

definition ix_empty :: BlockIndexState where
  "ix_empty = \<lparr>ix_store = [], ix_map = (\<lambda>_. None), ix_best = None\<rparr>"

definition BlockNode_of :: "uint256 \<Rightarrow> CBlockHeader \<Rightarrow> BlockNode" where
  "BlockNode_of hash block =
     \<lparr>bn_hash = hash, bn_pprev = None, bn_pskip = None, bn_nHeight = 0, bn_nChainWork = replicate 8 0, bn_nStatus = 0,
      bn_nVersion = bh_nVersion block, bn_nTime = bh_nTime block, bn_nBits = bh_nBits block,
      bn_nNonce = bh_nNonce block, bn_nFlags = 0, bn_nSequenceId = 0\<rparr>"

text \<open>The hash function of block headers is a parameter.\<close>

definition AddToBlockIndex ::
  "(CBlockHeader \<Rightarrow> uint256) \<Rightarrow> CBlockHeader \<Rightarrow> BlockIndexState \<Rightarrow> (bptr \<times> BlockIndexState) result" where
  "AddToBlockIndex GetHash block ix =
     (let hash = GetHash block
      in case ix_map ix hash of
           Some p \<Rightarrow> Inr (p, ix)
         | None \<Rightarrow>
             let new = length (ix_store ix);
                 b0 = BlockNode_of hash block;
                 imap = (ix_map ix)(hash \<mapsto> new)
             in bindR (case imap (bh_hashPrevBlock block) of
                         None \<Rightarrow> Inr b0
                       | Some q \<Rightarrow>
                           bindR (deref (ix_store ix @ [b0]) (Some q)) (\<lambda>prev.
                             BuildSkip (ix_store ix @ [b0\<lparr>bn_pprev := Some q, bn_nHeight := bn_nHeight prev + 1\<rparr>])
                               (b0\<lparr>bn_pprev := Some q, bn_nHeight := bn_nHeight prev + 1\<rparr>)))
                (\<lambda>b1. bindR (GetBlockProof (bn_nBits b1))
                (\<lambda>pf. bindR (case bn_pprev b1 of None \<Rightarrow> Inr (replicate 8 0)
                                | Some q \<Rightarrow> bindR (deref (ix_store ix @ [b1]) (Some q)) (\<lambda>prev. Inr (bn_nChainWork prev)))
                (\<lambda>work.
                   let b2 = b1\<lparr>bn_nChainWork := uint_add work pf\<rparr>
                   in bindR (case ix_best ix of None \<Rightarrow> Inr True
                             | Some q \<Rightarrow> bindR (deref (ix_store ix @ [b2]) (Some q))
                                 (\<lambda>best. Inr (uint_CompareTo (bn_nChainWork best) (bn_nChainWork b2) < 0)))
                   (\<lambda>better. bindR (bn_RaiseValidity BLOCK_VALID_TREE b2)
                   (\<lambda>(_, b3). Inr (new, \<lparr>ix_store = ix_store ix @ [b3], ix_map = imap,
                        ix_best = (if better then Some new else ix_best ix)\<rparr>)))))))"

section \<open>Laws of the tree\<close>

text \<open>The ancestor \<open>n\<close> generations up, found by following \<^verbatim>\<open>pprev\<close>.\<close>

primrec walk :: "block_store \<Rightarrow> nat \<Rightarrow> bptr \<Rightarrow> bptr option" where
  "walk bs 0 p = Some p"
| "walk bs (Suc n) p = (case bn_pprev (bs ! p) of None \<Rightarrow> None | Some q \<Rightarrow> walk bs n q)"

text \<open>
  Heights count the generations, parents are allocated before their children, and a skip pointer leads to the
  ancestor at the skip height.
\<close>

definition node_ok :: "block_store \<Rightarrow> bptr \<Rightarrow> bool" where
  "node_ok bs p =
     (case bn_pprev (bs ! p) of
        None \<Rightarrow> bn_nHeight (bs ! p) = 0 \<and> bn_pskip (bs ! p) = None
      | Some q \<Rightarrow> q < p \<and> bn_nHeight (bs ! p) = bn_nHeight (bs ! q) + 1 \<and>
          bn_pskip (bs ! p) = walk bs (nat (bn_nHeight (bs ! p) - GetSkipHeight (bn_nHeight (bs ! p)))) p)"

definition tree_ok :: "block_store \<Rightarrow> bool" where
  "tree_ok bs = (\<forall>p < length bs. node_ok bs p)"

lemma tree_parent:
  assumes "tree_ok bs" "p < length bs" "bn_pprev (bs ! p) = Some q"
  shows "q < p" "q < length bs" "bn_nHeight (bs ! p) = bn_nHeight (bs ! q) + 1"
    "bn_pskip (bs ! p) = walk bs (nat (bn_nHeight (bs ! p) - GetSkipHeight (bn_nHeight (bs ! p)))) p"
  using assms by (auto simp: tree_ok_def node_ok_def)

lemma tree_root:
  assumes "tree_ok bs" "p < length bs" "bn_pprev (bs ! p) = None"
  shows "bn_nHeight (bs ! p) = 0" "bn_pskip (bs ! p) = None"
  using assms by (auto simp: tree_ok_def node_ok_def)

lemma tree_height: "tree_ok bs \<Longrightarrow> p < length bs \<Longrightarrow> 0 \<le> bn_nHeight (bs ! p)"
proof (induction p rule: less_induct)
  case (less p)
  show ?case
  proof (cases "bn_pprev (bs ! p)")
    case (Some q)
    then show ?thesis using less.IH [of q] tree_parent [OF less.prems Some] less.prems by simp
  qed (use less.prems tree_root in force)
qed

lemma walk_add: "walk bs (m + n) p = (case walk bs m p of None \<Rightarrow> None | Some q \<Rightarrow> walk bs n q)"
  by (induction m arbitrary: p) (auto split: option.split)

lemma walk_total:
  assumes "tree_ok bs" "p < length bs" "int n \<le> bn_nHeight (bs ! p)"
  shows "\<exists>q. walk bs n p = Some q \<and> q \<le> p \<and> bn_nHeight (bs ! q) = bn_nHeight (bs ! p) - int n"
  using assms
proof (induction n arbitrary: p)
  case (Suc n)
  show ?case
  proof (cases "bn_pprev (bs ! p)")
    case None
    then show ?thesis using tree_root(1) [OF Suc.prems(1,2) None] Suc.prems(3) by simp
  next
    case (Some q)
    note q = tree_parent [OF Suc.prems(1,2) Some]
    obtain r where "walk bs n q = Some r" "r \<le> q" "bn_nHeight (bs ! r) = bn_nHeight (bs ! q) - int n"
      using Suc.IH [of q] Suc.prems q by auto
    then show ?thesis using Some q by auto
  qed
qed simp

lemma walk_beyond:
  "tree_ok bs \<Longrightarrow> p < length bs \<Longrightarrow> bn_nHeight (bs ! p) < int n \<Longrightarrow> walk bs n p = None"
proof (induction n arbitrary: p)
  case 0
  then show ?case using tree_height [of bs p] by simp
next
  case (Suc n)
  show ?case
  proof (cases "bn_pprev (bs ! p)")
    case (Some q)
    then show ?thesis using Suc.IH [of q] Suc.prems tree_parent [OF Suc.prems(1,2) Some] by simp
  qed simp
qed

text \<open>The ancestor at a height, and the walk of \<^verbatim>\<open>GetAncestor\<close> that finds it.\<close>

definition ancestor_at :: "block_store \<Rightarrow> bptr \<Rightarrow> int \<Rightarrow> bptr option" where
  "ancestor_at bs p h = (if 0 \<le> h \<and> h \<le> bn_nHeight (bs ! p) then walk bs (nat (bn_nHeight (bs ! p) - h)) p else None)"

lemma ancestor_at_total:
  assumes "tree_ok bs" "p < length bs" "0 \<le> h" "h \<le> bn_nHeight (bs ! p)"
  obtains q where "ancestor_at bs p h = Some q" "q \<le> p" "q < length bs" "bn_nHeight (bs ! q) = h"
proof -
  obtain q where "walk bs (nat (bn_nHeight (bs ! p) - h)) p = Some q" "q \<le> p" "bn_nHeight (bs ! q) = h"
    using walk_total [OF assms(1,2), of "nat (bn_nHeight (bs ! p) - h)"] assms(3,4) by auto
  then show ?thesis using that assms by (simp add: ancestor_at_def)
qed

lemma ancestor_at_SomeD:
  assumes "tree_ok bs" "p < length bs" "ancestor_at bs p h = Some q"
  shows "0 \<le> h" "h \<le> bn_nHeight (bs ! p)" "q \<le> p" "q < length bs" "bn_nHeight (bs ! q) = h"
proof -
  show h: "0 \<le> h" "h \<le> bn_nHeight (bs ! p)" using assms(3) by (auto simp: ancestor_at_def split: if_splits)
  then show "q \<le> p" "q < length bs" "bn_nHeight (bs ! q) = h"
    using ancestor_at_total [OF assms(1,2) h] assms(3) by auto
qed

lemma ancestor_at_self: "tree_ok bs \<Longrightarrow> p < length bs \<Longrightarrow> ancestor_at bs p (bn_nHeight (bs ! p)) = Some p"
  using tree_height [of bs p] by (simp add: ancestor_at_def)

lemma ancestor_at_trans:
  assumes "tree_ok bs" "p < length bs" "ancestor_at bs p h = Some q" "h' \<le> h"
  shows "ancestor_at bs q h' = ancestor_at bs p h'"
proof (cases "0 \<le> h'")
  case True
  note q = ancestor_at_SomeD [OF assms(1-3)]
  have "nat (bn_nHeight (bs ! p) - h') = nat (bn_nHeight (bs ! p) - h) + nat (h - h')"
    using q assms(4) by simp
  then show ?thesis using True q assms(3,4) by (simp add: ancestor_at_def walk_add)
qed (simp add: ancestor_at_def)

lemma ancestor_at_parent:
  assumes "tree_ok bs" "p < length bs" "bn_pprev (bs ! p) = Some q"
  shows "ancestor_at bs p (bn_nHeight (bs ! p) - 1) = Some q"
  using tree_parent [OF assms] tree_height [OF assms(1), of q] assms(3) by (simp add: ancestor_at_def)

lemma ancestor_loop_walk:
  assumes "tree_ok bs" "p < length bs" "bn_nHeight (bs ! p) = hw" "0 \<le> h" "h \<le> hw"
  shows "ancestor_loop (bs @ zs) h p hw = Inr (ancestor_at bs p h)"
  using assms
proof (induction "bs @ zs" h p hw rule: ancestor_loop.induct)
  case (1 h p hw)
  show ?case
  proof (cases "h < hw")
    case False
    then show ?thesis using "1.prems" ancestor_at_self [of bs p] by (subst ancestor_loop.simps) simp
  next
    case True
    have d: "deref (bs @ zs) (Some p) = Inr (bs ! p)" using "1.prems" by (simp add: deref_def nth_append)
    have pos: "0 < hw" using True "1.prems" by simp
    note skip = GetSkipHeight_bounds [OF pos]
    let ?follow = "bn_pskip (bs ! p) \<noteq> None \<and> (GetSkipHeight hw = h \<or> GetSkipHeight hw > h \<and>
        \<not> (GetSkipHeight (hw - 1) < GetSkipHeight hw - 2 \<and> GetSkipHeight (hw - 1) \<ge> h))"
    obtain q where q: "bn_pprev (bs ! p) = Some q"
      using tree_root(1) [OF "1.prems"(1,2)] pos "1.prems"(3) by (cases "bn_pprev (bs ! p)") auto
    note par = tree_parent [OF "1.prems"(1,2) q]
    show ?thesis
    proof (cases ?follow)
      case follow: True
      then obtain r where r: "bn_pskip (bs ! p) = Some r" by blast
      then have anc: "ancestor_at bs p (GetSkipHeight hw) = Some r"
        using par(4) skip "1.prems"(3) by (simp add: ancestor_at_def)
      note rr = ancestor_at_SomeD [OF "1.prems"(1,2) anc]
      have "ancestor_loop (bs @ zs) h r (GetSkipHeight hw) = Inr (ancestor_at bs r h)"
        using "1.hyps"(1) [OF _ refl refl d follow] True "1.prems" rr follow r by auto
      moreover have "ancestor_at bs r h = ancestor_at bs p h"
        using follow by (intro ancestor_at_trans [OF "1.prems"(1,2) anc]) auto
      moreover have "ancestor_loop (bs @ zs) h p hw = ancestor_loop (bs @ zs) h r (GetSkipHeight hw)"
        using True follow r d "1.prems"(4) by (subst ancestor_loop.simps) (simp add: Let_def)
      ultimately show ?thesis by simp
    next
      case nofollow: False
      have "ancestor_loop (bs @ zs) h q (hw - 1) = Inr (ancestor_at bs q h)"
        using "1.hyps"(2) [OF _ refl refl d nofollow q] True "1.prems" par by auto
      moreover have "ancestor_at bs q h = ancestor_at bs p h"
        using ancestor_at_parent [OF "1.prems"(1,2) q] "1.prems"(3) True
        by (intro ancestor_at_trans [OF "1.prems"(1,2)]) auto
      moreover have "ancestor_loop (bs @ zs) h p hw = ancestor_loop (bs @ zs) h q (hw - 1)"
        using True nofollow q d "1.prems"(4) by (subst ancestor_loop.simps) (auto simp: Let_def)
      ultimately show ?thesis by simp
    qed
  qed
qed

lemma GetAncestor_append:
  "tree_ok bs \<Longrightarrow> p < length bs \<Longrightarrow> GetAncestor (bs @ zs) p h = Inr (ancestor_at bs p h)"
  by (auto simp: GetAncestor_def deref_def nth_append ancestor_loop_walk) (auto simp: ancestor_at_def)

lemma GetAncestor_eq: "tree_ok bs \<Longrightarrow> p < length bs \<Longrightarrow> GetAncestor bs p h = Inr (ancestor_at bs p h)"
  using GetAncestor_append [of bs p "[]"] by simp

lemma walk_append: "tree_ok bs \<Longrightarrow> p < length bs \<Longrightarrow> walk (bs @ zs) n p = walk bs n p"
proof (induction n arbitrary: p)
  case (Suc n)
  then show ?case using tree_parent(2) [of bs p] by (auto simp: nth_append split: option.split)
qed simp

lemma node_ok_append: "tree_ok bs \<Longrightarrow> p < length bs \<Longrightarrow> node_ok (bs @ zs) p \<longleftrightarrow> node_ok bs p"
  using tree_parent(2) [of bs p]
  by (auto simp: node_ok_def nth_append walk_append split: option.split)

lemma tree_ok_snoc: "tree_ok bs \<Longrightarrow> node_ok (bs @ [b]) (length bs) \<Longrightarrow> tree_ok (bs @ [b])"
  by (auto simp: tree_ok_def [of "bs @ [b]"] less_Suc_eq node_ok_append) (auto simp: tree_ok_def)

section \<open>Proof of a block\<close>

lemma SetCompact_not_max:
  assumes "SetCompact c = (v, neg, ovf)"
  shows "limbs v + 1 < 2 ^ 256"
proof (cases "unat c div 2 ^ 24 \<le> 3")
  case True
  then have "limbs v \<le> unat c mod 2 ^ 23" using SetCompact_value(2) [OF assms] by simp
  also have "\<dots> < 2 ^ 23" by simp
  finally show ?thesis by (simp add: less_imp_le)
next
  case False
  obtain k where k: "unat c div 2 ^ 24 - 3 = Suc k" using False by (metis Suc_diff_Suc not_le)
  have "limbs v = (unat c mod 2 ^ 23 * 256 ^ Suc k) mod 2 ^ 256"
    using SetCompact_value(2) [OF assms] False k by simp
  then have "even (limbs v)" by (simp add: dvd_mod_iff dvd_mod)
  moreover have "limbs v < 2 ^ 256" using limbs_bound [of v] SetCompact_value(1) [OF assms] by simp
  moreover have "odd (2 ^ 256 - 1 :: nat)" by simp
  ultimately have "limbs v \<noteq> 2 ^ 256 - 1" by metis
  with \<open>limbs v < 2 ^ 256\<close> show ?thesis by linarith
qed

lemma GetBlockProof_value:
  assumes "SetCompact c = (v, neg, ovf)"
  obtains w where "GetBlockProof c = Inr w" "length w = 8"
    "limbs w = (if neg \<or> ovf \<or> limbs v = 0 then 0 else 2 ^ 256 div (limbs v + 1))"
proof (cases "neg \<or> ovf \<or> limbs v = 0")
  case True
  then show ?thesis using that [of "uint_from64 8 0"] assms SetCompact_value(1) [OF assms]
    by (auto simp: GetBlockProof_def EqualTo_limbs limbs_from64)
next
  case False
  let ?t = "limbs v"
  have len: "length v = 8" by (rule SetCompact_value(1) [OF assms])
  have succ: "limbs (uint_add v (uint_from64 8 1)) = ?t + 1"
    using SetCompact_not_max [OF assms] len by (simp add: limbs_add limbs_from64)
  obtain q where q: "uint_div (uint_not v) (uint_add v (uint_from64 8 1)) = Inr q" "length q = 8"
      "limbs q = (2 ^ 256 - 1 - ?t) div (?t + 1)"
    using limbs_div [of "uint_not v" "uint_add v (uint_from64 8 1)"] len succ by (auto simp: limbs_not)
  have "(2 ^ 256 - 1 - ?t) + (?t + 1) = 2 ^ 256" using SetCompact_not_max [OF assms] by simp
  then have "2 ^ 256 div (?t + 1) = (2 ^ 256 - 1 - ?t) div (?t + 1) + 1"
    by (metis add_gr_0 div_add_self2 less_numeral_extra(1) less_numeral_extra(3))
  moreover have "2 ^ 256 div (?t + 1) < 2 ^ 256" using False by (intro div_less_dividend) simp_all
  ultimately have "limbs (uint_add q (uint_from64 8 1)) = 2 ^ 256 div (?t + 1)"
    using q by (simp add: limbs_add limbs_from64)
  then show ?thesis
    using that [of "uint_add q (uint_from64 8 1)"] False assms q len
    by (simp add: GetBlockProof_def EqualTo_limbs)
qed

section \<open>Invariant of the index\<close>

text \<open>
  The store is a tree, the map finds every object under its hash, the chain work has the width of the
  arithmetic, and the best header is an object of maximal work.
\<close>

definition index_ok :: "BlockIndexState \<Rightarrow> bool" where
  "index_ok ix =
     (tree_ok (ix_store ix) \<and>
      (\<forall>h p. ix_map ix h = Some p \<longleftrightarrow> p < length (ix_store ix) \<and> bn_hash (ix_store ix ! p) = h) \<and>
      (\<forall>b \<in> set (ix_store ix). length (bn_nChainWork b) = 8) \<and>
      (case ix_best ix of None \<Rightarrow> ix_store ix = []
       | Some p \<Rightarrow> p < length (ix_store ix) \<and>
           (\<forall>b \<in> set (ix_store ix). limbs (bn_nChainWork b) \<le> limbs (bn_nChainWork (ix_store ix ! p)))))"

lemma index_ok_empty: "index_ok ix_empty"
  by (simp add: index_ok_def ix_empty_def tree_ok_def)

text \<open>The object \<^verbatim>\<open>AddToBlockIndex\<close> allocates for a new hash.\<close>

lemma new_node:
  assumes ix: "index_ok ix" and new: "ix_map ix (GetHash block) = None"
    and prev: "bh_hashPrevBlock block \<noteq> GetHash block"
  obtains b where "AddToBlockIndex GetHash block ix = Inr (length (ix_store ix),
      \<lparr>ix_store = ix_store ix @ [b], ix_map = (ix_map ix)(GetHash block \<mapsto> length (ix_store ix)),
       ix_best = (if (case ix_best ix of None \<Rightarrow> True
           | Some q \<Rightarrow> limbs (bn_nChainWork (ix_store ix ! q)) < limbs (bn_nChainWork b))
         then Some (length (ix_store ix)) else ix_best ix)\<rparr>)"
    "node_ok (ix_store ix @ [b]) (length (ix_store ix))" "bn_hash b = GetHash block"
    "length (bn_nChainWork b) = 8" "bn_pprev b = ix_map ix (bh_hashPrevBlock block)"
    "bn_nVersion b = bh_nVersion block" "bn_nTime b = bh_nTime block" "bn_nBits b = bh_nBits block"
    "bn_nNonce b = bh_nNonce block"
proof -
  let ?bs = "ix_store ix" and ?n = "length (ix_store ix)" and ?h = "GetHash block"
  let ?b0 = "BlockNode_of ?h block"
  have tree: "tree_ok ?bs" and map: "\<And>h p. ix_map ix h = Some p \<Longrightarrow> p < ?n"
    and work: "\<And>q. q < ?n \<Longrightarrow> length (bn_nChainWork (?bs ! q)) = 8"
    using ix by (auto simp: index_ok_def)
  obtain v neg ovf where sc: "SetCompact (bh_nBits block) = (v, neg, ovf)" by (metis prod_cases3)
  obtain pf where pf: "GetBlockProof (bh_nBits block) = Inr pf" "length pf = 8"
    using GetBlockProof_value [OF sc] by blast
  define q where "q = ix_map ix (bh_hashPrevBlock block)"
  define b1 where "b1 = (case q of None \<Rightarrow> ?b0
     | Some q \<Rightarrow> ?b0\<lparr>bn_pprev := Some q, bn_nHeight := bn_nHeight (?bs ! q) + 1,
         bn_pskip := ancestor_at ?bs q (GetSkipHeight (bn_nHeight (?bs ! q) + 1))\<rparr>)"
  define w where "w = (case q of None \<Rightarrow> replicate 8 0 | Some q \<Rightarrow> bn_nChainWork (?bs ! q))"
  define b where "b = b1\<lparr>bn_nChainWork := uint_add w pf, bn_nStatus := 2\<rparr>"
  have qn: "q = Some k \<Longrightarrow> k < ?n" for k using map by (auto simp: q_def)
  have lw: "length w = 8" using qn work by (auto simp: w_def split: option.split)
  have best: "k < ?n" if "ix_best ix = Some k" for k using ix that by (simp add: index_ok_def)
  have "AddToBlockIndex GetHash block ix = Inr (?n,
      \<lparr>ix_store = ?bs @ [b], ix_map = (ix_map ix)(?h \<mapsto> ?n),
       ix_best = (if (case ix_best ix of None \<Rightarrow> True
           | Some k \<Rightarrow> limbs (bn_nChainWork (?bs ! k)) < limbs (bn_nChainWork b))
         then Some ?n else ix_best ix)\<rparr>)"
    using new prev pf lw qn best work
    unfolding AddToBlockIndex_def
    by (auto simp: Let_def BuildSkip_def deref_def nth_append GetAncestor_append [OF tree] bn_RaiseValidity_def
        CompareTo_limbs q_def [symmetric] b_def b1_def w_def BlockNode_of_def split: option.split)
  moreover have "node_ok (?bs @ [b]) ?n"
  proof (cases q)
    case (Some k)
    let ?hk = "bn_nHeight (?bs ! k)"
    have k: "k < ?n" using Some qn by simp
    have "0 \<le> ?hk" using tree_height [OF tree k] .
    then have skip: "0 \<le> GetSkipHeight (?hk + 1)" "GetSkipHeight (?hk + 1) \<le> ?hk"
      using GetSkipHeight_bounds [of "?hk + 1"] by simp_all
    then have "nat (?hk + 1 - GetSkipHeight (?hk + 1)) = Suc (nat (?hk - GetSkipHeight (?hk + 1)))" by simp
    then show ?thesis using Some k skip
      by (simp add: node_ok_def b_def b1_def nth_append walk_append [OF tree] ancestor_at_def)
  qed (simp add: node_ok_def b_def b1_def BlockNode_of_def)
  ultimately show ?thesis using that [of b] lw pf
    by (auto simp: b_def b1_def BlockNode_of_def q_def split: option.split)
qed

lemma AddToBlockIndex_ok:
  assumes "index_ok ix" "bh_hashPrevBlock block \<noteq> GetHash block"
  obtains p ix' where "AddToBlockIndex GetHash block ix = Inr (p, ix')" "index_ok ix'"
    "ix_map ix' (GetHash block) = Some p" "\<exists>zs. ix_store ix' = ix_store ix @ zs"
proof (cases "ix_map ix (GetHash block)")
  case (Some p)
  then show ?thesis using that [of p ix] assms(1) by (simp add: AddToBlockIndex_def)
next
  case None
  obtain b where b: "AddToBlockIndex GetHash block ix = Inr (length (ix_store ix),
      \<lparr>ix_store = ix_store ix @ [b], ix_map = (ix_map ix)(GetHash block \<mapsto> length (ix_store ix)),
       ix_best = (if (case ix_best ix of None \<Rightarrow> True
           | Some q \<Rightarrow> limbs (bn_nChainWork (ix_store ix ! q)) < limbs (bn_nChainWork b))
         then Some (length (ix_store ix)) else ix_best ix)\<rparr>)"
    "node_ok (ix_store ix @ [b]) (length (ix_store ix))" "bn_hash b = GetHash block" "length (bn_nChainWork b) = 8"
    using new_node [where GetHash = GetHash and block = block, OF assms(1) None assms(2)] by metis
  have tree: "tree_ok (ix_store ix @ [b])" using assms(1) b(2) by (intro tree_ok_snoc) (simp_all add: index_ok_def)
  let ?better = "case ix_best ix of None \<Rightarrow> True
    | Some q \<Rightarrow> limbs (bn_nChainWork (ix_store ix ! q)) < limbs (bn_nChainWork b)"
  have best: "p < length (ix_store ix @ [b]) \<and>
      (\<forall>x \<in> set (ix_store ix @ [b]). limbs (bn_nChainWork x) \<le> limbs (bn_nChainWork ((ix_store ix @ [b]) ! p)))"
    if "(if ?better then Some (length (ix_store ix)) else ix_best ix) = Some p" for p
  proof (cases "ix_best ix")
    case None
    then show ?thesis using that assms(1) by (auto simp: index_ok_def)
  next
    case (Some q)
    then have "q < length (ix_store ix)" "\<forall>x \<in> set (ix_store ix). limbs (bn_nChainWork x) \<le> limbs (bn_nChainWork (ix_store ix ! q))"
      using assms(1) by (auto simp: index_ok_def)
    then show ?thesis using that Some by (fastforce simp: nth_append split: if_splits)
  qed
  have "(if ?better then Some (length (ix_store ix)) else ix_best ix) \<noteq> None" by (auto split: option.split)
  then obtain p where p: "(if ?better then Some (length (ix_store ix)) else ix_best ix) = Some p" by blast
  have found: "((ix_map ix)(GetHash block \<mapsto> length (ix_store ix))) h = Some q \<longleftrightarrow>
      q < length (ix_store ix @ [b]) \<and> bn_hash ((ix_store ix @ [b]) ! q) = h" for h q
  proof -
    have old: "ix_map ix h = Some q \<longleftrightarrow> q < length (ix_store ix) \<and> bn_hash (ix_store ix ! q) = h"
      using assms(1) by (simp add: index_ok_def)
    show ?thesis
      using old None b(3) by (cases "q = length (ix_store ix)") (auto simp: nth_append less_Suc_eq)
  qed
  have work: "\<forall>x \<in> set (ix_store ix @ [b]). length (bn_nChainWork x) = 8"
    using assms(1) b(4) by (auto simp: index_ok_def)
  show ?thesis
  proof (rule that [OF b(1)])
    show "index_ok \<lparr>ix_store = ix_store ix @ [b], ix_map = (ix_map ix)(GetHash block \<mapsto> length (ix_store ix)),
        ix_best = (if ?better then Some (length (ix_store ix)) else ix_best ix)\<rparr>"
      unfolding index_ok_def p BlockIndexState.simps option.case using tree best [OF p] found work by blast
  qed simp_all
qed

text \<open>A sequence of headers.\<close>

definition AddHeaders :: "(CBlockHeader \<Rightarrow> uint256) \<Rightarrow> CBlockHeader list \<Rightarrow> BlockIndexState result" where
  "AddHeaders GetHash blocks =
     foldR (\<lambda>block ix. bindR (AddToBlockIndex GetHash block ix) (\<lambda>(_, ix'). Inr ix')) blocks ix_empty"

lemma AddHeaders_ok:
  assumes "\<And>block. block \<in> set blocks \<Longrightarrow> bh_hashPrevBlock block \<noteq> GetHash block"
  obtains ix where "AddHeaders GetHash blocks = Inr ix" "index_ok ix"
proof -
  have "\<exists>ix. AddHeaders GetHash blocks = Inr ix \<and> index_ok ix"
    unfolding AddHeaders_def
  proof (rule foldR_total)
    fix block ix
    assume "block \<in> set blocks" "index_ok ix"
    then obtain p ix' where "AddToBlockIndex GetHash block ix = Inr (p, ix')" "index_ok ix'"
      using AddToBlockIndex_ok [of ix block GetHash] assms by metis
    then show "\<exists>t. bindR (AddToBlockIndex GetHash block ix) (\<lambda>(_, ix'). Inr ix') = Inr t \<and> index_ok t" by simp
  qed (rule index_ok_empty)
  then show ?thesis using that by blast
qed

section \<open>Ancestors in an index built from headers\<close>

text \<open>
  C25. In an index built by adding headers in any order, \<^verbatim>\<open>GetAncestor\<close> with its skip pointers returns, for
  every height, exactly the block that following \<^verbatim>\<open>pprev\<close> one generation at a time reaches; it never fails its
  assertion, and for a height on the branch the block it returns has that height. The hash function is
  arbitrary, except that no header contains its own hash.
\<close>

theorem GetAncestor_follows_pprev:
  assumes "\<forall>block \<in> set blocks. bh_hashPrevBlock block \<noteq> GetHash block"
    and "AddHeaders GetHash blocks = Inr ix" and "p < length (ix_store ix)"
  shows "if 0 \<le> h \<and> h \<le> bn_nHeight (ix_store ix ! p)
    then \<exists>q < length (ix_store ix). GetAncestor (ix_store ix) p h = Inr (Some q) \<and> bn_nHeight (ix_store ix ! q) = h \<and>
      walk (ix_store ix) (nat (bn_nHeight (ix_store ix ! p) - h)) p = Some q
    else GetAncestor (ix_store ix) p h = Inr None"
proof -
  have "index_ok ix" using AddHeaders_ok [of blocks GetHash] assms(1,2) by auto
  then have tree: "tree_ok (ix_store ix)" by (simp add: index_ok_def)
  show ?thesis
  proof (cases "0 \<le> h \<and> h \<le> bn_nHeight (ix_store ix ! p)")
    case True
    then obtain q where "ancestor_at (ix_store ix) p h = Some q" "q < length (ix_store ix)"
        "bn_nHeight (ix_store ix ! q) = h"
      using ancestor_at_total [OF tree assms(3)] by metis
    then show ?thesis using True GetAncestor_eq [OF tree assms(3)] by (auto simp: ancestor_at_def)
  next
    case False
    then show ?thesis using GetAncestor_eq [OF tree assms(3)] by (auto simp: ancestor_at_def)
  qed
qed

text \<open>
  C26. The index is well formed whatever headers arrive: adding them never fails, parents precede their children and
  are one lower, the map finds each block under its hash, and \<^verbatim>\<open>pindexBestHeader\<close> is a block of maximal chain work.
\<close>

theorem AddHeaders_invariant:
  assumes "\<forall>block \<in> set blocks. bh_hashPrevBlock block \<noteq> GetHash block"
  shows "\<exists>ix. AddHeaders GetHash blocks = Inr ix \<and> index_ok ix"
  using AddHeaders_ok [of blocks GetHash] assms by metis

text \<open>Four headers: a chain of three blocks and a fork at the genesis block.\<close>

definition sample_hash :: "CBlockHeader \<Rightarrow> uint256" where
  "sample_hash block = word_of_int (bh_nVersion block)"

definition sample_header :: "int \<Rightarrow> uint256 \<Rightarrow> CBlockHeader" where
  "sample_header v prev = \<lparr>bh_nVersion = v, bh_hashPrevBlock = prev, bh_hashMerkleRoot = 0, bh_nTime = 0,
     bh_nBits = 0, bh_nNonce = 0\<rparr>"

definition sample_headers :: "CBlockHeader list" where
  "sample_headers = [sample_header 1 0, sample_header 2 1, sample_header 3 2, sample_header 4 1]"

lemma sample_headers_distinct: "\<forall>block \<in> set sample_headers. bh_hashPrevBlock block \<noteq> sample_hash block"
  by (simp add: sample_headers_def sample_hash_def sample_header_def)

lemma sample_index:
  "map_sum id (\<lambda>ix. map (\<lambda>b. (bn_pprev b, bn_nHeight b)) (ix_store ix)) (AddHeaders sample_hash sample_headers) =
   Inr [(None, 0), (Some 0, 1), (Some 1, 2), (Some 0, 1)]"
  by code_simp

lemma sample_index_nodes:
  assumes "AddHeaders sample_hash sample_headers = Inr ix"
  shows "length (ix_store ix) = 4" "bn_nHeight (ix_store ix ! 2) = 2"
proof -
  have eq: "map (\<lambda>b. (bn_pprev b, bn_nHeight b)) (ix_store ix) = [(None, 0), (Some 0, 1), (Some 1, 2), (Some 0, 1)]"
    using sample_index assms by simp
  show len: "length (ix_store ix) = 4" using arg_cong [OF eq, of length] by simp
  have "map (\<lambda>b. (bn_pprev b, bn_nHeight b)) (ix_store ix) ! 2 = (Some 1, 2)" unfolding eq by simp
  then show "bn_nHeight (ix_store ix ! 2) = 2" using len by simp
qed

theorem GetAncestor_follows_pprev_witness:
  "\<exists>ix q. AddHeaders sample_hash sample_headers = Inr ix \<and> GetAncestor (ix_store ix) 2 0 = Inr (Some q) \<and>
     walk (ix_store ix) 2 2 = Some q \<and> bn_nHeight (ix_store ix ! q) = 0"
proof -
  obtain ix where ix: "AddHeaders sample_hash sample_headers = Inr ix"
    using AddHeaders_ok sample_headers_distinct by metis
  have "2 < length (ix_store ix)" using sample_index_nodes [OF ix] by simp
  from GetAncestor_follows_pprev [OF sample_headers_distinct ix this, of 0] show ?thesis
    using ix sample_index_nodes [OF ix] by (auto simp: eval_nat_numeral)
qed

theorem AddHeaders_invariant_witness:
  "\<exists>ix. AddHeaders sample_hash sample_headers = Inr ix \<and> index_ok ix \<and> length (ix_store ix) = 4"
  using AddHeaders_invariant [OF sample_headers_distinct] sample_index_nodes by blast

end
