(* ===== verification/ActiveChain.thy ===== *)
theory ActiveChain
  imports Chain
begin

text \<open>
  \<^verbatim>\<open>CChain\<close> (\<^verbatim>\<open>chain.h\<close>, \<^verbatim>\<open>chain.cpp\<close>): the active branch of the block tree as an array indexed by height,
  moved to a new tip, searched for the fork with another branch, and summarised as a locator.
\<close>

section \<open>Operations\<close>

type_synonym CChain = "bptr option list"

definition CChain_Genesis :: "CChain \<Rightarrow> bptr option" where
  "CChain_Genesis c = (if length c > 0 then c ! 0 else None)"

definition CChain_Tip :: "CChain \<Rightarrow> bptr option" where
  "CChain_Tip c = (if length c > 0 then c ! (length c - 1) else None)"

definition CChain_at :: "CChain \<Rightarrow> int \<Rightarrow> bptr option" where
  "CChain_at c nHeight = (if nHeight < 0 \<or> nHeight \<ge> int (length c) then None else c ! nat nHeight)"

definition CChain_Height :: "CChain \<Rightarrow> int" where
  "CChain_Height c = int (length c) - 1"

definition CChain_Contains :: "block_store \<Rightarrow> CChain \<Rightarrow> bptr \<Rightarrow> bool result" where
  "CChain_Contains bs c p = bindR (deref bs (Some p)) (\<lambda>b. Inr (CChain_at c (bn_nHeight b) = Some p))"

definition CChain_Next :: "block_store \<Rightarrow> CChain \<Rightarrow> bptr \<Rightarrow> bptr option result" where
  "CChain_Next bs c p =
     bindR (deref bs (Some p)) (\<lambda>b. bindR (CChain_Contains bs c p) (\<lambda>contains.
       Inr (if contains then CChain_at c (bn_nHeight b + 1) else None)))"

text \<open>
  The loop of \<^verbatim>\<open>SetTip\<close>. The subscript \<^verbatim>\<open>vChain[nHeight]\<close> is unchecked in the source; a subscript outside the
  array is the result \<open>NullDereference\<close> here.
\<close>

partial_function (option) set_tip_loop :: "block_store \<Rightarrow> bptr option \<Rightarrow> CChain \<Rightarrow> CChain result option" where
  "set_tip_loop bs pindex c =
     (case pindex of
        None \<Rightarrow> Some (Inr c)
      | Some p \<Rightarrow>
          (case deref bs (Some p) of
             Inl e \<Rightarrow> Some (Inl e)
           | Inr b \<Rightarrow>
               if bn_nHeight b < 0 \<or> bn_nHeight b \<ge> int (length c) then Some (Inl NullDereference)
               else if c ! nat (bn_nHeight b) \<noteq> Some p
               then set_tip_loop bs (bn_pprev b) (c[nat (bn_nHeight b) := Some p])
               else Some (Inr c)))"

definition resize :: "nat \<Rightarrow> 'a \<Rightarrow> 'a list \<Rightarrow> 'a list" where
  "resize n x xs = take n xs @ replicate (n - length xs) x"

definition CChain_SetTip :: "block_store \<Rightarrow> bptr option \<Rightarrow> CChain \<Rightarrow> CChain result option" where
  "CChain_SetTip bs pindex c =
     (case pindex of
        None \<Rightarrow> Some (Inr [])
      | Some p \<Rightarrow>
          (case deref bs (Some p) of
             Inl e \<Rightarrow> Some (Inl e)
           | Inr b \<Rightarrow> set_tip_loop bs pindex (resize (nat (bn_nHeight b + 1)) None c)))"

partial_function (option) find_fork_loop :: "block_store \<Rightarrow> CChain \<Rightarrow> bptr option \<Rightarrow> bptr option result option" where
  "find_fork_loop bs c pindex =
     (case pindex of
        None \<Rightarrow> Some (Inr None)
      | Some p \<Rightarrow>
          (case CChain_Contains bs c p of
             Inl e \<Rightarrow> Some (Inl e)
           | Inr contains \<Rightarrow>
               if contains then Some (Inr (Some p))
               else (case deref bs (Some p) of
                       Inl e \<Rightarrow> Some (Inl e)
                     | Inr b \<Rightarrow> find_fork_loop bs c (bn_pprev b))))"

definition CChain_FindFork :: "block_store \<Rightarrow> CChain \<Rightarrow> bptr option \<Rightarrow> bptr option result option" where
  "CChain_FindFork bs c pindex =
     (case pindex of
        None \<Rightarrow> Some (Inr None)
      | Some p \<Rightarrow>
          (case deref bs (Some p) of
             Inl e \<Rightarrow> Some (Inl e)
           | Inr b \<Rightarrow>
               (case (if bn_nHeight b > CChain_Height c then GetAncestor bs p (CChain_Height c) else Inr (Some p)) of
                  Inl e \<Rightarrow> Some (Inl e)
                | Inr q \<Rightarrow> find_fork_loop bs c q)))"

partial_function (option) locator_loop ::
  "block_store \<Rightarrow> CChain \<Rightarrow> int \<Rightarrow> uint256 list \<Rightarrow> bptr option \<Rightarrow> uint256 list result option" where
  "locator_loop bs c nStep vHave pindex =
     (case pindex of
        None \<Rightarrow> Some (Inr vHave)
      | Some p \<Rightarrow>
          (case deref bs (Some p) of
             Inl e \<Rightarrow> Some (Inl e)
           | Inr b \<Rightarrow>
               let have1 = vHave @ [bn_hash b]
               in if bn_nHeight b = 0 then Some (Inr have1)
                  else
                    let nHeight = max (bn_nHeight b - nStep) 0
                    in (case bindR (CChain_Contains bs c p)
                              (\<lambda>contains. if contains then Inr (CChain_at c nHeight) else GetAncestor bs p nHeight) of
                         Inl e \<Rightarrow> Some (Inl e)
                       | Inr q \<Rightarrow> locator_loop bs c (if length have1 > 10 then nStep * 2 else nStep) have1 q)))"

definition CChain_GetLocator :: "block_store \<Rightarrow> CChain \<Rightarrow> bptr option \<Rightarrow> uint256 list result option" where
  "CChain_GetLocator bs c pindex =
     locator_loop bs c 1 [] (if pindex = None then CChain_Tip c else pindex)"

fun find_in_locator :: "BlockIndexState \<Rightarrow> CChain \<Rightarrow> uint256 list \<Rightarrow> bptr option result" where
  "find_in_locator ix c [] = Inr (CChain_Genesis c)"
| "find_in_locator ix c (hash # vHave) =
     (case ix_map ix hash of
        None \<Rightarrow> find_in_locator ix c vHave
      | Some p \<Rightarrow>
          bindR (CChain_Contains (ix_store ix) c p) (\<lambda>contains.
            if contains then Inr (Some p)
            else bindR (GetAncestor (ix_store ix) p (CChain_Height c)) (\<lambda>q.
              if q = CChain_Tip c then Inr (CChain_Tip c) else find_in_locator ix c vHave)))"

section \<open>The branch of a tip\<close>

text \<open>The array that \<^verbatim>\<open>CChain\<close> holds for a tip: its ancestors by height.\<close>

definition branch :: "block_store \<Rightarrow> bptr \<Rightarrow> CChain" where
  "branch bs tip = map (\<lambda>h. ancestor_at bs tip (int h)) [0..<nat (bn_nHeight (bs ! tip) + 1)]"

definition chain_ok :: "block_store \<Rightarrow> CChain \<Rightarrow> bool" where
  "chain_ok bs c = (c = [] \<or> (\<exists>tip < length bs. c = branch bs tip))"

lemma length_branch: "tree_ok bs \<Longrightarrow> tip < length bs \<Longrightarrow> int (length (branch bs tip)) = bn_nHeight (bs ! tip) + 1"
  using tree_height [of bs tip] by (simp add: branch_def)

lemma branch_at:
  assumes "tree_ok bs" "tip < length bs"
  shows "CChain_at (branch bs tip) h = ancestor_at bs tip h"
proof (cases "0 \<le> h \<and> h \<le> bn_nHeight (bs ! tip)")
  case True
  then have "nat h < nat (bn_nHeight (bs ! tip) + 1)" by simp
  then show ?thesis using True length_branch [OF assms] by (simp add: CChain_at_def branch_def)
next
  case False
  then show ?thesis using length_branch [OF assms] by (auto simp: CChain_at_def ancestor_at_def)
qed

lemma branch_contains:
  assumes "tree_ok bs" "tip < length bs" "p < length bs"
  shows "CChain_Contains bs (branch bs tip) p = Inr (ancestor_at bs tip (bn_nHeight (bs ! p)) = Some p)"
  using assms by (simp add: CChain_Contains_def deref_def branch_at)

section \<open>Moving the tip\<close>

text \<open>
  What is left of the old branch in the array: at every height nothing, or a block together with all its
  ancestors below.
\<close>

definition closed_below :: "block_store \<Rightarrow> (int \<Rightarrow> bptr option) \<Rightarrow> bool" where
  "closed_below bs old = (\<forall>h p. old h = Some p \<longrightarrow> p < length bs \<and> bn_nHeight (bs ! p) = h \<and>
     (\<forall>j. 0 \<le> j \<and> j \<le> h \<longrightarrow> old j = ancestor_at bs p j))"

lemma branch_ext:
  assumes "tree_ok bs" "t < length bs" "int (length c) = bn_nHeight (bs ! t) + 1"
    "\<And>i. 0 \<le> i \<Longrightarrow> i \<le> bn_nHeight (bs ! t) \<Longrightarrow> c ! nat i = ancestor_at bs t i"
  shows "c = branch bs t"
proof (rule nth_equalityI)
  show "length c = length (branch bs t)" using length_branch [OF assms(1,2)] assms(3) by simp
  fix i
  assume "i < length c"
  then have "i < nat (bn_nHeight (bs ! t) + 1)" using assms(3) by linarith
  then show "c ! i = branch bs t ! i" using assms(4) [of "int i"] by (simp add: branch_def)
qed

lemma set_tip_loop_branch:
  assumes tree: "tree_ok bs" and t: "t < length bs" and old: "closed_below bs old"
  shows "p < length bs \<Longrightarrow> ancestor_at bs t (bn_nHeight (bs ! p)) = Some p \<Longrightarrow>
    int (length c) = bn_nHeight (bs ! t) + 1 \<Longrightarrow>
    (\<And>i. bn_nHeight (bs ! p) < i \<Longrightarrow> i \<le> bn_nHeight (bs ! t) \<Longrightarrow> c ! nat i = ancestor_at bs t i) \<Longrightarrow>
    (\<And>i. 0 \<le> i \<Longrightarrow> i \<le> bn_nHeight (bs ! p) \<Longrightarrow> c ! nat i = old i) \<Longrightarrow>
    set_tip_loop bs (Some p) c = Some (Inr (branch bs t))"
proof (induction p arbitrary: c rule: less_induct)
  case (less p)
  let ?h = "bn_nHeight (bs ! p)"
  have h: "0 \<le> ?h" "?h \<le> bn_nHeight (bs ! t)" using ancestor_at_SomeD [OF tree t less.prems(2)] by simp_all
  have d: "deref bs (Some p) = Inr (bs ! p)" using less.prems(1) by (simp add: deref_def)
  have range: "\<not> (?h < 0 \<or> ?h \<ge> int (length c))" using h less.prems(3) by simp
  show ?case
  proof (cases "c ! nat ?h = Some p")
    case True
    then have "old ?h = Some p" using less.prems(5) [of ?h] h by simp
    then have "old j = ancestor_at bs p j" if "0 \<le> j" "j \<le> ?h" for j
      using old that unfolding closed_below_def by blast
    then have low: "old j = ancestor_at bs t j" if "0 \<le> j" "j \<le> ?h" for j
      using that ancestor_at_trans [OF tree t less.prems(2) that(2)] by (simp only:)
    have "c ! nat i = ancestor_at bs t i" if "0 \<le> i" "i \<le> bn_nHeight (bs ! t)" for i
    proof (cases "i \<le> ?h")
      case True
      then show ?thesis using less.prems(5) [OF that(1) True] low [OF that(1) True] by (simp only:)
    qed (use that less.prems(4) in simp)
    then have "c = branch bs t" using less.prems(3) by (intro branch_ext [OF tree t])
    then show ?thesis using True d range by (subst set_tip_loop.simps) simp
  next
    case False
    let ?c = "c[nat ?h := Some p]"
    have upd: "?c ! nat i = (if i = ?h then Some p else c ! nat i)" if "0 \<le> i" for i
      using that h range by (auto simp: nth_list_update nat_eq_iff)
    have step: "set_tip_loop bs (Some p) c = set_tip_loop bs (bn_pprev (bs ! p)) ?c"
      using False d range by (subst set_tip_loop.simps) simp
    show ?thesis
    proof (cases "bn_pprev (bs ! p)")
      case None
      then have "?h = 0" using tree_root(1) [OF tree less.prems(1)] by simp
      then have "?c = branch bs t"
        using less.prems(2-4) upd by (intro branch_ext [OF tree t]) auto
      then show ?thesis unfolding step None by (subst set_tip_loop.simps) simp
    next
      case (Some q)
      note q = tree_parent [OF tree less.prems(1) Some]
      have anc: "ancestor_at bs t (bn_nHeight (bs ! q)) = Some q"
        using ancestor_at_trans [OF tree t less.prems(2), of "bn_nHeight (bs ! q)"]
          ancestor_at_parent [OF tree less.prems(1) Some] q(3) by simp
      show ?thesis unfolding step Some
      proof (rule less.IH [OF q(1,2) anc])
        fix i
        assume "bn_nHeight (bs ! q) < i" "i \<le> bn_nHeight (bs ! t)"
        then show "?c ! nat i = ancestor_at bs t i"
          using upd [of i] less.prems(2,4) q(3) tree_height [OF tree q(2)] by (cases "i = ?h") auto
      next
        fix i
        assume "0 \<le> i" "i \<le> bn_nHeight (bs ! q)"
        then show "?c ! nat i = old i" using upd [of i] less.prems(5) q(3) by simp
      qed (use less.prems(3) in simp)
    qed
  qed
qed

lemma closed_below_branch:
  assumes "tree_ok bs" "chain_ok bs c"
  shows "closed_below bs (\<lambda>i. if i < int n then CChain_at c i else None)"
proof (cases "c = []")
  case True
  then show ?thesis by (auto simp: closed_below_def CChain_at_def)
next
  case False
  then obtain t where t: "t < length bs" "c = branch bs t" using assms(2) by (auto simp: chain_ok_def)
  then show ?thesis
    using ancestor_at_SomeD [OF assms(1) t(1)] ancestor_at_trans [OF assms(1) t(1)]
    by (auto simp: closed_below_def branch_at [OF assms(1) t(1)])
qed

lemma nth_resize: "i < n \<Longrightarrow> resize n x xs ! i = (if i < length xs then xs ! i else x)"
  by (auto simp: resize_def nth_append min_def)

lemma SetTip_branch:
  assumes "tree_ok bs" "chain_ok bs c" "t < length bs"
  shows "CChain_SetTip bs (Some t) c = Some (Inr (branch bs t))"
proof -
  let ?n = "nat (bn_nHeight (bs ! t) + 1)"
  have h: "0 \<le> bn_nHeight (bs ! t)" using tree_height [OF assms(1,3)] .
  have "set_tip_loop bs (Some t) (resize ?n None c) = Some (Inr (branch bs t))"
  proof (rule set_tip_loop_branch [OF assms(1,3) closed_below_branch [OF assms(1,2), of ?n] assms(3)])
    show "ancestor_at bs t (bn_nHeight (bs ! t)) = Some t" using ancestor_at_self assms by simp
    show "int (length (resize ?n None c)) = bn_nHeight (bs ! t) + 1" using h by (simp add: resize_def)
    fix i
    assume "0 \<le> i" "i \<le> bn_nHeight (bs ! t)"
    then show "resize ?n None c ! nat i = (if i < int ?n then CChain_at c i else None)"
      by (auto simp: nth_resize CChain_at_def)
  qed simp
  then show ?thesis using assms(3) by (simp add: CChain_SetTip_def deref_def)
qed

section \<open>The fork of two branches\<close>

text \<open>The highest block that is an ancestor of both, where every block is an ancestor of itself.\<close>

definition is_fork :: "block_store \<Rightarrow> bptr \<Rightarrow> bptr \<Rightarrow> bptr option \<Rightarrow> bool" where
  "is_fork bs t p r =
     (case r of
        None \<Rightarrow> \<forall>h q. ancestor_at bs p h = Some q \<longrightarrow> ancestor_at bs t h \<noteq> Some q
      | Some q \<Rightarrow> ancestor_at bs p (bn_nHeight (bs ! q)) = Some q \<and> ancestor_at bs t (bn_nHeight (bs ! q)) = Some q \<and>
          (\<forall>h q'. bn_nHeight (bs ! q) < h \<longrightarrow> ancestor_at bs p h = Some q' \<longrightarrow> ancestor_at bs t h \<noteq> Some q'))"

lemma is_fork_above:
  assumes tree: "tree_ok bs" and p: "p < length bs" and anc: "ancestor_at bs p k = Some q"
    and above: "\<And>h r. k < h \<Longrightarrow> ancestor_at bs p h = Some r \<Longrightarrow> ancestor_at bs t h \<noteq> Some r"
    and fork: "is_fork bs t q r"
  shows "is_fork bs t p r"
proof -
  note q = ancestor_at_SomeD [OF tree p anc]
  have low: "ancestor_at bs q h = ancestor_at bs p h" if "h \<le> k" for h
    using ancestor_at_trans [OF tree p anc that] .
  have le: "h \<le> k" if "ancestor_at bs q h = Some x" for h x
    using that q(5) by (auto simp: ancestor_at_def split: if_splits)
  show ?thesis
  proof (cases r)
    case None
    have "ancestor_at bs t h \<noteq> Some x" if "ancestor_at bs p h = Some x" for h x
      using that above fork low None by (cases "k < h") (auto simp: is_fork_def)
    then show ?thesis using None by (simp add: is_fork_def)
  next
    case (Some y)
    then have y: "ancestor_at bs q (bn_nHeight (bs ! y)) = Some y" "ancestor_at bs t (bn_nHeight (bs ! y)) = Some y"
      "\<And>h x. bn_nHeight (bs ! y) < h \<Longrightarrow> ancestor_at bs q h = Some x \<Longrightarrow> ancestor_at bs t h \<noteq> Some x"
      using fork by (auto simp: is_fork_def)
    have "ancestor_at bs t h \<noteq> Some x" if "bn_nHeight (bs ! y) < h" "ancestor_at bs p h = Some x" for h x
      using that above y(3) low by (cases "k < h") auto
    then show ?thesis using Some y(1,2) low [OF le [OF y(1)]] by (simp add: is_fork_def)
  qed
qed

lemma find_fork_loop_spec:
  assumes tree: "tree_ok bs" and t: "t < length bs"
  shows "p < length bs \<Longrightarrow> \<exists>r. find_fork_loop bs (branch bs t) (Some p) = Some (Inr r) \<and> is_fork bs t p r"
proof (induction p rule: less_induct)
  case (less p)
  let ?h = "bn_nHeight (bs ! p)"
  note c = branch_contains [OF tree t less.prems]
  have self: "ancestor_at bs p ?h = Some p" using ancestor_at_self [OF tree less.prems] .
  show ?case
  proof (cases "ancestor_at bs t ?h = Some p")
    case True
    then have "find_fork_loop bs (branch bs t) (Some p) = Some (Inr (Some p))"
      using c by (subst find_fork_loop.simps) simp
    moreover have "is_fork bs t p (Some p)" using True self by (auto simp: is_fork_def ancestor_at_def)
    ultimately show ?thesis by blast
  next
    case False
    then have step: "find_fork_loop bs (branch bs t) (Some p) = find_fork_loop bs (branch bs t) (bn_pprev (bs ! p))"
      using c less.prems by (subst find_fork_loop.simps) (simp add: deref_def)
    show ?thesis
    proof (cases "bn_pprev (bs ! p)")
      case None
      then have "?h = 0" using tree_root(1) [OF tree less.prems] by simp
      then have "ancestor_at bs p h = Some q \<Longrightarrow> h = 0 \<and> q = p" for h q
        by (auto simp: ancestor_at_def split: if_splits)
      then have "is_fork bs t p None" using False \<open>?h = 0\<close> by (auto simp: is_fork_def)
      moreover have "find_fork_loop bs (branch bs t) (Some p) = Some (Inr None)"
        unfolding step None by (subst find_fork_loop.simps) simp
      ultimately show ?thesis by blast
    next
      case (Some q)
      note q = tree_parent [OF tree less.prems Some]
      obtain r where r: "find_fork_loop bs (branch bs t) (Some q) = Some (Inr r)" "is_fork bs t q r"
        using less.IH [OF q(1,2)] by blast
      have "is_fork bs t p r"
      proof (rule is_fork_above [OF tree less.prems ancestor_at_parent [OF tree less.prems Some] _ r(2)])
        fix h x
        assume "?h - 1 < h" "ancestor_at bs p h = Some x"
        then have "h = ?h" by (auto simp: ancestor_at_def split: if_splits)
        then show "ancestor_at bs t h \<noteq> Some x" using False self \<open>ancestor_at bs p h = Some x\<close> by simp
      qed
      then show ?thesis using r(1) step Some by auto
    qed
  qed
qed

lemma FindFork_spec:
  assumes tree: "tree_ok bs" and t: "t < length bs" and p: "p < length bs"
  obtains r where "CChain_FindFork bs (branch bs t) (Some p) = Some (Inr r)" "is_fork bs t p r"
proof -
  have d: "deref bs (Some p) = Inr (bs ! p)" using p by (simp add: deref_def)
  have height: "CChain_Height (branch bs t) = bn_nHeight (bs ! t)"
    using length_branch [OF tree t] by (simp add: CChain_Height_def)
  show ?thesis
  proof (cases "bn_nHeight (bs ! p) > bn_nHeight (bs ! t)")
    case True
    obtain q where q: "ancestor_at bs p (bn_nHeight (bs ! t)) = Some q" "q < length bs"
      using ancestor_at_total [OF tree p] tree_height [OF tree t] True by (metis less_imp_le)
    obtain r where r: "find_fork_loop bs (branch bs t) (Some q) = Some (Inr r)" "is_fork bs t q r"
      using find_fork_loop_spec [OF tree t q(2)] by blast
    have "is_fork bs t p r"
      by (rule is_fork_above [OF tree p q(1) _ r(2)]) (auto simp: ancestor_at_def)
    then show ?thesis using that r True q d height by (simp add: CChain_FindFork_def GetAncestor_eq [OF tree p])
  next
    case False
    then show ?thesis using that find_fork_loop_spec [OF tree t p] d height by (auto simp: CChain_FindFork_def)
  qed
qed

section \<open>Locators\<close>

lemma chain_step:
  assumes tree: "tree_ok bs" and c: "chain_ok bs c" and p: "p < length bs" and h: "h \<le> bn_nHeight (bs ! p)"
  shows "bindR (CChain_Contains bs c p) (\<lambda>contains. if contains then Inr (CChain_at c h) else GetAncestor bs p h) =
    Inr (ancestor_at bs p h)"
proof (cases "c = []")
  case True
  then have "CChain_Contains bs c p = Inr False" using p by (auto simp: CChain_Contains_def deref_def CChain_at_def)
  then show ?thesis using p by (simp add: GetAncestor_eq [OF tree])
next
  case False
  then obtain t where t: "t < length bs" "c = branch bs t" using c by (auto simp: chain_ok_def)
  then show ?thesis
    using ancestor_at_trans [OF tree t(1) _ h, of p]
    by (auto simp: branch_contains [OF tree t(1) p] branch_at [OF tree t(1)] GetAncestor_eq [OF tree p])
qed

definition locator_hashes :: "block_store \<Rightarrow> bptr \<Rightarrow> int list \<Rightarrow> uint256 list" where
  "locator_hashes bs p ks = map (\<lambda>h. bn_hash (bs ! the (ancestor_at bs p h))) ks"

lemma locator_loop_spec:
  assumes tree: "tree_ok bs" and c: "chain_ok bs c"
  shows "p < length bs \<Longrightarrow> 1 \<le> nStep \<Longrightarrow>
    \<exists>ks. locator_loop bs c nStep vHave (Some p) = Some (Inr (vHave @ locator_hashes bs p ks)) \<and> ks \<noteq> [] \<and>
      hd ks = bn_nHeight (bs ! p) \<and> last ks = 0 \<and> sorted_wrt (>) ks \<and> (\<forall>k \<in> set ks. 0 \<le> k \<and> k \<le> bn_nHeight (bs ! p))"
proof (induction "nat (bn_nHeight (bs ! p))" arbitrary: p nStep vHave rule: less_induct)
  case less
  let ?h = "bn_nHeight (bs ! p)"
  have d: "deref bs (Some p) = Inr (bs ! p)" using less.prems(1) by (simp add: deref_def)
  have h0: "0 \<le> ?h" using tree_height [OF tree less.prems(1)] .
  have self: "locator_hashes bs p (?h # ks) = bn_hash (bs ! p) # locator_hashes bs p ks" for ks
    using ancestor_at_self [OF tree less.prems(1)] by (simp add: locator_hashes_def)
  show ?case
  proof (cases "?h = 0")
    case True
    then have "locator_loop bs c nStep vHave (Some p) = Some (Inr (vHave @ [bn_hash (bs ! p)]))"
      using d by (subst locator_loop.simps) (simp add: Let_def)
    then show ?thesis using True self [of "[]"] by (intro exI [of _ "[0]"]) (simp add: locator_hashes_def)
  next
    case False
    let ?k = "max (?h - nStep) 0"
    let ?have = "vHave @ [bn_hash (bs ! p)]"
    let ?step = "if length ?have > 10 then nStep * 2 else nStep"
    have k: "0 \<le> ?k" "?k < ?h" "?k \<le> ?h" using h0 False less.prems(2) by simp_all
    obtain q where q: "ancestor_at bs p ?k = Some q" "q < length bs" "bn_nHeight (bs ! q) = ?k"
      using ancestor_at_total [OF tree less.prems(1) k(1,3)] by metis
    have step: "locator_loop bs c nStep vHave (Some p) = locator_loop bs c ?step ?have (Some q)"
      using d False chain_step [OF tree c less.prems(1) k(3)] q(1)
      by (subst locator_loop.simps) (simp add: Let_def)
    have "1 \<le> ?step" using less.prems(2) by simp
    then obtain ks where ks: "locator_loop bs c ?step ?have (Some q) = Some (Inr (?have @ locator_hashes bs q ks))"
        "ks \<noteq> []" "hd ks = ?k" "last ks = 0" "sorted_wrt (>) ks" "\<forall>k \<in> set ks. 0 \<le> k \<and> k \<le> ?k"
      using less.hyps [of q ?step ?have] q k by auto
    have "locator_hashes bs q ks = locator_hashes bs p ks"
      using ks(6) ancestor_at_trans [OF tree less.prems(1) q(1)] by (simp add: locator_hashes_def)
    then have "locator_loop bs c nStep vHave (Some p) = Some (Inr (vHave @ locator_hashes bs p (?h # ks)))"
      unfolding step ks(1) self by simp
    then show ?thesis using ks k by (intro exI [of _ "?h # ks"]) fastforce
  qed
qed

lemma Tip_branch: "tree_ok bs \<Longrightarrow> t < length bs \<Longrightarrow> CChain_Tip (branch bs t) = Some t"
proof -
  assume *: "tree_ok bs" "t < length bs"
  have "nat (bn_nHeight (bs ! t)) = length (branch bs t) - 1" "length (branch bs t) > 0"
    using length_branch [OF *] tree_height [OF *] by linarith+
  then have "CChain_Tip (branch bs t) = CChain_at (branch bs t) (bn_nHeight (bs ! t))"
    using length_branch [OF *] tree_height [OF *] by (simp add: CChain_Tip_def CChain_at_def)
  then show ?thesis using branch_at [OF *] ancestor_at_self [OF *] by simp
qed

lemma find_in_locator_spec:
  assumes ix: "index_ok ix" and t: "t < length (ix_store ix)" and p: "p < length (ix_store ix)"
    and root: "ancestor_at (ix_store ix) p 0 = ancestor_at (ix_store ix) t 0"
  shows "ks \<noteq> [] \<Longrightarrow> last ks = 0 \<Longrightarrow> \<forall>k \<in> set ks. 0 \<le> k \<and> k \<le> bn_nHeight (ix_store ix ! p) \<Longrightarrow>
    \<exists>r. find_in_locator ix (branch (ix_store ix) t) (locator_hashes (ix_store ix) p ks) = Inr (Some r) \<and>
      ancestor_at (ix_store ix) p (bn_nHeight (ix_store ix ! r)) = Some r \<and>
      ancestor_at (ix_store ix) t (bn_nHeight (ix_store ix ! r)) = Some r"
proof (induction ks)
  case (Cons k ks)
  let ?bs = "ix_store ix" and ?c = "branch (ix_store ix) t"
  have tree: "tree_ok ?bs" using ix by (simp add: index_ok_def)
  obtain a where a: "ancestor_at ?bs p k = Some a" "a < length ?bs" "bn_nHeight (?bs ! a) = k"
    using ancestor_at_total [OF tree p, of k] Cons.prems(3) by (metis list.set_intros(1))
  have map: "ix_map ix (bn_hash (?bs ! a)) = Some a" using ix a(2) by (simp add: index_ok_def)
  have height: "CChain_Height ?c = bn_nHeight (?bs ! t)" using length_branch [OF tree t] by (simp add: CChain_Height_def)
  have find: "find_in_locator ix ?c (locator_hashes ?bs p (k # ks)) =
      (if ancestor_at ?bs t k = Some a then Inr (Some a)
       else if ancestor_at ?bs a (bn_nHeight (?bs ! t)) = Some t then Inr (Some t)
       else find_in_locator ix ?c (locator_hashes ?bs p ks))"
    using a map by (simp add: locator_hashes_def branch_contains [OF tree t a(2)] GetAncestor_eq [OF tree a(2)]
        height Tip_branch [OF tree t])
  show ?case
  proof (cases "ancestor_at ?bs t k = Some a")
    case True
    then show ?thesis using find a by auto
  next
    case no: False
    show ?thesis
    proof (cases "ancestor_at ?bs a (bn_nHeight (?bs ! t)) = Some t")
      case True
      then have "bn_nHeight (?bs ! t) \<le> k" using ancestor_at_SomeD [OF tree a(2) True] a(3) by simp
      then have "ancestor_at ?bs p (bn_nHeight (?bs ! t)) = Some t"
        using ancestor_at_trans [OF tree p a(1)] True by simp
      then show ?thesis using find no True ancestor_at_self [OF tree t] by auto
    next
      case False
      have "ks \<noteq> []"
      proof
        assume "ks = []"
        then have "k = 0" using Cons.prems(2) by simp
        then show False using no a(1) root by simp
      qed
      then show ?thesis using Cons.IH Cons.prems find no False by simp
    qed
  qed
qed simp

section \<open>The active chain of an index\<close>

text \<open>
  C27. \<^verbatim>\<open>SetTip\<close> and \<^verbatim>\<open>FindFork\<close> are correct on an index built from headers. Starting from the chain of any other
  block (or none), \<^verbatim>\<open>SetTip\<close> returns and leaves the array of the ancestors of the new tip, although it stops at the
  first height that already agrees. \<^verbatim>\<open>FindFork\<close> then returns the last common ancestor of the tip and any other
  block, or none if they have no ancestor in common.
\<close>

theorem SetTip_FindFork:
  assumes "\<forall>block \<in> set blocks. bh_hashPrevBlock block \<noteq> GetHash block" and "AddHeaders GetHash blocks = Inr ix"
    and "chain_ok (ix_store ix) c" and "t < length (ix_store ix)" and "p < length (ix_store ix)"
  shows "\<exists>r. CChain_SetTip (ix_store ix) (Some t) c = Some (Inr (branch (ix_store ix) t)) \<and>
    CChain_FindFork (ix_store ix) (branch (ix_store ix) t) (Some p) = Some (Inr r) \<and> is_fork (ix_store ix) t p r"
proof -
  have "index_ok ix" using AddHeaders_ok [of blocks GetHash] assms(1,2) by auto
  then have tree: "tree_ok (ix_store ix)" by (simp add: index_ok_def)
  show ?thesis using SetTip_branch [OF tree assms(3,4)] FindFork_spec [OF tree assms(4,5)] by metis
qed

text \<open>
  C28. Locators terminate and work. For every block of an index built from headers, \<^verbatim>\<open>GetLocator\<close> returns the
  hashes of ancestors of the block at strictly decreasing heights, from the block itself down to its root; and for
  any active chain with the same root, \<^verbatim>\<open>FindForkInGlobalIndex\<close> finds by them a block of that chain that is an
  ancestor of the block.
\<close>

theorem GetLocator_terminates:
  assumes "\<forall>block \<in> set blocks. bh_hashPrevBlock block \<noteq> GetHash block" and "AddHeaders GetHash blocks = Inr ix"
    and "chain_ok (ix_store ix) c" and "p < length (ix_store ix)"
  shows "\<exists>ks. CChain_GetLocator (ix_store ix) c (Some p) = Some (Inr (locator_hashes (ix_store ix) p ks)) \<and>
    sorted_wrt (>) ks \<and> hd ks = bn_nHeight (ix_store ix ! p) \<and> last ks = 0 \<and>
    (\<forall>t < length (ix_store ix). ancestor_at (ix_store ix) p 0 = ancestor_at (ix_store ix) t 0 \<longrightarrow>
      (\<exists>r. find_in_locator ix (branch (ix_store ix) t) (locator_hashes (ix_store ix) p ks) = Inr (Some r) \<and>
        ancestor_at (ix_store ix) p (bn_nHeight (ix_store ix ! r)) = Some r \<and>
        ancestor_at (ix_store ix) t (bn_nHeight (ix_store ix ! r)) = Some r))"
proof -
  have ok: "index_ok ix" using AddHeaders_ok [of blocks GetHash] assms(1,2) by auto
  then have tree: "tree_ok (ix_store ix)" by (simp add: index_ok_def)
  obtain ks where ks: "locator_loop (ix_store ix) c 1 [] (Some p) = Some (Inr ([] @ locator_hashes (ix_store ix) p ks))"
      "ks \<noteq> []" "hd ks = bn_nHeight (ix_store ix ! p)" "last ks = 0" "sorted_wrt (>) ks"
      "\<forall>k \<in> set ks. 0 \<le> k \<and> k \<le> bn_nHeight (ix_store ix ! p)"
    using locator_loop_spec [OF tree assms(3,4), of 1 "[]"] by auto
  show ?thesis
    using ks find_in_locator_spec [OF ok _ assms(4) _ ks(2,4,6)]
    by (intro exI [of _ ks]) (simp add: CChain_GetLocator_def)
qed

lemma sample_ready:
  obtains ix where "AddHeaders sample_hash sample_headers = Inr ix" "length (ix_store ix) = 4"
  using AddHeaders_ok sample_headers_distinct sample_index_nodes by metis

theorem SetTip_FindFork_witness:
  "\<exists>ix r. AddHeaders sample_hash sample_headers = Inr ix \<and>
    CChain_SetTip (ix_store ix) (Some 2) [] = Some (Inr (branch (ix_store ix) 2)) \<and>
    CChain_FindFork (ix_store ix) (branch (ix_store ix) 2) (Some 3) = Some (Inr r) \<and> is_fork (ix_store ix) 2 3 r"
proof -
  obtain ix where ix: "AddHeaders sample_hash sample_headers = Inr ix" "length (ix_store ix) = 4" by (rule sample_ready)
  have "chain_ok (ix_store ix) []" "2 < length (ix_store ix)" "3 < length (ix_store ix)"
    using ix by (simp_all add: chain_ok_def)
  from SetTip_FindFork [OF sample_headers_distinct ix(1) this] show ?thesis using ix(1) by blast
qed

theorem GetLocator_terminates_witness:
  "\<exists>ix ks. AddHeaders sample_hash sample_headers = Inr ix \<and>
    CChain_GetLocator (ix_store ix) [] (Some 2) = Some (Inr (locator_hashes (ix_store ix) 2 ks)) \<and> last ks = 0"
proof -
  obtain ix where ix: "AddHeaders sample_hash sample_headers = Inr ix" "length (ix_store ix) = 4" by (rule sample_ready)
  have "chain_ok (ix_store ix) []" "2 < length (ix_store ix)" using ix by (simp_all add: chain_ok_def)
  from GetLocator_terminates [OF sample_headers_distinct ix(1) this] show ?thesis using ix(1) by blast
qed

end
