(* ===== verification/VersionBits.thy ===== *)
theory VersionBits
  imports Chain
begin

text \<open>
  Soft-fork deployments (\<^verbatim>\<open>versionbits.h\<close>, \<^verbatim>\<open>versionbits.cpp\<close>): the state of a deployment for the block after a
  given one, computed period by period over the block tree, with a cache of the states already known.
\<close>

section \<open>Median time\<close>

text \<open>The loop that collects the times of a block and of at most ten ancestors.\<close>

fun median_loop :: "block_store \<Rightarrow> nat \<Rightarrow> bptr option \<Rightarrow> int list \<Rightarrow> int list result" where
  "median_loop bs (Suc n) (Some p) ts =
     bindR (deref bs (Some p)) (\<lambda>b. median_loop bs n (bn_pprev b) (bn_GetBlockTime b # ts))"
| "median_loop bs _ _ ts = Inr ts"

definition GetMedianTimePast :: "block_store \<Rightarrow> bptr \<Rightarrow> int result" where
  "GetMedianTimePast bs p =
     bindR (median_loop bs 11 (Some p) []) (\<lambda>ts. Inr (sort ts ! (length ts div 2)))"

section \<open>The threshold state machine\<close>

datatype ThresholdState =
  THRESHOLD_DEFINED | THRESHOLD_STARTED | THRESHOLD_LOCKED_IN | THRESHOLD_ACTIVE | THRESHOLD_FAILED

text \<open>The virtual methods of \<^verbatim>\<open>AbstractThresholdConditionChecker\<close>, for fixed consensus parameters.\<close>

record ThresholdChecker =
  tc_Condition :: "block_store \<Rightarrow> bptr \<Rightarrow> bool result"
  tc_BeginTime :: int
  tc_EndTime :: int
  tc_Period :: int
  tc_Threshold :: int

type_synonym ThresholdConditionCache = "bptr option \<Rightarrow> ThresholdState option"

text \<open>The count of the blocks of a period that signal, from the last one backwards.\<close>

fun count_loop :: "ThresholdChecker \<Rightarrow> block_store \<Rightarrow> nat \<Rightarrow> bptr option \<Rightarrow> int \<Rightarrow> int result" where
  "count_loop tc bs 0 pindexCount count = Inr count"
| "count_loop tc bs (Suc n) pindexCount count =
     bindR (deref bs pindexCount) (\<lambda>b.
       bindR (tc_Condition tc bs (the pindexCount)) (\<lambda>c.
         count_loop tc bs n (bn_pprev b) (if c then count + 1 else count)))"

definition next_state :: "ThresholdChecker \<Rightarrow> block_store \<Rightarrow> bptr \<Rightarrow> ThresholdState \<Rightarrow> ThresholdState result" where
  "next_state tc bs p state =
     (case state of
        THRESHOLD_DEFINED \<Rightarrow>
          bindR (GetMedianTimePast bs p) (\<lambda>t.
            if t \<ge> tc_EndTime tc then Inr THRESHOLD_FAILED
            else if t \<ge> tc_BeginTime tc then Inr THRESHOLD_STARTED
            else Inr state)
      | THRESHOLD_STARTED \<Rightarrow>
          bindR (GetMedianTimePast bs p) (\<lambda>t.
            if t \<ge> tc_EndTime tc then Inr THRESHOLD_FAILED
            else bindR (count_loop tc bs (nat (tc_Period tc)) (Some p) 0) (\<lambda>count.
              if count \<ge> tc_Threshold tc then Inr THRESHOLD_LOCKED_IN else Inr state))
      | THRESHOLD_LOCKED_IN \<Rightarrow> Inr THRESHOLD_ACTIVE
      | THRESHOLD_FAILED \<Rightarrow> Inr state
      | THRESHOLD_ACTIVE \<Rightarrow> Inr state)"

text \<open>
  The walk back to a block whose state is known. The vector \<^verbatim>\<open>vToCompute\<close> is the list with its back first.
\<close>

partial_function (option) back_loop ::
  "ThresholdChecker \<Rightarrow> block_store \<Rightarrow> ThresholdConditionCache \<Rightarrow> bptr option \<Rightarrow> bptr list \<Rightarrow>
     (ThresholdConditionCache \<times> bptr option \<times> bptr list) result option" where
  "back_loop tc bs cache pindexPrev vToCompute =
     (if cache pindexPrev \<noteq> None then Some (Inr (cache, pindexPrev, vToCompute))
      else case pindexPrev of
        None \<Rightarrow> Some (Inr (cache(pindexPrev \<mapsto> THRESHOLD_DEFINED), pindexPrev, vToCompute))
      | Some p \<Rightarrow>
          (case bindR (deref bs (Some p)) (\<lambda>b. bindR (GetMedianTimePast bs p) (\<lambda>t. Inr (b, t))) of
             Inl e \<Rightarrow> Some (Inl e)
           | Inr (b, t) \<Rightarrow>
               if t < tc_BeginTime tc
               then Some (Inr (cache(pindexPrev \<mapsto> THRESHOLD_DEFINED), pindexPrev, vToCompute))
               else (case GetAncestor bs p (bn_nHeight b - tc_Period tc) of
                       Inl e \<Rightarrow> Some (Inl e)
                     | Inr q \<Rightarrow> back_loop tc bs cache q (p # vToCompute))))"

fun forward_loop ::
  "ThresholdChecker \<Rightarrow> block_store \<Rightarrow> bptr list \<Rightarrow> ThresholdState \<Rightarrow> ThresholdConditionCache \<Rightarrow>
     (ThresholdState \<times> ThresholdConditionCache) result" where
  "forward_loop tc bs [] state cache = Inr (state, cache)"
| "forward_loop tc bs (p # vToCompute) state cache =
     bindR (next_state tc bs p state) (\<lambda>stateNext.
       forward_loop tc bs vToCompute stateNext (cache(Some p \<mapsto> stateNext)))"

definition period_start :: "block_store \<Rightarrow> int \<Rightarrow> bptr option \<Rightarrow> bptr option result" where
  "period_start bs nPeriod pindexPrev =
     (case pindexPrev of
        None \<Rightarrow> Inr None
      | Some p \<Rightarrow>
          bindR (deref bs (Some p)) (\<lambda>b.
            if nPeriod = 0 then Inl DivisionByZero
            else GetAncestor bs p (bn_nHeight b - ((bn_nHeight b + 1) mod nPeriod))))"

definition GetStateFor ::
  "ThresholdChecker \<Rightarrow> block_store \<Rightarrow> bptr option \<Rightarrow> ThresholdConditionCache \<Rightarrow>
     (ThresholdState \<times> ThresholdConditionCache) result option" where
  "GetStateFor tc bs pindexPrev cache =
     (case period_start bs (tc_Period tc) pindexPrev of
        Inl e \<Rightarrow> Some (Inl e)
      | Inr q \<Rightarrow>
          (case back_loop tc bs cache q [] of
             None \<Rightarrow> None
           | Some (Inl e) \<Rightarrow> Some (Inl e)
           | Some (Inr (cache1, q1, vToCompute)) \<Rightarrow>
               (case cache1 q1 of
                  None \<Rightarrow> Some (Inl AssertFailed)
                | Some state \<Rightarrow> Some (forward_loop tc bs vToCompute state cache1))))"

section \<open>Deployments\<close>

record BIP9Deployment =
  dep_bit :: int
  dep_nStartTime :: int
  dep_nTimeout :: int

record DeploymentParams =
  dp_vDeployments :: "BIP9Deployment list"
  dp_nMinerConfirmationWindow :: int
  dp_nRuleChangeActivationThreshold :: int
  dp_sigActivationTime :: int

abbreviation (input) VERSIONBITS_TOP_BITS :: int where "VERSIONBITS_TOP_BITS \<equiv> 0x70000000"
abbreviation (input) VERSIONBITS_TOP_BITS_SIG :: int where "VERSIONBITS_TOP_BITS_SIG \<equiv> 0x71000000"

text \<open>The constant \<^verbatim>\<open>0xF0000000UL\<close> does not fit \<^verbatim>\<open>int32_t\<close>; its value there is negative.\<close>

abbreviation (input) VERSIONBITS_TOP_MASK :: int where "VERSIONBITS_TOP_MASK \<equiv> -0x10000000"

definition IsSigHFEnabled :: "DeploymentParams \<Rightarrow> block_store \<Rightarrow> bptr option \<Rightarrow> bool result" where
  "IsSigHFEnabled params bs pindexPrev =
     (case pindexPrev of
        None \<Rightarrow> Inr False
      | Some p \<Rightarrow> bindR (GetMedianTimePast bs p) (\<lambda>t. Inr (t \<ge> dp_sigActivationTime params)))"

definition VersionBitsMask :: "DeploymentParams \<Rightarrow> nat \<Rightarrow> u64" where
  "VersionBitsMask params pos = push_bit (nat (dep_bit (dp_vDeployments params ! pos))) 1"

text \<open>
  The condition compares the top bits of the version with the boolean \<^verbatim>\<open>IsSigHFEnabled\<close>, and the conditional
  expression that was meant to be compared is used as a truth value.
\<close>

definition vb_Condition :: "DeploymentParams \<Rightarrow> nat \<Rightarrow> block_store \<Rightarrow> bptr \<Rightarrow> bool result" where
  "vb_Condition params pos bs p =
     bindR (deref bs (Some p)) (\<lambda>b.
       if dep_bit (dp_vDeployments params ! pos) > 32
       then Inr (ucast (bn_nNonce b) AND drop_bit 32 (VersionBitsMask params pos) \<noteq> 0)
       else bindR (IsSigHFEnabled params bs (Some p)) (\<lambda>sig.
         Inr ((if bn_nVersion b AND VERSIONBITS_TOP_MASK = of_bool sig
               then VERSIONBITS_TOP_BITS_SIG else VERSIONBITS_TOP_BITS) \<noteq> 0 \<and>
              (word_of_int (bn_nVersion b) :: u64) AND VersionBitsMask params pos \<noteq> 0)))"

definition vb_checker :: "DeploymentParams \<Rightarrow> nat \<Rightarrow> ThresholdChecker" where
  "vb_checker params pos =
     \<lparr>tc_Condition = vb_Condition params pos,
      tc_BeginTime = dep_nStartTime (dp_vDeployments params ! pos),
      tc_EndTime = dep_nTimeout (dp_vDeployments params ! pos),
      tc_Period = dp_nMinerConfirmationWindow params,
      tc_Threshold = dp_nRuleChangeActivationThreshold params\<rparr>"

type_synonym VersionBitsCache = "nat \<Rightarrow> ThresholdConditionCache"

definition VersionBitsCache_Clear :: "DeploymentParams \<Rightarrow> VersionBitsCache \<Rightarrow> VersionBitsCache" where
  "VersionBitsCache_Clear params vc =
     (\<lambda>pos. if pos < length (dp_vDeployments params) then (\<lambda>_. None) else vc pos)"

definition VersionBitsState ::
  "DeploymentParams \<Rightarrow> block_store \<Rightarrow> bptr option \<Rightarrow> nat \<Rightarrow> VersionBitsCache \<Rightarrow>
     (ThresholdState \<times> VersionBitsCache) result option" where
  "VersionBitsState params bs pindexPrev pos vc =
     (case GetStateFor (vb_checker params pos) bs pindexPrev (vc pos) of
        None \<Rightarrow> None
      | Some (Inl e) \<Rightarrow> Some (Inl e)
      | Some (Inr (s, cache)) \<Rightarrow> Some (Inr (s, vc(pos := cache))))"

text \<open>
  \<^verbatim>\<open>-acceptversionbit\<close> and \<^verbatim>\<open>-rejectversionbit\<close>: an argument counts when its first character is a digit, by its
  leading decimal number (\<^verbatim>\<open>stoi\<close>, which throws beyond the range of \<^verbatim>\<open>int\<close>).
\<close>

definition is_digit :: "char \<Rightarrow> bool" where
  "is_digit c = (CHR ''0'' \<le> c \<and> c \<le> CHR ''9'')"

definition digits_value :: "string \<Rightarrow> int" where
  "digits_value s = foldl (\<lambda>n c. 10 * n + (int (of_char c) - 48)) 0 (takeWhile is_digit s)"

definition version_bit_arg :: "string \<Rightarrow> int option result" where
  "version_bit_arg s =
     (case s of
        [] \<Rightarrow> Inr None
      | c # _ \<Rightarrow> if \<not> is_digit c then Inr None
                 else if digits_value s > 2147483647 then Inl StdException
                 else Inr (Some (digits_value s)))"

fun bit_listed :: "int \<Rightarrow> string list \<Rightarrow> bool result" where
  "bit_listed b [] = Inr False"
| "bit_listed b (s # ss) =
     bindR (version_bit_arg s) (\<lambda>r. if r = Some b then Inr True else bit_listed b ss)"

abbreviation (input) rejectedVersionBitsByDefault :: "int list" where "rejectedVersionBitsByDefault \<equiv> [17]"

definition IsVersionBitRejected :: "string list \<Rightarrow> string list \<Rightarrow> DeploymentParams \<Rightarrow> nat \<Rightarrow> bool result" where
  "IsVersionBitRejected accepted rejected params pos =
     (let bitTest = dep_bit (dp_vDeployments params ! pos)
      in bindR (bit_listed bitTest accepted) (\<lambda>acc.
           if acc then Inr False
           else if bitTest \<in> set rejectedVersionBitsByDefault then Inr True
           else bit_listed bitTest rejected))"

end
