(* ===== verification/VersionBitsLaws.thy ===== *)
theory VersionBitsLaws
  imports VersionBits
begin

text \<open>
  Laws of the deployment states: the cached computation against a reference that recomputes every period from the
  first, the progress of the states, and the condition that a block signals.
\<close>

section \<open>Totality\<close>

lemma median_loop_total:
  "tree_ok bs \<Longrightarrow> (\<forall>p. q = Some p \<longrightarrow> p < length bs) \<Longrightarrow> \<exists>ts. median_loop bs n q acc = Inr ts"
proof (induction n arbitrary: q acc)
  case (Suc n)
  show ?case
  proof (cases q)
    case (Some p)
    then have p: "p < length bs" using Suc.prems by simp
    have "\<forall>r. bn_pprev (bs ! p) = Some r \<longrightarrow> r < length bs" using tree_parent(2) [OF Suc.prems(1) p] by blast
    then show ?thesis using Suc.IH [OF Suc.prems(1)] Some p by (simp add: deref_def)
  qed simp
qed simp

definition mtp :: "block_store \<Rightarrow> bptr \<Rightarrow> int" where
  "mtp bs p = projr (GetMedianTimePast bs p)"

lemma GetMedianTimePast_eq: "tree_ok bs \<Longrightarrow> p < length bs \<Longrightarrow> GetMedianTimePast bs p = Inr (mtp bs p)"
  using median_loop_total [of bs "Some p" 11 "[]"] by (auto simp: mtp_def GetMedianTimePast_def)

text \<open>A checker whose condition is defined on every block, with periods of at least one block.\<close>

definition checker_ok :: "ThresholdChecker \<Rightarrow> block_store \<Rightarrow> bool" where
  "checker_ok tc bs = (0 < tc_Period tc \<and> (\<forall>p < length bs. \<exists>c. tc_Condition tc bs p = Inr c))"

lemma count_loop_total:
  assumes "tree_ok bs" "checker_ok tc bs"
  shows "n = 0 \<or> (\<exists>p < length bs. q = Some p \<and> int n \<le> bn_nHeight (bs ! p) + 1) \<Longrightarrow> \<exists>c. count_loop tc bs n q k = Inr c"
proof (induction n arbitrary: q k)
  case (Suc n)
  then obtain p where p: "p < length bs" "q = Some p" "int n \<le> bn_nHeight (bs ! p)" by auto
  then obtain c where c: "tc_Condition tc bs p = Inr c" using assms(2) by (auto simp: checker_ok_def)
  have "n = 0 \<or> (\<exists>r < length bs. bn_pprev (bs ! p) = Some r \<and> int n \<le> bn_nHeight (bs ! r) + 1)"
  proof (cases "bn_pprev (bs ! p)")
    case None
    then show ?thesis using tree_root(1) [OF assms(1) p(1)] p(3) by simp
  next
    case (Some r)
    then show ?thesis using tree_parent(2,3) [OF assms(1) p(1) Some] p(3) by simp
  qed
  then show ?case using Suc.IH p c by (simp add: deref_def)
qed simp

lemma next_state_total:
  assumes "tree_ok bs" "checker_ok tc bs" "p < length bs" "tc_Period tc \<le> bn_nHeight (bs ! p) + 1"
  shows "\<exists>s'. next_state tc bs p s = Inr s'"
proof -
  have "int (nat (tc_Period tc)) \<le> bn_nHeight (bs ! p) + 1" using assms(2,4) by (simp add: checker_ok_def)
  then obtain c where "count_loop tc bs (nat (tc_Period tc)) (Some p) 0 = Inr c"
    using count_loop_total [OF assms(1,2), of "nat (tc_Period tc)" "Some p"] assms(3) by auto
  then show ?thesis using assms
    by (cases s) (simp_all add: next_state_def GetMedianTimePast_eq)
qed

section \<open>The reference\<close>

text \<open>
  The last block of the \<open>k\<close>-th period on the branch of \<open>p\<close>, and the state for the blocks after it, from the
  definition that every deployment starts as defined.
\<close>

definition boundary :: "ThresholdChecker \<Rightarrow> block_store \<Rightarrow> bptr \<Rightarrow> nat \<Rightarrow> bptr" where
  "boundary tc bs p k = the (ancestor_at bs p (int k * tc_Period tc - 1))"

primrec ref_state :: "ThresholdChecker \<Rightarrow> block_store \<Rightarrow> bptr \<Rightarrow> nat \<Rightarrow> ThresholdState" where
  "ref_state tc bs p 0 = THRESHOLD_DEFINED"
| "ref_state tc bs p (Suc k) = projr (next_state tc bs (boundary tc bs p (Suc k)) (ref_state tc bs p k))"

definition periods :: "ThresholdChecker \<Rightarrow> block_store \<Rightarrow> bptr \<Rightarrow> nat" where
  "periods tc bs p = nat ((bn_nHeight (bs ! p) + 1) div tc_Period tc)"

definition state_after :: "ThresholdChecker \<Rightarrow> block_store \<Rightarrow> bptr option \<Rightarrow> ThresholdState" where
  "state_after tc bs q = (case q of None \<Rightarrow> THRESHOLD_DEFINED | Some p \<Rightarrow> ref_state tc bs p (periods tc bs p))"

lemma le_div_iff: "k \<le> a div n \<longleftrightarrow> k * n \<le> a" if "0 < n" for k a n :: int
proof
  assume "k \<le> a div n"
  then have "k * n \<le> a div n * n" using that by (intro mult_right_mono) simp_all
  also have "\<dots> \<le> a" using that by (simp add: minus_mod_eq_div_mult [symmetric])
  finally show "k * n \<le> a" .
next
  assume "k * n \<le> a"
  then have "k * n div n \<le> a div n" using that by (rule zdiv_mono1)
  then show "k \<le> a div n" using that by simp
qed

lemma periods_le:
  assumes "0 < tc_Period tc" "0 \<le> bn_nHeight (bs ! p)"
  shows "k \<le> periods tc bs p \<longleftrightarrow> int k * tc_Period tc - 1 \<le> bn_nHeight (bs ! p)"
proof -
  have "k \<le> periods tc bs p \<longleftrightarrow> int k \<le> (bn_nHeight (bs ! p) + 1) div tc_Period tc"
    using assms by (simp add: periods_def le_nat_iff pos_imp_zdiv_nonneg_iff)
  also have "\<dots> \<longleftrightarrow> int k * tc_Period tc \<le> bn_nHeight (bs ! p) + 1"
    using assms(1) by (rule le_div_iff)
  finally show ?thesis by linarith
qed

lemma boundary_eq:
  assumes "tree_ok bs" "p < length bs" "0 < tc_Period tc" "0 < k" "k \<le> periods tc bs p"
  shows "ancestor_at bs p (int k * tc_Period tc - 1) = Some (boundary tc bs p k)"
    "boundary tc bs p k < length bs" "bn_nHeight (bs ! boundary tc bs p k) = int k * tc_Period tc - 1"
proof -
  have "1 * 1 \<le> int k * tc_Period tc" using assms(3,4) by (intro mult_mono) simp_all
  then obtain q where "ancestor_at bs p (int k * tc_Period tc - 1) = Some q" "q < length bs"
      "bn_nHeight (bs ! q) = int k * tc_Period tc - 1"
    using ancestor_at_total [OF assms(1,2)] assms(5) periods_le [OF assms(3) tree_height [OF assms(1,2)]]
    by (metis add_le_imp_le_diff le_add_diff_inverse2 mult_1 nle_le diff_ge_0_iff_ge)
  then show "ancestor_at bs p (int k * tc_Period tc - 1) = Some (boundary tc bs p k)"
    "boundary tc bs p k < length bs" "bn_nHeight (bs ! boundary tc bs p k) = int k * tc_Period tc - 1"
    by (simp_all add: boundary_def)
qed

text \<open>The states on a branch are those of its blocks.\<close>

lemma ref_state_ancestor:
  assumes "tree_ok bs" "p < length bs" "ancestor_at bs p h = Some q" "int k * tc_Period tc - 1 \<le> h" "0 < tc_Period tc"
  shows "ref_state tc bs q k = ref_state tc bs p k"
  using assms(4)
proof (induction k)
  case (Suc k)
  have "boundary tc bs q (Suc k) = boundary tc bs p (Suc k)"
    using ancestor_at_trans [OF assms(1-3), of "int (Suc k) * tc_Period tc - 1"] Suc.prems by (simp only: boundary_def)
  moreover have "int k * tc_Period tc - 1 \<le> h" using Suc.prems assms(5) by (simp add: algebra_simps)
  ultimately show ?case using Suc.IH by simp
qed simp

lemma ref_state_step:
  assumes "tree_ok bs" "checker_ok tc bs" "p < length bs" "Suc k \<le> periods tc bs p"
  shows "next_state tc bs (boundary tc bs p (Suc k)) (ref_state tc bs p k) = Inr (ref_state tc bs p (Suc k))"
proof -
  have n: "0 < tc_Period tc" using assms(2) by (simp add: checker_ok_def)
  note b = boundary_eq [OF assms(1,3) n _ assms(4)]
  have "1 * tc_Period tc \<le> int (Suc k) * tc_Period tc" using n by (intro mult_right_mono) simp_all
  then have "tc_Period tc \<le> bn_nHeight (bs ! boundary tc bs p (Suc k)) + 1" using b(3) by simp
  then obtain s' where "next_state tc bs (boundary tc bs p (Suc k)) (ref_state tc bs p k) = Inr s'"
    using next_state_total [OF assms(1,2) b(2)] by blast
  then show ?thesis by simp
qed

section \<open>The cached computation\<close>

text \<open>Median times do not decrease along a branch.\<close>

definition mtp_monotone :: "block_store \<Rightarrow> bool" where
  "mtp_monotone bs = (\<forall>p < length bs. \<forall>q. bn_pprev (bs ! p) = Some q \<longrightarrow> mtp bs q \<le> mtp bs p)"

lemma mtp_ancestor:
  assumes "tree_ok bs" "mtp_monotone bs"
  shows "p < length bs \<Longrightarrow> walk bs n p = Some q \<Longrightarrow> mtp bs q \<le> mtp bs p"
proof (induction n arbitrary: p)
  case (Suc n)
  then obtain r where r: "bn_pprev (bs ! p) = Some r" "walk bs n r = Some q" by (auto split: option.splits)
  have "r < length bs" using tree_parent(2) [OF assms(1) Suc.prems(1) r(1)] .
  moreover have "mtp bs r \<le> mtp bs p" using assms(2) Suc.prems(1) r(1) by (auto simp: mtp_monotone_def)
  ultimately show ?case using Suc.IH r(2) by force
qed simp

lemma ref_state_early:
  assumes "tree_ok bs" "checker_ok tc bs" "mtp_monotone bs" "tc_BeginTime tc \<le> tc_EndTime tc" "p < length bs"
    and "k \<le> periods tc bs p" "0 < k \<Longrightarrow> mtp bs (boundary tc bs p k) < tc_BeginTime tc"
  shows "ref_state tc bs p k = THRESHOLD_DEFINED"
  using assms(6,7)
proof (induction k)
  case (Suc k)
  have n: "0 < tc_Period tc" using assms(2) by (simp add: checker_ok_def)
  let ?b = "boundary tc bs p"
  note b = boundary_eq [OF assms(1,5) n _ Suc.prems(1)]
  have "mtp bs (?b k) < tc_BeginTime tc" if "0 < k"
  proof -
    have k: "k \<le> periods tc bs p" using Suc.prems(1) by simp
    note bk = boundary_eq [OF assms(1,5) n that k]
    have "ancestor_at bs (?b (Suc k)) (int k * tc_Period tc - 1) = Some (?b k)"
      using ancestor_at_trans [OF assms(1,5) b(1)] bk(1) n by (simp add: algebra_simps)
    then obtain j where "walk bs j (?b (Suc k)) = Some (?b k)" by (auto simp: ancestor_at_def split: if_splits)
    then have "mtp bs (?b k) \<le> mtp bs (?b (Suc k))" using mtp_ancestor [OF assms(1,3)] b(2) by simp
    then show ?thesis using Suc.prems(2) by simp
  qed
  then have "ref_state tc bs p k = THRESHOLD_DEFINED" using Suc by simp
  then show ?case
    using Suc.prems(2) assms(4) b(2) by (simp add: next_state_def GetMedianTimePast_eq [OF assms(1)])
qed simp

definition cache_ok :: "ThresholdChecker \<Rightarrow> block_store \<Rightarrow> ThresholdConditionCache \<Rightarrow> bool" where
  "cache_ok tc bs cache = (\<forall>q s. cache q = Some s \<longrightarrow> s = state_after tc bs q)"

lemma cache_ok_update [intro]:
  "cache_ok tc bs cache \<Longrightarrow> s = state_after tc bs q \<Longrightarrow> cache_ok tc bs (cache(q \<mapsto> s))"
  by (simp add: cache_ok_def)

text \<open>A pointer the loops visit: none, or the last block of a period.\<close>

definition at_boundary :: "ThresholdChecker \<Rightarrow> block_store \<Rightarrow> bptr option \<Rightarrow> bool" where
  "at_boundary tc bs q = (\<forall>p. q = Some p \<longrightarrow> p < length bs \<and> tc_Period tc dvd bn_nHeight (bs ! p) + 1)"

lemma boundary_self:
  assumes "tree_ok bs" "0 < tc_Period tc" "at_boundary tc bs (Some p)"
  shows "0 < periods tc bs p" "boundary tc bs p (periods tc bs p) = p"
    "int (periods tc bs p) * tc_Period tc = bn_nHeight (bs ! p) + 1"
proof -
  have p: "p < length bs" "tc_Period tc dvd bn_nHeight (bs ! p) + 1" using assms(3) by (simp_all add: at_boundary_def)
  have h: "0 \<le> bn_nHeight (bs ! p)" using tree_height [OF assms(1) p(1)] .
  obtain j where j: "bn_nHeight (bs ! p) + 1 = tc_Period tc * j" using p(2) by (elim dvdE)
  have "0 < j"
  proof (rule ccontr)
    assume "\<not> 0 < j"
    then have "tc_Period tc * j \<le> 0" using assms(2) by (simp add: mult_nonneg_nonpos)
    then show False using j h by simp
  qed
  have "periods tc bs p = nat j" using assms(2) by (simp add: periods_def j)
  then show mult: "int (periods tc bs p) * tc_Period tc = bn_nHeight (bs ! p) + 1" and "0 < periods tc bs p"
    using j \<open>0 < j\<close> by (simp_all add: mult.commute)
  then show "boundary tc bs p (periods tc bs p) = p" using ancestor_at_self [OF assms(1) p(1)] by (simp add: boundary_def)
qed

lemma back_pointer:
  assumes "tree_ok bs" "0 < tc_Period tc" "at_boundary tc bs (Some p)"
  shows "at_boundary tc bs (ancestor_at bs p (bn_nHeight (bs ! p) - tc_Period tc))"
    "ref_state tc bs p (periods tc bs p - 1) = state_after tc bs (ancestor_at bs p (bn_nHeight (bs ! p) - tc_Period tc))"
proof -
  let ?h = "bn_nHeight (bs ! p)" and ?n = "tc_Period tc"
  let ?q = "ancestor_at bs p (?h - ?n)"
  have p: "p < length bs" "?n dvd ?h + 1" using assms(3) by (simp_all add: at_boundary_def)
  have dvd: "?n dvd ?h - ?n + 1" using p(2) by (simp add: dvd_diff_commute algebra_simps)
  note self = boundary_self [OF assms]
  show "at_boundary tc bs ?q"
    using ancestor_at_SomeD [OF assms(1) p(1)] dvd by (fastforce simp: at_boundary_def)
  show "ref_state tc bs p (periods tc bs p - 1) = state_after tc bs ?q"
  proof (cases ?q)
    case None
    have "?h - ?n < 0" using None ancestor_at_total [OF assms(1) p(1), of "?h - ?n"] assms(2) by fastforce
    then have "int (periods tc bs p) * ?n \<le> 1 * ?n" using self(3) by simp
    then have "periods tc bs p = 1" using assms(2) self(1) by simp
    then show ?thesis using None by (simp add: state_after_def)
  next
    case (Some q)
    note q = ancestor_at_SomeD [OF assms(1) p(1) Some]
    have "int (periods tc bs p - 1) * ?n = ?h + 1 - ?n" using self by (simp add: of_nat_diff algebra_simps)
    then have "periods tc bs q = periods tc bs p - 1" unfolding periods_def [of tc bs q] q(5)
      using assms(2) by (metis add_diff_eq add.commute diff_add_eq nat_int nonzero_mult_div_cancel_right order_less_irrefl)
    moreover have "int (periods tc bs p - 1) * ?n - 1 \<le> ?h - ?n"
      using \<open>int (periods tc bs p - 1) * ?n = ?h + 1 - ?n\<close> by simp
    ultimately show ?thesis
      using ref_state_ancestor [OF assms(1) p(1) Some] assms(2) Some by (simp add: state_after_def)
  qed
qed

lemma back_loop_spec:
  assumes "tree_ok bs" "checker_ok tc bs" "mtp_monotone bs" "tc_BeginTime tc \<le> tc_EndTime tc"
  shows "at_boundary tc bs q \<Longrightarrow> cache_ok tc bs cache \<Longrightarrow>
    \<exists>cache1 q1 us s cache2. back_loop tc bs cache q v = Some (Inr (cache1, q1, us @ v)) \<and> cache1 q1 = Some s \<and>
      cache_ok tc bs cache2 \<and>
      (\<forall>rest. forward_loop tc bs (us @ rest) s cache1 = forward_loop tc bs rest (state_after tc bs q) cache2)"
proof (induction "case q of None \<Rightarrow> 0 | Some p \<Rightarrow> nat (bn_nHeight (bs ! p) + 1)" arbitrary: q v rule: less_induct)
  case less
  have n: "0 < tc_Period tc" using assms(2) by (simp add: checker_ok_def)
  show ?case
  proof (cases "cache q")
    case (Some s)
    then have "back_loop tc bs cache q v = Some (Inr (cache, q, [] @ v))" by (subst back_loop.simps) simp
    moreover have "s = state_after tc bs q" using Some less.prems(2) by (simp add: cache_ok_def)
    ultimately show ?thesis using Some less.prems(2) by fastforce
  next
    case unknown: None
    have stop: ?thesis if "back_loop tc bs cache q v = Some (Inr (cache(q \<mapsto> THRESHOLD_DEFINED), q, v))"
      "state_after tc bs q = THRESHOLD_DEFINED"
      using that less.prems(2)
      by (intro exI [of _ "cache(q \<mapsto> THRESHOLD_DEFINED)"] exI [of _ q] exI [of _ "[]"] exI [of _ THRESHOLD_DEFINED])
        (auto intro!: exI [of _ "cache(q \<mapsto> THRESHOLD_DEFINED)"])
    show ?thesis
    proof (cases q)
      case None
      then show ?thesis using unknown by (intro stop) (subst back_loop.simps, simp_all add: state_after_def)
    next
      case (Some p)
      have p: "p < length bs" using less.prems(1) Some by (simp add: at_boundary_def)
      have b: "at_boundary tc bs (Some p)" using less.prems(1) Some by simp
      note self = boundary_self [OF assms(1) n b]
      have eval: "bindR (deref bs (Some p)) (\<lambda>b. bindR (GetMedianTimePast bs p) (\<lambda>t. Inr (b, t))) = Inr (bs ! p, mtp bs p)"
        using p by (simp add: deref_def GetMedianTimePast_eq [OF assms(1)])
      show ?thesis
      proof (cases "mtp bs p < tc_BeginTime tc")
        case True
        then have "state_after tc bs q = THRESHOLD_DEFINED"
          using ref_state_early [OF assms p order.refl] self(2) Some by (simp add: state_after_def)
        moreover have "back_loop tc bs cache q v = Some (Inr (cache(q \<mapsto> THRESHOLD_DEFINED), q, v))"
          using unknown Some eval True by (subst back_loop.simps) simp
        ultimately show ?thesis by (intro stop)
      next
        case False
        let ?r = "ancestor_at bs p (bn_nHeight (bs ! p) - tc_Period tc)"
        have step: "back_loop tc bs cache q v = back_loop tc bs cache ?r (p # v)"
          using unknown Some eval False by (subst back_loop.simps) (simp add: GetAncestor_eq [OF assms(1) p])
        have small: "(case ?r of None \<Rightarrow> 0 | Some p \<Rightarrow> nat (bn_nHeight (bs ! p) + 1)) <
            (case q of None \<Rightarrow> 0 | Some p \<Rightarrow> nat (bn_nHeight (bs ! p) + 1))"
          using Some n tree_height [OF assms(1) p] ancestor_at_SomeD(5) [OF assms(1) p]
          by (auto split: option.split)
        note prev = back_pointer [OF assms(1) n b]
        obtain cache1 q1 us s cache2 where IH: "back_loop tc bs cache ?r (p # v) = Some (Inr (cache1, q1, us @ p # v))"
            "cache1 q1 = Some s" "cache_ok tc bs cache2"
            "\<And>rest. forward_loop tc bs (us @ rest) s cache1 = forward_loop tc bs rest (state_after tc bs ?r) cache2"
          using less.hyps [OF small prev(1) less.prems(2), of "p # v"] by blast
        obtain k where k: "periods tc bs p = Suc k" using self(1) by (cases "periods tc bs p") auto
        have nxt: "next_state tc bs p (state_after tc bs ?r) = Inr (state_after tc bs q)"
          using ref_state_step [OF assms(1,2) p, of k] self(2) prev(2) k Some by (simp add: state_after_def)
        have "forward_loop tc bs ((us @ [p]) @ rest) s cache1 =
            forward_loop tc bs rest (state_after tc bs q) (cache2(q \<mapsto> state_after tc bs q))" for rest
          using IH(4) [of "p # rest"] nxt Some by simp
        moreover have "cache_ok tc bs (cache2(q \<mapsto> state_after tc bs q))" using IH(3) by auto
        ultimately show ?thesis using step IH(1,2)
          by (intro exI [of _ cache1] exI [of _ q1] exI [of _ "us @ [p]"] exI [of _ s]
              exI [of _ "cache2(q \<mapsto> state_after tc bs q)"]) simp
      qed
    qed
  qed
qed

lemma period_start_spec:
  assumes "tree_ok bs" "0 < tc_Period tc" "\<forall>p. q = Some p \<longrightarrow> p < length bs"
  obtains r where "period_start bs (tc_Period tc) q = Inr r" "at_boundary tc bs r"
    "state_after tc bs r = state_after tc bs q"
proof (cases q)
  case None
  then show ?thesis using that [of None] by (simp add: period_start_def at_boundary_def)
next
  case (Some p)
  let ?h = "bn_nHeight (bs ! p)" and ?n = "tc_Period tc"
  let ?k = "?h - (?h + 1) mod ?n"
  have p: "p < length bs" using assms(3) Some by simp
  have h: "0 \<le> ?h" using tree_height [OF assms(1) p] .
  have start: "period_start bs ?n q = Inr (ancestor_at bs p ?k)"
    using Some p assms(2) by (simp add: period_start_def deref_def GetAncestor_eq [OF assms(1)])
  have k: "?k + 1 = (?h + 1) div ?n * ?n" using div_mult_mod_eq [of "?h + 1" ?n] by linarith
  have le: "?k \<le> ?h" using assms(2) by (simp add: pos_mod_sign)
  show ?thesis
  proof (cases "ancestor_at bs p ?k")
    case None
    have "?k < 0" using None ancestor_at_total [OF assms(1) p _ le] by fastforce
    then have "(?h + 1) div ?n * ?n \<le> 0" using k by simp
    then have "(?h + 1) div ?n \<le> 0" using assms(2) by (simp add: mult_le_0_iff)
    then have "periods tc bs p = 0" by (simp add: periods_def)
    then show ?thesis using that [OF start] None Some by (simp add: at_boundary_def state_after_def)
  next
    case (Some r)
    note r = ancestor_at_SomeD [OF assms(1) p Some]
    have per: "periods tc bs r = periods tc bs p" using k assms(2) by (simp add: periods_def r(5))
    have "int (periods tc bs p) * ?n - 1 \<le> ?k"
      using k h assms(2) by (simp add: periods_def pos_imp_zdiv_nonneg_iff)
    then have "state_after tc bs (Some r) = state_after tc bs (Some p)"
      using ref_state_ancestor [OF assms(1) p Some] assms(2) per by (simp add: state_after_def)
    moreover have "at_boundary tc bs (Some r)" using r(4,5) k by (simp add: at_boundary_def)
    ultimately show ?thesis using that [OF start] Some \<open>q = Some p\<close> by simp
  qed
qed

lemma GetStateFor_spec:
  assumes "tree_ok bs" "checker_ok tc bs" "mtp_monotone bs" "tc_BeginTime tc \<le> tc_EndTime tc"
    and "\<forall>p. q = Some p \<longrightarrow> p < length bs" and "cache_ok tc bs cache"
  obtains cache' where "GetStateFor tc bs q cache = Some (Inr (state_after tc bs q, cache'))" "cache_ok tc bs cache'"
proof -
  have n: "0 < tc_Period tc" using assms(2) by (simp add: checker_ok_def)
  obtain r where r: "period_start bs (tc_Period tc) q = Inr r" "at_boundary tc bs r"
      "state_after tc bs r = state_after tc bs q"
    using period_start_spec [OF assms(1) n assms(5)] by metis
  obtain cache1 q1 us s cache2 where b: "back_loop tc bs cache r [] = Some (Inr (cache1, q1, us @ []))"
      "cache1 q1 = Some s" "cache_ok tc bs cache2"
      "\<And>rest. forward_loop tc bs (us @ rest) s cache1 = forward_loop tc bs rest (state_after tc bs r) cache2"
    using back_loop_spec [OF assms(1-4) r(2) assms(6), of "[]"] by blast
  show ?thesis using that [OF _ b(3)] b(1,2) b(4) [of "[]"] r by (simp add: GetStateFor_def)
qed

section \<open>Deployments\<close>

text \<open>
  The signal of a block is the bit of the deployment alone: whatever the top bits of the version, the conditional
  expression of the source is a non-zero constant.
\<close>

lemma signal_ignores_top_bits:
  assumes "tree_ok bs" "p < length bs" "dep_bit (dp_vDeployments params ! pos) \<le> 32"
  shows "vb_Condition params pos bs p =
    Inr ((word_of_int (bn_nVersion (bs ! p)) :: u64) AND VersionBitsMask params pos \<noteq> 0)"
  using assms by (simp add: vb_Condition_def deref_def IsSigHFEnabled_def GetMedianTimePast_eq)

lemma vb_checker_ok:
  assumes "tree_ok bs" "0 < dp_nMinerConfirmationWindow params"
  shows "checker_ok (vb_checker params pos) bs"
proof -
  have "\<exists>c. vb_Condition params pos bs p = Inr c" if "p < length bs" for p
    using that assms(1) signal_ignores_top_bits [OF assms(1) that, of params pos]
    by (cases "dep_bit (dp_vDeployments params ! pos) \<le> 32") (auto simp: vb_Condition_def deref_def)
  then show ?thesis using assms(2) by (simp add: checker_ok_def vb_checker_def)
qed

definition deployment_ok :: "DeploymentParams \<Rightarrow> nat \<Rightarrow> bool" where
  "deployment_ok params pos = (0 < dp_nMinerConfirmationWindow params \<and>
     dep_nStartTime (dp_vDeployments params ! pos) \<le> dep_nTimeout (dp_vDeployments params ! pos))"

lemma VersionBitsState_spec:
  assumes "tree_ok bs" "mtp_monotone bs" "deployment_ok params pos" "p < length bs"
    and "cache_ok (vb_checker params pos) bs (vc pos)"
  obtains cache where "VersionBitsState params bs (Some p) pos vc =
      Some (Inr (state_after (vb_checker params pos) bs (Some p), vc(pos := cache)))"
    "cache_ok (vb_checker params pos) bs cache"
proof -
  let ?tc = "vb_checker params pos"
  have "checker_ok ?tc bs" using vb_checker_ok [OF assms(1)] assms(3) by (simp add: deployment_ok_def)
  moreover have "tc_BeginTime ?tc \<le> tc_EndTime ?tc" using assms(3) by (simp add: deployment_ok_def vb_checker_def)
  ultimately obtain cache where "GetStateFor ?tc bs (Some p) (vc pos) = Some (Inr (state_after ?tc bs (Some p), cache))"
      "cache_ok ?tc bs cache"
    using GetStateFor_spec [of bs ?tc "Some p" "vc pos"] assms by auto
  then show ?thesis using that by (simp add: VersionBitsState_def)
qed

text \<open>
  C29. The state of a deployment does not depend on the cache. On a block tree whose median times do not decrease,
  starting from any cache that holds only states computed before, \<^verbatim>\<open>VersionBitsState\<close> returns the state that the
  definition gives when every period is recomputed from the first one, and leaves such a cache behind; the early
  exits before the start time do not change the result.
\<close>

theorem VersionBitsState_uncached:
  assumes "tree_ok bs" "mtp_monotone bs" "deployment_ok params pos" "p < length bs"
    and "cache_ok (vb_checker params pos) bs (vc pos)"
  shows "\<exists>cache. VersionBitsState params bs (Some p) pos vc =
      Some (Inr (ref_state (vb_checker params pos) bs p (periods (vb_checker params pos) bs p), vc(pos := cache))) \<and>
    cache_ok (vb_checker params pos) bs cache"
  using VersionBitsState_spec [where vc = vc, OF assms] by (metis option.case(2) state_after_def)

section \<open>Progress\<close>

lemma ref_state_next:
  assumes "tree_ok bs" "checker_ok tc bs" "p < length bs" "Suc k \<le> periods tc bs p"
  shows "ref_state tc bs p k = THRESHOLD_LOCKED_IN \<Longrightarrow> ref_state tc bs p (Suc k) = THRESHOLD_ACTIVE"
    "ref_state tc bs p k = THRESHOLD_ACTIVE \<Longrightarrow> ref_state tc bs p (Suc k) = THRESHOLD_ACTIVE"
    "ref_state tc bs p k = THRESHOLD_FAILED \<Longrightarrow> ref_state tc bs p (Suc k) = THRESHOLD_FAILED"
    "tc_EndTime tc \<le> mtp bs (boundary tc bs p (Suc k)) \<Longrightarrow>
      ref_state tc bs p (Suc k) \<notin> {THRESHOLD_DEFINED, THRESHOLD_STARTED}"
proof -
  have n: "0 < tc_Period tc" using assms(2) by (simp add: checker_ok_def)
  note b = boundary_eq [OF assms(1,3) n _ assms(4)]
  note step = ref_state_step [OF assms]
  show "ref_state tc bs p k = THRESHOLD_LOCKED_IN \<Longrightarrow> ref_state tc bs p (Suc k) = THRESHOLD_ACTIVE"
    "ref_state tc bs p k = THRESHOLD_ACTIVE \<Longrightarrow> ref_state tc bs p (Suc k) = THRESHOLD_ACTIVE"
    "ref_state tc bs p k = THRESHOLD_FAILED \<Longrightarrow> ref_state tc bs p (Suc k) = THRESHOLD_FAILED"
    by (simp_all add: next_state_def)
  assume "tc_EndTime tc \<le> mtp bs (boundary tc bs p (Suc k))"
  then show "ref_state tc bs p (Suc k) \<notin> {THRESHOLD_DEFINED, THRESHOLD_STARTED}"
    using b(2) by (cases "ref_state tc bs p k") (simp_all add: next_state_def GetMedianTimePast_eq [OF assms(1)])
qed

lemma ref_state_persists:
  assumes "tree_ok bs" "checker_ok tc bs" "p < length bs" "j \<le> k" "k \<le> periods tc bs p"
  shows "ref_state tc bs p j = THRESHOLD_ACTIVE \<Longrightarrow> ref_state tc bs p k = THRESHOLD_ACTIVE"
    "ref_state tc bs p j = THRESHOLD_FAILED \<Longrightarrow> ref_state tc bs p k = THRESHOLD_FAILED"
    "ref_state tc bs p j = THRESHOLD_LOCKED_IN \<Longrightarrow> j < k \<Longrightarrow> ref_state tc bs p k = THRESHOLD_ACTIVE"
proof -
  have "(ref_state tc bs p j = THRESHOLD_ACTIVE \<longrightarrow> ref_state tc bs p k = THRESHOLD_ACTIVE) \<and>
      (ref_state tc bs p j = THRESHOLD_FAILED \<longrightarrow> ref_state tc bs p k = THRESHOLD_FAILED) \<and>
      (ref_state tc bs p j = THRESHOLD_LOCKED_IN \<longrightarrow> j < k \<longrightarrow> ref_state tc bs p k = THRESHOLD_ACTIVE)"
    using assms(4,5)
  proof (induction k rule: dec_induct)
    case (step k)
    then have "Suc k \<le> periods tc bs p" by simp
    note nxt = ref_state_next [OF assms(1-3) this]
    show ?case using step nxt by (cases "j = k") (auto simp del: ref_state.simps)
  qed simp
  then show "ref_state tc bs p j = THRESHOLD_ACTIVE \<Longrightarrow> ref_state tc bs p k = THRESHOLD_ACTIVE"
    "ref_state tc bs p j = THRESHOLD_FAILED \<Longrightarrow> ref_state tc bs p k = THRESHOLD_FAILED"
    "ref_state tc bs p j = THRESHOLD_LOCKED_IN \<Longrightarrow> j < k \<Longrightarrow> ref_state tc bs p k = THRESHOLD_ACTIVE" by auto
qed

text \<open>
  C30. A deployment makes progress. Take a block and a descendant of it, and the states that \<^verbatim>\<open>VersionBitsState\<close>
  returns for them with any caches. A deployment locked in for the block is active for the descendant as soon as a
  period has ended in between; an active or failed deployment stays so for ever; and when the median time has reached
  the timeout at the end of a period, the deployment is decided: it is neither defined nor started.
\<close>

theorem deployment_progress:
  assumes "tree_ok bs" "mtp_monotone bs" "deployment_ok params pos" "p' < length bs"
    and "ancestor_at bs p' (bn_nHeight (bs ! p)) = Some p"
    and "cache_ok (vb_checker params pos) bs (vc pos)" "cache_ok (vb_checker params pos) bs (vc' pos)"
    and "VersionBitsState params bs (Some p) pos vc = Some (Inr (s, vc1))"
    and "VersionBitsState params bs (Some p') pos vc' = Some (Inr (s', vc2))"
  shows "(s = THRESHOLD_LOCKED_IN \<and> periods (vb_checker params pos) bs p < periods (vb_checker params pos) bs p'
      \<longrightarrow> s' = THRESHOLD_ACTIVE) \<and>
    (s = THRESHOLD_ACTIVE \<longrightarrow> s' = THRESHOLD_ACTIVE) \<and> (s = THRESHOLD_FAILED \<longrightarrow> s' = THRESHOLD_FAILED) \<and>
    (0 < periods (vb_checker params pos) bs p' \<and>
     dep_nTimeout (dp_vDeployments params ! pos) \<le>
       mtp bs (boundary (vb_checker params pos) bs p' (periods (vb_checker params pos) bs p'))
     \<longrightarrow> s' \<noteq> THRESHOLD_DEFINED \<and> s' \<noteq> THRESHOLD_STARTED)"
proof -
  let ?tc = "vb_checker params pos"
  have tc: "checker_ok ?tc bs" "0 < tc_Period ?tc" "tc_EndTime ?tc = dep_nTimeout (dp_vDeployments params ! pos)"
    using vb_checker_ok [OF assms(1)] assms(3) by (simp_all add: deployment_ok_def vb_checker_def)
  note anc = ancestor_at_SomeD [OF assms(1,4,5)]
  have s: "s = ref_state ?tc bs p (periods ?tc bs p)" and s': "s' = ref_state ?tc bs p' (periods ?tc bs p')"
    using VersionBitsState_spec [where vc = vc, OF assms(1-3) anc(4) assms(6)]
      VersionBitsState_spec [where vc = vc', OF assms(1-4,7)] assms(8,9)
    by (auto simp: state_after_def)
  have le: "int (periods ?tc bs p) * tc_Period ?tc - 1 \<le> bn_nHeight (bs ! p)"
    using periods_le [of ?tc bs p "periods ?tc bs p"] tc(2) anc(1,5) by simp
  have same: "ref_state ?tc bs p (periods ?tc bs p) = ref_state ?tc bs p' (periods ?tc bs p)"
    by (rule ref_state_ancestor [OF assms(1,4,5) le tc(2)])
  have "periods ?tc bs p \<le> periods ?tc bs p'"
    using periods_le [of ?tc bs p'] tc(2) tree_height [OF assms(1,4)] le anc(2) by (meson order_trans)
  note persists = ref_state_persists [OF assms(1) tc(1) assms(4) this order.refl]
  have "s' \<noteq> THRESHOLD_DEFINED \<and> s' \<noteq> THRESHOLD_STARTED"
    if pos: "0 < periods ?tc bs p'" and late: "tc_EndTime ?tc \<le> mtp bs (boundary ?tc bs p' (periods ?tc bs p'))"
  proof -
    obtain k where k: "periods ?tc bs p' = Suc k" using pos by (cases "periods ?tc bs p'") auto
    then show ?thesis using ref_state_next(4) [OF assms(1) tc(1) assms(4), of k] late s' by auto
  qed
  then show ?thesis using persists s s' same tc(3) by simp
qed

text \<open>A chain of eight blocks in periods of two, every block signalling on bit 3.\<close>

definition sample_block :: "nat \<Rightarrow> BlockNode" where
  "sample_block i =
     \<lparr>bn_hash = of_nat i, bn_pprev = (if i = 0 then None else Some (i - 1)),
      bn_pskip = (if i = 0 then None else Some (nat (GetSkipHeight (int i)))), bn_nHeight = int i,
      bn_nChainWork = replicate 8 0, bn_nStatus = 0, bn_nVersion = 8, bn_nTime = of_nat (10 * i), bn_nBits = 0,
      bn_nNonce = 0, bn_nFlags = 0, bn_nSequenceId = 0\<rparr>"

definition sample_store :: block_store where
  "sample_store = map sample_block [0..<8]"

definition sample_params :: DeploymentParams where
  "sample_params = \<lparr>dp_vDeployments = [\<lparr>dep_bit = 3, dep_nStartTime = 0, dep_nTimeout = 1000\<rparr>],
     dp_nMinerConfirmationWindow = 2, dp_nRuleChangeActivationThreshold = 2, dp_sigActivationTime = 0\<rparr>"

lemma sample_tree: "tree_ok sample_store"
  unfolding tree_ok_def by code_simp

lemma sample_monotone: "mtp_monotone sample_store"
proof -
  have "list_all (\<lambda>p. case bn_pprev (sample_store ! p) of None \<Rightarrow> True | Some q \<Rightarrow> mtp sample_store q \<le> mtp sample_store p)
      [0..<length sample_store]"
    by code_simp
  then show ?thesis by (auto simp: mtp_monotone_def list_all_iff split: option.splits)
qed

lemma sample_deployment: "deployment_ok sample_params 0"
  by (simp add: deployment_ok_def sample_params_def)

lemma empty_cache_ok: "cache_ok tc bs (\<lambda>_. None)"
  by (simp add: cache_ok_def)

lemma sample_length: "length sample_store = 8"
  by (simp add: sample_store_def)

theorem VersionBitsState_uncached_witness:
  "\<exists>cache. VersionBitsState sample_params sample_store (Some 5) 0 (\<lambda>_ _. None) =
     Some (Inr (THRESHOLD_ACTIVE, (\<lambda>_ _. None)(0 := cache)))"
proof -
  have "ref_state (vb_checker sample_params 0) sample_store 5 (periods (vb_checker sample_params 0) sample_store 5) =
      THRESHOLD_ACTIVE" by code_simp
  moreover have "5 < length sample_store" by (simp add: sample_length)
  ultimately show ?thesis
    using VersionBitsState_uncached [OF sample_tree sample_monotone sample_deployment, of 5 "\<lambda>_ _. None"] empty_cache_ok
    by auto
qed

theorem deployment_progress_witness:
  "\<exists>vc1 vc2. VersionBitsState sample_params sample_store (Some 3) 0 (\<lambda>_ _. None) = Some (Inr (THRESHOLD_LOCKED_IN, vc1)) \<and>
     VersionBitsState sample_params sample_store (Some 7) 0 (\<lambda>_ _. None) = Some (Inr (THRESHOLD_ACTIVE, vc2))"
proof -
  let ?tc = "vb_checker sample_params 0" and ?vc = "\<lambda>_ _. None"
  have c: "cache_ok ?tc sample_store (?vc 0)" by (rule empty_cache_ok)
  have lt: "3 < length sample_store" "7 < length sample_store" by (simp_all add: sample_length)
  obtain vc1 where v1: "VersionBitsState sample_params sample_store (Some 3) 0 ?vc =
      Some (Inr (state_after ?tc sample_store (Some 3), vc1))"
    using VersionBitsState_spec [where vc = ?vc, OF sample_tree sample_monotone sample_deployment lt(1) c] by metis
  obtain s vc2 where v2: "VersionBitsState sample_params sample_store (Some 7) 0 ?vc = Some (Inr (s, vc2))"
    using VersionBitsState_spec [where vc = ?vc, OF sample_tree sample_monotone sample_deployment lt(2) c] by metis
  have locked: "state_after ?tc sample_store (Some 3) = THRESHOLD_LOCKED_IN" by code_simp
  have anc: "ancestor_at sample_store 7 (bn_nHeight (sample_store ! 3)) = Some 3" by code_simp
  have "periods ?tc sample_store 3 < periods ?tc sample_store 7" by code_simp
  then have "s = THRESHOLD_ACTIVE"
    using deployment_progress [where vc = ?vc and vc' = ?vc,
        OF sample_tree sample_monotone sample_deployment lt(2) anc c c v1 v2] locked by simp
  then show ?thesis using v1 v2 locked by auto
qed

end
