(* ===== verification/Retarget.thy ===== *)
theory Retarget
  imports Chain
begin

text \<open>
  The difficulty of the next block (\<^verbatim>\<open>GetNextTargetRequired\<close> of \<^verbatim>\<open>main.cpp\<close> and \<^verbatim>\<open>CheckProofOfWork\<close> of
  \<^verbatim>\<open>pow.cpp\<close>): a retarget at every block from the times of the last two blocks of the same kind.
\<close>

record RetargetParams =
  rp_ProofOfWorkLimit :: base_uint
  rp_nTargetSpacing :: int
  rp_nTargetTimespan :: u32

definition bnProofOfStakeLimitV2 :: base_uint where
  "bnProofOfStakeLimitV2 = uint_shr (uint_not (replicate 8 0)) 20"

definition GetProofOfStakeLimit :: "int \<Rightarrow> base_uint" where
  "GetProofOfStakeLimit nHeight = bnProofOfStakeLimitV2"

partial_function (option) GetLastBlockIndex :: "block_store \<Rightarrow> bptr option \<Rightarrow> bool \<Rightarrow> bptr option result option" where
  "GetLastBlockIndex bs pindex fProofOfStake =
     (case pindex of
        None \<Rightarrow> Some (Inr None)
      | Some p \<Rightarrow>
          (case deref bs (Some p) of
             Inl e \<Rightarrow> Some (Inl e)
           | Inr b \<Rightarrow>
               if bn_pprev b \<noteq> None \<and> bn_IsProofOfStake b \<noteq> fProofOfStake
               then GetLastBlockIndex bs (bn_pprev b) fProofOfStake
               else Some (Inr pindex)))"

text \<open>
  The arithmetic of the retarget, from the bits of the previous block and the spacing. The time span is unsigned and the
  spacing signed, so their quotient is taken as unsigned numbers.
\<close>

definition retarget :: "RetargetParams \<Rightarrow> base_uint \<Rightarrow> u32 \<Rightarrow> int \<Rightarrow> u32 result" where
  "retarget params bnTargetLimit nBits nActualSpacing =
     (let spacing = word_of_int (rp_nTargetSpacing params) :: u32
      in if spacing = 0 then Inl DivisionByZero
      else
        let bnNew = fst (SetCompact nBits);
            nInterval = uint_from64 8 (ucast (rp_nTargetTimespan params div spacing));
            one = uint_from64 8 1;
            actual = uint_from64 8 (word_of_int nActualSpacing);
            bnNew1 = uint_mul bnNew (uint_add (uint_add (uint_mul32 (uint_sub nInterval one) spacing) actual) actual)
        in bindR (uint_div bnNew1 (uint_mul32 (uint_add nInterval one) spacing)) (\<lambda>bnNew2.
             GetCompact False
               (if uint_CompareTo bnNew2 (uint_from64 8 0) \<le> 0 \<or> uint_CompareTo bnNew2 bnTargetLimit > 0
                then bnTargetLimit else bnNew2)))"

text \<open>
  For a proof-of-stake block the height of \<^verbatim>\<open>pindexLast\<close> is read before the test that the pointer is not null.
\<close>

definition GetNextTargetRequired ::
  "RetargetParams \<Rightarrow> block_store \<Rightarrow> bptr option \<Rightarrow> bool \<Rightarrow> u32 result option" where
  "GetNextTargetRequired params bs pindexLast fProofOfStake =
     (case (if fProofOfStake then bindR (deref bs pindexLast) (\<lambda>b. Inr (GetProofOfStakeLimit (bn_nHeight b)))
            else Inr (rp_ProofOfWorkLimit params)) of
        Inl e \<Rightarrow> Some (Inl e)
      | Inr bnTargetLimit \<Rightarrow>
          if pindexLast = None then Some (GetCompact False bnTargetLimit)
          else
            (case GetLastBlockIndex bs pindexLast fProofOfStake of
               None \<Rightarrow> None
             | Some r \<Rightarrow>
                 (case bindR r (deref bs) of
                    Inl e \<Rightarrow> Some (Inl e)
                  | Inr prev \<Rightarrow>
                      if bn_pprev prev = None then Some (GetCompact False bnTargetLimit)
                      else
                        (case GetLastBlockIndex bs (bn_pprev prev) fProofOfStake of
                           None \<Rightarrow> None
                         | Some r' \<Rightarrow>
                             (case bindR r' (deref bs) of
                                Inl e \<Rightarrow> Some (Inl e)
                              | Inr prevprev \<Rightarrow>
                                  if bn_pprev prevprev = None then Some (GetCompact False bnTargetLimit)
                                  else
                                    let nActualSpacing = bn_GetBlockTime prev - bn_GetBlockTime prevprev;
                                        spacing = (if nActualSpacing < 0 then rp_nTargetSpacing params else nActualSpacing)
                                    in Some (retarget params bnTargetLimit (bn_nBits prev) spacing))))))"

text \<open>The checks of \<^verbatim>\<open>CheckProofOfWork\<close> follow an unconditional \<^verbatim>\<open>return true\<close>.\<close>

definition CheckProofOfWork :: "uint256 \<Rightarrow> u32 \<Rightarrow> bool" where
  "CheckProofOfWork hash nBits = True"

section \<open>Bounds\<close>

lemma GetLastBlockIndex_total:
  assumes "tree_ok bs"
  shows "p < length bs \<Longrightarrow> \<exists>q < length bs. GetLastBlockIndex bs (Some p) f = Some (Inr (Some q)) \<and>
    (bn_IsProofOfStake (bs ! q) = f \<or> bn_pprev (bs ! q) = None)"
proof (induction p rule: less_induct)
  case (less p)
  show ?case
  proof (cases "bn_pprev (bs ! p) \<noteq> None \<and> bn_IsProofOfStake (bs ! p) \<noteq> f")
    case True
    then obtain q where q: "bn_pprev (bs ! p) = Some q" by blast
    have "GetLastBlockIndex bs (Some p) f = GetLastBlockIndex bs (Some q) f"
      using True q less.prems by (subst GetLastBlockIndex.simps) (simp add: deref_def)
    then show ?thesis using less.IH [OF tree_parent(1,2) [OF assms less.prems q]] by simp
  next
    case False
    then have "GetLastBlockIndex bs (Some p) f = Some (Inr (Some p))"
      using less.prems by (subst GetLastBlockIndex.simps) (auto simp: deref_def)
    then show ?thesis using False less.prems by auto
  qed
qed

definition retarget_params_ok :: "RetargetParams \<Rightarrow> bool" where
  "retarget_params_ok params = (0 < rp_nTargetSpacing params \<and> rp_nTargetSpacing params < 2 ^ 31 \<and>
     rp_nTargetSpacing params \<le> uint (rp_nTargetTimespan params) \<and>
     length (rp_ProofOfWorkLimit params) = 8 \<and> limbs (rp_ProofOfWorkLimit params) \<noteq> 0)"

text \<open>A compact form that stands for a target between one and the limit.\<close>

definition target_within :: "base_uint \<Rightarrow> u32 \<Rightarrow> bool" where
  "target_within limit c = (\<exists>v. SetCompact c = (v, False, False) \<and> 0 < limbs v \<and> limbs v \<le> limbs limit)"

lemma compact_within:
  assumes "length a = 8" "limbs a \<noteq> 0" "limbs a \<le> limbs limit"
  obtains c where "GetCompact False a = Inr c" "target_within limit c"
proof -
  obtain c v where c: "GetCompact False a = Inr c" "SetCompact c = (v, False, False)" "limbs v \<le> limbs a"
      "(limbs a - limbs v) * 2 ^ 15 \<le> limbs v"
    using GetCompact_SetCompact [OF assms(1)] by blast
  have "limbs v \<noteq> 0" using c(3,4) assms(2) by (cases "limbs v = 0") simp_all
  then have "target_within limit c" using c(2,3) assms(3) by (auto simp: target_within_def)
  then show ?thesis using that c(1) by blast
qed

lemma limbs_int:
  assumes "0 \<le> x" "x < 2 ^ 63"
  shows "limbs (uint_from64 8 (word_of_int x)) = nat x"
proof -
  have "uint (word_of_int x :: u64) = x" using assms by (simp add: uint_word_of_int_eq take_bit_int_eq_self)
  then have "unat (word_of_int x :: u64) = nat x" by (metis nat_uint_eq)
  then show ?thesis by (simp add: limbs_from64)
qed

text \<open>The new target as a number: a weighted mean of the old spacing and the actual one, clipped at the limit.\<close>

definition retarget_value :: "RetargetParams \<Rightarrow> nat \<Rightarrow> nat \<Rightarrow> nat \<Rightarrow> nat" where
  "retarget_value params limit old actual =
     (let spacing = nat (rp_nTargetSpacing params);
          interval = unat (rp_nTargetTimespan params) div spacing;
          x = (old * ((interval - 1) * spacing + 2 * actual)) mod 2 ^ 256 div ((interval + 1) * spacing)
      in if x = 0 \<or> limit < x then limit else x)"

lemma retarget_spec:
  assumes ok: "retarget_params_ok params" and limit: "length limit = 8"
    and actual: "0 \<le> actual" "actual < 2 ^ 63"
  obtains a where "retarget params limit nBits actual = GetCompact False a" "length a = 8"
    "limbs a = retarget_value params (limbs limit) (limbs (fst (SetCompact nBits))) (nat actual)"
proof -
  let ?S = "rp_nTargetSpacing params" and ?T = "rp_nTargetTimespan params"
  define n where "n = unat ?T div nat ?S"
  define w where "w = (word_of_int ?S :: u32)"
  obtain old neg ovf where old: "SetCompact nBits = (old, neg, ovf)" by (metis prod_cases3)
  have len: "length old = 8" by (rule SetCompact_value(1) [OF old])
  have S: "0 < ?S" "?S < 2 ^ 31" "?S \<le> uint ?T" using ok by (simp_all add: retarget_params_ok_def)
  have "uint w = ?S" using S by (simp add: w_def uint_word_of_int_eq take_bit_int_eq_self)
  then have w: "unat w = nat ?S" by (metis nat_uint_eq)
  then have w0: "w \<noteq> 0" using S(1) by auto
  have "nat ?S \<le> unat ?T" using S(3) nat_uint_eq [of ?T] by (metis nat_mono)
  then have "1 \<le> n" using S(1) by (simp add: n_def div_greater_zero_iff Suc_le_eq)
  moreover have "n \<le> unat ?T" unfolding n_def by (rule div_le_dividend)
  then have "n < 2 ^ 63" using limb_bound [of ?T] by simp
  moreover have "limbs (uint_from64 8 (ucast (?T div w))) = n"
    using w by (simp add: limbs_from64 unsigned_ucast_eq take_bit_nat_eq_self unat_div n_def)
  ultimately have int: "limbs (uint_from64 8 (ucast (?T div w))) = n" "1 \<le> n" "n < 2 ^ 63" by simp_all
  have small: "x * nat ?S mod 2 ^ 256 = x * nat ?S" "x * nat ?S < 2 ^ 96" if "x \<le> 2 ^ 63" for x
  proof -
    have "x * nat ?S \<le> 2 ^ 63 * 2 ^ 32" using that S by (intro mult_le_mono) simp_all
    then show "x * nat ?S < 2 ^ 96" by simp
    then show "x * nat ?S mod 2 ^ 256 = x * nat ?S" by simp
  qed
  define nI where "nI = uint_from64 8 (ucast (?T div w))"
  define one where "one = uint_from64 8 1"
  define act where "act = uint_from64 8 (word_of_int actual)"
  have l8: "length nI = 8" "length one = 8" "length act = 8" by (simp_all add: nI_def one_def act_def)
  have l1: "limbs one = 1" "limbs nI = n" "limbs act = nat actual"
    using int(1) limbs_int [OF actual] by (simp_all add: one_def nI_def act_def limbs_from64)
  define f where "f = uint_add (uint_add (uint_mul32 (uint_sub nI one) w) act) act"
  define d where "d = uint_mul32 (uint_add nI one) w"
  have "limbs (uint_sub nI one) = n - 1" using l8 l1 int(2) by (simp add: limbs_sub_le)
  then have m1: "limbs (uint_mul32 (uint_sub nI one) w) = (n - 1) * nat ?S"
    using small(1) [of "n - 1"] int(3) w l8 by (simp add: limbs_mul32)
  have "(n - 1) * nat ?S < 2 ^ 96" using small(2) [of "n - 1"] int(3) by simp
  moreover have "nat actual < 2 ^ 63" using actual(2) by simp
  ultimately have f: "limbs f = (n - 1) * nat ?S + 2 * nat actual" "length f = 8"
    using m1 l8 l1(3) by (simp_all add: f_def limbs_add limbs_mul32(1))
  have "limbs (uint_add nI one) = n + 1" using l8 l1 int(3) by (simp add: limbs_add)
  then have d: "limbs d = (n + 1) * nat ?S" "length d = 8"
    using small(1) [of "n + 1"] int(3) w l8 by (simp_all add: d_def limbs_mul32)
  then have "limbs d \<noteq> 0" using S by simp
  moreover have "length (uint_mul old f) = length d" using len f d by simp
  ultimately obtain q where q: "uint_div (uint_mul old f) d = Inr q" "length q = 8"
      "limbs q = limbs (uint_mul old f) div limbs d"
    using limbs_div [of "uint_mul old f" d] len f by auto
  let ?a = "if uint_CompareTo q (uint_from64 8 0) \<le> 0 \<or> uint_CompareTo q limit > 0 then limit else q"
  have "retarget params limit nBits actual = GetCompact False ?a"
    using w0 q(1) old unfolding retarget_def Let_def f_def d_def nI_def one_def act_def w_def by simp
  moreover have "length ?a = 8" using q(2) limit by simp
  moreover have "limbs ?a = retarget_value params (limbs limit) (limbs (fst (SetCompact nBits))) (nat actual)"
  proof -
    have "uint_CompareTo q (uint_from64 8 0) \<le> 0 \<longleftrightarrow> limbs q = 0"
      using q(2) by (simp add: CompareTo_limbs limbs_from64)
    moreover have "uint_CompareTo q limit > 0 \<longleftrightarrow> limbs limit < limbs q"
      using q(2) limit by (simp add: CompareTo_limbs)
    ultimately have "limbs ?a = (if limbs q = 0 \<or> limbs limit < limbs q then limbs limit else limbs q)" by simp
    moreover have "limbs (uint_mul old f) = limbs old * limbs f mod 2 ^ 256" using len f(2) by (simp add: limbs_mul)
    ultimately show ?thesis unfolding retarget_value_def Let_def n_def [symmetric] q(3) d(1) f(1) old by (simp only: fst_conv)
  qed
  ultimately show ?thesis by (rule that)
qed

lemma retarget_value_bounds: "limit \<noteq> 0 \<Longrightarrow> 0 < retarget_value params limit old actual \<and> retarget_value params limit old actual \<le> limit"
  by (simp add: retarget_value_def Let_def)

lemma retarget_within:
  assumes "retarget_params_ok params" "length limit = 8" "limbs limit \<noteq> 0" "0 \<le> actual" "actual < 2 ^ 63"
  obtains c where "retarget params limit nBits actual = Inr c" "target_within limit c"
proof -
  obtain a where "retarget params limit nBits actual = GetCompact False a" "length a = 8"
    "limbs a = retarget_value params (limbs limit) (limbs (fst (SetCompact nBits))) (nat actual)"
    using retarget_spec [OF assms(1,2,4,5)] by metis
  then show ?thesis using that compact_within [of a limit] retarget_value_bounds [OF assms(3)] by (metis not_gr0)
qed

lemma stake_limit: "length bnProofOfStakeLimitV2 = 8" "limbs bnProofOfStakeLimitV2 = 2 ^ 236 - 1"
proof -
  have "limbs bnProofOfStakeLimitV2 = (2 ^ 256 - 1) div 2 ^ 20"
    by (simp add: bnProofOfStakeLimitV2_def limbs_shr limbs_not)
  then show "limbs bnProofOfStakeLimitV2 = 2 ^ 236 - 1" by simp
qed (simp add: bnProofOfStakeLimitV2_def)

text \<open>
  C31. The target of the next block stays between one and the limit. For every block of a tree and sane parameters,
  \<^verbatim>\<open>GetNextTargetRequired\<close> returns (its walks back end, nothing divides by zero, no assertion fails) a compact
  target without sign or overflow whose value is positive and at most the limit of its kind of block. For the genesis
  block it does so for proof of work only: a proof-of-stake request dereferences the null pointer before testing it.
\<close>

theorem next_target_within_limit:
  assumes "tree_ok bs" "retarget_params_ok params" "p < length bs"
  shows "(\<exists>c. GetNextTargetRequired params bs (Some p) fProofOfStake = Some (Inr c) \<and>
      target_within (if fProofOfStake then bnProofOfStakeLimitV2 else rp_ProofOfWorkLimit params) c) \<and>
    (\<exists>c. GetNextTargetRequired params bs None False = Some (Inr c) \<and> target_within (rp_ProofOfWorkLimit params) c) \<and>
    GetNextTargetRequired params bs None True = Some (Inl NullDereference)"
proof (intro conjI)
  let ?limit = "if fProofOfStake then bnProofOfStakeLimitV2 else rp_ProofOfWorkLimit params"
  have lim: "length ?limit = 8" "limbs ?limit \<noteq> 0"
    using assms(2) stake_limit by (simp_all add: retarget_params_ok_def)
  obtain c0 where c0: "GetCompact False ?limit = Inr c0" "target_within ?limit c0"
    using compact_within [OF lim order.refl] by metis
  obtain q where q: "q < length bs" "GetLastBlockIndex bs (Some p) fProofOfStake = Some (Inr (Some q))"
    using GetLastBlockIndex_total [OF assms(1,3)] by metis
  have time: "0 \<le> bn_GetBlockTime b" "bn_GetBlockTime b < 2 ^ 32" for b
    using unsigned_less [of "bn_nTime b", where 'a = int] by (simp_all add: bn_GetBlockTime_def)
  show "\<exists>c. GetNextTargetRequired params bs (Some p) fProofOfStake = Some (Inr c) \<and> target_within ?limit c"
  proof (cases "bn_pprev (bs ! q)")
    case None
    then show ?thesis using assms(3) q c0
      by (auto simp: GetNextTargetRequired_def deref_def GetProofOfStakeLimit_def split: if_splits)
  next
    case (Some r)
    then have "r < length bs" using tree_parent(2) [OF assms(1) q(1)] by simp
    then obtain u where u: "u < length bs" "GetLastBlockIndex bs (Some r) fProofOfStake = Some (Inr (Some u))"
      using GetLastBlockIndex_total [OF assms(1)] by metis
    let ?d = "bn_GetBlockTime (bs ! q) - bn_GetBlockTime (bs ! u)"
    let ?s = "if ?d < 0 then rp_nTargetSpacing params else ?d"
    have "0 \<le> ?s" "?s < 2 ^ 63"
      using assms(2) time [of "bs ! q"] time [of "bs ! u"] by (auto simp: retarget_params_ok_def)
    then obtain c where c: "retarget params ?limit (bn_nBits (bs ! q)) ?s = Inr c" "target_within ?limit c"
      using retarget_within [OF assms(2) lim] by metis
    show ?thesis
      by (cases "bn_pprev (bs ! u)")
        (use assms(3) q u Some c c0 in \<open>auto simp: GetNextTargetRequired_def deref_def GetProofOfStakeLimit_def Let_def split: if_splits\<close>)
  qed
next
  have "length (rp_ProofOfWorkLimit params) = 8" "limbs (rp_ProofOfWorkLimit params) \<noteq> 0"
    using assms(2) by (simp_all add: retarget_params_ok_def)
  then obtain c where "GetCompact False (rp_ProofOfWorkLimit params) = Inr c" "target_within (rp_ProofOfWorkLimit params) c"
    using compact_within order.refl by metis
  then show "\<exists>c. GetNextTargetRequired params bs None False = Some (Inr c) \<and> target_within (rp_ProofOfWorkLimit params) c"
    by (auto simp: GetNextTargetRequired_def)
  show "GetNextTargetRequired params bs None True = Some (Inl NullDereference)"
    by (simp add: GetNextTargetRequired_def deref_def)
qed

definition sample_retarget_params :: RetargetParams where
  "sample_retarget_params = \<lparr>rp_ProofOfWorkLimit = bnProofOfStakeLimitV2, rp_nTargetSpacing = 30, rp_nTargetTimespan = 750\<rparr>"

theorem next_target_within_limit_witness:
  "\<exists>ix c. AddHeaders sample_hash sample_headers = Inr ix \<and> bn_nHeight (ix_store ix ! 2) = 2 \<and>
     GetNextTargetRequired sample_retarget_params (ix_store ix) (Some 2) False = Some (Inr c) \<and>
     target_within bnProofOfStakeLimitV2 c"
proof -
  obtain ix where ix: "AddHeaders sample_hash sample_headers = Inr ix" "index_ok ix"
    using AddHeaders_ok sample_headers_distinct by metis
  have "tree_ok (ix_store ix)" "2 < length (ix_store ix)"
    using ix sample_index_nodes [OF ix(1)] by (simp_all add: index_ok_def)
  moreover have "retarget_params_ok sample_retarget_params"
    by (simp add: retarget_params_ok_def sample_retarget_params_def stake_limit)
  ultimately show ?thesis
    using next_target_within_limit [of "ix_store ix" sample_retarget_params 2 False] ix(1) sample_index_nodes [OF ix(1)]
    by (auto simp: sample_retarget_params_def)
qed

end
