(* ===== verification/Serialize.thy ===== *)
theory Serialize
  imports Bytes
begin

text \<open>
  Serialisation (\<^verbatim>\<open>serialize.h\<close>, \<^verbatim>\<open>streams.h\<close>): the byte stream, fixed width numbers, compact sizes,
  variable-length integers, byte strings and vectors. A stream that is read is the list of its unread bytes; an
  exception of a read (\<^verbatim>\<open>std::ios_base::failure\<close>) is \<open>StdException\<close>. The contract \<open>codec\<close> says that what is written
  is read back, and carries it from the elements of a vector to the vector.
\<close>

section \<open>Streams\<close>

type_synonym u16 = "16 word"
type_synonym 'a reader = "bytes \<Rightarrow> ('a \<times> bytes) result"

record CDataStream =
  ds_vch :: bytes
  ds_nReadPos :: u32

definition ds_read :: "nat \<Rightarrow> CDataStream \<Rightarrow> (bytes \<times> CDataStream) result" where
  "ds_read nSize s =
     (let nReadPosNext = ds_nReadPos s + of_nat nSize;
          pch = take nSize (drop (unat (ds_nReadPos s)) (ds_vch s))
      in if unat nReadPosNext \<ge> length (ds_vch s) then
           if unat nReadPosNext > length (ds_vch s) then Inl StdException
           else Inr (pch, s\<lparr>ds_nReadPos := 0, ds_vch := []\<rparr>)
         else Inr (pch, s\<lparr>ds_nReadPos := nReadPosNext\<rparr>))"

definition ds_ignore :: "int \<Rightarrow> CDataStream \<Rightarrow> CDataStream result" where
  "ds_ignore nSize s =
     (if nSize < 0 then Inl StdException
      else
        let nReadPosNext = ds_nReadPos s + word_of_int nSize
        in if unat nReadPosNext \<ge> length (ds_vch s) then
             if unat nReadPosNext > length (ds_vch s) then Inl StdException
             else Inr (s\<lparr>ds_nReadPos := 0, ds_vch := []\<rparr>)
           else Inr (s\<lparr>ds_nReadPos := nReadPosNext\<rparr>))"

definition ds_write :: "bytes \<Rightarrow> CDataStream \<Rightarrow> CDataStream" where
  "ds_write pch s = s\<lparr>ds_vch := ds_vch s @ pch\<rparr>"

definition ds_unread :: "CDataStream \<Rightarrow> bytes" where
  "ds_unread s = drop (unat (ds_nReadPos s)) (ds_vch s)"

text \<open>Reading, on the unread bytes.\<close>

definition stream_read :: "nat \<Rightarrow> bytes reader" where
  "stream_read n s = (if length s < n then Inl StdException else Inr (take n s, drop n s))"

definition stream_ignore :: "nat \<Rightarrow> bytes \<Rightarrow> bytes result" where
  "stream_ignore n s = (if length s < n then Inl StdException else Inr (drop n s))"

section \<open>Numbers\<close>

definition ser_writedata8 :: "u8 \<Rightarrow> bytes" where
  "ser_writedata8 x = le_bytes 1 (unat x)"

definition ser_writedata16 :: "u16 \<Rightarrow> bytes" where
  "ser_writedata16 x = le_bytes 2 (unat x)"

definition ser_writedata32 :: "u32 \<Rightarrow> bytes" where
  "ser_writedata32 x = le_bytes 4 (unat x)"

definition ser_writedata64 :: "u64 \<Rightarrow> bytes" where
  "ser_writedata64 x = le_bytes 8 (unat x)"

definition ser_readdata8 :: "u8 reader" where
  "ser_readdata8 s = bindR (stream_read 1 s) (\<lambda>(b, s). Inr (of_nat (le_value b), s))"

definition ser_readdata16 :: "u16 reader" where
  "ser_readdata16 s = bindR (stream_read 2 s) (\<lambda>(b, s). Inr (of_nat (le_value b), s))"

definition ser_readdata32 :: "u32 reader" where
  "ser_readdata32 s = bindR (stream_read 4 s) (\<lambda>(b, s). Inr (of_nat (le_value b), s))"

definition ser_readdata64 :: "u64 reader" where
  "ser_readdata64 s = bindR (stream_read 8 s) (\<lambda>(b, s). Inr (of_nat (le_value b), s))"

text \<open>Signed numbers are written and read as the two's complement of their width.\<close>

definition Serialize_int32 :: "int \<Rightarrow> bytes" where
  "Serialize_int32 a = ser_writedata32 (word_of_int a)"

definition Unserialize_int32 :: "int reader" where
  "Unserialize_int32 s = bindR (ser_readdata32 s) (\<lambda>(w, s). Inr (sint w, s))"

definition Serialize_int64 :: "int \<Rightarrow> bytes" where
  "Serialize_int64 a = ser_writedata64 (word_of_int a)"

definition Unserialize_int64 :: "int reader" where
  "Unserialize_int64 s = bindR (ser_readdata64 s) (\<lambda>(w, s). Inr (sint w, s))"

definition Serialize_uint256 :: "uint256 \<Rightarrow> bytes" where
  "Serialize_uint256 h = uint256_data h"

definition Unserialize_uint256 :: "uint256 reader" where
  "Unserialize_uint256 s = bindR (stream_read 32 s) (\<lambda>(b, s). Inr (uint256_of b, s))"

section \<open>Compact sizes\<close>

abbreviation (input) "MAX_SIZE \<equiv> 0x02000000"

definition GetSizeOfCompactSize :: "u64 \<Rightarrow> nat" where
  "GetSizeOfCompactSize nSize =
     (if nSize < 253 then 1 else if nSize \<le> 0xFFFF then 3 else if nSize \<le> 0xFFFFFFFF then 5 else 9)"

definition WriteCompactSize :: "u64 \<Rightarrow> bytes" where
  "WriteCompactSize nSize =
     (if nSize < 253 then ser_writedata8 (ucast nSize)
      else if nSize \<le> 0xFFFF then ser_writedata8 253 @ ser_writedata16 (ucast nSize)
      else if nSize \<le> 0xFFFFFFFF then ser_writedata8 254 @ ser_writedata32 (ucast nSize)
      else ser_writedata8 255 @ ser_writedata64 nSize)"

text \<open>The checks that the size is canonical: at least the smallest number that needs the width.\<close>

definition size_at_least :: "u64 \<Rightarrow> (u64 \<times> bytes) \<Rightarrow> (u64 \<times> bytes) result" where
  "size_at_least n = (\<lambda>(nSizeRet, s). if nSizeRet < n then Inl StdException else Inr (nSizeRet, s))"

definition compact_size_rest :: "u8 \<Rightarrow> u64 reader" where
  "compact_size_rest chSize s =
     (if chSize < 253 then Inr (ucast chSize, s)
      else if chSize = 253 then
        bindR (bindR (ser_readdata16 s) (\<lambda>(n, s). Inr (ucast n, s))) (size_at_least 253)
      else if chSize = 254 then
        bindR (bindR (ser_readdata32 s) (\<lambda>(n, s). Inr (ucast n, s))) (size_at_least 0x10000)
      else bindR (ser_readdata64 s) (size_at_least 0x100000000))"

definition ReadCompactSize :: "u64 reader" where
  "ReadCompactSize is =
     bindR (ser_readdata8 is) (\<lambda>(chSize, s).
       bindR (compact_size_rest chSize s) (\<lambda>(nSizeRet, s).
         if nSizeRet > MAX_SIZE then Inl StdException else Inr (nSizeRet, s)))"

section \<open>Variable-length integers\<close>

lemma varint_decreases:
  fixes n :: "'a::len word"
  assumes "\<not> n \<le> 0x7F"
  shows "unat (drop_bit 7 n - 1) = unat n div 128 - 1" "128 \<le> unat n" "unat (drop_bit 7 n - 1) < unat n"
proof -
  have less: "unat (0x7F :: 'a word) < unat n" using assms by (simp add: word_le_nat_alt)
  have mask: "(0x7F :: 'a word) = mask 7" by (simp add: mask_numeral)
  have "7 < LENGTH('a)"
  proof (rule ccontr)
    assume "\<not> 7 < LENGTH('a)"
    then have "(mask 7 :: 'a word) = - 1" by (intro bit_word_eqI) (auto simp: bit_mask_iff)
    then show False using assms unfolding mask by simp
  qed
  then have "(127 :: nat) < 2 ^ LENGTH('a)" using power_strict_increasing [of 7 "LENGTH('a)" "2 :: nat"] by simp
  then have "unat (0x7F :: 'a word) = 127" by (simp add: take_bit_nat_eq_self)
  then show ge: "128 \<le> unat n" using less by simp
  have "unat (drop_bit 7 n) = drop_bit 7 (unat n)" by (rule unat_drop_bit_eq)
  then have "unat (drop_bit 7 n) = unat n div 128" by (simp only: drop_bit_eq_div) simp
  moreover have "1 \<le> unat n div 128" using ge by (simp add: less_eq_div_iff_mult_less_eq)
  ultimately show minus: "unat (drop_bit 7 n - 1) = unat n div 128 - 1"
    using unat_sub [of 1 "drop_bit 7 n"] by (simp add: word_le_nat_alt)
  show "unat (drop_bit 7 n - 1) < unat n" using ge unfolding minus by (simp add: less_imp_diff_less)
qed

function GetSizeOfVarInt :: "'a::len word \<Rightarrow> nat" where
  "GetSizeOfVarInt n = (if n \<le> 0x7F then 1 else Suc (GetSizeOfVarInt (drop_bit 7 n - 1)))"
  by pat_completeness auto

termination
  by (relation "measure unat") (simp_all add: varint_decreases(3))

text \<open>The array \<^verbatim>\<open>tmp\<close> of \<^verbatim>\<open>WriteVarInt\<close>, in the order it is filled.\<close>

function varint_tmp :: "bool \<Rightarrow> 'a::len word \<Rightarrow> bytes" where
  "varint_tmp later n =
     (ucast (n AND 0x7F) OR (if later then 0x80 else 0)) #
     (if n \<le> 0x7F then [] else varint_tmp True (drop_bit 7 n - 1))"
  by pat_completeness auto

termination
  by (relation "measure (unat \<circ> snd)") (simp_all add: varint_decreases(3))

declare GetSizeOfVarInt.simps [simp del] varint_tmp.simps [simp del]

definition WriteVarInt :: "'a::len word \<Rightarrow> bytes" where
  "WriteVarInt n = rev (varint_tmp False n)"

fun read_varint_loop :: "'a::len word \<Rightarrow> 'a word reader" where
  "read_varint_loop n [] = Inl StdException"
| "read_varint_loop n (chData # s) =
     (let n' = push_bit 7 n OR ucast (chData AND 0x7F)
      in if chData AND 0x80 \<noteq> 0 then read_varint_loop (n' + 1) s else Inr (n', s))"

definition ReadVarInt :: "'a::len word reader" where
  "ReadVarInt is = read_varint_loop 0 is"

section \<open>Byte strings and vectors\<close>

definition Serialize_bytes :: "bytes \<Rightarrow> bytes" where
  "Serialize_bytes v = WriteCompactSize (of_nat (length v)) @ v"

text \<open>The loop that reads at most five million bytes at a time.\<close>

function read_blocks :: "nat \<Rightarrow> nat \<Rightarrow> bytes \<Rightarrow> bytes reader" where
  "read_blocks nSize i v s =
     (if i < nSize then
        let blk = min (nSize - i) 5000000
        in bindR (stream_read blk s) (\<lambda>(b, s). read_blocks nSize (i + blk) (v @ b) s)
      else Inr (v, s))"
  by pat_completeness auto

termination
  by (relation "measure (\<lambda>(nSize, i, v, s). nSize - i)") auto

declare read_blocks.simps [simp del]

definition Unserialize_bytes :: "bytes reader" where
  "Unserialize_bytes is = bindR (ReadCompactSize is) (\<lambda>(nSize, s). read_blocks (unat nSize) 0 [] s)"

text \<open>A \<^verbatim>\<open>std::string\<close> is read in one piece.\<close>

definition Unserialize_string :: "bytes reader" where
  "Unserialize_string is = bindR (ReadCompactSize is) (\<lambda>(nSize, s). stream_read (unat nSize) s)"

definition Unserialize_limited :: "nat \<Rightarrow> bytes reader" where
  "Unserialize_limited Limit is =
     bindR (ReadCompactSize is) (\<lambda>(size, s).
       if unat size > Limit then Inl StdException else stream_read (unat size) s)"

definition Serialize_vector :: "('a \<Rightarrow> bytes) \<Rightarrow> 'a list \<Rightarrow> bytes" where
  "Serialize_vector ser v = WriteCompactSize (of_nat (length v)) @ concat (map ser v)"

primrec read_items :: "'a reader \<Rightarrow> nat \<Rightarrow> 'a list reader" where
  "read_items item 0 s = Inr ([], s)"
| "read_items item (Suc n) s =
     bindR (item s) (\<lambda>(x, s). bindR (read_items item n s) (\<lambda>(xs, s). Inr (x # xs, s)))"

text \<open>A count and then the elements, read one by one without batches.\<close>

definition Unserialize_counted :: "'a reader \<Rightarrow> 'a list reader" where
  "Unserialize_counted item s = bindR (ReadCompactSize s) (\<lambda>(n, s). read_items item (unat n) s)"

text \<open>
  Vectors grow by \<^verbatim>\<open>5000000 / sizeof(T)\<close> elements at a time; \<open>batch\<close> is this number, which is positive for the
  element types of the program.
\<close>

function read_batches :: "'a reader \<Rightarrow> nat \<Rightarrow> nat \<Rightarrow> nat \<Rightarrow> 'a list \<Rightarrow> 'a list reader" where
  "read_batches item batch nSize nMid v s =
     (if nMid < nSize \<and> 0 < batch then
        let nMid' = min (nMid + batch) nSize
        in bindR (read_items item (nMid' - length v) s) (\<lambda>(xs, s). read_batches item batch nSize nMid' (v @ xs) s)
      else Inr (v, s))"
  by pat_completeness auto

termination
  by (relation "measure (\<lambda>(item, batch, nSize, nMid, v, s). nSize - nMid)") auto

declare read_batches.simps [simp del]

definition Unserialize_vector :: "nat \<Rightarrow> 'a reader \<Rightarrow> 'a list reader" where
  "Unserialize_vector sizeof item is =
     bindR (ReadCompactSize is) (\<lambda>(nSize, s). read_batches item (5000000 div sizeof) (unat nSize) 0 [] s)"

section \<open>What is written is read back\<close>

lemma CDataStream_read:
  assumes "unat (ds_nReadPos s) \<le> length (ds_vch s)" "length (ds_vch s) + n < 2 ^ 32"
  shows "(case ds_read n s of Inl e \<Rightarrow> Inl e | Inr (b, s') \<Rightarrow> Inr (b, ds_unread s')) = stream_read n (ds_unread s)"
proof -
  have "unat (ds_nReadPos s + of_nat n) = unat (ds_nReadPos s) + n"
    using assms by (simp add: unat_word_ariths unat_of_nat)
  then show ?thesis using assms(1)
    by (auto simp: ds_read_def Let_def stream_read_def ds_unread_def add.commute drop_drop)
qed

lemma stream_read_append [simp]: "length b = n \<Longrightarrow> stream_read n (b @ s) = Inr (b, s)"
  by (simp add: stream_read_def)

lemma read_le:
  fixes x :: "'a::len word"
  assumes "LENGTH('a) = 8 * n"
  shows "bindR (stream_read n s) (\<lambda>(b, s). Inr (of_nat (le_value b), s)) = Inr (x, s') \<longleftrightarrow> s = le_bytes n (unat x) @ s'"
proof -
  have width: "(256 :: nat) ^ n = 2 ^ LENGTH('a)" using assms by (simp add: power_mult)
  have "le_bytes n (unat (of_nat (le_value b) :: 'a word)) = b" if "length b = n" for b
    using le_value_bound [of b] that width by (auto simp: unat_of_nat)
  moreover have "of_nat (le_value (le_bytes n (unat x))) = x"
    using unsigned_less [of x, where 'a = nat] width by simp
  ultimately show ?thesis by (auto simp: stream_read_def bindR_eq_Inr split: if_splits)
qed

lemmas writedata_defs = ser_writedata8_def ser_writedata16_def ser_writedata32_def ser_writedata64_def
lemmas readdata_defs = ser_readdata8_def ser_readdata16_def ser_readdata32_def ser_readdata64_def

lemma readdata_iff:
  "ser_readdata8 s = Inr (a, s') \<longleftrightarrow> s = ser_writedata8 a @ s'"
  "ser_readdata16 s = Inr (b, s') \<longleftrightarrow> s = ser_writedata16 b @ s'"
  "ser_readdata32 s = Inr (c, s') \<longleftrightarrow> s = ser_writedata32 c @ s'"
  "ser_readdata64 s = Inr (d, s') \<longleftrightarrow> s = ser_writedata64 d @ s'"
  unfolding writedata_defs readdata_defs by (rule read_le, simp)+

lemma readdata_writedata [simp]:
  "ser_readdata8 (ser_writedata8 a @ s) = Inr (a, s)"
  "ser_readdata16 (ser_writedata16 b @ s) = Inr (b, s)"
  "ser_readdata32 (ser_writedata32 c @ s) = Inr (c, s)"
  "ser_readdata64 (ser_writedata64 d @ s) = Inr (d, s)"
  by (simp_all add: readdata_iff)

lemma widened_bounds:
  "unat (x :: u8) < 256" "unat (y :: u16) < 65536" "unat (z :: u32) < 4294967296"
  using unsigned_less [of x, where 'a = nat] unsigned_less [of y, where 'a = nat] unsigned_less [of z, where 'a = nat]
  by simp_all

lemma widened:
  "unat (ucast (x :: u8) :: u64) = unat x" "unat (ucast (y :: u16) :: u64) = unat y" "unat (ucast (z :: u32) :: u64) = unat z"
  using less_trans [OF widened_bounds(1) [of x], of "2 ^ 64"] less_trans [OF widened_bounds(2) [of y], of "2 ^ 64"]
    less_trans [OF widened_bounds(3) [of z], of "2 ^ 64"]
  by (simp_all add: unsigned_ucast_eq take_bit_nat_eq_self)

lemma narrowed:
  "n < 253 \<Longrightarrow> unat (ucast n :: u8) = unat n" "n \<le> 0xFFFF \<Longrightarrow> unat (ucast n :: u16) = unat n"
  "n \<le> 0xFFFFFFFF \<Longrightarrow> unat (ucast n :: u32) = unat n" for n :: u64
  by (simp_all add: word_less_nat_alt word_le_nat_alt unsigned_ucast_eq unsigned_take_bit_eq take_bit_nat_eq_self)

lemma narrow_widen [simp]:
  "ucast (ucast (x :: u8) :: u64) = x" "ucast (ucast (y :: u16) :: u64) = y" "ucast (ucast (z :: u32) :: u64) = z"
  by (rule bit_word_eqI, auto simp: bit_unsigned_iff)+

lemma widen_narrow:
  "n < 253 \<Longrightarrow> ucast (ucast n :: u8) = n" "n \<le> 0xFFFF \<Longrightarrow> ucast (ucast n :: u16) = n"
  "n \<le> 0xFFFFFFFF \<Longrightarrow> ucast (ucast n :: u32) = n" for n :: u64
  by (rule unsigned_word_eqI [where 'a = nat], simp only: widened narrowed)+

text \<open>A compact size is read exactly where its canonical form stands, and only up to the limit.\<close>

lemma ReadCompactSize_write:
  assumes "n \<le> MAX_SIZE"
  shows "ReadCompactSize (WriteCompactSize n @ s) = Inr (n, s)"
proof -
  have max: "n \<le> 0xFFFFFFFF" "\<not> n > MAX_SIZE" using assms by (simp_all add: word_le_nat_alt word_less_nat_alt)
  consider "n < 253" | "\<not> n < 253" "n \<le> 0xFFFF" | "\<not> n < 253" "\<not> n \<le> 0xFFFF" by blast
  then show ?thesis
  proof cases
    case 1
    then have "(ucast n :: u8) < 253" using narrowed(1) by (simp add: word_less_nat_alt)
    then show ?thesis using 1 max by (simp add: WriteCompactSize_def ReadCompactSize_def compact_size_rest_def widen_narrow)
  next
    case 2
    then show ?thesis using max by (simp add: WriteCompactSize_def ReadCompactSize_def compact_size_rest_def size_at_least_def widen_narrow)
  next
    case 3
    then have "\<not> n < 0x10000" by (simp add: word_le_nat_alt word_less_nat_alt)
    then show ?thesis using 3 max by (simp add: WriteCompactSize_def ReadCompactSize_def compact_size_rest_def size_at_least_def widen_narrow)
  qed
qed

lemma ReadCompactSize_canonical:
  assumes "ReadCompactSize s = Inr (n, s')"
  shows "n \<le> MAX_SIZE \<and> s = WriteCompactSize n @ s'"
proof -
  obtain ch s1 where s: "s = ser_writedata8 ch @ s1" and max: "n \<le> MAX_SIZE"
    and rest: "compact_size_rest ch s1 = Inr (n, s')"
    using assms by (auto simp: ReadCompactSize_def bindR_eq_Inr readdata_iff not_less split: if_splits)
  consider "ch < 253" | "ch = 253" | "ch = 254" | "\<not> ch < 253" "ch \<noteq> 253" "ch \<noteq> 254" by blast
  then have "s = WriteCompactSize n @ s'"
  proof cases
    case 1
    then have "n = ucast ch" "s1 = s'" using rest by (simp_all add: compact_size_rest_def)
    moreover have "(ucast ch :: u64) < 253" using 1 by (simp add: word_less_nat_alt widened)
    ultimately show ?thesis using s by (simp add: WriteCompactSize_def)
  next
    case 2
    then obtain y :: u16 where "n = ucast y" "s1 = ser_writedata16 y @ s'" "\<not> n < 253"
      using rest by (auto simp: compact_size_rest_def size_at_least_def bindR_eq_Inr readdata_iff split: if_splits)
    moreover have "(ucast y :: u64) \<le> 0xFFFF" using widened_bounds(2) [of y] by (simp add: word_le_nat_alt widened)
    ultimately show ?thesis using s 2 by (simp add: WriteCompactSize_def)
  next
    case 3
    then obtain z :: u32 where z: "n = ucast z" "s1 = ser_writedata32 z @ s'" "\<not> n < 0x10000"
      using rest by (auto simp: compact_size_rest_def size_at_least_def bindR_eq_Inr readdata_iff split: if_splits)
    moreover have "(ucast z :: u64) \<le> 0xFFFFFFFF" using widened_bounds(3) [of z] by (simp add: word_le_nat_alt widened)
    moreover have "\<not> n < 253" "\<not> n \<le> 0xFFFF" using z(3) by (simp_all add: word_le_nat_alt word_less_nat_alt)
    ultimately show ?thesis using s 3 by (simp add: WriteCompactSize_def)
  next
    case 4
    then have "\<not> n < 0x100000000"
      using rest by (auto simp: compact_size_rest_def size_at_least_def bindR_eq_Inr readdata_iff split: if_splits)
    then show ?thesis using max by (simp add: word_le_nat_alt word_less_nat_alt)
  qed
  then show ?thesis using max by blast
qed

lemma length_WriteCompactSize: "length (WriteCompactSize n) = GetSizeOfCompactSize n"
  by (simp add: WriteCompactSize_def GetSizeOfCompactSize_def writedata_defs)

lemma read_length: "n \<le> MAX_SIZE \<Longrightarrow> ReadCompactSize (WriteCompactSize (of_nat n) @ s) = Inr (of_nat n, s)"
    "n \<le> MAX_SIZE \<Longrightarrow> unat (of_nat n :: u64) = n" for n :: nat
proof -
  assume "n \<le> MAX_SIZE"
  then show "unat (of_nat n :: u64) = n" by (simp add: unat_of_nat)
  then show "ReadCompactSize (WriteCompactSize (of_nat n) @ s) = Inr (of_nat n, s)"
    using \<open>n \<le> MAX_SIZE\<close> by (intro ReadCompactSize_write) (simp add: word_le_nat_alt)
qed

subsection \<open>Variable-length integers\<close>

lemma mask7: "(0x7F :: 'a::len word) = mask 7"
  by (simp add: mask_numeral)

lemma bit_high: "bit (0x80 :: int) k \<longleftrightarrow> k = 7"
proof -
  have "(0x80 :: int) = 2 ^ 7" by simp
  then show ?thesis by (simp only: bit_exp_iff) auto
qed

lemma without_high: "(c OR 0x80) AND 0x7F = c AND 0x7F" for c :: u8
  unfolding mask7 by (rule bit_word_eqI) (auto simp: bit_and_iff bit_or_iff bit_mask_iff bit_high)

lemma low_bits:
  fixes n :: "'a::len word"
  shows "ucast (ucast (n AND 0x7F) AND 0x7F :: u8) = n AND 0x7F"
    "(ucast (n AND 0x7F) :: u8) AND 0x80 = 0"
    "push_bit 7 (drop_bit 7 n) OR (n AND 0x7F) = n"
  unfolding mask7
  by (rule bit_word_eqI, auto simp: bit_unsigned_iff bit_and_iff bit_or_iff bit_mask_iff bit_push_bit_iff bit_drop_bit_eq bit_high)+

lemma high_bit: "((c OR 0x80) :: u8) AND 0x80 \<noteq> 0"
proof
  assume "(c OR 0x80) AND 0x80 = 0"
  then have "bit ((c OR 0x80) AND 0x80) 7 = bit (0 :: u8) 7" by simp
  then show False by (simp add: bit_and_iff bit_or_iff bit_high)
qed

lemma small_bits: "n AND 0x7F = n" if "n \<le> 0x7F" for n :: "'a::len word"
proof -
  have "take_bit LENGTH('a) (127 :: nat) \<le> 127" by (rule take_bit_nat_less_eq_self)
  moreover have "unat n \<le> take_bit LENGTH('a) 127" using that by (simp add: word_le_nat_alt)
  ultimately have "unat n \<le> 127" by (rule order.trans [rotated])
  then have "unat n < 2 ^ 7" by simp
  then have "unat (take_bit 7 n) = unat n" by (simp add: unsigned_take_bit_eq take_bit_nat_eq_self)
  then have "take_bit 7 n = n" by (rule unsigned_word_eqI)
  then show ?thesis by (simp add: mask7 take_bit_eq_mask)
qed

lemma read_varint_tmp:
  "read_varint_loop 0 (rev (varint_tmp later n) @ s) = (if later then read_varint_loop (n + 1) s else Inr (n, s))"
proof (induction later n arbitrary: s rule: varint_tmp.induct)
  case (1 later n)
  let ?c = "(ucast (n AND 0x7F) OR (if later then 0x80 else 0)) :: u8"
  have digit: "read_varint_loop m (?c # s) = (if later then read_varint_loop (n + 1) s else Inr (n, s))"
    if "push_bit 7 m OR (n AND 0x7F) = n" for m using that low_bits [of n] high_bit by (simp add: Let_def without_high)
  show ?case
  proof (cases "n \<le> 0x7F")
    case True
    then have "n AND 0x7F = n" by (rule small_bits)
    then show ?thesis using True digit [of 0] by (subst varint_tmp.simps) simp
  next
    case False
    then show ?thesis using 1 [OF False, of "?c # s"] digit [of "drop_bit 7 n"] low_bits(3) [of n]
      by (subst varint_tmp.simps) simp
  qed
qed

lemma ReadVarInt_Write: "ReadVarInt (WriteVarInt n @ s) = Inr (n, s)"
  by (simp add: ReadVarInt_def WriteVarInt_def read_varint_tmp)

lemma length_varint_tmp: "length (varint_tmp later n) = GetSizeOfVarInt n"
  by (induction later n rule: varint_tmp.induct) (subst varint_tmp.simps, subst GetSizeOfVarInt.simps, simp)

lemma GetSizeOfVarInt_bound: "0 < k \<Longrightarrow> unat n < 128 ^ k \<Longrightarrow> GetSizeOfVarInt n \<le> k" for n :: "'a::len word"
proof (induction k arbitrary: n)
  case (Suc k)
  show ?case
  proof (cases "n \<le> 0x7F")
    case True
    then show ?thesis by (subst GetSizeOfVarInt.simps) simp
  next
    case False
    note dec = varint_decreases [OF False]
    have "k \<noteq> 0" using Suc.prems dec(2) by (cases k) auto
    moreover have "unat n div 128 < 128 ^ k" using Suc.prems by (simp add: less_mult_imp_div_less mult.commute)
    then have "unat (drop_bit 7 n - 1) < 128 ^ k" unfolding dec(1) by (rule less_imp_diff_less)
    ultimately show ?thesis using Suc.IH [of "drop_bit 7 n - 1"] False by (subst GetSizeOfVarInt.simps) simp
  qed
qed simp

text \<open>The array \<^verbatim>\<open>tmp\<close> has \<^verbatim>\<open>(sizeof(n)*8+6)/7\<close> elements: no digit is written beyond it.\<close>

lemma round_up_7: "(n :: nat) \<le> 7 * ((n + 6) div 7)"
  by presburger

lemma GetSizeOfVarInt_tmp: "GetSizeOfVarInt n \<le> (LENGTH('a) + 6) div 7" for n :: "'a::len word"
proof (rule GetSizeOfVarInt_bound)
  have "LENGTH('a) \<le> 7 * ((LENGTH('a) + 6) div 7)" by (rule round_up_7)
  then have "(2 :: nat) ^ LENGTH('a) \<le> 2 ^ (7 * ((LENGTH('a) + 6) div 7))" by (intro power_increasing) auto
  then have "(2 :: nat) ^ LENGTH('a) \<le> 128 ^ ((LENGTH('a) + 6) div 7)" by (simp add: power_mult)
  then show "unat n < 128 ^ ((LENGTH('a) + 6) div 7)" using unsigned_less [of n, where 'a = nat] by (rule less_le_trans [rotated])
  show "0 < (LENGTH('a) + 6) div 7" using len_gt_0 [where 'a = 'a] by (simp add: div_greater_zero_iff Suc_le_eq)
qed

subsection \<open>Byte strings and vectors\<close>

text \<open>Reading in blocks is reading in one piece.\<close>

lemma read_blocks_eq:
  "length v = i \<Longrightarrow> read_blocks nSize i v s = bindR (stream_read (nSize - i) s) (\<lambda>(b, s). Inr (v @ b, s))"
proof (induction nSize i v s rule: read_blocks.induct)
  case (1 nSize i v s)
  show ?case
  proof (cases "i < nSize")
    case True
    define blk where "blk = min (nSize - i) 5000000"
    show ?thesis
    proof (cases "length s < blk")
      case True
      then have "length s < nSize - i" by (simp add: blk_def)
      then show ?thesis using True \<open>i < nSize\<close>
        by (subst read_blocks.simps) (simp add: Let_def blk_def [symmetric] stream_read_def)
    next
      case False
      have "nSize - i = blk + (nSize - (i + blk))" by (simp add: blk_def)
      then have rest: "take (nSize - i) s = take blk s @ take (nSize - (i + blk)) (drop blk s)"
          "drop (nSize - i) s = drop (nSize - (i + blk)) (drop blk s)"
          "length s < nSize - i \<longleftrightarrow> length (drop blk s) < nSize - (i + blk)"
        using False by (simp_all only: take_add drop_drop) (auto simp: add.commute)
      have "read_blocks nSize i v s = read_blocks nSize (i + blk) (v @ take blk s) (drop blk s)"
        using True False by (subst read_blocks.simps) (simp add: Let_def blk_def [symmetric] stream_read_def)
      also have "\<dots> = bindR (stream_read (nSize - (i + blk)) (drop blk s)) (\<lambda>(b, s'). Inr ((v @ take blk s) @ b, s'))"
        using "1.prems" False by (subst "1.IH" [OF \<open>i < nSize\<close> blk_def]) simp_all
      also have "\<dots> = bindR (stream_read (nSize - i) s) (\<lambda>(b, s). Inr (v @ b, s))"
        unfolding stream_read_def rest by simp
      finally show ?thesis .
    qed
  next
    case False
    then show ?thesis by (subst read_blocks.simps) (simp add: stream_read_def)
  qed
qed

lemma Unserialize_bytes_eq: "Unserialize_bytes s = Unserialize_string s"
  by (auto simp: Unserialize_bytes_def Unserialize_string_def read_blocks_eq bindR_def stream_read_def intro!: sum.case_cong)

lemma read_items_add:
  "read_items item (m + n) s =
     bindR (read_items item m s) (\<lambda>(xs, s). bindR (read_items item n s) (\<lambda>(ys, s). Inr (xs @ ys, s)))"
  by (induction m arbitrary: s) (auto simp: bindR_def split: sum.split prod.split)

lemma read_items_length: "read_items item n s = Inr (xs, s') \<Longrightarrow> length xs = n"
  by (induction n arbitrary: s xs) (auto simp: bindR_eq_Inr)

lemma read_batches_eq:
  "0 < batch \<Longrightarrow> length v = nMid \<Longrightarrow> nMid \<le> nSize \<Longrightarrow>
   read_batches item batch nSize nMid v s = bindR (read_items item (nSize - nMid) s) (\<lambda>(xs, s). Inr (v @ xs, s))"
proof (induction item batch nSize nMid v s rule: read_batches.induct)
  case (1 item batch nSize nMid v s)
  show ?case
  proof (cases "nMid < nSize")
    case True
    define m where "m = min (nMid + batch) nSize"
    have "nSize - nMid = (m - nMid) + (nSize - m)" using True by (auto simp: m_def)
    then have split: "read_items item (nSize - nMid) s = bindR (read_items item (m - nMid) s)
        (\<lambda>(xs, s). bindR (read_items item (nSize - m) s) (\<lambda>(ys, s). Inr (xs @ ys, s)))"
      by (simp only: read_items_add)
    have step: "read_batches item batch nSize nMid v s =
        bindR (read_items item (m - nMid) s) (\<lambda>(xs, s'). read_batches item batch nSize m (v @ xs) s')"
      using "1.prems" True by (subst read_batches.simps) (simp add: Let_def m_def)
    show ?thesis
    proof (cases "read_items item (m - nMid) s")
      case (Inl e)
      then show ?thesis unfolding step split by simp
    next
      case (Inr r)
      then obtain xs s' where r: "read_items item (m - nMid) s = Inr (xs, s')" by (cases r) auto
      have "read_batches item batch nSize m (v @ xs) s' =
          bindR (read_items item (nSize - m) s') (\<lambda>(ys, s''). Inr ((v @ xs) @ ys, s''))"
        by (rule "1.IH" [OF _ m_def]) (use read_items_length [OF r] "1.prems" True in \<open>auto simp: m_def\<close>)
      then show ?thesis unfolding step split r by (auto simp: bindR_def split: sum.split)
    qed
  next
    case False
    then show ?thesis using "1.prems" by (subst read_batches.simps) simp
  qed
qed

text \<open>
  The contract of a type that can be serialised: a good value is read back from what was written, up to the
  fields its reader fills in (\<open>norm\<close>), and the rest of the stream is left.
\<close>

locale codec =
  fixes ser :: "'a \<Rightarrow> bytes" and unser :: "'a reader" and good :: "'a \<Rightarrow> bool" and norm :: "'a \<Rightarrow> 'a"
  assumes unser_ser: "good x \<Longrightarrow> unser (ser x @ s) = Inr (norm x, s)"
begin

lemma unser_items:
  "list_all good xs \<Longrightarrow> read_items unser (length xs) (concat (map ser xs) @ s) = Inr (map norm xs, s)"
  by (induction xs) (simp_all add: unser_ser)

lemma unser_vector:
  assumes "list_all good xs" "length xs \<le> MAX_SIZE" "0 < sizeof" "sizeof \<le> 5000000"
  shows "Unserialize_vector sizeof unser (Serialize_vector ser xs @ s) = Inr (map norm xs, s)"
proof -
  have "0 < 5000000 div sizeof" using assms(3,4) by (simp add: div_greater_zero_iff)
  then show ?thesis using assms(2) unser_items [OF assms(1)]
    by (simp add: Unserialize_vector_def Serialize_vector_def read_length read_batches_eq)
qed

lemma unser_counted:
  "list_all good xs \<Longrightarrow> length xs \<le> MAX_SIZE \<Longrightarrow>
   Unserialize_counted unser (Serialize_vector ser xs @ s) = Inr (map norm xs, s)"
  by (simp add: Unserialize_counted_def Serialize_vector_def read_length unser_items)

end

lemma Unserialize_Serialize_bytes:
  assumes "length v \<le> MAX_SIZE"
  shows "Unserialize_bytes (Serialize_bytes v @ s) = Inr (v, s)"
  using assms by (simp add: Unserialize_bytes_eq Unserialize_string_def Serialize_bytes_def read_length)

interpretation w32: codec ser_writedata32 ser_readdata32 "\<lambda>x. True" id
  by unfold_locales simp

interpretation w64: codec ser_writedata64 ser_readdata64 "\<lambda>x. True" id
  by unfold_locales simp

interpretation i32: codec Serialize_int32 Unserialize_int32 "\<lambda>a. - (2 ^ 31) \<le> a \<and> a < 2 ^ 31" id
  by unfold_locales (simp add: Serialize_int32_def Unserialize_int32_def sint_sbintrunc' signed_take_bit_int_eq_self)

interpretation i64: codec Serialize_int64 Unserialize_int64 "\<lambda>a. - (2 ^ 63) \<le> a \<and> a < 2 ^ 63" id
  by unfold_locales (simp add: Serialize_int64_def Unserialize_int64_def sint_sbintrunc' signed_take_bit_int_eq_self)

interpretation hash: codec Serialize_uint256 Unserialize_uint256 "\<lambda>h. True" id
  by unfold_locales (simp add: Serialize_uint256_def Unserialize_uint256_def)

interpretation blob: codec Serialize_bytes Unserialize_bytes "\<lambda>v. length v \<le> MAX_SIZE" id
  by unfold_locales (simp add: Unserialize_Serialize_bytes)

text \<open>
  C32. Sizes and variable-length integers. A compact size is accepted exactly in its canonical form and up to the limit
  of 32 MiB, and its length is the one computed. A variable-length integer is read back from what is written, its length
  is the one computed, and the digits fit the array that \<^verbatim>\<open>WriteVarInt\<close> fills. The encoding is not unique, however: a
  longer sequence whose value overflows is accepted as a small number.
\<close>

theorem sizes_canonical:
  fixes m :: "'a::len word"
  shows "(ReadCompactSize s = Inr (n, s') \<longleftrightarrow> n \<le> MAX_SIZE \<and> s = WriteCompactSize n @ s') \<and>
    length (WriteCompactSize n) = GetSizeOfCompactSize n \<and>
    ReadVarInt (WriteVarInt m @ s) = Inr (m, s) \<and>
    length (WriteVarInt m) = GetSizeOfVarInt m \<and> GetSizeOfVarInt m \<le> (LENGTH('a) + 6) div 7 \<and>
    ReadVarInt [0] = Inr (0 :: u64, []) \<and>
    ReadVarInt [0x80, 0xFE, 0xFE, 0xFE, 0xFE, 0xFE, 0xFE, 0xFE, 0xFF, 0] = Inr (0 :: u64, [])"
proof (intro conjI)
  show "ReadCompactSize s = Inr (n, s') \<longleftrightarrow> n \<le> MAX_SIZE \<and> s = WriteCompactSize n @ s'"
    using ReadCompactSize_write ReadCompactSize_canonical by blast
  show "length (WriteVarInt m) = GetSizeOfVarInt m" by (simp add: WriteVarInt_def length_varint_tmp)
qed (simp_all add: length_WriteCompactSize ReadVarInt_Write GetSizeOfVarInt_tmp, simp_all add: ReadVarInt_def)

end
