(* ===== verification/Transaction.thy ===== *)
theory Transaction
  imports Serialize
begin

text \<open>
  Transactions (\<^verbatim>\<open>primitives/transaction.h\<close>, \<^verbatim>\<open>primitives/transaction.cpp\<close>), with the range proofs
  (\<^verbatim>\<open>blsct/bulletproofs.h\<close>) and token identifiers (\<^verbatim>\<open>ctokens/tokenid.h\<close>) of their outputs, and how they are written
  to a stream and read back. The curve library is a parameter: group elements \<open>'g\<close> and scalars \<open>'s\<close> with their byte forms.
  The memoised hashes (\<^verbatim>\<open>cacheHash\<close>, \<^verbatim>\<open>hash\<close>) are not part of the records.
\<close>

section \<open>Data\<close>

record COutPoint =
  op_hash :: uint256
  op_n :: u32

record CTxIn =
  ti_prevout :: COutPoint
  ti_scriptSig :: bytes
  ti_nSequence :: u32

record TokenId =
  tk_token :: uint256
  tk_subid :: u64

record ('g, 's) BulletproofsRangeproof =
  bp_V :: "'g list"
  bp_L :: "'g list"
  bp_R :: "'g list"
  bp_A :: 'g
  bp_S :: 'g
  bp_T1 :: 'g
  bp_T2 :: 'g
  bp_taux :: 's
  bp_mu :: 's
  bp_a :: 's
  bp_b :: 's
  bp_t :: 's

record ('g, 's) CTxOut =
  to_nValue :: CAmount
  to_scriptPubKey :: bytes
  to_ephemeralKey :: bytes
  to_outputKey :: bytes
  to_spendingKey :: bytes
  to_vData :: bytes
  to_tokenId :: TokenId
  to_bp :: "('g, 's) BulletproofsRangeproof option"

text \<open>\<^verbatim>\<open>CTxWitness\<close> is the vector of the witness stacks.\<close>

type_synonym CTxInWitness = "bytes list"

record ('g, 's) CTransaction =
  tx_nVersion :: int
  tx_nTime :: u32
  tx_vin :: "CTxIn list"
  tx_vout :: "('g, 's) CTxOut list"
  tx_wit :: "CTxInWitness list"
  tx_nLockTime :: u32
  tx_strDZeel :: bytes
  tx_vchTxSig :: bytes
  tx_vchBalanceSig :: bytes

text \<open>
  The curve library (\<^verbatim>\<open>bls::G1Element\<close> and the numbers of relic), where \<^verbatim>\<open>FromByteVector\<close> is \<open>None\<close> when it throws, and
  the sizes of the elements of vectors.
\<close>

record ('g, 's) SerEnv =
  g1_Serialize :: "'g \<Rightarrow> bytes"
  g1_FromByteVector :: "bytes \<Rightarrow> 'g option"
  g1_default :: 'g
  bn_write_bin :: "'s \<Rightarrow> bytes"
  bn_read_bin :: "bytes \<Rightarrow> 's"
  bn_default :: 's
  sizeof_CTxIn :: nat
  sizeof_CTxOut :: nat
  sizeof_vector :: nat

abbreviation (input) "TX_BLS_INPUT_FLAG \<equiv> 0x10"
abbreviation (input) "TX_BLS_CT_FLAG \<equiv> 0x20"

section \<open>Operations\<close>

definition COutPoint_null :: COutPoint where
  "COutPoint_null = \<lparr>op_hash = 0, op_n = - 1\<rparr>"

definition COutPoint_IsNull :: "COutPoint \<Rightarrow> bool" where
  "COutPoint_IsNull p = (op_hash p = 0 \<and> op_n p = - 1)"

definition TokenId_null :: TokenId where
  "TokenId_null = \<lparr>tk_token = 0, tk_subid = - 1\<rparr>"

definition BulletproofsRangeproof_empty :: "('g, 's, 'z) SerEnv_scheme \<Rightarrow> ('g, 's) BulletproofsRangeproof" where
  "BulletproofsRangeproof_empty env =
     \<lparr>bp_V = [], bp_L = [], bp_R = [], bp_A = g1_default env, bp_S = g1_default env, bp_T1 = g1_default env,
      bp_T2 = g1_default env, bp_taux = bn_default env, bp_mu = bn_default env, bp_a = bn_default env,
      bp_b = bn_default env, bp_t = bn_default env\<rparr>"

definition CTxOut_null :: "('g, 's) CTxOut" where
  "CTxOut_null =
     \<lparr>to_nValue = - 1, to_scriptPubKey = [], to_ephemeralKey = [], to_outputKey = [], to_spendingKey = [],
      to_vData = [], to_tokenId = TokenId_null, to_bp = None\<rparr>"

definition CTxOut_GetBulletproof ::
  "('g, 's, 'z) SerEnv_scheme \<Rightarrow> ('g, 's) CTxOut \<Rightarrow> ('g, 's) BulletproofsRangeproof" where
  "CTxOut_GetBulletproof env txout =
     (case to_bp txout of Some p \<Rightarrow> p | None \<Rightarrow> BulletproofsRangeproof_empty env)"

definition CTxOut_IsBLSCT :: "('g, 's) CTxOut \<Rightarrow> bool" where
  "CTxOut_IsBLSCT txout =
     (length (to_ephemeralKey txout) > 0 \<or> length (to_spendingKey txout) > 0 \<or> length (to_outputKey txout) > 0)"

definition CTxOut_HasRangeProof :: "('g, 's, 'z) SerEnv_scheme \<Rightarrow> ('g, 's) CTxOut \<Rightarrow> bool" where
  "CTxOut_HasRangeProof env txout =
     (to_bp txout \<noteq> None \<and> length (bp_V (CTxOut_GetBulletproof env txout)) > 0)"

definition CTxOut_IsNull :: "('g, 's) CTxOut \<Rightarrow> bool" where
  "CTxOut_IsNull txout =
     (to_nValue txout = - 1 \<and> to_scriptPubKey txout = [] \<and> to_spendingKey txout = [] \<and>
      to_ephemeralKey txout = [] \<and> to_outputKey txout = [])"

definition CTxOut_IsEmpty :: "('g, 's, 'z) SerEnv_scheme \<Rightarrow> ('g, 's) CTxOut \<Rightarrow> bool" where
  "CTxOut_IsEmpty env txout =
     (to_nValue txout = 0 \<and> to_scriptPubKey txout = [] \<and> to_spendingKey txout = [] \<and>
      to_ephemeralKey txout = [] \<and> to_outputKey txout = [] \<and> \<not> CTxOut_HasRangeProof env txout \<and> to_vData txout = [])"

definition CTransaction_IsCoinBase :: "('g, 's) CTransaction \<Rightarrow> bool" where
  "CTransaction_IsCoinBase tx = (length (tx_vin tx) = 1 \<and> COutPoint_IsNull (ti_prevout (tx_vin tx ! 0)))"

definition CTransaction_IsCoinStake :: "('g, 's, 'z) SerEnv_scheme \<Rightarrow> ('g, 's) CTransaction \<Rightarrow> bool" where
  "CTransaction_IsCoinStake env tx =
     (length (tx_vin tx) > 0 \<and> \<not> COutPoint_IsNull (ti_prevout (tx_vin tx ! 0)) \<and>
      length (tx_vout tx) \<ge> 2 \<and> CTxOut_IsEmpty env (tx_vout tx ! 0))"

definition CTxWitness_IsNull :: "CTxInWitness list \<Rightarrow> bool" where
  "CTxWitness_IsNull wit = list_all (\<lambda>stack. stack = []) wit"

definition CMutableTransaction_init :: "('g, 's) CTransaction" where
  "CMutableTransaction_init =
     \<lparr>tx_nVersion = 1, tx_nTime = 0, tx_vin = [], tx_vout = [], tx_wit = [], tx_nLockTime = 0, tx_strDZeel = [],
      tx_vchTxSig = [], tx_vchBalanceSig = []\<rparr>"

section \<open>Writing\<close>

definition COutPoint_Serialize :: "COutPoint \<Rightarrow> bytes" where
  "COutPoint_Serialize p = Serialize_uint256 (op_hash p) @ ser_writedata32 (op_n p)"

definition CTxIn_Serialize :: "CTxIn \<Rightarrow> bytes" where
  "CTxIn_Serialize txin =
     COutPoint_Serialize (ti_prevout txin) @ Serialize_bytes (ti_scriptSig txin) @ ser_writedata32 (ti_nSequence txin)"

definition G1Element_Serialize :: "('g, 's, 'z) SerEnv_scheme \<Rightarrow> 'g \<Rightarrow> bytes" where
  "G1Element_Serialize env a = Serialize_bytes (g1_Serialize env a)"

definition Scalar_Serialize :: "('g, 's, 'z) SerEnv_scheme \<Rightarrow> 's \<Rightarrow> bytes" where
  "Scalar_Serialize env a = Serialize_bytes (bn_write_bin env a)"

definition BulletproofsRangeproof_Serialize ::
  "('g, 's, 'z) SerEnv_scheme \<Rightarrow> ('g, 's) BulletproofsRangeproof \<Rightarrow> bytes" where
  "BulletproofsRangeproof_Serialize env p =
     Serialize_vector (G1Element_Serialize env) (bp_V p) @
     Serialize_vector (G1Element_Serialize env) (bp_L p) @
     Serialize_vector (G1Element_Serialize env) (bp_R p) @
     G1Element_Serialize env (bp_A p) @ G1Element_Serialize env (bp_S p) @
     G1Element_Serialize env (bp_T1 p) @ G1Element_Serialize env (bp_T2 p) @
     Scalar_Serialize env (bp_taux p) @ Scalar_Serialize env (bp_mu p) @ Scalar_Serialize env (bp_a p) @
     Scalar_Serialize env (bp_b p) @ Scalar_Serialize env (bp_t p)"

text \<open>The marker of an output with data or a token: the top bit and a bit for every field that follows.\<close>

definition CTxOut_extended :: "('g, 's) CTxOut \<Rightarrow> bool" where
  "CTxOut_extended txout =
     (length (to_vData txout) > 0 \<or> tk_token (to_tokenId txout) \<noteq> 0 \<or> tk_subid (to_tokenId txout) \<noteq> - 1)"

definition CTxOut_marker :: "('g, 's, 'z) SerEnv_scheme \<Rightarrow> ('g, 's) CTxOut \<Rightarrow> u64" where
  "CTxOut_marker env txout =
     push_bit 62 2 OR
     (if to_nValue txout > 0 then push_bit 0 1 else 0) OR
     (if length (to_ephemeralKey txout) > 0 then push_bit 1 1 else 0) OR
     (if length (to_outputKey txout) > 0 then push_bit 2 1 else 0) OR
     (if length (to_spendingKey txout) > 0 then push_bit 3 1 else 0) OR
     (if CTxOut_HasRangeProof env txout then push_bit 4 1 else 0) OR
     (if tk_token (to_tokenId txout) \<noteq> 0 then push_bit 5 1 else 0) OR
     (if tk_subid (to_tokenId txout) \<noteq> - 1 then push_bit 6 1 else 0) OR
     (if length (to_vData txout) > 0 then push_bit 7 1 else 0)"

definition write_if :: "bool \<Rightarrow> bytes \<Rightarrow> bytes" where
  "write_if c b = (if c then b else [])"

definition CTxOut_Serialize :: "('g, 's, 'z) SerEnv_scheme \<Rightarrow> ('g, 's) CTxOut \<Rightarrow> bytes" where
  "CTxOut_Serialize env txout =
     (if CTxOut_extended txout then
        let nMarker = CTxOut_marker env txout
        in ser_writedata64 nMarker @
           write_if (bit nMarker 0) (Serialize_int64 (to_nValue txout)) @
           write_if (bit nMarker 1) (Serialize_bytes (to_ephemeralKey txout)) @
           write_if (bit nMarker 2) (Serialize_bytes (to_outputKey txout)) @
           write_if (bit nMarker 3) (Serialize_bytes (to_spendingKey txout)) @
           write_if (bit nMarker 4) (BulletproofsRangeproof_Serialize env (CTxOut_GetBulletproof env txout)) @
           write_if (bit nMarker 5) (Serialize_uint256 (tk_token (to_tokenId txout))) @
           write_if (bit nMarker 6) (ser_writedata64 (tk_subid (to_tokenId txout))) @
           write_if (bit nMarker 7) (Serialize_bytes (to_vData txout))
      else if CTxOut_IsBLSCT txout then
        ser_writedata64 (- 1) @
        Serialize_int64 (to_nValue txout) @
        Serialize_bytes (to_ephemeralKey txout) @
        Serialize_bytes (to_outputKey txout) @
        Serialize_bytes (to_spendingKey txout) @
        BulletproofsRangeproof_Serialize env (CTxOut_GetBulletproof env txout)
      else Serialize_int64 (to_nValue txout)) @
     Serialize_bytes (to_scriptPubKey txout)"

definition CTxInWitness_Serialize :: "CTxInWitness \<Rightarrow> bytes" where
  "CTxInWitness_Serialize stack = Serialize_vector Serialize_bytes stack"

definition CTxWitness_Serialize :: "CTxInWitness list \<Rightarrow> bytes result" where
  "CTxWitness_Serialize wit =
     (if CTxWitness_IsNull wit then Inl StdException else Inr (concat (map CTxInWitness_Serialize wit)))"

text \<open>\<^verbatim>\<open>vtxinwit.resize(n)\<close>, with empty stacks for the new entries.\<close>

definition resize_witness :: "nat \<Rightarrow> CTxInWitness list \<Rightarrow> CTxInWitness list" where
  "resize_witness n wit = take n wit @ replicate (n - length wit) []"

text \<open>The fields after the witness, which depend on the version.\<close>

definition write_tail :: "('g, 's) CTransaction \<Rightarrow> bytes" where
  "write_tail tx =
     ser_writedata32 (tx_nLockTime tx) @
     write_if (tx_nVersion tx \<ge> 2) (Serialize_bytes (tx_strDZeel tx)) @
     write_if (tx_nVersion tx AND TX_BLS_CT_FLAG \<noteq> 0 \<or> tx_nVersion tx AND TX_BLS_INPUT_FLAG \<noteq> 0)
       (Serialize_bytes (tx_vchBalanceSig tx)) @
     write_if (tx_nVersion tx AND TX_BLS_INPUT_FLAG \<noteq> 0) (Serialize_bytes (tx_vchTxSig tx))"

definition CTransaction_Serialize ::
  "('g, 's, 'z) SerEnv_scheme \<Rightarrow> bool \<Rightarrow> ('g, 's) CTransaction \<Rightarrow> bytes result" where
  "CTransaction_Serialize env no_witness tx =
     (if \<not> length (tx_wit tx) \<le> length (tx_vin tx) then Inl AssertFailed
      else
        let flags = (if \<not> no_witness \<and> \<not> CTxWitness_IsNull (tx_wit tx) then 1 else 0) :: u8
        in bindR (if flags AND 1 \<noteq> 0 then CTxWitness_Serialize (resize_witness (length (tx_vin tx)) (tx_wit tx))
                  else Inr []) (\<lambda>wit.
             Inr (Serialize_int32 (tx_nVersion tx) @ ser_writedata32 (tx_nTime tx) @
                  write_if (flags \<noteq> 0) (Serialize_vector CTxIn_Serialize [] @ ser_writedata8 flags) @
                  Serialize_vector CTxIn_Serialize (tx_vin tx) @
                  Serialize_vector (CTxOut_Serialize env) (tx_vout tx) @
                  wit @ write_tail tx)))"

definition CTransaction_GetHash ::
  "(bytes \<Rightarrow> uint256) \<Rightarrow> ('g, 's, 'z) SerEnv_scheme \<Rightarrow> ('g, 's) CTransaction \<Rightarrow> uint256 result" where
  "CTransaction_GetHash Hash env tx = bindR (CTransaction_Serialize env True tx) (\<lambda>b. Inr (Hash b))"

definition CTransaction_GetWitnessHash ::
  "(bytes \<Rightarrow> uint256) \<Rightarrow> ('g, 's, 'z) SerEnv_scheme \<Rightarrow> ('g, 's) CTransaction \<Rightarrow> uint256 result" where
  "CTransaction_GetWitnessHash Hash env tx = bindR (CTransaction_Serialize env False tx) (\<lambda>b. Inr (Hash b))"

section \<open>Reading\<close>

text \<open>\<^verbatim>\<open>READWRITE(x.f)\<close> of a reading stream: read a value and store it in the field of the object read so far.\<close>

definition read_field ::
  "'a reader \<Rightarrow> (('a \<Rightarrow> 'a) \<Rightarrow> 'x \<Rightarrow> 'x) \<Rightarrow> 'x \<times> bytes \<Rightarrow> ('x \<times> bytes) result" where
  "read_field rd upd = (\<lambda>(x, s). bindR (rd s) (\<lambda>(v, s). Inr (upd (\<lambda>_. v) x, s)))"

definition read_if ::
  "bool \<Rightarrow> 'a reader \<Rightarrow> (('a \<Rightarrow> 'a) \<Rightarrow> 'x \<Rightarrow> 'x) \<Rightarrow> 'x \<times> bytes \<Rightarrow> ('x \<times> bytes) result" where
  "read_if c rd upd xs = (if c then read_field rd upd xs else Inr xs)"

definition COutPoint_Unserialize :: "COutPoint reader" where
  "COutPoint_Unserialize s =
     bindR (read_field Unserialize_uint256 op_hash_update (COutPoint_null, s)) (read_field ser_readdata32 op_n_update)"

definition CTxIn_Unserialize :: "CTxIn reader" where
  "CTxIn_Unserialize s =
     bindR (read_field COutPoint_Unserialize ti_prevout_update
              (\<lparr>ti_prevout = COutPoint_null, ti_scriptSig = [], ti_nSequence = - 1\<rparr>, s)) (\<lambda>x.
     bindR (read_field Unserialize_bytes ti_scriptSig_update x)
           (read_field ser_readdata32 ti_nSequence_update))"

definition G1Element_Unserialize :: "('g, 's, 'z) SerEnv_scheme \<Rightarrow> 'g reader" where
  "G1Element_Unserialize env s =
     bindR (Unserialize_bytes s) (\<lambda>(f, s).
       Inr (case g1_FromByteVector env f of Some a \<Rightarrow> a | None \<Rightarrow> g1_default env, s))"

definition Scalar_Unserialize :: "('g, 's, 'z) SerEnv_scheme \<Rightarrow> 's reader" where
  "Scalar_Unserialize env s = bindR (Unserialize_bytes s) (\<lambda>(vch, s). Inr (bn_read_bin env vch, s))"

definition BulletproofsRangeproof_Unserialize ::
  "('g, 's, 'z) SerEnv_scheme \<Rightarrow> ('g, 's) BulletproofsRangeproof reader" where
  "BulletproofsRangeproof_Unserialize env s =
     bindR (read_field (Unserialize_counted (G1Element_Unserialize env)) bp_V_update
              (BulletproofsRangeproof_empty env, s)) (\<lambda>x.
     bindR (read_field (Unserialize_counted (G1Element_Unserialize env)) bp_L_update x) (\<lambda>x.
     bindR (read_field (Unserialize_counted (G1Element_Unserialize env)) bp_R_update x) (\<lambda>x.
     bindR (read_field (G1Element_Unserialize env) bp_A_update x) (\<lambda>x.
     bindR (read_field (G1Element_Unserialize env) bp_S_update x) (\<lambda>x.
     bindR (read_field (G1Element_Unserialize env) bp_T1_update x) (\<lambda>x.
     bindR (read_field (G1Element_Unserialize env) bp_T2_update x) (\<lambda>x.
     bindR (read_field (Scalar_Unserialize env) bp_taux_update x) (\<lambda>x.
     bindR (read_field (Scalar_Unserialize env) bp_mu_update x) (\<lambda>x.
     bindR (read_field (Scalar_Unserialize env) bp_a_update x) (\<lambda>x.
     bindR (read_field (Scalar_Unserialize env) bp_b_update x)
           (read_field (Scalar_Unserialize env) bp_t_update)))))))))))"

text \<open>\<^verbatim>\<open>bp\<close> is set to a new object that holds the proof read.\<close>

definition read_proof :: "('g, 's, 'z) SerEnv_scheme \<Rightarrow> ('g, 's) BulletproofsRangeproof option reader" where
  "read_proof env s = bindR (BulletproofsRangeproof_Unserialize env s) (\<lambda>(vbp, s). Inr (Some vbp, s))"

definition read_confidential ::
  "('g, 's, 'z) SerEnv_scheme \<Rightarrow> ('g, 's) CTxOut \<times> bytes \<Rightarrow> (('g, 's) CTxOut \<times> bytes) result" where
  "read_confidential env x =
     bindR (read_field Unserialize_int64 to_nValue_update x) (\<lambda>x.
     bindR (read_field Unserialize_bytes to_ephemeralKey_update x) (\<lambda>x.
     bindR (read_field Unserialize_bytes to_outputKey_update x) (\<lambda>x.
     bindR (read_field Unserialize_bytes to_spendingKey_update x)
           (read_field (read_proof env) to_bp_update))))"

definition read_extended ::
  "('g, 's, 'z) SerEnv_scheme \<Rightarrow> u64 \<Rightarrow> ('g, 's) CTxOut \<times> bytes \<Rightarrow> (('g, 's) CTxOut \<times> bytes) result" where
  "read_extended env nFlags x =
     bindR (if bit nFlags 0 then read_field Unserialize_int64 to_nValue_update x
            else Inr (to_nValue_update (\<lambda>_. 0) (fst x), snd x)) (\<lambda>x.
     bindR (read_if (bit nFlags 1) Unserialize_bytes to_ephemeralKey_update x) (\<lambda>x.
     bindR (read_if (bit nFlags 2) Unserialize_bytes to_outputKey_update x) (\<lambda>x.
     bindR (read_if (bit nFlags 3) Unserialize_bytes to_spendingKey_update x) (\<lambda>x.
     bindR (read_if (bit nFlags 4) (read_proof env) to_bp_update x) (\<lambda>x.
     bindR (read_if (bit nFlags 5) Unserialize_uint256 (\<lambda>f. to_tokenId_update (tk_token_update f)) x) (\<lambda>x.
     bindR (read_if (bit nFlags 6) ser_readdata64 (\<lambda>f. to_tokenId_update (tk_subid_update f)) x)
           (read_if (bit nFlags 7) Unserialize_bytes to_vData_update)))))))"

definition CTxOut_Unserialize :: "('g, 's, 'z) SerEnv_scheme \<Rightarrow> ('g, 's) CTxOut reader" where
  "CTxOut_Unserialize env s =
     bindR (ser_readdata64 s) (\<lambda>(nFlags, s).
       bindR (if nFlags = - 1 then read_confidential env (CTxOut_null, s)
              else if bit nFlags 63 then read_extended env nFlags (CTxOut_null, s)
              else Inr (CTxOut_null\<lparr>to_nValue := sint nFlags\<rparr>, s))
         (read_field Unserialize_bytes to_scriptPubKey_update))"

definition CTxInWitness_Unserialize :: "('g, 's, 'z) SerEnv_scheme \<Rightarrow> CTxInWitness reader" where
  "CTxInWitness_Unserialize env s = Unserialize_vector (sizeof_vector env) Unserialize_bytes s"

definition CTxWitness_Unserialize :: "('g, 's, 'z) SerEnv_scheme \<Rightarrow> nat \<Rightarrow> CTxInWitness list reader" where
  "CTxWitness_Unserialize env n s =
     bindR (read_items (CTxInWitness_Unserialize env) n s) (\<lambda>(wit, s).
       if CTxWitness_IsNull wit then Inl StdException else Inr (wit, s))"

definition read_tail :: "('g, 's) CTransaction \<times> bytes \<Rightarrow> (('g, 's) CTransaction \<times> bytes) result" where
  "read_tail x =
     bindR (read_field ser_readdata32 tx_nLockTime_update x) (\<lambda>x.
     bindR (read_if (tx_nVersion (fst x) \<ge> 2) Unserialize_string tx_strDZeel_update x) (\<lambda>x.
     bindR (read_if (tx_nVersion (fst x) AND TX_BLS_CT_FLAG \<noteq> 0 \<or> tx_nVersion (fst x) AND TX_BLS_INPUT_FLAG \<noteq> 0)
              Unserialize_bytes tx_vchBalanceSig_update x) (\<lambda>x.
     read_if (tx_nVersion (fst x) AND TX_BLS_INPUT_FLAG \<noteq> 0) Unserialize_bytes tx_vchTxSig_update x)))"

definition CTransaction_Unserialize ::
  "('g, 's, 'z) SerEnv_scheme \<Rightarrow> bool \<Rightarrow> ('g, 's) CTransaction reader" where
  "CTransaction_Unserialize env no_witness s =
     (let read_vin = read_field (Unserialize_vector (sizeof_CTxIn env) CTxIn_Unserialize) tx_vin_update;
          read_vout = read_field (Unserialize_vector (sizeof_CTxOut env) (CTxOut_Unserialize env)) tx_vout_update
      in bindR (read_field Unserialize_int32 tx_nVersion_update (CMutableTransaction_init, s)) (\<lambda>x.
         bindR (read_field ser_readdata32 tx_nTime_update x) (\<lambda>x.
         bindR (read_vin x) (\<lambda>(tx, s).
         bindR (if length (tx_vin tx) = 0 \<and> \<not> no_witness then
                  bindR (ser_readdata8 s) (\<lambda>(flags, s).
                    if flags \<noteq> 0 then bindR (bindR (read_vin (tx, s)) read_vout) (\<lambda>x. Inr (flags, x))
                    else Inr (flags, (tx, s)))
                else bindR (read_vout (tx, s)) (\<lambda>x. Inr (0, x))) (\<lambda>(flags, (tx, s)).
         bindR (if flags AND 1 \<noteq> 0 \<and> \<not> no_witness then
                  bindR (read_field (CTxWitness_Unserialize env (length (tx_vin tx))) tx_wit_update (tx, s)) (\<lambda>x.
                    Inr (flags XOR 1, x))
                else Inr (flags, (tx, s))) (\<lambda>(flags, x).
         if flags \<noteq> 0 then Inl StdException else read_tail x))))))"

section \<open>Round trips\<close>

text \<open>
  What the curve library promises: the byte forms are decoded to what was encoded. The sizes of the elements of
  vectors are those of ordinary objects.
\<close>

definition env_ok :: "('g, 's, 'z) SerEnv_scheme \<Rightarrow> bool" where
  "env_ok env =
     ((\<forall>a. g1_FromByteVector env (g1_Serialize env a) = Some a \<and> length (g1_Serialize env a) \<le> MAX_SIZE) \<and>
      (\<forall>b. bn_read_bin env (bn_write_bin env b) = b \<and> length (bn_write_bin env b) \<le> MAX_SIZE) \<and>
      list_all (\<lambda>n. 0 < n \<and> n \<le> 5000000) [sizeof_CTxIn env, sizeof_CTxOut env, sizeof_vector env])"

lemma read_field_Inr: "rd s = Inr (v, s') \<Longrightarrow> read_field rd upd (x, s) = Inr (upd (\<lambda>_. v) x, s')"
  by (simp add: read_field_def)

lemma unser_simps [simp]:
  "Unserialize_uint256 (Serialize_uint256 h @ s) = Inr (h, s)"
  "length v \<le> MAX_SIZE \<Longrightarrow> Unserialize_bytes (Serialize_bytes v @ s) = Inr (v, s)"
  "length v \<le> MAX_SIZE \<Longrightarrow> Unserialize_string (Serialize_bytes v @ s) = Inr (v, s)"
  "- (2 ^ 31) \<le> a \<Longrightarrow> a < 2 ^ 31 \<Longrightarrow> Unserialize_int32 (Serialize_int32 a @ s) = Inr (a, s)"
  "- (2 ^ 63) \<le> a \<Longrightarrow> a < 2 ^ 63 \<Longrightarrow> Unserialize_int64 (Serialize_int64 a @ s) = Inr (a, s)"
  using hash.unser_ser [of h s] i32.unser_ser [of a s] i64.unser_ser [of a s]
    Unserialize_Serialize_bytes [of v s, unfolded Unserialize_bytes_eq]
  by (simp_all add: Unserialize_Serialize_bytes)

definition CTxIn_ok :: "CTxIn \<Rightarrow> bool" where
  "CTxIn_ok txin = (length (ti_scriptSig txin) \<le> MAX_SIZE)"

interpretation txin: codec CTxIn_Serialize CTxIn_Unserialize CTxIn_ok id
  by unfold_locales
    (simp add: CTxIn_Serialize_def CTxIn_Unserialize_def COutPoint_Serialize_def COutPoint_Unserialize_def
      CTxIn_ok_def read_field_Inr)

interpretation g1: codec "G1Element_Serialize env" "G1Element_Unserialize env" "\<lambda>a. env_ok env" id
  for env :: "('g, 's, 'z) SerEnv_scheme"
  by unfold_locales (simp add: env_ok_def G1Element_Serialize_def G1Element_Unserialize_def)

interpretation scalar: codec "Scalar_Serialize env" "Scalar_Unserialize env" "\<lambda>a. env_ok env" id
  for env :: "('g, 's, 'z) SerEnv_scheme"
  by unfold_locales (simp add: env_ok_def Scalar_Serialize_def Scalar_Unserialize_def)

definition proof_ok :: "('g, 's) BulletproofsRangeproof \<Rightarrow> bool" where
  "proof_ok p = list_all (\<lambda>xs. length xs \<le> MAX_SIZE) [bp_V p, bp_L p, bp_R p]"

interpretation rangeproof: codec "BulletproofsRangeproof_Serialize env" "BulletproofsRangeproof_Unserialize env"
    "\<lambda>p. env_ok env \<and> proof_ok p" id
  for env :: "('g, 's, 'z) SerEnv_scheme"
  by unfold_locales
    (simp add: BulletproofsRangeproof_Serialize_def BulletproofsRangeproof_Unserialize_def proof_ok_def read_field_Inr
      g1.unser_ser scalar.unser_ser g1.unser_counted list_all_iff)

definition CTxOut_ok :: "('g, 's) CTxOut \<Rightarrow> bool" where
  "CTxOut_ok txout =
     (0 \<le> to_nValue txout \<and> to_nValue txout < 2 ^ 63 \<and> pred_option proof_ok (to_bp txout) \<and>
      list_all (\<lambda>v. length v \<le> MAX_SIZE)
        [to_scriptPubKey txout, to_ephemeralKey txout, to_outputKey txout, to_spendingKey txout, to_vData txout])"

text \<open>
  What is read back for an output: the range proof is dropped where it is not written (no commitment, or an output
  without keys, data and token), and an empty one is created for an output with keys.
\<close>

definition CTxOut_norm :: "('g, 's, 'z) SerEnv_scheme \<Rightarrow> ('g, 's) CTxOut \<Rightarrow> ('g, 's) CTxOut" where
  "CTxOut_norm env txout =
     txout\<lparr>to_bp := (if CTxOut_extended txout then (if CTxOut_HasRangeProof env txout then to_bp txout else None)
                    else if CTxOut_IsBLSCT txout then Some (CTxOut_GetBulletproof env txout) else None)\<rparr>"

lemma bit_marker:
  "bit (CTxOut_marker env txout) 63"
  "\<not> bit (CTxOut_marker env txout) 8"
  "bit (CTxOut_marker env txout) 0 \<longleftrightarrow> to_nValue txout > 0"
  "bit (CTxOut_marker env txout) 1 \<longleftrightarrow> to_ephemeralKey txout \<noteq> []"
  "bit (CTxOut_marker env txout) 2 \<longleftrightarrow> to_outputKey txout \<noteq> []"
  "bit (CTxOut_marker env txout) 3 \<longleftrightarrow> to_spendingKey txout \<noteq> []"
  "bit (CTxOut_marker env txout) 4 \<longleftrightarrow> CTxOut_HasRangeProof env txout"
  "bit (CTxOut_marker env txout) 5 \<longleftrightarrow> tk_token (to_tokenId txout) \<noteq> 0"
  "bit (CTxOut_marker env txout) 6 \<longleftrightarrow> tk_subid (to_tokenId txout) \<noteq> - 1"
  "bit (CTxOut_marker env txout) 7 \<longleftrightarrow> to_vData txout \<noteq> []"
  by (simp_all add: CTxOut_marker_def bit_or_iff)

lemma read_if_write_if:
  "(c \<Longrightarrow> rd (b @ s) = Inr (v, s)) \<Longrightarrow>
   read_if c rd upd (x, write_if c b @ s) = Inr (if c then upd (\<lambda>_. v) x else x, s)"
  by (simp add: read_if_def write_if_def read_field_Inr)

lemma read_proof_Serialize:
  "env_ok env \<Longrightarrow> proof_ok p \<Longrightarrow> read_proof env (BulletproofsRangeproof_Serialize env p @ s) = Inr (Some p, s)"
  by (simp add: read_proof_def rangeproof.unser_ser)

lemma proof_ok_Get: "CTxOut_ok txout \<Longrightarrow> proof_ok (CTxOut_GetBulletproof env txout)"
  by (auto simp: CTxOut_ok_def CTxOut_GetBulletproof_def BulletproofsRangeproof_empty_def proof_ok_def split: option.splits)

lemma plain_value:
  assumes "0 \<le> a" "a < 2 ^ 63"
  shows "\<not> bit (word_of_int a :: u64) 63" "sint (word_of_int a :: u64) = a"
proof -
  have "\<not> bit a 63" using assms by (simp add: bit_iff_odd)
  then show "\<not> bit (word_of_int a :: u64) 63" by (simp add: bit_word_of_int_iff)
  show "sint (word_of_int a :: u64) = a" using assms by (simp add: sint_sbintrunc' signed_take_bit_int_eq_self)
qed

lemma read_confidential_write:
  assumes "env_ok env" "CTxOut_ok txout" "\<not> CTxOut_extended txout"
  shows "read_confidential env (CTxOut_null,
      Serialize_int64 (to_nValue txout) @ Serialize_bytes (to_ephemeralKey txout) @ Serialize_bytes (to_outputKey txout) @
      Serialize_bytes (to_spendingKey txout) @ BulletproofsRangeproof_Serialize env (CTxOut_GetBulletproof env txout) @ s) =
    Inr (txout\<lparr>to_scriptPubKey := [], to_bp := Some (CTxOut_GetBulletproof env txout)\<rparr>, s)"
  using assms
  by (cases txout; cases "to_tokenId txout")
    (simp add: read_confidential_def CTxOut_ok_def CTxOut_null_def TokenId_null_def CTxOut_extended_def read_field_Inr
      read_proof_Serialize proof_ok_Get)

lemma read_extended_write:
  assumes "env_ok env" "CTxOut_ok txout"
  defines "m \<equiv> CTxOut_marker env txout"
  shows "read_extended env m (CTxOut_null,
      write_if (bit m 0) (Serialize_int64 (to_nValue txout)) @
      write_if (bit m 1) (Serialize_bytes (to_ephemeralKey txout)) @
      write_if (bit m 2) (Serialize_bytes (to_outputKey txout)) @
      write_if (bit m 3) (Serialize_bytes (to_spendingKey txout)) @
      write_if (bit m 4) (BulletproofsRangeproof_Serialize env (CTxOut_GetBulletproof env txout)) @
      write_if (bit m 5) (Serialize_uint256 (tk_token (to_tokenId txout))) @
      write_if (bit m 6) (ser_writedata64 (tk_subid (to_tokenId txout))) @
      write_if (bit m 7) (Serialize_bytes (to_vData txout)) @ s) =
    Inr (txout\<lparr>to_scriptPubKey := [], to_bp := if CTxOut_HasRangeProof env txout then to_bp txout else None\<rparr>, s)"
proof -
  have amount: "(if bit m 0 then read_field Unserialize_int64 to_nValue_update (x, write_if (bit m 0) (Serialize_int64 (to_nValue txout)) @ r)
      else Inr (to_nValue_update (\<lambda>_. 0) (fst (x, write_if (bit m 0) (Serialize_int64 (to_nValue txout)) @ r)),
        snd (x, write_if (bit m 0) (Serialize_int64 (to_nValue txout)) @ r))) =
      Inr (x\<lparr>to_nValue := to_nValue txout\<rparr>, r)" for x r
    using assms(2) by (auto simp: m_def bit_marker write_if_def CTxOut_ok_def read_field_Inr)
  have "to_bp txout = Some (CTxOut_GetBulletproof env txout)" if "CTxOut_HasRangeProof env txout"
    using that by (auto simp: CTxOut_HasRangeProof_def CTxOut_GetBulletproof_def)
  then have bp: "read_if (bit m 4) (read_proof env) to_bp_update
      (x, write_if (bit m 4) (BulletproofsRangeproof_Serialize env (CTxOut_GetBulletproof env txout)) @ r) =
      Inr (if bit m 4 then x\<lparr>to_bp := to_bp txout\<rparr> else x, r)" for x r
    using read_proof_Serialize [OF assms(1) proof_ok_Get [OF assms(2)]]
    by (intro read_if_write_if) (simp add: m_def bit_marker)
  have key: "read_if c Unserialize_bytes upd (x, write_if c (Serialize_bytes v) @ r) =
      Inr (if c then upd (\<lambda>_. v) x else x, r)" if "length v \<le> MAX_SIZE" for c upd x r and v :: bytes
    using that by (intro read_if_write_if) simp
  have len: "length (to_ephemeralKey txout) \<le> MAX_SIZE" "length (to_outputKey txout) \<le> MAX_SIZE"
      "length (to_spendingKey txout) \<le> MAX_SIZE" "length (to_vData txout) \<le> MAX_SIZE"
    using assms(2) by (simp_all add: CTxOut_ok_def)
  have token: "read_if c Unserialize_uint256 upd (x, write_if c (Serialize_uint256 h) @ r) =
      Inr (if c then upd (\<lambda>_. h) x else x, r)" for c upd x r h by (intro read_if_write_if) simp
  have subid: "read_if c ser_readdata64 upd (x, write_if c (ser_writedata64 n) @ r) =
      Inr (if c then upd (\<lambda>_. n) x else x, r)" for c upd x r n by (intro read_if_write_if) simp
  show ?thesis unfolding read_extended_def amount
    unfolding bindR_Inr key [OF len(1)] key [OF len(2)] key [OF len(3)] bp token subid key [OF len(4)]
    unfolding m_def bit_marker by (cases txout; cases "to_tokenId txout") (simp add: CTxOut_null_def TokenId_null_def)
qed

lemma CTxOut_Unserialize_Serialize:
  fixes txout :: "('g, 's) CTxOut"
  assumes "env_ok env" "CTxOut_ok txout"
  shows "CTxOut_Unserialize env (CTxOut_Serialize env txout @ s) = Inr (CTxOut_norm env txout, s)"
proof -
  have script: "read_field Unserialize_bytes to_scriptPubKey_update (x, Serialize_bytes (to_scriptPubKey txout) @ s) =
      Inr (x\<lparr>to_scriptPubKey := to_scriptPubKey txout\<rparr>, s)" for x :: "('g, 's) CTxOut"
    using assms(2) by (intro read_field_Inr) (simp add: CTxOut_ok_def)
  consider (ext) "CTxOut_extended txout" | (blsct) "\<not> CTxOut_extended txout" "CTxOut_IsBLSCT txout"
    | (plain) "\<not> CTxOut_extended txout" "\<not> CTxOut_IsBLSCT txout" by blast
  then show ?thesis
  proof cases
    case ext
    have "CTxOut_marker env txout \<noteq> - 1" using bit_marker(2) [of env txout] by auto
    then have "CTxOut_Unserialize env (CTxOut_Serialize env txout @ s) =
        Inr (txout\<lparr>to_scriptPubKey := [], to_bp := if CTxOut_HasRangeProof env txout then to_bp txout else None\<rparr>
          \<lparr>to_scriptPubKey := to_scriptPubKey txout\<rparr>, s)"
      unfolding CTxOut_Unserialize_def CTxOut_Serialize_def Let_def
      by (simp add: ext bit_marker(1) script read_extended_write [OF assms] del: if_split One_nat_def)
    then show ?thesis using ext by (cases txout) (simp add: CTxOut_norm_def)
  next
    case blsct
    then have "CTxOut_Unserialize env (CTxOut_Serialize env txout @ s) =
        Inr (txout\<lparr>to_scriptPubKey := [], to_bp := Some (CTxOut_GetBulletproof env txout)\<rparr>
          \<lparr>to_scriptPubKey := to_scriptPubKey txout\<rparr>, s)"
      using script read_confidential_write [OF assms] by (simp add: CTxOut_Unserialize_def CTxOut_Serialize_def)
    then show ?thesis using blsct by (cases txout) (simp add: CTxOut_norm_def)
  next
    case plain
    have v: "0 \<le> to_nValue txout" "to_nValue txout < 2 ^ 63" using assms(2) by (simp_all add: CTxOut_ok_def)
    note w = plain_value [OF v]
    then have "(word_of_int (to_nValue txout) :: u64) \<noteq> - 1" by auto
    then have "CTxOut_Unserialize env (CTxOut_Serialize env txout @ s) =
        Inr (CTxOut_null\<lparr>to_nValue := to_nValue txout, to_scriptPubKey := to_scriptPubKey txout\<rparr>, s)"
      using plain script w by (simp add: CTxOut_Unserialize_def CTxOut_Serialize_def Serialize_int64_def)
    then show ?thesis using plain
      by (cases txout; cases "to_tokenId txout")
        (simp add: CTxOut_norm_def CTxOut_null_def TokenId_null_def CTxOut_extended_def CTxOut_IsBLSCT_def)
  qed
qed

interpretation txout: codec "CTxOut_Serialize env" "CTxOut_Unserialize env" "\<lambda>txout. env_ok env \<and> CTxOut_ok txout"
    "CTxOut_norm env"
  for env :: "('g, 's, 'z) SerEnv_scheme"
  by unfold_locales (simp add: CTxOut_Unserialize_Serialize)

lemma CTxOut_norm_fields:
  "to_nValue (CTxOut_norm env txout) = to_nValue txout" "to_scriptPubKey (CTxOut_norm env txout) = to_scriptPubKey txout"
  "to_ephemeralKey (CTxOut_norm env txout) = to_ephemeralKey txout" "to_outputKey (CTxOut_norm env txout) = to_outputKey txout"
  "to_spendingKey (CTxOut_norm env txout) = to_spendingKey txout" "to_vData (CTxOut_norm env txout) = to_vData txout"
  "to_tokenId (CTxOut_norm env txout) = to_tokenId txout"
  "CTxOut_extended (CTxOut_norm env txout) = CTxOut_extended txout"
  "CTxOut_IsBLSCT (CTxOut_norm env txout) = CTxOut_IsBLSCT txout"
  "CTxOut_extended txout \<Longrightarrow> CTxOut_HasRangeProof env (CTxOut_norm env txout) = CTxOut_HasRangeProof env txout"
  by (simp_all add: CTxOut_norm_def CTxOut_extended_def CTxOut_IsBLSCT_def CTxOut_HasRangeProof_def CTxOut_GetBulletproof_def)

lemma CTxOut_Serialize_norm: "CTxOut_Serialize env (CTxOut_norm env txout) = CTxOut_Serialize env txout"
proof -
  let ?n = "CTxOut_norm env txout"
  have proofs: "write_if (CTxOut_HasRangeProof env txout) (BulletproofsRangeproof_Serialize env (CTxOut_GetBulletproof env ?n)) =
      write_if (CTxOut_HasRangeProof env txout) (BulletproofsRangeproof_Serialize env (CTxOut_GetBulletproof env txout))"
    if "CTxOut_extended txout" using that by (simp add: write_if_def CTxOut_norm_def CTxOut_GetBulletproof_def)
  have "CTxOut_marker env ?n = CTxOut_marker env txout" if "CTxOut_extended txout"
    using that by (simp add: CTxOut_marker_def CTxOut_norm_fields)
  moreover have "CTxOut_GetBulletproof env ?n = CTxOut_GetBulletproof env txout"
    if "\<not> CTxOut_extended txout" "CTxOut_IsBLSCT txout"
    using that by (simp add: CTxOut_norm_def CTxOut_GetBulletproof_def)
  ultimately show ?thesis
    by (cases "CTxOut_extended txout"; cases "CTxOut_IsBLSCT txout")
      (simp_all only: CTxOut_Serialize_def Let_def CTxOut_norm_fields bit_marker proofs if_True if_False simp_thms)
qed

definition stack_ok :: "CTxInWitness \<Rightarrow> bool" where
  "stack_ok stack = (length stack \<le> MAX_SIZE \<and> list_all (\<lambda>v. length v \<le> MAX_SIZE) stack)"

interpretation witness: codec CTxInWitness_Serialize "CTxInWitness_Unserialize env" "\<lambda>st. env_ok env \<and> stack_ok st" id
  for env :: "('g, 's, 'z) SerEnv_scheme"
  by unfold_locales
    (simp add: CTxInWitness_Serialize_def CTxInWitness_Unserialize_def stack_ok_def env_ok_def blob.unser_vector)

text \<open>
  A transaction whose parts fit a stream. Where the witness format is allowed, an empty list of inputs followed by
  outputs would be read as the marker of a witness.
\<close>

definition CTransaction_ok :: "bool \<Rightarrow> ('g, 's) CTransaction \<Rightarrow> bool" where
  "CTransaction_ok no_witness tx =
     (- (2 ^ 31) \<le> tx_nVersion tx \<and> tx_nVersion tx < 2 ^ 31 \<and>
      list_all CTxIn_ok (tx_vin tx) \<and> length (tx_vin tx) \<le> MAX_SIZE \<and>
      list_all CTxOut_ok (tx_vout tx) \<and> length (tx_vout tx) \<le> MAX_SIZE \<and>
      length (tx_wit tx) \<le> length (tx_vin tx) \<and> list_all stack_ok (tx_wit tx) \<and>
      list_all (\<lambda>v. length v \<le> MAX_SIZE) [tx_strDZeel tx, tx_vchTxSig tx, tx_vchBalanceSig tx] \<and>
      (tx_vin tx \<noteq> [] \<or> tx_vout tx = [] \<or> no_witness))"

text \<open>What is read back: no fields that the version does not have, and a witness stack for every input or none.\<close>

definition CTransaction_norm ::
  "('g, 's, 'z) SerEnv_scheme \<Rightarrow> bool \<Rightarrow> ('g, 's) CTransaction \<Rightarrow> ('g, 's) CTransaction" where
  "CTransaction_norm env no_witness tx =
     tx\<lparr>tx_vout := map (CTxOut_norm env) (tx_vout tx),
        tx_wit := (if no_witness \<or> CTxWitness_IsNull (tx_wit tx) then []
                   else resize_witness (length (tx_vin tx)) (tx_wit tx)),
        tx_strDZeel := (if tx_nVersion tx \<ge> 2 then tx_strDZeel tx else []),
        tx_vchBalanceSig := (if tx_nVersion tx AND TX_BLS_CT_FLAG \<noteq> 0 \<or> tx_nVersion tx AND TX_BLS_INPUT_FLAG \<noteq> 0
                             then tx_vchBalanceSig tx else []),
        tx_vchTxSig := (if tx_nVersion tx AND TX_BLS_INPUT_FLAG \<noteq> 0 then tx_vchTxSig tx else [])\<rparr>"

lemma read_tail_write:
  assumes "CTransaction_ok no_witness tx" "tx_nVersion x = tx_nVersion tx"
    "tx_strDZeel x = []" "tx_vchTxSig x = []" "tx_vchBalanceSig x = []"
  shows "read_tail (x, write_tail tx @ s) = Inr (CTransaction_norm env no_witness tx
      \<lparr>tx_nVersion := tx_nVersion x, tx_nTime := tx_nTime x, tx_vin := tx_vin x, tx_vout := tx_vout x, tx_wit := tx_wit x\<rparr>, s)"
proof -
  have dz: "read_if c Unserialize_string upd (y, write_if c (Serialize_bytes (tx_strDZeel tx)) @ r) =
      Inr (if c then upd (\<lambda>_. tx_strDZeel tx) y else y, r)" for c upd y r
    using assms(1) by (intro read_if_write_if) (simp add: CTransaction_ok_def)
  have sig: "read_if c Unserialize_bytes upd (y, write_if c (Serialize_bytes v) @ r) =
      Inr (if c then upd (\<lambda>_. v) y else y, r)" if "length v \<le> MAX_SIZE" for c upd y r and v :: bytes
    using that by (intro read_if_write_if) simp
  have "length (tx_vchTxSig tx) \<le> MAX_SIZE" "length (tx_vchBalanceSig tx) \<le> MAX_SIZE"
    using assms(1) by (simp_all add: CTransaction_ok_def)
  then show ?thesis using assms(2-)
    by (cases x) (simp add: read_tail_def write_tail_def read_field_Inr dz sig CTransaction_norm_def)
qed

lemma resize_witness_null: "length wit \<le> n \<Longrightarrow> CTxWitness_IsNull (resize_witness n wit) = CTxWitness_IsNull wit"
  by (auto simp: CTxWitness_IsNull_def resize_witness_def list_all_iff)

lemma length_resize_witness [simp]: "length (resize_witness n wit) = n"
  by (simp add: resize_witness_def)

lemma read_witness_write:
  assumes "env_ok env" "list_all stack_ok wit" "length wit \<le> n" "\<not> CTxWitness_IsNull wit"
  shows "CTxWitness_Unserialize env n (concat (map CTxInWitness_Serialize (resize_witness n wit)) @ s) =
    Inr (resize_witness n wit, s)"
proof -
  have "list_all (\<lambda>st. env_ok env \<and> stack_ok st) (resize_witness n wit)"
    using assms(1,2) by (auto simp: resize_witness_def list_all_iff stack_ok_def dest: in_set_takeD)
  then have "read_items (CTxInWitness_Unserialize env) n (concat (map CTxInWitness_Serialize (resize_witness n wit)) @ s) =
      Inr (resize_witness n wit, s)"
    using witness.unser_items [of env "resize_witness n wit" s] by simp
  then show ?thesis using assms(3,4) by (simp add: CTxWitness_Unserialize_def resize_witness_null)
qed

lemma read_vectors:
  assumes "env_ok env" "CTransaction_ok no_witness tx"
  shows "read_field (Unserialize_vector (sizeof_CTxIn env) CTxIn_Unserialize) tx_vin_update
      (x, Serialize_vector CTxIn_Serialize (tx_vin tx) @ s) = Inr (x\<lparr>tx_vin := tx_vin tx\<rparr>, s)"
    "read_field (Unserialize_vector (sizeof_CTxIn env) CTxIn_Unserialize) tx_vin_update
      (x, Serialize_vector CTxIn_Serialize [] @ s) = Inr (x\<lparr>tx_vin := []\<rparr>, s)"
    "read_field (Unserialize_vector (sizeof_CTxOut env) (CTxOut_Unserialize env)) tx_vout_update
      (x, Serialize_vector (CTxOut_Serialize env) (tx_vout tx) @ s) =
      Inr (x\<lparr>tx_vout := map (CTxOut_norm env) (tx_vout tx)\<rparr>, s)"
proof -
  have sz: "0 < sizeof_CTxIn env" "sizeof_CTxIn env \<le> 5000000" "0 < sizeof_CTxOut env" "sizeof_CTxOut env \<le> 5000000"
    using assms(1) by (simp_all add: env_ok_def)
  have "list_all (\<lambda>txout. env_ok env \<and> CTxOut_ok txout) (tx_vout tx)" "list_all CTxIn_ok (tx_vin tx)"
      "length (tx_vin tx) \<le> MAX_SIZE" "length (tx_vout tx) \<le> MAX_SIZE"
    using assms by (simp_all add: CTransaction_ok_def list_all_iff)
  then show "read_field (Unserialize_vector (sizeof_CTxIn env) CTxIn_Unserialize) tx_vin_update
      (x, Serialize_vector CTxIn_Serialize (tx_vin tx) @ s) = Inr (x\<lparr>tx_vin := tx_vin tx\<rparr>, s)"
    "read_field (Unserialize_vector (sizeof_CTxOut env) (CTxOut_Unserialize env)) tx_vout_update
      (x, Serialize_vector (CTxOut_Serialize env) (tx_vout tx) @ s) =
      Inr (x\<lparr>tx_vout := map (CTxOut_norm env) (tx_vout tx)\<rparr>, s)"
    using txin.unser_vector [of "tx_vin tx" "sizeof_CTxIn env" s] txout.unser_vector [of env "tx_vout tx" "sizeof_CTxOut env" s] sz
    by (simp_all add: read_field_Inr)
  show "read_field (Unserialize_vector (sizeof_CTxIn env) CTxIn_Unserialize) tx_vin_update
      (x, Serialize_vector CTxIn_Serialize [] @ s) = Inr (x\<lparr>tx_vin := []\<rparr>, s)"
    using txin.unser_vector [of "[]" "sizeof_CTxIn env" s] sz by (simp add: read_field_Inr)
qed

text \<open>The form without a witness and the one with, as one string of bytes.\<close>

lemma CTransaction_Serialize_bytes:
  assumes "CTransaction_ok no_witness tx"
  shows "CTransaction_Serialize env no_witness tx =
    Inr (Serialize_int32 (tx_nVersion tx) @ ser_writedata32 (tx_nTime tx) @
      (if no_witness \<or> CTxWitness_IsNull (tx_wit tx)
       then Serialize_vector CTxIn_Serialize (tx_vin tx) @ Serialize_vector (CTxOut_Serialize env) (tx_vout tx)
       else Serialize_vector CTxIn_Serialize [] @ ser_writedata8 1 @ Serialize_vector CTxIn_Serialize (tx_vin tx) @
         Serialize_vector (CTxOut_Serialize env) (tx_vout tx) @
         concat (map CTxInWitness_Serialize (resize_witness (length (tx_vin tx)) (tx_wit tx)))) @ write_tail tx)"
proof -
  have "length (tx_wit tx) \<le> length (tx_vin tx)" using assms by (simp add: CTransaction_ok_def)
  then show ?thesis
    by (simp add: CTransaction_Serialize_def Let_def CTxWitness_Serialize_def resize_witness_null write_if_def)
qed

lemma no_inputs:
  assumes "CTransaction_ok no_witness tx" "tx_vin tx = []" "\<not> no_witness"
  shows "Serialize_vector (CTxOut_Serialize env) (tx_vout tx) = ser_writedata8 0" "tx_vout tx = []"
  using assms by (simp_all add: CTransaction_ok_def Serialize_vector_def WriteCompactSize_def)

lemma CTransaction_read_plain:
  assumes "env_ok env" "CTransaction_ok no_witness tx" "no_witness \<or> CTxWitness_IsNull (tx_wit tx)"
  shows "CTransaction_Unserialize env no_witness
      (Serialize_int32 (tx_nVersion tx) @ ser_writedata32 (tx_nTime tx) @ Serialize_vector CTxIn_Serialize (tx_vin tx) @
       Serialize_vector (CTxOut_Serialize env) (tx_vout tx) @ write_tail tx @ s) =
    Inr (CTransaction_norm env no_witness tx, s)"
proof -
  define x where "x = CMutableTransaction_init\<lparr>tx_nVersion := tx_nVersion tx, tx_nTime := tx_nTime tx,
      tx_vin := tx_vin tx, tx_vout := map (CTxOut_norm env) (tx_vout tx)\<rparr>"
  have version: "- (2 ^ 31) \<le> tx_nVersion tx" "tx_nVersion tx < 2 ^ 31" using assms(2) by (simp_all add: CTransaction_ok_def)
  have "CTransaction_Unserialize env no_witness
      (Serialize_int32 (tx_nVersion tx) @ ser_writedata32 (tx_nTime tx) @ Serialize_vector CTxIn_Serialize (tx_vin tx) @
       Serialize_vector (CTxOut_Serialize env) (tx_vout tx) @ write_tail tx @ s) = read_tail (x, write_tail tx @ s)"
    using version no_inputs(1) [OF assms(2), of env] no_inputs(2) [OF assms(2)]
    by (cases no_witness; cases "tx_vin tx = []")
      (simp_all add: CTransaction_Unserialize_def Let_def read_field_Inr [of Unserialize_int32] read_field_Inr [of ser_readdata32]
        read_vectors [OF assms(1,2)] x_def CMutableTransaction_init_def)
  also have "\<dots> = Inr (CTransaction_norm env no_witness tx, s)"
    using read_tail_write [OF assms(2), of x s env] assms(3)
    by (cases tx) (auto simp: x_def CMutableTransaction_init_def CTransaction_norm_def)
  finally show ?thesis .
qed

lemma CTransaction_read_witness:
  assumes "env_ok env" "CTransaction_ok False tx" "\<not> CTxWitness_IsNull (tx_wit tx)"
  shows "CTransaction_Unserialize env False
      (Serialize_int32 (tx_nVersion tx) @ ser_writedata32 (tx_nTime tx) @ Serialize_vector CTxIn_Serialize [] @
       ser_writedata8 1 @ Serialize_vector CTxIn_Serialize (tx_vin tx) @
       Serialize_vector (CTxOut_Serialize env) (tx_vout tx) @
       concat (map CTxInWitness_Serialize (resize_witness (length (tx_vin tx)) (tx_wit tx))) @ write_tail tx @ s) =
    Inr (CTransaction_norm env False tx, s)"
proof -
  define x where "x = CMutableTransaction_init\<lparr>tx_nVersion := tx_nVersion tx, tx_nTime := tx_nTime tx,
      tx_vin := tx_vin tx, tx_vout := map (CTxOut_norm env) (tx_vout tx),
      tx_wit := resize_witness (length (tx_vin tx)) (tx_wit tx)\<rparr>"
  have ok: "- (2 ^ 31) \<le> tx_nVersion tx" "tx_nVersion tx < 2 ^ 31" "list_all stack_ok (tx_wit tx)"
      "length (tx_wit tx) \<le> length (tx_vin tx)"
    using assms(2) by (simp_all add: CTransaction_ok_def)
  have "CTransaction_Unserialize env False
      (Serialize_int32 (tx_nVersion tx) @ ser_writedata32 (tx_nTime tx) @ Serialize_vector CTxIn_Serialize [] @
       ser_writedata8 1 @ Serialize_vector CTxIn_Serialize (tx_vin tx) @
       Serialize_vector (CTxOut_Serialize env) (tx_vout tx) @
       concat (map CTxInWitness_Serialize (resize_witness (length (tx_vin tx)) (tx_wit tx))) @ write_tail tx @ s) =
    read_tail (x, write_tail tx @ s)"
    using ok by (simp add: CTransaction_Unserialize_def Let_def read_field_Inr [of Unserialize_int32]
        read_field_Inr [of ser_readdata32] read_field_Inr [of "CTxWitness_Unserialize env n" for n]
        read_witness_write [OF assms(1) ok(3,4) assms(3)]
        read_vectors [OF assms(1,2)] x_def CMutableTransaction_init_def)
  also have "\<dots> = Inr (CTransaction_norm env False tx, s)"
    using read_tail_write [OF assms(2), of x s env] assms(3)
    by (cases tx) (auto simp: x_def CMutableTransaction_init_def CTransaction_norm_def)
  finally show ?thesis .
qed

lemma write_tail_norm: "write_tail (CTransaction_norm env no_witness tx) = write_tail tx"
  by (simp add: write_tail_def CTransaction_norm_def write_if_def)

lemma vouts_norm:
  "Serialize_vector (CTxOut_Serialize env) (map (CTxOut_norm env) outs) = Serialize_vector (CTxOut_Serialize env) outs"
  by (simp add: Serialize_vector_def CTxOut_Serialize_norm comp_def)

lemma resize_again [simp]: "resize_witness n (resize_witness n wit) = resize_witness n wit"
  by (simp add: resize_witness_def)

lemma CTransaction_norm_fields:
  "tx_nVersion (CTransaction_norm env no_witness tx) = tx_nVersion tx"
  "tx_nTime (CTransaction_norm env no_witness tx) = tx_nTime tx"
  "tx_vin (CTransaction_norm env no_witness tx) = tx_vin tx"
  "tx_vout (CTransaction_norm env no_witness tx) = map (CTxOut_norm env) (tx_vout tx)"
  "tx_wit (CTransaction_norm env no_witness tx) =
     (if no_witness \<or> CTxWitness_IsNull (tx_wit tx) then [] else resize_witness (length (tx_vin tx)) (tx_wit tx))"
  by (simp_all add: CTransaction_norm_def)

lemma CTransaction_Serialize_norm:
  assumes "length (tx_wit tx) \<le> length (tx_vin tx)" "no_witness \<longrightarrow> nw"
  shows "CTransaction_Serialize env nw (CTransaction_norm env no_witness tx) = CTransaction_Serialize env nw tx"
proof -
  have "CTxWitness_IsNull []" by (simp add: CTxWitness_IsNull_def)
  then show ?thesis using assms
    by (cases nw; cases "CTxWitness_IsNull (tx_wit tx)")
      (simp_all add: CTransaction_Serialize_def CTransaction_norm_fields vouts_norm write_tail_norm resize_witness_null)
qed

text \<open>
  C33. A transaction is read back from the bytes that are written for it. The reader returns the transaction in a
  canonical form (no fields that its version lacks, a witness stack for every input or no witness, the range proofs
  that are written), which is written with the same bytes and has the same hash; the rest of the stream is left. This
  needs the byte forms of the curve library to be decodable, amounts that are not negative, and inputs where outputs and
  the witness format could be confused. The hash of a transaction does not depend on its witness.
\<close>

theorem transaction_roundtrip:
  assumes "env_ok env" "CTransaction_ok no_witness tx"
  shows "\<exists>b. CTransaction_Serialize env no_witness tx = Inr b \<and>
      (\<forall>s. CTransaction_Unserialize env no_witness (b @ s) = Inr (CTransaction_norm env no_witness tx, s)) \<and>
      CTransaction_Serialize env no_witness (CTransaction_norm env no_witness tx) = Inr b \<and>
      CTransaction_GetHash Hash env (CTransaction_norm env no_witness tx) = CTransaction_GetHash Hash env tx \<and>
      CTransaction_GetHash Hash env (tx\<lparr>tx_wit := []\<rparr>) = CTransaction_GetHash Hash env tx"
proof -
  let ?n = "CTransaction_norm env no_witness tx"
  obtain b where b: "CTransaction_Serialize env no_witness tx = Inr b"
    using CTransaction_Serialize_bytes [OF assms(2)] by blast
  note bytes = b [unfolded CTransaction_Serialize_bytes [OF assms(2)]]
  have "CTransaction_Unserialize env no_witness (b @ s) = Inr (?n, s)" for s
  proof (cases "no_witness \<or> CTxWitness_IsNull (tx_wit tx)")
    case True
    then show ?thesis using CTransaction_read_plain [OF assms True] bytes by auto
  next
    case False
    then show ?thesis using CTransaction_read_witness [OF assms(1), of tx] assms(2) bytes by auto
  qed
  moreover have wit: "length (tx_wit tx) \<le> length (tx_vin tx)" using assms(2) by (simp add: CTransaction_ok_def)
  moreover have "CTransaction_Serialize env True (tx\<lparr>tx_wit := []\<rparr>) = CTransaction_Serialize env True tx"
    using wit by (simp add: CTransaction_Serialize_def write_tail_def)
  moreover note norm = CTransaction_Serialize_norm [OF wit]
  ultimately show ?thesis using b norm [of no_witness no_witness env] norm [of no_witness True env]
    by (simp add: CTransaction_GetHash_def)
qed

text \<open>A curve of one-byte elements, and a transaction with a confidential output and a witness.\<close>

definition sample_env :: "(u8, u8) SerEnv" where
  "sample_env =
     \<lparr>g1_Serialize = \<lambda>a. [a], g1_FromByteVector = \<lambda>b. (case b of [a] \<Rightarrow> Some a | _ \<Rightarrow> None), g1_default = 0,
      bn_write_bin = \<lambda>a. [a], bn_read_bin = (\<lambda>b. case b of [a] \<Rightarrow> a | _ \<Rightarrow> 0), bn_default = 0,
      sizeof_CTxIn = 104, sizeof_CTxOut = 224, sizeof_vector = 24\<rparr>"

definition sample_txout :: "(u8, u8) CTxOut" where
  "sample_txout =
     \<lparr>to_nValue = 5, to_scriptPubKey = [0x6a], to_ephemeralKey = [1], to_outputKey = [2], to_spendingKey = [3],
      to_vData = [], to_tokenId = \<lparr>tk_token = 7, tk_subid = - 1\<rparr>,
      to_bp = Some (BulletproofsRangeproof_empty sample_env\<lparr>bp_V := [9, 8]\<rparr>)\<rparr>"

definition sample_tx :: "(u8, u8) CTransaction" where
  "sample_tx =
     \<lparr>tx_nVersion = 0x32, tx_nTime = 1000,
      tx_vin = [\<lparr>ti_prevout = \<lparr>op_hash = 4, op_n = 1\<rparr>, ti_scriptSig = [0x51], ti_nSequence = - 1\<rparr>],
      tx_vout = [sample_txout], tx_wit = [[[1, 2], []]], tx_nLockTime = 0, tx_strDZeel = [0x61],
      tx_vchTxSig = [1], tx_vchBalanceSig = [2]\<rparr>"

theorem transaction_roundtrip_witness:
  "\<exists>b. CTransaction_Serialize sample_env False sample_tx = Inr b \<and>
     (\<forall>s. CTransaction_Unserialize sample_env False (b @ s) = Inr (sample_tx, s))"
proof -
  have "env_ok sample_env" by (simp add: env_ok_def sample_env_def)
  moreover have "CTransaction_ok False sample_tx"
    by (simp add: CTransaction_ok_def sample_tx_def sample_txout_def CTxIn_ok_def CTxOut_ok_def stack_ok_def proof_ok_def
        BulletproofsRangeproof_empty_def)
  moreover have "CTransaction_norm sample_env False sample_tx = sample_tx"
    by (simp add: CTransaction_norm_def sample_tx_def sample_txout_def CTxOut_norm_def CTxWitness_IsNull_def resize_witness_def
        CTxOut_extended_def CTxOut_HasRangeProof_def CTxOut_GetBulletproof_def)
  ultimately show ?thesis using transaction_roundtrip [of sample_env False sample_tx "\<lambda>b. 0"] by auto
qed

end
