(* ===== verification/Compressor.thy ===== *)
theory Compressor
  imports Transaction Script
begin

text \<open>
  The compact form in which unspent outputs are stored (\<^verbatim>\<open>compressor.h\<close>, \<^verbatim>\<open>compressor.cpp\<close>): amounts without their
  trailing zeros, common scripts by number, and the markers of outputs with confidential data. Point decompression
  (libsecp256k1) is a parameter.
\<close>

section \<open>Amounts\<close>

abbreviation (input) COIN :: int where "COIN \<equiv> 100000000"
abbreviation (input) MAX_MONEY :: int where "MAX_MONEY \<equiv> 10000000000 * COIN"

definition MoneyRange :: "CAmount \<Rightarrow> bool" where
  "MoneyRange nValue = (nValue \<ge> 0 \<and> nValue \<le> MAX_MONEY)"

function compress_loop :: "u64 \<Rightarrow> nat \<Rightarrow> u64 \<times> nat" where
  "compress_loop n e = (if n mod 10 = 0 \<and> e < 9 then compress_loop (n div 10) (e + 1) else (n, e))"
  by pat_completeness auto

termination
  by (relation "measure (\<lambda>(n, e). 9 - e)") auto

declare compress_loop.simps [simp del]

definition CompressAmount :: "u64 \<Rightarrow> u64 result" where
  "CompressAmount n =
     (if n = 0 then Inr 0
      else
        let (n, e) = compress_loop n 0
        in if e < 9 then
             let d = n mod 10
             in if \<not> (d \<ge> 1 \<and> d \<le> 9) then Inl AssertFailed
                else Inr (1 + (n div 10 * 9 + d - 1) * 10 + of_nat e)
           else Inr (1 + (n - 1) * 10 + 9))"

primrec decompress_loop :: "nat \<Rightarrow> u64 \<Rightarrow> u64" where
  "decompress_loop 0 n = n"
| "decompress_loop (Suc e) n = decompress_loop e (n * 10)"

definition DecompressAmount :: "u64 \<Rightarrow> u64" where
  "DecompressAmount x =
     (if x = 0 then 0
      else
        let x = x - 1;
            e = unat (x mod 10);
            x = x div 10
        in decompress_loop e (if e < 9 then x div 9 * 10 + (x mod 9 + 1) else x + 1))"

section \<open>Scripts\<close>

text \<open>The key functions of libsecp256k1: \<^verbatim>\<open>CPubKey::IsFullyValid\<close> and \<^verbatim>\<open>CPubKey::Decompress\<close>.\<close>

record ('g, 's) CompEnv = "('g, 's) SerEnv" +
  pk_IsFullyValid :: "bytes \<Rightarrow> bool"
  pk_Decompress :: "bytes \<Rightarrow> bytes option"

abbreviation (input) nSpecialScripts :: u32 where "nSpecialScripts \<equiv> 6"

definition IsToKeyID :: "bytes \<Rightarrow> bytes option" where
  "IsToKeyID script =
     (if length script = 25 \<and> script ! 0 = OP_DUP \<and> script ! 1 = OP_HASH160 \<and> script ! 2 = 20 \<and>
         script ! 23 = OP_EQUALVERIFY \<and> script ! 24 = OP_CHECKSIG
      then Some (take 20 (drop 3 script)) else None)"

definition IsToScriptID :: "bytes \<Rightarrow> bytes option" where
  "IsToScriptID script =
     (if length script = 23 \<and> script ! 0 = OP_HASH160 \<and> script ! 1 = 20 \<and> script ! 22 = OP_EQUAL
      then Some (take 20 (drop 2 script)) else None)"

definition IsToPubKey :: "('g, 's) CompEnv \<Rightarrow> bytes \<Rightarrow> bytes option" where
  "IsToPubKey env script =
     (if length script = 35 \<and> script ! 0 = 33 \<and> script ! 34 = OP_CHECKSIG \<and> (script ! 1 = 2 \<or> script ! 1 = 3)
      then Some (take 33 (drop 1 script))
      else if length script = 67 \<and> script ! 0 = 65 \<and> script ! 66 = OP_CHECKSIG \<and> script ! 1 = 4
      then let pubkey = take 65 (drop 1 script) in if pk_IsFullyValid env pubkey then Some pubkey else None
      else None)"

definition Compress :: "('g, 's) CompEnv \<Rightarrow> bytes \<Rightarrow> bytes option" where
  "Compress env script =
     (case IsToKeyID script of
        Some keyID \<Rightarrow> Some (0 # keyID)
      | None \<Rightarrow>
          (case IsToScriptID script of
             Some scriptID \<Rightarrow> Some (1 # scriptID)
           | None \<Rightarrow>
               (case IsToPubKey env script of
                  Some pubkey \<Rightarrow>
                    if pubkey ! 0 = 2 \<or> pubkey ! 0 = 3 then Some (pubkey ! 0 # take 32 (drop 1 pubkey))
                    else if pubkey ! 0 = 4 then Some ((4 OR (pubkey ! 64 AND 1)) # take 32 (drop 1 pubkey))
                    else None
                | None \<Rightarrow> None)))"

definition GetSpecialSize :: "u32 \<Rightarrow> nat" where
  "GetSpecialSize nSize =
     (if nSize = 0 \<or> nSize = 1 then 20
      else if nSize = 2 \<or> nSize = 3 \<or> nSize = 4 \<or> nSize = 5 then 32 else 0)"

text \<open>\<open>None\<close>: the function returns false and the script is not set.\<close>

definition Decompress :: "('g, 's) CompEnv \<Rightarrow> u32 \<Rightarrow> bytes \<Rightarrow> bytes option result" where
  "Decompress env nSize inb =
     (if nSize = 0 then
        Inr (Some ([OP_DUP, OP_HASH160, 20] @ take 20 inb @ [OP_EQUALVERIFY, OP_CHECKSIG]))
      else if nSize = 1 then
        Inr (Some ([OP_HASH160, 20] @ take 20 inb @ [OP_EQUAL]))
      else if nSize = 2 \<or> nSize = 3 then
        Inr (Some ([33, ucast nSize] @ take 32 inb @ [OP_CHECKSIG]))
      else if nSize = 4 \<or> nSize = 5 then
        (case pk_Decompress env (ucast (nSize - 2) # take 32 inb) of
           None \<Rightarrow> Inr None
         | Some pubkey \<Rightarrow>
             if length pubkey \<noteq> 65 then Inl AssertFailed else Inr (Some ([65] @ pubkey @ [OP_CHECKSIG])))
      else Inr None)"

definition CScriptCompressor_Serialize :: "('g, 's) CompEnv \<Rightarrow> bytes \<Rightarrow> bytes" where
  "CScriptCompressor_Serialize env script =
     (case Compress env script of
        Some compr \<Rightarrow> compr
      | None \<Rightarrow> WriteVarInt (of_nat (length script) + nSpecialScripts) @ script)"

text \<open>\<^verbatim>\<open>ignore\<close> takes an \<^verbatim>\<open>int\<close>, so that a size of 2 GiB or more is negative and throws.\<close>

definition CScriptCompressor_Unserialize :: "('g, 's) CompEnv \<Rightarrow> bytes reader" where
  "CScriptCompressor_Unserialize env s =
     bindR (ReadVarInt s) (\<lambda>(nSize, s).
       if nSize < nSpecialScripts then
         bindR (stream_read (GetSpecialSize nSize) s) (\<lambda>(vch, s).
         bindR (Decompress env nSize vch) (\<lambda>r.
           Inr (case r of Some script \<Rightarrow> script | None \<Rightarrow> [], s)))
       else
         let nSize = nSize - nSpecialScripts
         in if nSize > of_nat MAX_SCRIPT_SIZE then
              if sint nSize < 0 then Inl StdException
              else bindR (stream_ignore (unat nSize) s) (\<lambda>s. Inr ([OP_RETURN], s))
            else stream_read (unat nSize) s)"

section \<open>Outputs\<close>

abbreviation (input) COMPRESSED_MARKER :: u64 where "COMPRESSED_MARKER \<equiv> 17000000000000000"

definition TokenId_Serialize :: "TokenId \<Rightarrow> bytes" where
  "TokenId_Serialize t = Serialize_uint256 (tk_token t) @ ser_writedata64 (tk_subid t)"

definition TokenId_Unserialize :: "TokenId reader" where
  "TokenId_Unserialize s =
     bindR (read_field Unserialize_uint256 tk_token_update (TokenId_null, s)) (read_field ser_readdata64 tk_subid_update)"

definition CTxOutCompressor_Serialize :: "('g, 's) CompEnv \<Rightarrow> ('g, 's) CTxOut \<Rightarrow> bytes result" where
  "CTxOutCompressor_Serialize env txout =
     bindR (CompressAmount (word_of_int (to_nValue txout))) (\<lambda>nVal.
       let keys =
         Serialize_bytes (to_ephemeralKey txout) @ Serialize_bytes (to_outputKey txout) @
         Serialize_bytes (to_spendingKey txout) @
         BulletproofsRangeproof_Serialize env (CTxOut_GetBulletproof env txout)
       in Inr ((if length (to_vData txout) > 0 \<or> tk_token (to_tokenId txout) \<noteq> 0 then
                  WriteVarInt (COMPRESSED_MARKER + 1) @ WriteVarInt nVal @ keys @
                  Serialize_bytes (to_vData txout) @ TokenId_Serialize (to_tokenId txout)
                else if CTxOut_IsBLSCT txout then
                  WriteVarInt COMPRESSED_MARKER @ WriteVarInt nVal @ keys
                else WriteVarInt nVal) @
               CScriptCompressor_Serialize env (to_scriptPubKey txout)))"

text \<open>The amount, stored in the object as a signed number.\<close>

definition read_amount :: "int reader" where
  "read_amount s = bindR (ReadVarInt s) (\<lambda>(nVal, s). Inr (sint (DecompressAmount nVal), s))"

definition read_compressed_keys ::
  "('g, 's) CompEnv \<Rightarrow> ('g, 's) CTxOut \<times> bytes \<Rightarrow> (('g, 's) CTxOut \<times> bytes) result" where
  "read_compressed_keys env x =
     bindR (read_field read_amount to_nValue_update x) (\<lambda>x.
     bindR (read_field Unserialize_bytes to_ephemeralKey_update x) (\<lambda>x.
     bindR (read_field Unserialize_bytes to_outputKey_update x) (\<lambda>x.
     bindR (read_field Unserialize_bytes to_spendingKey_update x)
           (read_field (read_proof env) to_bp_update))))"

definition CTxOutCompressor_Unserialize :: "('g, 's) CompEnv \<Rightarrow> ('g, 's) CTxOut reader" where
  "CTxOutCompressor_Unserialize env s =
     bindR (ReadVarInt s) (\<lambda>(nVal, s).
       bindR (if nVal = COMPRESSED_MARKER then read_compressed_keys env (CTxOut_null, s)
              else if nVal = COMPRESSED_MARKER + 1 then
                bindR (read_compressed_keys env (CTxOut_null, s)) (\<lambda>x.
                bindR (read_field Unserialize_bytes to_vData_update x)
                      (read_field TokenId_Unserialize to_tokenId_update))
              else Inr (CTxOut_null\<lparr>to_nValue := sint (DecompressAmount nVal)\<rparr>, s))
         (read_field (CScriptCompressor_Unserialize env) to_scriptPubKey_update))"

section \<open>Round trips\<close>

subsection \<open>Amounts\<close>

lemma compress_loop_spec:
  "compress_loop n e = (n', e') \<Longrightarrow> e \<le> 9 \<Longrightarrow>
   e \<le> e' \<and> e' \<le> 9 \<and> unat n = unat n' * 10 ^ (e' - e) \<and> (e' < 9 \<longrightarrow> unat n' mod 10 \<noteq> 0)"
proof (induction n e rule: compress_loop.induct)
  case (1 n e)
  have ten: "unat (n mod 10) = unat n mod 10" "unat (n div 10) = unat n div 10" by (simp_all add: unat_mod unat_div)
  show ?case
  proof (cases "n mod 10 = 0 \<and> e < 9")
    case True
    then have "compress_loop (n div 10) (e + 1) = (n', e')" using "1.prems"(1) by (simp add: compress_loop.simps [of n])
    then have ih: "e + 1 \<le> e' \<and> e' \<le> 9 \<and> unat (n div 10) = unat n' * 10 ^ (e' - (e + 1)) \<and> (e' < 9 \<longrightarrow> unat n' mod 10 \<noteq> 0)"
      using "1.IH" True by simp
    moreover have "unat n mod 10 = 0" using True ten(1) by simp
    then have "unat n = unat (n div 10) * 10" using ten(2) div_mult_mod_eq [of "unat n" 10] by simp
    moreover have "e' - e = Suc (e' - (e + 1))" using ih by linarith
    ultimately show ?thesis by simp
  next
    case False
    then have "compress_loop n e = (n, e)" by (subst compress_loop.simps) (simp only: if_False)
    then have "n' = n" "e' = e" using "1.prems"(1) by simp_all
    moreover have "unat n mod 10 \<noteq> 0" if "e < 9"
      using False that ten(1) by (metis unat_eq_zero)
    ultimately show ?thesis using "1.prems"(2) by simp
  qed
qed

lemma decompress_loop_unat: "unat n * 10 ^ e < 2 ^ 64 \<Longrightarrow> unat (decompress_loop e n) = unat n * 10 ^ e"
proof (induction e arbitrary: n)
  case (Suc e)
  have "unat n * 10 \<le> unat n * 10 ^ Suc e" by simp
  then have "unat n * 10 < 2 ^ 64" using Suc.prems by (rule le_less_trans)
  then have "unat (n * 10) = unat n * 10" by (simp add: unat_word_ariths)
  then show ?case using Suc by (simp add: mult.assoc)
qed simp

lemma decompress_loop_numeral:
  "decompress_loop (numeral k) n = decompress_loop (pred_numeral k) (n * 10)"
  by (simp add: numeral_eq_Suc)

lemma unat_Decompress:
  assumes "x \<noteq> 0" "unat x - 1 = 10 * y + e" "e < 10"
    and m: "m = (if e < 9 then y div 9 * 10 + (y mod 9 + 1) else y + 1)" "m * 10 ^ e < 2 ^ 64"
  shows "unat (DecompressAmount x) = m * 10 ^ e"
proof -
  have x1: "unat (x - 1) = 10 * y + e" using assms(1,2) by (simp add: unat_minus_one)
  have ey: "unat ((x - 1) mod 10) = e" "unat ((x - 1) div 10) = y"
    using assms(3) by (simp_all add: unat_mod unat_div x1)
  have "m \<le> m * 10 ^ e" by simp
  then have "m < 2 ^ 64" using m(2) by (rule le_less_trans)
  let ?y = "(x - 1) div 10"
  let ?n = "if e < 9 then ?y div 9 * 10 + (?y mod 9 + 1) else ?y + 1"
  have "unat (?y div 9) = unat ?y div 9" "unat (?y mod 9) = unat ?y mod 9" by (simp_all add: unat_div unat_mod)
  then have "unat (?y div 9) = y div 9" "unat (?y mod 9) = y mod 9" unfolding ey(2) by simp_all
  then have "unat ?n = m" using m(1) \<open>m < 2 ^ 64\<close> ey(2) by (cases "e < 9") (simp_all add: unat_word_ariths)
  moreover have "DecompressAmount x = decompress_loop e ?n"
    using assms(1) by (simp add: DecompressAmount_def Let_def ey(1))
  ultimately show ?thesis using decompress_loop_unat [of ?n e] m(2) by simp
qed

lemma amount_roundtrip:
  assumes "unat n \<le> 10 ^ 18"
  obtains x where "CompressAmount n = Inr x" "DecompressAmount x = n"
proof (cases "n = 0")
  case True
  then show ?thesis using that [of 0] by (simp add: CompressAmount_def DecompressAmount_def)
next
  case False
  obtain k e where ke: "compress_loop n 0 = (k, e)" by force
  then have spec: "e \<le> 9" "unat n = unat k * 10 ^ e" "e < 9 \<longrightarrow> unat k mod 10 \<noteq> 0"
    using compress_loop_spec [OF ke] by simp_all
  have k0: "unat k \<noteq> 0" using spec(2) False by (metis mult_0 unat_eq_zero)
  have "unat k \<le> unat k * 10 ^ e" by simp
  then have k18: "unat k \<le> 10 ^ 18" using assms unfolding spec(2) by (rule order.trans)
  show ?thesis
  proof (cases "e < 9")
    case True
    define q d where "q = unat k div 10" and "d = unat k mod 10"
    have kqd: "unat k = 10 * q + d" "1 \<le> d" "d \<le> 9" using True spec(3) by (simp_all add: q_def d_def)
    define z where "z = k div 10 * 9 + k mod 10 - 1"
    define x where "x = 1 + z * 10 + (of_nat e :: u64)"
    have qd: "unat (k div 10) = q" "unat (k mod 10) = d" by (simp_all add: q_def d_def unat_div unat_mod)
    have "unat (k div 10 * 9 + k mod 10) = 9 * q + d"
      using qd kqd k18 by (simp add: unat_word_ariths)
    moreover have "k div 10 * 9 + k mod 10 \<noteq> 0" using calculation kqd(2) by auto
    ultimately have "unat z = 9 * q + d - 1" by (simp add: z_def unat_minus_one)
    then have ux: "unat x = 1 + (9 * q + d - 1) * 10 + e"
      using kqd k18 True by (simp add: x_def unat_word_ariths unat_of_nat)
    have "1 \<le> k mod 10 \<and> k mod 10 \<le> 9" using kqd(2,3) qd(2) by (simp add: word_le_nat_alt)
    then have "CompressAmount n = Inr x" using False ke True by (simp add: CompressAmount_def Let_def x_def z_def)
    moreover have "unat (DecompressAmount x) = unat k * 10 ^ e"
    proof (rule unat_Decompress)
      show "x \<noteq> 0" using ux by auto
      show "unat x - 1 = 10 * (9 * q + d - 1) + e" using ux by simp
      have "9 * q + d - 1 = 9 * q + (d - 1)" "d - 1 < 9" using kqd by simp_all
      then have "(9 * q + d - 1) div 9 = q" "(9 * q + d - 1) mod 9 = d - 1" by simp_all
      then show "unat k = (if e < 9 then (9 * q + d - 1) div 9 * 10 + ((9 * q + d - 1) mod 9 + 1) else 9 * q + d - 1 + 1)"
        using True kqd by simp
      show "unat k * 10 ^ e < 2 ^ 64" using spec(2) assms by simp
    qed (use True in simp)
    then have "DecompressAmount x = n" using spec(2) by (intro unsigned_word_eqI [where 'a = nat]) simp
    ultimately show ?thesis by (rule that)
  next
    case nine: False
    then have e: "e = 9" using spec(1) by simp
    define x where "x = 1 + (k - 1) * 10 + (9 :: u64)"
    have "k \<noteq> 0" using k0 by auto
    then have "unat (k - 1) = unat k - 1" by (simp add: unat_minus_one)
    then have ux: "unat x = 1 + (unat k - 1) * 10 + 9" using k18 k0 by (simp add: x_def unat_word_ariths)
    have "CompressAmount n = Inr x" using False ke e by (simp add: CompressAmount_def x_def)
    moreover have "unat (DecompressAmount x) = unat k * 10 ^ e"
    proof (rule unat_Decompress)
      show "x \<noteq> 0" using ux by auto
      show "unat x - 1 = 10 * (unat k - 1) + e" using ux e by simp
      show "unat k = (if e < 9 then (unat k - 1) div 9 * 10 + ((unat k - 1) mod 9 + 1) else unat k - 1 + 1)"
        using e k0 by simp
      show "unat k * 10 ^ e < 2 ^ 64" using spec(2) assms by simp
    qed (use e in simp)
    then have "DecompressAmount x = n" using spec(2) by (intro unsigned_word_eqI [where 'a = nat]) simp
    ultimately show ?thesis by (rule that)
  qed
qed

text \<open>The first marker is not the form of any amount; the second is the form of exactly one.\<close>

lemma amount_marker:
  assumes "unat n \<le> 10 ^ 18" "CompressAmount n = Inr x"
  shows "x \<noteq> COMPRESSED_MARKER" "x = COMPRESSED_MARKER + 1 \<longleftrightarrow> n = 1888888888888889"
proof -
  have inv: "DecompressAmount x = n" using amount_roundtrip [OF assms(1)] assms(2) by (metis sum.inject(2))
  have "DecompressAmount COMPRESSED_MARKER = 3406399148851724288"
    by (simp add: DecompressAmount_def Let_def decompress_loop_numeral)
  then show "x \<noteq> COMPRESSED_MARKER" using inv assms(1) by auto
  have "DecompressAmount (COMPRESSED_MARKER + 1) = 1888888888888889" by (simp add: DecompressAmount_def Let_def)
  moreover have "CompressAmount 1888888888888889 = Inr (COMPRESSED_MARKER + 1)"
    by (simp add: CompressAmount_def compress_loop.simps [of 1888888888888889])
  ultimately show "x = COMPRESSED_MARKER + 1 \<longleftrightarrow> n = 1888888888888889" using inv assms(2) by auto
qed

subsection \<open>Scripts\<close>

lemma cut: "take a s @ take k (drop a s) @ drop (k + a) s = s"
  by (simp only: drop_drop [symmetric] append_take_drop_id)

lemma nth_ends:
  "3 \<le> length s \<Longrightarrow> take 3 s = [s ! 0, s ! 1, s ! 2]" "2 \<le> length s \<Longrightarrow> take 2 s = [s ! 0, s ! 1]"
  "1 \<le> length s \<Longrightarrow> take 1 s = [s ! 0]"
  "length s = Suc n \<Longrightarrow> drop n s = [s ! n]" "length s = Suc (Suc n) \<Longrightarrow> drop n s = [s ! n, s ! Suc n]"
  by (rule nth_equalityI, auto simp: less_Suc_eq numeral_eq_Suc)+

lemma key_script:
  assumes "IsToKeyID script = Some h"
  shows "script = [OP_DUP, OP_HASH160, 20] @ h @ [OP_EQUALVERIFY, OP_CHECKSIG]" "length h = 20"
proof -
  have a: "length script = 25" "script ! 0 = OP_DUP" "script ! 1 = OP_HASH160" "script ! 2 = 20"
      "script ! 23 = OP_EQUALVERIFY" "script ! 24 = OP_CHECKSIG" "h = take 20 (drop 3 script)"
    using assms by (auto simp: IsToKeyID_def split: if_splits)
  then show "script = [OP_DUP, OP_HASH160, 20] @ h @ [OP_EQUALVERIFY, OP_CHECKSIG]" "length h = 20"
    using cut [of 3 script 20] nth_ends(1) [of script] nth_ends(5) [of script 23] by simp_all
qed

lemma script_script:
  assumes "IsToScriptID script = Some h"
  shows "script = [OP_HASH160, 20] @ h @ [OP_EQUAL]" "length h = 20"
proof -
  have a: "length script = 23" "script ! 0 = OP_HASH160" "script ! 1 = 20" "script ! 22 = OP_EQUAL" "h = take 20 (drop 2 script)"
    using assms by (auto simp: IsToScriptID_def split: if_splits)
  then show "script = [OP_HASH160, 20] @ h @ [OP_EQUAL]" "length h = 20"
    using cut [of 2 script 20] nth_ends(2) [of script] nth_ends(4) [of script 22] by simp_all
qed

lemma pubkey_script:
  assumes "IsToPubKey env script = Some pk"
  shows "(script = [33] @ pk @ [OP_CHECKSIG] \<and> length pk = 33 \<and> (pk ! 0 = 2 \<or> pk ! 0 = 3)) \<or>
    (script = [65] @ pk @ [OP_CHECKSIG] \<and> length pk = 65 \<and> pk ! 0 = 4 \<and> pk_IsFullyValid env pk)"
proof (cases "length script = 35")
  case True
  then have "script ! 0 = 33" "script ! 34 = OP_CHECKSIG" "script ! 1 = 2 \<or> script ! 1 = 3" "pk = take 33 (drop 1 script)"
    using assms by (auto simp: IsToPubKey_def split: if_splits)
  then show ?thesis using True cut [of 1 script 33] nth_ends(3) [of script] nth_ends(4) [of script 34] by simp
next
  case False
  then have a: "length script = 67" "script ! 0 = 65" "script ! 66 = OP_CHECKSIG" "script ! 1 = 4" "pk = take 65 (drop 1 script)"
      "pk_IsFullyValid env pk"
    using assms by (auto simp: IsToPubKey_def Let_def split: if_splits)
  then show ?thesis using cut [of 1 script 65] nth_ends(3) [of script] nth_ends(4) [of script 66] by simp
qed

text \<open>
  What libsecp256k1 promises: a valid uncompressed key is computed back from its first coordinate and the parity of
  the second.
\<close>

definition keys_ok :: "('g, 's) CompEnv \<Rightarrow> bool" where
  "keys_ok env =
     (\<forall>pk. length pk = 65 \<and> pk ! 0 = 4 \<and> pk_IsFullyValid env pk \<longrightarrow>
        pk_Decompress env ((2 + (pk ! 64 AND 1)) # take 32 (drop 1 pk)) = Some pk)"

lemma ReadVarInt_small:
  assumes "c \<le> 0x7F"
  shows "ReadVarInt (c # s) = Inr (ucast c, s)"
proof -
  have low: "c AND 0x7F = c" using assms by (rule small_bits)
  then have "c AND 0x80 = (c AND 0x7F) AND 0x80" by simp
  also have "\<dots> = 0" by (simp only: and.assoc) simp
  finally show ?thesis using low by (simp add: ReadVarInt_def)
qed

lemma parity_cases: "b AND 1 = 0 \<or> b AND 1 = (1 :: u8)"
  by (simp add: and_one_eq mod2_eq_if)

lemma special_roundtrip:
  assumes "keys_ok env" "Compress env script = Some compr"
  shows "CScriptCompressor_Unserialize env (compr @ s) = Inr (script, s)"
proof -
  consider (key) h where "IsToKeyID script = Some h" "compr = 0 # h"
    | (script) h where "IsToScriptID script = Some h" "compr = 1 # h"
    | (pubkey) pk where "IsToPubKey env script = Some pk"
        "compr = (if pk ! 0 = 2 \<or> pk ! 0 = 3 then pk ! 0 else 4 OR (pk ! 64 AND 1)) # take 32 (drop 1 pk)"
    using assms(2) by (auto simp: Compress_def split: option.splits if_splits)
  then show ?thesis
  proof cases
    case key
    then show ?thesis using key_script [OF key(1)]
      by (simp add: CScriptCompressor_Unserialize_def ReadVarInt_small GetSpecialSize_def Decompress_def)
  next
    case script
    then show ?thesis using script_script [OF script(1)]
      by (simp add: CScriptCompressor_Unserialize_def ReadVarInt_small GetSpecialSize_def Decompress_def)
  next
    case pubkey
    obtain c r where pk: "pk = c # r" using pubkey_script [OF pubkey(1)] by (cases pk) auto
    from pubkey_script [OF pubkey(1)] show ?thesis
    proof (elim disjE conjE)
      assume a: "script = [33] @ pk @ [OP_CHECKSIG]" "length pk = 33" "pk ! 0 = 2"
      then show ?thesis using pubkey(2) pk
        by (simp add: CScriptCompressor_Unserialize_def ReadVarInt_small GetSpecialSize_def Decompress_def)
    next
      assume a: "script = [33] @ pk @ [OP_CHECKSIG]" "length pk = 33" "pk ! 0 = 3"
      then show ?thesis using pubkey(2) pk
        by (simp add: CScriptCompressor_Unserialize_def ReadVarInt_small GetSpecialSize_def Decompress_def)
    next
      assume a: "script = [65] @ pk @ [OP_CHECKSIG]" "length pk = 65" "pk ! 0 = 4" "pk_IsFullyValid env pk"
      then have "pk_Decompress env ((2 + (pk ! 64 AND 1)) # take 32 (drop 1 pk)) = Some pk"
        using assms(1) by (simp add: keys_ok_def)
      then show ?thesis using a pubkey(2) parity_cases [of "pk ! 64"]
        by (auto simp: CScriptCompressor_Unserialize_def ReadVarInt_small GetSpecialSize_def Decompress_def)
    qed
  qed
qed

lemma script_roundtrip:
  assumes "keys_ok env" "length script < 2 ^ 31 - 6"
  shows "CScriptCompressor_Unserialize env (CScriptCompressor_Serialize env script @ s) =
    Inr (if length script > MAX_SCRIPT_SIZE then [OP_RETURN] else script, s)"
proof (cases "Compress env script")
  case None
  let ?n = "of_nat (length script) :: u32"
  have n: "unat ?n = length script" using assms(2) by (simp add: unat_of_nat)
  have n6: "unat (?n + 6) = length script + 6" using assms(2) n by (simp add: unat_word_ariths)
  then have "\<not> ?n + 6 < 6" by (simp add: word_less_nat_alt)
  moreover have "of_nat MAX_SCRIPT_SIZE < ?n \<longleftrightarrow> MAX_SCRIPT_SIZE < length script" using n by (simp add: word_less_nat_alt)
  moreover have "uint ?n = int (length script)" using n by (metis uint_nat)
  then have "\<not> sint ?n < 0" using assms(2) by (simp add: sint_uint signed_take_bit_int_eq_self)
  ultimately show ?thesis using None n
    by (simp add: CScriptCompressor_Unserialize_def CScriptCompressor_Serialize_def ReadVarInt_Write Let_def stream_ignore_def)
next
  case (Some compr)
  then have "length script \<le> 67"
    using key_script [of script] script_script [of script] pubkey_script [of env script]
    by (auto simp: Compress_def split: option.splits if_splits)
  then show ?thesis using special_roundtrip [OF assms(1) Some] Some by (simp add: CScriptCompressor_Serialize_def)
qed

subsection \<open>Outputs\<close>

definition CTxOut_data :: "('g, 's) CTxOut \<Rightarrow> bool" where
  "CTxOut_data txout = (length (to_vData txout) > 0 \<or> tk_token (to_tokenId txout) \<noteq> 0)"

text \<open>An output that can be stored: its parts fit a stream, and it is not plain with the amount of a marker.\<close>

definition storable :: "('g, 's) CTxOut \<Rightarrow> bool" where
  "storable txout =
     (CTxOut_ok txout \<and> MoneyRange (to_nValue txout) \<and> length (to_scriptPubKey txout) < 2 ^ 31 - 6 \<and>
      (CTxOut_data txout \<or> CTxOut_IsBLSCT txout \<or> to_nValue txout \<noteq> 1888888888888889))"

text \<open>
  What is read back: an unspendably long script becomes a short one, the token of an output that counts as
  having no data is dropped (with it the sub-id of an output whose token is null), and the range proof of an
  output with keys or data is never null, that of any other output always.
\<close>

definition stored_form :: "('g, 's) CompEnv \<Rightarrow> ('g, 's) CTxOut \<Rightarrow> ('g, 's) CTxOut" where
  "stored_form env txout =
     txout\<lparr>to_scriptPubKey := (if length (to_scriptPubKey txout) > MAX_SCRIPT_SIZE then [OP_RETURN] else to_scriptPubKey txout),
           to_tokenId := (if CTxOut_data txout then to_tokenId txout else TokenId_null),
           to_bp := (if CTxOut_data txout \<or> CTxOut_IsBLSCT txout then Some (CTxOut_GetBulletproof env txout) else None)\<rparr>"

definition kept_output :: "('g, 's) CTxOut \<Rightarrow> bool" where
  "kept_output txout =
     (length (to_scriptPubKey txout) \<le> MAX_SCRIPT_SIZE \<and> (CTxOut_data txout \<or> to_tokenId txout = TokenId_null) \<and>
      (to_bp txout \<noteq> None \<longleftrightarrow> CTxOut_data txout \<or> CTxOut_IsBLSCT txout))"

lemma stored_form_exact: "stored_form env txout = txout \<longleftrightarrow> kept_output txout"
  by (cases txout)
    (auto simp: stored_form_def kept_output_def CTxOut_data_def CTxOut_IsBLSCT_def CTxOut_GetBulletproof_def
      split: if_splits option.splits)

lemma amount_word:
  assumes "MoneyRange v"
  shows "unat (word_of_int v :: u64) \<le> 10 ^ 18" "sint (word_of_int v :: u64) = v"
    "(word_of_int v :: u64) = 1888888888888889 \<longleftrightarrow> v = 1888888888888889"
proof -
  have v: "0 \<le> v" "v \<le> 10 ^ 18" using assms by (simp_all add: MoneyRange_def)
  then have u: "uint (word_of_int v :: u64) = v" by (simp add: uint_word_of_int_eq take_bit_int_eq_self)
  then have "unat (word_of_int v :: u64) = nat v" by (metis nat_uint_eq)
  then show "unat (word_of_int v :: u64) \<le> 10 ^ 18" using v by simp
  show "sint (word_of_int v :: u64) = v" using v by (simp add: sint_sbintrunc' signed_take_bit_int_eq_self)
  show "(word_of_int v :: u64) = 1888888888888889 \<longleftrightarrow> v = 1888888888888889" using u by (auto simp: word_uint_eq_iff)
qed

lemma read_compressed_keys_write:
  assumes "env_ok env" "CTxOut_ok txout" "sint (DecompressAmount nVal) = to_nValue txout"
  shows "read_compressed_keys env (CTxOut_null,
      WriteVarInt nVal @ Serialize_bytes (to_ephemeralKey txout) @ Serialize_bytes (to_outputKey txout) @
      Serialize_bytes (to_spendingKey txout) @ BulletproofsRangeproof_Serialize env (CTxOut_GetBulletproof env txout) @ s) =
    Inr (txout\<lparr>to_scriptPubKey := [], to_vData := [], to_tokenId := TokenId_null,
      to_bp := Some (CTxOut_GetBulletproof env txout)\<rparr>, s)"
  using assms
  by (cases txout)
    (simp add: read_compressed_keys_def CTxOut_ok_def CTxOut_null_def read_field_Inr read_amount_def ReadVarInt_Write
      read_proof_Serialize proof_ok_Get)

lemma TokenId_roundtrip: "TokenId_Unserialize (TokenId_Serialize t @ s) = Inr (t, s)"
  by (simp add: TokenId_Unserialize_def TokenId_Serialize_def read_field_Inr)

text \<open>The stored bytes, by the kind of the output.\<close>

definition stored_keys :: "('g, 's) CompEnv \<Rightarrow> u64 \<Rightarrow> ('g, 's) CTxOut \<Rightarrow> bytes" where
  "stored_keys env nVal txout =
     WriteVarInt nVal @ Serialize_bytes (to_ephemeralKey txout) @ Serialize_bytes (to_outputKey txout) @
     Serialize_bytes (to_spendingKey txout) @ BulletproofsRangeproof_Serialize env (CTxOut_GetBulletproof env txout)"

lemma stored_bytes:
  assumes "CompressAmount (word_of_int (to_nValue txout)) = Inr nVal"
  shows "CTxOutCompressor_Serialize env txout = Inr
    (if CTxOut_data txout then
       WriteVarInt (COMPRESSED_MARKER + 1) @ stored_keys env nVal txout @ Serialize_bytes (to_vData txout) @
       TokenId_Serialize (to_tokenId txout) @ CScriptCompressor_Serialize env (to_scriptPubKey txout)
     else if CTxOut_IsBLSCT txout then
       WriteVarInt COMPRESSED_MARKER @ stored_keys env nVal txout @ CScriptCompressor_Serialize env (to_scriptPubKey txout)
     else WriteVarInt nVal @ CScriptCompressor_Serialize env (to_scriptPubKey txout))"
  using assms by (simp add: CTxOutCompressor_Serialize_def CTxOut_data_def stored_keys_def)

lemma read_script:
  assumes "keys_ok env" "length (to_scriptPubKey txout) < 2 ^ 31 - 6"
  shows "read_field (CScriptCompressor_Unserialize env) to_scriptPubKey_update
      (x, CScriptCompressor_Serialize env (to_scriptPubKey txout) @ s) =
    Inr (x\<lparr>to_scriptPubKey := to_scriptPubKey (stored_form env txout)\<rparr>, s)"
  by (rule read_field_Inr) (simp add: script_roundtrip [OF assms] stored_form_def)

lemma read_stored_data:
  assumes "env_ok env" "keys_ok env" "storable txout" "sint (DecompressAmount nVal) = to_nValue txout" "CTxOut_data txout"
  shows "CTxOutCompressor_Unserialize env (WriteVarInt (COMPRESSED_MARKER + 1) @ stored_keys env nVal txout @
      Serialize_bytes (to_vData txout) @ TokenId_Serialize (to_tokenId txout) @
      CScriptCompressor_Serialize env (to_scriptPubKey txout) @ s) = Inr (stored_form env txout, s)"
proof -
  have ok: "CTxOut_ok txout" "length (to_scriptPubKey txout) < 2 ^ 31 - 6" "length (to_vData txout) \<le> MAX_SIZE"
    using assms(3) by (simp_all add: storable_def CTxOut_ok_def)
  let ?x = "txout\<lparr>to_scriptPubKey := [], to_vData := [], to_tokenId := TokenId_null,
      to_bp := Some (CTxOut_GetBulletproof env txout)\<rparr>"
  have "CTxOutCompressor_Unserialize env (WriteVarInt (COMPRESSED_MARKER + 1) @ stored_keys env nVal txout @
      Serialize_bytes (to_vData txout) @ TokenId_Serialize (to_tokenId txout) @
      CScriptCompressor_Serialize env (to_scriptPubKey txout) @ s) =
    Inr (?x\<lparr>to_vData := to_vData txout, to_tokenId := to_tokenId txout,
      to_scriptPubKey := to_scriptPubKey (stored_form env txout)\<rparr>, s)"
    by (simp only: CTxOutCompressor_Unserialize_def ReadVarInt_Write stored_keys_def append_assoc bindR_Inr prod.case
        read_compressed_keys_write [OF assms(1) ok(1) assms(4)]
        read_field_Inr [of Unserialize_bytes, OF unser_simps(2) [OF ok(3)]]
        read_field_Inr [of TokenId_Unserialize, OF TokenId_roundtrip] read_script [OF assms(2) ok(2)])
      (simp add: read_script [OF assms(2) ok(2)])
  then show ?thesis using assms(5) by (cases txout) (simp add: stored_form_def)
qed

lemma read_stored_keys:
  assumes "env_ok env" "keys_ok env" "storable txout" "sint (DecompressAmount nVal) = to_nValue txout"
    "\<not> CTxOut_data txout" "CTxOut_IsBLSCT txout"
  shows "CTxOutCompressor_Unserialize env (WriteVarInt COMPRESSED_MARKER @ stored_keys env nVal txout @
      CScriptCompressor_Serialize env (to_scriptPubKey txout) @ s) = Inr (stored_form env txout, s)"
proof -
  have ok: "CTxOut_ok txout" "length (to_scriptPubKey txout) < 2 ^ 31 - 6" using assms(3) by (simp_all add: storable_def)
  have "CTxOutCompressor_Unserialize env (WriteVarInt COMPRESSED_MARKER @ stored_keys env nVal txout @
      CScriptCompressor_Serialize env (to_scriptPubKey txout) @ s) =
    Inr (txout\<lparr>to_scriptPubKey := to_scriptPubKey (stored_form env txout), to_vData := [], to_tokenId := TokenId_null,
      to_bp := Some (CTxOut_GetBulletproof env txout)\<rparr>, s)"
    by (simp add: CTxOutCompressor_Unserialize_def ReadVarInt_Write stored_keys_def
        read_compressed_keys_write [OF assms(1) ok(1) assms(4)] read_script [OF assms(2) ok(2)])
  then show ?thesis using assms(5,6) by (cases txout) (simp add: stored_form_def CTxOut_data_def)
qed

lemma read_stored_plain:
  assumes "keys_ok env" "storable txout" "sint (DecompressAmount nVal) = to_nValue txout"
    "\<not> CTxOut_data txout" "\<not> CTxOut_IsBLSCT txout" "nVal \<noteq> COMPRESSED_MARKER" "nVal \<noteq> COMPRESSED_MARKER + 1"
  shows "CTxOutCompressor_Unserialize env (WriteVarInt nVal @ CScriptCompressor_Serialize env (to_scriptPubKey txout) @ s) =
    Inr (stored_form env txout, s)"
proof -
  have ok: "length (to_scriptPubKey txout) < 2 ^ 31 - 6" using assms(2) by (simp add: storable_def)
  have "CTxOutCompressor_Unserialize env (WriteVarInt nVal @ CScriptCompressor_Serialize env (to_scriptPubKey txout) @ s) =
    Inr (CTxOut_null\<lparr>to_nValue := to_nValue txout, to_scriptPubKey := to_scriptPubKey (stored_form env txout)\<rparr>, s)"
    using assms(3,6,7) by (simp add: CTxOutCompressor_Unserialize_def ReadVarInt_Write read_script [OF assms(1) ok])
  then show ?thesis using assms(4,5)
    by (cases txout) (simp add: stored_form_def CTxOut_null_def CTxOut_data_def CTxOut_IsBLSCT_def)
qed

text \<open>A plain output that pays to a key hash, of the amount whose compressed form is the second marker.\<close>

definition clashing_txout :: "('g, 's) CTxOut" where
  "clashing_txout =
     CTxOut_null\<lparr>to_nValue := 1888888888888889,
       to_scriptPubKey := [OP_DUP, OP_HASH160, 20] @ replicate 20 0xFF @ [OP_EQUALVERIFY, OP_CHECKSIG]\<rparr>"

lemma Compress_key: "length h = 20 \<Longrightarrow> Compress env ([OP_DUP, OP_HASH160, 20] @ h @ [OP_EQUALVERIFY, OP_CHECKSIG]) = Some (0 # h)"
  by (simp add: Compress_def IsToKeyID_def nth_append)

lemma clashing_bytes:
  fixes env :: "('g, 's) CompEnv"
  shows "CTxOutCompressor_Serialize env clashing_txout = Inr (WriteVarInt (COMPRESSED_MARKER + 1) @ 0 # replicate 20 0xFF)"
proof -
  let ?c = "clashing_txout :: ('g, 's) CTxOut"
  have "CompressAmount (word_of_int (to_nValue ?c)) = Inr (COMPRESSED_MARKER + 1)"
    by (simp add: clashing_txout_def CompressAmount_def compress_loop.simps [of 1888888888888889])
  note bytes = stored_bytes [OF this, of env]
  have "\<not> CTxOut_data ?c" "\<not> CTxOut_IsBLSCT ?c"
    by (simp_all add: clashing_txout_def CTxOut_null_def CTxOut_data_def TokenId_null_def CTxOut_IsBLSCT_def)
  moreover have "CScriptCompressor_Serialize env (to_scriptPubKey ?c) = 0 # replicate 20 0xFF"
    using Compress_key [of "replicate 20 0xFF" env] by (simp add: clashing_txout_def CScriptCompressor_Serialize_def)
  ultimately show ?thesis using bytes by (simp only: if_False)
qed

lemma read_size_too_large: "ReadCompactSize (replicate 20 0xFF) = Inl StdException"
proof -
  have numeral: "le_bytes (numeral k) x = of_nat x # le_bytes (pred_numeral k) (x div 256)"
    "replicate (numeral k) c = c # replicate (pred_numeral k) c" for k x and c :: u8
    unfolding numeral_eq_Suc [of k] by simp_all
  have "replicate 20 (0xFF :: u8) = replicate 1 0xFF @ replicate 8 0xFF @ replicate 11 0xFF"
    by (simp only: replicate_add [symmetric]) simp
  also have "replicate 8 (0xFF :: u8) = ser_writedata64 (- 1)"
    by (simp add: ser_writedata64_def numeral unsigned_minus_1_eq_mask mask_eq_exp_minus_1)
  also have "replicate 1 (0xFF :: u8) = ser_writedata8 255" by (simp add: ser_writedata8_def)
  finally show ?thesis by (simp add: ReadCompactSize_def compact_size_rest_def size_at_least_def)
qed

lemma clashing_txout_fails:
  "bindR (CTxOutCompressor_Serialize env clashing_txout) (CTxOutCompressor_Unserialize env) = Inl StdException"
  unfolding clashing_bytes bindR_Inr
  by (simp only: CTxOutCompressor_Unserialize_def ReadVarInt_Write bindR_Inr prod.case read_compressed_keys_def)
    (simp add: read_field_def read_amount_def ReadVarInt_small Unserialize_bytes_def read_size_too_large)

lemma stored_roundtrip:
  assumes "env_ok env" "keys_ok env" "storable txout"
  shows "\<exists>b. CTxOutCompressor_Serialize env txout = Inr b \<and>
    (\<forall>s. CTxOutCompressor_Unserialize env (b @ s) = Inr (stored_form env txout, s))"
proof -
  have money: "MoneyRange (to_nValue txout)" using assms(3) by (simp add: storable_def)
  note amount = amount_word [OF money]
  obtain nVal where nVal: "CompressAmount (word_of_int (to_nValue txout)) = Inr nVal"
      "DecompressAmount nVal = word_of_int (to_nValue txout)"
    using amount_roundtrip [OF amount(1)] by blast
  then have v: "sint (DecompressAmount nVal) = to_nValue txout" using amount(2) by simp
  have "nVal \<noteq> COMPRESSED_MARKER + 1" if "\<not> CTxOut_data txout" "\<not> CTxOut_IsBLSCT txout"
    using that assms(3) amount_marker(2) [OF amount(1) nVal(1)] amount(3) by (auto simp: storable_def)
  then show ?thesis
    using stored_bytes [OF nVal(1), of env] read_stored_data [OF assms v] read_stored_keys [OF assms v]
      read_stored_plain [OF assms(2,3) v] amount_marker(1) [OF amount(1) nVal(1)]
    by (cases "CTxOut_data txout"; cases "CTxOut_IsBLSCT txout") simp_all
qed

text \<open>
  C34. Storing unspent outputs. An output with a valid amount, other than a plain one of 18888888.88888889 coins, is
  written without error and read back as its stored form, which keeps the amount, the keys and the data. The
  stored form is the output itself exactly when its script has at most \<^verbatim>\<open>MAX_SCRIPT_SIZE\<close> bytes, it has data or a
  token or else the default token identifier, and its range proof is present just when it has keys or data. It is not when
  a token is null and its sub-id is not: the sub-id is lost, although \<^verbatim>\<open>CTxOut\<close>'s own serialization keeps it.
  The excluded plain amount is written with the marker of an output with data, and reading it back throws.
\<close>

theorem stored_output_roundtrip:
  assumes "env_ok env" "keys_ok env" "storable txout"
  shows "(\<exists>b. CTxOutCompressor_Serialize env txout = Inr b \<and>
      (\<forall>s. CTxOutCompressor_Unserialize env (b @ s) = Inr (stored_form env txout, s))) \<and>
    to_nValue (stored_form env txout) = to_nValue txout \<and> to_ephemeralKey (stored_form env txout) = to_ephemeralKey txout \<and>
    to_outputKey (stored_form env txout) = to_outputKey txout \<and> to_spendingKey (stored_form env txout) = to_spendingKey txout \<and>
    to_vData (stored_form env txout) = to_vData txout \<and>
    (stored_form env txout = txout \<longleftrightarrow> kept_output txout) \<and>
    (to_vData txout = [] \<and> tk_token (to_tokenId txout) = 0 \<longrightarrow> to_tokenId (stored_form env txout) = TokenId_null) \<and>
    MoneyRange (to_nValue (clashing_txout :: ('a, 'b) CTxOut)) \<and>
    bindR (CTxOutCompressor_Serialize env clashing_txout) (CTxOutCompressor_Unserialize env) = Inl StdException"
  by (intro conjI clashing_txout_fails stored_form_exact stored_roundtrip [OF assms])
    (simp_all add: clashing_txout_def MoneyRange_def stored_form_def CTxOut_data_def)

text \<open>A key library with one valid key.\<close>

definition sample_comp_env :: "(u8, u8) CompEnv" where
  "sample_comp_env =
     SerEnv.extend sample_env
       \<lparr>pk_IsFullyValid = (\<lambda>pk. pk = 4 # replicate 64 7), pk_Decompress = (\<lambda>b. Some (4 # replicate 64 7))\<rparr>"

theorem stored_output_roundtrip_witness:
  "(\<exists>b. CTxOutCompressor_Serialize sample_comp_env sample_txout = Inr b \<and>
     (\<forall>s. CTxOutCompressor_Unserialize sample_comp_env (b @ s) = Inr (sample_txout, s))) \<and>
   (let nft = CTxOut_null\<lparr>to_nValue := 5, to_tokenId := \<lparr>tk_token = 0, tk_subid = 9\<rparr>\<rparr> in
    \<exists>b. CTxOutCompressor_Serialize sample_comp_env nft = Inr b \<and>
     (\<forall>s. CTxOutCompressor_Unserialize sample_comp_env (b @ s) = Inr (nft\<lparr>to_tokenId := TokenId_null\<rparr>, s)))"
proof -
  let ?nft = "CTxOut_null\<lparr>to_nValue := 5, to_tokenId := \<lparr>tk_token = 0, tk_subid = 9\<rparr>\<rparr> :: (u8, u8) CTxOut"
  have env: "env_ok sample_comp_env" "keys_ok sample_comp_env"
    by (simp_all add: env_ok_def keys_ok_def sample_comp_env_def sample_env_def SerEnv.defs)
  have "storable sample_txout" "storable ?nft"
    by (simp_all add: storable_def CTxOut_data_def sample_txout_def CTxOut_null_def CTxOut_ok_def MoneyRange_def proof_ok_def
        BulletproofsRangeproof_empty_def)
  note stored = this [THEN stored_output_roundtrip [OF env]]
  have "kept_output sample_txout"
    by (simp add: kept_output_def CTxOut_data_def CTxOut_IsBLSCT_def sample_txout_def TokenId_null_def)
  moreover have "stored_form sample_comp_env ?nft = ?nft\<lparr>to_tokenId := TokenId_null\<rparr>"
    by (simp add: stored_form_def CTxOut_data_def CTxOut_IsBLSCT_def CTxOut_null_def)
  ultimately show ?thesis using stored unfolding Let_def by metis
qed

end
