(* ===== verification/Coins.thy ===== *)
theory Coins
  imports Compressor
begin

text \<open>
  The unspent transaction outputs (\<^verbatim>\<open>coins.h\<close>, \<^verbatim>\<open>coins.cpp\<close>): the outputs of a transaction, the layered caches that
  hold them with their \<^verbatim>\<open>DIRTY\<close> and \<^verbatim>\<open>FRESH\<close> flags, and how a block spends, creates and restores them
  (\<^verbatim>\<open>UpdateCoins\<close>, \<^verbatim>\<open>ApplyTxInUndo\<close> and the loops of \<^verbatim>\<open>ConnectBlock\<close> and \<^verbatim>\<open>DisconnectBlock\<close> in \<^verbatim>\<open>main.cpp\<close>). The
  memory accounting (\<^verbatim>\<open>cachedCoinsUsage\<close>) is left out, and \<^verbatim>\<open>hasModifier\<close> too: the modelled code never holds
  two modifiers at once.
\<close>

section \<open>The outputs of a transaction\<close>

record ('g, 's) CCoins =
  cc_fCoinBase :: bool
  cc_fCoinStake :: bool
  cc_vout :: "('g, 's) CTxOut list"
  cc_nHeight :: int
  cc_nVersion :: int

definition CCoins_new :: "('g, 's) CCoins" where
  "CCoins_new = \<lparr>cc_fCoinBase = False, cc_fCoinStake = False, cc_vout = [], cc_nHeight = 0, cc_nVersion = 0\<rparr>"

definition CCoins_Clear :: "('g, 's) CCoins \<Rightarrow> ('g, 's) CCoins" where
  "CCoins_Clear c = c\<lparr>cc_fCoinBase := False, cc_fCoinStake := False, cc_vout := [], cc_nHeight := 0, cc_nVersion := 0\<rparr>"

text \<open>The loop of \<^verbatim>\<open>Cleanup\<close>: spent outputs at the end are dropped.\<close>

fun pop_nulls :: "('g, 's) CTxOut list \<Rightarrow> ('g, 's) CTxOut list" where
  "pop_nulls vout = (if length vout > 0 \<and> CTxOut_IsNull (last vout) then pop_nulls (butlast vout) else vout)"

declare pop_nulls.simps [simp del]

definition CCoins_Cleanup :: "('g, 's) CCoins \<Rightarrow> ('g, 's) CCoins" where
  "CCoins_Cleanup c = c\<lparr>cc_vout := pop_nulls (cc_vout c)\<rparr>"

definition CCoins_ClearUnspendable :: "('g, 's, 'z) SerEnv_scheme \<Rightarrow> ('g, 's) CCoins \<Rightarrow> ('g, 's) CCoins" where
  "CCoins_ClearUnspendable env c =
     CCoins_Cleanup (c\<lparr>cc_vout :=
       map (\<lambda>txout. if \<not> CTxOut_HasRangeProof env txout \<and> IsUnspendable (to_scriptPubKey txout) then CTxOut_null else txout)
         (cc_vout c)\<rparr>)"

definition CCoins_FromTx ::
  "('g, 's, 'z) SerEnv_scheme \<Rightarrow> ('g, 's) CTransaction \<Rightarrow> int \<Rightarrow> ('g, 's) CCoins \<Rightarrow> ('g, 's) CCoins" where
  "CCoins_FromTx env tx nHeightIn c =
     CCoins_ClearUnspendable env
       (c\<lparr>cc_fCoinBase := CTransaction_IsCoinBase tx, cc_fCoinStake := CTransaction_IsCoinStake env tx,
          cc_vout := tx_vout tx, cc_nHeight := nHeightIn, cc_nVersion := tx_nVersion tx\<rparr>)"

definition CCoins_IsAvailable :: "u32 \<Rightarrow> ('g, 's) CCoins \<Rightarrow> bool" where
  "CCoins_IsAvailable nPos c = (unat nPos < length (cc_vout c) \<and> \<not> CTxOut_IsNull (cc_vout c ! unat nPos))"

definition CCoins_IsPruned :: "('g, 's) CCoins \<Rightarrow> bool" where
  "CCoins_IsPruned c = list_all CTxOut_IsNull (cc_vout c)"

definition CTxOut_eq :: "('g, 's, 'z) SerEnv_scheme \<Rightarrow> ('g, 's) CTxOut \<Rightarrow> ('g, 's) CTxOut \<Rightarrow> bool" where
  "CTxOut_eq env a b =
     (to_nValue a = to_nValue b \<and> to_scriptPubKey a = to_scriptPubKey b \<and> to_ephemeralKey a = to_ephemeralKey b \<and>
      to_outputKey a = to_outputKey b \<and> to_spendingKey a = to_spendingKey b \<and>
      CTxOut_GetBulletproof env a = CTxOut_GetBulletproof env b \<and>
      to_tokenId a = to_tokenId b \<and> to_vData a = to_vData b)"

definition CCoins_eq :: "('g, 's, 'z) SerEnv_scheme \<Rightarrow> ('g, 's) CCoins \<Rightarrow> ('g, 's) CCoins \<Rightarrow> bool" where
  "CCoins_eq env a b =
     (if CCoins_IsPruned a \<and> CCoins_IsPruned b then True
      else cc_fCoinBase a = cc_fCoinBase b \<and> cc_nHeight a = cc_nHeight b \<and> cc_nVersion a = cc_nVersion b \<and>
           list_all2 (CTxOut_eq env) (cc_vout a) (cc_vout b))"

definition CCoins_Spend :: "u32 \<Rightarrow> ('g, 's) CCoins \<Rightarrow> bool \<times> ('g, 's) CCoins" where
  "CCoins_Spend nPos c =
     (if unat nPos \<ge> length (cc_vout c) \<or> CTxOut_IsNull (cc_vout c ! unat nPos) then (False, c)
      else (True, CCoins_Cleanup (c\<lparr>cc_vout := (cc_vout c)[unat nPos := CTxOut_null]\<rparr>)))"

section \<open>Their stored form\<close>

text \<open>\<^verbatim>\<open>VARINT\<close> of an \<^verbatim>\<open>int\<close>: the loop stops at once for a negative number.\<close>

definition WriteVarInt_int :: "int \<Rightarrow> bytes" where
  "WriteVarInt_int n = (if n < 0 then [word_of_int n AND 0x7F] else WriteVarInt (word_of_int n :: u32))"

definition ReadVarInt_int :: "int reader" where
  "ReadVarInt_int s = bindR (ReadVarInt s) (\<lambda>(n :: u32, s). Inr (sint n, s))"

text \<open>The availability of output \<open>2 + b * 8 + i\<close>, false past the end of the vector, and the byte with number \<open>b\<close> of the mask.\<close>

definition mask_bit :: "('g, 's) CTxOut list \<Rightarrow> nat \<Rightarrow> nat \<Rightarrow> bool" where
  "mask_bit vout b i = (2 + b * 8 + i < length vout \<and> \<not> CTxOut_IsNull (vout ! (2 + b * 8 + i)))"

definition mask_byte :: "('g, 's) CTxOut list \<Rightarrow> nat \<Rightarrow> u8" where
  "mask_byte vout b = fold (\<lambda>i chAvail. if mask_bit vout b i then chAvail OR push_bit i 1 else chAvail) [0..<8] 0"

text \<open>\<open>(length vout + 5) div 8\<close> is the number of values \<open>b\<close> with \<open>2 + b * 8 < length vout\<close>.\<close>

definition CalcMaskSize :: "('g, 's) CTxOut list \<Rightarrow> nat \<times> nat" where
  "CalcMaskSize vout =
     fold (\<lambda>b (nLastUsedByte, nNonzeroBytes).
             if list_ex (mask_bit vout b) [0..<8] then (b + 1, nNonzeroBytes + 1) else (nLastUsedByte, nNonzeroBytes))
       [0..<(length vout + 5) div 8] (0, 0)"

definition CCoins_Serialize :: "('g, 's) CompEnv \<Rightarrow> ('g, 's) CCoins \<Rightarrow> bytes result" where
  "CCoins_Serialize env c =
     (let vout = cc_vout c; (nMaskSize, nMaskCode) = CalcMaskSize vout;
          fFirst = (length vout > 0 \<and> \<not> CTxOut_IsNull (vout ! 0));
          fSecond = (length vout > 1 \<and> \<not> CTxOut_IsNull (vout ! 1))
      in if \<not> (fFirst \<or> fSecond \<or> nMaskCode \<noteq> 0) then Inl AssertFailed
         else
           let nCode = 8 * (of_nat nMaskCode - (if fFirst \<or> fSecond then 0 else 1)) +
                 (if cc_fCoinBase c then 1 else 0) + (if fFirst then 2 else 0) + (if fSecond then 4 else 0) :: u32
           in bindR (foldR (\<lambda>txout s. if CTxOut_IsNull txout then Inr s
                                      else bindR (CTxOutCompressor_Serialize env txout) (\<lambda>b. Inr (s @ b))) vout
                       (WriteVarInt_int (cc_nVersion c) @ WriteVarInt nCode @ map (mask_byte vout) [0..<nMaskSize]))
                (\<lambda>s. Inr (s @ WriteVarInt_int (cc_nHeight c))))"

text \<open>The loop over the mask ends after \<^verbatim>\<open>nMaskCode\<close> bytes that are not zero, or throws at the end of the stream.\<close>

fun read_mask :: "nat \<Rightarrow> bool list \<Rightarrow> bool list reader" where
  "read_mask nMaskCode vAvail [] = (if nMaskCode > 0 then Inl StdException else Inr (vAvail, []))"
| "read_mask nMaskCode vAvail (chAvail # s) =
     (if nMaskCode > 0
      then read_mask (if chAvail \<noteq> 0 then nMaskCode - 1 else nMaskCode)
             (vAvail @ map (\<lambda>p. chAvail AND push_bit p 1 \<noteq> 0) [0..<8]) s
      else Inr (vAvail, chAvail # s))"

primrec read_outputs :: "('g, 's) CompEnv \<Rightarrow> bool list \<Rightarrow> ('g, 's) CTxOut list reader" where
  "read_outputs env [] s = Inr ([], s)"
| "read_outputs env (avail # vAvail) s =
     bindR (if avail then CTxOutCompressor_Unserialize env s else Inr (CTxOut_null, s)) (\<lambda>(txout, s).
     bindR (read_outputs env vAvail s) (\<lambda>(vout, s). Inr (txout # vout, s)))"

text \<open>Into a new object: \<^verbatim>\<open>fCoinStake\<close> is not read and keeps the value that the constructor gave it.\<close>

definition CCoins_Unserialize :: "('g, 's) CompEnv \<Rightarrow> ('g, 's) CCoins reader" where
  "CCoins_Unserialize env s =
     bindR (ReadVarInt_int s) (\<lambda>(nVersion, s).
     bindR (ReadVarInt s) (\<lambda>(nCode :: u32, s).
       let nMaskCode = unat (nCode div 8) + (if nCode AND 6 \<noteq> 0 then 0 else 1)
       in bindR (read_mask nMaskCode [nCode AND 2 \<noteq> 0, nCode AND 4 \<noteq> 0] s) (\<lambda>(vAvail, s).
          bindR (read_outputs env vAvail s) (\<lambda>(vout, s).
          bindR (ReadVarInt_int s) (\<lambda>(nHeight, s).
            Inr (CCoins_Cleanup (CCoins_new\<lparr>cc_fCoinBase := (nCode AND 1 \<noteq> 0), cc_vout := vout, cc_nHeight := nHeight,
                   cc_nVersion := nVersion\<rparr>), s))))))"

section \<open>Caches\<close>

abbreviation (input) DIRTY :: u8 where "DIRTY \<equiv> 1"
abbreviation (input) FRESH :: u8 where "FRESH \<equiv> 2"

record ('g, 's) CCoinsCacheEntry =
  ce_coins :: "('g, 's) CCoins"
  ce_flags :: u8

definition CCoinsCacheEntry_new :: "('g, 's) CCoinsCacheEntry" where
  "CCoinsCacheEntry_new = \<lparr>ce_coins = CCoins_new, ce_flags = 0\<rparr>"

text \<open>
  \<^verbatim>\<open>CCoinsMap\<close> is an unordered map; its entries are kept in the order of the keys here, which nothing depends on
  (\<open>map_of_batch_coins\<close> below does not mention the order).
\<close>

type_synonym ('g, 's) CCoinsMap = "(uint256, ('g, 's) CCoinsCacheEntry) omap"

text \<open>The views: the empty base class, the database of stored coins, and a cache on top of another view.\<close>

datatype ('g, 's) CoinsView =
    CoinsBase
  | CoinsDB "(uint256, bytes) omap"
  | CoinsLayer "('g, 's) CCoinsMap" "('g, 's) CoinsView"

record ('g, 's) CoinsCache =
  cacheCoins :: "('g, 's) CCoinsMap"
  coins_base :: "('g, 's) CoinsView"

text \<open>What a cache answers when its parent answers \<open>b\<close>, and \<^verbatim>\<open>GetCoins\<close> of each view (a read error in the database is "not found").\<close>

definition cached_coins :: "('g, 's) CCoinsMap \<Rightarrow> uint256 \<Rightarrow> ('g, 's) CCoins option \<Rightarrow> ('g, 's) CCoins option" where
  "cached_coins m txid b = (case map_of m txid of Some e \<Rightarrow> Some (ce_coins e) | None \<Rightarrow> b)"

definition db_GetCoins :: "('g, 's) CompEnv \<Rightarrow> (uint256, bytes) omap \<Rightarrow> uint256 \<Rightarrow> ('g, 's) CCoins option" where
  "db_GetCoins env d txid =
     (case map_of d txid of
        None \<Rightarrow> None
      | Some b \<Rightarrow> (case CCoins_Unserialize env b of Inr (c, s) \<Rightarrow> Some c | Inl _ \<Rightarrow> None))"

primrec view_GetCoins :: "('g, 's) CompEnv \<Rightarrow> ('g, 's) CoinsView \<Rightarrow> uint256 \<Rightarrow> ('g, 's) CCoins option" where
  "view_GetCoins env CoinsBase txid = None"
| "view_GetCoins env (CoinsDB d) txid = db_GetCoins env d txid"
| "view_GetCoins env (CoinsLayer m b) txid = cached_coins m txid (view_GetCoins env b txid)"

definition FetchCoins ::
  "('g, 's) CompEnv \<Rightarrow> uint256 \<Rightarrow> ('g, 's) CoinsCache \<Rightarrow> ('g, 's) CCoinsCacheEntry option \<times> ('g, 's) CoinsCache" where
  "FetchCoins env txid v =
     (case map_of (cacheCoins v) txid of
        Some e \<Rightarrow> (Some e, v)
      | None \<Rightarrow>
          (case view_GetCoins env (coins_base v) txid of
             None \<Rightarrow> (None, v)
           | Some tmp \<Rightarrow>
               let e = \<lparr>ce_coins = tmp, ce_flags = (if CCoins_IsPruned tmp then FRESH else 0)\<rparr>
               in (Some e, v\<lparr>cacheCoins := omap_put txid e (cacheCoins v)\<rparr>)))"

definition GetCoins ::
  "('g, 's) CompEnv \<Rightarrow> uint256 \<Rightarrow> ('g, 's) CoinsCache \<Rightarrow> ('g, 's) CCoins option \<times> ('g, 's) CoinsCache" where
  "GetCoins env txid v = (let (it, v) = FetchCoins env txid v in (map_option ce_coins it, v))"

definition HaveCoins :: "('g, 's) CompEnv \<Rightarrow> uint256 \<Rightarrow> ('g, 's) CoinsCache \<Rightarrow> bool \<times> ('g, 's) CoinsCache" where
  "HaveCoins env txid v =
     (let (it, v) = FetchCoins env txid v in (case it of Some e \<Rightarrow> cc_vout (ce_coins e) \<noteq> [] | None \<Rightarrow> False, v))"

definition AccessCoins ::
  "('g, 's) CompEnv \<Rightarrow> uint256 \<Rightarrow> ('g, 's) CoinsCache \<Rightarrow> ('g, 's) CCoins option \<times> ('g, 's) CoinsCache" where
  "AccessCoins env txid v =
     (let (it, v) = FetchCoins env txid v in (case it of Some e \<Rightarrow> Some (ce_coins e) | None \<Rightarrow> None, v))"

text \<open>
  \<^verbatim>\<open>ModifyCoins\<close> and \<^verbatim>\<open>ModifyNewCoins\<close> open an entry and return the coins it holds; the destructor of the
  modifier stores the changed coins.
\<close>

definition ModifyCoins ::
  "('g, 's) CompEnv \<Rightarrow> uint256 \<Rightarrow> ('g, 's) CoinsCache \<Rightarrow> ('g, 's) CCoins \<times> ('g, 's) CoinsCache" where
  "ModifyCoins env txid v =
     (let e = (case map_of (cacheCoins v) txid of
                 Some e \<Rightarrow> e
               | None \<Rightarrow>
                   (case view_GetCoins env (coins_base v) txid of
                      None \<Rightarrow> CCoinsCacheEntry_new\<lparr>ce_coins := CCoins_Clear CCoins_new, ce_flags := FRESH\<rparr>
                    | Some c \<Rightarrow> CCoinsCacheEntry_new\<lparr>ce_coins := c, ce_flags := (if CCoins_IsPruned c then FRESH else 0)\<rparr>));
          e = e\<lparr>ce_flags := ce_flags e OR DIRTY\<rparr>
      in (ce_coins e, v\<lparr>cacheCoins := omap_put txid e (cacheCoins v)\<rparr>))"

definition ModifyNewCoins :: "uint256 \<Rightarrow> bool \<Rightarrow> ('g, 's) CoinsCache \<Rightarrow> ('g, 's) CCoins \<times> ('g, 's) CoinsCache" where
  "ModifyNewCoins txid coinbase v =
     (let e = omap_get CCoinsCacheEntry_new txid (cacheCoins v);
          e = e\<lparr>ce_coins := CCoins_Clear (ce_coins e)\<rparr>;
          e = (if \<not> coinbase then e\<lparr>ce_flags := FRESH\<rparr> else e);
          e = e\<lparr>ce_flags := ce_flags e OR DIRTY\<rparr>
      in (ce_coins e, v\<lparr>cacheCoins := omap_put txid e (cacheCoins v)\<rparr>))"

definition CCoinsModifier_close ::
  "uint256 \<Rightarrow> ('g, 's) CCoins \<Rightarrow> ('g, 's) CoinsCache \<Rightarrow> ('g, 's) CoinsCache" where
  "CCoinsModifier_close txid c v =
     (let e = (omap_get CCoinsCacheEntry_new txid (cacheCoins v))\<lparr>ce_coins := CCoins_Cleanup c\<rparr>
      in v\<lparr>cacheCoins :=
           (if ce_flags e AND FRESH \<noteq> 0 \<and> CCoins_IsPruned (ce_coins e) then omap_erase txid (cacheCoins v)
            else omap_put txid e (cacheCoins v))\<rparr>)"

definition Uncache :: "uint256 \<Rightarrow> ('g, 's) CoinsCache \<Rightarrow> ('g, 's) CoinsCache" where
  "Uncache hash v =
     (case map_of (cacheCoins v) hash of
        Some e \<Rightarrow> if ce_flags e = 0 then v\<lparr>cacheCoins := omap_erase hash (cacheCoins v)\<rparr> else v
      | None \<Rightarrow> v)"

text \<open>\<^verbatim>\<open>BatchWrite\<close>, for one entry of the child.\<close>

definition batch_coin ::
  "uint256 \<times> ('g, 's) CCoinsCacheEntry \<Rightarrow> ('g, 's) CCoinsMap \<Rightarrow> ('g, 's) CCoinsMap" where
  "batch_coin = (\<lambda>(txid, e) m.
     if ce_flags e AND DIRTY \<noteq> 0 then
       (case map_of m txid of
          None \<Rightarrow>
            if \<not> (ce_flags e AND FRESH \<noteq> 0 \<and> CCoins_IsPruned (ce_coins e))
            then omap_put txid \<lparr>ce_coins = ce_coins e,
                   ce_flags = (if ce_flags e AND FRESH \<noteq> 0 then DIRTY OR FRESH else DIRTY)\<rparr> m
            else m
        | Some us \<Rightarrow>
            if ce_flags us AND FRESH \<noteq> 0 \<and> CCoins_IsPruned (ce_coins e) then omap_erase txid m
            else omap_put txid \<lparr>ce_coins = ce_coins e, ce_flags = ce_flags us OR DIRTY\<rparr> m)
     else m)"

definition batch_coins :: "('g, 's) CCoinsMap \<Rightarrow> ('g, 's) CCoinsMap \<Rightarrow> ('g, 's) CCoinsMap" where
  "batch_coins mapCoins m = fold batch_coin mapCoins m"

text \<open>\<^verbatim>\<open>CStateViewDB::BatchWrite\<close>; writing coins asserts that some output is unspent.\<close>

definition db_batch_coin ::
  "('g, 's) CompEnv \<Rightarrow> uint256 \<times> ('g, 's) CCoinsCacheEntry \<Rightarrow> (uint256, bytes) omap \<Rightarrow> (uint256, bytes) omap result" where
  "db_batch_coin env = (\<lambda>(txid, e) d.
     if ce_flags e AND DIRTY \<noteq> 0 then
       if CCoins_IsPruned (ce_coins e) then Inr (omap_erase txid d)
       else bindR (CCoins_Serialize env (ce_coins e)) (\<lambda>b. Inr (omap_put txid b d))
     else Inr d)"

text \<open>\<^verbatim>\<open>base->BatchWrite(cacheCoins)\<close> (the base class does nothing and returns false) and \<^verbatim>\<open>Flush\<close>.\<close>

fun view_BatchWrite ::
  "('g, 's) CompEnv \<Rightarrow> ('g, 's) CCoinsMap \<Rightarrow> ('g, 's) CoinsView \<Rightarrow> (bool \<times> ('g, 's) CoinsView) result" where
  "view_BatchWrite env m CoinsBase = Inr (False, CoinsBase)"
| "view_BatchWrite env m (CoinsDB d) = bindR (foldR (db_batch_coin env) m d) (\<lambda>d. Inr (True, CoinsDB d))"
| "view_BatchWrite env m (CoinsLayer p b) = Inr (True, CoinsLayer (batch_coins m p) b)"

definition Flush_coins :: "('g, 's) CompEnv \<Rightarrow> ('g, 's) CoinsCache \<Rightarrow> (bool \<times> ('g, 's) CoinsCache) result" where
  "Flush_coins env v =
     bindR (view_BatchWrite env (cacheCoins v) (coins_base v)) (\<lambda>(fOk, b). Inr (fOk, v\<lparr>cacheCoins := [], coins_base := b\<rparr>))"

section \<open>Inputs\<close>

definition GetOutputFor ::
  "('g, 's) CompEnv \<Rightarrow> CTxIn \<Rightarrow> ('g, 's) CoinsCache \<Rightarrow> (('g, 's) CTxOut \<times> ('g, 's) CoinsCache) result" where
  "GetOutputFor env input v =
     (let (coins, v) = AccessCoins env (op_hash (ti_prevout input)) v; n = op_n (ti_prevout input)
      in case coins of
           Some c \<Rightarrow> if CCoins_IsAvailable n c then Inr (cc_vout c ! unat n, v) else Inl AssertFailed
         | None \<Rightarrow> Inl AssertFailed)"

definition GetValueIn ::
  "('g, 's) CompEnv \<Rightarrow> ('g, 's) CTransaction \<Rightarrow> ('g, 's) CoinsCache \<Rightarrow> (CAmount \<times> ('g, 's) CoinsCache) result" where
  "GetValueIn env tx v =
     (if CTransaction_IsCoinBase tx then Inr (0, v)
      else foldR (\<lambda>txin (nResult, v). bindR (GetOutputFor env txin v) (\<lambda>(txout, v). Inr (nResult + to_nValue txout, v)))
             (tx_vin tx) (0, v))"

primrec have_inputs :: "('g, 's) CompEnv \<Rightarrow> CTxIn list \<Rightarrow> ('g, 's) CoinsCache \<Rightarrow> bool \<times> ('g, 's) CoinsCache" where
  "have_inputs env [] v = (True, v)"
| "have_inputs env (txin # vin) v =
     (let (coins, v) = AccessCoins env (op_hash (ti_prevout txin)) v
      in case coins of
           Some c \<Rightarrow> if CCoins_IsAvailable (op_n (ti_prevout txin)) c then have_inputs env vin v else (False, v)
         | None \<Rightarrow> (False, v))"

definition HaveInputs :: "('g, 's) CompEnv \<Rightarrow> ('g, 's) CTransaction \<Rightarrow> ('g, 's) CoinsCache \<Rightarrow> bool \<times> ('g, 's) CoinsCache" where
  "HaveInputs env tx v = (if \<not> CTransaction_IsCoinBase tx then have_inputs env (tx_vin tx) v else (True, v))"

section \<open>Connecting a transaction\<close>

record ('g, 's) CTxInUndo =
  un_txout :: "('g, 's) CTxOut"
  un_fCoinBase :: bool
  un_nHeight :: u32
  un_nVersion :: int

definition CTxInUndo_new :: "('g, 's) CTxOut \<Rightarrow> ('g, 's) CTxInUndo" where
  "CTxInUndo_new txoutIn = \<lparr>un_txout = txoutIn, un_fCoinBase = False, un_nHeight = 0, un_nVersion = 0\<rparr>"

definition spend_input ::
  "('g, 's) CompEnv \<Rightarrow> CTxIn \<Rightarrow> ('g, 's) CoinsCache \<times> ('g, 's) CTxInUndo list \<Rightarrow>
   (('g, 's) CoinsCache \<times> ('g, 's) CTxInUndo list) result" where
  "spend_input env txin = (\<lambda>(inputs, vprevout).
     let txid = op_hash (ti_prevout txin); nPos = op_n (ti_prevout txin);
         (coins, inputs) = ModifyCoins env txid inputs
     in if unat nPos \<ge> length (cc_vout coins) \<or> CTxOut_IsNull (cc_vout coins ! unat nPos) then Inl AssertFailed
        else
          let undo = CTxInUndo_new (cc_vout coins ! unat nPos);
              coins = snd (CCoins_Spend nPos coins);
              undo = (if length (cc_vout coins) = 0
                      then undo\<lparr>un_nHeight := word_of_int (cc_nHeight coins), un_fCoinBase := cc_fCoinBase coins,
                                un_nVersion := cc_nVersion coins\<rparr>
                      else undo)
          in Inr (CCoinsModifier_close txid coins inputs, vprevout @ [undo]))"

definition UpdateCoins ::
  "(bytes \<Rightarrow> uint256) \<Rightarrow> ('g, 's) CompEnv \<Rightarrow> ('g, 's) CTransaction \<Rightarrow> int \<Rightarrow> ('g, 's) CoinsCache \<Rightarrow>
   (('g, 's) CoinsCache \<times> ('g, 's) CTxInUndo list) result" where
  "UpdateCoins Hash env tx nHeight inputs =
     bindR (if \<not> CTransaction_IsCoinBase tx then foldR (spend_input env) (tx_vin tx) (inputs, []) else Inr (inputs, []))
       (\<lambda>(inputs, vprevout).
     bindR (CTransaction_GetHash Hash env tx) (\<lambda>txid.
       let (coins, inputs) = ModifyNewCoins txid (CTransaction_IsCoinBase tx) inputs
       in Inr (CCoinsModifier_close txid (CCoins_FromTx env tx nHeight coins) inputs, vprevout)))"

text \<open>The loop of \<^verbatim>\<open>ConnectBlock\<close> over the transactions, as far as the coins go: the undo data of the first one is not kept.\<close>

definition connect_coins ::
  "(bytes \<Rightarrow> uint256) \<Rightarrow> ('g, 's) CompEnv \<Rightarrow> int \<Rightarrow> ('g, 's) CTransaction list \<Rightarrow> ('g, 's) CoinsCache \<Rightarrow>
   (('g, 's) CoinsCache \<times> ('g, 's) CTxInUndo list list) result" where
  "connect_coins Hash env nHeight vtx view =
     foldR (\<lambda>(i, tx) (view, vtxundo).
              bindR (UpdateCoins Hash env tx nHeight view) (\<lambda>(view, undo).
                Inr (view, if i > 0 then vtxundo @ [undo] else vtxundo)))
       (enumerate 0 vtx) (view, [])"

section \<open>Disconnecting a transaction\<close>

text \<open>
  \<^verbatim>\<open>out.n+1\<close> is computed with 32 bits. When it wraps to zero the vector is not resized, and the output is written
  outside of it; this is the error branch.
\<close>

definition ApplyTxInUndo ::
  "('g, 's) CompEnv \<Rightarrow> ('g, 's) CTxInUndo \<Rightarrow> COutPoint \<Rightarrow> ('g, 's) CoinsCache \<Rightarrow> (bool \<times> ('g, 's) CoinsCache) result" where
  "ApplyTxInUndo env undo out view =
     (let (coins, view) = ModifyCoins env (op_hash out) view;
          fClean = (if un_nHeight undo \<noteq> 0 then CCoins_IsPruned coins else \<not> CCoins_IsPruned coins);
          coins = (if un_nHeight undo \<noteq> 0
                   then (CCoins_Clear coins)\<lparr>cc_fCoinBase := un_fCoinBase undo, cc_nHeight := sint (un_nHeight undo),
                          cc_nVersion := un_nVersion undo\<rparr>
                   else coins);
          fClean = (fClean \<and> \<not> CCoins_IsAvailable (op_n out) coins);
          size = unat (op_n out + 1);
          vout = (if length (cc_vout coins) < size
                  then cc_vout coins @ replicate (size - length (cc_vout coins)) CTxOut_null else cc_vout coins)
      in if unat (op_n out) < length vout
         then Inr (fClean, CCoinsModifier_close (op_hash out)
                (coins\<lparr>cc_vout := vout[unat (op_n out) := un_txout undo]\<rparr>) view)
         else Inl NullDereference)"

text \<open>\<open>None\<close>: \<^verbatim>\<open>DisconnectBlock\<close> returns false.\<close>

definition disconnect_outputs ::
  "('g, 's) CompEnv \<Rightarrow> uint256 \<Rightarrow> ('g, 's) CTransaction \<Rightarrow> int \<Rightarrow> ('g, 's) CoinsCache \<Rightarrow> bool \<times> ('g, 's) CoinsCache" where
  "disconnect_outputs env hash tx nHeight view =
     (let (outs, view) = ModifyCoins env hash view;
          outs = CCoins_ClearUnspendable env outs;
          outsBlock = CCoins_FromTx env tx nHeight CCoins_new;
          outs = (if cc_nVersion outsBlock < 0 then outs\<lparr>cc_nVersion := cc_nVersion outsBlock\<rparr> else outs);
          fClean = (length (cc_vout outs) = length (cc_vout outsBlock));
          fClean = (fClean \<and> CCoins_eq env outs outsBlock)
      in (fClean, CCoinsModifier_close hash (CCoins_Clear outs) view))"

definition restore_inputs ::
  "('g, 's) CompEnv \<Rightarrow> CTxIn list \<Rightarrow> ('g, 's) CTxInUndo list \<Rightarrow> bool \<times> ('g, 's) CoinsCache \<Rightarrow>
   (bool \<times> ('g, 's) CoinsCache) result" where
  "restore_inputs env vin vprevout =
     foldR (\<lambda>(txin, undo) (fClean, view).
              bindR (ApplyTxInUndo env undo (ti_prevout txin) view) (\<lambda>(ok, view). Inr (if ok then fClean else False, view)))
       (rev (zip vin vprevout))"

definition disconnect_tx ::
  "(bytes \<Rightarrow> uint256) \<Rightarrow> ('g, 's) CompEnv \<Rightarrow> int \<Rightarrow> nat \<Rightarrow> ('g, 's) CTransaction \<Rightarrow> ('g, 's) CTxInUndo list list \<Rightarrow>
   bool \<times> ('g, 's) CoinsCache \<Rightarrow> (bool \<times> ('g, 's) CoinsCache) option result" where
  "disconnect_tx Hash env nHeight i tx vtxundo = (\<lambda>(fClean, view).
     bindR (CTransaction_GetHash Hash env tx) (\<lambda>hash.
       let (ok, view) = disconnect_outputs env hash tx nHeight view; fClean = (fClean \<and> ok)
       in if i > 0 then
            let txundo = vtxundo ! (i - 1)
            in if length txundo \<noteq> length (tx_vin tx) then Inr None
               else bindR (restore_inputs env (tx_vin tx) txundo (fClean, view)) (\<lambda>r. Inr (Some r))
          else Inr (Some (fClean, view))))"

text \<open>\<^verbatim>\<open>DisconnectBlock\<close>, as far as the coins go, with the undo data already read from disk.\<close>

definition disconnect_coins ::
  "(bytes \<Rightarrow> uint256) \<Rightarrow> ('g, 's) CompEnv \<Rightarrow> int \<Rightarrow> ('g, 's) CTransaction list \<Rightarrow> ('g, 's) CTxInUndo list list \<Rightarrow>
   ('g, 's) CoinsCache \<Rightarrow> (bool \<times> ('g, 's) CoinsCache) option result" where
  "disconnect_coins Hash env nHeight vtx vtxundo view =
     (if length vtxundo + 1 \<noteq> length vtx then Inr None
      else foldR (\<lambda>(i, tx) r. case r of None \<Rightarrow> Inr None | Some st \<Rightarrow> disconnect_tx Hash env nHeight i tx vtxundo st)
             (rev (enumerate 0 vtx)) (Some (True, view)))"

section \<open>Undo data on disk\<close>

definition CTxInUndo_Serialize :: "('g, 's) CompEnv \<Rightarrow> ('g, 's) CTxInUndo \<Rightarrow> bytes result" where
  "CTxInUndo_Serialize env undo =
     bindR (CTxOutCompressor_Serialize env (un_txout undo)) (\<lambda>txout.
       Inr (WriteVarInt (un_nHeight undo * 2 + (if un_fCoinBase undo then 1 else 0)) @
            (if un_nHeight undo > 0 then WriteVarInt_int (un_nVersion undo) else []) @ txout))"

definition CTxInUndo_Unserialize :: "('g, 's) CompEnv \<Rightarrow> ('g, 's) CTxInUndo reader" where
  "CTxInUndo_Unserialize env s =
     bindR (ReadVarInt s) (\<lambda>(nCode :: u32, s).
     bindR (if nCode div 2 > 0 then ReadVarInt_int s else Inr (0, s)) (\<lambda>(nVersion, s).
     bindR (CTxOutCompressor_Unserialize env s) (\<lambda>(txout, s).
       Inr (\<lparr>un_txout = txout, un_fCoinBase = (nCode AND 1 \<noteq> 0), un_nHeight = nCode div 2, un_nVersion = nVersion\<rparr>, s))))"

end
