(* ===== verification/CoinsLaws.thy ===== *)
theory CoinsLaws
  imports Coins
begin

text \<open>
  The unspent outputs behind the caches: what a view answers is a map from transactions to their live coins, which every
  operation of a cache changes at one place and which flushing a cache hands to its parent. Connecting a block and
  disconnecting it again restores this map.
\<close>

section \<open>Vectors of outputs\<close>

text \<open>The output at a position, and the vectors that the code builds: spent outputs are the null output, and none is last.\<close>

definition out_at :: "('g, 's) CTxOut list \<Rightarrow> nat \<Rightarrow> ('g, 's) CTxOut option" where
  "out_at vout n = (if n < length vout \<and> \<not> CTxOut_IsNull (vout ! n) then Some (vout ! n) else None)"

definition no_null_last :: "('g, 's) CTxOut list \<Rightarrow> bool" where
  "no_null_last vout = (vout = [] \<or> \<not> CTxOut_IsNull (last vout))"

definition plain_nulls :: "('g, 's) CTxOut list \<Rightarrow> bool" where
  "plain_nulls vout = list_all (\<lambda>txout. CTxOut_IsNull txout \<longrightarrow> txout = CTxOut_null) vout"

lemma CTxOut_IsNull_null [simp]: "CTxOut_IsNull CTxOut_null"
  by (simp add: CTxOut_IsNull_def CTxOut_null_def)

lemma no_null_last_pop [simp]: "no_null_last (pop_nulls vout)"
  by (induction vout rule: pop_nulls.induct) (subst pop_nulls.simps, auto simp: no_null_last_def)

lemma pop_nulls_Nil [simp]: "pop_nulls [] = []"
  by (simp add: pop_nulls.simps)

lemma pop_nulls_id: "no_null_last vout \<Longrightarrow> pop_nulls vout = vout"
  by (subst pop_nulls.simps) (auto simp: no_null_last_def)

lemma pop_nulls_prefix: "\<exists>k. vout = pop_nulls vout @ k \<and> list_all CTxOut_IsNull k"
proof (induction vout rule: pop_nulls.induct)
  case (1 vout)
  show ?case
  proof (cases "length vout > 0 \<and> CTxOut_IsNull (last vout)")
    case True
    then obtain k where k: "butlast vout = pop_nulls (butlast vout) @ k" "list_all CTxOut_IsNull k" using 1 by blast
    have "vout = butlast vout @ [last vout]" using True by simp
    also have "\<dots> = pop_nulls (butlast vout) @ (k @ [last vout])" using k(1) by simp
    also have "pop_nulls (butlast vout) = pop_nulls vout" using True by (simp add: pop_nulls.simps [of vout])
    finally show ?thesis using k(2) True by auto
  next
    case False
    then have "pop_nulls vout = vout" by (subst pop_nulls.simps) (simp only: if_False)
    then show ?thesis by simp
  qed
qed

lemma out_at_append_nulls: "list_all CTxOut_IsNull k \<Longrightarrow> out_at (vout @ k) = out_at vout"
  by (auto simp: out_at_def nth_append list_all_length)

lemma out_at_pop [simp]: "out_at (pop_nulls vout) = out_at vout"
  using pop_nulls_prefix [of vout] by (metis out_at_append_nulls)

lemma plain_nulls_pop: "plain_nulls vout \<Longrightarrow> plain_nulls (pop_nulls vout)"
  using pop_nulls_prefix [of vout] by (metis plain_nulls_def list_all_append)

lemma all_null_iff: "list_all CTxOut_IsNull vout \<longleftrightarrow> out_at vout = (\<lambda>_. None)"
  by (auto simp: out_at_def list_all_length fun_eq_iff)

lemma out_at_length:
  assumes "no_null_last xs" "out_at xs = out_at ys"
  shows "length xs \<le> length ys"
proof (rule ccontr)
  assume less: "\<not> length xs \<le> length ys"
  then have "xs \<noteq> []" by auto
  then have "out_at xs (length xs - 1) = Some (last xs)" using assms(1) by (auto simp: out_at_def no_null_last_def last_conv_nth)
  moreover have "out_at ys (length xs - 1) = None" using less by (auto simp: out_at_def)
  ultimately show False using assms(2) by simp
qed

lemma out_at_ext:
  assumes "no_null_last xs" "no_null_last ys" "plain_nulls xs" "plain_nulls ys" "out_at xs = out_at ys"
  shows "xs = ys"
proof (rule nth_equalityI)
  show "length xs = length ys" using out_at_length [OF assms(1,5)] out_at_length [OF assms(2) assms(5) [symmetric]] by simp
  fix n assume n: "n < length xs"
  with \<open>length xs = length ys\<close> have "n < length ys" by simp
  with n assms(3-5) show "xs ! n = ys ! n"
    by (auto simp: plain_nulls_def list_all_length out_at_def fun_eq_iff split: if_splits) (metis option.inject option.distinct(1))
qed

lemma out_at_update_null: "out_at (vout[n := CTxOut_null]) = (out_at vout)(n := None)"
  by (auto simp: out_at_def fun_eq_iff nth_list_update)

lemma out_at_update: "n < length vout \<Longrightarrow> \<not> CTxOut_IsNull txout \<Longrightarrow> out_at (vout[n := txout]) = (out_at vout)(n := Some txout)"
  by (auto simp: out_at_def fun_eq_iff nth_list_update)

lemma plain_nulls_update: "plain_nulls vout \<Longrightarrow> CTxOut_IsNull txout \<longrightarrow> txout = CTxOut_null \<Longrightarrow> plain_nulls (vout[n := txout])"
  using set_update_subset_insert [of vout n txout] by (auto simp: plain_nulls_def list_all_iff)

lemma IsAvailable_iff: "CCoins_IsAvailable n c \<longleftrightarrow> out_at (cc_vout c) (unat n) \<noteq> None"
  by (simp add: CCoins_IsAvailable_def out_at_def)

lemma IsPruned_iff: "CCoins_IsPruned c \<longleftrightarrow> out_at (cc_vout c) = (\<lambda>_. None)"
  by (simp add: CCoins_IsPruned_def all_null_iff)

lemma Cleanup_fields [simp]:
  "cc_vout (CCoins_Cleanup c) = pop_nulls (cc_vout c)" "cc_nHeight (CCoins_Cleanup c) = cc_nHeight c"
  "cc_fCoinBase (CCoins_Cleanup c) = cc_fCoinBase c" "cc_fCoinStake (CCoins_Cleanup c) = cc_fCoinStake c"
  "cc_nVersion (CCoins_Cleanup c) = cc_nVersion c" "CCoins_IsPruned (CCoins_Cleanup c) = CCoins_IsPruned c"
  by (simp_all add: CCoins_Cleanup_def IsPruned_iff)

section \<open>Live coins\<close>

definition live :: "('g, 's) CCoins option \<Rightarrow> ('g, 's) CCoins option" where
  "live r = (case r of Some c \<Rightarrow> if CCoins_IsPruned c then None else Some c | None \<Rightarrow> None)"

definition unspent :: "('g, 's) CompEnv \<Rightarrow> ('g, 's) CoinsView \<Rightarrow> uint256 \<Rightarrow> ('g, 's) CCoins option" where
  "unspent env view txid = live (view_GetCoins env view txid)"

definition as_layer :: "('g, 's) CoinsCache \<Rightarrow> ('g, 's) CoinsView" where
  "as_layer v = CoinsLayer (cacheCoins v) (coins_base v)"

text \<open>
  What the flags of a cache promise: the parent has nothing live for a \<^verbatim>\<open>FRESH\<close> entry, and an entry that is not
  \<^verbatim>\<open>DIRTY\<close> is the parent's.
\<close>

definition entry_ok :: "('g, 's) CCoins option \<Rightarrow> ('g, 's) CCoinsCacheEntry \<Rightarrow> bool" where
  "entry_ok b e =
     ((ce_flags e AND FRESH \<noteq> 0 \<longrightarrow> live b = None) \<and> (ce_flags e AND DIRTY = 0 \<longrightarrow> b = Some (ce_coins e)))"

definition cache_ok :: "('g, 's) CompEnv \<Rightarrow> ('g, 's) CoinsCache \<Rightarrow> bool" where
  "cache_ok env v =
     (omap_ok (cacheCoins v) \<and>
      (\<forall>txid e. map_of (cacheCoins v) txid = Some e \<longrightarrow> entry_ok (view_GetCoins env (coins_base v) txid) e))"

lemma live_simps [simp]:
  "live None = None" "live (Some c) = (if CCoins_IsPruned c then None else Some c)"
  by (simp_all add: live_def)

lemma view_as_layer:
  "view_GetCoins env (as_layer v) txid =
     (case map_of (cacheCoins v) txid of Some e \<Rightarrow> Some (ce_coins e) | None \<Rightarrow> view_GetCoins env (coins_base v) txid)"
  by (simp add: as_layer_def cached_coins_def)

lemma view_layer_update:
  "view_GetCoins env (as_layer (v\<lparr>cacheCoins := m\<rparr>)) txid =
     (case map_of m txid of Some e \<Rightarrow> Some (ce_coins e) | None \<Rightarrow> view_GetCoins env (coins_base v) txid)"
  by (simp add: as_layer_def cached_coins_def)

lemma flag_bits [simp]:
  "(f OR DIRTY) AND DIRTY \<noteq> 0" "((f OR DIRTY) AND FRESH = 0) = (f AND FRESH = 0)" for f :: u8
proof -
  have "(f OR DIRTY) AND DIRTY = DIRTY" by (rule bit_word_eqI) (auto simp: bit_simps)
  then show "(f OR DIRTY) AND DIRTY \<noteq> 0" by simp
  have "(f OR DIRTY) AND FRESH = f AND FRESH" by (simp add: and.commute bit.conj_disj_distrib bit.conj_disj_distrib2)
  then show "((f OR DIRTY) AND FRESH = 0) = (f AND FRESH = 0)" by simp
qed

lemma cache_ok_put:
  assumes "cache_ok env v" "entry_ok (view_GetCoins env (coins_base v) txid) e"
  shows "cache_ok env (v\<lparr>cacheCoins := omap_put txid e (cacheCoins v)\<rparr>)"
  using assms by (simp add: cache_ok_def)

lemma cache_ok_erase: "cache_ok env v \<Longrightarrow> cache_ok env (v\<lparr>cacheCoins := omap_erase txid (cacheCoins v)\<rparr>)"
  by (simp add: cache_ok_def)

lemma FetchCoins_view:
  assumes "cache_ok env v" "FetchCoins env txid v = (it, v')"
  shows "map_option ce_coins it = view_GetCoins env (as_layer v) txid"
    "view_GetCoins env (as_layer v') = view_GetCoins env (as_layer v)" "cache_ok env v'" "coins_base v' = coins_base v"
proof -
  consider e where "map_of (cacheCoins v) txid = Some e" "it = Some e" "v' = v"
    | "map_of (cacheCoins v) txid = None" "view_GetCoins env (coins_base v) txid = None" "it = None" "v' = v"
    | tmp e where "map_of (cacheCoins v) txid = None" "view_GetCoins env (coins_base v) txid = Some tmp" "it = Some e"
        "e = \<lparr>ce_coins = tmp, ce_flags = (if CCoins_IsPruned tmp then FRESH else 0)\<rparr>"
        "v' = v\<lparr>cacheCoins := omap_put txid e (cacheCoins v)\<rparr>"
    using assms(2)
    by (cases "map_of (cacheCoins v) txid"; cases "view_GetCoins env (coins_base v) txid") (auto simp: FetchCoins_def Let_def)
  then have "map_option ce_coins it = view_GetCoins env (as_layer v) txid \<and>
    view_GetCoins env (as_layer v') = view_GetCoins env (as_layer v) \<and> cache_ok env v' \<and> coins_base v' = coins_base v"
  proof cases
    case (3 tmp e)
    then have "cache_ok env v'" using cache_ok_put [OF assms(1)] by (simp add: entry_ok_def)
    then show ?thesis using 3 by (simp add: view_as_layer fun_eq_iff split: option.split)
  qed (use assms(1) in \<open>simp_all add: view_as_layer\<close>)
  then show "map_option ce_coins it = view_GetCoins env (as_layer v) txid"
    "view_GetCoins env (as_layer v') = view_GetCoins env (as_layer v)" "cache_ok env v'" "coins_base v' = coins_base v"
    by simp_all
qed

lemma Uncache_view:
  assumes "cache_ok env v"
  shows "view_GetCoins env (as_layer (Uncache txid v)) = view_GetCoins env (as_layer v)"
    "cache_ok env (Uncache txid v)" "coins_base (Uncache txid v) = coins_base v"
proof -
  consider e where "map_of (cacheCoins v) txid = Some e" "ce_flags e = 0" "Uncache txid v = v\<lparr>cacheCoins := omap_erase txid (cacheCoins v)\<rparr>"
    | "Uncache txid v = v"
    by (cases "map_of (cacheCoins v) txid"; cases "ce_flags (the (map_of (cacheCoins v) txid)) = 0") (auto simp: Uncache_def)
  then have "view_GetCoins env (as_layer (Uncache txid v)) = view_GetCoins env (as_layer v) \<and>
    cache_ok env (Uncache txid v) \<and> coins_base (Uncache txid v) = coins_base v"
  proof cases
    case (1 e)
    then have "entry_ok (view_GetCoins env (coins_base v) txid) e" using assms by (simp add: cache_ok_def)
    then show ?thesis using 1 cache_ok_erase [OF assms] by (simp add: view_as_layer fun_eq_iff entry_ok_def split: option.split)
  qed (simp add: assms)
  then show "view_GetCoins env (as_layer (Uncache txid v)) = view_GetCoins env (as_layer v)"
    "cache_ok env (Uncache txid v)" "coins_base (Uncache txid v) = coins_base v" by simp_all
qed

text \<open>An entry is opened for a change: the cache has it, marked \<^verbatim>\<open>DIRTY\<close>, and is otherwise as before.\<close>

definition opened :: "('g, 's) CompEnv \<Rightarrow> uint256 \<Rightarrow> ('g, 's) CoinsCache \<Rightarrow> ('g, 's) CoinsCache \<Rightarrow> bool" where
  "opened env txid v v1 =
     (\<exists>e. cache_ok env v1 \<and> coins_base v1 = coins_base v \<and> map_of (cacheCoins v1) = (map_of (cacheCoins v))(txid \<mapsto> e) \<and>
       ce_flags e AND DIRTY \<noteq> 0)"

lemma opened_put:
  assumes "cache_ok env v" "ce_flags e AND FRESH \<noteq> 0 \<Longrightarrow> unspent env (coins_base v) txid = None" "ce_flags e AND DIRTY \<noteq> 0"
  shows "opened env txid v (v\<lparr>cacheCoins := omap_put txid e (cacheCoins v)\<rparr>)"
proof -
  have "entry_ok (view_GetCoins env (coins_base v) txid) e" using assms(2,3) by (simp add: entry_ok_def unspent_def)
  then show ?thesis using cache_ok_put [OF assms(1)] assms(3) by (auto simp: opened_def)
qed

lemma close_view:
  assumes "opened env txid v v1"
  shows "unspent env (as_layer (CCoinsModifier_close txid c v1)) =
      (unspent env (as_layer v))(txid := live (Some (CCoins_Cleanup c)))"
    "cache_ok env (CCoinsModifier_close txid c v1)" "coins_base (CCoinsModifier_close txid c v1) = coins_base v"
proof -
  obtain e where e: "cache_ok env v1" "coins_base v1 = coins_base v"
      "map_of (cacheCoins v1) = (map_of (cacheCoins v))(txid \<mapsto> e)" "ce_flags e AND DIRTY \<noteq> 0"
    using assms by (auto simp: opened_def)
  let ?e = "e\<lparr>ce_coins := CCoins_Cleanup c\<rparr>"
  let ?drop = "ce_flags e AND FRESH \<noteq> 0 \<and> CCoins_IsPruned c"
  have ok: "entry_ok (view_GetCoins env (coins_base v1) txid) e" using e(1,3) by (simp add: cache_ok_def)
  then have ok': "entry_ok (view_GetCoins env (coins_base v1) txid) ?e" using e(4) by (simp add: entry_ok_def)
  have close: "CCoinsModifier_close txid c v1 = v1\<lparr>cacheCoins := (if ?drop then omap_erase txid (cacheCoins v1)
      else omap_put txid ?e (cacheCoins v1))\<rparr>"
    using e(3) by (simp add: CCoinsModifier_close_def omap_get_def)
  show "coins_base (CCoinsModifier_close txid c v1) = coins_base v" using e(2) by (simp add: close)
  show "cache_ok env (CCoinsModifier_close txid c v1)"
    using cache_ok_put [OF e(1) ok'] cache_ok_erase [OF e(1)] by (simp add: close)
  have "unspent env (as_layer (CCoinsModifier_close txid c v1)) t =
      ((unspent env (as_layer v))(txid := live (Some (CCoins_Cleanup c)))) t" for t
    using ok e(2,3) by (cases ?drop; cases "t = txid") (simp_all add: close unspent_def view_as_layer entry_ok_def split: option.split)
  then show "unspent env (as_layer (CCoinsModifier_close txid c v1)) =
      (unspent env (as_layer v))(txid := live (Some (CCoins_Cleanup c)))" by (rule ext)
qed

lemma fresh_entry:
  "cache_ok env v \<Longrightarrow> map_of (cacheCoins v) txid = Some e \<Longrightarrow> ce_flags e AND FRESH \<noteq> 0 \<Longrightarrow>
   unspent env (coins_base v) txid = None"
  by (simp add: cache_ok_def entry_ok_def unspent_def)

lemma ModifyCoins_opened:
  assumes "cache_ok env v" "ModifyCoins env txid v = (c, v1)"
  shows "opened env txid v v1" "live (Some c) = unspent env (as_layer v) txid"
proof -
  define b where "b = view_GetCoins env (coins_base v) txid"
  define e where "e = (case map_of (cacheCoins v) txid of Some e \<Rightarrow> e | None \<Rightarrow>
     (case b of None \<Rightarrow> CCoinsCacheEntry_new\<lparr>ce_coins := CCoins_Clear CCoins_new, ce_flags := FRESH\<rparr>
      | Some c \<Rightarrow> CCoinsCacheEntry_new\<lparr>ce_coins := c, ce_flags := (if CCoins_IsPruned c then FRESH else 0)\<rparr>))"
  have c: "c = ce_coins e" and v1: "v1 = v\<lparr>cacheCoins := omap_put txid (e\<lparr>ce_flags := ce_flags e OR DIRTY\<rparr>) (cacheCoins v)\<rparr>"
    using assms(2) unfolding ModifyCoins_def Let_def b_def [symmetric] e_def [symmetric] by auto
  have "unspent env (coins_base v) txid = None" if "ce_flags e AND FRESH \<noteq> 0"
  proof (cases "map_of (cacheCoins v) txid")
    case None
    then show ?thesis using that by (cases b) (simp_all add: e_def b_def unspent_def CCoinsCacheEntry_new_def split: if_splits)
  next
    case (Some e')
    then show ?thesis using fresh_entry [OF assms(1) Some] that by (simp add: e_def)
  qed
  then show "opened env txid v v1" unfolding v1 by (intro opened_put assms(1)) simp_all
  show "live (Some c) = unspent env (as_layer v) txid"
    by (cases "map_of (cacheCoins v) txid"; cases b)
      (simp_all add: c e_def unspent_def view_as_layer b_def CCoins_Clear_def CCoins_IsPruned_def CCoinsCacheEntry_new_def)
qed

lemma ModifyNewCoins_opened:
  assumes "cache_ok env v" "ModifyNewCoins txid coinbase v = (c, v1)" "coinbase \<or> unspent env (coins_base v) txid = None"
  shows "opened env txid v v1" "c = CCoins_new"
proof -
  define e where "e = omap_get CCoinsCacheEntry_new txid (cacheCoins v)"
  let ?e = "e\<lparr>ce_coins := CCoins_Clear (ce_coins e), ce_flags := (if coinbase then ce_flags e else FRESH) OR DIRTY\<rparr>"
  have c: "c = CCoins_Clear (ce_coins e)" and v1: "v1 = v\<lparr>cacheCoins := omap_put txid ?e (cacheCoins v)\<rparr>"
    using assms(2) unfolding ModifyNewCoins_def Let_def e_def [symmetric] by (cases coinbase, auto)
  have "unspent env (coins_base v) txid = None" if "ce_flags ?e AND FRESH \<noteq> 0"
  proof (cases "map_of (cacheCoins v) txid")
    case None
    then show ?thesis using that assms(3) by (simp add: e_def omap_get_def CCoinsCacheEntry_new_def split: if_splits)
  next
    case (Some e')
    then show ?thesis using fresh_entry [OF assms(1) Some] that assms(3) by (simp add: e_def omap_get_def split: if_splits)
  qed
  then show "opened env txid v v1" unfolding v1 by (intro opened_put assms(1)) simp_all
  show "c = CCoins_new" by (simp add: c CCoins_Clear_def CCoins_new_def)
qed

section \<open>Flushing\<close>

text \<open>What becomes of the parent's entry when the child has the entry \<open>e\<close>.\<close>

definition merged :: "('g, 's) CCoinsCacheEntry \<Rightarrow> ('g, 's) CCoinsCacheEntry option \<Rightarrow> ('g, 's) CCoinsCacheEntry option" where
  "merged e r = map_of (batch_coin (0, e) (case r of None \<Rightarrow> [] | Some us \<Rightarrow> [(0, us)])) 0"

lemma map_of_batch_coin: "map_of (batch_coin (txid, e) m) k = (if k = txid then merged e (map_of m k) else map_of m k)"
  by (cases "map_of m txid") (auto simp: batch_coin_def merged_def)

lemma omap_ok_batch_coin: "omap_ok m \<Longrightarrow> omap_ok (batch_coin p m)"
  by (cases p) (simp add: batch_coin_def split: option.split)

lemma map_of_batch_coins:
  "distinct (map fst src) \<Longrightarrow>
   map_of (batch_coins src m) k = (case map_of src k of None \<Rightarrow> map_of m k | Some e \<Rightarrow> merged e (map_of m k))"
proof (induction src arbitrary: m)
  case (Cons p src)
  obtain txid e where p: "p = (txid, e)" by force
  have "map_of src txid = None" using Cons.prems by (simp add: p map_of_eq_None_iff)
  then show ?case using Cons.IH [of "batch_coin p m"] Cons.prems
    by (cases "k = txid") (simp_all add: batch_coins_def p map_of_batch_coin split: option.split)
qed (simp add: batch_coins_def)

lemma omap_ok_batch_coins: "omap_ok m \<Longrightarrow> omap_ok (batch_coins src m)"
  by (induction src arbitrary: m) (simp_all add: batch_coins_def omap_ok_batch_coin)

text \<open>The merged entry keeps the promise towards the grandparent, and the parent then answers as the child did.\<close>

lemma merged_ok:
  fixes e :: "('g, 's) CCoinsCacheEntry"
  assumes child: "entry_ok (case r of Some us \<Rightarrow> Some (ce_coins us) | None \<Rightarrow> b) e"
    and parent: "\<And>us. r = Some us \<Longrightarrow> entry_ok b us"
  shows "\<And>us. merged e r = Some us \<Longrightarrow> entry_ok b us"
    "live (case merged e r of Some us \<Rightarrow> Some (ce_coins us) | None \<Rightarrow> b) = live (Some (ce_coins e))"
proof -
  have "(\<forall>us. merged e r = Some us \<longrightarrow> entry_ok b us) \<and>
      live (case merged e r of Some us \<Rightarrow> Some (ce_coins us) | None \<Rightarrow> b) = live (Some (ce_coins e))"
  proof (cases r)
    case None
    then show ?thesis using child by (auto simp: merged_def batch_coin_def entry_ok_def)
  next
    case (Some us)
    then show ?thesis using child parent [OF Some] by (auto simp: merged_def batch_coin_def entry_ok_def)
  qed
  then show "\<And>us. merged e r = Some us \<Longrightarrow> entry_ok b us"
    "live (case merged e r of Some us \<Rightarrow> Some (ce_coins us) | None \<Rightarrow> b) = live (Some (ce_coins e))" by blast+
qed

lemma flush_to_cache:
  assumes "cache_ok env v" "coins_base v = as_layer p" "cache_ok env p"
  obtains p' where "Flush_coins env v = Inr (True, v\<lparr>cacheCoins := [], coins_base := as_layer p'\<rparr>)"
    "cache_ok env p'" "coins_base p' = coins_base p" "unspent env (as_layer p') = unspent env (as_layer v)"
proof
  let ?p = "p\<lparr>cacheCoins := batch_coins (cacheCoins v) (cacheCoins p)\<rparr>"
  have dist: "distinct (map fst (cacheCoins v))" using assms(1) by (simp add: cache_ok_def omap_ok_distinct)
  note at = map_of_batch_coins [OF dist, of "cacheCoins p"]
  let ?b = "view_GetCoins env (coins_base p)"
  have child: "entry_ok (case map_of (cacheCoins p) txid of Some us \<Rightarrow> Some (ce_coins us) | None \<Rightarrow> ?b txid) e"
    if "map_of (cacheCoins v) txid = Some e" for txid e
    using assms(1,2) that by (simp add: cache_ok_def view_as_layer)
  have parent: "entry_ok (?b txid) us" if "map_of (cacheCoins p) txid = Some us" for txid us
    using assms(3) that by (simp add: cache_ok_def)
  show "Flush_coins env v = Inr (True, v\<lparr>cacheCoins := [], coins_base := as_layer ?p\<rparr>)"
    by (simp add: Flush_coins_def assms(2) as_layer_def)
  have "entry_ok (?b txid) us" if "map_of (cacheCoins ?p) txid = Some us" for txid us
    using that merged_ok(1) [OF child parent, of txid] parent by (cases "map_of (cacheCoins v) txid") (simp_all add: at)
  then show "cache_ok env ?p" using assms(3) by (simp add: cache_ok_def omap_ok_batch_coins)
  have "unspent env (as_layer ?p) txid = unspent env (as_layer v) txid" for txid
    using merged_ok(2) [OF child parent, of txid]
    by (cases "map_of (cacheCoins v) txid") (simp_all only: unspent_def view_layer_update view_as_layer [of env v] view_as_layer [of env p] at assms(2) option.case)
  then show "unspent env (as_layer ?p) = unspent env (as_layer v)" by (rule ext)
qed simp

text \<open>
  The steps of a cache. A modifier may change the coins in any way; new coins that are not a coinbase's must be new to
  the parent.
\<close>

inductive coins_step :: "('g, 's) CompEnv \<Rightarrow> ('g, 's) CoinsCache \<Rightarrow> ('g, 's) CoinsCache \<Rightarrow> bool" for env where
  fetch: "FetchCoins env txid v = (it, v') \<Longrightarrow> coins_step env v v'"
| uncache: "coins_step env v (Uncache txid v)"
| modify: "ModifyCoins env txid v = (c, v1) \<Longrightarrow> coins_step env v (CCoinsModifier_close txid c' v1)"
| modify_new: "ModifyNewCoins txid coinbase v = (c, v1) \<Longrightarrow> coinbase \<or> unspent env (coins_base v) txid = None \<Longrightarrow>
    coins_step env v (CCoinsModifier_close txid c' v1)"

lemma coins_step_ok:
  "coins_step env v v' \<Longrightarrow> cache_ok env v \<Longrightarrow> cache_ok env v' \<and> coins_base v' = coins_base v"
proof (induction rule: coins_step.induct)
  case (fetch txid v it v')
  then show ?case using FetchCoins_view(3,4) by blast
next
  case (uncache v txid)
  then show ?case using Uncache_view(2,3) by blast
next
  case (modify txid v c v1 c')
  then show ?case using close_view(2,3) [OF ModifyCoins_opened(1)] by blast
next
  case (modify_new txid coinbase v c v1 c')
  then show ?case using close_view(2,3) [OF ModifyNewCoins_opened(1)] by blast
qed

lemma coins_steps_ok:
  "(coins_step env)\<^sup>*\<^sup>* v v' \<Longrightarrow> cache_ok env v \<Longrightarrow> cache_ok env v' \<and> coins_base v' = coins_base v"
  by (induction rule: rtranclp_induct) (auto dest: coins_step_ok)

text \<open>
  C35. Whatever is done with a cache over another one (fetching, uncaching, changing coins and adding the coins of a
  transaction the parent has none of, in any order),
  flushing it succeeds and the parent then has exactly the unspent coins that the cache showed, although only
  \<^verbatim>\<open>DIRTY\<close> entries are written and \<^verbatim>\<open>FRESH\<close> ones that are spent are dropped. The parent's own flags stay correct
  towards its parent, and \<^verbatim>\<open>GetCoins\<close> of the cache answers what the view shows.
\<close>

theorem flush_keeps_coins:
  assumes "cache_ok env p" "(coins_step env)\<^sup>*\<^sup>* \<lparr>cacheCoins = [], coins_base = as_layer p\<rparr> v"
  shows "(\<exists>p'. Flush_coins env v = Inr (True, \<lparr>cacheCoins = [], coins_base = as_layer p'\<rparr>) \<and> cache_ok env p' \<and>
      coins_base p' = coins_base p \<and> unspent env (as_layer p') = unspent env (as_layer v)) \<and>
    fst (GetCoins env txid v) = view_GetCoins env (as_layer v) txid"
proof -
  have "cache_ok env \<lparr>cacheCoins = [], coins_base = as_layer p\<rparr>" by (simp add: cache_ok_def)
  then have v: "cache_ok env v" "coins_base v = as_layer p" using coins_steps_ok [OF assms(2)] by simp_all
  obtain it v' where it: "FetchCoins env txid v = (it, v')" by force
  have "fst (GetCoins env txid v) = view_GetCoins env (as_layer v) txid"
    using FetchCoins_view(1) [OF v(1) it] by (simp add: GetCoins_def it)
  moreover have "v\<lparr>cacheCoins := [], coins_base := b\<rparr> = \<lparr>cacheCoins = [], coins_base = b\<rparr>" for b by (cases v) simp
  ultimately show ?thesis using flush_to_cache [OF v assms(1)] by metis
qed

text \<open>A cache with one unspent output of transaction 7.\<close>

definition sample_coins :: "(u8, u8) CCoins" where
  "sample_coins = \<lparr>cc_fCoinBase = False, cc_fCoinStake = True, cc_vout = [sample_txout], cc_nHeight = 3, cc_nVersion = 1\<rparr>"

definition sample_cache :: "(u8, u8) CoinsCache" where
  "sample_cache = \<lparr>cacheCoins = [(7, \<lparr>ce_coins = sample_coins, ce_flags = 3\<rparr>)], coins_base = CoinsBase\<rparr>"

lemma sample_live: "\<not> CCoins_IsPruned sample_coins"
  by (simp add: CCoins_IsPruned_def sample_coins_def sample_txout_def CTxOut_IsNull_def)

lemma sample_unspent: "unspent env (as_layer sample_cache) t = (if t = 7 then Some sample_coins else None)"
  by (simp add: unspent_def view_as_layer sample_cache_def sample_live)

lemma sample_cache_ok: "cache_ok env sample_cache"
  by (simp add: cache_ok_def sample_cache_def entry_ok_def omap_ok_def)

theorem flush_keeps_coins_witness:
  "\<exists>p'. Flush_coins sample_comp_env (CCoinsModifier_close 7 CCoins_new
        (snd (ModifyCoins sample_comp_env 7 \<lparr>cacheCoins = [], coins_base = as_layer sample_cache\<rparr>))) =
      Inr (True, \<lparr>cacheCoins = [], coins_base = as_layer p'\<rparr>) \<and>
    unspent sample_comp_env (as_layer sample_cache) 7 = Some sample_coins \<and> unspent sample_comp_env (as_layer p') 7 = None"
proof -
  let ?v = "\<lparr>cacheCoins = [], coins_base = as_layer sample_cache\<rparr>"
  obtain c v1 where c: "ModifyCoins sample_comp_env 7 ?v = (c, v1)" by force
  have "cache_ok sample_comp_env ?v" by (simp add: cache_ok_def)
  then have "unspent sample_comp_env (as_layer (CCoinsModifier_close 7 CCoins_new v1)) 7 = None"
    using close_view(1) [OF ModifyCoins_opened(1) [OF _ c], of CCoins_new] by (simp add: CCoins_new_def CCoins_IsPruned_def)
  moreover have "(coins_step sample_comp_env)\<^sup>*\<^sup>* ?v (CCoinsModifier_close 7 CCoins_new v1)"
    using coins_step.modify [OF c] by blast
  ultimately show ?thesis
    using flush_keeps_coins [OF sample_cache_ok, of sample_comp_env "CCoinsModifier_close 7 CCoins_new v1" 0]
    by (auto simp: c sample_unspent)
qed

section \<open>Spending an output and restoring it\<close>

definition forget_stake :: "('g, 's) CCoins \<Rightarrow> ('g, 's) CCoins" where
  "forget_stake c = c\<lparr>cc_fCoinStake := False\<rparr>"

definition same_coins :: "(uint256 \<Rightarrow> ('g, 's) CCoins option) \<Rightarrow> (uint256 \<Rightarrow> ('g, 's) CCoins option) \<Rightarrow> bool" where
  "same_coins U U' = (\<forall>t. map_option forget_stake (U t) = map_option forget_stake (U' t))"

definition good_vout :: "('g, 's) CTxOut list \<Rightarrow> bool" where
  "good_vout vout = (no_null_last vout \<and> plain_nulls vout \<and> length vout < 2 ^ 32)"

definition coins_good :: "('g, 's) CCoins \<Rightarrow> bool" where
  "coins_good c = (good_vout (cc_vout c) \<and> 0 < cc_nHeight c \<and> cc_nHeight c < 2 ^ 31)"

definition spent :: "('g, 's) CCoins \<Rightarrow> nat \<Rightarrow> ('g, 's) CCoins" where
  "spent c n = CCoins_Cleanup (c\<lparr>cc_vout := (cc_vout c)[n := CTxOut_null]\<rparr>)"

definition undo_for :: "('g, 's) CCoins \<Rightarrow> nat \<Rightarrow> ('g, 's) CTxInUndo" where
  "undo_for c n =
     (if cc_vout (spent c n) = []
      then \<lparr>un_txout = cc_vout c ! n, un_fCoinBase = cc_fCoinBase c, un_nHeight = word_of_int (cc_nHeight c),
             un_nVersion = cc_nVersion c\<rparr>
      else CTxInUndo_new (cc_vout c ! n))"

lemma forget_stake_eq:
  "forget_stake a = forget_stake b \<longleftrightarrow> cc_fCoinBase a = cc_fCoinBase b \<and> cc_vout a = cc_vout b \<and>
     cc_nHeight a = cc_nHeight b \<and> cc_nVersion a = cc_nVersion b"
  by (cases a; cases b) (simp add: forget_stake_def)

lemma Cleanup_Cleanup [simp]: "CCoins_Cleanup (CCoins_Cleanup c) = CCoins_Cleanup c"
  by (simp add: CCoins_Cleanup_def pop_nulls_id)

lemma length_pop_nulls: "length (pop_nulls vout) \<le> length vout"
  using pop_nulls_prefix [of vout] by (metis length_append le_add1)

lemma out_at_spent: "out_at (cc_vout (spent c n)) = (out_at (cc_vout c))(n := None)"
  by (simp add: spent_def out_at_update_null)

lemma coins_good_spent: "coins_good c \<Longrightarrow> coins_good (spent c n)"
  using length_pop_nulls [of "(cc_vout c)[n := CTxOut_null]"]
  by (simp add: coins_good_def good_vout_def spent_def plain_nulls_pop plain_nulls_update)

lemma empty_iff_pruned: "no_null_last (cc_vout c) \<Longrightarrow> cc_vout c = [] \<longleftrightarrow> CCoins_IsPruned c"
  by (cases "cc_vout c = []") (auto simp: CCoins_IsPruned_def no_null_last_def list_all_iff)

lemma spend_input_coins:
  assumes "cache_ok env v" "spend_input env txin (v, us) = Inr (v', us')"
  defines "t \<equiv> op_hash (ti_prevout txin)" and "n \<equiv> unat (op_n (ti_prevout txin))"
  obtains c where "unspent env (as_layer v) t = Some c" "out_at (cc_vout c) n \<noteq> None" "us' = us @ [undo_for c n]"
    "unspent env (as_layer v') = (unspent env (as_layer v))(t := live (Some (spent c n)))"
    "cache_ok env v'" "coins_base v' = coins_base v"
proof -
  obtain c v1 where c: "ModifyCoins env t v = (c, v1)" by force
  note op = ModifyCoins_opened [OF assms(1) c]
  have avail: "n < length (cc_vout c)" "\<not> CTxOut_IsNull (cc_vout c ! n)"
    using assms(2) c by (auto simp: spend_input_def Let_def t_def n_def split: if_splits)
  then have "CCoins_Spend (op_n (ti_prevout txin)) c = (True, spent c n)"
    by (simp add: CCoins_Spend_def spent_def n_def)
  then have "us' = us @ [undo_for c n]" "v' = CCoinsModifier_close t (spent c n) v1"
    using assms(2) c avail by (auto simp: spend_input_def Let_def undo_for_def CTxInUndo_new_def spent_def t_def n_def)
  moreover have "\<not> CCoins_IsPruned c" using avail by (auto simp: CCoins_IsPruned_def list_all_length)
  then have "unspent env (as_layer v) t = Some c" using op(2) by simp
  moreover have "out_at (cc_vout c) n \<noteq> None" using avail by (simp add: out_at_def)
  ultimately show ?thesis using that close_view [OF op(1), of "spent c n"] by (simp add: spent_def)
qed

lemma restored_vout:
  assumes "good_vout (cc_vout c)" "out_at (cc_vout c) n \<noteq> None" "plain_nulls vout"
    "out_at vout = (out_at (cc_vout c))(n := None)" "n < length vout"
  shows "pop_nulls (vout[n := cc_vout c ! n]) = cc_vout c"
proof (rule out_at_ext)
  have n: "\<not> CTxOut_IsNull (cc_vout c ! n)" "out_at (cc_vout c) n = Some (cc_vout c ! n)"
    using assms(2) by (auto simp: out_at_def split: if_splits)
  show "out_at (pop_nulls (vout[n := cc_vout c ! n])) = out_at (cc_vout c)"
    using out_at_update [OF assms(5) n(1)] assms(4) n(2) by auto
  show "plain_nulls (pop_nulls (vout[n := cc_vout c ! n]))"
    using assms(3) n(1) by (intro plain_nulls_pop plain_nulls_update) simp_all
qed (use assms(1) in \<open>simp_all add: good_vout_def\<close>)

lemma ApplyTxInUndo_coins:
  assumes "cache_ok env w" "coins_good c" "out_at (cc_vout c) (unat n) \<noteq> None"
    "map_option forget_stake (unspent env (as_layer w) t) = map_option forget_stake (live (Some (spent c (unat n))))"
  obtains w' c' where "ApplyTxInUndo env (undo_for c (unat n)) \<lparr>op_hash = t, op_n = n\<rparr> w = Inr (True, w')"
    "cache_ok env w'" "coins_base w' = coins_base w" "forget_stake c' = forget_stake c" "\<not> CCoins_IsPruned c'"
    "unspent env (as_layer w') = (unspent env (as_layer w))(t := Some c')"
proof -
  obtain d w1 where d: "ModifyCoins env t w = (d, w1)" by force
  note op = ModifyCoins_opened [OF assms(1) d]
  have good: "good_vout (cc_vout c)" "plain_nulls (cc_vout c)" using assms(2) by (simp_all add: coins_good_def good_vout_def)
  have n: "unat n < length (cc_vout c)" using assms(3) by (auto simp: out_at_def split: if_splits)
  then have "unat n + 1 < 2 ^ 32" using assms(2) by (simp add: coins_good_def good_vout_def)
  then have size: "unat (n + 1) = unat n + 1" by (simp add: unat_word_ariths)
  have pruned: "CCoins_IsPruned (spent c (unat n)) \<longleftrightarrow> cc_vout (spent c (unat n)) = []"
    by (rule empty_iff_pruned [symmetric]) (simp add: spent_def)
  define final where "final = (cc_vout (spent c (unat n)) = [])"
  define d' where "d' = (if final then (CCoins_Clear d)\<lparr>cc_fCoinBase := cc_fCoinBase c, cc_nHeight := cc_nHeight c,
      cc_nVersion := cc_nVersion c\<rparr> else d)"
  have sint: "sint (word_of_int (cc_nHeight c) :: u32) = cc_nHeight c"
    using assms(2) by (simp add: coins_good_def sint_sbintrunc' signed_take_bit_int_eq_self)
  then have "(word_of_int (cc_nHeight c) :: u32) \<noteq> 0" using assms(2) by (auto simp: coins_good_def)
  then have h: "un_nHeight (undo_for c (unat n)) \<noteq> 0 \<longleftrightarrow> final"
    by (simp add: undo_for_def final_def CTxInUndo_new_def)
  have dp: "CCoins_IsPruned d \<longleftrightarrow> final"
    using op(2) assms(4) pruned by (cases "CCoins_IsPruned d"; cases final) (simp_all add: final_def)
  have fields: "cc_fCoinBase d' = cc_fCoinBase c \<and> cc_nHeight d' = cc_nHeight c \<and> cc_nVersion d' = cc_nVersion c \<and>
    plain_nulls (cc_vout d') \<and> out_at (cc_vout d') = (out_at (cc_vout c))(unat n := None)"
  proof (cases final)
    case True
    then have "(out_at (cc_vout c))(unat n := None) = (\<lambda>_. None)"
      using pruned out_at_spent [of c "unat n"] by (simp add: final_def IsPruned_iff)
    then show ?thesis using True by (simp add: d'_def CCoins_Clear_def plain_nulls_def out_at_def fun_eq_iff)
  next
    case False
    then have "forget_stake d = forget_stake (spent c (unat n))" using op(2) [symmetric] assms(4) pruned dp by (simp add: final_def)
    then have "cc_vout d = cc_vout (spent c (unat n))" "cc_fCoinBase d = cc_fCoinBase c" "cc_nHeight d = cc_nHeight c"
        "cc_nVersion d = cc_nVersion c"
      by (simp_all add: forget_stake_eq spent_def)
    then show ?thesis using False good(2) out_at_spent [of c "unat n"]
      by (simp add: d'_def spent_def plain_nulls_pop plain_nulls_update)
  qed
  define vout where "vout = (if length (cc_vout d') < unat n + 1
      then cc_vout d' @ replicate (unat n + 1 - length (cc_vout d')) CTxOut_null else cc_vout d')"
  have vout: "unat n < length vout" "plain_nulls vout" "out_at vout = (out_at (cc_vout c))(unat n := None)"
    using fields by (auto simp: vout_def out_at_append_nulls list_all_iff plain_nulls_def)
  define c' where "c' = CCoins_Cleanup (d'\<lparr>cc_vout := vout[unat n := cc_vout c ! unat n]\<rparr>)"
  have vout': "cc_vout c' = cc_vout c" using restored_vout [OF good(1) assms(3) vout(2,3,1)] by (simp add: c'_def)
  have c': "forget_stake c' = forget_stake c"
    using fields vout' by (simp add: forget_stake_eq c'_def)
  have live: "\<not> CCoins_IsPruned c'" using assms(3) vout' by (auto simp: IsPruned_iff)
  have "\<not> CCoins_IsAvailable n d'" using fields by (simp add: IsAvailable_iff)
  moreover have "un_txout (undo_for c (unat n)) = cc_vout c ! unat n" by (simp add: undo_for_def CTxInUndo_new_def)
  moreover have "d' = (if un_nHeight (undo_for c (unat n)) \<noteq> 0 then (CCoins_Clear d)\<lparr>cc_fCoinBase := un_fCoinBase (undo_for c (unat n)),
      cc_nHeight := sint (un_nHeight (undo_for c (unat n))), cc_nVersion := un_nVersion (undo_for c (unat n))\<rparr> else d)"
    unfolding h by (simp add: d'_def undo_for_def final_def sint)
  ultimately have "ApplyTxInUndo env (undo_for c (unat n)) \<lparr>op_hash = t, op_n = n\<rparr> w = Inr (True,
      CCoinsModifier_close t (d'\<lparr>cc_vout := vout[unat n := cc_vout c ! unat n]\<rparr>) w1)"
    using h dp vout(1) unfolding ApplyTxInUndo_def by (simp add: d Let_def size vout_def)
  then show ?thesis using that close_view [OF op(1), of "d'\<lparr>cc_vout := vout[unat n := cc_vout c ! unat n]\<rparr>"] c' live
    by (simp add: c'_def)
qed

text \<open>No assertion fails while the inputs are spent when every one of them is available and none is named twice.\<close>

definition available :: "('g, 's) CompEnv \<Rightarrow> ('g, 's) CoinsCache \<Rightarrow> CTxIn \<Rightarrow> bool" where
  "available env v txin =
     (case unspent env (as_layer v) (op_hash (ti_prevout txin)) of
        Some c \<Rightarrow> CCoins_IsAvailable (op_n (ti_prevout txin)) c | None \<Rightarrow> False)"

lemma spend_input_returns:
  assumes "cache_ok env v" "available env v txin"
  shows "\<exists>v' us'. spend_input env txin (v, us) = Inr (v', us')"
proof -
  obtain c v1 where c: "ModifyCoins env (op_hash (ti_prevout txin)) v = (c, v1)" by force
  have "CCoins_IsAvailable (op_n (ti_prevout txin)) c"
    using ModifyCoins_opened(2) [OF assms(1) c, symmetric] assms(2) by (simp add: available_def split: if_splits)
  then show ?thesis using c by (simp add: spend_input_def Let_def CCoins_IsAvailable_def)
qed

lemma spend_inputs_return:
  assumes "cache_ok env v" "list_all (available env v) vin" "distinct (map ti_prevout vin)"
  shows "\<exists>v' us'. foldR (spend_input env) vin (v, us) = Inr (v', us') \<and> cache_ok env v'"
  using assms
proof (induction vin arbitrary: v us)
  case (Cons txin vin)
  obtain v1 us1 where one: "spend_input env txin (v, us) = Inr (v1, us1)"
    using spend_input_returns [OF Cons.prems(1)] Cons.prems(2) by fastforce
  let ?t = "op_hash (ti_prevout txin)" and ?n = "unat (op_n (ti_prevout txin))"
  obtain c where c: "unspent env (as_layer v) ?t = Some c" "cache_ok env v1"
      "unspent env (as_layer v1) = (unspent env (as_layer v))(?t := live (Some (spent c ?n)))"
    using spend_input_coins [OF Cons.prems(1) one] by blast
  have "available env v1 txin'" if "txin' \<in> set vin" for txin'
  proof -
    have av: "available env v txin'" using Cons.prems(2) that by (simp add: list_all_iff)
    have "ti_prevout txin' \<noteq> ti_prevout txin" using Cons.prems(3) imageI [OF that, of ti_prevout] by auto
    then have "op_hash (ti_prevout txin') \<noteq> ?t \<or> unat (op_n (ti_prevout txin')) \<noteq> ?n"
      by (cases "ti_prevout txin"; cases "ti_prevout txin'") (auto simp: word_unat_eq_iff)
    then show ?thesis
    proof
      assume "op_hash (ti_prevout txin') \<noteq> ?t"
      then show ?thesis using av by (simp add: available_def c(3))
    next
      assume n: "unat (op_n (ti_prevout txin')) \<noteq> ?n"
      then have "op_hash (ti_prevout txin') = ?t \<Longrightarrow> out_at (cc_vout (spent c ?n)) (unat (op_n (ti_prevout txin'))) \<noteq> None"
        using av c(1) by (simp add: available_def IsAvailable_iff out_at_spent)
      then show ?thesis using av by (auto simp: available_def c(3) IsPruned_iff IsAvailable_iff)
    qed
  qed
  then show ?case using Cons.IH [OF c(2), of us1] Cons.prems(3) one by (simp add: list_all_iff)
qed auto

lemma UpdateCoins_returns:
  assumes "cache_ok env v" "CTransaction_IsCoinBase tx \<or> list_all (available env v) (tx_vin tx) \<and> distinct (map ti_prevout (tx_vin tx))"
    "CTransaction_GetHash Hash env tx = Inr t"
  shows "\<exists>v' undos. UpdateCoins Hash env tx h v = Inr (v', undos)"
  using spend_inputs_return [OF assms(1), of "tx_vin tx" "[]"] assms(2,3)
  by (auto simp: UpdateCoins_def Let_def case_prod_beta)

definition all_good :: "('g, 's) CompEnv \<Rightarrow> ('g, 's) CoinsCache \<Rightarrow> bool" where
  "all_good env v = (cache_ok env v \<and> (\<forall>t c. unspent env (as_layer v) t = Some c \<longrightarrow> coins_good c))"

lemma all_goodD: "all_good env v \<Longrightarrow> cache_ok env v" "all_good env v \<Longrightarrow> unspent env (as_layer v) t = Some c \<Longrightarrow> coins_good c"
  by (simp_all add: all_good_def)

lemma same_coins_upd:
  "same_coins U V \<Longrightarrow> map_option forget_stake x = map_option forget_stake (V' t) \<Longrightarrow> (\<And>t'. t' \<noteq> t \<Longrightarrow> V' t' = V t') \<Longrightarrow>
   same_coins (U(t := x)) V'"
  by (auto simp: same_coins_def)

text \<open>\<open>undoes env undo v w\<close>: from any cache with the coins of \<open>w\<close>, \<open>undo\<close> succeeds cleanly and restores the coins of \<open>v\<close>.\<close>

definition undoes ::
  "('g, 's) CompEnv \<Rightarrow> (bool \<times> ('g, 's) CoinsCache \<Rightarrow> (bool \<times> ('g, 's) CoinsCache) result) \<Rightarrow>
   ('g, 's) CoinsCache \<Rightarrow> ('g, 's) CoinsCache \<Rightarrow> bool" where
  "undoes env undo v v' =
     (\<forall>w. cache_ok env w \<and> same_coins (unspent env (as_layer w)) (unspent env (as_layer v')) \<longrightarrow>
        (\<exists>w'. undo (True, w) = Inr (True, w') \<and> cache_ok env w' \<and> coins_base w' = coins_base w \<and>
              same_coins (unspent env (as_layer w')) (unspent env (as_layer v))))"

lemma undoes_trans:
  assumes "undoes env f u v" "undoes env g v w"
  shows "undoes env (\<lambda>s. bindR (g s) f) u w"
  unfolding undoes_def
proof (intro allI impI, elim conjE)
  fix x assume x: "cache_ok env x" "same_coins (unspent env (as_layer x)) (unspent env (as_layer w))"
  then obtain y where y: "g (True, x) = Inr (True, y)" "cache_ok env y" "coins_base y = coins_base x"
      "same_coins (unspent env (as_layer y)) (unspent env (as_layer v))"
    using assms(2) by (auto simp: undoes_def)
  then obtain z where "f (True, y) = Inr (True, z)" "cache_ok env z" "coins_base z = coins_base y"
      "same_coins (unspent env (as_layer z)) (unspent env (as_layer u))"
    using assms(1) by (auto simp: undoes_def)
  then show "\<exists>w'. bindR (g (True, x)) f = Inr (True, w') \<and> cache_ok env w' \<and> coins_base w' = coins_base x \<and>
      same_coins (unspent env (as_layer w')) (unspent env (as_layer u))" using y by simp
qed

lemma spend_input_undone:
  assumes "all_good env v" "spend_input env txin (v, us) = Inr (v', us')"
  obtains undo where "us' = us @ [undo]" "all_good env v'" "coins_base v' = coins_base v"
    "\<And>t. unspent env (as_layer v) t = None \<Longrightarrow> unspent env (as_layer v') t = None"
    "undoes env (restore_inputs env [txin] [undo]) v v'"
proof -
  let ?t = "op_hash (ti_prevout txin)" and ?n = "op_n (ti_prevout txin)"
  obtain c where c: "unspent env (as_layer v) ?t = Some c" "out_at (cc_vout c) (unat ?n) \<noteq> None" "us' = us @ [undo_for c (unat ?n)]"
      "unspent env (as_layer v') = (unspent env (as_layer v))(?t := live (Some (spent c (unat ?n))))"
      "cache_ok env v'" "coins_base v' = coins_base v"
    using spend_input_coins [OF all_goodD(1) [OF assms(1)] assms(2)] by blast
  have good: "coins_good c" using all_goodD(2) [OF assms(1) c(1)] .
  have prevout: "ti_prevout txin = \<lparr>op_hash = ?t, op_n = ?n\<rparr>" by simp
  have "undoes env (restore_inputs env [txin] [undo_for c (unat ?n)]) v v'"
    unfolding undoes_def
  proof (intro allI impI, elim conjE)
    fix w assume w: "cache_ok env w" "same_coins (unspent env (as_layer w)) (unspent env (as_layer v'))"
    then have "map_option forget_stake (unspent env (as_layer w) ?t) = map_option forget_stake (live (Some (spent c (unat ?n))))"
      by (simp add: same_coins_def c(4) del: live_simps)
    then obtain w' c' where w': "ApplyTxInUndo env (undo_for c (unat ?n)) (ti_prevout txin) w = Inr (True, w')"
        "cache_ok env w'" "coins_base w' = coins_base w" "forget_stake c' = forget_stake c" "\<not> CCoins_IsPruned c'"
        "unspent env (as_layer w') = (unspent env (as_layer w))(?t := Some c')"
      using ApplyTxInUndo_coins [OF w(1) good c(2)] prevout by metis
    have "same_coins (unspent env (as_layer w')) (unspent env (as_layer v))"
      unfolding w'(6) by (rule same_coins_upd [OF w(2)]) (simp_all add: c(1,4) w'(4))
    then show "\<exists>w'. restore_inputs env [txin] [undo_for c (unat ?n)] (True, w) = Inr (True, w') \<and> cache_ok env w' \<and>
        coins_base w' = coins_base w \<and> same_coins (unspent env (as_layer w')) (unspent env (as_layer v))"
      using w' by (simp add: restore_inputs_def)
  qed
  moreover have "all_good env v'"
    using c(4,5) all_goodD(2) [OF assms(1)] coins_good_spent [OF good] by (auto simp: all_good_def split: if_splits)
  moreover have "unspent env (as_layer v') t = None" if "unspent env (as_layer v) t = None" for t
    using that c(1,4) by auto
  ultimately show ?thesis using that [of "undo_for c (unat ?n)"] c(3,6) by blast
qed

lemma restore_inputs_Cons:
  "length vin = length us \<Longrightarrow>
   restore_inputs env (txin # vin) (u # us) s = bindR (restore_inputs env vin us s) (restore_inputs env [txin] [u])"
  by (simp add: restore_inputs_def foldR_append)

lemma spend_inputs_undone:
  assumes "all_good env v" "foldR (spend_input env) vin (v, us) = Inr (v', us')"
  obtains undos where "us' = us @ undos" "length undos = length vin" "all_good env v'" "coins_base v' = coins_base v"
    "\<And>t. unspent env (as_layer v) t = None \<Longrightarrow> unspent env (as_layer v') t = None"
    "undoes env (restore_inputs env vin undos) v v'"
  using assms
proof (induction vin arbitrary: v us thesis)
  case Nil
  then show ?case by (simp add: undoes_def restore_inputs_def)
next
  case (Cons txin vin)
  obtain v1 us1 where one: "spend_input env txin (v, us) = Inr (v1, us1)" and rest: "foldR (spend_input env) vin (v1, us1) = Inr (v', us')"
    using Cons.prems(3) by (auto simp: bindR_eq_Inr)
  obtain undo where undo: "us1 = us @ [undo]" "all_good env v1" "coins_base v1 = coins_base v"
      "\<And>t. unspent env (as_layer v) t = None \<Longrightarrow> unspent env (as_layer v1) t = None"
      "undoes env (restore_inputs env [txin] [undo]) v v1"
    using spend_input_undone [OF Cons.prems(2) one] by metis
  obtain undos where undos: "us' = us1 @ undos" "length undos = length vin" "all_good env v'" "coins_base v' = coins_base v1"
      "\<And>t. unspent env (as_layer v1) t = None \<Longrightarrow> unspent env (as_layer v') t = None"
      "undoes env (restore_inputs env vin undos) v1 v'"
    using Cons.IH [OF _ undo(2) rest] by metis
  have "undoes env (restore_inputs env (txin # vin) (undo # undos)) v v'"
    using undoes_trans [OF undo(5) undos(6)] restore_inputs_Cons [of vin undos env txin undo] undos(2) by (simp add: fun_eq_iff undoes_def)
  then show ?case using Cons.prems(1) [of "undo # undos"] undo undos by simp
qed

section \<open>Connecting and disconnecting blocks\<close>

text \<open>The outputs that a block may create: none is null already (\<^verbatim>\<open>CheckTransaction\<close> rejects the negative amount).\<close>

definition tx_ok :: "('g, 's) CTransaction \<Rightarrow> bool" where
  "tx_ok tx = (list_all (\<lambda>txout. \<not> CTxOut_IsNull txout) (tx_vout tx) \<and> length (tx_vout tx) < 2 ^ 32)"

definition clear_out :: "('g, 's, 'z) SerEnv_scheme \<Rightarrow> ('g, 's) CTxOut \<Rightarrow> ('g, 's) CTxOut" where
  "clear_out env txout =
     (if \<not> CTxOut_HasRangeProof env txout \<and> IsUnspendable (to_scriptPubKey txout) then CTxOut_null else txout)"

lemma ClearUnspendable_eq: "CCoins_ClearUnspendable env c = CCoins_Cleanup (c\<lparr>cc_vout := map (clear_out env) (cc_vout c)\<rparr>)"
  by (simp add: CCoins_ClearUnspendable_def clear_out_def [abs_def])

lemma clear_out_simps [simp]: "clear_out env (clear_out env x) = clear_out env x" "CTxOut_IsNull x \<Longrightarrow> clear_out env x = x"
  by (simp_all add: clear_out_def CTxOut_null_def CTxOut_IsNull_def IsUnspendable_def)

lemma set_pop_nulls: "set (pop_nulls vout) \<subseteq> set vout"
  using pop_nulls_prefix [of vout] by (metis set_append sup_ge1)

lemma ClearUnspendable_id:
  assumes "no_null_last (cc_vout c)" "\<And>x. x \<in> set (cc_vout c) \<Longrightarrow> clear_out env x = x"
  shows "CCoins_ClearUnspendable env c = c"
proof -
  have "map (clear_out env) (cc_vout c) = cc_vout c" using assms(2) by (simp add: map_idI)
  then show ?thesis using pop_nulls_id [OF assms(1)]
    by (simp add: ClearUnspendable_eq CCoins_Cleanup_def)
qed

lemma FromTx_vout:
  "cc_vout (CCoins_FromTx env tx h c) = pop_nulls (map (clear_out env) (tx_vout tx))" "cc_nHeight (CCoins_FromTx env tx h c) = h"
  by (simp_all add: CCoins_FromTx_def ClearUnspendable_eq)

lemma FromTx_good:
  assumes "tx_ok tx" "0 < h" "h < 2 ^ 31"
  shows "coins_good (CCoins_FromTx env tx h c)" "CCoins_ClearUnspendable env (CCoins_FromTx env tx h c) = CCoins_FromTx env tx h c"
proof -
  have "plain_nulls (map (clear_out env) (tx_vout tx))"
    using assms(1) by (auto simp: plain_nulls_def tx_ok_def list_all_iff clear_out_def)
  then show "coins_good (CCoins_FromTx env tx h c)"
    using assms length_pop_nulls [of "map (clear_out env) (tx_vout tx)"]
    by (simp add: coins_good_def good_vout_def FromTx_vout plain_nulls_pop tx_ok_def)
  show "CCoins_ClearUnspendable env (CCoins_FromTx env tx h c) = CCoins_FromTx env tx h c"
    using set_pop_nulls [of "map (clear_out env) (tx_vout tx)"] by (intro ClearUnspendable_id) (auto simp: FromTx_vout)
qed

lemma disconnect_outputs_coins:
  assumes "cache_ok env w" "tx_ok tx" "0 < h" "h < 2 ^ 31"
    "map_option forget_stake (unspent env (as_layer w) t) = map_option forget_stake (live (Some (CCoins_FromTx env tx h CCoins_new)))"
  obtains w' where "disconnect_outputs env t tx h w = (True, w')" "cache_ok env w'" "coins_base w' = coins_base w"
    "unspent env (as_layer w') = (unspent env (as_layer w))(t := None)"
proof -
  define f where "f = CCoins_FromTx env tx h CCoins_new"
  note good = FromTx_good [OF assms(2-4), of env CCoins_new, folded f_def]
  obtain d w1 where d: "ModifyCoins env t w = (d, w1)" by force
  note op = ModifyCoins_opened [OF assms(1) d]
  define o1 where "o1 = CCoins_ClearUnspendable env d"
  define o2 where "o2 = (if cc_nVersion f < 0 then o1\<lparr>cc_nVersion := cc_nVersion f\<rparr> else o1)"
  have vout2: "cc_vout o2 = cc_vout o1" by (simp add: o2_def)
  have pf: "CCoins_IsPruned f \<longleftrightarrow> cc_vout f = []"
    using empty_iff_pruned [of f] good(1) by (auto simp: coins_good_def good_vout_def)
  have "length (cc_vout o2) = length (cc_vout f) \<and> CCoins_eq env o2 f"
  proof (cases "CCoins_IsPruned f")
    case True
    then have "list_all CTxOut_IsNull (cc_vout d)" using op(2) assms(5) by (simp add: f_def CCoins_IsPruned_def split: if_splits)
    then have "map (clear_out env) (cc_vout d) = cc_vout d" "pop_nulls (cc_vout d) = []"
      using empty_iff_pruned [of "CCoins_Cleanup d"] by (auto simp: list_all_iff intro!: map_idI simp: CCoins_IsPruned_def [of d])
    then have "cc_vout o1 = []" by (simp add: o1_def ClearUnspendable_eq)
    then show ?thesis using True pf vout2 by (simp add: CCoins_eq_def CCoins_IsPruned_def)
  next
    case False
    then have "forget_stake d = forget_stake f" using op(2) [symmetric] assms(5) by (simp add: f_def [symmetric] split: if_splits)
    then have df: "cc_vout d = cc_vout f" "cc_fCoinBase d = cc_fCoinBase f" "cc_nHeight d = cc_nHeight f" "cc_nVersion d = cc_nVersion f"
      by (simp_all add: forget_stake_eq)
    have "CCoins_ClearUnspendable env d = d"
      using df(1) set_pop_nulls [of "map (clear_out env) (tx_vout tx)"]
      by (intro ClearUnspendable_id) (auto simp: f_def FromTx_vout)
    then have "o2 = d" using df(4) by (simp add: o2_def o1_def)
    then show ?thesis using df by (simp add: CCoins_eq_def list_all2_refl CTxOut_eq_def)
  qed
  then have "disconnect_outputs env t tx h w = (True, CCoinsModifier_close t (CCoins_Clear o2) w1)"
    unfolding disconnect_outputs_def Let_def d prod.case f_def [symmetric] o1_def [symmetric] o2_def [symmetric] by simp
  moreover have "CCoins_IsPruned (CCoins_Cleanup (CCoins_Clear o2))" 
    by (simp add: CCoins_IsPruned_def CCoins_Clear_def pop_nulls_id no_null_last_def)
  ultimately show ?thesis using that close_view [OF op(1), of "CCoins_Clear o2"] by simp
qed

lemma UpdateCoins_split:
  assumes "UpdateCoins Hash env tx h v = Inr (v', undos)" "CTransaction_GetHash Hash env tx = Inr t"
  obtains v1 where
    "(if \<not> CTransaction_IsCoinBase tx then foldR (spend_input env) (tx_vin tx) (v, []) else Inr (v, [])) = Inr (v1, undos)"
    "cache_ok env v1 \<Longrightarrow> CTransaction_IsCoinBase tx \<or> unspent env (coins_base v1) t = None \<Longrightarrow>
       unspent env (as_layer v') = (unspent env (as_layer v1))(t := live (Some (CCoins_FromTx env tx h CCoins_new))) \<and>
       cache_ok env v' \<and> coins_base v' = coins_base v1"
proof -
  let ?cb = "CTransaction_IsCoinBase tx" and ?f = "CCoins_FromTx env tx h CCoins_new"
  obtain v1 where v1: "(if \<not> ?cb then foldR (spend_input env) (tx_vin tx) (v, []) else Inr (v, [])) = Inr (v1, undos)"
      "v' = CCoinsModifier_close t (CCoins_FromTx env tx h (fst (ModifyNewCoins t ?cb v1))) (snd (ModifyNewCoins t ?cb v1))"
    using assms by (auto simp: UpdateCoins_def bindR_eq_Inr Let_def case_prod_beta simp del: if_split)
  obtain c v2 where c: "ModifyNewCoins t ?cb v1 = (c, v2)" by force
  have f: "CCoins_Cleanup ?f = ?f" by (simp add: CCoins_FromTx_def ClearUnspendable_eq)
  show ?thesis
  proof (rule that [OF v1(1)])
    assume "cache_ok env v1" "?cb \<or> unspent env (coins_base v1) t = None"
    note op = ModifyNewCoins_opened [OF this(1) c this(2)]
    show "unspent env (as_layer v') = (unspent env (as_layer v1))(t := live (Some ?f)) \<and> cache_ok env v' \<and>
        coins_base v' = coins_base v1"
      using close_view [OF op(1), of ?f] v1(2) c op(2) f by simp
  qed
qed

text \<open>The abstract state: the set of unspent outputs, by transaction and position.\<close>

definition utxo :: "('g, 's) CompEnv \<Rightarrow> ('g, 's) CoinsView \<Rightarrow> uint256 \<times> nat \<Rightarrow> ('g, 's) CTxOut option" where
  "utxo env view = (\<lambda>(t, n). case unspent env view t of Some c \<Rightarrow> out_at (cc_vout c) n | None \<Rightarrow> None)"

definition spends :: "CTxIn \<Rightarrow> uint256 \<times> nat" where
  "spends txin = (op_hash (ti_prevout txin), unat (op_n (ti_prevout txin)))"

lemma out_at_live: "(case live (Some c) of Some c \<Rightarrow> out_at (cc_vout c) n | None \<Rightarrow> None) = out_at (cc_vout c) n"
  by (simp add: IsPruned_iff)

lemma available_iff: "available env v txin \<longleftrightarrow> utxo env (as_layer v) (spends txin) \<noteq> None"
  by (simp add: available_def utxo_def spends_def IsAvailable_iff split: option.split)

lemma spend_input_utxo:
  assumes "cache_ok env v" "spend_input env txin (v, us) = Inr (v', us')"
  shows "utxo env (as_layer v') = (utxo env (as_layer v))(spends txin := None)" "cache_ok env v'" "coins_base v' = coins_base v"
    "unspent env (as_layer v) t = None \<Longrightarrow> unspent env (as_layer v') t = None"
proof -
  obtain c where c: "unspent env (as_layer v) (op_hash (ti_prevout txin)) = Some c"
      "unspent env (as_layer v') =
        (unspent env (as_layer v))(op_hash (ti_prevout txin) := live (Some (spent c (unat (op_n (ti_prevout txin))))))"
      "cache_ok env v'" "coins_base v' = coins_base v"
    using spend_input_coins [OF assms] by metis
  show "utxo env (as_layer v') = (utxo env (as_layer v))(spends txin := None)"
    by (auto simp: fun_eq_iff utxo_def spends_def c(1,2) out_at_live out_at_spent simp del: live_simps)
  show "cache_ok env v'" "coins_base v' = coins_base v" by (fact c)+
  show "unspent env (as_layer v) t = None \<Longrightarrow> unspent env (as_layer v') t = None" using c(1,2) by auto
qed

lemma spend_inputs_utxo:
  assumes "cache_ok env v" "foldR (spend_input env) vin (v, us) = Inr (v', us')"
  shows "utxo env (as_layer v') = (\<lambda>p. if p \<in> spends ` set vin then None else utxo env (as_layer v) p) \<and>
    cache_ok env v' \<and> coins_base v' = coins_base v \<and>
    (unspent env (as_layer v) t = None \<longrightarrow> unspent env (as_layer v') t = None)"
  using assms
proof (induction vin arbitrary: v us)
  case (Cons txin vin)
  obtain v1 us1 where one: "spend_input env txin (v, us) = Inr (v1, us1)" and rest: "foldR (spend_input env) vin (v1, us1) = Inr (v', us')"
    using Cons.prems(2) by (auto simp: bindR_eq_Inr)
  note u = spend_input_utxo [OF Cons.prems(1) one]
  note ih = Cons.IH [OF u(2) rest]
  have "utxo env (as_layer v') p = (if p \<in> spends ` set (txin # vin) then None else utxo env (as_layer v) p)" for p
    using ih u(1) by simp
  then show ?case using ih u(3,4) by auto
qed simp

lemma UpdateCoins_effect:
  assumes "cache_ok env v" "CTransaction_GetHash Hash env tx = Inr t" "unspent env (as_layer v) t = None"
    "unspent env (coins_base v) t = None" "\<not> CTransaction_IsCoinBase tx" "distinct (map ti_prevout (tx_vin tx))"
    "list_all (\<lambda>txin. utxo env (as_layer v) (spends txin) \<noteq> None) (tx_vin tx)"
  shows "\<exists>v' undos. UpdateCoins Hash env tx nHeight v = Inr (v', undos) \<and> cache_ok env v' \<and> coins_base v' = coins_base v \<and>
    utxo env (as_layer v') = (\<lambda>(t', n).
      if t' = t then out_at (map (clear_out env) (tx_vout tx)) n
      else if (t', n) \<in> spends ` set (tx_vin tx) then None else utxo env (as_layer v) (t', n))"
proof -
  obtain v' undos where up: "UpdateCoins Hash env tx nHeight v = Inr (v', undos)"
    using UpdateCoins_returns [OF assms(1) disjI2 assms(2), of nHeight] assms(6,7) by (auto simp: available_iff list_all_iff)
  let ?f = "CCoins_FromTx env tx nHeight CCoins_new"
  obtain v1 where v1: "foldR (spend_input env) (tx_vin tx) (v, []) = Inr (v1, undos)"
      "cache_ok env v1 \<Longrightarrow> unspent env (coins_base v1) t = None \<Longrightarrow>
         unspent env (as_layer v') = (unspent env (as_layer v1))(t := live (Some ?f)) \<and> cache_ok env v' \<and> coins_base v' = coins_base v1"
    using UpdateCoins_split [OF up assms(2)] assms(5) by auto
  from spend_inputs_utxo [OF assms(1) v1(1)]
  have ins: "utxo env (as_layer v1) = (\<lambda>p. if p \<in> spends ` set (tx_vin tx) then None else utxo env (as_layer v) p)"
      "cache_ok env v1" "coins_base v1 = coins_base v" by simp_all
  then have out: "unspent env (as_layer v') = (unspent env (as_layer v1))(t := live (Some ?f))" "cache_ok env v'" "coins_base v' = coins_base v"
    using v1(2) assms(4) by simp_all
  have "utxo env (as_layer v') (t', n) = (if t' = t then out_at (map (clear_out env) (tx_vout tx)) n else utxo env (as_layer v1) (t', n))" for t' n
    by (simp add: utxo_def out(1) out_at_live FromTx_vout del: live_simps)
  then show ?thesis using up out ins(1) by (auto simp: fun_eq_iff)
qed

text \<open>
  C36. Connecting a transaction, seen from the set of unspent outputs. When every input is unspent and none is named
  twice, \<^verbatim>\<open>UpdateCoins\<close> asserts nothing and returns; afterwards exactly the outputs that the inputs name are gone and the
  spendable outputs of the transaction are there, under its hash, and the flags of the cache are still correct.
\<close>

theorem UpdateCoins_utxo:
  assumes "cache_ok env v" "CTransaction_GetHash Hash env tx = Inr t" "unspent env (as_layer v) t = None"
    "unspent env (coins_base v) t = None" "\<not> CTransaction_IsCoinBase tx" "distinct (map ti_prevout (tx_vin tx))"
    "list_all (\<lambda>txin. utxo env (as_layer v) (spends txin) \<noteq> None) (tx_vin tx)"
  shows "\<exists>v' undos. UpdateCoins Hash env tx nHeight v = Inr (v', undos) \<and> cache_ok env v' \<and> coins_base v' = coins_base v \<and>
    utxo env (as_layer v') = (\<lambda>(t', n).
      if t' = t then out_at (map (clear_out env) (tx_vout tx)) n
      else if (t', n) \<in> spends ` set (tx_vin tx) then None else utxo env (as_layer v) (t', n))"
  using assms by (rule UpdateCoins_effect)

text \<open>Undoing one transaction: its outputs, then its inputs.\<close>

definition undo_tx ::
  "('g, 's) CompEnv \<Rightarrow> uint256 \<Rightarrow> ('g, 's) CTransaction \<Rightarrow> int \<Rightarrow> ('g, 's) CTxInUndo list \<Rightarrow> bool \<times> ('g, 's) CoinsCache \<Rightarrow>
   (bool \<times> ('g, 's) CoinsCache) result" where
  "undo_tx env t tx h undos s =
     bindR (case s of (fClean, w) \<Rightarrow> case disconnect_outputs env t tx h w of (ok, w') \<Rightarrow> Inr (fClean \<and> ok, w'))
       (if CTransaction_IsCoinBase tx then Inr else restore_inputs env (tx_vin tx) undos)"

lemma UpdateCoins_undone:
  assumes "all_good env v" "UpdateCoins Hash env tx h v = Inr (v', undos)" "CTransaction_GetHash Hash env tx = Inr t"
    "unspent env (as_layer v) t = None" "unspent env (coins_base v) t = None" "tx_ok tx" "0 < h" "h < 2 ^ 31"
  shows "all_good env v' \<and> coins_base v' = coins_base v \<and>
    (\<forall>t'. t' \<noteq> t \<longrightarrow> unspent env (as_layer v) t' = None \<longrightarrow> unspent env (as_layer v') t' = None) \<and>
    (\<not> CTransaction_IsCoinBase tx \<longrightarrow> length undos = length (tx_vin tx)) \<and>
    undoes env (undo_tx env t tx h undos) v v'"
proof -
  let ?cb = "CTransaction_IsCoinBase tx"
  let ?f = "CCoins_FromTx env tx h CCoins_new"
  obtain v1 where v1: "(if \<not> ?cb then foldR (spend_input env) (tx_vin tx) (v, []) else Inr (v, [])) = Inr (v1, undos)"
      "cache_ok env v1 \<Longrightarrow> unspent env (coins_base v1) t = None \<Longrightarrow>
         unspent env (as_layer v') = (unspent env (as_layer v1))(t := live (Some ?f)) \<and> cache_ok env v' \<and> coins_base v' = coins_base v1"
    using UpdateCoins_split [OF assms(2,3)] by (metis disjI2)
  have ins: "all_good env v1 \<and> coins_base v1 = coins_base v \<and>
      (\<forall>t'. unspent env (as_layer v) t' = None \<longrightarrow> unspent env (as_layer v1) t' = None) \<and>
      (\<not> ?cb \<longrightarrow> length undos = length (tx_vin tx)) \<and>
      undoes env (if ?cb then Inr else restore_inputs env (tx_vin tx) undos) v v1"
  proof (cases ?cb)
    case True
    then show ?thesis using v1(1) assms(1) by (auto simp: undoes_def)
  next
    case False
    then have "foldR (spend_input env) (tx_vin tx) (v, []) = Inr (v1, undos)" using v1(1) by simp
    from spend_inputs_undone [OF assms(1) this] show ?thesis using False by auto
  qed
  from ins have undo_in: "undoes env (if ?cb then Inr else restore_inputs env (tx_vin tx) undos) v v1" by (elim conjE)
  have t1: "unspent env (as_layer v1) t = None" "unspent env (coins_base v1) t = None" using ins assms(4,5) by simp_all
  note close = conjunct1 [OF v1(2) [OF all_goodD(1) [OF conjunct1 [OF ins]] t1(2)]]
    conjunct2 [OF v1(2) [OF all_goodD(1) [OF conjunct1 [OF ins]] t1(2)]]
  have "undoes env (\<lambda>s. case s of (fClean, w) \<Rightarrow> case disconnect_outputs env t tx h w of (ok, w') \<Rightarrow> Inr (fClean \<and> ok, w')) v1 v'"
    unfolding undoes_def
  proof (intro allI impI, elim conjE)
    fix w assume w: "cache_ok env w" "same_coins (unspent env (as_layer w)) (unspent env (as_layer v'))"
    then have "map_option forget_stake (unspent env (as_layer w) t) = map_option forget_stake (live (Some ?f))"
      by (simp add: same_coins_def close(1) del: live_simps)
    then obtain w' where w': "disconnect_outputs env t tx h w = (True, w')" "cache_ok env w'" "coins_base w' = coins_base w"
        "unspent env (as_layer w') = (unspent env (as_layer w))(t := None)"
      using disconnect_outputs_coins [OF w(1) assms(6-8)] by metis
    have "same_coins (unspent env (as_layer w')) (unspent env (as_layer v1))"
      unfolding w'(4) by (rule same_coins_upd [OF w(2)]) (simp_all add: t1 close(1))
    then show "\<exists>w'. (case (True, w) of (fClean, w) \<Rightarrow> case disconnect_outputs env t tx h w of (ok, w') \<Rightarrow> Inr (fClean \<and> ok, w')) =
        Inr (True, w') \<and> cache_ok env w' \<and> coins_base w' = coins_base w \<and>
        same_coins (unspent env (as_layer w')) (unspent env (as_layer v1))" using w' by simp
  qed
  then have "undoes env (undo_tx env t tx h undos) v v'"
    using undoes_trans [OF undo_in] unfolding undo_tx_def [abs_def] by simp
  moreover have "all_good env v'"
    using close(1,2) ins FromTx_good(1) [OF assms(6-8), of env CCoins_new] by (auto simp: all_good_def split: if_splits)
  ultimately show ?thesis using ins close by simp
qed

lemma disconnect_tx_undo:
  assumes "CTransaction_GetHash Hash env tx = Inr t" "undo_tx env t tx h undos s = Inr r"
    "if i = 0 then CTransaction_IsCoinBase tx
     else \<not> CTransaction_IsCoinBase tx \<and> vtxundo ! (i - 1) = undos \<and> length undos = length (tx_vin tx)"
  shows "disconnect_tx Hash env h i tx vtxundo s = Inr (Some r)"
proof -
  obtain fClean w where s: "s = (fClean, w)" by force
  obtain ok w' where "disconnect_outputs env t tx h w = (ok, w')" by force
  then show ?thesis using assms by (cases "i = 0") (simp_all add: s undo_tx_def disconnect_tx_def Let_def)
qed

text \<open>The two loops, from the transaction with index \<open>i\<close> on.\<close>

definition connect_from ::
  "(bytes \<Rightarrow> uint256) \<Rightarrow> ('g, 's) CompEnv \<Rightarrow> int \<Rightarrow> nat \<Rightarrow> ('g, 's) CTransaction list \<Rightarrow>
   ('g, 's) CoinsCache \<times> ('g, 's) CTxInUndo list list \<Rightarrow> (('g, 's) CoinsCache \<times> ('g, 's) CTxInUndo list list) result" where
  "connect_from Hash env h i txs =
     foldR (\<lambda>(i, tx) (view, vtxundo).
              bindR (UpdateCoins Hash env tx h view) (\<lambda>(view, undo). Inr (view, if i > 0 then vtxundo @ [undo] else vtxundo)))
       (enumerate i txs)"

definition disconnect_from ::
  "(bytes \<Rightarrow> uint256) \<Rightarrow> ('g, 's) CompEnv \<Rightarrow> int \<Rightarrow> nat \<Rightarrow> ('g, 's) CTransaction list \<Rightarrow> ('g, 's) CTxInUndo list list \<Rightarrow>
   (bool \<times> ('g, 's) CoinsCache) option \<Rightarrow> (bool \<times> ('g, 's) CoinsCache) option result" where
  "disconnect_from Hash env h i txs vtxundo =
     foldR (\<lambda>(i, tx) r. case r of None \<Rightarrow> Inr None | Some st \<Rightarrow> disconnect_tx Hash env h i tx vtxundo st) (rev (enumerate i txs))"

definition block_txs ::
  "(bytes \<Rightarrow> uint256) \<Rightarrow> ('g, 's) CompEnv \<Rightarrow> nat \<Rightarrow> ('g, 's) CTransaction list \<Rightarrow> uint256 list \<Rightarrow> ('g, 's) CoinsCache \<Rightarrow> bool" where
  "block_txs Hash env i txs ids v =
     (map (CTransaction_GetHash Hash env) txs = map Inr ids \<and> distinct ids \<and>
      (\<forall>t \<in> set ids. unspent env (as_layer v) t = None \<and> unspent env (coins_base v) t = None) \<and>
      list_all tx_ok txs \<and> list_all (\<lambda>(j, tx). CTransaction_IsCoinBase tx \<longleftrightarrow> j = 0) (enumerate i txs))"

definition returned :: "'a option \<Rightarrow> 'a result" where
  "returned r = (case r of Some s \<Rightarrow> Inr s | None \<Rightarrow> Inl AssertFailed)"

lemma connect_from_undone:
  assumes "all_good env v" "0 < h" "h < 2 ^ 31" "block_txs Hash env i txs ids v"
    "connect_from Hash env h i txs (v, us) = Inr (v', us')" "length us = i - 1"
  shows "\<exists>undos. us' = us @ undos \<and> length undos = length txs - (if i = 0 then 1 else 0) \<and> all_good env v' \<and>
    coins_base v' = coins_base v \<and>
    undoes env (\<lambda>s. bindR (disconnect_from Hash env h i txs us' (Some s)) returned) v v'"
  using assms(1,4-6)
proof (induction txs arbitrary: i ids v us)
  case Nil
  then show ?case by (auto simp: connect_from_def disconnect_from_def undoes_def returned_def)
next
  case (Cons tx txs)
  obtain t ids' where ids: "ids = t # ids'" "CTransaction_GetHash Hash env tx = Inr t"
    using Cons.prems(2) by (cases ids) (auto simp: block_txs_def)
  obtain v1 undo where one: "UpdateCoins Hash env tx h v = Inr (v1, undo)"
      and rest: "connect_from Hash env h (Suc i) txs (v1, if i > 0 then us @ [undo] else us) = Inr (v', us')"
    using Cons.prems(3) by (auto simp: connect_from_def bindR_eq_Inr)
  have tx: "unspent env (as_layer v) t = None" "unspent env (coins_base v) t = None" "tx_ok tx" "CTransaction_IsCoinBase tx \<longleftrightarrow> i = 0"
    using Cons.prems(2) by (simp_all add: block_txs_def ids)
  from UpdateCoins_undone [OF Cons.prems(1) one ids(2) tx(1-3) assms(2,3)]
  have up: "all_good env v1" "coins_base v1 = coins_base v" "\<And>t'. t' \<noteq> t \<Longrightarrow> unspent env (as_layer v) t' = None \<Longrightarrow> unspent env (as_layer v1) t' = None"
      "\<not> CTransaction_IsCoinBase tx \<Longrightarrow> length undo = length (tx_vin tx)" "undoes env (undo_tx env t tx h undo) v v1" by simp_all
  have "unspent env (as_layer v1) t' = None" if "t' \<in> set ids'" for t'
    using that Cons.prems(2) by (intro up(3)) (auto simp: block_txs_def ids)
  then have "block_txs Hash env (Suc i) txs ids' v1"
    using Cons.prems(2) up(2) by (simp add: block_txs_def ids)
  from Cons.IH [OF up(1) this rest] Cons.prems(4)
  obtain undos where undos: "us' = (if i > 0 then us @ [undo] else us) @ undos" "length undos = length txs" "all_good env v' \<and> coins_base v' = coins_base v1"
      "undoes env (\<lambda>s. bindR (disconnect_from Hash env h (Suc i) txs us' (Some s)) returned) v1 v'"
    by (cases i) auto
  have undone: "undoes env (\<lambda>s. bindR (disconnect_from Hash env h i (tx # txs) us' (Some s)) returned) v v'"
    unfolding undoes_def
  proof (intro allI impI, elim conjE)
    fix w assume "cache_ok env w" "same_coins (unspent env (as_layer w)) (unspent env (as_layer v'))"
    then obtain w1 where w1: "disconnect_from Hash env h (Suc i) txs us' (Some (True, w)) = Inr (Some (True, w1))"
        "cache_ok env w1" "coins_base w1 = coins_base w" "same_coins (unspent env (as_layer w1)) (unspent env (as_layer v1))"
      using undos(4) by (auto simp: undoes_def bindR_eq_Inr returned_def split: option.splits)
    then obtain w2 where w2: "undo_tx env t tx h undo (True, w1) = Inr (True, w2)" "cache_ok env w2" "coins_base w2 = coins_base w"
        "same_coins (unspent env (as_layer w2)) (unspent env (as_layer v))"
      using up(5) by (auto simp: undoes_def)
    have "disconnect_tx Hash env h i tx us' (True, w1) = Inr (Some (True, w2))"
      using tx(4) up(4) undos(1) Cons.prems(4) by (intro disconnect_tx_undo [OF ids(2) w2(1)]) (auto simp: nth_append)
    then have "disconnect_from Hash env h i (tx # txs) us' (Some (True, w)) = Inr (Some (True, w2))"
      using w1(1) by (simp add: disconnect_from_def foldR_append)
    then show "\<exists>w'. bindR (disconnect_from Hash env h i (tx # txs) us' (Some (True, w))) returned = Inr (True, w') \<and>
        cache_ok env w' \<and> coins_base w' = coins_base w \<and> same_coins (unspent env (as_layer w')) (unspent env (as_layer v))"
      using w2 by (simp add: returned_def)
  qed
  show ?case
  proof (cases "i = 0")
    case True
    then show ?thesis using undone undos(1-3) up(2) by (intro exI [of _ undos]) simp
  next
    case False
    then show ?thesis using undone undos(1-3) up(2) by (intro exI [of _ "undo # undos"]) simp
  qed
qed

text \<open>
  C37. A block that was connected can be disconnected: with the undo data that connecting it produced, every
  transaction is found as it was added, no step reports an inconsistency, and the unspent outputs are the ones from
  before, with one exception that the code has: whether a restored transaction was a coinstake is forgotten
  (\<open>same_coins\<close> compares everything but \<^verbatim>\<open>fCoinStake\<close>). The transactions have to be new to the view and to its
  parent (the rule of BIP 30), and the first one is the coinbase.
\<close>

theorem connect_disconnect_coins:
  assumes "all_good env v" "0 < nHeight" "nHeight < 2 ^ 31" "vtx \<noteq> []" "block_txs Hash env 0 vtx ids v"
    "connect_coins Hash env nHeight vtx v = Inr (v', vtxundo)"
  shows "\<exists>w. disconnect_coins Hash env nHeight vtx vtxundo v' = Inr (Some (True, w)) \<and> cache_ok env w \<and>
    coins_base w = coins_base v \<and> same_coins (unspent env (as_layer w)) (unspent env (as_layer v))"
proof -
  have "connect_from Hash env nHeight 0 vtx (v, []) = Inr (v', vtxundo)"
    using assms(6) by (simp add: connect_coins_def connect_from_def)
  from connect_from_undone [OF assms(1-3,5) this]
  have undo: "length vtxundo = length vtx - 1" "all_good env v'" "coins_base v' = coins_base v"
      "undoes env (\<lambda>s. bindR (disconnect_from Hash env nHeight 0 vtx vtxundo (Some s)) returned) v v'" by auto
  have "length vtxundo + 1 = length vtx" using undo(1) assms(4) by (cases vtx) simp_all
  then have "disconnect_coins Hash env nHeight vtx vtxundo v' = disconnect_from Hash env nHeight 0 vtx vtxundo (Some (True, v'))"
    by (simp add: disconnect_coins_def disconnect_from_def)
  moreover have "cache_ok env v'" using undo(2) by (rule all_goodD(1))
  ultimately show ?thesis using undo
    by (auto simp: undoes_def bindR_eq_Inr returned_def same_coins_def split: option.splits)
qed

text \<open>A block that spends the output of transaction 7. The hash function reads a byte of the time.\<close>

definition sample_hash :: "bytes \<Rightarrow> uint256" where
  "sample_hash b = ucast (b ! 4)"

definition sample_coinbase :: "(u8, u8) CTransaction" where
  "sample_coinbase = CMutableTransaction_init\<lparr>tx_nTime := 1,
     tx_vin := [\<lparr>ti_prevout = COutPoint_null, ti_scriptSig = [1, 5, 0], ti_nSequence = 0\<rparr>], tx_vout := [sample_txout]\<rparr>"

definition sample_spend :: "(u8, u8) CTransaction" where
  "sample_spend = CMutableTransaction_init\<lparr>tx_nTime := 2,
     tx_vin := [\<lparr>ti_prevout = \<lparr>op_hash = 7, op_n = 0\<rparr>, ti_scriptSig = [], ti_nSequence = 0\<rparr>], tx_vout := [sample_txout]\<rparr>"

lemmas sample_txs = sample_coinbase_def sample_spend_def CMutableTransaction_init_def COutPoint_null_def

lemma sample_ids:
  "CTransaction_GetHash sample_hash env sample_coinbase = Inr 1" "CTransaction_GetHash sample_hash env sample_spend = Inr 2"
proof -
  have "le_bytes (numeral k) x ! 0 = of_nat x" for k x unfolding numeral_eq_Suc [of k] by simp
  then show "CTransaction_GetHash sample_hash env sample_coinbase = Inr 1" "CTransaction_GetHash sample_hash env sample_spend = Inr 2"
    by (simp_all add: CTransaction_GetHash_def CTransaction_Serialize_def sample_txs sample_hash_def Serialize_int32_def
        ser_writedata32_def nth_append write_if_def)
qed

lemma sample_kinds:
  "CTransaction_IsCoinBase sample_coinbase" "\<not> CTransaction_IsCoinBase sample_spend"
  by (simp_all add: CTransaction_IsCoinBase_def sample_txs COutPoint_IsNull_def)

lemma sample_block: "block_txs sample_hash env 0 [sample_coinbase, sample_spend] [1, 2] sample_cache"
proof -
  have "tx_ok sample_coinbase" "tx_ok sample_spend"
    by (simp_all add: tx_ok_def sample_txs sample_txout_def CTxOut_IsNull_def)
  then show ?thesis
    by (simp add: block_txs_def sample_ids sample_unspent sample_kinds) (simp add: sample_cache_def unspent_def)
qed

lemma sample_connect: "\<exists>r. connect_coins sample_hash sample_comp_env 5 [sample_coinbase, sample_spend] sample_cache = Inr r"
proof -
  obtain v1 u1 where one: "UpdateCoins sample_hash sample_comp_env sample_coinbase 5 sample_cache = Inr (v1, u1)"
    using UpdateCoins_returns [OF sample_cache_ok disjI1 [OF sample_kinds(1)] sample_ids(1)] by blast
  obtain v0 where v0: "(if \<not> CTransaction_IsCoinBase sample_coinbase
        then foldR (spend_input sample_comp_env) (tx_vin sample_coinbase) (sample_cache, []) else Inr (sample_cache, [])) = Inr (v0, u1)"
      "cache_ok sample_comp_env v0 \<Longrightarrow>
         unspent sample_comp_env (as_layer v1) =
           (unspent sample_comp_env (as_layer v0))(1 := live (Some (CCoins_FromTx sample_comp_env sample_coinbase 5 CCoins_new))) \<and>
         cache_ok sample_comp_env v1 \<and> coins_base v1 = coins_base v0"
    by (rule UpdateCoins_split [OF one sample_ids(1)]) (use sample_kinds(1) in simp)
  then have "v0 = sample_cache" using sample_kinds(1) by simp
  then have v1: "cache_ok sample_comp_env v1" "unspent sample_comp_env (as_layer v1) 7 = Some sample_coins"
    using v0(2) sample_cache_ok [of sample_comp_env] by (simp_all add: sample_unspent)
  have "available sample_comp_env v1 txin" if "txin \<in> set (tx_vin sample_spend)" for txin
    using that v1(2)
    by (auto simp: sample_txs available_def CCoins_IsAvailable_def sample_coins_def sample_txout_def CTxOut_IsNull_def)
  then have "list_all (available sample_comp_env v1) (tx_vin sample_spend) \<and> distinct (map ti_prevout (tx_vin sample_spend))"
    by (simp add: list_all_iff) (simp add: sample_txs)
  then obtain v2 u2 where "UpdateCoins sample_hash sample_comp_env sample_spend 5 v1 = Inr (v2, u2)"
    using UpdateCoins_returns [OF v1(1) disjI2 sample_ids(2)] by blast
  then show ?thesis using one by (simp add: connect_coins_def)
qed

theorem connect_disconnect_coins_witness:
  "\<exists>v' vtxundo w. connect_coins sample_hash sample_comp_env 5 [sample_coinbase, sample_spend] sample_cache = Inr (v', vtxundo) \<and>
     disconnect_coins sample_hash sample_comp_env 5 [sample_coinbase, sample_spend] vtxundo v' = Inr (Some (True, w)) \<and>
     map_option forget_stake (unspent sample_comp_env (as_layer w) 7) = Some (forget_stake sample_coins)"
proof -
  have good: "all_good sample_comp_env sample_cache"
    using sample_cache_ok [of sample_comp_env]
    by (simp add: all_good_def sample_unspent coins_good_def good_vout_def sample_coins_def no_null_last_def plain_nulls_def
        sample_txout_def CTxOut_IsNull_def)
  obtain v' vtxundo where con: "connect_coins sample_hash sample_comp_env 5 [sample_coinbase, sample_spend] sample_cache = Inr (v', vtxundo)"
    using sample_connect by fastforce
  obtain w where w: "disconnect_coins sample_hash sample_comp_env 5 [sample_coinbase, sample_spend] vtxundo v' = Inr (Some (True, w))"
      "same_coins (unspent sample_comp_env (as_layer w)) (unspent sample_comp_env (as_layer sample_cache))"
    using connect_disconnect_coins [OF good _ _ _ sample_block con] by auto
  then have "map_option forget_stake (unspent sample_comp_env (as_layer w) 7) = Some (forget_stake sample_coins)"
    by (simp add: same_coins_def sample_unspent)
  then show ?thesis using con w(1) by blast
qed

theorem UpdateCoins_utxo_witness:
  "\<exists>v' undos. UpdateCoins sample_hash sample_comp_env sample_spend 5 sample_cache = Inr (v', undos) \<and>
     utxo sample_comp_env (as_layer v') (7, 0) = None \<and> utxo sample_comp_env (as_layer v') (2, 0) = Some sample_txout"
proof -
  have u: "utxo sample_comp_env (as_layer sample_cache) (7, 0) = Some sample_txout"
    by (simp add: utxo_def sample_unspent) (simp add: sample_coins_def out_at_def sample_txout_def CTxOut_IsNull_def)
  have out: "out_at (map (clear_out sample_comp_env) (tx_vout sample_spend)) 0 = Some sample_txout"
    by (simp add: out_at_def sample_txs clear_out_def sample_txout_def CTxOut_IsNull_def CTxOut_HasRangeProof_def CTxOut_GetBulletproof_def)
  have vin: "tx_vin sample_spend = [\<lparr>ti_prevout = \<lparr>op_hash = 7, op_n = 0\<rparr>, ti_scriptSig = [], ti_nSequence = 0\<rparr>]"
    by (simp add: sample_txs)
  have "unspent sample_comp_env (coins_base sample_cache) 2 = None" by (simp add: sample_cache_def unspent_def)
  then have "\<exists>v' undos. UpdateCoins sample_hash sample_comp_env sample_spend 5 sample_cache = Inr (v', undos) \<and>
      cache_ok sample_comp_env v' \<and> coins_base v' = coins_base sample_cache \<and> utxo sample_comp_env (as_layer v') = (\<lambda>(t', n).
      if t' = 2 then out_at (map (clear_out sample_comp_env) (tx_vout sample_spend)) n
      else if (t', n) \<in> spends ` set (tx_vin sample_spend) then None else utxo sample_comp_env (as_layer sample_cache) (t', n))"
    using u vin by (intro UpdateCoins_utxo sample_cache_ok sample_ids(2) sample_kinds(2)) (simp_all add: sample_unspent spends_def)
  then show ?thesis using vin out by (fastforce simp: spends_def)
qed

end
