(* ===== verification/CoinsStore.thy ===== *)
theory CoinsStore
  imports CoinsLaws
begin

text \<open>
  The stored form of the coins of a transaction: they are read back from the database as they were written, except for
  \<^verbatim>\<open>fCoinStake\<close> and for what \<^verbatim>\<open>CTxOutCompressor\<close> does not keep of an output, and flushing a cache to the database
  keeps the unspent coins up to that.
\<close>

section \<open>The availability mask\<close>

lemma bit_one_shifted: "bit (push_bit i 1 :: u8) p \<longleftrightarrow> p < 8 \<and> p = i"
  unfolding push_bit_of_1 bit_exp_iff possible_bit_word by auto

lemma bit_mask_byte: "bit (mask_byte vout b) p \<longleftrightarrow> p < 8 \<and> mask_bit vout b p"
proof -
  have "bit (fold (\<lambda>i ch. if mask_bit vout b i then ch OR push_bit i 1 else ch) ps (acc :: u8)) p \<longleftrightarrow>
      bit acc p \<or> p < 8 \<and> p \<in> set ps \<and> mask_bit vout b p" for ps acc
  proof (induction ps arbitrary: acc)
    case (Cons i ps)
    then show ?case
      by (cases "mask_bit vout b i") (simp_all only: fold_simps if_True if_False bit_or_iff bit_one_shifted list.set insert_iff, blast+)
  qed simp
  from this [of "[0..<8]" 0] show ?thesis
    by (simp only: mask_byte_def set_upt atLeastLessThan_iff bit_0_eq bot_apply bot_bool_def le0 simp_thms)
qed

lemma mask_byte_zero: "mask_byte vout b \<noteq> 0 \<longleftrightarrow> list_ex (mask_bit vout b) [0..<8]"
proof -
  have "mask_byte vout b = 0 \<longleftrightarrow> (\<forall>p < 8. \<not> mask_bit vout b p)"
    by (simp only: bit_eq_iff bit_mask_byte bit_0_eq bot_apply bot_bool_def) auto
  then show ?thesis by (auto simp only: list_ex_iff set_upt atLeastLessThan_iff)
qed

lemma mask_byte_bits: "map (\<lambda>p. mask_byte vout b AND push_bit p 1 \<noteq> 0) [0..<8] = map (mask_bit vout b) [0..<8]"
proof (rule map_cong)
  fix p :: nat assume "p \<in> set [0..<8]"
  then show "(mask_byte vout b AND push_bit p 1 \<noteq> 0) = mask_bit vout b p"
    by (simp add: push_bit_eq_mult and_exp_eq_0_iff_not_bit bit_mask_byte)
qed simp

lemma CalcMaskSize_spec:
  assumes "CalcMaskSize vout = (nBytes, nNonzeroBytes)"
  shows "nNonzeroBytes = length (filter (\<lambda>c. c \<noteq> 0) (map (mask_byte vout) [0..<nBytes]))"
    "nBytes = 0 \<or> mask_byte vout (nBytes - 1) \<noteq> 0" "nBytes \<le> b \<Longrightarrow> mask_byte vout b = 0" "nBytes \<le> (length vout + 5) div 8"
proof -
  let ?step = "\<lambda>b (l, c :: nat). if list_ex (mask_bit vout b) [0..<8] then (b + 1, c + 1) else (l, c)"
  have "case fold ?step [0..<k] (0, 0) of (l, c) \<Rightarrow>
      c = length (filter (\<lambda>c. c \<noteq> 0) (map (mask_byte vout) [0..<l])) \<and> (l = 0 \<or> mask_byte vout (l - 1) \<noteq> 0) \<and>
      (\<forall>b. l \<le> b \<and> b < k \<longrightarrow> mask_byte vout b = 0) \<and> l \<le> k" for k
  proof (induction k)
    case (Suc k)
    obtain l c where lc: "fold ?step [0..<k] (0, 0) = (l, c)" by force
    have inv: "c = length (filter (\<lambda>c. c \<noteq> 0) (map (mask_byte vout) [0..<l]))" "l = 0 \<or> mask_byte vout (l - 1) \<noteq> 0"
        "\<And>b. l \<le> b \<Longrightarrow> b < k \<Longrightarrow> mask_byte vout b = 0" "l \<le> k"
      using Suc.IH by (simp_all add: lc)
    have "filter (\<lambda>c. c \<noteq> 0) (map (mask_byte vout) [l..<k]) = []" using inv(3) by (simp add: filter_empty_conv)
    moreover have "[0..<k] = [0..<l] @ [l..<k]" using inv(4) by (metis le_Suc_ex upt_add_eq_append zero_le)
    ultimately have "c = length (filter (\<lambda>c. c \<noteq> 0) (map (mask_byte vout) [0..<k]))" using inv(1) by simp
    then show ?case using inv mask_byte_zero [of vout k] by (auto simp: lc less_Suc_eq)
  qed simp
  from this [of "(length vout + 5) div 8"] assms
  have spec: "nNonzeroBytes = length (filter (\<lambda>c. c \<noteq> 0) (map (mask_byte vout) [0..<nBytes]))"
    "nBytes = 0 \<or> mask_byte vout (nBytes - 1) \<noteq> 0" "nBytes \<le> (length vout + 5) div 8"
    "\<And>b. nBytes \<le> b \<Longrightarrow> b < (length vout + 5) div 8 \<Longrightarrow> mask_byte vout b = 0"
    unfolding CalcMaskSize_def by simp_all
  show "nNonzeroBytes = length (filter (\<lambda>c. c \<noteq> 0) (map (mask_byte vout) [0..<nBytes]))"
    "nBytes = 0 \<or> mask_byte vout (nBytes - 1) \<noteq> 0" "nBytes \<le> (length vout + 5) div 8" by (fact spec)+
  show "mask_byte vout b = 0" if "nBytes \<le> b"
  proof (cases "b < (length vout + 5) div 8")
    case False
    then have "length vout \<le> 2 + b * 8" by linarith
    then show ?thesis using mask_byte_zero [of vout b] by (auto simp: list_ex_iff mask_bit_def)
  qed (use spec(4) that in simp)
qed

text \<open>The reader stops at the right byte, since the last one is not zero.\<close>

lemma read_mask_bytes:
  assumes "bs = [] \<or> last bs \<noteq> 0" "n = length (filter (\<lambda>c. c \<noteq> 0) bs)"
  shows "read_mask n vAvail (bs @ s) = Inr (vAvail @ concat (map (\<lambda>c. map (\<lambda>p. c AND push_bit p 1 \<noteq> 0) [0..<8]) bs), s)"
  using assms
proof (induction bs arbitrary: n vAvail)
  case Nil
  then show ?case by (cases s) simp_all
next
  case (Cons c bs)
  have "filter (\<lambda>c. c \<noteq> 0) (c # bs) \<noteq> []"
  proof (cases "bs = []")
    case False
    then have "last bs \<in> set bs" "last bs \<noteq> 0" using Cons.prems(1) by simp_all
    then show ?thesis by (auto simp: filter_empty_conv)
  qed (use Cons.prems in simp)
  then have "n > 0" using Cons.prems(2) by simp
  moreover have "bs = [] \<or> last bs \<noteq> 0" using Cons.prems(1) by (auto split: if_splits)
  moreover have "(if c \<noteq> 0 then n - 1 else n) = length (filter (\<lambda>c. c \<noteq> 0) bs)" using Cons.prems(2) by simp
  ultimately show ?case using Cons.IH [of "if c \<noteq> 0 then n - 1 else n"] by simp
qed

lemma mask_positions:
  "map (\<lambda>i. out_at vout i \<noteq> None) [0..<2] @ concat (map (\<lambda>b. map (mask_bit vout b) [0..<8]) [0..<n]) =
   map (\<lambda>i. out_at vout i \<noteq> None) [0..<2 + 8 * n]"
proof (induction n)
  case (Suc n)
  have "[0..<2 + 8 * Suc n] = [0..<2 + 8 * n] @ [2 + 8 * n..<2 + 8 * n + 8]"
    using upt_add_eq_append [of 0 "2 + 8 * n" 8] by (simp add: algebra_simps)
  also have "[2 + 8 * n..<2 + 8 * n + 8] = map (\<lambda>i. i + (2 + 8 * n)) [0..<8]"
    using map_add_upt [of "2 + 8 * n" 8] by (simp only: add.commute)
  finally have "map (\<lambda>i. out_at vout i \<noteq> None) [0..<2 + 8 * Suc n] =
      map (\<lambda>i. out_at vout i \<noteq> None) [0..<2 + 8 * n] @ map (\<lambda>i. out_at vout (i + (2 + 8 * n)) \<noteq> None) [0..<8]"
    by (simp only: map_append map_map o_def)
  moreover have "map (mask_bit vout n) [0..<8] = map (\<lambda>i. out_at vout (i + (2 + 8 * n)) \<noteq> None) [0..<8]"
    by (rule map_cong) (auto simp: mask_bit_def out_at_def algebra_simps)
  ultimately show ?case using Suc.IH by (simp only: upt_Suc_append le0 map_append concat_append list.map concat.simps append_assoc [symmetric] append_Nil2)
qed simp

section \<open>Round trip\<close>

definition stored_out :: "('g, 's) CompEnv \<Rightarrow> ('g, 's) CTxOut \<Rightarrow> ('g, 's) CTxOut" where
  "stored_out env txout = (if CTxOut_IsNull txout then txout else stored_form env txout)"

definition out_bytes :: "('g, 's) CompEnv \<Rightarrow> ('g, 's) CTxOut list \<Rightarrow> bytes" where
  "out_bytes env vout = concat (map (\<lambda>txout. case CTxOutCompressor_Serialize env txout of Inr b \<Rightarrow> b | Inl _ \<Rightarrow> [])
     (filter (\<lambda>txout. \<not> CTxOut_IsNull txout) vout))"

definition storable_coins :: "('g, 's) CCoins \<Rightarrow> bool" where
  "storable_coins c =
     (good_vout (cc_vout c) \<and> cc_vout c \<noteq> [] \<and> list_all (\<lambda>txout. CTxOut_IsNull txout \<or> storable txout) (cc_vout c) \<and>
      length (cc_vout c) \<le> 2 ^ 30 \<and> 0 \<le> cc_nHeight c \<and> cc_nHeight c < 2 ^ 31 \<and> 0 \<le> cc_nVersion c \<and> cc_nVersion c < 2 ^ 31)"

lemma write_outputs:
  assumes "env_ok env" "keys_ok env" "list_all (\<lambda>txout. CTxOut_IsNull txout \<or> storable txout) vout"
  shows "foldR (\<lambda>txout s. if CTxOut_IsNull txout then Inr s
      else bindR (CTxOutCompressor_Serialize env txout) (\<lambda>b. Inr (s @ b))) vout s = Inr (s @ out_bytes env vout)"
  using assms(3)
proof (induction vout arbitrary: s)
  case (Cons txout vout)
  then show ?case
    using stored_roundtrip [OF assms(1,2), of txout] by (cases "CTxOut_IsNull txout") (auto simp: out_bytes_def)
qed (simp add: out_bytes_def)

lemma read_outputs_bytes:
  assumes "env_ok env" "keys_ok env" "list_all (\<lambda>txout. CTxOut_IsNull txout \<or> storable txout) vout" "plain_nulls vout"
  shows "read_outputs env (map (\<lambda>txout. \<not> CTxOut_IsNull txout) vout) (out_bytes env vout @ s) = Inr (map (stored_out env) vout, s)"
  using assms(3,4)
proof (induction vout)
  case (Cons txout vout)
  then have ih: "read_outputs env (map (\<lambda>txout. \<not> CTxOut_IsNull txout) vout) (out_bytes env vout @ s) = Inr (map (stored_out env) vout, s)"
    by (simp add: plain_nulls_def)
  show ?case
  proof (cases "CTxOut_IsNull txout")
    case True
    then have "txout = CTxOut_null" using Cons.prems(2) by (simp add: plain_nulls_def)
    then show ?thesis using ih by (simp add: out_bytes_def stored_out_def)
  next
    case False
    then obtain b where b: "CTxOutCompressor_Serialize env txout = Inr b"
        "\<And>s. CTxOutCompressor_Unserialize env (b @ s) = Inr (stored_form env txout, s)"
      using Cons.prems(1) stored_roundtrip [OF assms(1,2), of txout] by auto
    then have "out_bytes env (txout # vout) @ s = b @ out_bytes env vout @ s" using False by (simp add: out_bytes_def)
    then show ?thesis using False ih b(2) by (simp add: stored_out_def)
  qed
qed (simp add: out_bytes_def)

lemma stored_null: "CTxOut_IsNull txout \<or> storable txout \<Longrightarrow> CTxOut_IsNull (stored_out env txout) = CTxOut_IsNull txout"
  by (auto simp: stored_out_def stored_form_def storable_def MoneyRange_def CTxOut_IsNull_def)

lemma VarInt_int:
  assumes "0 \<le> n" "n < 2 ^ 31"
  shows "ReadVarInt_int (WriteVarInt_int n @ s) = Inr (n, s)"
  using assms by (simp add: ReadVarInt_int_def WriteVarInt_int_def ReadVarInt_Write sint_sbintrunc' signed_take_bit_int_eq_self)

lemma code_fields:
  fixes q :: nat and a f g :: bool
  assumes "q < 2 ^ 28"
  defines "code \<equiv> 8 * of_nat q + (if a then 1 else 0) + (if f then 2 else 0) + (if g then 4 else 0) :: u32"
  shows "code AND 1 \<noteq> 0 \<longleftrightarrow> a" "code AND 2 \<noteq> 0 \<longleftrightarrow> f" "code AND 4 \<noteq> 0 \<longleftrightarrow> g" "unat (code div 8) = q"
    "code AND 6 \<noteq> 0 \<longleftrightarrow> f \<or> g"
proof -
  define n where "n = 8 * q + (if a then 1 else 0) + (if f then 2 else 0) + (if g then 4 else 0)"
  have code: "code = of_nat n" by (simp add: code_def n_def)
  have "n < 2 ^ 32" using assms(1) by (simp add: n_def)
  then have un: "unat code = n" by (simp add: code unat_of_nat)
  have bits: "bit code k \<longleftrightarrow> k < 32 \<and> odd (n div 2 ^ k)" for k
    unfolding code bit_of_nat_iff possible_bit_word bit_iff_odd [of n k] by simp
  have two: "code AND 2 ^ k \<noteq> 0 \<longleftrightarrow> bit code k" for k by (simp add: and_exp_eq_0_iff_not_bit)
  have n0: "odd n \<longleftrightarrow> a" by (simp add: n_def)
  have n1: "odd (n div 2) \<longleftrightarrow> f"
  proof -
    have "n div 2 = 4 * q + (if f then 1 else 0) + (if g then 2 else 0)" unfolding n_def by (cases a; cases f; cases g) simp_all
    then show ?thesis by simp
  qed
  have n2: "odd (n div 4) \<longleftrightarrow> g"
  proof -
    have "n div 4 = 2 * q + (if g then 1 else 0)" unfolding n_def by (cases a; cases f; cases g) simp_all
    then show ?thesis by simp
  qed
  show "code AND 1 \<noteq> 0 \<longleftrightarrow> a" using two [of 0] bits [of 0] n0 by simp
  show f: "code AND 2 \<noteq> 0 \<longleftrightarrow> f" using two [of 1] bits [of 1] n1 by simp
  show g: "code AND 4 \<noteq> 0 \<longleftrightarrow> g" using two [of 2] bits [of 2] n2 by simp
  have "n div 8 = q" unfolding n_def by (cases a; cases f; cases g) simp_all
  then show "unat (code div 8) = q" by (simp add: unat_div un)
  have "(6 :: u32) = 2 OR 4" by simp
  then have "code AND 6 = (code AND 2) OR (code AND 4)" by (simp only: bit.conj_disj_distrib)
  then show "code AND 6 \<noteq> 0 \<longleftrightarrow> f \<or> g" using f g by (simp add: or_eq_0_iff)
qed

lemma mask_covers:
  assumes "CalcMaskSize vout = (nBytes, nNonzeroBytes)" "no_null_last vout"
  shows "length vout \<le> 2 + 8 * nBytes" "vout \<noteq> [] \<Longrightarrow> out_at vout 0 \<noteq> None \<or> out_at vout 1 \<noteq> None \<or> nNonzeroBytes \<noteq> 0"
proof -
  show le: "length vout \<le> 2 + 8 * nBytes"
  proof (rule ccontr)
    assume less: "\<not> length vout \<le> 2 + 8 * nBytes"
    define b i where "b = (length vout - 3) div 8" and "i = (length vout - 3) mod 8"
    have bi: "2 + b * 8 + i = length vout - 1" "i < 8" "nBytes \<le> b" using less by (simp_all add: b_def i_def)
    have "vout \<noteq> []" using less by auto
    then have "mask_bit vout b i" using bi(1) assms(2) less by (auto simp: mask_bit_def no_null_last_def last_conv_nth)
    then have "mask_byte vout b \<noteq> 0" using bi(2) by (auto simp: mask_byte_zero list_ex_iff simp del: upt_rec_numeral)
    then show False using CalcMaskSize_spec(3) [OF assms(1) bi(3)] by simp
  qed
  assume ne: "vout \<noteq> []"
  then have last: "out_at vout (length vout - 1) \<noteq> None" using assms(2) by (simp add: out_at_def no_null_last_def last_conv_nth)
  show "out_at vout 0 \<noteq> None \<or> out_at vout 1 \<noteq> None \<or> nNonzeroBytes \<noteq> 0"
  proof (cases "nBytes = 0")
    case True
    then have "length vout - 1 = 0 \<or> length vout - 1 = 1" using le by auto
    then show ?thesis using last by auto
  next
    case False
    then have "mask_byte vout (nBytes - 1) \<in> set (filter (\<lambda>c. c \<noteq> 0) (map (mask_byte vout) [0..<nBytes]))"
      using CalcMaskSize_spec(2) [OF assms(1)] by auto
    then have "filter (\<lambda>c. c \<noteq> 0) (map (mask_byte vout) [0..<nBytes]) \<noteq> []" by (metis empty_iff empty_set)
    then show ?thesis using CalcMaskSize_spec(1) [OF assms(1)] by (metis length_0_conv)
  qed
qed

lemma read_padded:
  assumes "env_ok env" "keys_ok env" "list_all (\<lambda>txout. CTxOut_IsNull txout \<or> storable txout) vout" "good_vout vout" "length vout \<le> n"
  shows "read_outputs env (map (\<lambda>i. out_at vout i \<noteq> None) [0..<n]) (out_bytes env vout @ s) =
      Inr (map (stored_out env) vout @ replicate (n - length vout) CTxOut_null, s)"
    "pop_nulls (map (stored_out env) vout @ replicate (n - length vout) CTxOut_null) = map (stored_out env) vout"
proof -
  let ?p = "vout @ replicate (n - length vout) CTxOut_null"
  have "map (\<lambda>i. out_at vout i \<noteq> None) [0..<n] = map (\<lambda>txout. \<not> CTxOut_IsNull txout) ?p"
    using assms(5) by (intro nth_equalityI) (auto simp: out_at_def nth_append)
  moreover have "out_bytes env ?p = out_bytes env vout" by (simp add: out_bytes_def)
  moreover have "list_all (\<lambda>txout. CTxOut_IsNull txout \<or> storable txout) ?p" "plain_nulls ?p"
    using assms(3,4) by (auto simp: list_all_iff good_vout_def plain_nulls_def)
  ultimately show "read_outputs env (map (\<lambda>i. out_at vout i \<noteq> None) [0..<n]) (out_bytes env vout @ s) =
      Inr (map (stored_out env) vout @ replicate (n - length vout) CTxOut_null, s)"
    using read_outputs_bytes [OF assms(1,2), of ?p s] by (simp add: stored_out_def)
  have null: "CTxOut_IsNull (stored_out env txout) = CTxOut_IsNull txout" if "txout \<in> set vout" for txout
    using assms(3) that by (intro stored_null) (auto simp: list_all_iff)
  have "stored_out env x = CTxOut_null" if "x \<in> set vout" "CTxOut_IsNull (stored_out env x)" for x
    using null [OF that(1)] that assms(4) by (simp add: stored_out_def good_vout_def plain_nulls_def list_all_iff)
  then have plain: "plain_nulls (map (stored_out env) vout)" by (simp add: plain_nulls_def list_all_iff)
  show "pop_nulls (map (stored_out env) vout @ replicate (n - length vout) CTxOut_null) = map (stored_out env) vout"
  proof (rule out_at_ext)
    show "no_null_last (map (stored_out env) vout)"
      using assms(4) null [of "last vout"] by (cases "vout = []") (auto simp: no_null_last_def good_vout_def last_map)
    show "plain_nulls (pop_nulls (map (stored_out env) vout @ replicate (n - length vout) CTxOut_null))"
      using plain by (intro plain_nulls_pop) (auto simp: plain_nulls_def list_all_iff)
    show "out_at (pop_nulls (map (stored_out env) vout @ replicate (n - length vout) CTxOut_null)) = out_at (map (stored_out env) vout)"
      unfolding out_at_pop by (rule out_at_append_nulls) (simp add: list_all_iff)
  qed (simp_all add: plain)
qed

lemma coins_roundtrip:
  assumes "env_ok env" "keys_ok env" "storable_coins c"
  obtains b where "CCoins_Serialize env c = Inr b"
    "\<And>s. CCoins_Unserialize env (b @ s) =
       Inr (c\<lparr>cc_fCoinStake := False, cc_vout := map (stored_out env) (cc_vout c)\<rparr>, s)"
proof -
  define vout where "vout = cc_vout c"
  obtain nBytes nNon where mask: "CalcMaskSize vout = (nBytes, nNon)" by force
  note spec = CalcMaskSize_spec [OF mask]
  have ok: "list_all (\<lambda>txout. CTxOut_IsNull txout \<or> storable txout) vout" "good_vout vout" "vout \<noteq> []" "length vout \<le> 2 ^ 30"
      "0 \<le> cc_nHeight c" "cc_nHeight c < 2 ^ 31" "0 \<le> cc_nVersion c" "cc_nVersion c < 2 ^ 31"
    using assms(3) by (simp_all add: storable_coins_def vout_def)
  have "no_null_last vout" using ok(2) by (simp add: good_vout_def)
  note covers = mask_covers [OF mask this]
  define f g where "f = (out_at vout 0 \<noteq> None)" and "g = (out_at vout 1 \<noteq> None)"
  have fg: "(length vout > 0 \<and> \<not> CTxOut_IsNull (vout ! 0)) = f" "(length vout > 1 \<and> \<not> CTxOut_IsNull (vout ! 1)) = g"
    by (simp_all add: f_def g_def out_at_def)
  have avail: "f \<or> g \<or> nNon \<noteq> 0" using covers(2) ok(3) by (simp add: f_def g_def)
  define q where "q = nNon - (if f \<or> g then 0 else 1)"
  define code where "code = 8 * of_nat q + (if cc_fCoinBase c then 1 else 0) + (if f then 2 else 0) + (if g then 4 else 0 :: u32)"
  have "nNon \<le> nBytes" using spec(1) length_filter_le [of "\<lambda>c. c \<noteq> 0" "map (mask_byte vout) [0..<nBytes]"] by simp
  then have "q < 2 ^ 28" using spec(4) ok(4) by (simp add: q_def)
  note fields = code_fields [OF this, of "cc_fCoinBase c" f g, folded code_def]
  have q: "of_nat nNon - (if f \<or> g then 0 else 1) = (of_nat q :: u32)" using avail by (auto simp: q_def of_nat_diff)
  let ?mask = "map (mask_byte vout) [0..<nBytes]"
  have ser: "CCoins_Serialize env c = Inr (WriteVarInt_int (cc_nVersion c) @ WriteVarInt code @ ?mask @ out_bytes env vout @
      WriteVarInt_int (cc_nHeight c))"
    unfolding CCoins_Serialize_def Let_def vout_def [symmetric] mask prod.case fg q code_def [symmetric]
    using avail write_outputs [OF assms(1,2) ok(1)] by simp
  have unser: "CCoins_Unserialize env ((WriteVarInt_int (cc_nVersion c) @ WriteVarInt code @ ?mask @ out_bytes env vout @
      WriteVarInt_int (cc_nHeight c)) @ s) = Inr (c\<lparr>cc_fCoinStake := False, cc_vout := map (stored_out env) vout\<rparr>, s)" for s
  proof -
    have count: "unat (code div 8) + (if code AND 6 \<noteq> 0 then 0 else 1) = nNon" using fields(4,5) avail by (auto simp: q_def)
    have "map (\<lambda>c. map (\<lambda>p. c AND push_bit p 1 \<noteq> 0) [0..<8]) ?mask = map (\<lambda>b. map (mask_bit vout b) [0..<8]) [0..<nBytes]"
      unfolding map_map o_def mask_byte_bits ..
    moreover have "?mask = [] \<or> last ?mask \<noteq> 0" using spec(2) by (auto simp: last_map)
    moreover have fg2: "[f, g] = map (\<lambda>i. out_at vout i \<noteq> None) [0..<2]" by (simp add: f_def g_def numeral_2_eq_2)
    ultimately have rmask: "read_mask nNon [f, g] (?mask @ t) = Inr (map (\<lambda>i. out_at vout i \<noteq> None) [0..<2 + 8 * nBytes], t)" for t
      using read_mask_bytes [of ?mask nNon "[f, g]" t, OF _ spec(1)] unfolding mask_positions [symmetric] by metis
    note pad = read_padded [OF assms(1,2) ok(1,2) covers(1)]
    show ?thesis
      unfolding CCoins_Unserialize_def append_assoc VarInt_int [OF ok(7,8)] VarInt_int [OF ok(5,6)] bindR_Inr prod.case ReadVarInt_Write Let_def
        fields(2,3) count rmask pad(1)
      using fields(1) pad(2) by (cases c) (simp add: CCoins_Cleanup_def CCoins_new_def)
  qed
  show ?thesis using that [OF ser] unser by (simp add: vout_def)
qed

text \<open>The undo data that \<^verbatim>\<open>UpdateCoins\<close> produces is read back as well.\<close>

lemma undo_roundtrip:
  assumes "env_ok env" "keys_ok env" "coins_good c" "0 \<le> cc_nVersion c" "cc_nVersion c < 2 ^ 31" "storable (cc_vout c ! n)"
  obtains b where "CTxInUndo_Serialize env (undo_for c n) = Inr b"
    "\<And>s. CTxInUndo_Unserialize env (b @ s) = Inr ((undo_for c n)\<lparr>un_txout := stored_form env (cc_vout c ! n)\<rparr>, s)"
proof -
  define u where "u = undo_for c n"
  obtain tb where tb: "CTxOutCompressor_Serialize env (cc_vout c ! n) = Inr tb"
      "\<And>s. CTxOutCompressor_Unserialize env (tb @ s) = Inr (stored_form env (cc_vout c ! n), s)"
    using stored_roundtrip [OF assms(1,2,6)] by blast
  have out: "un_txout u = cc_vout c ! n" by (simp add: u_def undo_for_def CTxInUndo_new_def)
  have "uint (word_of_int (cc_nHeight c) :: u32) = cc_nHeight c"
    using assms(3) by (simp add: coins_good_def uint_word_of_int_eq take_bit_int_eq_self)
  then have hc: "unat (word_of_int (cc_nHeight c) :: u32) = nat (cc_nHeight c)" by (metis nat_uint_eq)
  have u: "unat (un_nHeight u) < 2 ^ 31" "un_nHeight u = 0 \<Longrightarrow> un_nVersion u = 0" "0 \<le> un_nVersion u" "un_nVersion u < 2 ^ 31"
    using assms(3-5) hc by (auto simp: u_def undo_for_def CTxInUndo_new_def coins_good_def)
  define m where "m = 2 * unat (un_nHeight u) + (if un_fCoinBase u then 1 else 0)"
  define code where "code = un_nHeight u * 2 + (if un_fCoinBase u then 1 else 0)"
  have "m < 2 ^ 32" using u(1) by (simp add: m_def)
  moreover have code: "code = of_nat m" by (simp add: code_def m_def)
  ultimately have "unat code = m" by (simp add: unat_of_nat)
  moreover have "m div 2 = unat (un_nHeight u)" by (simp add: m_def)
  ultimately have half: "code div 2 = un_nHeight u" by (simp add: word_unat_eq_iff unat_div)
  have "code AND 2 ^ 0 \<noteq> 0 \<longleftrightarrow> odd m"
    unfolding and_exp_eq_0_iff_not_bit code bit_of_nat_iff possible_bit_word bit_iff_odd [of m 0] by simp
  then have low: "code AND 1 \<noteq> 0 \<longleftrightarrow> un_fCoinBase u" by (simp add: m_def)
  let ?b = "WriteVarInt code @ (if un_nHeight u > 0 then WriteVarInt_int (un_nVersion u) else []) @ tb"
  have "CTxInUndo_Serialize env u = Inr ?b" by (simp add: CTxInUndo_Serialize_def out tb(1) code_def)
  moreover have "CTxInUndo_Unserialize env (?b @ s) = Inr (u\<lparr>un_txout := stored_form env (cc_vout c ! n)\<rparr>, s)" for s
    unfolding CTxInUndo_Unserialize_def append_assoc ReadVarInt_Write bindR_Inr prod.case half low
    using u by (cases "un_nHeight u = 0") (auto simp: word_gt_0 VarInt_int tb(2))
  ultimately show ?thesis using that unfolding u_def by blast
qed

section \<open>Flushing to the database\<close>

definition stored_coins :: "('g, 's) CompEnv \<Rightarrow> ('g, 's) CCoins \<Rightarrow> ('g, 's) CCoins" where
  "stored_coins env c = c\<lparr>cc_fCoinStake := False, cc_vout := map (stored_out env) (cc_vout c)\<rparr>"

definition stored_entry :: "('g, 's) CompEnv \<Rightarrow> ('g, 's) CCoinsCacheEntry \<Rightarrow> bytes option \<Rightarrow> bytes option" where
  "stored_entry env e r =
     (if ce_flags e AND DIRTY = 0 then r
      else if CCoins_IsPruned (ce_coins e) then None
      else (case CCoins_Serialize env (ce_coins e) of Inr b \<Rightarrow> Some b | Inl _ \<Rightarrow> None))"

definition writable :: "('g, 's) CCoinsMap \<Rightarrow> bool" where
  "writable m =
     list_all (\<lambda>(txid, e). ce_flags e AND DIRTY = 0 \<or> CCoins_IsPruned (ce_coins e) \<or> storable_coins (ce_coins e)) m"

lemma db_batch:
  assumes "env_ok env" "keys_ok env" "writable m" "distinct (map fst m)"
  shows "\<exists>d'. foldR (db_batch_coin env) m d = Inr d' \<and>
    map_of d' = (\<lambda>t. case map_of m t of None \<Rightarrow> map_of d t | Some e \<Rightarrow> stored_entry env e (map_of d t))"
  using assms(3,4)
proof (induction m arbitrary: d)
  case (Cons p m)
  obtain t e where p: "p = (t, e)" by force
  have "ce_flags e AND DIRTY = 0 \<or> CCoins_IsPruned (ce_coins e) \<or> storable_coins (ce_coins e)"
    using Cons.prems(1) by (simp add: writable_def p)
  then have "\<exists>d1. db_batch_coin env p d = Inr d1 \<and> map_of d1 = (map_of d)(t := stored_entry env e (map_of d t))"
    using coins_roundtrip [OF assms(1,2), of "ce_coins e" "\<exists>b. CCoins_Serialize env (ce_coins e) = Inr b"]
    by (auto simp: p db_batch_coin_def stored_entry_def fun_upd_triv)
  then obtain d1 where d1: "db_batch_coin env p d = Inr d1" "map_of d1 = (map_of d)(t := stored_entry env e (map_of d t))" by blast
  have "writable m" "distinct (map fst m)" "map_of m t = None"
    using Cons.prems by (simp_all add: writable_def p map_of_eq_None_iff)
  with Cons.IH [of d1] d1 show ?case by (auto simp: p fun_eq_iff split: option.split)
qed simp

lemma stored_coins_kept:
  assumes "list_all (\<lambda>txout. CTxOut_IsNull txout \<or> kept_output txout) (cc_vout c)"
  shows "stored_coins env c = forget_stake c"
proof -
  have "map (stored_out env) (cc_vout c) = cc_vout c"
    using assms stored_form_exact by (intro map_idI) (auto simp: stored_out_def list_all_iff)
  then show ?thesis by (simp add: stored_coins_def forget_stake_def)
qed

lemma pruned_stored:
  assumes "storable_coins c"
  shows "\<not> CCoins_IsPruned (stored_coins env c)" "\<not> CCoins_IsPruned c"
proof -
  have c: "cc_vout c \<noteq> []" "\<not> CTxOut_IsNull (last (cc_vout c))" "storable (last (cc_vout c))"
    using assms by (auto simp: storable_coins_def good_vout_def no_null_last_def list_all_iff)
  then show "\<not> CCoins_IsPruned c" by (auto simp: CCoins_IsPruned_def list_all_iff)
  have "\<not> CTxOut_IsNull (stored_out env (last (cc_vout c)))" using c stored_null by blast
  then show "\<not> CCoins_IsPruned (stored_coins env c)" using c(1) by (auto simp: CCoins_IsPruned_def stored_coins_def list_all_iff)
qed

text \<open>
  C38. Flushing a cache to the database. When the changed coins can be stored (\<open>writable\<close>: non-negative height and
  version, amounts of money, no plain output of the amount C34 excludes), no assertion fails, and the database then has
  unspent coins for exactly the transactions the cache had them for: those the cache did not change are the same, and
  those it changed are read back with the same height and version and with the stored form of each output.
  \<^verbatim>\<open>fCoinStake\<close> is not written, so that whatever is read back counts as an ordinary transaction. When every output
  is one its stored form keeps (\<open>kept_output\<close>, see C34), nothing else is lost.
\<close>

theorem flush_to_database:
  assumes "env_ok env" "keys_ok env" "cache_ok env v" "coins_base v = CoinsDB d" "writable (cacheCoins v)"
  shows "\<exists>d'. Flush_coins env v = Inr (True, v\<lparr>cacheCoins := [], coins_base := CoinsDB d'\<rparr>) \<and>
    (\<forall>t. unspent env (CoinsDB d') t =
       (if \<exists>e. map_of (cacheCoins v) t = Some e \<and> ce_flags e AND DIRTY \<noteq> 0
        then map_option (stored_coins env) (unspent env (as_layer v) t) else unspent env (as_layer v) t)) \<and>
    \<not> cc_fCoinStake (stored_coins env c) \<and> cc_nHeight (stored_coins env c) = cc_nHeight c \<and>
    cc_nVersion (stored_coins env c) = cc_nVersion c \<and>
    (list_all (\<lambda>txout. CTxOut_IsNull txout \<or> kept_output txout) (cc_vout c) \<longrightarrow> stored_coins env c = forget_stake c)"
proof -
  have dist: "distinct (map fst (cacheCoins v))" using assms(3) by (simp add: cache_ok_def omap_ok_distinct)
  obtain d' where d': "foldR (db_batch_coin env) (cacheCoins v) d = Inr d'"
      "map_of d' = (\<lambda>t. case map_of (cacheCoins v) t of None \<Rightarrow> map_of d t | Some e \<Rightarrow> stored_entry env e (map_of d t))"
    using db_batch [OF assms(1,2,5) dist] by blast
  have "unspent env (CoinsDB d') t =
       (if \<exists>e. map_of (cacheCoins v) t = Some e \<and> ce_flags e AND DIRTY \<noteq> 0
        then map_option (stored_coins env) (unspent env (as_layer v) t) else unspent env (as_layer v) t)" for t
  proof (cases "map_of (cacheCoins v) t")
    case None
    then show ?thesis by (simp add: unspent_def view_as_layer assms(4) db_GetCoins_def d'(2))
  next
    case (Some e)
    have clean: "db_GetCoins env d t = Some (ce_coins e)" if "ce_flags e AND DIRTY = 0"
      using assms(3,4) Some that by (auto simp: cache_ok_def entry_ok_def)
    show ?thesis
    proof (cases "ce_flags e AND DIRTY = 0 \<or> CCoins_IsPruned (ce_coins e)")
      case True
      then show ?thesis using Some clean
        by (auto simp: unspent_def view_as_layer db_GetCoins_def d'(2) stored_entry_def)
    next
      case False
      then have st: "storable_coins (ce_coins e)" using assms(5) map_of_SomeD [OF Some] by (auto simp: writable_def list_all_iff)
      obtain b where "CCoins_Serialize env (ce_coins e) = Inr b" "\<And>s. CCoins_Unserialize env (b @ s) = Inr (stored_coins env (ce_coins e), s)"
        using coins_roundtrip [OF assms(1,2) st] by (auto simp: stored_coins_def)
      moreover from this(2) [of "[]"] have "CCoins_Unserialize env b = Inr (stored_coins env (ce_coins e), [])" by simp
      ultimately show ?thesis using Some False pruned_stored [OF st]
        by (simp add: unspent_def view_as_layer db_GetCoins_def d'(2) stored_entry_def)
    qed
  qed
  moreover have "Flush_coins env v = Inr (True, v\<lparr>cacheCoins := [], coins_base := CoinsDB d'\<rparr>)"
    using d'(1) by (simp add: Flush_coins_def assms(4))
  ultimately show ?thesis
    by (intro exI [of _ d'] conjI allI impI stored_coins_kept) (simp_all add: stored_coins_def)
qed

theorem flush_to_database_witness:
  "\<exists>d'. Flush_coins sample_comp_env (sample_cache\<lparr>coins_base := CoinsDB []\<rparr>) =
       Inr (True, \<lparr>cacheCoins = [], coins_base = CoinsDB d'\<rparr>) \<and>
     cc_fCoinStake sample_coins \<and> unspent sample_comp_env (CoinsDB d') 7 = Some (forget_stake sample_coins)"
proof -
  let ?v = "sample_cache\<lparr>coins_base := CoinsDB []\<rparr>"
  have env: "env_ok sample_comp_env" "keys_ok sample_comp_env"
    by (simp_all add: env_ok_def keys_ok_def sample_comp_env_def sample_env_def SerEnv.defs)
  have ok: "cache_ok sample_comp_env ?v" by (simp add: cache_ok_def sample_cache_def entry_ok_def omap_ok_def db_GetCoins_def)
  have "storable_coins sample_coins"
    by (simp add: storable_coins_def sample_coins_def good_vout_def no_null_last_def plain_nulls_def storable_def CTxOut_data_def
        sample_txout_def CTxOut_ok_def MoneyRange_def proof_ok_def BulletproofsRangeproof_empty_def CTxOut_IsNull_def)
  then have wr: "writable (cacheCoins ?v)" by (simp add: writable_def sample_cache_def)
  have un: "unspent sample_comp_env (as_layer ?v) 7 = Some sample_coins"
    by (simp add: unspent_def view_as_layer sample_cache_def sample_live)
  have "stored_coins sample_comp_env sample_coins = forget_stake sample_coins"
    by (simp add: stored_coins_def forget_stake_def sample_coins_def stored_out_def stored_form_def CTxOut_data_def
        CTxOut_GetBulletproof_def sample_txout_def CTxOut_IsNull_def)
  moreover have "\<exists>e. map_of (cacheCoins ?v) 7 = Some e \<and> ce_flags e AND DIRTY \<noteq> 0" by (simp add: sample_cache_def)
  ultimately show ?thesis using flush_to_database [OF env ok _ wr, of "[]" sample_coins] un
    by (auto simp: sample_cache_def sample_coins_def)
qed

end
