(* ===== verification/Merkle.thy ===== *)
theory Merkle
  imports Transaction
begin

text \<open>
  Merkle trees (\<^verbatim>\<open>consensus/merkle.cpp\<close>): the constant-space computation of the root and of a branch, and the
  roots of a block. The hash function is a parameter. A read outside of the array \<^verbatim>\<open>inner\<close>, which more than
  \<open>2 ^ 31\<close> leaves may cause, is the error branch \<open>NullDereference\<close>.
\<close>

section \<open>The computation\<close>

definition hash_pair :: "(bytes \<Rightarrow> uint256) \<Rightarrow> uint256 \<Rightarrow> uint256 \<Rightarrow> uint256" where
  "hash_pair Hash a b = Hash (Serialize_uint256 a @ Serialize_uint256 b)"

text \<open>
  What a step up does to \<^verbatim>\<open>matchh\<close> and to the branch; \<open>None\<close> stands for a null \<^verbatim>\<open>pbranch\<close>.
\<close>

definition push_branch ::
  "uint256 list \<Rightarrow> int \<Rightarrow> nat \<Rightarrow> uint256 \<Rightarrow> bool \<times> uint256 list option \<Rightarrow> bool \<times> uint256 list option" where
  "push_branch inner matchlevel level h = (\<lambda>(matchh, pbranch).
     case pbranch of
       None \<Rightarrow> (matchh, None)
     | Some br \<Rightarrow>
         if matchh then (matchh, Some (br @ [inner ! level]))
         else if matchlevel = int level then (True, Some (br @ [h]))
         else (matchh, Some br))"

text \<open>The loop over the zero bits of \<^verbatim>\<open>count\<close> when a leaf is added.\<close>

function leaf_loop ::
  "(bytes \<Rightarrow> uint256) \<Rightarrow> u32 \<Rightarrow> uint256 list \<Rightarrow> int \<Rightarrow> nat \<Rightarrow> uint256 \<Rightarrow> bool \<Rightarrow> bool \<times> uint256 list option \<Rightarrow>
   (nat \<times> uint256 \<times> bool \<times> bool \<times> uint256 list option) result" where
  "leaf_loop Hash count inner matchlevel level h mutated mb =
     (if level \<ge> 32 then Inl NullDereference
      else if count AND push_bit level 1 \<noteq> 0 then Inr (level, h, mutated, mb)
      else leaf_loop Hash count inner matchlevel (level + 1) (hash_pair Hash (inner ! level) h) (mutated \<or> inner ! level = h)
             (push_branch inner matchlevel level h mb))"
  by pat_completeness auto

termination
  by (relation "measure (\<lambda>(Hash, count, inner, matchlevel, level, h, mutated, mb). 32 - level)") auto

declare leaf_loop.simps [simp del]

record MerkleState =
  ms_count :: u32
  ms_inner :: "uint256 list"
  ms_matchlevel :: int
  ms_mutated :: bool
  ms_branch :: "uint256 list option"

definition add_leaf :: "(bytes \<Rightarrow> uint256) \<Rightarrow> u32 \<Rightarrow> uint256 \<Rightarrow> MerkleState \<Rightarrow> MerkleState result" where
  "add_leaf Hash branchpos leaf st =
     (let matchh = (ms_count st = branchpos); count = ms_count st + 1
      in bindR (leaf_loop Hash count (ms_inner st) (ms_matchlevel st) 0 leaf (ms_mutated st) (matchh, ms_branch st))
           (\<lambda>(level, h, mutated, matchh, pbranch).
              Inr \<lparr>ms_count = count, ms_inner = (ms_inner st)[level := h],
                ms_matchlevel = (if matchh then int level else ms_matchlevel st), ms_mutated = mutated, ms_branch = pbranch\<rparr>))"

text \<open>The sweep over the rightmost branch: skipping the zero bits, and one round of the outer loop.\<close>

function skip_level :: "u32 \<Rightarrow> nat \<Rightarrow> nat result" where
  "skip_level count level =
     (if level \<ge> 32 then Inl NullDereference
      else if count AND push_bit level 1 \<noteq> 0 then Inr level else skip_level count (level + 1))"
  by pat_completeness auto

termination
  by (relation "measure (\<lambda>(count, level). 32 - level)") auto

function sweep_up ::
  "(bytes \<Rightarrow> uint256) \<Rightarrow> u32 \<Rightarrow> uint256 list \<Rightarrow> int \<Rightarrow> nat \<Rightarrow> uint256 \<Rightarrow> bool \<times> uint256 list option \<Rightarrow>
   (nat \<times> uint256 \<times> bool \<times> uint256 list option) result" where
  "sweep_up Hash count inner matchlevel level h mb =
     (if level \<ge> 32 then Inl NullDereference
      else if count AND push_bit level 1 \<noteq> 0 then Inr (level, h, mb)
      else sweep_up Hash count inner matchlevel (level + 1) (hash_pair Hash (inner ! level) h) (push_branch inner matchlevel level h mb))"
  by pat_completeness auto

termination
  by (relation "measure (\<lambda>(Hash, count, inner, matchlevel, level, h, mb). 32 - level)") auto

declare skip_level.simps [simp del] sweep_up.simps [simp del]

lemma bindR_cong [fundef_cong]: "r = r' \<Longrightarrow> (\<And>x. r' = Inr x \<Longrightarrow> f x = g x) \<Longrightarrow> bindR r f = bindR r' g"
  by (cases r') simp_all

lemma sweep_up_level: "sweep_up Hash count inner matchlevel level h mb = Inr (level', r) \<Longrightarrow> level \<le> level' \<and> level' < 32"
  by (induction Hash count inner matchlevel level h mb rule: sweep_up.induct)
    (subst (asm) (2) sweep_up.simps, auto split: if_splits)

function sweep ::
  "(bytes \<Rightarrow> uint256) \<Rightarrow> u32 \<Rightarrow> uint256 list \<Rightarrow> int \<Rightarrow> nat \<Rightarrow> uint256 \<Rightarrow> bool \<times> uint256 list option \<Rightarrow>
   (uint256 \<times> uint256 list option) result" where
  "sweep Hash count inner matchlevel level h mb =
     (if level \<ge> 32 then Inl NullDereference
      else if count = push_bit level 1 then Inr (h, snd mb)
      else
        bindR (sweep_up Hash (count + push_bit level 1) inner matchlevel (level + 1) (hash_pair Hash h h)
                 (fst mb, case snd mb of Some br \<Rightarrow> Some (if fst mb then br @ [h] else br) | None \<Rightarrow> None))
          (\<lambda>(level', h, mb). sweep Hash (count + push_bit level 1) inner matchlevel level' h mb))"
  by pat_completeness auto

termination
  by (relation "measure (\<lambda>(Hash, count, inner, matchlevel, level, h, mb). 32 - level)") (auto dest: sweep_up_level)

declare sweep.simps [simp del]

definition MerkleComputation ::
  "(bytes \<Rightarrow> uint256) \<Rightarrow> uint256 list \<Rightarrow> u32 \<Rightarrow> bool \<Rightarrow> (uint256 \<times> bool \<times> uint256 list option) result" where
  "MerkleComputation Hash leaves branchpos want =
     (let pbranch = (if want then Some [] else None)
      in if leaves = [] then Inr (0, False, pbranch)
         else
           bindR (foldR (add_leaf Hash branchpos) leaves
                    \<lparr>ms_count = 0, ms_inner = replicate 32 0, ms_matchlevel = - 1, ms_mutated = False, ms_branch = pbranch\<rparr>) (\<lambda>st.
           bindR (skip_level (ms_count st) 0) (\<lambda>level.
           bindR (sweep Hash (ms_count st) (ms_inner st) (ms_matchlevel st) level (ms_inner st ! level)
                    (ms_matchlevel st = int level, ms_branch st)) (\<lambda>(h, pbranch).
             Inr (h, ms_mutated st, pbranch)))))"

definition ComputeMerkleRoot :: "(bytes \<Rightarrow> uint256) \<Rightarrow> uint256 list \<Rightarrow> (uint256 \<times> bool) result" where
  "ComputeMerkleRoot Hash leaves =
     bindR (MerkleComputation Hash leaves (- 1) False) (\<lambda>(hash, mutated, pbranch). Inr (hash, mutated))"

definition ComputeMerkleBranch :: "(bytes \<Rightarrow> uint256) \<Rightarrow> uint256 list \<Rightarrow> u32 \<Rightarrow> uint256 list result" where
  "ComputeMerkleBranch Hash leaves position =
     bindR (MerkleComputation Hash leaves position True) (\<lambda>(hash, mutated, pbranch).
       Inr (case pbranch of Some ret \<Rightarrow> ret | None \<Rightarrow> []))"

primrec ComputeMerkleRootFromBranch :: "(bytes \<Rightarrow> uint256) \<Rightarrow> uint256 \<Rightarrow> uint256 list \<Rightarrow> u32 \<Rightarrow> uint256" where
  "ComputeMerkleRootFromBranch Hash hash [] nIndex = hash"
| "ComputeMerkleRootFromBranch Hash hash (it # vMerkleBranch) nIndex =
     ComputeMerkleRootFromBranch Hash
       (if nIndex AND 1 \<noteq> 0 then hash_pair Hash it hash else hash_pair Hash hash it) vMerkleBranch (drop_bit 1 nIndex)"

section \<open>The roots of a block\<close>

definition tx_hashes :: "('a \<Rightarrow> uint256 result) \<Rightarrow> 'a list \<Rightarrow> uint256 list result" where
  "tx_hashes f vtx = foldR (\<lambda>tx leaves. bindR (f tx) (\<lambda>h. Inr (leaves @ [h]))) vtx []"

definition BlockMerkleRoot ::
  "(bytes \<Rightarrow> uint256) \<Rightarrow> ('g, 's, 'z) SerEnv_scheme \<Rightarrow> ('g, 's) CTransaction list \<Rightarrow> (uint256 \<times> bool) result" where
  "BlockMerkleRoot Hash env vtx = bindR (tx_hashes (CTransaction_GetHash Hash env) vtx) (ComputeMerkleRoot Hash)"

text \<open>
  The leaf of the coinbase is null. With \<^verbatim>\<open>fIgnoreCoinStake\<close> the second transaction is left out; a block without any leaf
  is written out of bounds, or resized to a negative number of leaves, which throws.
\<close>

definition BlockWitnessMerkleRoot ::
  "(bytes \<Rightarrow> uint256) \<Rightarrow> ('g, 's, 'z) SerEnv_scheme \<Rightarrow> ('g, 's) CTransaction list \<Rightarrow> bool \<Rightarrow> (uint256 \<times> bool) result" where
  "BlockWitnessMerkleRoot Hash env vtx fIgnoreCoinStake =
     (if vtx = [] \<and> fIgnoreCoinStake then Inl StdException
      else if length vtx \<le> (if fIgnoreCoinStake then 1 else 0) then Inl NullDereference
      else bindR (tx_hashes (CTransaction_GetWitnessHash Hash env) (drop (if fIgnoreCoinStake then 2 else 1) vtx))
             (\<lambda>hashes. ComputeMerkleRoot Hash (0 # hashes)))"

definition BlockMerkleBranch ::
  "(bytes \<Rightarrow> uint256) \<Rightarrow> ('g, 's, 'z) SerEnv_scheme \<Rightarrow> ('g, 's) CTransaction list \<Rightarrow> u32 \<Rightarrow> uint256 list result" where
  "BlockMerkleBranch Hash env vtx position =
     bindR (tx_hashes (CTransaction_GetHash Hash env) vtx) (\<lambda>leaves. ComputeMerkleBranch Hash leaves position)"

end
