(* ===== verification/MerkleLaws.thy ===== *)
theory MerkleLaws
  imports Merkle
begin

text \<open>
  The constant-space computation of Merkle roots and branches agrees with the textbook tree, level by level, and its test
  for mutated lists makes the root binding.
\<close>

section \<open>The tree by levels\<close>

fun pair_up :: "(bytes \<Rightarrow> uint256) \<Rightarrow> uint256 list \<Rightarrow> uint256 list" where
  "pair_up H [] = []"
| "pair_up H [a] = [hash_pair H a a]"
| "pair_up H (a # b # xs) = hash_pair H a b # pair_up H xs"

lemma length_pair_up [simp]: "length (pair_up H xs) = (length xs + 1) div 2"
  by (induction H xs rule: pair_up.induct) simp_all

function merkle_tree_root :: "(bytes \<Rightarrow> uint256) \<Rightarrow> uint256 list \<Rightarrow> uint256" where
  "merkle_tree_root H xs = (if length xs \<le> 1 then (case xs of [] \<Rightarrow> 0 | x # _ \<Rightarrow> x) else merkle_tree_root H (pair_up H xs))"
  by pat_completeness auto

termination
  by (relation "measure (\<lambda>(H, xs). length xs)") auto

declare merkle_tree_root.simps [simp del]

definition lev :: "(bytes \<Rightarrow> uint256) \<Rightarrow> uint256 list \<Rightarrow> nat \<Rightarrow> uint256 list" where
  "lev H xs l = (pair_up H ^^ l) xs"

lemma lev_0 [simp]: "lev H xs 0 = xs"
  by (simp add: lev_def)

lemma lev_Suc: "lev H xs (Suc l) = pair_up H (lev H xs l)"
  by (simp add: lev_def)

lemma lev_pair_up: "lev H (pair_up H xs) l = lev H xs (Suc l)"
  by (simp add: lev_def funpow_swap1)

lemma nth_pair_up:
  "i < (length xs + 1) div 2 \<Longrightarrow>
   pair_up H xs ! i = hash_pair H (xs ! (2 * i)) (xs ! (if 2 * i + 1 < length xs then 2 * i + 1 else 2 * i))"
proof (induction H xs arbitrary: i rule: pair_up.induct)
  case (3 H a b xs)
  then show ?case by (cases i) auto
qed auto

lemma length_lev: "xs \<noteq> [] \<Longrightarrow> length (lev H xs l) = (length xs - 1) div 2 ^ l + 1"
proof (induction l)
  case 0
  then show ?case by (cases xs) simp_all
next
  case (Suc l)
  then show ?case by (simp add: lev_Suc div_mult2_eq [symmetric] mult.commute)
qed

lemma index_lev:
  assumes "c < length xs"
  shows "c div 2 ^ l < length (lev H xs l)"
proof -
  have "c \<le> length xs - 1" "xs \<noteq> []" using assms by auto
  then show ?thesis using div_le_mono [of c "length xs - 1" "2 ^ l"] by (simp add: length_lev)
qed

lemma lev_root:
  assumes "length (lev H xs l) = 1" "2 ^ l < 2 * length xs"
  shows "merkle_tree_root H xs = lev H xs l ! 0"
  using assms
proof (induction l arbitrary: xs)
  case 0
  then show ?case by (cases xs) (simp_all add: merkle_tree_root.simps)
next
  case (Suc l)
  have long: "2 ^ l < length xs" using Suc.prems(2) by simp
  moreover have "1 \<le> (2 :: nat) ^ l" by simp
  ultimately have "1 < length xs" by linarith
  then have "merkle_tree_root H xs = merkle_tree_root H (pair_up H xs)" by (simp add: merkle_tree_root.simps [of H xs])
  moreover have "2 ^ l < 2 * length (pair_up H xs)" using long by simp
  ultimately show ?case using Suc.IH [of "pair_up H xs"] Suc.prems(1) by (simp add: lev_pair_up)
qed

lemma lev_Suc_nth:
  assumes "i < length (lev H xs (Suc l))"
  shows "lev H xs (Suc l) ! i = hash_pair H (lev H xs l ! (2 * i))
    (lev H xs l ! (if 2 * i + 1 < length (lev H xs l) then 2 * i + 1 else 2 * i))"
  using assms by (simp add: lev_Suc nth_pair_up)

section \<open>Arithmetic of the counter\<close>

lemma counter_bit: "l < 32 \<Longrightarrow> of_nat c AND push_bit l 1 \<noteq> (0 :: u32) \<longleftrightarrow> odd (c div 2 ^ l)"
  unfolding push_bit_of_1 and_exp_eq_0_iff_not_bit bit_of_nat_iff possible_bit_word bit_iff_odd [of c l] by simp

lemma unat_counter: "m < 2 ^ 32 \<Longrightarrow> unat (of_nat m :: u32) = m"
  by (simp add: unat_of_nat)

lemma counter_half: "m < 2 ^ 32 \<Longrightarrow> drop_bit 1 (of_nat m :: u32) = of_nat (m div 2)"
  unfolding word_unat_eq_iff unat_drop_bit_eq drop_bit_eq_div by (simp add: unat_counter unat_div_distrib)

lemma div_Suc_dvd: "2 ^ l dvd Suc c \<Longrightarrow> Suc c div 2 ^ l = Suc (c div 2 ^ l)"
  by (simp add: div_Suc dvd_eq_mod_eq_0)

lemma div_Suc_not_dvd: "\<not> 2 ^ l dvd Suc c \<Longrightarrow> Suc c div 2 ^ l = c div 2 ^ l"
  by (simp add: div_Suc dvd_eq_mod_eq_0)

lemma div_power_Suc: "x div 2 ^ Suc l = x div 2 ^ l div 2" for x :: nat
  by (metis div_mult2_eq power_Suc2)

lemma dvd_double: "2 ^ l dvd m \<Longrightarrow> 2 ^ Suc l dvd m \<longleftrightarrow> even (m div 2 ^ l)" for m :: nat
  by (auto elim!: dvdE)

lemma dvd_bound: "2 ^ l dvd m \<Longrightarrow> 0 < m \<Longrightarrow> m \<le> 2 ^ 31 \<Longrightarrow> l < 32" for m :: nat
  using dvd_imp_le [of "2 ^ l" m] power_le_imp_le_exp [of "2 :: nat" l 31] by simp

text \<open>Two complete subtrees next to each other, among the first \<open>c\<close> leaves, with the same hash.\<close>

definition duplicated :: "(bytes \<Rightarrow> uint256) \<Rightarrow> uint256 list \<Rightarrow> nat \<Rightarrow> bool" where
  "duplicated H xs c = (\<exists>l i. (2 * i + 2) * 2 ^ l \<le> c \<and> lev H xs l ! (2 * i) = lev H xs l ! (2 * i + 1))"

lemma duplicated_0 [simp]: "\<not> duplicated H xs 0"
  by (simp add: duplicated_def)

lemma duplicated_Suc:
  "duplicated H xs (Suc c) \<longleftrightarrow> duplicated H xs c \<or>
     (\<exists>l. 2 ^ Suc l dvd Suc c \<and> lev H xs l ! (c div 2 ^ l - 1) = lev H xs l ! (c div 2 ^ l))"
proof -
  have "(2 * i + 2) * 2 ^ l = Suc c \<and> lev H xs l ! (2 * i) = lev H xs l ! (2 * i + 1) \<longleftrightarrow>
      2 ^ Suc l dvd Suc c \<and> Suc c div 2 ^ Suc l = Suc i \<and> lev H xs l ! (c div 2 ^ l - 1) = lev H xs l ! (c div 2 ^ l)" for l i
  proof (cases "2 ^ Suc l dvd Suc c")
    case True
    then have dvd: "2 ^ l dvd Suc c" using dvd_mult_left [of "2 ^ l" 2 "Suc c"] by (simp add: mult.commute)
    have "(2 * i + 2) * 2 ^ l = Suc i * 2 ^ Suc l" by simp
    moreover have "Suc i * 2 ^ Suc l = Suc c \<longleftrightarrow> Suc c div 2 ^ Suc l = Suc i" using True by (metis dvd_div_mult_self nonzero_mult_div_cancel_right power_not_zero zero_neq_numeral)
    moreover have "c div 2 ^ l = 2 * i + 1" if "Suc i * 2 ^ Suc l = Suc c"
    proof -
      have "Suc c div 2 ^ l = (2 * Suc i) * 2 ^ l div 2 ^ l" using that by (simp add: algebra_simps)
      also have "\<dots> = 2 * Suc i" by simp
      finally show ?thesis using div_Suc_dvd [OF dvd] by simp
    qed
    ultimately show ?thesis using True by (auto simp: algebra_simps)
  next
    case False
    have "2 ^ Suc l dvd (2 * i + 2) * 2 ^ l" using dvd_triv_right [of "2 ^ Suc l" "Suc i"] by (simp add: algebra_simps)
    then show ?thesis using False by metis
  qed
  moreover have "\<exists>i. Suc c div 2 ^ Suc l = Suc i" if "2 ^ Suc l dvd Suc c" for l
    using that by (metis dvd_div_eq_0_iff nat.distinct(1) not0_implies_Suc)
  ultimately have "(\<exists>l i. (2 * i + 2) * 2 ^ l = Suc c \<and> lev H xs l ! (2 * i) = lev H xs l ! (2 * i + 1)) \<longleftrightarrow>
      (\<exists>l. 2 ^ Suc l dvd Suc c \<and> lev H xs l ! (c div 2 ^ l - 1) = lev H xs l ! (c div 2 ^ l))" by metis
  moreover have "duplicated H xs (Suc c) \<longleftrightarrow> duplicated H xs c \<or>
      (\<exists>l i. (2 * i + 2) * 2 ^ l = Suc c \<and> lev H xs l ! (2 * i) = lev H xs l ! (2 * i + 1))"
    by (auto simp: duplicated_def le_Suc_eq)
  ultimately show ?thesis by simp
qed

section \<open>Adding leaves\<close>

text \<open>The sibling of the node above leaf \<open>pos\<close>, and what the branch is known to be when \<open>c\<close> leaves are added.\<close>

definition sibling :: "(bytes \<Rightarrow> uint256) \<Rightarrow> uint256 list \<Rightarrow> nat \<Rightarrow> nat \<Rightarrow> uint256" where
  "sibling H xs pos l =
     (let j = pos div 2 ^ l
      in lev H xs l ! (if odd j then j - 1 else if j + 1 < length (lev H xs l) then j + 1 else j))"

definition branch_at :: "(bytes \<Rightarrow> uint256) \<Rightarrow> uint256 list \<Rightarrow> nat \<Rightarrow> nat \<Rightarrow> int \<Rightarrow> uint256 list \<Rightarrow> bool" where
  "branch_at H xs pos c matchlevel br =
     (if c \<le> pos then matchlevel = - 1 \<and> br = []
      else \<exists>m. matchlevel = int m \<and> odd (c div 2 ^ m) \<and> Suc (pos div 2 ^ m) = c div 2 ^ m \<and> br = map (sibling H xs pos) [0..<m])"

definition inner_ok :: "(bytes \<Rightarrow> uint256) \<Rightarrow> uint256 list \<Rightarrow> nat \<Rightarrow> uint256 list \<Rightarrow> bool" where
  "inner_ok H xs c inner =
     (length inner = 32 \<and> (\<forall>l < 32. odd (c div 2 ^ l) \<longrightarrow> inner ! l = lev H xs l ! (c div 2 ^ l - 1)))"

text \<open>In the middle of adding leaf \<open>c\<close>, at level \<open>l\<close>.\<close>

definition rising :: "(bytes \<Rightarrow> uint256) \<Rightarrow> uint256 list \<Rightarrow> nat \<Rightarrow> nat \<Rightarrow> int \<Rightarrow> nat \<Rightarrow> bool \<times> uint256 list option \<Rightarrow> bool" where
  "rising H xs pos c matchlevel l = (\<lambda>(matchh, pbranch).
     case pbranch of
       None \<Rightarrow> True
     | Some br \<Rightarrow>
         if matchh then pos \<le> c \<and> pos div 2 ^ l = c div 2 ^ l \<and> br = map (sibling H xs pos) [0..<l]
         else pos \<noteq> c \<and> branch_at H xs pos c matchlevel br \<and> (pos < c \<longrightarrow> int l \<le> matchlevel))"

lemma sibling_odd: "odd (pos div 2 ^ l) \<Longrightarrow> sibling H xs pos l = lev H xs l ! (pos div 2 ^ l - 1)"
  by (simp add: sibling_def)

lemma sibling_even:
  "even (pos div 2 ^ l) \<Longrightarrow> pos div 2 ^ l + 1 < length (lev H xs l) \<Longrightarrow> sibling H xs pos l = lev H xs l ! (pos div 2 ^ l + 1)"
  by (simp add: sibling_def)

lemma rising_step:
  assumes "rising H xs pos c matchlevel l mb" "c < length xs" "2 ^ Suc l dvd Suc c" "inner ! l = lev H xs l ! (c div 2 ^ l - 1)"
    "h = lev H xs l ! (c div 2 ^ l)"
  shows "rising H xs pos c matchlevel (Suc l) (push_branch inner matchlevel l h mb)"
proof (cases "snd mb")
  case None
  then show ?thesis by (cases mb) (simp add: rising_def push_branch_def)
next
  case (Some br)
  have dvd: "2 ^ l dvd Suc c" using assms(3) dvd_mult_left [of "2 ^ l" 2 "Suc c"] by (simp add: mult.commute)
  have odd: "odd (c div 2 ^ l)" using dvd_double [OF dvd] div_Suc_dvd [OF dvd] assms(3) by simp
  have len: "c div 2 ^ l < length (lev H xs l)" using assms(2) by (rule index_lev)
  show ?thesis
  proof (cases "fst mb")
    case True
    then have "pos \<le> c" "pos div 2 ^ l = c div 2 ^ l" "br = map (sibling H xs pos) [0..<l]"
      using assms(1) Some by (auto simp: rising_def split: prod.splits)
    then show ?thesis using True Some odd assms(4) sibling_odd [of pos l H xs]
      by (cases mb) (simp add: rising_def push_branch_def div_power_Suc del: power_Suc)
  next
    case False
    then have f: "pos \<noteq> c" "branch_at H xs pos c matchlevel br" "pos < c \<longrightarrow> int l \<le> matchlevel"
      using assms(1) Some by (auto simp: rising_def split: prod.splits)
    show ?thesis
    proof (cases "matchlevel = int l")
      case True
      then have m: "pos < c" "Suc (pos div 2 ^ l) = c div 2 ^ l" "br = map (sibling H xs pos) [0..<l]"
        using f by (auto simp: branch_at_def split: if_splits)
      then have "pos div 2 ^ l div 2 = c div 2 ^ l div 2" using odd by (metis even_Suc even_Suc_div_two)
      moreover have "sibling H xs pos l = h" using m(2) odd len assms(5) sibling_even [of pos l H xs] by (metis Suc_eq_plus1 even_Suc)
      ultimately show ?thesis using True False Some m by (cases mb) (simp add: rising_def push_branch_def div_power_Suc del: power_Suc)
    next
      case no: False
      then have "pos < c \<longrightarrow> int (Suc l) \<le> matchlevel" using f(3) by auto
      then show ?thesis using no False Some f by (cases mb) (simp add: rising_def push_branch_def)
    qed
  qed
qed

lemma leaf_loop_spec:
  assumes "Suc c \<le> length xs" "length xs \<le> 2 ^ 31" "inner_ok H xs c inner" "2 ^ l dvd Suc c" "h = lev H xs l ! (c div 2 ^ l)"
    "rising H xs pos c matchlevel l mb"
  shows "\<exists>L mb'. leaf_loop H (of_nat (Suc c)) inner matchlevel l h mutated mb =
      Inr (L, lev H xs L ! (c div 2 ^ L),
        mutated \<or> (\<exists>k. l \<le> k \<and> 2 ^ Suc k dvd Suc c \<and> lev H xs k ! (c div 2 ^ k - 1) = lev H xs k ! (c div 2 ^ k)), mb') \<and>
    L < 32 \<and> 2 ^ L dvd Suc c \<and> odd (Suc c div 2 ^ L) \<and> rising H xs pos c matchlevel L mb' \<and>
    (snd mb' = None \<longleftrightarrow> snd mb = None)"
  using assms(4-6)
proof (induction "32 - l" arbitrary: l h mutated mb rule: less_induct)
  case less
  have l: "l < 32" using dvd_bound [OF less.prems(1)] assms(1,2) by simp
  show ?case
  proof (cases "odd (Suc c div 2 ^ l)")
    case True
    then have "\<not> 2 ^ Suc l dvd Suc c" using dvd_double [OF less.prems(1)] by simp
    then have none: "\<not> 2 ^ Suc k dvd Suc c" if "l \<le> k" for k
      using that le_imp_power_dvd [of "Suc l" "Suc k" "2 :: nat"] dvd_trans by (metis Suc_le_mono)
    have "leaf_loop H (of_nat (Suc c)) inner matchlevel l h mutated mb = Inr (l, h, mutated, mb)"
      using l True counter_bit [OF l, of "Suc c"] by (subst leaf_loop.simps) (simp del: of_nat_Suc)
    then show ?thesis using less.prems none l True by (intro exI [of _ l] exI [of _ mb]) auto
  next
    case False
    then have dvd: "2 ^ Suc l dvd Suc c" using dvd_double [OF less.prems(1)] by simp
    have j: "odd (c div 2 ^ l)" using False div_Suc_dvd [OF less.prems(1)] by simp
    have inner: "inner ! l = lev H xs l ! (c div 2 ^ l - 1)" using assms(3) l j by (simp add: inner_ok_def)
    have len: "c div 2 ^ Suc l < length (lev H xs (Suc l))" "c div 2 ^ l < length (lev H xs l)"
      using index_lev [of c xs "Suc l" H] index_lev [of c xs l H] assms(1) by simp_all
    have "2 * (c div 2 ^ Suc l) = c div 2 ^ l - 1" "2 * (c div 2 ^ Suc l) + 1 = c div 2 ^ l"
      unfolding div_power_Suc using j by (metis add_diff_cancel_right' odd_two_times_div_two_succ, metis odd_two_times_div_two_succ)
    then have h': "lev H xs (Suc l) ! (c div 2 ^ Suc l) = hash_pair H (inner ! l) h"
      using lev_Suc_nth [OF len(1)] len(2) inner less.prems(2) by simp
    have up: "rising H xs pos c matchlevel (Suc l) (push_branch inner matchlevel l h mb)"
      using rising_step [OF less.prems(3) _ dvd inner less.prems(2)] assms(1) by simp
    have "32 - Suc l < 32 - l" using l by simp
    from less.hyps [OF this dvd h' [symmetric] up, of "mutated \<or> inner ! l = h"]
    obtain L mb' where ih: "leaf_loop H (of_nat (Suc c)) inner matchlevel (Suc l) (hash_pair H (inner ! l) h) (mutated \<or> inner ! l = h)
          (push_branch inner matchlevel l h mb) = Inr (L, lev H xs L ! (c div 2 ^ L), (mutated \<or> inner ! l = h) \<or>
            (\<exists>k. Suc l \<le> k \<and> 2 ^ Suc k dvd Suc c \<and> lev H xs k ! (c div 2 ^ k - 1) = lev H xs k ! (c div 2 ^ k)), mb')"
        "L < 32" "2 ^ L dvd Suc c" "odd (Suc c div 2 ^ L)" "rising H xs pos c matchlevel L mb'"
        "snd mb' = None \<longleftrightarrow> snd (push_branch inner matchlevel l h mb) = None"
      by (elim exE conjE)
    have "leaf_loop H (of_nat (Suc c)) inner matchlevel l h mutated mb =
        leaf_loop H (of_nat (Suc c)) inner matchlevel (Suc l) (hash_pair H (inner ! l) h) (mutated \<or> inner ! l = h)
          (push_branch inner matchlevel l h mb)"
      using l False counter_bit [OF l, of "Suc c"] by (subst leaf_loop.simps) (simp del: of_nat_Suc)
    moreover have "(\<exists>k. l \<le> k \<and> 2 ^ Suc k dvd Suc c \<and> lev H xs k ! (c div 2 ^ k - 1) = lev H xs k ! (c div 2 ^ k)) \<longleftrightarrow>
        inner ! l = h \<or> (\<exists>k. Suc l \<le> k \<and> 2 ^ Suc k dvd Suc c \<and> lev H xs k ! (c div 2 ^ k - 1) = lev H xs k ! (c div 2 ^ k))"
      using dvd inner less.prems(2) by (metis Suc_leD le_antisym not_less_eq_eq)
    moreover have "snd (push_branch inner matchlevel l h mb) = None \<longleftrightarrow> snd mb = None"
      by (cases mb) (simp add: push_branch_def split: option.split)
    ultimately show ?thesis using ih by auto
  qed
qed

text \<open>The state after \<open>c\<close> leaves.\<close>

definition state_ok :: "(bytes \<Rightarrow> uint256) \<Rightarrow> uint256 list \<Rightarrow> nat \<Rightarrow> nat \<Rightarrow> MerkleState \<Rightarrow> bool" where
  "state_ok H xs pos c st =
     (ms_count st = of_nat c \<and> inner_ok H xs c (ms_inner st) \<and> ms_mutated st = duplicated H xs c \<and>
      (case ms_branch st of None \<Rightarrow> True | Some br \<Rightarrow> branch_at H xs pos c (ms_matchlevel st) br))"

lemma lower_bits:
  assumes "2 ^ L dvd Suc c" "odd (Suc c div 2 ^ L)"
  shows "l < L \<Longrightarrow> even (Suc c div 2 ^ l)" "L < l \<Longrightarrow> Suc c div 2 ^ l = c div 2 ^ l" "Suc c div 2 ^ L = Suc (c div 2 ^ L)"
proof -
  show "Suc c div 2 ^ L = Suc (c div 2 ^ L)" using div_Suc_dvd [OF assms(1)] .
  show "even (Suc c div 2 ^ l)" if "l < L"
  proof -
    have "2 ^ Suc l dvd Suc c" using that assms(1) le_imp_power_dvd [of "Suc l" L "2 :: nat"] dvd_trans by (metis Suc_leI)
    moreover have "2 ^ l dvd Suc c" using that assms(1) le_imp_power_dvd [of l L "2 :: nat"] dvd_trans by (metis less_imp_le)
    ultimately show ?thesis using dvd_double by blast
  qed
  show "Suc c div 2 ^ l = c div 2 ^ l" if "L < l"
  proof (rule div_Suc_not_dvd)
    have "\<not> 2 ^ Suc L dvd Suc c" using dvd_double [OF assms(1)] assms(2) by simp
    then show "\<not> 2 ^ l dvd Suc c" using that le_imp_power_dvd [of "Suc L" l "2 :: nat"] dvd_trans by (metis Suc_leI)
  qed
qed

lemma add_leaf_ok:
  assumes "state_ok H xs pos c st" "Suc c \<le> length xs" "length xs \<le> 2 ^ 31" "unat branchpos = pos"
  shows "\<exists>st'. add_leaf H branchpos (xs ! c) st = Inr st' \<and> state_ok H xs pos (Suc c) st' \<and>
    (ms_branch st' = None \<longleftrightarrow> ms_branch st = None)"
proof -
  have st: "inner_ok H xs c (ms_inner st)" "ms_count st = of_nat c" "ms_mutated st = duplicated H xs c"
    using assms(1) by (simp_all add: state_ok_def)
  have "unat (of_nat c :: u32) = c" using assms(2,3) by (intro unat_counter) simp
  then have match: "ms_count st = branchpos \<longleftrightarrow> c = pos" using assms(4) st(2) by (auto simp: word_unat_eq_iff)
  have "rising H xs pos c (ms_matchlevel st) 0 (c = pos, ms_branch st)"
    using assms(1) by (auto simp: state_ok_def rising_def branch_at_def split: option.splits if_splits)
  note spec = leaf_loop_spec [OF assms(2,3) st(1) _ _ this, where h = "xs ! c" and mutated = "ms_mutated st", unfolded lev_0 power_0 div_by_1]
  have "\<exists>L mb'. leaf_loop H (of_nat (Suc c)) (ms_inner st) (ms_matchlevel st) 0 (xs ! c) (ms_mutated st) (c = pos, ms_branch st) =
      Inr (L, lev H xs L ! (c div 2 ^ L), duplicated H xs (Suc c), mb') \<and> L < 32 \<and> 2 ^ L dvd Suc c \<and> odd (Suc c div 2 ^ L) \<and>
      rising H xs pos c (ms_matchlevel st) L mb' \<and> (snd mb' = None \<longleftrightarrow> ms_branch st = None)"
    unfolding duplicated_Suc st(3) [symmetric] using spec by (simp only: le0 simp_thms one_dvd snd_conv)
  then obtain L matchh pbranch where loop: "leaf_loop H (of_nat (Suc c)) (ms_inner st) (ms_matchlevel st) 0 (xs ! c) (ms_mutated st) (c = pos, ms_branch st) =
        Inr (L, lev H xs L ! (c div 2 ^ L), duplicated H xs (Suc c), matchh, pbranch)"
      and L: "L < 32" "2 ^ L dvd Suc c" "odd (Suc c div 2 ^ L)" "rising H xs pos c (ms_matchlevel st) L (matchh, pbranch)"
        "pbranch = None \<longleftrightarrow> ms_branch st = None"
    by (metis prod.collapse snd_conv)
  note bits = lower_bits [OF L(2,3)]
  let ?st = "\<lparr>ms_count = of_nat (Suc c), ms_inner = (ms_inner st)[L := lev H xs L ! (c div 2 ^ L)],
      ms_matchlevel = (if matchh then int L else ms_matchlevel st), ms_mutated = duplicated H xs (Suc c), ms_branch = pbranch\<rparr>"
  have "add_leaf H branchpos (xs ! c) st = Inr ?st"
    using loop unfolding add_leaf_def Let_def match by (simp add: st(2) add.commute)
  moreover have "inner_ok H xs (Suc c) (ms_inner ?st)"
    unfolding inner_ok_def
  proof (intro conjI allI impI)
    show "length (ms_inner ?st) = 32" using st(1) by (simp add: inner_ok_def)
    fix l :: nat assume l: "l < 32" "odd (Suc c div 2 ^ l)"
    then consider "l = L" | "L < l" using bits(1) [of l] by (metis linorder_neqE_nat)
    then show "ms_inner ?st ! l = lev H xs l ! (Suc c div 2 ^ l - 1)"
      using l st(1) bits(2) [of l] bits(3) L(1) by cases (auto simp: inner_ok_def)
  qed
  moreover have "branch_at H xs pos (Suc c) (if matchh then int L else ms_matchlevel st) br" if br: "pbranch = Some br" for br
  proof (cases matchh)
    case True
    then have "pos \<le> c" "pos div 2 ^ L = c div 2 ^ L" "br = map (sibling H xs pos) [0..<L]"
      using L(4) br by (simp_all add: rising_def)
    then show ?thesis using True L(3) bits(3) by (auto simp: branch_at_def)
  next
    case False
    then have f: "pos \<noteq> c" "branch_at H xs pos c (ms_matchlevel st) br" "pos < c \<longrightarrow> int L \<le> ms_matchlevel st"
      using L(4) br by (simp_all add: rising_def)
    show ?thesis
    proof (cases "c < pos")
      case True
      then show ?thesis using f(2) False by (simp add: branch_at_def)
    next
      case no: False
      then obtain m where m: "ms_matchlevel st = int m" "odd (c div 2 ^ m)" "Suc (pos div 2 ^ m) = c div 2 ^ m"
          "br = map (sibling H xs pos) [0..<m]" "L \<le> m"
        using f by (auto simp: branch_at_def split: if_splits)
      then have "L < m" using bits(3) L(3) by (cases "L = m") auto
      then show ?thesis using m no f(1) bits(2) [of m] False by (auto simp: branch_at_def)
    qed
  qed
  ultimately have "state_ok H xs pos (Suc c) ?st" "add_leaf H branchpos (xs ! c) st = Inr ?st"
    by (cases pbranch; simp add: state_ok_def)+
  then show ?thesis using L(5) by (intro exI [of _ ?st]) simp
qed

lemma add_leaves_ok:
  fixes want :: bool
  assumes "c \<le> length xs" "length xs \<le> 2 ^ 31" "unat branchpos = pos"
  defines "st0 \<equiv> \<lparr>ms_count = 0, ms_inner = replicate 32 0, ms_matchlevel = - 1, ms_mutated = False,
    ms_branch = (if want then Some [] else None)\<rparr>"
  shows "\<exists>st. foldR (add_leaf H branchpos) (take c xs) st0 = Inr st \<and> state_ok H xs pos c st \<and> (ms_branch st \<noteq> None \<longleftrightarrow> want)"
  using assms(1)
proof (induction c)
  case 0
  then show ?case by (simp add: state_ok_def st0_def inner_ok_def branch_at_def)
next
  case (Suc c)
  then obtain st where st: "foldR (add_leaf H branchpos) (take c xs) st0 = Inr st" "state_ok H xs pos c st" "ms_branch st \<noteq> None \<longleftrightarrow> want"
    by auto
  have "take (Suc c) xs = take c xs @ [xs ! c]" using Suc.prems by (simp add: take_Suc_conv_app_nth)
  then show ?case using st add_leaf_ok [OF st(2) Suc.prems assms(2,3)] by (auto simp: foldR_append)
qed

section \<open>The final sweep\<close>

lemma skip_level_spec:
  assumes "2 ^ l dvd n" "0 < n" "n \<le> 2 ^ 31"
  shows "\<exists>L. skip_level (of_nat n) l = Inr L \<and> L < 32 \<and> 2 ^ L dvd n \<and> odd (n div 2 ^ L)"
  using assms(1)
proof (induction "32 - l" arbitrary: l rule: less_induct)
  case less
  have l: "l < 32" using dvd_bound [OF less.prems assms(2,3)] .
  show ?case
  proof (cases "odd (n div 2 ^ l)")
    case True
    then show ?thesis using l less.prems counter_bit [OF l, of n] by (subst skip_level.simps) simp
  next
    case False
    then have "2 ^ Suc l dvd n" "32 - Suc l < 32 - l" using dvd_double [OF less.prems] l by simp_all
    moreover have "skip_level (of_nat n) l = skip_level (of_nat n) (Suc l)"
      using l False counter_bit [OF l, of n] by (subst skip_level.simps) simp
    ultimately show ?thesis using less.hyps [of "Suc l"] by simp
  qed
qed

definition falling :: "(bytes \<Rightarrow> uint256) \<Rightarrow> uint256 list \<Rightarrow> nat \<Rightarrow> int \<Rightarrow> nat \<Rightarrow> bool \<times> uint256 list option \<Rightarrow> bool" where
  "falling H xs pos matchlevel l = (\<lambda>(matchh, pbranch).
     case pbranch of
       None \<Rightarrow> True
     | Some br \<Rightarrow>
         if matchh then Suc (pos div 2 ^ l) = length (lev H xs l) \<and> br = map (sibling H xs pos) [0..<l]
         else \<exists>m. matchlevel = int m \<and> l \<le> m \<and> odd (length xs div 2 ^ m) \<and> Suc (pos div 2 ^ m) = length xs div 2 ^ m \<and>
                  br = map (sibling H xs pos) [0..<m])"

lemma falling_step:
  assumes "falling H xs pos matchlevel l mb" "even (length (lev H xs l))" "length xs div 2 ^ l + 1 = length (lev H xs l)"
    "inner ! l = lev H xs l ! (length (lev H xs l) - 2)" "h = lev H xs l ! (length (lev H xs l) - 1)"
  shows "falling H xs pos matchlevel (Suc l) (push_branch inner matchlevel l h mb)"
proof (cases "snd mb")
  case None
  then show ?thesis by (cases mb) (simp add: falling_def push_branch_def)
next
  case (Some br)
  have next_len: "length (lev H xs (Suc l)) = length (lev H xs l) div 2" using assms(2) by (simp add: lev_Suc)
  show ?thesis
  proof (cases "fst mb")
    case True
    then have m: "Suc (pos div 2 ^ l) = length (lev H xs l)" "br = map (sibling H xs pos) [0..<l]"
      using assms(1) Some by (auto simp: falling_def split: prod.splits)
    then have "odd (pos div 2 ^ l)" using assms(2) by (metis even_Suc)
    then have "sibling H xs pos l = inner ! l" "Suc (pos div 2 ^ l div 2) = length (lev H xs (Suc l))"
      using m(1) assms(4) sibling_odd [of pos l H xs] next_len by (auto simp flip: m(1))
    then show ?thesis using True Some m by (cases mb) (simp add: falling_def push_branch_def div_power_Suc del: power_Suc)
  next
    case False
    then obtain m where m: "matchlevel = int m" "l \<le> m" "odd (length xs div 2 ^ m)" "Suc (pos div 2 ^ m) = length xs div 2 ^ m"
        "br = map (sibling H xs pos) [0..<m]"
      using assms(1) Some by (auto simp: falling_def split: prod.splits)
    show ?thesis
    proof (cases "m = l")
      case True
      then have j: "pos div 2 ^ l + 2 = length (lev H xs l)" using m(4) assms(3) by simp
      then have "even (pos div 2 ^ l)" using assms(2) by (metis even_add even_numeral)
      then have "sibling H xs pos l = h" "Suc (pos div 2 ^ l div 2) = length (lev H xs (Suc l))"
        using j assms(5) sibling_even [of pos l H xs] next_len by (auto simp flip: j)
      then show ?thesis using True False Some m by (cases mb) (simp add: falling_def push_branch_def div_power_Suc del: power_Suc)
    next
      case no: False
      then show ?thesis using False Some m by (cases mb) (simp add: falling_def push_branch_def)
    qed
  qed
qed

lemma level_bound: "2 ^ l < 2 * n \<Longrightarrow> n \<le> 2 ^ 31 \<Longrightarrow> l < 32" for n :: nat
  using power_less_imp_less_exp [of "2 :: nat" l 32] by simp

lemma length_lev_dvd:
  assumes "xs \<noteq> []" "2 ^ l dvd length xs"
  shows "length (lev H xs l) = length xs div 2 ^ l"
  using assms div_Suc_dvd [of l "length xs - 1"] by (simp add: length_lev)

lemma length_lev_not_dvd:
  assumes "xs \<noteq> []" "\<not> 2 ^ l dvd length xs"
  shows "length (lev H xs l) = length xs div 2 ^ l + 1"
  using assms div_Suc_not_dvd [of l "length xs - 1"] by (simp add: length_lev)

lemma sweep_up_spec:
  assumes "xs \<noteq> []" "length xs \<le> 2 ^ 31" "inner_ok H xs (length xs) inner" "2 ^ l < 2 * length xs" "\<not> 2 ^ l dvd length xs"
    "h = lev H xs l ! (length (lev H xs l) - 1)" "falling H xs pos matchlevel l mb" "count = of_nat (length (lev H xs l) * 2 ^ l)"
  shows "\<exists>L mb'. sweep_up H count inner matchlevel l h mb = Inr (L, lev H xs L ! (length (lev H xs L) - 1), mb') \<and>
    l \<le> L \<and> 2 ^ L < 2 * length xs \<and> odd (length (lev H xs L)) \<and> count = of_nat (length (lev H xs L) * 2 ^ L) \<and>
    falling H xs pos matchlevel L mb' \<and> (snd mb' = None \<longleftrightarrow> snd mb = None)"
  using assms(4-)
proof (induction "32 - l" arbitrary: l h mb rule: less_induct)
  case less
  let ?c = "length (lev H xs l)"
  have l: "l < 32" using level_bound [OF less.prems(1) assms(2)] .
  have bit: "count AND push_bit l 1 \<noteq> 0 \<longleftrightarrow> odd ?c" using counter_bit [OF l, of "?c * 2 ^ l"] less.prems(5) by simp
  have len: "?c = length xs div 2 ^ l + 1" using length_lev_not_dvd [OF assms(1) less.prems(2)] .
  show ?case
  proof (cases "odd ?c")
    case True
    then have "sweep_up H count inner matchlevel l h mb = Inr (l, h, mb)" using l bit by (subst sweep_up.simps) simp
    then show ?thesis using less.prems True by (intro exI [of _ l] exI [of _ mb]) simp
  next
    case False
    then obtain k where k: "?c = 2 * Suc k" using len by (metis add_is_0 evenE not0_implies_Suc mult_0_right one_neq_zero)
    have inner: "inner ! l = lev H xs l ! (?c - 2)" using assms(3) l k len by (simp add: inner_ok_def)
    have next_len: "length (lev H xs (Suc l)) = Suc k" using k by (simp add: lev_Suc)
    have "length xs div 2 ^ l \<noteq> 0" using len k by simp
    then have "2 ^ l \<le> length xs" by (metis div_less not_less)
    then have deep: "2 ^ Suc l < 2 * length xs" using less.prems(2) by (metis dvd_refl le_neq_implies_less mult_less_cancel1 power_Suc zero_less_numeral)
    have ndvd: "\<not> 2 ^ Suc l dvd length xs" using less.prems(2) dvd_mult_left [of "2 ^ l" 2 "length xs"] by (auto simp: mult.commute)
    have h': "hash_pair H (inner ! l) h = lev H xs (Suc l) ! (length (lev H xs (Suc l)) - 1)"
      using lev_Suc_nth [of k H xs l] next_len k inner less.prems(3) by simp
    have cnt: "count = of_nat (length (lev H xs (Suc l)) * 2 ^ Suc l)"
      unfolding next_len less.prems(5) k power_Suc by (simp only: ac_simps)
    have up: "falling H xs pos matchlevel (Suc l) (push_branch inner matchlevel l h mb)"
      using falling_step [OF less.prems(4) _ _ inner less.prems(3)] False len by simp
    have "32 - Suc l < 32 - l" using l by simp
    note ih = less.hyps [OF this deep ndvd h' up cnt]
    have "sweep_up H count inner matchlevel l h mb =
        sweep_up H count inner matchlevel (Suc l) (hash_pair H (inner ! l) h) (push_branch inner matchlevel l h mb)"
      using l bit False by (subst sweep_up.simps) simp
    moreover have "snd (push_branch inner matchlevel l h mb) = None \<longleftrightarrow> snd mb = None"
      by (cases mb) (simp add: push_branch_def split: option.split)
    ultimately show ?thesis using ih by (metis Suc_leD)
  qed
qed

lemma falling_strict:
  assumes "falling H xs pos matchlevel l mb" "xs \<noteq> []" "\<not> 2 ^ l dvd length xs" "odd (length (lev H xs l))"
  shows "snd mb \<noteq> None \<Longrightarrow> \<not> fst mb \<Longrightarrow> matchlevel \<noteq> int l"
  using assms(1,4) length_lev_not_dvd [OF assms(2,3), of H] by (auto simp: falling_def split: prod.splits option.splits)

lemma falling_double:
  assumes "falling H xs pos matchlevel l (matchh, pbranch)" "odd (length (lev H xs l))"
    "h = lev H xs l ! (length (lev H xs l) - 1)" "pbranch \<noteq> None \<Longrightarrow> \<not> matchh \<Longrightarrow> matchlevel \<noteq> int l"
  shows "falling H xs pos matchlevel (Suc l)
    (matchh, case pbranch of Some br \<Rightarrow> Some (if matchh then br @ [h] else br) | None \<Rightarrow> None)"
proof (cases pbranch)
  case None
  then show ?thesis by (simp add: falling_def)
next
  case (Some br)
  show ?thesis
  proof (cases matchh)
    case True
    then have m: "Suc (pos div 2 ^ l) = length (lev H xs l)" "br = map (sibling H xs pos) [0..<l]"
      using assms(1) Some by (simp_all add: falling_def)
    then have even: "even (pos div 2 ^ l)" using assms(2) by (metis even_Suc)
    then have "sibling H xs pos l = h" using m(1) assms(3) unfolding sibling_def Let_def by (simp flip: m(1))
    moreover have "Suc (pos div 2 ^ l div 2) = length (lev H xs (Suc l))"
      using even by (simp add: lev_Suc flip: m(1))
    ultimately show ?thesis using True Some m(2) by (simp add: falling_def div_power_Suc del: power_Suc)
  next
    case False
    then obtain m where "matchlevel = int m" "l \<le> m" "odd (length xs div 2 ^ m)" "Suc (pos div 2 ^ m) = length xs div 2 ^ m"
        "br = map (sibling H xs pos) [0..<m]" "m \<noteq> l"
      using assms(1,4) Some by (auto simp: falling_def)
    then show ?thesis using False Some by (simp add: falling_def)
  qed
qed

lemma falling_top:
  assumes "falling H xs pos matchlevel l (matchh, Some br)" "xs \<noteq> []" "length (lev H xs l) = 1" "\<not> matchh \<Longrightarrow> matchlevel \<noteq> int l"
  shows "br = map (sibling H xs pos) [0..<l]"
proof (rule ccontr)
  assume "br \<noteq> map (sibling H xs pos) [0..<l]"
  then obtain m where m: "l \<le> m" "odd (length xs div 2 ^ m)" "m \<noteq> l"
    using assms(1,4) by (auto simp: falling_def split: if_splits)
  have "length xs - 1 < 2 ^ l" using assms(3) length_lev [OF assms(2), of H l] by (simp add: div_eq_0_iff)
  moreover have "(2 :: nat) ^ l < 2 ^ m" using m(1,3) by (simp add: power_strict_increasing)
  ultimately have "length xs < 2 ^ m" by linarith
  then show False using m(2) by simp
qed

lemma counter_not_top:
  assumes "xs \<noteq> []" "length xs \<le> 2 ^ 31" "length (lev H xs l) \<noteq> 1"
  shows "2 ^ l < length xs" "of_nat (length (lev H xs l) * 2 ^ l) \<noteq> (of_nat (2 ^ l) :: u32)"
proof -
  let ?c = "length (lev H xs l)"
  have c: "?c = (length xs - 1) div 2 ^ l + 1" using length_lev [OF assms(1)] .
  then have "(length xs - 1) div 2 ^ l \<noteq> 0" using assms(3) by simp
  then have big: "2 ^ l \<le> length xs - 1" by (metis div_less not_less)
  then show "2 ^ l < length xs" using assms(1) by (cases xs) auto
  have "?c * 2 ^ l \<le> length xs - 1 + 2 ^ l" unfolding c by (simp add: add_mult_distrib div_times_less_eq_dividend)
  then have "?c * 2 ^ l < 2 ^ 32" "2 ^ l < (2 :: nat) ^ 32" using assms(2) big by simp_all
  moreover have "?c * 2 ^ l \<noteq> 2 ^ l" using assms(3) by simp
  ultimately show "of_nat (?c * 2 ^ l) \<noteq> (of_nat (2 ^ l) :: u32)" using unat_counter by metis
qed

lemma odd_level_not_dvd:
  assumes "xs \<noteq> []" "odd (length (lev H xs l))"
  shows "\<not> 2 ^ Suc l dvd length xs"
proof (cases "2 ^ l dvd length xs")
  case True
  then show ?thesis using dvd_double [OF True] length_lev_dvd [OF assms(1) True, of H] assms(2) by simp
next
  case False
  then show ?thesis using dvd_mult_left [of "2 ^ l" 2 "length xs"] by (auto simp: mult.commute)
qed

lemma sweep_spec:
  assumes "xs \<noteq> []" "length xs \<le> 2 ^ 31" "inner_ok H xs (length xs) inner" "2 ^ l < 2 * length xs" "odd (length (lev H xs l))"
    "h = lev H xs l ! (length (lev H xs l) - 1)" "falling H xs pos matchlevel l mb" "count = of_nat (length (lev H xs l) * 2 ^ l)"
    "snd mb \<noteq> None \<Longrightarrow> \<not> fst mb \<Longrightarrow> matchlevel \<noteq> int l"
  shows "\<exists>D. sweep H count inner matchlevel l h mb =
      Inr (lev H xs D ! 0, if snd mb = None then None else Some (map (sibling H xs pos) [0..<D])) \<and>
    length (lev H xs D) = 1 \<and> 2 ^ D < 2 * length xs"
  using assms(4-)
proof (induction "32 - l" arbitrary: l h mb count rule: less_induct)
  case less
  let ?c = "length (lev H xs l)"
  obtain matchh pbranch where mb: "mb = (matchh, pbranch)" by (cases mb)
  have l: "l < 32" using level_bound [OF less.prems(1) assms(2)] .
  have one: "push_bit l 1 = (of_nat (2 ^ l) :: u32)" by (simp add: push_bit_of_1)
  show ?case
  proof (cases "?c = 1")
    case True
    have "pbranch = Some br \<Longrightarrow> br = map (sibling H xs pos) [0..<l]" for br
      using falling_top [OF _ assms(1) True] less.prems(4,6) mb by simp
    moreover have "sweep H count inner matchlevel l h mb = Inr (h, pbranch)"
      using l one True less.prems(5) mb by (subst sweep.simps) simp
    ultimately show ?thesis using True less.prems(1,3) mb by (intro exI [of _ l]) (cases pbranch; simp)
  next
    case False
    then obtain k where k: "?c = 2 * Suc k + 1" using less.prems(2) by (metis oddE mult_0_right add_0 not0_implies_Suc)
    have ne: "count \<noteq> push_bit l 1" and big: "2 ^ l < length xs"
      unfolding one less.prems(5) using counter_not_top [OF assms(1,2) False] by blast+
    have next_len: "length (lev H xs (Suc l)) = Suc (Suc k)" using k by (simp add: lev_Suc)
    have cnt: "count + push_bit l 1 = of_nat (length (lev H xs (Suc l)) * 2 ^ Suc l)"
      unfolding next_len one less.prems(5) k of_nat_add [symmetric] by (simp add: algebra_simps)
    have h': "hash_pair H h h = lev H xs (Suc l) ! (length (lev H xs (Suc l)) - 1)"
      using lev_Suc_nth [of "Suc k" H xs l] next_len k less.prems(3) by simp
    have deep: "2 ^ Suc l < 2 * length xs" using big by simp
    have ndvd: "\<not> 2 ^ Suc l dvd length xs" using odd_level_not_dvd [OF assms(1) less.prems(2)] .
    let ?mb = "(matchh, case pbranch of Some br \<Rightarrow> Some (if matchh then br @ [h] else br) | None \<Rightarrow> None)"
    have "falling H xs pos matchlevel (Suc l) ?mb"
      using falling_double [of H xs pos matchlevel l matchh pbranch h] less.prems(2-4,6) mb by simp
    from sweep_up_spec [OF assms(1-3) deep ndvd h' this cnt]
    obtain L mb' where up: "sweep_up H (count + push_bit l 1) inner matchlevel (Suc l) (hash_pair H h h) ?mb =
          Inr (L, lev H xs L ! (length (lev H xs L) - 1), mb')" "Suc l \<le> L" "2 ^ L < 2 * length xs" "odd (length (lev H xs L))"
        "count + push_bit l 1 = of_nat (length (lev H xs L) * 2 ^ L)" "falling H xs pos matchlevel L mb'"
        "snd mb' = None \<longleftrightarrow> snd ?mb = None"
      by (elim exE conjE)
    have "\<not> 2 ^ L dvd length xs" using ndvd up(2) le_imp_power_dvd [of "Suc l" L "2 :: nat"] dvd_trans by blast
    note strict = falling_strict [OF up(6) assms(1) this up(4)]
    have "32 - L < 32 - l" using up(2) l by simp
    note ih = less.hyps [OF this up(3,4) refl up(6,5) strict]
    have "sweep H count inner matchlevel l h mb =
        sweep H (count + push_bit l 1) inner matchlevel L (lev H xs L ! (length (lev H xs L) - 1)) mb'"
      using l ne up(1) unfolding mb by (subst sweep.simps) (simp cong: option.case_cong)
    moreover have "snd mb' = None \<longleftrightarrow> snd mb = None" using up(7) mb by (cases pbranch) simp_all
    ultimately show ?thesis using ih by simp
  qed
qed

section \<open>The computation is the textbook tree\<close>

lemma MerkleComputation_spec:
  assumes "xs \<noteq> []" "length xs \<le> 2 ^ 31" "want \<Longrightarrow> unat branchpos < length xs"
  shows "\<exists>D. MerkleComputation H xs branchpos want =
      Inr (lev H xs D ! 0, duplicated H xs (length xs),
           if want then Some (map (sibling H xs (unat branchpos)) [0..<D]) else None) \<and>
    length (lev H xs D) = 1 \<and> 2 ^ D < 2 * length xs"
proof -
  define st0 where "st0 = \<lparr>ms_count = 0, ms_inner = replicate 32 0, ms_matchlevel = - 1, ms_mutated = False,
    ms_branch = (if want then Some [] else None)\<rparr>"
  let ?n = "length xs" and ?pos = "unat branchpos"
  obtain st where st: "foldR (add_leaf H branchpos) xs st0 = Inr st" "state_ok H xs ?pos ?n st" "ms_branch st \<noteq> None \<longleftrightarrow> want"
    using add_leaves_ok [OF order_refl assms(2) refl, where want = want and H = H and branchpos = branchpos] unfolding st0_def take_all [OF order_refl] by metis
  have n: "0 < ?n" using assms(1) by simp
  obtain L where L: "skip_level (of_nat ?n) 0 = Inr L" "L < 32" "2 ^ L dvd ?n" "odd (?n div 2 ^ L)"
    using skip_level_spec [of 0 ?n] n assms(2) by auto
  have len: "length (lev H xs L) = ?n div 2 ^ L" using length_lev_dvd [OF assms(1) L(3)] .
  have st': "ms_count st = of_nat ?n" "inner_ok H xs ?n (ms_inner st)" "ms_mutated st = duplicated H xs ?n"
    using st(2) by (simp_all add: state_ok_def)
  have h: "ms_inner st ! L = lev H xs L ! (length (lev H xs L) - 1)" using st'(2) L(2,4) len by (simp add: inner_ok_def)
  have deep: "2 ^ L < 2 * ?n" using dvd_imp_le [OF L(3) n] n by linarith
  have cnt: "of_nat ?n = (of_nat (length (lev H xs L) * 2 ^ L) :: u32)" using L(3) len by (metis dvd_div_mult_self)
  let ?mb = "(ms_matchlevel st = int L, ms_branch st)"
  have "falling H xs ?pos (ms_matchlevel st) L ?mb"
  proof (cases "ms_branch st")
    case None
    then show ?thesis by (simp add: falling_def)
  next
    case (Some br)
    then have "\<not> ?n \<le> ?pos" using assms(3) st(3) by auto
    then obtain m where m: "ms_matchlevel st = int m" "odd (?n div 2 ^ m)" "Suc (?pos div 2 ^ m) = ?n div 2 ^ m"
        "br = map (sibling H xs ?pos) [0..<m]"
      using st(2) Some by (auto simp: state_ok_def branch_at_def)
    have "L \<le> m" using lower_bits(1) [of L "?n - 1" m] L(3,4) m(2) n by (metis Suc_diff_1 not_le)
    then show ?thesis using m Some len by (auto simp: falling_def)
  qed
  from sweep_spec [OF assms(1,2) st'(2) deep _ h this cnt] L(4) len
  obtain D where D: "sweep H (of_nat ?n) (ms_inner st) (ms_matchlevel st) L (ms_inner st ! L) ?mb =
      Inr (lev H xs D ! 0, if snd ?mb = None then None else Some (map (sibling H xs ?pos) [0..<D]))"
      "length (lev H xs D) = 1" "2 ^ D < 2 * ?n"
    by auto
  have "MerkleComputation H xs branchpos want =
      Inr (lev H xs D ! 0, duplicated H xs ?n, if want then Some (map (sibling H xs ?pos) [0..<D]) else None)"
    unfolding MerkleComputation_def Let_def using assms(1) st(1,3) st' L(1) D(1) by (auto simp: st0_def)
  then show ?thesis using D(2,3) by blast
qed

lemma from_branch:
  assumes "pos < length xs" "length xs \<le> 2 ^ 32"
  shows "ComputeMerkleRootFromBranch H (lev H xs l ! (pos div 2 ^ l)) (map (sibling H xs pos) [l..<l + k]) (of_nat (pos div 2 ^ l)) =
    lev H xs (l + k) ! (pos div 2 ^ (l + k))"
proof (induction k arbitrary: l)
  case 0
  then show ?case by simp
next
  case (Suc k)
  let ?j = "pos div 2 ^ l"
  have len: "?j < length (lev H xs l)" "?j div 2 < length (lev H xs (Suc l))"
    using index_lev [OF assms(1), of l H] index_lev [OF assms(1), of "Suc l" H] unfolding div_power_Suc by simp_all
  have node: "(if odd ?j then hash_pair H (sibling H xs pos l) (lev H xs l ! ?j) else hash_pair H (lev H xs l ! ?j) (sibling H xs pos l)) =
      lev H xs (Suc l) ! (?j div 2)"
    unfolding lev_Suc_nth [OF len(2)] sibling_def Let_def using len(1) by (auto elim!: oddE evenE)
  have "?j < 2 ^ 32" using assms div_le_dividend [of pos "2 ^ l"] by linarith
  then have "drop_bit 1 (of_nat ?j :: u32) = of_nat (?j div 2)" by (rule counter_half)
  moreover have "of_nat ?j AND 1 \<noteq> (0 :: u32) \<longleftrightarrow> odd ?j" using counter_bit [of 0 ?j] by simp
  moreover have "[l..<l + Suc k] = l # [Suc l..<Suc l + k]" by (simp add: upt_conv_Cons del: upt_Suc)
  ultimately show ?case using Suc.IH [of "Suc l"] node by (simp add: div_power_Suc del: power_Suc upt_Suc)
qed

lemma ComputeMerkleRoot_spec:
  assumes "leaves \<noteq> []" "length leaves \<le> 2 ^ 31"
  shows "ComputeMerkleRoot H leaves = Inr (merkle_tree_root H leaves, duplicated H leaves (length leaves))"
  using MerkleComputation_spec [OF assms, of False "- 1" H] lev_root [of H leaves] by (auto simp: ComputeMerkleRoot_def)

text \<open>A hash function for examples.\<close>

definition byte_sum :: "bytes \<Rightarrow> uint256" where
  "byte_sum b = fold (\<lambda>x h. 31 * h + ucast x) b 7"

text \<open>
  C39. For a non-empty list of at most \<open>2 ^ 31\<close> leaves, the constant-space computation returns the root of the textbook tree,
  built level by level with the last node of an odd level paired with itself, and reports a mutated list exactly when two
  complete subtrees next to each other have the same hash. The branch it returns for any position leads from that leaf to
  the same root.
\<close>

theorem merkle_computation_correct:
  assumes "leaves \<noteq> []" "length leaves \<le> 2 ^ 31" "pos < length leaves"
  shows "ComputeMerkleRoot Hash leaves = Inr (merkle_tree_root Hash leaves, duplicated Hash leaves (length leaves)) \<and>
    (\<exists>br. ComputeMerkleBranch Hash leaves (of_nat pos) = Inr br \<and>
          ComputeMerkleRootFromBranch Hash (leaves ! pos) br (of_nat pos) = merkle_tree_root Hash leaves)"
proof
  show "ComputeMerkleRoot Hash leaves = Inr (merkle_tree_root Hash leaves, duplicated Hash leaves (length leaves))"
    using assms(1,2) by (rule ComputeMerkleRoot_spec)
  have pos: "unat (of_nat pos :: u32) = pos" using assms(2,3) by (intro unat_counter) simp
  then obtain D where D: "MerkleComputation Hash leaves (of_nat pos) True =
        Inr (lev Hash leaves D ! 0, duplicated Hash leaves (length leaves), Some (map (sibling Hash leaves pos) [0..<D]))"
      "length (lev Hash leaves D) = 1" "2 ^ D < 2 * length leaves"
    using MerkleComputation_spec [OF assms(1,2), of True "of_nat pos" Hash] assms(3) by auto
  have "pos div 2 ^ D = 0" using index_lev [OF assms(3), of D Hash] D(2) by simp
  then have "ComputeMerkleRootFromBranch Hash (leaves ! pos) (map (sibling Hash leaves pos) [0..<D]) (of_nat pos) =
      merkle_tree_root Hash leaves"
    using from_branch [OF assms(3), of Hash 0 D] assms(2) lev_root [OF D(2,3)] by simp
  then show "\<exists>br. ComputeMerkleBranch Hash leaves (of_nat pos) = Inr br \<and>
      ComputeMerkleRootFromBranch Hash (leaves ! pos) br (of_nat pos) = merkle_tree_root Hash leaves"
    using D(1) by (simp add: ComputeMerkleBranch_def)
qed

theorem merkle_computation_correct_witness:
  "ComputeMerkleRoot byte_sum [1, 2, 3] = Inr (merkle_tree_root byte_sum [1, 2, 3], duplicated byte_sum [1, 2, 3] 3) \<and>
   (\<exists>br. ComputeMerkleBranch byte_sum [1, 2, 3] 2 = Inr br \<and>
         ComputeMerkleRootFromBranch byte_sum 3 br 2 = merkle_tree_root byte_sum [1, 2, 3])"
  using merkle_computation_correct [of "[1, 2, 3]" 2 byte_sum] by (simp add: numeral_3_eq_3)

section \<open>The root binds the leaves\<close>

fun node_pairs :: "uint256 list \<Rightarrow> (uint256 \<times> uint256) list" where
  "node_pairs [] = []"
| "node_pairs [a] = [(a, a)]"
| "node_pairs (a # b # xs) = (a, b) # node_pairs xs"

text \<open>All the pairs the tree hashes, and its depth.\<close>

function hashed_pairs :: "(bytes \<Rightarrow> uint256) \<Rightarrow> uint256 list \<Rightarrow> (uint256 \<times> uint256) list" where
  "hashed_pairs H xs = (if length xs \<le> 1 then [] else node_pairs xs @ hashed_pairs H (pair_up H xs))"
  by pat_completeness auto

termination
  by (relation "measure (\<lambda>(H, xs). length xs)") auto

function tree_levels :: "nat \<Rightarrow> nat" where
  "tree_levels n = (if n \<le> 1 then 0 else Suc (tree_levels ((n + 1) div 2)))"
  by pat_completeness auto

termination
  by (relation "measure id") auto

declare hashed_pairs.simps [simp del] tree_levels.simps [simp del]

lemma pair_up_node_pairs: "pair_up H xs = map (\<lambda>(a, b). hash_pair H a b) (node_pairs xs)"
  by (induction H xs rule: pair_up.induct) simp_all

lemma nth_node_pairs: "2 * i + 1 < length xs \<Longrightarrow> node_pairs xs ! i = (xs ! (2 * i), xs ! (2 * i + 1))"
proof (induction xs arbitrary: i rule: node_pairs.induct)
  case (3 a b xs)
  then show ?case by (cases i) auto
qed auto

lemma length_node_pairs [simp]: "length (node_pairs xs) = (length xs + 1) div 2"
  by (induction xs rule: node_pairs.induct) simp_all

lemma last_node_pair: "odd (length xs) \<Longrightarrow> node_pairs xs ! (length xs div 2) = (last xs, last xs)"
  by (induction xs rule: node_pairs.induct) auto

lemma node_pairs_eq:
  "node_pairs xs = node_pairs ys \<Longrightarrow>
   xs = ys \<or> (\<exists>i. 2 * i + 2 \<le> length xs \<and> xs ! (2 * i) = xs ! (2 * i + 1)) \<or>
   (\<exists>i. 2 * i + 2 \<le> length ys \<and> ys ! (2 * i) = ys ! (2 * i + 1))"
proof (induction xs arbitrary: ys rule: node_pairs.induct)
  case 1
  then show ?case by (cases ys rule: node_pairs.cases) simp_all
next
  case (2 a)
  then show ?case by (cases ys rule: node_pairs.cases) (auto intro!: exI [of _ 0])
next
  case (3 a b xs)
  show ?case
  proof (cases ys rule: node_pairs.cases)
    case (3 c d zs)
    from 3 "3.prems" have eq: "a = c" "b = d" "node_pairs xs = node_pairs zs" by simp_all
    have step: "(\<exists>i. 2 * i + 2 \<le> length vs \<and> vs ! (2 * i) = vs ! (2 * i + 1)) \<Longrightarrow>
        \<exists>i. 2 * i + 2 \<le> length (u # v # vs) \<and> (u # v # vs) ! (2 * i) = (u # v # vs) ! (2 * i + 1)" for u v :: uint256 and vs
    proof (elim exE)
      fix i assume "2 * i + 2 \<le> length vs \<and> vs ! (2 * i) = vs ! (2 * i + 1)"
      then show ?thesis by (intro exI [of _ "Suc i"]) simp
    qed
    show ?thesis using "3.IH" [OF eq(3)] step [of xs a b] step [of zs c d] eq(1,2) 3 by auto
  qed (use "3.prems" in \<open>auto intro!: exI [of _ 0]\<close>)
qed

definition collision_free :: "(bytes \<Rightarrow> uint256) \<Rightarrow> (uint256 \<times> uint256) set \<Rightarrow> bool" where
  "collision_free H P = inj_on (\<lambda>(a, b). hash_pair H a b) P"

lemma collision_free_mono: "collision_free H P \<Longrightarrow> Q \<subseteq> P \<Longrightarrow> collision_free H Q"
  unfolding collision_free_def by (rule inj_on_subset)

lemma hashed_pairs_up:
  "1 < length xs \<Longrightarrow> set (node_pairs xs) \<subseteq> set (hashed_pairs H xs) \<and> set (hashed_pairs H (pair_up H xs)) \<subseteq> set (hashed_pairs H xs)"
  by (simp add: hashed_pairs.simps [of H xs])

lemma pair_up_nth_eq:
  assumes "collision_free H (set (node_pairs xs))" "pair_up H xs ! i = pair_up H xs ! j" "i < length (pair_up H xs)" "j < length (pair_up H xs)"
  shows "node_pairs xs ! i = node_pairs xs ! j"
  using assms(1) unfolding collision_free_def
  by (rule inj_onD) (use assms(2-4) in \<open>simp_all add: pair_up_node_pairs\<close>)

text \<open>Equal hashes of the last two of complete blocks: their last leaves are equal.\<close>

lemma last_blocks:
  assumes "length zs = (2 * i + 2) * 2 ^ l" "lev H zs l ! (2 * i) = lev H zs l ! (2 * i + 1)" "collision_free H (set (hashed_pairs H zs))"
  shows "zs ! (length zs - 1) = zs ! (length zs - 1 - 2 ^ l)"
  using assms
proof (induction l arbitrary: zs)
  case 0
  then show ?case by simp
next
  case (Suc l)
  let ?us = "pair_up H zs"
  define m where "m = (2 * i + 2) * 2 ^ l"
  have pos: "1 \<le> (2 :: nat) ^ l" by simp
  then have m: "2 ^ l < m" unfolding m_def by simp
  have len: "length zs = 2 * m" "length ?us = m" using Suc.prems(1) by (simp_all add: m_def)
  have "1 < length zs" using len m pos by linarith
  note up = hashed_pairs_up [OF this, of H]
  have "?us ! (m - 1) = ?us ! (m - 1 - 2 ^ l)"
    using Suc.IH [of ?us] Suc.prems(2) len(2) collision_free_mono [OF Suc.prems(3)] up by (simp add: lev_pair_up m_def)
  moreover have "collision_free H (set (node_pairs zs))" using collision_free_mono [OF Suc.prems(3)] up by simp
  ultimately have "node_pairs zs ! (m - 1) = node_pairs zs ! (m - 1 - 2 ^ l)"
    using len(2) m pos by (intro pair_up_nth_eq [of H]) (auto simp del: length_pair_up)
  then have "zs ! (2 * (m - 1) + 1) = zs ! (2 * (m - 1 - 2 ^ l) + 1)" using len(1) m pos by (simp add: nth_node_pairs)
  moreover have "2 * (m - 1) + 1 = length zs - 1" "2 * (m - 1 - 2 ^ l) + 1 = length zs - 1 - 2 ^ Suc l" using len(1) m pos by auto
  ultimately show ?case by metis
qed

lemma duplicated_pair_up:
  assumes "duplicated H (pair_up H xs) (length (pair_up H xs))" "collision_free H (set (hashed_pairs H xs))"
  shows "duplicated H xs (length xs)"
proof -
  obtain l i where d: "(2 * i + 2) * 2 ^ l \<le> (length xs + 1) div 2" "lev H (pair_up H xs) l ! (2 * i) = lev H (pair_up H xs) l ! (2 * i + 1)"
    using assms(1) by (auto simp: duplicated_def)
  have le: "(2 * i + 2) * 2 ^ Suc l \<le> length xs + 1" using d(1) by simp
  show ?thesis
  proof (cases "(2 * i + 2) * 2 ^ Suc l \<le> length xs")
    case True
    then show ?thesis using d(2) unfolding duplicated_def lev_pair_up by blast
  next
    case False
    define k where "k = length xs div 2"
    have eq: "length xs + 1 = (2 * i + 2) * 2 ^ Suc l" using le False by linarith
    then have "even (length xs + 1)" by simp
    then have odd: "odd (length xs)" by simp
    then have k: "length xs = 2 * k + 1" unfolding k_def by simp
    let ?us = "pair_up H xs"
    have us: "length ?us = (2 * i + 2) * 2 ^ l" "length ?us = Suc k" using eq k by simp_all
    have pow: "2 ^ l \<le> k" "1 \<le> (2 :: nat) ^ l" using us by (simp_all add: algebra_simps)
    then have "1 < length xs" using k by linarith
    note up = hashed_pairs_up [OF this, of H]
    have "?us ! k = ?us ! (k - 2 ^ l)"
      using last_blocks [OF us(1) d(2)] collision_free_mono [OF assms(2)] up us(2) by simp
    moreover have "collision_free H (set (node_pairs xs))" using collision_free_mono [OF assms(2)] up by simp
    ultimately have "node_pairs xs ! k = node_pairs xs ! (k - 2 ^ l)" using us(2) by (intro pair_up_nth_eq [of H]) simp_all
    moreover have "node_pairs xs ! (k - 2 ^ l) = (xs ! (2 * (k - 2 ^ l)), xs ! (2 * (k - 2 ^ l) + 1))"
      using k pow by (intro nth_node_pairs) linarith
    ultimately have "xs ! (2 * (k - 2 ^ l)) = xs ! (2 * (k - 2 ^ l) + 1)" using last_node_pair [OF odd, folded k_def] by (metis prod.inject)
    moreover have "(2 * (k - 2 ^ l) + 2) * 2 ^ 0 \<le> length xs" unfolding power_0 mult_1_right using k pow by linarith
    ultimately show ?thesis unfolding duplicated_def by (metis lev_0)
  qed
qed

lemma tree_binding:
  assumes "merkle_tree_root H xs = merkle_tree_root H ys" "xs \<noteq> []" "ys \<noteq> []" "tree_levels (length xs) = tree_levels (length ys)"
    "\<not> duplicated H xs (length xs)" "\<not> duplicated H ys (length ys)"
    "collision_free H (set (hashed_pairs H xs) \<union> set (hashed_pairs H ys))"
  shows "xs = ys"
  using assms
proof (induction H xs arbitrary: ys rule: merkle_tree_root.induct)
  case (1 H xs)
  show ?case
  proof (cases "length xs \<le> 1")
    case True
    then have "length ys \<le> 1" using "1.prems"(4) by (auto simp: tree_levels.simps split: if_splits)
    then show ?thesis using "1.prems"(1-3) True by (cases xs; cases ys) (auto simp: merkle_tree_root.simps)
  next
    case False
    then have long: "\<not> length xs \<le> 1" "\<not> length ys \<le> 1"
      using "1.prems"(4) by (auto simp: tree_levels.simps split: if_splits)
    then have up: "set (node_pairs xs) \<subseteq> set (hashed_pairs H xs)" "set (hashed_pairs H (pair_up H xs)) \<subseteq> set (hashed_pairs H xs)"
        "set (node_pairs ys) \<subseteq> set (hashed_pairs H ys)" "set (hashed_pairs H (pair_up H ys)) \<subseteq> set (hashed_pairs H ys)"
      using hashed_pairs_up [of xs H] hashed_pairs_up [of ys H] by auto
    note cf = collision_free_mono [OF "1.prems"(7)]
    have "pair_up H xs = pair_up H ys"
    proof (rule "1.IH" [OF long(1)])
      show "merkle_tree_root H (pair_up H xs) = merkle_tree_root H (pair_up H ys)"
        using "1.prems"(1) long by (simp add: merkle_tree_root.simps [of H xs] merkle_tree_root.simps [of H ys])
      show "tree_levels (length (pair_up H xs)) = tree_levels (length (pair_up H ys))"
        using "1.prems"(4) long by (simp add: tree_levels.simps [of "length xs"] tree_levels.simps [of "length ys"])
      show "\<not> duplicated H (pair_up H xs) (length (pair_up H xs))" "\<not> duplicated H (pair_up H ys) (length (pair_up H ys))"
        using duplicated_pair_up "1.prems"(5,6) cf by blast+
      show "collision_free H (set (hashed_pairs H (pair_up H xs)) \<union> set (hashed_pairs H (pair_up H ys)))"
        using up by (intro cf) blast
    qed (use long in \<open>auto simp flip: length_greater_0_conv\<close>)
    moreover have "inj_on (\<lambda>(a, b). hash_pair H a b) (set (node_pairs xs) \<union> set (node_pairs ys))"
      using cf [of "set (node_pairs xs) \<union> set (node_pairs ys)"] up unfolding collision_free_def by blast
    ultimately have "node_pairs xs = node_pairs ys" unfolding pair_up_node_pairs by (rule map_inj_on)
    moreover have "\<not> (2 * i + 2 \<le> length zs \<and> zs ! (2 * i) = zs ! (2 * i + 1))" if "\<not> duplicated H zs (length zs)" for i zs
      using that unfolding duplicated_def by (metis lev_0 mult.right_neutral power_0)
    ultimately show ?thesis using node_pairs_eq "1.prems"(5,6) by blast
  qed
qed

text \<open>
  C40. Two different lists of leaves of trees of the same depth, with the same root and neither reported as mutated, exhibit
  a collision of the hash function: two different pairs of nodes, among those that the two computations hash, with the same
  hash.
\<close>

theorem merkle_root_binding:
  assumes "ComputeMerkleRoot Hash xs = Inr (hashMerkleRoot, False)" "ComputeMerkleRoot Hash ys = Inr (hashMerkleRoot, False)"
    "xs \<noteq> []" "ys \<noteq> []" "length xs \<le> 2 ^ 31" "length ys \<le> 2 ^ 31" "tree_levels (length xs) = tree_levels (length ys)" "xs \<noteq> ys"
  shows "\<exists>p \<in> set (hashed_pairs Hash xs @ hashed_pairs Hash ys). \<exists>q \<in> set (hashed_pairs Hash xs @ hashed_pairs Hash ys).
    p \<noteq> q \<and> hash_pair Hash (fst p) (snd p) = hash_pair Hash (fst q) (snd q)"
proof (rule ccontr)
  assume "\<not> ?thesis"
  then have "collision_free Hash (set (hashed_pairs Hash xs) \<union> set (hashed_pairs Hash ys))"
    unfolding collision_free_def inj_on_def case_prod_beta set_append by blast
  then show False
    using tree_binding [of Hash xs ys] assms ComputeMerkleRoot_spec [of xs Hash] ComputeMerkleRoot_spec [of ys Hash] by simp
qed

theorem merkle_root_binding_witness:
  "\<exists>p \<in> set (hashed_pairs (\<lambda>_. 7) [1, 2] @ hashed_pairs (\<lambda>_. 7) [3, 4]).
   \<exists>q \<in> set (hashed_pairs (\<lambda>_. 7) [1, 2] @ hashed_pairs (\<lambda>_. 7) [3, 4]).
     p \<noteq> q \<and> hash_pair (\<lambda>_. 7) (fst p) (snd p) = hash_pair (\<lambda>_. 7) (fst q) (snd q)"
proof (rule merkle_root_binding [where hashMerkleRoot = 7])
  show "ComputeMerkleRoot (\<lambda>_. 7) [1, 2] = Inr (7, False)" by code_simp
  show "ComputeMerkleRoot (\<lambda>_. 7) [3, 4] = Inr (7, False)" by code_simp
qed simp_all

end
