(* ===== verification/Spec2Isabelle.thy ===== *)
theory Spec2Isabelle
  imports Prelude CFloat VoteList DaoTypes CacheTable StateView StateViewLaws DaoRules VoteScan VoteStep VoteScanLaws
    FundLedger VoteFrames FundSteps VoteStepLaws FundGuarantees
    Bytes Script ScriptLaws DaoScript Interpreter InterpreterLaws ArithUint Compact Chain ActiveChain VersionBits VersionBitsLaws Retarget
    Serialize Transaction Compressor Coins CoinsLaws CoinsStore Merkle MerkleLaws
begin

text \<open>
  A verification of the decentralised governance (the DAO) of Navcoin Core, and of the layered state
  view it lives in.

  \<^bold>\<open>The program.\<close> Navcoin is a proof-of-stake chain whose blocks carry votes on fund proposals, payment
  requests, consultations and consultation answers. Every node keeps these objects in the state database
  (\<^verbatim>\<open>txdb.cpp\<close>) behind a stack of write-back caches (\<^verbatim>\<open>coins.cpp\<close>), and runs \<^verbatim>\<open>VoteStep\<close> (\<^verbatim>\<open>consensus/dao.cpp\<close>) for
  every block it connects or disconnects.

  \<^bold>\<open>Theories.\<close>
  \<^item> \<open>Prelude\<close>: machine types, \<^verbatim>\<open>std::map\<close> as key-sorted association lists, results of code that may stop.
  \<^item> \<open>CFloat\<close>: \<^verbatim>\<open>float\<close> and \<^verbatim>\<open>double\<close> rounding.
  \<^item> \<open>VoteList\<close>: \<^verbatim>\<open>CVoteList\<close> and \<^verbatim>\<open>CConsensusParameter\<close>, the two histories indexed by height.
  \<^item> \<open>DaoTypes\<close>: the block index and the four DAO classes, with the contract \<open>dao_item\<close> of their histories.
  \<^item> \<open>CacheTable\<close>, \<open>StateView\<close>, \<open>StateViewLaws\<close>: the state view, the database and their laws.
  \<^item> \<open>DaoRules\<close>: consensus parameters, quorum, majority, expiry, support.
  \<^item> \<open>VoteScan\<close>, \<open>VoteStep\<close>: counting votes and moving the objects through their states.
\<close>

end
